(* ===== verification/Prelude.thy ===== *)
theory Prelude
  imports Main "HOL-Library.Multiset" "HOL-Library.Sublist"
begin

text \<open>
  Shared ground of the development: the exceptions the program raises as one datatype, the
  result type of a computation that may raise, the rule collections the component theories
  fill, and facts about lists, multisets and options that several components use.
  Python's unbounded integers are \<open>int\<close> (sizes and indices that the code keeps non-negative
  are \<open>nat\<close>), its strings are \<open>string\<close>.
\<close>

named_theorems state_simps \<open>unfolding rules of the state transformers\<close>
named_theorems inv_intros \<open>preservation of component invariants\<close>
named_theorems char_simps \<open>unfolding rules of the character classes\<close>

section \<open>Exceptions and results\<close>

text \<open>
  \<open>lib/core/exceptions.py\<close> declares the program's own exception classes; the built-in
  exceptions that the modelled code raises or catches stand beside them.  The message is kept
  where the code builds one.
\<close>

datatype exc =
    CannotConnectException string
  | FileExistsException string
  | InvalidRawRequest string
  | InvalidURLException string
  | RequestException string
  | SkipTargetInterrupt string
  | QuitInterrupt string
  | UnpicklingError string
  | WordlistLimitError string
  | WordlistBackendUnavailableError string
  | StopIteration
  | ValueError string
  | TypeError string
  | AttributeError string
  | KeyError
  | IndexError
  | RuntimeError string
  | OSError string
  | ParseError string
  | UnsafeXML string
  | ImportError string
  | DatabaseError string
  | CancelledError
  | SystemExit string
  | KeyboardInterrupt
  | ZeroDivisionError

type_synonym 'a result = "exc + 'a"

definition rbind :: "'a result \<Rightarrow> ('a \<Rightarrow> 'b result) \<Rightarrow> 'b result" where
  "rbind m f = (case m of Inl e \<Rightarrow> Inl e | Inr x \<Rightarrow> f x)"

lemma rbind_simps [simp]:
  "rbind (Inl e) f = Inl e"
  "rbind (Inr x) f = f x"
  by (simp_all add: rbind_def)

lemma rbind_eq_Inr: "rbind m f = Inr y \<longleftrightarrow> (\<exists>x. m = Inr x \<and> f x = Inr y)"
  by (cases m) auto

lemma rbind_eq_Inl: "rbind m f = Inl e \<longleftrightarrow> m = Inl e \<or> (\<exists>x. m = Inr x \<and> f x = Inl e)"
  by (cases m) auto

text \<open>A loop that applies a fallible step to each element and stops at the first exception.\<close>

fun rmap :: "('a \<Rightarrow> 'b result) \<Rightarrow> 'a list \<Rightarrow> 'b list result" where
  "rmap f [] = Inr []"
| "rmap f (x # xs) = rbind (f x) (\<lambda>y. rbind (rmap f xs) (\<lambda>ys. Inr (y # ys)))"

lemma rmap_eq_Inr: "rmap f xs = Inr ys \<longleftrightarrow> list_all2 (\<lambda>x y. f x = Inr y) xs ys"
  by (induction xs arbitrary: ys) (auto simp: rbind_eq_Inr list_all2_Cons1)

lemma rmap_Inr_iff: "(\<exists>ys. rmap f xs = Inr ys) \<longleftrightarrow> (\<forall>x \<in> set xs. \<exists>y. f x = Inr y)"
  by (induction xs) (auto simp: rbind_eq_Inr)

text \<open>A loop that threads a state through fallible steps.\<close>

fun rfold :: "('a \<Rightarrow> 's \<Rightarrow> 's result) \<Rightarrow> 'a list \<Rightarrow> 's \<Rightarrow> 's result" where
  "rfold f [] s = Inr s"
| "rfold f (x # xs) s = rbind (f x s) (rfold f xs)"

lemma rbind_assoc: "rbind (rbind m f) g = rbind m (\<lambda>x. rbind (f x) g)"
  by (cases m) auto

lemma rbind_Inr_id [simp]: "rbind m Inr = m"
  by (cases m) auto

lemma rbind_cong [fundef_cong]:
  "m = n \<Longrightarrow> (\<And>x. n = Inr x \<Longrightarrow> f x = g x) \<Longrightarrow> rbind m f = rbind n g"
  by (cases n) auto

lemma rfold_append: "rfold f (xs @ ys) s = rbind (rfold f xs s) (rfold f ys)"
  by (induction xs arbitrary: s) (simp_all add: rbind_assoc cong: rbind_cong)

lemma rfold_concat: "rfold f (concat xss) s = rfold (rfold f) xss s"
  by (induction xss arbitrary: s) (simp_all add: rfold_append cong: rbind_cong)

lemma rfold_map: "rfold f (map g xs) s = rfold (\<lambda>x. f (g x)) xs s"
  by (induction xs arbitrary: s) (simp_all cong: rbind_cong)

lemma rfold_cong: "(\<And>x s. x \<in> set xs \<Longrightarrow> f x s = g x s) \<Longrightarrow> rfold f xs s = rfold g xs s"
  by (induction xs arbitrary: s) (auto intro: rbind_cong)

section \<open>Computations with a world\<close>

text \<open>A computation that acts on a world (requests, random words, files), may raise, and keeps the
  world it has reached when it raises.\<close>

type_synonym ('w, 'a) io = "'w \<Rightarrow> 'a result \<times> 'w"

definition ret :: "'a \<Rightarrow> ('w, 'a) io" where
  "ret x w = (Inr x, w)"

definition raise :: "exc \<Rightarrow> ('w, 'a) io" where
  "raise e w = (Inl e, w)"

definition io_bind :: "('w, 'a) io \<Rightarrow> ('a \<Rightarrow> ('w, 'b) io) \<Rightarrow> ('w, 'b) io" where
  "io_bind m f w = (case m w of (Inl e, w') \<Rightarrow> (Inl e, w') | (Inr x, w') \<Rightarrow> f x w')"

lemma io_bind_simps [simp]:
  "io_bind (ret x) f w = f x w"
  "io_bind (raise e) f w = (Inl e, w)"
  by (simp_all add: io_bind_def ret_def raise_def)

lemma ret_eq [simp]: "ret x w = (r, w') \<longleftrightarrow> r = Inr x \<and> w' = w"
  by (auto simp: ret_def)

lemma raise_eq [simp]: "raise e w = (r, w') \<longleftrightarrow> r = Inl e \<and> w' = w"
  by (auto simp: raise_def)

lemma io_bind_eq_Inr:
  "io_bind m f w = (Inr y, w'') \<longleftrightarrow> (\<exists>x w'. m w = (Inr x, w') \<and> f x w' = (Inr y, w''))"
  by (auto simp: io_bind_def split: prod.splits sum.splits)

lemma io_bind_eq_Inl:
  "io_bind m f w = (Inl e, w'') \<longleftrightarrow>
     m w = (Inl e, w'') \<or> (\<exists>x w'. m w = (Inr x, w') \<and> f x w' = (Inl e, w''))"
  by (auto simp: io_bind_def split: prod.splits sum.splits)

lemma io_bind_cong [fundef_cong]:
  "m = m' \<Longrightarrow> w = w' \<Longrightarrow> (\<And>x v. m' w' = (Inr x, v) \<Longrightarrow> f x v = g x v) \<Longrightarrow>
     io_bind m f w = io_bind m' g w'"
  by (auto simp: io_bind_def split: prod.splits sum.splits)

section \<open>Lists\<close>

text \<open>\<open>xs[i:j]\<close> for indices that are not negative.\<close>

definition slice :: "nat \<Rightarrow> nat \<Rightarrow> 'a list \<Rightarrow> 'a list" where
  "slice i j xs = take (j - i) (drop i xs)"

lemma length_slice: "length (slice i j xs) = min (j - i) (length xs - i)"
  by (simp add: slice_def min.commute)

lemma slice_self [simp]: "slice i i xs = []"
  by (simp add: slice_def)

lemma slice_append_drop: "i \<le> j \<Longrightarrow> slice i j xs @ drop j xs = drop i xs"
proof -
  assume "i \<le> j"
  then have "drop j xs = drop (j - i) (drop i xs)" by simp
  then show ?thesis by (simp only: slice_def append_take_drop_id)
qed

lemma take_append_slice: "i \<le> j \<Longrightarrow> take i xs @ slice i j xs = take j xs"
  by (metis le_add_diff_inverse slice_def take_add)

lemma slice_Suc: "i < length xs \<Longrightarrow> slice i (Suc i) xs = [xs ! i]"
  by (simp add: slice_def take_Suc hd_drop_conv_nth)

lemma eq_takeWhile_conv [simp]: "xs = takeWhile P xs \<longleftrightarrow> (\<forall>x \<in> set xs. P x)"
  by (metis takeWhile_eq_all_conv)

text \<open>\<open>list.remove(x)\<close>: the first occurrence goes, \<open>ValueError\<close> when there is none.\<close>

definition list_remove :: "'a \<Rightarrow> 'a list \<Rightarrow> 'a list result" where
  "list_remove x xs =
     (if x \<in> set xs then Inr (remove1 x xs) else Inl (ValueError ''list.remove(x): x not in list''))"

lemma list_remove_mset:
  "list_remove x xs = Inr ys \<Longrightarrow> mset xs = add_mset x (mset ys)"
  by (auto simp: list_remove_def split: if_splits)

text \<open>Insertion order without duplicates, the order a Python dict keeps its keys in.\<close>

fun dedup_from :: "'a list \<Rightarrow> 'a list \<Rightarrow> 'a list" where
  "dedup_from acc [] = acc"
| "dedup_from acc (x # xs) = dedup_from (if x \<in> set acc then acc else acc @ [x]) xs"

lemma set_dedup_from [simp]: "set (dedup_from acc xs) = set acc \<union> set xs"
  by (induction xs arbitrary: acc) auto

lemma distinct_dedup_from: "distinct acc \<Longrightarrow> distinct (dedup_from acc xs)"
  by (induction xs arbitrary: acc) auto

lemma dedup_from_prefix: "\<exists>ys. dedup_from acc xs = acc @ ys"
  by (induction xs arbitrary: acc) (auto split: if_splits, (metis append.assoc)+)

lemma dedup_from_append:
  "dedup_from acc (xs @ ys) = dedup_from (dedup_from acc xs) ys"
  by (induction xs arbitrary: acc) auto

lemma dedup_from_distinct:
  "distinct (acc @ xs) \<Longrightarrow> dedup_from acc xs = acc @ xs"
  by (induction xs arbitrary: acc) auto

lemma length_dedup_from_le: "length (dedup_from acc xs) \<le> length acc + length xs"
proof (induction xs arbitrary: acc)
  case (Cons x xs)
  show ?case
    using Cons.IH [of acc] Cons.IH [of "acc @ [x]"] by simp
qed simp

lemma length_dedup_from_mono: "length acc \<le> length (dedup_from acc xs)"
  using dedup_from_prefix [of acc xs] by auto

lemma mset_take_slice_drop:
  "i \<le> j \<Longrightarrow> mset (take i xs) + mset (slice i j xs) + mset (drop j xs) = mset xs"
  by (metis append_take_drop_id mset_append take_append_slice)

lemma mset_drop_slice:
  "i \<le> j \<Longrightarrow> mset (drop i xs) = mset (slice i j xs) + mset (drop j xs)"
  by (metis mset_append slice_append_drop)

end
