(* ===== verification/PyStr.thy ===== *)
theory PyStr
  imports Prelude
begin

text \<open>
  The operations of Python's \<open>str\<close> the program uses, over \<open>string\<close> (lists of characters).
  The character classes are those of ASCII: the model's strings are ASCII text, and the
  case mappings and \<open>isalnum\<close> of other characters are outside it.
\<close>

section \<open>Characters\<close>

abbreviation code :: "char \<Rightarrow> nat" where "code c \<equiv> of_char c"

definition is_digit :: "char \<Rightarrow> bool" where
  [char_simps]: "is_digit c \<longleftrightarrow> 48 \<le> code c \<and> code c \<le> 57"

definition is_upper :: "char \<Rightarrow> bool" where
  [char_simps]: "is_upper c \<longleftrightarrow> 65 \<le> code c \<and> code c \<le> 90"

definition is_lower :: "char \<Rightarrow> bool" where
  [char_simps]: "is_lower c \<longleftrightarrow> 97 \<le> code c \<and> code c \<le> 122"

definition is_alnum :: "char \<Rightarrow> bool" where
  [char_simps]: "is_alnum c \<longleftrightarrow> is_digit c \<or> is_upper c \<or> is_lower c"

text \<open>\<open>\\w\<close> of a regular expression: letters, digits and the underscore.\<close>

definition is_word :: "char \<Rightarrow> bool" where
  [char_simps]: "is_word c \<longleftrightarrow> is_alnum c \<or> c = CHR ''_''"

text \<open>The characters \<open>str.split()\<close> and \<open>str.strip()\<close> treat as white space.\<close>

definition is_space :: "char \<Rightarrow> bool" where
  [char_simps]: "is_space c \<longleftrightarrow> code c \<in> {9, 10, 11, 12, 13, 28, 29, 30, 31, 32}"

text \<open>
  Upper and lower case letters differ in bit 5 of their code, so the case mappings set or
  clear it.
\<close>

fun set_bit5 :: "bool \<Rightarrow> char \<Rightarrow> char" where
  "set_bit5 b (Char b0 b1 b2 b3 b4 b5 b6 b7) = Char b0 b1 b2 b3 b4 b b6 b7"

definition lower_char :: "char \<Rightarrow> char" where
  [char_simps]: "lower_char c = (if is_upper c then set_bit5 True c else c)"

definition upper_char :: "char \<Rightarrow> char" where
  [char_simps]: "upper_char c = (if is_lower c then set_bit5 False c else c)"

definition lower :: "string \<Rightarrow> string" where
  [char_simps]: "lower s = map lower_char s"

definition upper :: "string \<Rightarrow> string" where
  [char_simps]: "upper s = map upper_char s"

fun capitalize :: "string \<Rightarrow> string" where
  "capitalize [] = []"
| "capitalize (c # s) = upper_char c # lower s"

lemma lower_char_not_upper: "\<not> is_upper (lower_char c)"
  by (cases c) (auto simp: char_simps of_char_Char split: if_splits)

lemma lower_char_idem [simp]: "lower_char (lower_char c) = lower_char c"
  using lower_char_not_upper [of c] by (simp add: lower_char_def)

lemma lower_lower [simp]: "lower (lower s) = lower s"
  by (simp add: lower_def)

lemma length_lower [simp]: "length (lower s) = length s"
  by (simp add: lower_def)

lemma length_upper [simp]: "length (upper s) = length s"
  by (simp add: upper_def)

lemma lower_Nil [simp]: "lower [] = []" and lower_eq_Nil [simp]: "lower s = [] \<longleftrightarrow> s = []"
  by (simp_all add: lower_def)

lemma lower_append: "lower (s @ t) = lower s @ lower t"
  by (simp add: lower_def)

section \<open>Prefixes, suffixes and substrings\<close>

definition starts_with :: "string \<Rightarrow> string \<Rightarrow> bool" where
  "starts_with s p \<longleftrightarrow> take (length p) s = p"

definition ends_with :: "string \<Rightarrow> string \<Rightarrow> bool" where
  "ends_with s p \<longleftrightarrow> starts_with (rev s) (rev p)"

text \<open>\<open>str.startswith\<close> and \<open>str.endswith\<close> with a tuple.\<close>

definition starts_with_any :: "string \<Rightarrow> string list \<Rightarrow> bool" where
  "starts_with_any s ps \<longleftrightarrow> list_ex (starts_with s) ps"

definition ends_with_any :: "string \<Rightarrow> string list \<Rightarrow> bool" where
  "ends_with_any s ps \<longleftrightarrow> list_ex (ends_with s) ps"

text \<open>\<open>s.find(p)\<close>, \<open>None\<close> for -1.\<close>

fun find_sub :: "string \<Rightarrow> string \<Rightarrow> nat option" where
  "find_sub p [] = (if p = [] then Some 0 else None)"
| "find_sub p (c # s) =
     (if starts_with (c # s) p then Some 0 else map_option Suc (find_sub p s))"

definition contains :: "string \<Rightarrow> string \<Rightarrow> bool" where
  "contains s p \<longleftrightarrow> find_sub p s \<noteq> None"

lemma starts_with_iff: "starts_with s p \<longleftrightarrow> (\<exists>t. s = p @ t)"
  unfolding starts_with_def by (metis append_eq_conv_conj append_take_drop_id)

lemma ends_with_iff: "ends_with s p \<longleftrightarrow> (\<exists>t. s = t @ p)"
  unfolding ends_with_def starts_with_iff by (metis rev_append rev_rev_ident)

lemma starts_with_Nil [simp]: "starts_with s []"
  by (simp add: starts_with_def)

lemma starts_with_append [simp]: "starts_with (p @ s) p"
  by (simp add: starts_with_def)

lemma ends_with_append [simp]: "ends_with (s @ p) p"
  by (auto simp: ends_with_iff)

lemma starts_with_Cons: "starts_with (c # s) (d # p) \<longleftrightarrow> c = d \<and> starts_with s p"
  by (auto simp: starts_with_def)

lemma starts_with_single: "starts_with s [c] \<longleftrightarrow> s \<noteq> [] \<and> hd s = c"
  by (cases s) (auto simp: starts_with_def)

lemma ends_with_single: "ends_with s [c] \<longleftrightarrow> s \<noteq> [] \<and> last s = c"
  by (cases s rule: rev_cases) (auto simp: ends_with_def starts_with_def)

lemma find_sub_Some:
  "find_sub p s = Some i \<Longrightarrow> s = take i s @ p @ drop (i + length p) s"
proof (induction p s arbitrary: i rule: find_sub.induct)
  case (2 p c s)
  show ?case
  proof (cases "starts_with (c # s) p")
    case True
    with "2.prems" show ?thesis
      by (auto simp: starts_with_iff)
  next
    case False
    with "2.prems" obtain j where j: "find_sub p s = Some j" and "i = Suc j" by auto
    with "2.IH" [OF False j] show ?thesis by simp
  qed
qed (auto split: if_splits)

lemma find_sub_None: "find_sub p s = None \<longleftrightarrow> (\<nexists>a b. s = a @ p @ b)"
proof (induction p s rule: find_sub.induct)
  case (2 p c s)
  show ?case
  proof (cases "starts_with (c # s) p")
    case True
    then obtain t where "c # s = [] @ p @ t" by (auto simp: starts_with_iff)
    then have "\<exists>a b. c # s = a @ p @ b" by blast
    moreover from True have "find_sub p (c # s) = Some 0" by simp
    ultimately show ?thesis by simp
  next
    case False
    then have "(\<exists>a b. c # s = a @ p @ b) \<longleftrightarrow> (\<exists>a b. s = a @ p @ b)"
      by (auto simp: starts_with_iff Cons_eq_append_conv)
    with False 2 show ?thesis by simp
  qed
qed auto

lemma contains_iff: "contains s p \<longleftrightarrow> (\<exists>a b. s = a @ p @ b)"
  by (auto simp: contains_def find_sub_None)

lemma contains_single: "contains s [c] \<longleftrightarrow> c \<in> set s"
  by (auto simp: contains_iff in_set_conv_decomp)

lemma find_sub_le: "find_sub p s = Some i \<Longrightarrow> i + length p \<le> length s"
proof (induction p s arbitrary: i rule: find_sub.induct)
  case (2 p c s)
  show ?case
  proof (cases "starts_with (c # s) p")
    case True
    then have "length p \<le> length (c # s)" unfolding starts_with_iff by (metis le_add1 length_append)
    with "2.prems" True show ?thesis by simp
  next
    case False
    with "2.prems" obtain j where j: "find_sub p s = Some j" and "i = Suc j" by auto
    with "2.IH" [OF False j] show ?thesis by simp
  qed
qed (auto split: if_splits)

text \<open>\<open>s.count(c)\<close> for one character.\<close>

abbreviation char_count :: "string \<Rightarrow> char \<Rightarrow> nat" where
  "char_count s c \<equiv> count_list s c"

text \<open>\<open>s.replace(old, new)\<close> for a non-empty \<open>old\<close>: occurrences from the left, not overlapping.\<close>

function replace_all :: "string \<Rightarrow> string \<Rightarrow> string \<Rightarrow> string" where
  "replace_all s old new =
     (case s of
        [] \<Rightarrow> []
      | c # s' \<Rightarrow>
          if old \<noteq> [] \<and> starts_with s old
          then new @ replace_all (drop (length old) s) old new
          else c # replace_all s' old new)"
  by pat_completeness auto
termination
  by (relation "measure (\<lambda>(s, old, new). length s)") auto

declare replace_all.simps [simp del]

lemma replace_all_Nil [simp]: "replace_all [] old new = []"
  by (simp add: replace_all.simps)

lemma replace_all_absent: "\<not> contains s old \<Longrightarrow> replace_all s old new = s"
proof (induction s)
  case (Cons c s)
  then have "\<not> starts_with (c # s) old" and "\<not> contains s old"
    by (auto simp: contains_def split: if_splits)
  with Cons.IH show ?case by (simp add: replace_all.simps [of "c # s"])
qed simp

section \<open>Splitting and joining\<close>

text \<open>\<open>s.split(sep)\<close> for a separator of one character: cut at every character satisfying \<open>P\<close>.\<close>

fun split_at :: "(char \<Rightarrow> bool) \<Rightarrow> string \<Rightarrow> string list" where
  "split_at P [] = [[]]"
| "split_at P (c # s) =
     (if P c then [] # split_at P s
      else (case split_at P s of [] \<Rightarrow> [[c]] | w # ws \<Rightarrow> (c # w) # ws))"

abbreviation split_char :: "char \<Rightarrow> string \<Rightarrow> string list" where
  "split_char c \<equiv> split_at (\<lambda>x. x = c)"

fun join :: "string \<Rightarrow> string list \<Rightarrow> string" where
  "join sep [] = []"
| "join sep [w] = w"
| "join sep (w # ws) = w @ sep @ join sep ws"

text \<open>\<open>s.split()\<close>: the words between runs of white space.\<close>

definition words_of :: "string \<Rightarrow> string list" where
  "words_of s = filter (\<lambda>w. w \<noteq> []) (split_at is_space s)"

text \<open>\<open>s.partition(sep)\<close> and \<open>s.rpartition(c)\<close>.\<close>

definition partition :: "string \<Rightarrow> string \<Rightarrow> string \<times> string \<times> string" where
  "partition sep s =
     (case find_sub sep s of
        None \<Rightarrow> (s, [], [])
      | Some i \<Rightarrow> (take i s, sep, drop (i + length sep) s))"

definition rpartition :: "char \<Rightarrow> string \<Rightarrow> string \<times> string \<times> string" where
  "rpartition c s =
     (if c \<in> set s
      then (rev (tl (dropWhile (\<lambda>x. x \<noteq> c) (rev s))), [c], rev (takeWhile (\<lambda>x. x \<noteq> c) (rev s)))
      else ([], [], s))"

lemma split_at_not_Nil [simp]: "split_at P s \<noteq> []"
  by (cases s) (auto split: list.splits)

lemma split_at_Cons_not:
  "\<not> P c \<Longrightarrow> split_at P (c # s) = (c # hd (split_at P s)) # tl (split_at P s)"
  by (cases "split_at P s") auto

lemma split_at_fields: "w \<in> set (split_at P s) \<Longrightarrow> set w \<subseteq> {c \<in> set s. \<not> P c}"
proof (induction s arbitrary: w)
  case (Cons d s)
  show ?case
  proof (cases "P d")
    case True
    with Cons.prems have "w = [] \<or> w \<in> set (split_at P s)" by simp
    with Cons.IH [of w] show ?thesis by auto
  next
    case False
    let ?h = "hd (split_at P s)"
    have "?h \<in> set (split_at P s)" by simp
    with Cons.IH have h: "set ?h \<subseteq> {c \<in> set s. \<not> P c}" by blast
    from False Cons.prems have "w = d # ?h \<or> w \<in> set (tl (split_at P s))"
      by (auto simp: split_at_Cons_not simp del: split_at.simps)
    then have "w = d # ?h \<or> w \<in> set (split_at P s)" by (meson list.set_sel(2) split_at_not_Nil)
    with Cons.IH [of w] h False show ?thesis by auto
  qed
qed simp

lemma hd_split_at: "hd (split_at P s) = takeWhile (\<lambda>c. \<not> P c) s"
  by (induction s) (auto split: list.splits simp: neq_Nil_conv)

lemma split_at_append:
  "P c \<Longrightarrow> \<forall>d \<in> set w. \<not> P d \<Longrightarrow> split_at P (w @ c # s) = w # split_at P s"
  by (induction w) auto

lemma split_at_id: "\<forall>d \<in> set w. \<not> P d \<Longrightarrow> split_at P w = [w]"
  by (induction w) auto

lemma join_split: "join [c] (split_char c s) = s"
proof (induction s)
  case (Cons d s)
  obtain w ws where ws: "split_char c s = w # ws" by (cases "split_char c s") auto
  with Cons show ?case by (cases ws) auto
qed simp

lemma split_join:
  "ws \<noteq> [] \<Longrightarrow> \<forall>w \<in> set ws. c \<notin> set w \<Longrightarrow> split_char c (join [c] ws) = ws"
proof (induction "[c]" ws rule: join.induct)
  case (2 w)
  then show ?case by (auto intro!: split_at_id)
next
  case (3 w v vs)
  then have "split_char c (w @ c # join [c] (v # vs)) = w # split_char c (join [c] (v # vs))"
    by (intro split_at_append) auto
  with 3 show ?case by simp
qed simp

lemma words_of_fields:
  "w \<in> set (words_of s) \<Longrightarrow> w \<noteq> [] \<and> (\<forall>c \<in> set w. \<not> is_space c)"
  using split_at_fields [of w is_space s] by (auto simp: words_of_def)

lemma partition_found:
  "find_sub sep s \<noteq> None \<Longrightarrow>
     s = fst (partition sep s) @ sep @ snd (snd (partition sep s))"
  using find_sub_Some by (auto simp: partition_def)

lemma rpartition_found:
  "c \<in> set s \<Longrightarrow> s = fst (rpartition c s) @ [c] @ snd (snd (rpartition c s))"
proof -
  assume c: "c \<in> set s"
  let ?r = "rev s"
  have "dropWhile (\<lambda>x. x \<noteq> c) ?r \<noteq> []" using c by (simp add: dropWhile_eq_Nil_conv)
  then have "dropWhile (\<lambda>x. x \<noteq> c) ?r = c # tl (dropWhile (\<lambda>x. x \<noteq> c) ?r)"
    by (metis (mono_tags, lifting) hd_dropWhile list.collapse)
  then have "?r = takeWhile (\<lambda>x. x \<noteq> c) ?r @ c # tl (dropWhile (\<lambda>x. x \<noteq> c) ?r)"
    by (metis takeWhile_dropWhile_id)
  then have "s = rev (takeWhile (\<lambda>x. x \<noteq> c) ?r @ c # tl (dropWhile (\<lambda>x. x \<noteq> c) ?r))"
    by (metis rev_rev_ident)
  with c show ?thesis by (simp add: rpartition_def)
qed

section \<open>Stripping\<close>

definition lstrip_p :: "(char \<Rightarrow> bool) \<Rightarrow> string \<Rightarrow> string" where
  "lstrip_p P s = dropWhile P s"

definition rstrip_p :: "(char \<Rightarrow> bool) \<Rightarrow> string \<Rightarrow> string" where
  "rstrip_p P s = rev (dropWhile P (rev s))"

definition strip_p :: "(char \<Rightarrow> bool) \<Rightarrow> string \<Rightarrow> string" where
  "strip_p P s = rstrip_p P (lstrip_p P s)"

abbreviation strip :: "string \<Rightarrow> string" where "strip \<equiv> strip_p is_space"
abbreviation lstrip_char :: "char \<Rightarrow> string \<Rightarrow> string" where "lstrip_char c \<equiv> lstrip_p (\<lambda>x. x = c)"
abbreviation rstrip_char :: "char \<Rightarrow> string \<Rightarrow> string" where "rstrip_char c \<equiv> rstrip_p (\<lambda>x. x = c)"
abbreviation strip_char :: "char \<Rightarrow> string \<Rightarrow> string" where "strip_char c \<equiv> strip_p (\<lambda>x. x = c)"

lemma lstrip_p_hd: "lstrip_p P s \<noteq> [] \<Longrightarrow> \<not> P (hd (lstrip_p P s))"
  by (simp add: lstrip_p_def hd_dropWhile)

lemma rstrip_p_last: "rstrip_p P s \<noteq> [] \<Longrightarrow> \<not> P (last (rstrip_p P s))"
  by (simp add: rstrip_p_def last_rev hd_dropWhile)

lemma rstrip_p_prefix: "\<exists>t. s = rstrip_p P s @ t \<and> (\<forall>c \<in> set t. P c)"
proof -
  have "s = rev (takeWhile P (rev s) @ dropWhile P (rev s))" by simp
  then have "s = rstrip_p P s @ rev (takeWhile P (rev s))"
    by (simp only: rstrip_p_def rev_append)
  then show ?thesis by (metis set_rev set_takeWhileD)
qed

lemma strip_p_ends:
  assumes "strip_p P s \<noteq> []"
  shows "\<not> P (hd (strip_p P s)) \<and> \<not> P (last (strip_p P s))"
proof -
  let ?l = "lstrip_p P s"
  obtain t where "?l = strip_p P s @ t"
    using rstrip_p_prefix [of ?l P] by (auto simp: strip_p_def)
  with assms have "?l \<noteq> []" and "hd (strip_p P s) = hd ?l"
    by (metis append_is_Nil_conv, metis hd_append2)
  with assms show ?thesis
    using lstrip_p_hd rstrip_p_last by (metis strip_p_def)
qed

lemma strip_p_id:
  "s = [] \<or> (\<not> P (hd s) \<and> \<not> P (last s)) \<Longrightarrow> strip_p P s = s"
proof -
  have id: "t = [] \<or> \<not> P (hd t) \<Longrightarrow> dropWhile P t = t" for t by (cases t) auto
  assume a: "s = [] \<or> (\<not> P (hd s) \<and> \<not> P (last s))"
  then have "dropWhile P s = s" by (intro id) auto
  moreover from a have "dropWhile P (rev s) = rev s" by (intro id) (auto simp: hd_rev)
  ultimately show ?thesis by (simp add: strip_p_def lstrip_p_def rstrip_p_def)
qed

section \<open>Numbers\<close>

text \<open>\<open>str(n)\<close> for a natural number, and \<open>int(s)\<close>: white space around, an optional sign, and
  decimal digits with single underscores between them; \<open>None\<close> stands for \<open>ValueError\<close>.\<close>

definition digit_char :: "nat \<Rightarrow> char" where
  "digit_char n = ''0123456789'' ! (n mod 10)"

definition digit_val :: "char \<Rightarrow> nat" where
  "digit_val c = code c - 48"

fun show_nat :: "nat \<Rightarrow> string" where
  "show_nat n = (if n < 10 then [digit_char n] else show_nat (n div 10) @ [digit_char n])"

declare show_nat.simps [simp del]

definition show_int :: "int \<Rightarrow> string" where
  "show_int n = (if n < 0 then CHR ''-'' # show_nat (nat (- n)) else show_nat (nat n))"

fun read_digits :: "nat \<Rightarrow> bool \<Rightarrow> string \<Rightarrow> nat option" where
  "read_digits acc after_digit [] = (if after_digit then Some acc else None)"
| "read_digits acc after_digit (c # s) =
     (if is_digit c then read_digits (10 * acc + digit_val c) True s
      else if c = CHR ''_'' \<and> after_digit then read_digits acc False s
      else None)"

definition py_int :: "string \<Rightarrow> int option" where
  "py_int s =
     (case strip s of
        [] \<Rightarrow> None
      | c # t \<Rightarrow>
          if c = CHR ''-'' then map_option (\<lambda>n. - int n) (read_digits 0 False t)
          else if c = CHR ''+'' then map_option int (read_digits 0 False t)
          else map_option int (read_digits 0 False (c # t)))"

lemma digit_char_props:
  "is_digit (digit_char n)" "digit_val (digit_char n) = n mod 10"
  "\<not> is_space (digit_char n)" "digit_char n \<noteq> CHR ''-''" "digit_char n \<noteq> CHR ''+''"
  "digit_char n \<noteq> CHR '',''"
proof -
  have "n mod 10 = 0 \<or> n mod 10 = 1 \<or> n mod 10 = 2 \<or> n mod 10 = 3 \<or> n mod 10 = 4 \<or>
    n mod 10 = 5 \<or> n mod 10 = 6 \<or> n mod 10 = 7 \<or> n mod 10 = 8 \<or> n mod 10 = 9" by presburger
  then show "is_digit (digit_char n)" "digit_val (digit_char n) = n mod 10"
    "\<not> is_space (digit_char n)" "digit_char n \<noteq> CHR ''-''" "digit_char n \<noteq> CHR ''+''"
    "digit_char n \<noteq> CHR '',''"
    by (elim disjE; simp add: digit_char_def digit_val_def is_digit_def is_space_def)+
qed

lemma show_nat_chars:
  "show_nat n \<noteq> [] \<and> (\<forall>c \<in> set (show_nat n). is_digit c \<and> \<not> is_space c \<and>
     c \<noteq> CHR ''-'' \<and> c \<noteq> CHR ''+'' \<and> c \<noteq> CHR '','')"
proof (induction n rule: show_nat.induct)
  case (1 n)
  then show ?case
    by (subst (1 2) show_nat.simps) (auto simp: digit_char_props)
qed

lemma read_digits_append:
  "\<forall>c \<in> set s. is_digit c \<Longrightarrow> s \<noteq> [] \<Longrightarrow>
     read_digits acc b (s @ t) =
       read_digits (foldl (\<lambda>a c. 10 * a + digit_val c) acc s) True t"
proof (induction s arbitrary: acc b)
  case (Cons c s)
  then show ?case by (cases "s = []") simp_all
qed simp

lemma foldl_show_nat: "foldl (\<lambda>a c. 10 * a + digit_val c) 0 (show_nat n) = n"
proof (induction n rule: show_nat.induct)
  case (1 n)
  show ?case
  proof (cases "n < 10")
    case False
    with 1 show ?thesis by (subst show_nat.simps) (simp add: digit_char_props)
  qed (subst show_nat.simps, simp add: digit_char_props)
qed

lemma read_show_nat: "read_digits 0 b (show_nat n) = Some n"
  using read_digits_append [of "show_nat n" 0 b "[]"] show_nat_chars [of n] foldl_show_nat
  by auto

lemma strip_show_nat [simp]: "strip (show_nat n) = show_nat n"
  using show_nat_chars [of n] by (intro strip_p_id) (metis hd_in_set last_in_set)

lemma strip_show_int [simp]: "strip (show_int n) = show_int n"
proof -
  have "\<not> is_space (hd (show_int n)) \<and> \<not> is_space (last (show_int n))"
    using show_nat_chars [of "nat n"] show_nat_chars [of "nat (- n)"]
    by (auto simp: show_int_def is_space_def)
  then show ?thesis by (intro strip_p_id) simp
qed

theorem py_int_show: "py_int (show_int n) = Some n"
proof (cases "n < 0")
  case True
  then have "strip (show_int n) = CHR ''-'' # show_nat (nat (- n))"
    by (simp only: strip_show_int) (simp add: show_int_def)
  with True show ?thesis by (simp only: py_int_def) (simp add: read_show_nat)
next
  case False
  then have e: "strip (show_int n) = show_nat (nat n)"
    by (simp only: strip_show_int) (simp add: show_int_def)
  obtain c t where ct: "show_nat (nat n) = c # t"
    using show_nat_chars [of "nat n"] by (cases "show_nat (nat n)") auto
  with show_nat_chars [of "nat n"] have "c \<noteq> CHR ''-''" "c \<noteq> CHR ''+''" by auto
  with False e ct read_show_nat [of False "nat n"] show ?thesis
    by (simp only: py_int_def) simp
qed

text \<open>\<open>s.splitlines()\<close>: a line ends at a line break, \<open>\\r\\n\<close> counts as one break, and no empty
  line follows the last break.\<close>

definition is_line_break :: "char \<Rightarrow> bool" where
  [char_simps]: "is_line_break c \<longleftrightarrow> code c \<in> {10, 11, 12, 13, 28, 29, 30}"

fun splitlines_from :: "string \<Rightarrow> string \<Rightarrow> string list" where
  "splitlines_from cur [] = (if cur = [] then [] else [cur])"
| "splitlines_from cur (c # s) =
     (if is_line_break c
      then cur # splitlines_from []
             (if c = CHR 0x0D \<and> starts_with s [CHR 0x0A] then tl s else s)
      else splitlines_from (cur @ [c]) s)"

definition splitlines :: "string \<Rightarrow> string list" where
  "splitlines s = splitlines_from [] s"

end
