(* ===== verification/Settings.thy ===== *)
theory Settings
  imports PyStr Complex_Main
begin

text \<open>
  The constants of \<open>lib/core/settings.py\<close> the modelled code reads, under the source's names in
  lower case.  Tuples and the category dict are lists in the source's order.  Sizes are in
  bytes, times in seconds as rational numbers.
\<close>

section \<open>Wordlist categories\<close>

definition wordlist_categories :: "(string \<times> string) list" where
  "wordlist_categories =
     [(''extensions'', ''extensions.txt''),
      (''conf'', ''conf.txt''),
      (''vcs'', ''vcs.txt''),
      (''backups'', ''backups.txt''),
      (''db'', ''db.txt''),
      (''logs'', ''logs.txt''),
      (''keys'', ''keys.txt''),
      (''web'', ''web.txt''),
      (''common'', ''common.txt''),
      (''aggressive'', ''aggressive.txt''),
      (''php/laravel'', ''php/laravel.txt''),
      (''php/wordpress'', ''php/wordpress.txt''),
      (''php/codeigniter'', ''php/codeigniter.txt''),
      (''php/symfony'', ''php/symfony.txt''),
      (''php/yii'', ''php/yii.txt''),
      (''php/cakephp'', ''php/cakephp.txt''),
      (''php/joomla'', ''php/joomla.txt''),
      (''php/drupal'', ''php/drupal.txt''),
      (''php/magento'', ''php/magento.txt''),
      (''dotnet/aspx'', ''dotnet/aspx.txt''),
      (''dotnet/mvc'', ''dotnet/mvc.txt''),
      (''dotnet/core'', ''dotnet/core.txt''),
      (''coldfusion'', ''coldfusion/coldfusion.txt''),
      (''java/jsp'', ''java/jsp.txt''),
      (''java/jsf'', ''java/jsf.txt''),
      (''java/spring'', ''java/spring.txt''),
      (''python/django'', ''python/django.txt''),
      (''python/flask'', ''python/flask.txt''),
      (''python/fastapi'', ''python/fastapi.txt''),
      (''node/express'', ''node/express.txt''),
      (''infra/docker'', ''infra/docker.txt''),
      (''infra/k8s'', ''infra/k8s.txt''),
      (''infra/aws'', ''infra/aws.txt'')]"

text \<open>The installation directory is where the package happens to live: a parameter of the code that
  builds paths from it.\<close>

section \<open>File names, extensions and media types\<close>

definition invalid_chars_for_windows_filename :: "char list" where
  "invalid_chars_for_windows_filename =
     [CHR 0x22, CHR ''*'', CHR ''<'', CHR ''>'', CHR ''?'', CHR 0x5C, CHR ''|'', CHR ''/'', CHR '':'']"

definition invalid_filename_char_replacement :: char where
  "invalid_filename_char_replacement = CHR ''_''"

definition file_based_output_formats :: "string list" where
  "file_based_output_formats =
     [''simple'', ''plain'', ''json'', ''xml'', ''md'', ''csv'', ''html'', ''sqlite'']"

definition common_extensions :: "string list" where
  "common_extensions =
     [''php'', ''jsp'', ''asp'', ''aspx'', ''do'', ''action'', ''cgi'', ''html'', ''htm'',
      ''js'', ''tar.gz'']"

definition archive_extensions :: "string list" where
  "archive_extensions =
     [''zip'', ''tar'', ''tar.gz'', ''tgz'', ''gz'', ''7z'', ''rar'', ''bak'']"

definition backup_extensions :: "string list" where
  "backup_extensions = archive_extensions @ [''bkp'', ''bkup'', ''old'', ''swn'', ''swp'']"

definition media_extensions :: "string list" where
  "media_extensions =
     [''webm'', ''mkv'', ''avi'', ''ts'', ''mov'', ''qt'', ''amv'', ''mp4'', ''m4p'', ''m4v'',
      ''mp3'', ''swf'', ''mpg'', ''mpeg'', ''jpg'', ''jpeg'', ''pjpeg'', ''png'', ''woff'',
      ''svg'', ''webp'', ''bmp'', ''pdf'', ''wav'', ''vtt'']"

definition exclude_overwrite_extensions :: "string list" where
  "exclude_overwrite_extensions = media_extensions @
     [''axd'', ''cache'', ''coffee'', ''conf'', ''config'', ''css'', ''dll'', ''lock'', ''log'',
      ''key'', ''pub'', ''properties'', ''ini'', ''jar'', ''js'', ''json'', ''toml'', ''txt'',
      ''xml'', ''yaml'', ''yml'']"

definition db_engines :: "string list" where
  "db_engines =
     [''mysql'', ''postgres'', ''postgresql'', ''sqlite'', ''mariadb'', ''mongodb'', ''redis'']"

section \<open>Crawling, authentication and proxies\<close>

definition crawl_attributes :: "string list" where
  "crawl_attributes =
     [''action'', ''cite'', ''data'', ''formaction'', ''href'', ''longdesc'', ''poster'',
      ''src'', ''srcset'', ''xmlns'']"

definition crawl_tags :: "string list" where
  "crawl_tags =
     [''a'', ''area'', ''base'', ''blockquote'', ''button'', ''embed'', ''form'', ''frame'',
      ''frameset'', ''html'', ''iframe'', ''img'', ''input'', ''ins'', ''noframes'', ''object'',
      ''q'', ''script'', ''source'']"

definition authentication_types :: "string list" where
  "authentication_types =
     [''basic'', ''digest'', ''bearer'', ''ntlm'', ''jwt'']"

definition proxy_schemes :: "string list" where
  "proxy_schemes =
     [''http://'', ''https://'', ''socks5://'', ''socks5h://'', ''socks4://'', ''socks4a://'']"

definition standard_port :: "string \<Rightarrow> nat option" where
  "standard_port scheme = map_of [(''http'', 80), (''https'', 443)] scheme"

definition default_test_prefixes :: "string list" where
  "default_test_prefixes =
     [''.'', ''.ht'']"

definition default_test_suffixes :: "string list" where
  "default_test_suffixes =
     [''/'', ''~'']"

definition default_tor_proxies :: "string list" where
  "default_tor_proxies =
     [''socks5://127.0.0.1:9050'', ''socks5://127.0.0.1:9150'']"

definition default_headers :: "(string \<times> string) list" where
  "default_headers =
     [(''user-agent'', ''Mozilla/5.0 (Windows NT 10.0; Win64; x64) AppleWebKit/537.36 (KHTML, like Gecko) Chrome/87.0.4280.88 Safari/537.36''),
      (''accept'', ''*/*''),
      (''accept-encoding'', ''*''),
      (''keep-alive'', ''timeout=15, max=1000''),
      (''cache-control'', ''max-age=0'')]"

section \<open>Markers and limits\<close>

definition reflected_path_marker :: string where "reflected_path_marker = ''__REFLECTED_PATH__''"

definition wildcard_test_point_marker :: string where "wildcard_test_point_marker = ''__WILDCARD_POINT__''"

definition extension_tag :: string where "extension_tag = ''%ext%''"

definition unknown :: string where "unknown = ''unknown''"

definition max_redirects :: nat where "max_redirects = 30"

definition max_response_size :: nat where "max_response_size = 80 * 1024 * 1024"

definition max_response_filename_length :: nat where "max_response_filename_length = 200"

definition max_consecutive_request_errors :: nat where "max_consecutive_request_errors = 75"

definition sigint_force_quit_threshold :: nat where "sigint_force_quit_threshold = 3"

definition sigint_window_seconds :: rat where "sigint_window_seconds = 8 / 10"

text \<open>The bytes of text: \<open>TEXT_CHARS\<close> as a predicate on one byte.\<close>

definition text_chars :: "char \<Rightarrow> bool" where
  "text_chars c \<longleftrightarrow> code c \<in> {7, 8, 9, 10, 12, 13, 27} \<or> (32 \<le> code c \<and> code c \<noteq> 127)"

text \<open>\<open>string.punctuation\<close>.\<close>

definition url_safe_chars :: "char \<Rightarrow> bool" where
  "url_safe_chars c \<longleftrightarrow> 33 \<le> code c \<and> code c \<le> 126 \<and> \<not> is_alnum c"

end
