(* ===== verification/PyUrl.thy ===== *)
theory PyUrl
  imports PyStr
begin

text \<open>
  The part of Python's \<open>urllib.parse\<close>, \<open>html\<close> and \<open>json\<close> the program uses: percent coding,
  splitting, building and joining URLs, the derived parts of a network location, and the two
  escapes of \<open>replace_path\<close>.  The definitions follow CPython's algorithms on the model's
  strings (ASCII characters, or the bytes of UTF-8 text).
\<close>

section \<open>Percent coding\<close>

definition hex_char :: "nat \<Rightarrow> char" where
  "hex_char n = ''0123456789ABCDEF'' ! (n mod 16)"

definition hex_val :: "char \<Rightarrow> nat option" where
  "hex_val c =
     (let n = code c in
      if 48 \<le> n \<and> n \<le> 57 then Some (n - 48)
      else if 65 \<le> n \<and> n \<le> 70 then Some (n - 55)
      else if 97 \<le> n \<and> n \<le> 102 then Some (n - 87)
      else None)"

definition quote_always_safe :: "char \<Rightarrow> bool" where
  "quote_always_safe c \<longleftrightarrow> is_alnum c \<or> c \<in> set ''_.-~''"

definition quote_char :: "(char \<Rightarrow> bool) \<Rightarrow> char \<Rightarrow> string" where
  "quote_char safe c =
     (if quote_always_safe c \<or> safe c then [c]
      else [CHR ''%'', hex_char (code c div 16), hex_char (code c mod 16)])"

definition quote_with :: "(char \<Rightarrow> bool) \<Rightarrow> string \<Rightarrow> string" where
  "quote_with safe s = concat (map (quote_char safe) s)"

text \<open>The default of \<open>quote\<close> keeps the slash.\<close>

definition quote :: "string \<Rightarrow> string" where
  "quote = quote_with (\<lambda>c. c = CHR ''/'')"

fun unquote :: "string \<Rightarrow> string" where
  "unquote [] = []"
| "unquote [a] = [a]"
| "unquote [a, b] = [a, b]"
| "unquote (a # b # c # s) =
     (if a = CHR ''%''
      then (case (hex_val b, hex_val c) of
              (Some h, Some l) \<Rightarrow> char_of (16 * h + l) # unquote s
            | _ \<Rightarrow> a # unquote (b # c # s))
      else a # unquote (b # c # s))"

lemma hex_val_char: "n < 16 \<Longrightarrow> hex_val (hex_char n) = Some n"
proof -
  assume "n < 16"
  then have "n \<in> {0, 1, 2, 3, 4, 5, 6, 7, 8, 9, 10, 11, 12, 13, 14, 15}"
    by (simp only: insert_iff empty_iff) presburger
  then show ?thesis
    by (elim insertE emptyE) (simp_all add: hex_char_def hex_val_def)
qed

lemma unquote_plain: "a \<noteq> CHR ''%'' \<Longrightarrow> unquote (a # s) = a # unquote s"
  by (cases "a # s" rule: unquote.cases) auto

lemma unquote_coded:
  "unquote (CHR ''%'' # hex_char (code c div 16) # hex_char (code c mod 16) # s) = c # unquote s"
proof -
  have "code c < 256" using of_char_mod_256 [of c, where 'a = nat] by (metis mod_less_divisor zero_less_numeral)
  then have "code c div 16 < 16" by (intro less_mult_imp_div_less) simp
  then have "hex_val (hex_char (code c div 16)) = Some (code c div 16)"
    and "hex_val (hex_char (code c mod 16)) = Some (code c mod 16)"
    by (auto intro!: hex_val_char)
  then show ?thesis by simp
qed

declare unquote.simps(4) [simp del]

text \<open>Decoding inverts encoding, whatever set of characters the encoder leaves alone, as long
  as the percent sign is not one of them.\<close>

lemma unquote_quote:
  assumes "\<not> safe (CHR ''%'')"
  shows "unquote (quote_with safe s) = s"
proof (induction s)
  case (Cons c s)
  have "\<not> quote_always_safe (CHR ''%'')" by (simp add: quote_always_safe_def char_simps)
  with assms have plain: "quote_always_safe c \<or> safe c \<Longrightarrow> c \<noteq> CHR ''%''" by auto
  show ?case
  proof (cases "quote_always_safe c \<or> safe c")
    case True
    with Cons plain show ?thesis by (simp add: quote_with_def quote_char_def unquote_plain)
  next
    case False
    with Cons show ?thesis by (simp add: quote_with_def quote_char_def unquote_coded)
  qed
qed (simp add: quote_with_def)

section \<open>IP addresses\<close>

text \<open>The text forms \<open>ipaddress\<close> accepts, as far as a bracketed host needs them.\<close>

definition ipv4_octet :: "string \<Rightarrow> bool" where
  "ipv4_octet s \<longleftrightarrow>
     s \<noteq> [] \<and> list_all is_digit s \<and> length s \<le> 3 \<and> (hd s = CHR ''0'' \<longrightarrow> length s = 1) \<and>
     (case read_digits 0 False s of None \<Rightarrow> False | Some n \<Rightarrow> n \<le> 255)"

definition is_ipv4_address :: "string \<Rightarrow> bool" where
  "is_ipv4_address s \<longleftrightarrow>
     (let ps = split_char (CHR ''.'') s in length ps = 4 \<and> list_all ipv4_octet ps)"

definition hextet :: "string \<Rightarrow> bool" where
  "hextet s \<longleftrightarrow> s \<noteq> [] \<and> length s \<le> 4 \<and> list_all (\<lambda>c. hex_val c \<noteq> None) s"

definition ipv6_parts :: "string list \<Rightarrow> bool" where
  "ipv6_parts ps \<longleftrightarrow>
     (let n = length ps;
          gaps = filter (\<lambda>i. ps ! i = []) [1..<n - 1]
      in n \<le> 9 \<and>
         (case gaps of
            [] \<Rightarrow> n = 8 \<and> list_all hextet ps
          | [k] \<Rightarrow>
              let hi = (if hd ps = [] then k - 1 else k);
                  lo = (if last ps = [] then n - k - 2 else n - k - 1)
              in (hd ps = [] \<longrightarrow> hi = 0) \<and> (last ps = [] \<longrightarrow> lo = 0) \<and> hi + lo < 8 \<and>
                 list_all hextet (take hi ps) \<and> list_all hextet (drop (n - lo) ps)
          | _ \<Rightarrow> False))"

definition is_ipv6_address :: "string \<Rightarrow> bool" where
  "is_ipv6_address s \<longleftrightarrow>
     (let (a, sep, scope) = partition ''%'' s;
          ps = split_char (CHR '':'') a
      in CHR ''/'' \<notin> set s \<and> (sep = [] \<or> (scope \<noteq> [] \<and> CHR ''%'' \<notin> set scope)) \<and>
         3 \<le> length ps \<and>
         (if CHR ''.'' \<in> set (last ps)
          then is_ipv4_address (last ps) \<and> ipv6_parts (butlast ps @ [''0'', ''0''])
          else ipv6_parts ps))"

section \<open>Splitting a URL\<close>

record split_result =
  url_scheme :: string
  url_netloc :: string
  url_path :: string
  url_query :: string
  url_fragment :: string

definition c0_or_space :: "char \<Rightarrow> bool" where "c0_or_space c \<longleftrightarrow> code c \<le> 32"

definition unsafe_url_char :: "char \<Rightarrow> bool" where
  "unsafe_url_char c \<longleftrightarrow> code c \<in> {9, 10, 13}"

definition is_alpha :: "char \<Rightarrow> bool" where "is_alpha c \<longleftrightarrow> is_upper c \<or> is_lower c"

definition scheme_char :: "char \<Rightarrow> bool" where
  "scheme_char c \<longleftrightarrow> is_alnum c \<or> c \<in> set ''+-.''"

text \<open>The scheme and what follows its colon.\<close>

definition split_scheme :: "string \<Rightarrow> string \<times> string" where
  "split_scheme url =
     (let (pre, sep, post) = partition '':'' url
      in if sep \<noteq> [] \<and> pre \<noteq> [] \<and> is_alpha (hd pre) \<and> list_all scheme_char pre
         then (lower pre, post) else ([], url))"

text \<open>The text up to the first character of \<open>/?#\<close>, and the rest.\<close>

definition split_netloc :: "string \<Rightarrow> string \<times> string" where
  "split_netloc s =
     (takeWhile (\<lambda>c. c \<notin> set ''/?#'') s, dropWhile (\<lambda>c. c \<notin> set ''/?#'') s)"

definition bracketed_host :: "string \<Rightarrow> bool" where
  "bracketed_host h \<longleftrightarrow>
     (if starts_with h ''v''
      then (let (v, sep, t) = partition ''.'' (tl h)
            in sep \<noteq> [] \<and> v \<noteq> [] \<and> list_all (\<lambda>c. hex_val c \<noteq> None) v \<and> t \<noteq> [])
      else is_ipv6_address h)"

definition bracketed_netloc :: "string \<Rightarrow> bool" where
  "bracketed_netloc n \<longleftrightarrow>
     (let host_port = snd (snd (rpartition (CHR ''@'') n));
          (pre, opened, inner) = partition ''['' host_port
      in if opened \<noteq> []
         then (let (host, _, port) = partition '']'' inner
               in pre = [] \<and> (port = [] \<or> starts_with port '':'') \<and> bracketed_host host)
         else bracketed_host (fst (partition '':'' host_port)))"

definition netloc_ok :: "string \<Rightarrow> bool" where
  "netloc_ok n \<longleftrightarrow>
     (CHR ''['' \<in> set n \<longleftrightarrow> CHR '']'' \<in> set n) \<and> (CHR ''['' \<in> set n \<longrightarrow> bracketed_netloc n)"

definition urlsplit_with :: "string \<Rightarrow> string \<Rightarrow> split_result result" where
  "urlsplit_with dflt raw =
     (let url = filter (\<lambda>c. \<not> unsafe_url_char c) (lstrip_p c0_or_space raw);
          (sch, s1) = split_scheme url;
          sch = (if sch = [] then dflt else sch);
          (net, s2) = (if starts_with s1 ''//'' then split_netloc (drop 2 s1) else ([], s1));
          (s3, _, frag) = partition ''#'' s2;
          (pth, _, qry) = partition ''?'' s3
      in if netloc_ok net
         then Inr \<lparr>url_scheme = sch, url_netloc = net, url_path = pth, url_query = qry, url_fragment = frag\<rparr>
         else Inl (ValueError ''Invalid IPv6 URL''))"

definition urlsplit :: "string \<Rightarrow> split_result result" where
  "urlsplit = urlsplit_with []"

section \<open>The parts of a network location\<close>

definition hostinfo :: "string \<Rightarrow> string \<times> string option" where
  "hostinfo n =
     (let info = snd (snd (rpartition (CHR ''@'') n));
          (_, opened, inner) = partition ''['' info;
          (host, port) =
            (if opened \<noteq> []
             then (let (h, _, p) = partition '']'' inner in (h, snd (snd (partition '':'' p))))
             else (let (h, _, p) = partition '':'' info in (h, p)))
      in (host, if port = [] then None else Some port))"

definition url_hostname :: "split_result \<Rightarrow> string option" where
  "url_hostname p =
     (let h = fst (hostinfo (url_netloc p));
          (name, percent, zone) = partition ''%'' h
      in if h = [] then None else Some (lower name @ percent @ zone))"

definition url_port :: "split_result \<Rightarrow> nat option result" where
  "url_port p =
     (case snd (hostinfo (url_netloc p)) of
        None \<Rightarrow> Inr None
      | Some s \<Rightarrow>
          if list_all is_digit s
          then (case read_digits 0 False s of
                  None \<Rightarrow> Inl (ValueError ''Port could not be cast to integer value'')
                | Some n \<Rightarrow> if n \<le> 65535 then Inr (Some n)
                            else Inl (ValueError ''Port out of range 0-65535''))
          else Inl (ValueError ''Port could not be cast to integer value''))"

definition url_userinfo :: "split_result \<Rightarrow> (string \<times> string option) option" where
  "url_userinfo p =
     (let (info, at, _) = rpartition (CHR ''@'') (url_netloc p);
          (user, colon, pass) = partition '':'' info
      in if at = [] then None else Some (user, if colon = [] then None else Some pass))"

lemma url_port_range: "url_port p = Inr (Some n) \<Longrightarrow> n \<le> 65535"
  by (auto simp: url_port_def split: option.splits if_splits)

section \<open>Building and joining\<close>

definition uses_relative :: "string list" where
  "uses_relative = ['''', ''ftp'', ''http'', ''gopher'', ''nntp'', ''imap'', ''wais'', ''file'',
     ''https'', ''shttp'', ''mms'', ''prospero'', ''rtsp'', ''rtsps'', ''rtspu'', ''sftp'',
     ''svn'', ''svn+ssh'', ''ws'', ''wss'']"

definition uses_netloc :: "string list" where
  "uses_netloc = ['''', ''ftp'', ''http'', ''gopher'', ''nntp'', ''telnet'', ''imap'', ''wais'',
     ''file'', ''mms'', ''https'', ''shttp'', ''snews'', ''prospero'', ''rtsp'', ''rtsps'',
     ''rtspu'', ''rsync'', ''svn'', ''svn+ssh'', ''sftp'', ''nfs'', ''git'', ''git+ssh'',
     ''ws'', ''wss'', ''itms-services'']"

definition uses_params :: "string list" where
  "uses_params = ['''', ''ftp'', ''hdl'', ''prospero'', ''http'', ''imap'', ''https'',
     ''shttp'', ''rtsp'', ''rtsps'', ''rtspu'', ''sip'', ''sips'', ''mms'', ''sftp'', ''tel'']"

definition urlunsplit :: "split_result \<Rightarrow> string" where
  "urlunsplit p =
     (let u1 = (if url_netloc p \<noteq> []
                then ''//'' @ url_netloc p @
                     (if url_path p \<noteq> [] \<and> \<not> starts_with (url_path p) ''/'' then CHR ''/'' # url_path p else url_path p)
                else if starts_with (url_path p) ''//'' then ''//'' @ url_path p
                else if url_scheme p \<noteq> [] \<and> url_scheme p \<in> set uses_netloc \<and>
                        (url_path p = [] \<or> starts_with (url_path p) ''/'') then ''//'' @ url_path p
                else url_path p);
          u2 = (if url_scheme p \<noteq> [] then url_scheme p @ '':'' @ u1 else u1);
          u3 = (if url_query p \<noteq> [] then u2 @ ''?'' @ url_query p else u2)
      in if url_fragment p \<noteq> [] then u3 @ ''#'' @ url_fragment p else u3)"

text \<open>The parameters after the last segment's first semicolon.\<close>

definition split_params :: "string \<Rightarrow> string \<Rightarrow> string \<times> string" where
  "split_params sch p =
     (if sch \<in> set uses_params \<and> CHR '';'' \<in> set p
      then (let (dir, slash, seg) = rpartition (CHR ''/'') p;
                (a, _, ps) = partition '';'' seg
            in (dir @ slash @ a, ps))
      else (p, []))"

definition with_params :: "string \<Rightarrow> string \<Rightarrow> string" where
  "with_params p ps = (if ps \<noteq> [] then p @ '';'' @ ps else p)"

fun resolve_dots :: "string list \<Rightarrow> string list \<Rightarrow> string list" where
  "resolve_dots acc [] = acc"
| "resolve_dots acc (seg # segs) =
     (if seg = ''..'' then resolve_dots (butlast acc) segs
      else if seg = ''.'' then resolve_dots acc segs
      else resolve_dots (acc @ [seg]) segs)"

text \<open>Empty segments survive only at the two ends of a path joined to a base.\<close>

definition inner_nonempty :: "string list \<Rightarrow> string list" where
  "inner_nonempty segs =
     (if length segs \<le> 2 then segs
      else hd segs # filter (\<lambda>s. s \<noteq> []) (butlast (tl segs)) @ [last segs])"

definition join_path :: "string \<Rightarrow> string \<Rightarrow> string" where
  "join_path base_path p =
     (let base_parts = split_char (CHR ''/'') base_path;
          base_parts = (if last base_parts = [] then base_parts else butlast base_parts);
          segs = (if starts_with p ''/'' then split_char (CHR ''/'') p
                  else inner_nonempty (base_parts @ split_char (CHR ''/'') p));
          res = resolve_dots [] segs;
          res = (if last segs = ''.'' \<or> last segs = ''..'' then res @ [[]] else res);
          joined = join ''/'' res
      in if joined = [] then ''/'' else joined)"

definition urljoin :: "string \<Rightarrow> string \<Rightarrow> string result" where
  "urljoin base url =
     (if base = [] then Inr url
      else if url = [] then Inr base
      else rbind (urlsplit base) (\<lambda>b. rbind (urlsplit_with (url_scheme b) url) (\<lambda>u.
        let (bpath, bparams) = split_params (url_scheme b) (url_path b);
            (upath, uparams) = split_params (url_scheme u) (url_path u)
        in if url_scheme u \<noteq> url_scheme b \<or> url_scheme u \<notin> set uses_relative then Inr url
           else if url_scheme u \<in> set uses_netloc \<and> url_netloc u \<noteq> []
           then Inr (urlunsplit (u\<lparr>url_path := with_params upath uparams\<rparr>))
           else (let u' = (if url_scheme u \<in> set uses_netloc then u\<lparr>url_netloc := url_netloc b\<rparr> else u)
                 in if upath = [] \<and> uparams = []
                    then Inr (urlunsplit (u'\<lparr>url_path := with_params bpath bparams,
                                url_query := if url_query u = [] then url_query b else url_query u\<rparr>))
                    else Inr (urlunsplit (u'\<lparr>url_path := with_params (join_path bpath upath) uparams\<rparr>))))))"

section \<open>Escapes of markup and of JSON strings\<close>

definition html_escape :: "string \<Rightarrow> string" where
  "html_escape s =
     concat (map (\<lambda>c. if c = CHR ''&'' then ''&amp;''
                      else if c = CHR ''<'' then ''&lt;''
                      else if c = CHR ''>'' then ''&gt;''
                      else if c = CHR 0x22 then ''&quot;''
                      else if c = CHR 0x27 then ''&#x27;''
                      else [c]) s)"

definition json_char :: "char \<Rightarrow> string" where
  "json_char c =
     (let n = code c in
      if n = 34 then [CHR 0x5C, CHR 0x22]
      else if n = 92 then [CHR 0x5C, CHR 0x5C]
      else if n = 10 then [CHR 0x5C, CHR ''n'']
      else if n = 13 then [CHR 0x5C, CHR ''r'']
      else if n = 9 then [CHR 0x5C, CHR ''t'']
      else if n = 8 then [CHR 0x5C, CHR ''b'']
      else if n = 12 then [CHR 0x5C, CHR ''f'']
      else if n < 32 then CHR 0x5C # ''u00'' @ map lower_char [hex_char (n div 16), hex_char (n mod 16)]
      else [c])"

definition json_dumps_str :: "string \<Rightarrow> string" where
  "json_dumps_str s = [CHR 0x22] @ concat (map json_char s) @ [CHR 0x22]"

end
