(* ===== verification/PyRe.thy ===== *)
theory PyRe
  imports PyStr
begin

text \<open>
  A matcher for the part of Python's \<open>re\<close> the program's fixed patterns use: character
  classes, sequence, alternation in priority order, greedy repetition, groups, the anchors
  \<open>^\<close>, \<open>$\<close> and \<open>\\b\<close>, and positive lookahead.  \<open>rmatch\<close> lists the ways a pattern matches at a
  position in the order Python's backtracking tries them, so the head of the list is the match
  Python reports.  Patterns are terms of the datatype \<open>rx\<close>; each component states the one it
  uses beside the source's literal.
\<close>

section \<open>Patterns and the matcher\<close>

datatype rx =
    Eps
  | Chr "char \<Rightarrow> bool"
  | Seq rx rx
  | Alt rx rx
  | Star rx
  | Cap nat rx
  | Bol
  | Eol
  | Wordb
  | Ahead rx

text \<open>A position: the text to the left, reversed, the text to the right, and the groups so far.\<close>

type_synonym mstate = "string \<times> string \<times> (nat \<times> string) list"

abbreviation rest :: "mstate \<Rightarrow> string" where "rest m \<equiv> fst (snd m)"

definition at_word :: "string \<Rightarrow> bool" where
  "at_word s = (case s of [] \<Rightarrow> False | c # _ \<Rightarrow> is_word c)"

function rmatch :: "rx \<Rightarrow> mstate \<Rightarrow> mstate list" where
  "rmatch Eps m = [m]"
| "rmatch (Chr P) m =
     (case rest m of
        [] \<Rightarrow> []
      | x # s \<Rightarrow> if P x then [(x # fst m, s, snd (snd m))] else [])"
| "rmatch (Seq a b) m = concat (map (\<lambda>m'. rmatch b m') (rmatch a m))"
| "rmatch (Alt a b) m = rmatch a m @ rmatch b m"
| "rmatch (Star a) m =
     concat (map (\<lambda>m'. if length (rest m') < length (rest m) then rmatch (Star a) m' else [])
               (rmatch a m)) @ [m]"
| "rmatch (Cap n a) m =
     map (\<lambda>m'. (fst m', rest m',
                 (n, rev (take (length (fst m') - length (fst m)) (fst m'))) # snd (snd m')))
       (rmatch a m)"
| "rmatch Bol m = (if fst m = [] then [m] else [])"
| "rmatch Eol m = (if rest m = [] \<or> rest m = [CHR 0x0A] then [m] else [])"
| "rmatch Wordb m = (if at_word (fst m) \<noteq> at_word (rest m) then [m] else [])"
| "rmatch (Ahead a) m = (if rmatch a m = [] then [] else [m])"
  by pat_completeness auto
termination
  by (relation "measures [\<lambda>(r, m). size r, \<lambda>(r, m). length (rest m)]") auto

text \<open>The equation of the repetition calls itself on the positions after one round: it is
  unfolded by hand.\<close>

lemmas rmatch_Star = rmatch.simps(5)
declare rmatch.simps(5) [simp del]

section \<open>Derived patterns\<close>

definition Lit :: "char \<Rightarrow> rx" where "Lit c = Chr (\<lambda>x. x = c)"

text \<open>A literal under \<open>re.IGNORECASE\<close>.\<close>

definition LitI :: "char \<Rightarrow> rx" where "LitI c = Chr (\<lambda>x. lower_char x = lower_char c)"

fun Str :: "string \<Rightarrow> rx" where
  "Str [] = Eps"
| "Str (c # s) = Seq (Lit c) (Str s)"

fun StrI :: "string \<Rightarrow> rx" where
  "StrI [] = Eps"
| "StrI (c # s) = Seq (LitI c) (StrI s)"

definition Opt :: "rx \<Rightarrow> rx" where "Opt a = Alt a Eps"
definition Plus :: "rx \<Rightarrow> rx" where "Plus a = Seq a (Star a)"

text \<open>\<open>a{n}\<close>, \<open>a{n,}\<close> and \<open>a{n,m}\<close>.\<close>

fun Times :: "nat \<Rightarrow> rx \<Rightarrow> rx" where
  "Times 0 a = Eps"
| "Times (Suc n) a = Seq a (Times n a)"

fun UpTo :: "nat \<Rightarrow> rx \<Rightarrow> rx" where
  "UpTo 0 a = Eps"
| "UpTo (Suc n) a = Opt (Seq a (UpTo n a))"

definition AtLeast :: "nat \<Rightarrow> rx \<Rightarrow> rx" where "AtLeast n a = Seq (Times n a) (Star a)"
definition Between :: "nat \<Rightarrow> nat \<Rightarrow> rx \<Rightarrow> rx" where
  "Between n m a = Seq (Times n a) (UpTo (m - n) a)"

text \<open>\<open>.\<close> matches any character but a newline.\<close>

definition Dot :: rx where "Dot = Chr (\<lambda>x. x \<noteq> CHR 0x0A)"

fun Seqs :: "rx list \<Rightarrow> rx" where
  "Seqs [] = Eps"
| "Seqs [a] = a"
| "Seqs (a # as) = Seq a (Seqs as)"

fun Alts :: "rx list \<Rightarrow> rx" where
  "Alts [] = Chr (\<lambda>_. False)"
| "Alts [a] = a"
| "Alts (a # as) = Alt a (Alts as)"

lemmas rx_defs = Lit_def LitI_def Opt_def Plus_def AtLeast_def Between_def Dot_def

section \<open>The functions of the module\<close>

text \<open>A match object: the matched text and its groups.\<close>

record match_obj =
  matched :: string
  groups :: "(nat \<times> string) list"
  after :: string

definition match_from :: "rx \<Rightarrow> string \<Rightarrow> string \<Rightarrow> match_obj option" where
  "match_from r l s =
     (case rmatch r (l, s, []) of
        [] \<Rightarrow> None
      | m # _ \<Rightarrow> Some \<lparr>matched = take (length s - length (rest m)) s,
                        groups = snd (snd m), after = rest m\<rparr>)"

definition re_match :: "rx \<Rightarrow> string \<Rightarrow> match_obj option" where
  "re_match r s = match_from r [] s"

definition re_fullmatch :: "rx \<Rightarrow> string \<Rightarrow> match_obj option" where
  "re_fullmatch r s =
     (case filter (\<lambda>m. rest m = []) (rmatch r ([], s, [])) of
        [] \<Rightarrow> None
      | m # _ \<Rightarrow> Some \<lparr>matched = s, groups = snd (snd m), after = []\<rparr>)"

fun search_from :: "rx \<Rightarrow> string \<Rightarrow> string \<Rightarrow> match_obj option" where
  "search_from r l [] = match_from r l []"
| "search_from r l (c # s) =
     (case match_from r l (c # s) of
        Some m \<Rightarrow> Some m
      | None \<Rightarrow> search_from r (c # l) s)"

definition re_search :: "rx \<Rightarrow> string \<Rightarrow> match_obj option" where
  "re_search r s = search_from r [] s"

definition group :: "nat \<Rightarrow> match_obj \<Rightarrow> string option" where
  "group n m = map_of (groups m) n"

text \<open>
  \<open>re.sub\<close> and \<open>re.findall\<close> for patterns that match no empty string, as all the program's are.
\<close>

function sub_from :: "rx \<Rightarrow> (match_obj \<Rightarrow> string) \<Rightarrow> string \<Rightarrow> string \<Rightarrow> string" where
  "sub_from r f l s =
     (case s of
        [] \<Rightarrow> []
      | c # s' \<Rightarrow>
          (case match_from r l s of
             None \<Rightarrow> c # sub_from r f (c # l) s'
           | Some m \<Rightarrow>
               if matched m = [] then c # sub_from r f (c # l) s'
               else f m @ sub_from r f (rev (matched m) @ l) (drop (length (matched m)) s)))"
  by pat_completeness auto
termination
  by (relation "measure (\<lambda>(r, f, l, s). length s)") auto

declare sub_from.simps [simp del]

definition re_sub :: "rx \<Rightarrow> (match_obj \<Rightarrow> string) \<Rightarrow> string \<Rightarrow> string" where
  "re_sub r f s = sub_from r f [] s"

function find_from :: "rx \<Rightarrow> string \<Rightarrow> string \<Rightarrow> match_obj list" where
  "find_from r l s =
     (case s of
        [] \<Rightarrow> []
      | c # s' \<Rightarrow>
          (case match_from r l s of
             None \<Rightarrow> find_from r (c # l) s'
           | Some m \<Rightarrow>
               if matched m = [] then find_from r (c # l) s'
               else m # find_from r (rev (matched m) @ l) (drop (length (matched m)) s)))"
  by pat_completeness auto
termination
  by (relation "measure (\<lambda>(r, l, s). length s)") auto

declare find_from.simps [simp del]

text \<open>\<open>re.findall\<close> with one group gives the group's text.\<close>

definition re_findall1 :: "rx \<Rightarrow> string \<Rightarrow> string list" where
  "re_findall1 r s =
     map (\<lambda>m. case group 1 m of None \<Rightarrow> [] | Some g \<Rightarrow> g) (find_from r [] s)"

section \<open>Every match consumes a prefix\<close>

lemma rmatch_split:
  "m' \<in> set (rmatch r m) \<Longrightarrow> \<exists>u. rest m = u @ rest m' \<and> fst m' = rev u @ fst m"
proof (induction r m arbitrary: m' rule: rmatch.induct)
  case (2 P m)
  then obtain x s where "rest m = x # s" and "m' = (x # fst m, s, snd (snd m))"
    by (cases "rest m") (auto split: if_splits)
  then show ?case by (intro exI [of _ "[x]"]) simp
next
  case (3 a b m)
  then obtain m1 where m1: "m1 \<in> set (rmatch a m)" and m2: "m' \<in> set (rmatch b m1)" by auto
  from "3.IH"(1) [OF m1] "3.IH"(2) [OF m1 m2] obtain u v where
    "rest m = u @ rest m1" "fst m1 = rev u @ fst m"
    "rest m1 = v @ rest m'" "fst m' = rev v @ fst m1" by (elim exE conjE)
  then show ?case by (intro exI [of _ "u @ v"]) simp
next
  case (4 a b m)
  from "4.prems" consider "m' \<in> set (rmatch a m)" | "m' \<in> set (rmatch b m)" by auto
  then show ?case by cases (erule "4.IH")+
next
  case (5 a m)
  show ?case
  proof (cases "m' = m")
    case False
    with "5.prems" obtain m1 where m1: "m1 \<in> set (rmatch a m)"
      and m1': "m' \<in> set (if length (rest m1) < length (rest m) then rmatch (Star a) m1 else [])"
      unfolding rmatch_Star [of a m] by auto
    then have lt: "length (rest m1) < length (rest m)" and m': "m' \<in> set (rmatch (Star a) m1)"
      by (simp_all split: if_splits)
    from "5.IH"(1) [OF m1] "5.IH"(2) [OF m1 lt m'] obtain u v where
      "rest m = u @ rest m1" "fst m1 = rev u @ fst m"
      "rest m1 = v @ rest m'" "fst m' = rev v @ fst m1" by (elim exE conjE)
    then show ?thesis by (intro exI [of _ "u @ v"]) simp
  qed simp
next
  case (6 n a m)
  then obtain m1 where "m1 \<in> set (rmatch a m)" and "rest m' = rest m1" and "fst m' = fst m1"
    by auto
  with "6.IH" show ?case by simp
qed (simp_all split: list.splits if_splits)

lemma match_from_split:
  assumes "match_from r l s = Some m"
  shows "s = matched m @ after m"
proof -
  obtain p ps where p: "rmatch r (l, s, []) = p # ps"
    using assms by (auto simp: match_from_def split: list.splits)
  have "p \<in> set (rmatch r (l, s, []))" using p by simp
  then obtain u where "rest (l, s, []) = u @ rest p"
    using rmatch_split by blast
  with assms p show ?thesis by (auto simp: match_from_def)
qed

lemma search_from_Some:
  "search_from r l s = Some m \<Longrightarrow> \<exists>u. match_from r (rev u @ l) (drop (length u) s) = Some m \<and> s = u @ drop (length u) s"
proof (induction r l s rule: search_from.induct)
  case (2 r l c s)
  show ?case
  proof (cases "match_from r l (c # s)")
    case None
    with 2 obtain u where "match_from r (rev u @ c # l) (drop (length u) s) = Some m"
      "s = u @ drop (length u) s" by auto
    then show ?thesis by (intro exI [of _ "c # u"]) simp
  next
    case (Some m')
    with 2 show ?thesis by (intro exI [of _ "[]"]) simp
  qed
qed (auto intro: exI [of _ "[]"])

text \<open>\<open>re.search\<close> fails exactly when the pattern matches at no position.\<close>

lemma search_from_None:
  "search_from r l s = None \<longleftrightarrow>
     (\<forall>u v. s = u @ v \<longrightarrow> rmatch r (rev u @ l, v, []) = [])"
proof (induction r l s rule: search_from.induct)
  case (1 r l)
  then show ?case by (auto simp: match_from_def split: list.splits)
next
  case (2 r l c s)
  have "(\<forall>u v. c # s = u @ v \<longrightarrow> rmatch r (rev u @ l, v, []) = []) \<longleftrightarrow>
    rmatch r (l, c # s, []) = [] \<and> (\<forall>u v. s = u @ v \<longrightarrow> rmatch r (rev u @ c # l, v, []) = [])"
  proof (intro iffI conjI allI impI)
    assume a: "\<forall>u v. c # s = u @ v \<longrightarrow> rmatch r (rev u @ l, v, []) = []"
    show "rmatch r (l, c # s, []) = []" using a [rule_format, of "[]" "c # s"] by simp
    fix u v
    assume "s = u @ v"
    then show "rmatch r (rev u @ c # l, v, []) = []" using a [rule_format, of "c # u" v] by simp
  next
    fix u v
    assume a: "rmatch r (l, c # s, []) = [] \<and> (\<forall>u v. s = u @ v \<longrightarrow> rmatch r (rev u @ c # l, v, []) = [])"
      and "c # s = u @ v"
    then show "rmatch r (rev u @ l, v, []) = []" by (cases u) auto
  qed
  with 2 show ?case by (auto simp: match_from_def split: list.splits)
qed

section \<open>Matching literal text and runs\<close>

lemma rmatch_Str:
  "rmatch (Str w) m =
     (if starts_with (rest m) w then [(rev w @ fst m, drop (length w) (rest m), snd (snd m))] else [])"
proof (induction w arbitrary: m)
  case (Cons c w)
  show ?case
    by (cases "rest m") (auto simp: Lit_def Cons.IH starts_with_def)
qed simp

text \<open>\<open>.*\<close> reaches every split of the text before the next newline.\<close>

lemma rmatch_Star_Chr:
  "rmatch (Star (Chr P)) (l, x # s, g) =
     (if P x then rmatch (Star (Chr P)) (x # l, s, g) @ [(l, x # s, g)] else [(l, x # s, g)])"
  by (subst rmatch_Star) simp

lemma rmatch_Star_Chr_Nil [simp]: "rmatch (Star (Chr P)) (l, [], g) = [(l, [], g)]"
  by (subst rmatch_Star) simp

lemma rmatch_Star_Chr_set:
  "set (rmatch (Star (Chr P)) (l, s, g)) =
     {(rev u @ l, v, g) | u v. s = u @ v \<and> (\<forall>x \<in> set u. P x)}"
proof (induction s arbitrary: l)
  case (Cons x s)
  have splits: "{(rev u @ l, v, g) | u v. x # s = u @ v \<and> (\<forall>x \<in> set u. P x)} =
    insert (l, x # s, g)
      (if P x then {(rev u @ x # l, v, g) | u v. s = u @ v \<and> (\<forall>x \<in> set u. P x)} else {})"
    by (auto simp: Cons_eq_append_conv)
  show ?case
    unfolding splits rmatch_Star_Chr using Cons.IH [of "x # l"] by simp
qed auto

lemma rmatch_Star_Chr_hd:
  "rmatch (Star (Chr P)) (l, s, g) \<noteq> [] \<and>
   hd (rmatch (Star (Chr P)) (l, s, g)) = (rev (takeWhile P s) @ l, dropWhile P s, g)"
proof (induction s arbitrary: l)
  case (Cons x s)
  show ?case
    unfolding rmatch_Star_Chr using Cons.IH [of "x # l"] by simp
qed simp

lemma rmatch_Seq_set: "set (rmatch (Seq a b) m) = (\<Union>m' \<in> set (rmatch a m). set (rmatch b m'))"
  by simp

lemma rmatch_Alt_set: "set (rmatch (Alt a b) m) = set (rmatch a m) \<union> set (rmatch b m)"
  by simp

end
