(* ===== verification/Common.thy ===== *)
theory Common
  imports Settings PyUrl PyRe
begin

text \<open>
  The helpers of \<open>lib/utils/common.py\<close>: stripping and de-duplicating option lists, quoting,
  file names, sizes, the binary check, browser-style path merging, and the replacement of a
  request path in a response body.  \<open>get_config_file\<close> and \<open>read_stdin\<close> only touch the
  environment and are not modelled.
\<close>

section \<open>Lists and affixes\<close>

definition strip_and_uniquify_callback :: "string list \<Rightarrow> string \<Rightarrow> string list" where
  "strip_and_uniquify_callback array item =
     (let item = strip item in
      if item = [] \<or> item \<in> set array then array else array @ [item])"

definition strip_and_uniquify :: "string list \<Rightarrow> string list" where
  "strip_and_uniquify array = foldl strip_and_uniquify_callback [] array"

definition lstrip_once :: "string \<Rightarrow> string \<Rightarrow> string" where
  "lstrip_once s pattern = (if starts_with s pattern then drop (length pattern) s else s)"

text \<open>For an empty pattern the slice \<open>[:-0]\<close> is empty.\<close>

definition rstrip_once :: "string \<Rightarrow> string \<Rightarrow> string" where
  "rstrip_once s pattern =
     (if ends_with s pattern
      then (if pattern = [] then [] else take (length s - length pattern) s) else s)"

lemma strip_and_uniquify_dedup:
  "foldl strip_and_uniquify_callback acc xs =
     dedup_from acc (filter (\<lambda>w. w \<noteq> []) (map strip xs))"
  by (induction xs arbitrary: acc) (auto simp: strip_and_uniquify_callback_def Let_def)

lemma strip_and_uniquify_eq:
  "strip_and_uniquify xs = dedup_from [] (filter (\<lambda>w. w \<noteq> []) (map strip xs))"
  by (simp add: strip_and_uniquify_def strip_and_uniquify_dedup)

lemma strip_and_uniquify_set:
  "set (strip_and_uniquify xs) = strip ` set xs - {[]}"
  by (auto simp: strip_and_uniquify_eq)

lemma strip_and_uniquify_distinct: "distinct (strip_and_uniquify xs)"
  by (simp add: strip_and_uniquify_eq distinct_dedup_from)

lemma strip_strip [simp]: "strip_p P (strip_p P s) = strip_p P s"
  using strip_p_ends [of P s] by (intro strip_p_id) auto

text \<open>The result is a fixed point: cleaning a cleaned list changes nothing.\<close>

lemma strip_and_uniquify_idem:
  "strip_and_uniquify (strip_and_uniquify xs) = strip_and_uniquify xs"
proof -
  let ?ys = "strip_and_uniquify xs"
  have fix_: "\<forall>y \<in> set ?ys. strip y = y \<and> y \<noteq> []" by (auto simp: strip_and_uniquify_set)
  then have "map strip ?ys = ?ys" and "filter (\<lambda>w. w \<noteq> []) ?ys = ?ys"
    by (simp_all add: map_idI)
  then show ?thesis
    using dedup_from_distinct [of "[]" ?ys]
    by (subst strip_and_uniquify_eq) (simp add: strip_and_uniquify_distinct)
qed

lemma lstrip_once_append [simp]: "lstrip_once (p @ s) p = s"
  by (simp add: lstrip_once_def)

lemma rstrip_once_append: "p \<noteq> [] \<Longrightarrow> rstrip_once (s @ p) p = s"
  by (simp add: rstrip_once_def)

section \<open>Quoting and file names\<close>

definition safequote :: "string \<Rightarrow> string" where
  "safequote s = quote_with url_safe_chars s"

definition get_valid_filename :: "string \<Rightarrow> string" where
  "get_valid_filename s =
     foldl (\<lambda>s c. replace_all s [c] [invalid_filename_char_replacement]) s
       invalid_chars_for_windows_filename"

lemma replace_all_char: "replace_all s [a] [b] = map (\<lambda>c. if c = a then b else c) s"
proof (induction s)
  case (Cons c s)
  then show ?case
    by (subst replace_all.simps) (simp add: starts_with_single)
qed simp

lemma get_valid_filename_map:
  "get_valid_filename s =
     map (\<lambda>c. if c \<in> set invalid_chars_for_windows_filename
               then invalid_filename_char_replacement else c) s"
  by (simp add: get_valid_filename_def invalid_chars_for_windows_filename_def
      replace_all_char invalid_filename_char_replacement_def o_def)

lemma get_valid_filename_valid:
  "set (get_valid_filename s) \<inter> set invalid_chars_for_windows_filename = {}"
  unfolding get_valid_filename_map
  by (auto simp: invalid_chars_for_windows_filename_def invalid_filename_char_replacement_def)

lemma length_get_valid_filename [simp]: "length (get_valid_filename s) = length s"
  by (simp add: get_valid_filename_map)

section \<open>Sizes\<close>

text \<open>\<open>round(a / b)\<close>: to the nearest integer, halves to the even one.\<close>

definition round_div :: "int \<Rightarrow> int \<Rightarrow> int" where
  "round_div a b =
     (let q = a div b; r = a mod b in
      if 2 * r < b then q else if 2 * r > b then q + 1 else if even q then q else q + 1)"

definition size_units :: "string list" where
  "size_units = [''B'', ''KB'', ''MB'', ''GB'', ''TB'', ''PB'', ''EB'', ''ZB'', ''YB'']"

fun readable_size_loop :: "string list \<Rightarrow> int \<Rightarrow> string" where
  "readable_size_loop [] num = show_int num @ ''TB''"
| "readable_size_loop (unit # units) num =
     (if - 1024 < num \<and> num < 1024 then show_int num @ unit
      else readable_size_loop units (round_div num 1024))"

definition get_readable_size :: "int \<Rightarrow> string" where
  "get_readable_size num = readable_size_loop size_units num"

text \<open>The header value is absent (\<open>int(None)\<close>, a \<open>TypeError\<close>) or text.\<close>

definition get_response_length :: "string option \<Rightarrow> int \<Rightarrow> int" where
  "get_response_length content_length body_length =
     (case content_length of
        None \<Rightarrow> body_length
      | Some s \<Rightarrow>
          (case py_int s of
             None \<Rightarrow> body_length
           | Some len \<Rightarrow> if 0 \<le> len then len else body_length))"

definition is_binary :: "string \<Rightarrow> bool" where
  "is_binary bytes \<longleftrightarrow> filter (\<lambda>c. \<not> text_chars c) bytes \<noteq> []"

lemma get_response_length_nonneg: "0 \<le> body_length \<Longrightarrow> 0 \<le> get_response_length h body_length"
  by (auto simp: get_response_length_def split: option.splits)

lemma is_binary_iff: "is_binary bytes \<longleftrightarrow> (\<exists>c \<in> set bytes. \<not> text_chars c)"
  by (auto simp: is_binary_def filter_empty_conv)

lemma round_div_bounds: "0 < b \<Longrightarrow> 2 * \<bar>b * round_div a b - a\<bar> \<le> b"
proof -
  assume b: "0 < b"
  have a: "a = b * (a div b) + a mod b" by simp
  have r: "0 \<le> a mod b" "a mod b < b" using b by simp_all
  have "b * round_div a b - a \<in> {- (a mod b), b - a mod b} \<and>
    (b * round_div a b - a = - (a mod b) \<longrightarrow> 2 * (a mod b) \<le> b) \<and>
    (b * round_div a b - a = b - a mod b \<longrightarrow> b \<le> 2 * (a mod b) \<or> a mod b = 0 \<and> False)"
    if "a mod b \<noteq> 0"
    using that b a by (auto simp: round_div_def Let_def algebra_simps split: if_splits)
  moreover have "b * round_div a b = a" if "a mod b = 0"
    using that b a by (auto simp: round_div_def Let_def)
  ultimately show ?thesis using r by (cases "a mod b = 0") auto
qed

section \<open>Networks\<close>

definition is_ipv6 :: "string \<Rightarrow> bool" where
  "is_ipv6 ip \<longleftrightarrow> 2 \<le> char_count ip (CHR '':'')"

text \<open>\<open>IPv4Network\<close> of the standard library: an address, and a prefix length, netmask or host
  mask after a slash; host bits must be zero.\<close>

definition ipv4_int :: "string \<Rightarrow> nat option" where
  "ipv4_int s =
     (if is_ipv4_address s
      then Some (foldl (\<lambda>a w. 256 * a + the (read_digits 0 False w)) 0 (split_char (CHR ''.'') s))
      else None)"

definition ipv4_prefix :: "string \<Rightarrow> nat option" where
  "ipv4_prefix s =
     (if s \<noteq> [] \<and> list_all is_digit s
      then (case read_digits 0 False s of
              None \<Rightarrow> None | Some n \<Rightarrow> if n \<le> 32 then Some n else None)
      else (case ipv4_int s of
              None \<Rightarrow> None
            | Some m \<Rightarrow>
                (case find (\<lambda>p. m = 2 ^ 32 - 2 ^ (32 - p)) [0..<33] of
                   Some p \<Rightarrow> Some p
                 | None \<Rightarrow> find (\<lambda>p. m = 2 ^ (32 - p) - 1) [0..<33])))"

definition show_ipv4 :: "nat \<Rightarrow> string" where
  "show_ipv4 n =
     join ''.'' (map show_nat [n div 16777216 mod 256, n div 65536 mod 256, n div 256 mod 256, n mod 256])"

definition ipv4_network :: "string \<Rightarrow> string list result" where
  "ipv4_network subnet =
     (case split_char (CHR ''/'') subnet of
        [a] \<Rightarrow> (case ipv4_int a of
                  None \<Rightarrow> Inl (ValueError ''AddressValueError'')
                | Some n \<Rightarrow> Inr [show_ipv4 n])
      | [a, m] \<Rightarrow>
          (case ipv4_int a of
             None \<Rightarrow> Inl (ValueError ''AddressValueError'')
           | Some n \<Rightarrow>
               (case ipv4_prefix m of
                  None \<Rightarrow> Inl (ValueError ''NetmaskValueError'')
                | Some p \<Rightarrow>
                    if n mod 2 ^ (32 - p) \<noteq> 0 then Inl (ValueError ''has host bits set'')
                    else Inr (map show_ipv4 [n..<n + 2 ^ (32 - p)])))
      | _ \<Rightarrow> Inl (ValueError ''AddressValueError''))"

text \<open>\<open>iprange\<close> builds the IPv4 network before it looks at the kind of the subnet; the addresses
  of an IPv6 network are a parameter.\<close>

definition iprange :: "(string \<Rightarrow> string list result) \<Rightarrow> string \<Rightarrow> string list result" where
  "iprange ipv6_network subnet =
     rbind (ipv4_network subnet)
       (\<lambda>network. if is_ipv6 subnet then ipv6_network subnet else Inr network)"

lemma ipv4_octet_no_colon: "ipv4_octet s \<Longrightarrow> CHR '':'' \<notin> set s"
  by (auto simp: ipv4_octet_def list_all_iff is_digit_def)

lemma in_split: "d \<in> set s \<Longrightarrow> d \<noteq> c \<Longrightarrow> \<exists>w \<in> set (split_char c s). d \<in> set w"
proof (induction s)
  case (Cons x s)
  obtain w ws where "split_char c s = w # ws" by (cases "split_char c s") auto
  with Cons show ?case by auto
qed simp

lemma is_ipv4_no_colon: "is_ipv4_address s \<Longrightarrow> CHR '':'' \<notin> set s"
proof
  assume a: "is_ipv4_address s" and "CHR '':'' \<in> set s"
  then obtain w where "w \<in> set (split_char (CHR ''.'') s)" and "CHR '':'' \<in> set w"
    using in_split [of "CHR '':''" s "CHR ''.''"] by auto
  with a ipv4_octet_no_colon show False by (auto simp: is_ipv4_address_def Let_def list_all_iff)
qed

section \<open>Paths in URLs and bodies\<close>

definition merge_path :: "string \<Rightarrow> string \<Rightarrow> string result" where
  "merge_path url path =
     (let parts = split_char (CHR ''/'') url in
      rbind (urljoin ''/'' path) (\<lambda>p.
        Inr (join ''/'' (butlast parts @ [lstrip_char (CHR ''/'') p]))))"

text \<open>The pattern \<open>re.escape(to_replace) + "(?=[^\\w]|$)"\<close>.\<close>

definition path_pattern :: "string \<Rightarrow> rx" where
  "path_pattern to_replace = Seq (Str to_replace) (Ahead (Alt (Chr (\<lambda>c. \<not> is_word c)) Eol))"

definition replace_path_sub :: "string \<Rightarrow> string \<Rightarrow> string \<Rightarrow> string" where
  "replace_path_sub s to_replace replace_with = re_sub (path_pattern to_replace) (\<lambda>_. replace_with) s"

definition replace_path :: "string \<Rightarrow> string \<Rightarrow> string \<Rightarrow> string" where
  "replace_path body path0 replace_with =
     (let path = CHR ''/'' # path0;
          s = replace_path_sub body (quote path) replace_with;
          s = replace_path_sub s (quote (quote path)) replace_with;
          s = replace_path_sub s (unquote path) replace_with;
          s = replace_path_sub s (unquote (unquote path)) replace_with;
          s = replace_path_sub s (html_escape path) replace_with;
          s = replace_path_sub s (json_dumps_str path) replace_with
      in replace_path_sub s path replace_with)"

text \<open>A text without the path in any form is left alone.\<close>

lemma match_from_path:
  "match_from (path_pattern p) l s =
     (if starts_with s p \<and> (drop (length p) s = [] \<or> \<not> is_word (hd (drop (length p) s)))
      then Some \<lparr>matched = p, groups = [], after = drop (length p) s\<rparr> else None)"
proof (cases "starts_with s p")
  case True
  then obtain t where s: "s = p @ t" by (auto simp: starts_with_iff)
  show ?thesis
    by (cases t) (auto simp: s match_from_def path_pattern_def rmatch_Str is_word_def char_simps)
qed (simp add: match_from_def path_pattern_def rmatch_Str)

lemma sub_from_absent:
  "\<not> contains s p \<Longrightarrow> sub_from (path_pattern p) f l s = s"
proof (induction s arbitrary: l)
  case (Cons c s)
  then have "\<not> starts_with (c # s) p" and "\<not> contains s p"
    by (auto simp: contains_def split: if_splits)
  with Cons.IH show ?case by (subst sub_from.simps) (simp add: match_from_path)
qed (simp add: sub_from.simps)

lemma replace_path_absent:
  assumes "\<forall>q \<in> {quote p, quote (quote p), unquote p, unquote (unquote p), html_escape p,
                 json_dumps_str p, p}. \<not> contains s q" and "p = CHR ''/'' # path0"
  shows "replace_path s path0 r = s"
  using assms
  by (simp add: replace_path_def replace_path_sub_def re_sub_def sub_from_absent)

end
