(* ===== verification/Url.thy ===== *)
theory Url
  imports Common
begin

text \<open>
  \<open>lib/parse/url.py\<close>: the origin of a URL and the same-origin test crawling and redirects
  rest on, and the path helpers the controller and the fuzzer use.
\<close>

section \<open>Origins\<close>

type_synonym url_origin = "string \<times> string \<times> nat option"

text \<open>\<open>_origin\<close>: scheme, host and effective port, \<open>None\<close> for a text without either.\<close>

definition origin :: "string \<Rightarrow> url_origin option" where
  "origin value =
     (case rbind (urlsplit value) (\<lambda>parsed.
             rbind (url_port parsed) (\<lambda>port. Inr (parsed, url_hostname parsed, port))) of
        Inl _ \<Rightarrow> None
      | Inr (parsed, hostname, port) \<Rightarrow>
          (let scheme = lower (url_scheme parsed) in
           if scheme = [] then None
           else (case hostname of
                   None \<Rightarrow> None
                 | Some h \<Rightarrow>
                     Some (scheme, lower h,
                           case port of Some n \<Rightarrow> Some n | None \<Rightarrow> standard_port scheme))))"

definition same_origin :: "string \<Rightarrow> string \<Rightarrow> bool" where
  "same_origin first second \<longleftrightarrow> origin first \<noteq> None \<and> origin first = origin second"

section \<open>Paths\<close>

definition clean_path :: "string \<Rightarrow> bool \<Rightarrow> bool \<Rightarrow> string" where
  "clean_path path keep_queries keep_fragment =
     (let path = (if \<not> keep_fragment then hd (split_char (CHR ''#'') path) else path);
          path = (if \<not> keep_queries then hd (split_char (CHR ''?'') path) else path)
      in path)"

text \<open>\<open>parse_path\<close>: the unpacking of \<open>value.split("//", 1)\<close> fails without a double slash, and the
  explicit \<open>raise\<close> joins that failure; both end in the last case.\<close>

definition parse_absolute :: "string \<Rightarrow> string result" where
  "parse_absolute value =
     (case find_sub ''//'' value of
        None \<Rightarrow> Inl (ValueError ''not enough values to unpack'')
      | Some i \<Rightarrow>
          (let scheme = take i value; url = drop (i + 2) value in
           if scheme \<noteq> [] \<and> (\<not> ends_with scheme '':'' \<or> CHR ''/'' \<in> set scheme) \<or> starts_with url ''/''
           then Inl (ValueError [])
           else Inr (join ''/'' (tl (split_char (CHR ''/'') url)))))"

definition parse_path :: "string \<Rightarrow> string" where
  "parse_path value =
     (case parse_absolute value of Inr p \<Rightarrow> p | Inl _ \<Rightarrow> lstrip_once value ''/'')"

definition same_origin_path :: "string \<Rightarrow> string \<Rightarrow> string option" where
  "same_origin_path base_url location =
     (case urljoin base_url location of
        Inl _ \<Rightarrow> None
      | Inr resolved \<Rightarrow>
          if \<not> same_origin base_url resolved then None else Some (parse_path resolved))"

definition ensure_trailing_path_slash :: "string \<Rightarrow> string result" where
  "ensure_trailing_path_slash url =
     rbind (urlsplit url) (\<lambda>parsed.
       let path = url_path parsed;
           path = (if \<not> ends_with path ''/'' then path @ ''/'' else path)
       in Inr (urlunsplit (parsed\<lparr>url_path := path\<rparr>)))"

definition append_query_string :: "string \<Rightarrow> string \<Rightarrow> string" where
  "append_query_string value query =
     (if query = [] \<or> CHR ''?'' \<in> set value then value
      else (let (path, separator, frag) = partition ''#'' value;
                value = path @ ''?'' @ query
            in if separator \<noteq> [] then value @ ''#'' @ frag else value))"

section \<open>Facts\<close>

lemma clean_path_eq:
  "clean_path p kq kf =
     (let p = (if kf then p else takeWhile (\<lambda>c. c \<noteq> CHR ''#'') p)
      in if kq then p else takeWhile (\<lambda>c. c \<noteq> CHR ''?'') p)"
  by (simp add: clean_path_def hd_split_at Let_def)

lemma find_char: "find_sub [c] s = (if c \<in> set s then Some (length (takeWhile (\<lambda>x. x \<noteq> c) s)) else None)"
  by (induction s) (auto simp: starts_with_Cons)

lemma partition_char:
  "partition [c] s =
     (if c \<in> set s then (takeWhile (\<lambda>x. x \<noteq> c) s, [c], tl (dropWhile (\<lambda>x. x \<noteq> c) s))
      else (s, [], []))"
proof -
  have "tl (drop (length (takeWhile (\<lambda>x. x \<noteq> c) s)) s) = tl (dropWhile (\<lambda>x. x \<noteq> c) s)"
    by (simp only: dropWhile_eq_drop)
  moreover have "take (length (takeWhile (\<lambda>x. x \<noteq> c) s)) s = takeWhile (\<lambda>x. x \<noteq> c) s"
    by (simp only: takeWhile_eq_take [symmetric])
  ultimately show ?thesis
    by (simp add: partition_def find_char drop_Suc tl_drop)
qed

lemma append_query_string_eq:
  assumes "q \<noteq> []" and "CHR ''?'' \<notin> set v"
  shows "append_query_string v q =
    takeWhile (\<lambda>c. c \<noteq> CHR ''#'') v @ ''?'' @ q @ dropWhile (\<lambda>c. c \<noteq> CHR ''#'') v"
proof (cases "CHR ''#'' \<in> set v")
  case True
  then have "dropWhile (\<lambda>c. c \<noteq> CHR ''#'') v \<noteq> []" by (simp add: dropWhile_eq_Nil_conv)
  then obtain d r where dr: "dropWhile (\<lambda>c. c \<noteq> CHR ''#'') v = d # r" by (meson list.exhaust)
  then have "d = CHR ''#''" by (simp add: dropWhile_eq_Cons_conv)
  with dr True assms show ?thesis by (simp add: append_query_string_def partition_char)
next
  case False
  then have "dropWhile (\<lambda>c. c \<noteq> CHR ''#'') v = []" and "takeWhile (\<lambda>c. c \<noteq> CHR ''#'') v = v"
    by (auto simp: dropWhile_eq_Nil_conv takeWhile_eq_all_conv)
  with False assms show ?thesis by (simp add: append_query_string_def partition_char)
qed

lemma takeWhile_take_id: "\<forall>x \<in> set u. P x \<Longrightarrow> \<not> P c \<Longrightarrow> takeWhile P (u @ c # w) = u"
  by (induction u) auto

lemma clean_path_append:
  "clean_path (append_query_string v q) False False = clean_path v False False"
proof (cases "q = [] \<or> CHR ''?'' \<in> set v")
  case False
  let ?u = "takeWhile (\<lambda>c. c \<noteq> CHR ''#'') v"
  have u: "\<forall>c \<in> set ?u. c \<noteq> CHR ''?'' \<and> c \<noteq> CHR ''#''"
    using False by (auto dest: set_takeWhileD)
  have "takeWhile (\<lambda>c. c \<noteq> CHR ''#'') (?u @ CHR ''?'' # w) =
    ?u @ CHR ''?'' # takeWhile (\<lambda>c. c \<noteq> CHR ''#'') w" for w
    using u by (subst takeWhile_append2) auto
  moreover have "takeWhile (\<lambda>c. c \<noteq> CHR ''?'') ?u = ?u" using u by (simp add: takeWhile_eq_all_conv)
  moreover have "takeWhile (\<lambda>c. c \<noteq> CHR ''?'') (?u @ CHR ''?'' # w) = ?u" for w
    using u by (simp add: takeWhile_take_id)
  ultimately show ?thesis
    using False append_query_string_eq [of q v] by (simp add: clean_path_eq Let_def)
qed (auto simp: append_query_string_def)

lemma parse_path_absolute:
  assumes "CHR ''/'' \<notin> set sch" and "sch \<noteq> []" and "host \<noteq> []" and "CHR ''/'' \<notin> set host"
  shows "parse_path (sch @ ''://'' @ host @ ''/'' @ p) = p"
proof -
  let ?v = "sch @ ''://'' @ host @ ''/'' @ p"
  have gen: "find_sub ''//'' (w @ ''//'' @ t) = Some (length w)" if "CHR ''/'' \<notin> set w" for w t
    using that by (induction w) (auto simp: starts_with_Cons)
  have i: "find_sub ''//'' ?v = Some (length sch + 1)"
    using gen [of "sch @ '':''" "host @ ''/'' @ p"] assms(1) by simp
  have h: "\<not> starts_with (host @ CHR ''/'' # p) ''/''"
    using assms(3,4) by (cases host) (auto simp: starts_with_def)
  have e: "ends_with (sch @ '':'') '':''" by (rule ends_with_append)
  have s: "split_char (CHR ''/'') (host @ CHR ''/'' # p) = host # split_char (CHR ''/'') p"
    using assms(4) by (intro split_at_append) auto
  have "parse_absolute ?v = Inr p"
    using i h e assms(1) by (simp add: parse_absolute_def s join_split)
  then show ?thesis by (simp add: parse_path_def)
qed

lemma parse_path_relative:
  "\<not> contains v ''//'' \<Longrightarrow> parse_path v = lstrip_once v ''/''"
  by (simp add: parse_path_def parse_absolute_def contains_def)

section \<open>Properties\<close>

text \<open>\<open>parse_path\<close> recovers the path of an absolute URL: for a scheme and a host without
  slashes it returns exactly what follows the slash after the host.\<close>
theorem parse_path_of_absolute_url:
  assumes "sch \<noteq> []" and "CHR ''/'' \<notin> set sch" and "host \<noteq> []" and "CHR ''/'' \<notin> set host"
  shows "parse_path (sch @ ''://'' @ host @ ''/'' @ p) = p"
  using assms by (intro parse_path_absolute)

theorem parse_path_of_absolute_url_witness:
  "parse_path (''http'' @ ''://'' @ ''e.com'' @ ''/'' @ ''a//b'') = ''a//b''"
  by (rule parse_path_of_absolute_url) simp_all

text \<open>Appending the query string of the options changes neither path nor fragment, and a value that
  has a query keeps it: appending again, even another query, does nothing.\<close>
theorem append_query_string_once:
  "clean_path (append_query_string v q) False False = clean_path v False False \<and>
   dropWhile (\<lambda>c. c \<noteq> CHR ''#'') v =
     (if q = [] \<or> CHR ''?'' \<in> set v then dropWhile (\<lambda>c. c \<noteq> CHR ''#'') v
      else drop (length (takeWhile (\<lambda>c. c \<noteq> CHR ''#'') v) + length q + 1) (append_query_string v q)) \<and>
   (q = [] \<or> append_query_string (append_query_string v q) r = append_query_string v q)"
proof (cases "q = [] \<or> CHR ''?'' \<in> set v")
  case False
  then have e: "append_query_string v q =
      takeWhile (\<lambda>c. c \<noteq> CHR ''#'') v @ ''?'' @ q @ dropWhile (\<lambda>c. c \<noteq> CHR ''#'') v"
    by (intro append_query_string_eq) auto
  then have "CHR ''?'' \<in> set (append_query_string v q)" by simp
  then have "append_query_string (append_query_string v q) r = append_query_string v q"
    by (simp add: append_query_string_def [of "append_query_string v q"])
  moreover have "dropWhile (\<lambda>c. c \<noteq> CHR ''#'') v =
      drop (length (takeWhile (\<lambda>c. c \<noteq> CHR ''#'') v) + length q + 1) (append_query_string v q)"
    unfolding e by simp
  ultimately show ?thesis
    using False clean_path_append [of v q] by simp
qed (auto simp: append_query_string_def)

end
