(* ===== verification/PyDifflib.thy ===== *)
theory PyDifflib
  imports Complex_Main Prelude
begin

text \<open>
  \<open>difflib.SequenceMatcher(None, a, b).ratio()\<close> of Python's standard library, as CPython computes
  it: the index of the second sequence with its popular elements left out when it has 200
  elements or more, the longest matching block with its extension, the recursion to both sides,
  and the ratio as an exact rational number.
\<close>

section \<open>The longest matching block\<close>

text \<open>\<open>b2j\<close>: the positions of an element in \<open>b\<close>, none for a popular one.\<close>

definition positions :: "'a list \<Rightarrow> 'a \<Rightarrow> nat list" where
  "positions b x = filter (\<lambda>j. b ! j = x) [0..<length b]"

definition popular :: "'a list \<Rightarrow> 'a \<Rightarrow> bool" where
  "popular b x \<longleftrightarrow> 200 \<le> length b \<and> length b div 100 + 1 < length (positions b x)"

definition b2j :: "'a list \<Rightarrow> 'a \<Rightarrow> nat list" where
  "b2j b x = (if popular b x then [] else positions b x)"

text \<open>The best block so far and, per position of \<open>b\<close>, the length of the block ending there.\<close>

type_synonym block = "nat \<times> nat \<times> nat"
type_synonym scan_state = "block \<times> (nat \<Rightarrow> nat)"

definition scan_col :: "nat \<Rightarrow> nat \<Rightarrow> nat \<Rightarrow> (nat \<Rightarrow> nat) \<Rightarrow> nat \<Rightarrow> scan_state \<Rightarrow> scan_state" where
  "scan_col blo bhi i j2len j st =
     (case st of ((besti, bestj, bestsize), newj2len) \<Rightarrow>
        if j < blo \<or> bhi \<le> j then st
        else
          (let k = (if j = 0 then 0 else j2len (j - 1)) + 1 in
           ((if bestsize < k then (i + 1 - k, j + 1 - k, k) else (besti, bestj, bestsize)),
            newj2len(j := k))))"

definition scan_row :: "'a list \<Rightarrow> 'a list \<Rightarrow> nat \<Rightarrow> nat \<Rightarrow> nat \<Rightarrow> scan_state \<Rightarrow> scan_state" where
  "scan_row a b blo bhi i st =
     (case st of (best, j2len) \<Rightarrow>
        fold (scan_col blo bhi i j2len) (b2j b (a ! i)) (best, (\<lambda>_. 0)))"

text \<open>The two loops that extend the block over elements left out of the index.\<close>

fun extend_left :: "'a list \<Rightarrow> 'a list \<Rightarrow> nat \<Rightarrow> nat \<Rightarrow> nat \<Rightarrow> nat \<Rightarrow> nat \<Rightarrow> block" where
  "extend_left a b alo blo i j k =
     (if alo < i \<and> blo < j \<and> a ! (i - 1) = b ! (j - 1)
      then extend_left a b alo blo (i - 1) (j - 1) (k + 1)
      else (i, j, k))"

declare extend_left.simps [simp del]

function extend_right :: "'a list \<Rightarrow> 'a list \<Rightarrow> nat \<Rightarrow> nat \<Rightarrow> nat \<Rightarrow> nat \<Rightarrow> nat \<Rightarrow> block" where
  "extend_right a b ahi bhi i j k =
     (if i + k < ahi \<and> j + k < bhi \<and> a ! (i + k) = b ! (j + k)
      then extend_right a b ahi bhi i j (k + 1)
      else (i, j, k))"
  by pat_completeness auto
termination
  by (relation "measure (\<lambda>(a, b, ahi, bhi, i, j, k). ahi - (i + k))") auto

declare extend_right.simps [simp del]

definition find_longest_match :: "'a list \<Rightarrow> 'a list \<Rightarrow> nat \<Rightarrow> nat \<Rightarrow> nat \<Rightarrow> nat \<Rightarrow> block" where
  "find_longest_match a b alo ahi blo bhi =
     (let (best, _) = fold (scan_row a b blo bhi) [alo..<ahi] ((alo, blo, 0), (\<lambda>_. 0));
          (i, j, k) = best;
          (i, j, k) = extend_left a b alo blo i j k
      in extend_right a b ahi bhi i j k)"

section \<open>The block is inside both ranges\<close>

definition block_ok :: "nat \<Rightarrow> nat \<Rightarrow> nat \<Rightarrow> nat \<Rightarrow> block \<Rightarrow> bool" where
  "block_ok alo ahi blo bhi bl \<longleftrightarrow>
     (case bl of (i, j, k) \<Rightarrow> alo \<le> i \<and> i + k \<le> ahi \<and> blo \<le> j \<and> j + k \<le> bhi)"

definition scan_ok :: "nat \<Rightarrow> nat \<Rightarrow> nat \<Rightarrow> nat \<Rightarrow> nat \<Rightarrow> scan_state \<Rightarrow> bool" where
  "scan_ok alo ahi blo bhi n st \<longleftrightarrow>
     block_ok alo ahi blo bhi (fst st) \<and>
     (\<forall>j. snd st j \<le> n \<and> (snd st j \<noteq> 0 \<longrightarrow> blo + snd st j \<le> j + 1))"

lemma scan_col_ok:
  assumes "scan_ok alo ahi blo bhi (i + 1 - alo) st" and "alo \<le> i" and "i < ahi"
    and "\<forall>j. j2len j \<le> i - alo \<and> (j2len j \<noteq> 0 \<longrightarrow> blo + j2len j \<le> j + 1)"
  shows "scan_ok alo ahi blo bhi (i + 1 - alo) (scan_col blo bhi i j2len j st)"
proof (cases "j < blo \<or> bhi \<le> j")
  case True
  with assms(1) show ?thesis by (auto simp: scan_col_def split: prod.split)
next
  case False
  define k where "k = (if j = 0 then 0 else j2len (j - 1)) + 1"
  have k1: "k \<le> i + 1 - alo" using assms(2) assms(4) by (auto simp: k_def Suc_diff_le)
  have k2: "blo + k \<le> j + 1"
    using False assms(4) [rule_format, of "j - 1"] by (cases "j = 0") (auto simp: k_def)
  obtain bi bj bs nj where st: "st = ((bi, bj, bs), nj)" by (cases st) auto
  have "scan_col blo bhi i j2len j st =
    ((if bs < k then (i + 1 - k, j + 1 - k, k) else (bi, bj, bs)), nj(j := k))"
    using False by (simp add: st scan_col_def k_def Let_def)
  then show ?thesis
    using assms(1-3) k1 k2 False by (auto simp: st scan_ok_def block_ok_def)
qed

lemma fold_scan_col_ok:
  assumes "scan_ok alo ahi blo bhi (i + 1 - alo) st" and "alo \<le> i" and "i < ahi"
    and "\<forall>j. j2len j \<le> i - alo \<and> (j2len j \<noteq> 0 \<longrightarrow> blo + j2len j \<le> j + 1)"
  shows "scan_ok alo ahi blo bhi (i + 1 - alo) (fold (scan_col blo bhi i j2len) js st)"
  using assms(1)
proof (induction js arbitrary: st)
  case (Cons j js)
  from Cons.IH [OF scan_col_ok [OF Cons.prems assms(2-4)]] show ?case by simp
qed simp

lemma scan_row_ok:
  assumes "scan_ok alo ahi blo bhi (i - alo) st" and "alo \<le> i" and "i < ahi"
  shows "scan_ok alo ahi blo bhi (i + 1 - alo) (scan_row a b blo bhi i st)"
proof -
  obtain best j2len where st: "st = (best, j2len)" by fastforce
  show ?thesis
    unfolding scan_row_def st prod.case
    using assms by (intro fold_scan_col_ok) (auto simp: st scan_ok_def)
qed

lemma fold_scan_row_ok:
  assumes "alo \<le> m" and "m \<le> ahi" and "blo \<le> bhi"
  shows "scan_ok alo ahi blo bhi (m - alo) (fold (scan_row a b blo bhi) [alo..<m] ((alo, blo, 0), (\<lambda>_. 0)))"
  using assms(1,2)
proof (induction m rule: dec_induct)
  case base
  with assms show ?case by (simp add: scan_ok_def block_ok_def)
next
  case (step n)
  then have "scan_ok alo ahi blo bhi (n + 1 - alo)
      (scan_row a b blo bhi n (fold (scan_row a b blo bhi) [alo..<n] ((alo, blo, 0), (\<lambda>_. 0))))"
    by (intro scan_row_ok) auto
  with step show ?case by simp
qed

lemma extend_left_ok:
  "block_ok alo ahi blo bhi (i, j, k) \<Longrightarrow> block_ok alo ahi blo bhi (extend_left a b alo blo i j k)"
proof (induction a b alo blo i j k rule: extend_left.induct)
  case (1 a b alo blo i j k)
  show ?case
  proof (cases "alo < i \<and> blo < j \<and> a ! (i - 1) = b ! (j - 1)")
    case True
    then have "block_ok alo ahi blo bhi (i - 1, j - 1, k + 1)" using "1.prems" by (auto simp: block_ok_def)
    from "1.IH" [OF True this] True show ?thesis by (subst extend_left.simps) simp
  next
    case False
    with "1.prems" show ?thesis by (subst extend_left.simps) auto
  qed
qed

lemma extend_right_ok:
  "block_ok alo ahi blo bhi (i, j, k) \<Longrightarrow> block_ok alo ahi blo bhi (extend_right a b ahi bhi i j k)"
proof (induction a b ahi bhi i j k rule: extend_right.induct)
  case (1 a b ahi bhi i j k)
  show ?case
  proof (cases "i + k < ahi \<and> j + k < bhi \<and> a ! (i + k) = b ! (j + k)")
    case True
    then have "block_ok alo ahi blo bhi (i, j, k + 1)" using "1.prems" by (auto simp: block_ok_def)
    from "1.IH" [OF True this] True show ?thesis by (subst extend_right.simps) simp
  next
    case False
    with "1.prems" show ?thesis by (subst extend_right.simps) auto
  qed
qed

lemma find_longest_match_ok:
  assumes "alo \<le> ahi" and "blo \<le> bhi"
  shows "block_ok alo ahi blo bhi (find_longest_match a b alo ahi blo bhi)"
proof -
  obtain best j2 where f: "fold (scan_row a b blo bhi) [alo..<ahi] ((alo, blo, 0), (\<lambda>_. 0)) = (best, j2)"
    by fastforce
  have "block_ok alo ahi blo bhi best"
    using fold_scan_row_ok [of alo ahi ahi blo bhi a b] assms f by (simp add: scan_ok_def)
  then show ?thesis
    by (auto simp: find_longest_match_def f split: prod.split
        intro: extend_left_ok extend_right_ok)
       (metis extend_left_ok extend_right_ok)
qed

section \<open>Matching blocks and the ratio\<close>

text \<open>The total size of the matching blocks in two ranges.\<close>

function matches_in :: "'a list \<Rightarrow> 'a list \<Rightarrow> nat \<Rightarrow> nat \<Rightarrow> nat \<Rightarrow> nat \<Rightarrow> nat" where
  "matches_in a b alo ahi blo bhi =
     (if alo \<le> ahi \<and> blo \<le> bhi
      then (let (i, j, k) = find_longest_match a b alo ahi blo bhi in
            if k = 0 then 0
            else k + matches_in a b alo i blo j + matches_in a b (i + k) ahi (j + k) bhi)
      else 0)"
  by pat_completeness auto
termination
proof (relation "measure (\<lambda>(a, b, alo, ahi, blo, bhi). ahi - alo)", goal_cases)
  case (2 a b alo ahi blo bhi x i y j k)
  then show ?case using find_longest_match_ok [of alo ahi blo bhi a b] by (auto simp: block_ok_def)
next
  case (3 a b alo ahi blo bhi x i y j k)
  then show ?case using find_longest_match_ok [of alo ahi blo bhi a b] by (auto simp: block_ok_def)
qed simp

declare matches_in.simps [simp del]

definition ratio :: "'a list \<Rightarrow> 'a list \<Rightarrow> rat" where
  "ratio a b =
     (if length a + length b = 0 then 1
      else 2 * of_nat (matches_in a b 0 (length a) 0 (length b)) / of_nat (length a + length b))"

lemma matches_in_le:
  "alo \<le> ahi \<Longrightarrow> blo \<le> bhi \<Longrightarrow> matches_in a b alo ahi blo bhi \<le> ahi - alo \<and>
     matches_in a b alo ahi blo bhi \<le> bhi - blo"
proof (induction a b alo ahi blo bhi rule: matches_in.induct)
  case (1 a b alo ahi blo bhi)
  obtain i j k where f: "find_longest_match a b alo ahi blo bhi = (i, j, k)" by (metis prod_cases3)
  have bl: "alo \<le> i" "i + k \<le> ahi" "blo \<le> j" "j + k \<le> bhi"
    using find_longest_match_ok [of alo ahi blo bhi a b] "1.prems" f by (auto simp: block_ok_def)
  show ?case
  proof (cases "k = 0")
    case True
    with f show ?thesis by (subst (1 2) matches_in.simps) simp
  next
    case False
    have "matches_in a b alo i blo j \<le> i - alo \<and> matches_in a b alo i blo j \<le> j - blo"
      using 1 f False bl by auto
    moreover have "matches_in a b (i + k) ahi (j + k) bhi \<le> ahi - (i + k) \<and>
        matches_in a b (i + k) ahi (j + k) bhi \<le> bhi - (j + k)"
      using 1 f False bl by auto
    ultimately show ?thesis
      using f False bl "1.prems" by (subst (1 2) matches_in.simps) auto
  qed
qed

lemma ratio_bounds: "0 \<le> ratio a b \<and> ratio a b \<le> 1"
proof (cases "length a + length b = 0")
  case False
  let ?m = "matches_in a b 0 (length a) 0 (length b)"
  have "?m \<le> length a" "?m \<le> length b" using matches_in_le [of 0 "length a" 0 "length b" a b] by auto
  then have "2 * ?m \<le> length a + length b" by linarith
  then have "(of_nat (2 * ?m) :: rat) \<le> of_nat (length a + length b)" by (simp only: of_nat_le_iff)
  with False show ?thesis by (simp add: ratio_def divide_le_eq)
qed (simp add: ratio_def)

end
