(* ===== verification/Diff.thy ===== *)
theory Diff
  imports Common PyDifflib
begin

text \<open>
  \<open>lib/utils/diff.py\<close>: the normalisation of volatile content, the parser that keeps the words
  common to the samples of a wildcard response, and the pattern that matches two redirects.
  The line differ of the standard library is a parameter from two word lists to its output lines;
  what is used of it is that its unmarked lines are words of both lists in order.
\<close>

section \<open>Normalising volatile values\<close>

definition hex_ci :: "char \<Rightarrow> bool" where "hex_ci c \<longleftrightarrow> hex_val c \<noteq> None"

definition hexes :: "nat \<Rightarrow> rx" where "hexes n = Times n (Chr hex_ci)"
definition digits :: "nat \<Rightarrow> rx" where "digits n = Times n (Chr is_digit)"
definition dash :: rx where "dash = Lit (CHR ''-'')"
definition colon :: rx where "colon = Lit (CHR '':'')"

definition dynamic_token_regexes :: "rx list" where
  "dynamic_token_regexes =
     [Seqs [Wordb, hexes 8, dash, hexes 4, dash, hexes 4, dash, hexes 4, dash, hexes 12, Wordb],
      Seqs [Wordb, AtLeast 16 (Chr hex_ci), Wordb],
      Seqs [Wordb, AtLeast 24 (Chr (\<lambda>c. is_alnum c \<or> c = CHR ''+'' \<or> c = CHR ''/'')),
            UpTo 2 (Lit (CHR ''='')), Wordb],
      Seqs [Wordb, digits 4, dash, digits 2, dash, digits 2,
            Opt (Seqs [Chr (\<lambda>c. c = CHR ''T'' \<or> c = CHR '' ''),
                       Plus (Chr (\<lambda>c. is_digit c \<or> c \<in> set '':.+-'')), Opt (Lit (CHR ''Z''))]),
            Wordb],
      Seqs [Wordb, digits 2, colon, digits 2, colon, digits 2,
            Opt (Seq (Lit (CHR ''.'')) (Plus (Chr is_digit))), Wordb],
      Seqs [Wordb, AtLeast 6 (Chr is_digit), Wordb]]"

definition html_attribute_value_regex :: rx where
  "html_attribute_value_regex =
     (let sep = Opt (Chr (\<lambda>c. c = CHR ''_'' \<or> c = CHR ''-''));
          quot = Chr (\<lambda>c. c = CHR 0x22 \<or> c = CHR 0x27)
      in Seqs [Wordb,
               Alts [StrI ''nonce'', StrI ''csrf'', StrI ''token'',
                     Seqs [StrI ''request'', sep, StrI ''id''],
                     Seqs [StrI ''trace'', sep, StrI ''id''],
                     Seqs [StrI ''session'', sep, StrI ''id'']],
               Lit (CHR ''=''), quot,
               Plus (Chr (\<lambda>c. c \<noteq> CHR 0x22 \<and> c \<noteq> CHR 0x27)), quot])"

definition normalize_dynamic_content :: "string \<Rightarrow> string" where
  "normalize_dynamic_content content =
     (let normalized = re_sub html_attribute_value_regex (\<lambda>_. ''__DYNAMIC_ATTR__'') content;
          normalized = foldl (\<lambda>s r. re_sub r (\<lambda>_. ''__DYNAMIC__'') s) normalized dynamic_token_regexes
      in join '' '' (words_of normalized))"

definition normalized_content_similarity :: "string \<Rightarrow> string \<Rightarrow> rat" where
  "normalized_content_similarity content1 content2 = ratio content1 content2"

definition content_similarity :: "string \<Rightarrow> string \<Rightarrow> rat" where
  "content_similarity content1 content2 =
     normalized_content_similarity (normalize_dynamic_content content1)
       (normalize_dynamic_content content2)"

section \<open>The content parser\<close>

type_synonym differ = "string list \<Rightarrow> string list \<Rightarrow> string list"

record content_parser =
  cp_contents :: "string list"
  cp_normalized :: "string list"
  cp_base :: string
  cp_is_static :: bool
  cp_patterns :: "string list"

definition get_static_patterns :: "string list \<Rightarrow> string list" where
  "get_static_patterns lines =
     map (\<lambda>pattern. lstrip_once pattern ''  '') (filter (\<lambda>pattern. starts_with pattern ''  '') lines)"

text \<open>\<open>_recalculate\<close>: the contents always hold two samples at least.\<close>

definition recalculate :: "differ \<Rightarrow> content_parser \<Rightarrow> content_parser" where
  "recalculate differ p =
     (let p = p\<lparr>cp_is_static := list_all (\<lambda>content. content = cp_base p) (cp_contents p)\<rparr> in
      if cp_is_static p then p\<lparr>cp_patterns := []\<rparr>
      else
        (let first = cp_normalized p ! 0; second = cp_normalized p ! 1;
             patterns = get_static_patterns (differ (words_of first) (words_of second));
             patterns = foldl (\<lambda>ps normalized. filter (\<lambda>pattern. pattern \<in> set (words_of normalized)) ps)
                          patterns (drop 2 (cp_normalized p))
         in p\<lparr>cp_patterns := patterns\<rparr>))"

definition new_parser :: "differ \<Rightarrow> string \<Rightarrow> string \<Rightarrow> content_parser" where
  "new_parser differ content1 content2 =
     recalculate differ
       \<lparr>cp_contents = [content1, content2],
        cp_normalized = [normalize_dynamic_content content1, normalize_dynamic_content content2],
        cp_base = content1, cp_is_static = False, cp_patterns = []\<rparr>"

definition add_sample :: "differ \<Rightarrow> string \<Rightarrow> content_parser \<Rightarrow> content_parser" where
  "add_sample differ content p =
     recalculate differ
       (p\<lparr>cp_contents := cp_contents p @ [content],
          cp_normalized := cp_normalized p @ [normalize_dynamic_content content]\<rparr>)"

definition similarity_to :: "content_parser \<Rightarrow> string \<Rightarrow> rat" where
  "similarity_to p normalized = normalized_content_similarity (cp_normalized p ! 0) normalized"

definition is_ambiguous :: "content_parser \<Rightarrow> bool" where
  "is_ambiguous p \<longleftrightarrow>
     \<not> cp_is_static p \<and>
     (length (cp_patterns p) < 8 \<or> similarity_to p (last (cp_normalized p)) < 55 / 100)"

text \<open>The loop over the static patterns: the words left to search, and whether one miss is used.\<close>

fun patterns_in :: "nat \<Rightarrow> string list \<Rightarrow> string list \<Rightarrow> bool \<Rightarrow> bool" where
  "patterns_in n [] ws misses = True"
| "patterns_in n (pattern # patterns) ws misses =
     (if pattern \<in> set ws
      then patterns_in n patterns (tl (dropWhile (\<lambda>w. w \<noteq> pattern) ws)) misses
      else if misses \<or> n < 20 then False
      else patterns_in n patterns ws True)"

definition compare_to :: "content_parser \<Rightarrow> string \<Rightarrow> string \<Rightarrow> bool" where
  "compare_to p content normalized =
     (if cp_is_static p then content = cp_base p \<or> normalized = cp_normalized p ! 0
      else if \<not> patterns_in (length (cp_patterns p)) (cp_patterns p) (words_of normalized) False
      then False
      else if length (words_of (cp_base p)) < length (words_of content) \<and> length (cp_patterns p) < 20
      then similarity_to p normalized > 75 / 100
      else True)"

section \<open>A pattern for two redirects\<close>

text \<open>The pattern is kept by its parts: the literal start, whether \<open>.*\<close> follows, the literal end.\<close>

record redirect_regex =
  rr_start :: string
  rr_gap :: bool
  rr_end :: string

fun common_start :: "string \<Rightarrow> string \<Rightarrow> string \<times> bool" where
  "common_start (c # s) (d # t) =
     (if c \<noteq> d then ([], True) else (let (p, gap) = common_start s t in (c # p, gap)))"
| "common_start _ _ = ([], False)"

definition generate_matching_regex :: "string \<Rightarrow> string \<Rightarrow> redirect_regex" where
  "generate_matching_regex string1 string2 =
     (let (start, gap) = common_start string1 string2;
          finish = (if gap then rev (fst (common_start (rev string1) (rev string2))) else [])
      in \<lparr>rr_start = start, rr_gap = gap, rr_end = finish\<rparr>)"

text \<open>The regular expression, under \<open>re.IGNORECASE\<close> as the scanner uses it.\<close>

definition regex_of :: "redirect_regex \<Rightarrow> rx" where
  "regex_of r =
     Seq Bol (Seq (StrI (rr_start r))
       (Seq (if rr_gap r then Star Dot else Eps) (Seq (StrI (rr_end r)) Eol)))"

definition matches_redirect :: "redirect_regex \<Rightarrow> string \<Rightarrow> bool" where
  "matches_redirect r s \<longleftrightarrow> re_match (regex_of r) s \<noteq> None"

section \<open>The pattern loop finds subsequences\<close>

lemma subseq_Cons_search:
  "subseq (p # ps) ws \<longleftrightarrow> p \<in> set ws \<and> subseq ps (tl (dropWhile (\<lambda>w. w \<noteq> p) ws))"
proof (induction ws)
  case (Cons w ws)
  show ?case
  proof (cases "w = p")
    case True
    then show ?thesis by simp
  next
    case False
    with Cons show ?thesis by auto
  qed
qed simp

lemma patterns_in_few: "n < 20 \<Longrightarrow> patterns_in n ps ws m \<longleftrightarrow> subseq ps ws"
proof (induction n ps ws m rule: patterns_in.induct)
  case (2 n p ps ws m)
  then show ?case unfolding subseq_Cons_search [of p] by simp
qed simp

lemma patterns_in_missed: "patterns_in n ps ws True \<longleftrightarrow> subseq ps ws"
proof (induction ps arbitrary: ws)
  case (Cons p ps)
  then show ?case unfolding subseq_Cons_search [of p] by simp
qed simp

lemma patterns_in_subseq: "subseq ps ws \<Longrightarrow> patterns_in n ps ws m"
proof (induction ps arbitrary: ws)
  case (Cons p ps)
  then show ?case unfolding subseq_Cons_search [of p] by simp
qed simp

text \<open>With many patterns, all but at most one of them occur in order.\<close>

lemma patterns_in_one_miss:
  "patterns_in n ps ws m \<Longrightarrow> subseq ps ws \<or> (\<exists>k < length ps. subseq (take k ps @ drop (Suc k) ps) ws)"
proof (induction n ps ws m rule: patterns_in.induct)
  case (2 n p ps ws m)
  show ?case
  proof (cases "p \<in> set ws")
    case True
    with 2 have "subseq ps (tl (dropWhile (\<lambda>w. w \<noteq> p) ws)) \<or>
      (\<exists>k < length ps. subseq (take k ps @ drop (Suc k) ps) (tl (dropWhile (\<lambda>w. w \<noteq> p) ws)))" by simp
    then show ?thesis
    proof
      assume "\<exists>k < length ps. subseq (take k ps @ drop (Suc k) ps) (tl (dropWhile (\<lambda>w. w \<noteq> p) ws))"
      then obtain k where "k < length ps" "subseq (p # take k ps @ drop (Suc k) ps) ws"
        using True subseq_Cons_search [of p _ ws] by auto
      then show ?thesis by (intro disjI2 exI [of _ "Suc k"]) simp
    qed (use True subseq_Cons_search [of p ps ws] in simp)
  next
    case False
    with "2.prems" have "patterns_in n ps ws True" by (simp split: if_splits)
    then have "subseq ps ws" by (simp add: patterns_in_missed)
    then show ?thesis by (intro disjI2 exI [of _ 0]) simp
  qed
qed simp

section \<open>A sample matches its own parser\<close>

text \<open>What is used of the differ: its unmarked lines are words of both lists, in order.\<close>

definition differ_ok :: "differ \<Rightarrow> bool" where
  "differ_ok differ \<longleftrightarrow>
     (\<forall>a b. subseq (get_static_patterns (differ a b)) a \<and> subseq (get_static_patterns (differ a b)) b)"

definition parser_ok :: "content_parser \<Rightarrow> bool" where
  "parser_ok p \<longleftrightarrow>
     2 \<le> length (cp_contents p) \<and> cp_normalized p = map normalize_dynamic_content (cp_contents p) \<and>
     cp_base p = cp_contents p ! 0 \<and>
     cp_is_static p = list_all (\<lambda>c. c = cp_base p) (cp_contents p) \<and>
     (cp_is_static p \<or> subseq (cp_patterns p) (words_of (cp_normalized p ! 0)))"

lemma foldl_filter_subseq:
  "subseq (foldl (\<lambda>ps n. filter (P n) ps) ps ns) ps"
proof (induction ns arbitrary: ps)
  case (Cons n ns)
  have "subseq (foldl (\<lambda>ps n. filter (P n) ps) (filter (P n) ps) ns) (filter (P n) ps)" by (rule Cons.IH)
  then show ?case using subseq_filter_left by (metis foldl_Cons subseq_order.order_trans)
qed simp

lemma recalculate_ok:
  assumes "differ_ok differ" and "2 \<le> length (cp_contents p)"
    and "cp_normalized p = map normalize_dynamic_content (cp_contents p)" and "cp_base p = cp_contents p ! 0"
  shows "parser_ok (recalculate differ p)"
proof -
  let ?ps = "get_static_patterns (differ (words_of (cp_normalized p ! 0)) (words_of (cp_normalized p ! 1)))"
  have "subseq ?ps (words_of (cp_normalized p ! 0))" using assms(1) by (simp add: differ_ok_def)
  then have "subseq (foldl (\<lambda>ps normalized. filter (\<lambda>pattern. pattern \<in> set (words_of normalized)) ps)
      ?ps (drop 2 (cp_normalized p))) (words_of (cp_normalized p ! 0))"
    by (rule subseq_order.order_trans [OF foldl_filter_subseq])
  with assms show ?thesis by (simp add: parser_ok_def recalculate_def Let_def)
qed

lemma new_parser_ok: "differ_ok differ \<Longrightarrow> parser_ok (new_parser differ c1 c2)"
  unfolding new_parser_def by (rule recalculate_ok) simp_all

lemma add_sample_ok: "differ_ok differ \<Longrightarrow> parser_ok p \<Longrightarrow> parser_ok (add_sample differ c p)"
  unfolding add_sample_def by (rule recalculate_ok) (auto simp: parser_ok_def nth_append)

lemma compare_to_base:
  assumes "parser_ok p"
  shows "compare_to p (cp_base p) (normalize_dynamic_content (cp_base p))"
proof (cases "cp_is_static p")
  case False
  have "cp_contents p \<noteq> []" using assms by (auto simp: parser_ok_def)
  then have "map normalize_dynamic_content (cp_contents p) ! 0 = normalize_dynamic_content (cp_contents p ! 0)"
    by simp
  then have "cp_normalized p ! 0 = normalize_dynamic_content (cp_base p)"
    using assms unfolding parser_ok_def by metis
  with False assms show ?thesis
    by (auto simp: compare_to_def parser_ok_def intro: patterns_in_subseq)
qed (simp add: compare_to_def)

lemma recalculate_base [simp]: "cp_base (recalculate differ p) = cp_base p"
  by (simp add: recalculate_def Let_def)

lemma add_sample_base [simp]: "cp_base (add_sample differ c p) = cp_base p"
  by (simp add: add_sample_def)

section \<open>The redirect pattern matches both redirects\<close>

lemma common_start_split:
  "common_start s t = (p, gap) \<Longrightarrow>
     \<exists>s' t'. s = p @ s' \<and> t = p @ t' \<and>
       (if gap then s' \<noteq> [] \<and> t' \<noteq> [] \<and> hd s' \<noteq> hd t' else s' = [] \<or> t' = [])"
proof (induction s t arbitrary: p gap rule: common_start.induct)
  case (1 c s d t)
  show ?case
  proof (cases "c = d")
    case True
    with "1.prems" obtain p' where p': "common_start s t = (p', gap)" "p = c # p'"
      by (auto split: prod.splits)
    with 1 True show ?thesis by auto
  next
    case False
    with "1.prems" show ?thesis by auto
  qed
qed auto

lemma matching_regex_split:
  assumes "length s = length t"
  shows "let r = generate_matching_regex s t in
    (\<exists>u. s = rr_start r @ u @ rr_end r \<and> (\<not> rr_gap r \<longrightarrow> u = [])) \<and>
    (\<exists>u. t = rr_start r @ u @ rr_end r \<and> (\<not> rr_gap r \<longrightarrow> u = []))"
proof -
  obtain p gap where p: "common_start s t = (p, gap)" by fastforce
  obtain q g where q: "common_start (rev s) (rev t) = (q, g)" by fastforce
  from common_start_split [OF p] obtain s' t' where st: "s = p @ s'" "t = p @ t'"
    and gap: "if gap then s' \<noteq> [] \<and> t' \<noteq> [] \<and> hd s' \<noteq> hd t' else s' = [] \<or> t' = []" by blast
  have len: "length s' = length t'" using assms st by simp
  have r: "generate_matching_regex s t =
      \<lparr>rr_start = p, rr_gap = gap, rr_end = if gap then rev q else []\<rparr>"
    by (simp add: generate_matching_regex_def p q)
  show ?thesis
  proof (cases gap)
    case False
    with gap len have "s' = []" "t' = []" by auto
    with False st show ?thesis unfolding r Let_def by simp
  next
    case True
    from common_start_split [OF q] obtain a b where ab: "rev s = q @ a" "rev t = q @ b" by blast
    have ql: "length q \<le> length s'"
    proof (rule ccontr)
      assume "\<not> length q \<le> length s'"
      then have l: "length s' \<le> length q" "length s' - 1 < length q" using True gap by auto
      have "take (length s') (rev s) = rev s'" "take (length t') (rev t) = rev t'"
        by (simp_all add: st)
      then have "rev s' = take (length s') q" "rev t' = take (length s') q"
        using ab l len by simp_all
      then have "s' = t'" by (metis rev_rev_ident)
      with True gap show False by simp
    qed
    have "rev s' = take (length s') (q @ a)" "rev t' = take (length t') (q @ b)"
      using ab st by (metis append_eq_conv_conj length_rev rev_append)+
    then have "rev s' = q @ take (length s' - length q) a" "rev t' = q @ take (length t' - length q) b"
      using ql len by simp_all
    then obtain x y where "s' = x @ rev q" "t' = y @ rev q" by (metis rev_append rev_rev_ident)
    with True st show ?thesis unfolding r Let_def by auto
  qed
qed

lemma rmatch_StrI: "(rev w @ l, v, g) \<in> set (rmatch (StrI w) (l, w @ v, g))"
  by (induction w arbitrary: l) (auto simp: LitI_def)

lemma regex_of_matches:
  assumes "s = rr_start r @ u @ rr_end r" and "\<not> rr_gap r \<longrightarrow> u = []" and "CHR 0x0A \<notin> set s"
  shows "matches_redirect r s"
proof -
  let ?g = "if rr_gap r then Star Dot else Eps"
  let ?m1 = "(rev (rr_start r), u @ rr_end r, [])"
  let ?m2 = "(rev u @ rev (rr_start r), rr_end r, [])"
  let ?m3 = "(rev (rr_end r) @ rev u @ rev (rr_start r), [], [])"
  have "?m1 \<in> set (rmatch (StrI (rr_start r)) ([], s, []))"
    using rmatch_StrI [of "rr_start r" "[]" "u @ rr_end r" "[]"] assms(1) by simp
  moreover have "?m2 \<in> set (rmatch ?g ?m1)"
    using assms by (auto simp: Dot_def rmatch_Star_Chr_set)
  moreover have "?m3 \<in> set (rmatch (StrI (rr_end r)) ?m2)"
    using rmatch_StrI [of "rr_end r" _ "[]"] by simp
  moreover have "?m3 \<in> set (rmatch Eol ?m3)" by simp
  ultimately have "?m3 \<in> set (rmatch (regex_of r) ([], s, []))"
    unfolding regex_of_def rmatch_Seq_set by (auto intro!: bexI)
  then have "rmatch (regex_of r) ([], s, []) \<noteq> []" by auto
  then show ?thesis by (auto simp: matches_redirect_def re_match_def match_from_def split: list.splits)
qed

section \<open>Properties\<close>

text \<open>A differ that reports equal lists word by word, and nothing else as common.\<close>

definition plain_differ :: differ where
  "plain_differ a b = (if a = b then map (\<lambda>w. ''  '' @ w) a else [])"

lemma plain_differ_ok: "differ_ok plain_differ"
proof -
  have "get_static_patterns (map (\<lambda>w. ''  '' @ w) ws) = ws" for ws
  proof (induction ws)
    case (Cons w ws)
    have "starts_with (''  '' @ w) ''  ''" and "lstrip_once (''  '' @ w) ''  '' = w"
      by (rule starts_with_append, rule lstrip_once_append)
    with Cons show ?case by (simp add: get_static_patterns_def)
  qed (simp add: get_static_patterns_def)
  moreover have "get_static_patterns [] = []" by (simp add: get_static_patterns_def)
  ultimately show ?thesis by (simp add: differ_ok_def plain_differ_def del: append_Cons)
qed

text \<open>A wildcard profile recognises its own first sample, whatever samples were added to it.\<close>
theorem parser_recognises_its_base:
  assumes "differ_ok differ"
  shows "compare_to (foldl (\<lambda>p c. add_sample differ c p) (new_parser differ content1 content2) samples)
    content1 (normalize_dynamic_content content1)"
proof -
  have "parser_ok p \<and> cp_base p = content1 \<Longrightarrow>
      parser_ok (foldl (\<lambda>p c. add_sample differ c p) p samples) \<and>
      cp_base (foldl (\<lambda>p c. add_sample differ c p) p samples) = content1" for p
    by (induction samples arbitrary: p) (simp_all add: add_sample_ok [OF assms])
  then have "parser_ok (foldl (\<lambda>p c. add_sample differ c p) (new_parser differ content1 content2) samples) \<and>
      cp_base (foldl (\<lambda>p c. add_sample differ c p) (new_parser differ content1 content2) samples) = content1"
    using new_parser_ok [OF assms] by (auto simp: new_parser_def)
  then show ?thesis using compare_to_base by metis
qed

theorem parser_recognises_its_base_witness:
  "compare_to (foldl (\<lambda>p c. add_sample plain_differ c p) (new_parser plain_differ ''not found a'' ''not found b'') [''not here''])
    ''not found a'' (normalize_dynamic_content ''not found a'')"
  by (rule parser_recognises_its_base [OF plain_differ_ok])

text \<open>A response that matches a profile of changing content contains the profile's static words in
  order: all of them when there are fewer than 20, all but at most one otherwise.\<close>
theorem match_needs_static_words:
  assumes "compare_to p content normalized" and "\<not> cp_is_static p"
  shows "subseq (cp_patterns p) (words_of normalized) \<or>
    20 \<le> length (cp_patterns p) \<and>
    (\<exists>k < length (cp_patterns p). subseq (take k (cp_patterns p) @ drop (Suc k) (cp_patterns p)) (words_of normalized))"
proof -
  have m: "patterns_in (length (cp_patterns p)) (cp_patterns p) (words_of normalized) False"
    using assms by (auto simp: compare_to_def split: if_splits)
  show ?thesis
    using patterns_in_few [of "length (cp_patterns p)"] patterns_in_one_miss [OF m] m
    by (cases "length (cp_patterns p) < 20") auto
qed

theorem match_needs_static_words_witness:
  "subseq [''not'', ''found''] (words_of ''not really found'') \<or>
    20 \<le> length [''not'', ''found''] \<and>
    (\<exists>k < length [''not'', ''found'']. subseq (take k [''not'', ''found''] @ drop (Suc k) [''not'', ''found'']) (words_of ''not really found''))"
  using match_needs_static_words [of "\<lparr>cp_contents = [], cp_normalized = [''x''], cp_base = ''a b c'',
      cp_is_static = False, cp_patterns = [''not'', ''found'']\<rparr>" "''not really found''" "''not really found''"]
  by (simp add: compare_to_def words_of_def is_space_def)

text \<open>The pattern built from two redirects of the same length matches both of them.\<close>
theorem redirect_pattern_matches_both:
  assumes "length first = length second" and "CHR 0x0A \<notin> set first" and "CHR 0x0A \<notin> set second"
  shows "matches_redirect (generate_matching_regex first second) first \<and>
    matches_redirect (generate_matching_regex first second) second"
proof -
  let ?r = "generate_matching_regex first second"
  obtain u v where "first = rr_start ?r @ u @ rr_end ?r" "\<not> rr_gap ?r \<longrightarrow> u = []"
    and "second = rr_start ?r @ v @ rr_end ?r" "\<not> rr_gap ?r \<longrightarrow> v = []"
    using matching_regex_split [OF assms(1)] by (auto simp: Let_def)
  with assms(2,3) show ?thesis using regex_of_matches by blast
qed

theorem redirect_pattern_matches_both_witness:
  "matches_redirect (generate_matching_regex ''/a/x/z'' ''/a/y/z'') ''/a/x/z'' \<and>
    matches_redirect (generate_matching_regex ''/a/x/z'' ''/a/y/z'') ''/a/y/z''"
  by (rule redirect_pattern_matches_both) simp_all

text \<open>For redirects of different lengths the pattern need not match the redirects it was built
  from: the longer of \<open>/login/\<close> and \<open>/login\<close> is lost, and overlapping ends lose the shorter.\<close>
theorem redirect_pattern_can_miss:
  "\<not> matches_redirect (generate_matching_regex ''/login/'' ''/login'') ''/login/'' \<and>
   \<not> matches_redirect (generate_matching_regex ''/aab'' ''/ab'') ''/ab''"
  by (simp add: generate_matching_regex_def matches_redirect_def regex_of_def re_match_def
      match_from_def LitI_def lower_char_def is_upper_def Dot_def rmatch_Star_Chr)

end
