(* ===== verification/Filters.thy ===== *)
theory Filters
  imports Settings PyRe
begin

text \<open>
  The response filters of \<open>lib/core/filters.py\<close>: numeric ranges, time filters, sizes with units,
  and the matching of a value against them.  Floating point numbers are exact rationals with the
  infinities and the not-a-number; whether a user's regular expression compiles is a parameter.
\<close>

section \<open>Numeric ranges\<close>

type_synonym numeric_range = "int \<times> int"

definition parse_range_token :: "string \<Rightarrow> numeric_range result" where
  "parse_range_token token =
     (if CHR ''-'' \<in> set token
      then (let (start, _, finish) = partition ''-'' token in
            case (py_int start, py_int finish) of
              (Some minimum, Some maximum) \<Rightarrow>
                if minimum > maximum then Inl (ValueError (''Invalid numeric range: '' @ token))
                else Inr (minimum, maximum)
            | _ \<Rightarrow> Inl (ValueError (''Invalid numeric range: '' @ token)))
      else (case py_int token of
              None \<Rightarrow> Inl (ValueError (''Invalid numeric value: '' @ token))
            | Some number \<Rightarrow> Inr (number, number)))"

definition tokens_of :: "string \<Rightarrow> string list" where
  "tokens_of value = filter (\<lambda>t. t \<noteq> []) (map strip (split_char (CHR '','') value))"

text \<open>An absent value and the empty text give no ranges.\<close>

definition parse_numeric_ranges :: "string option \<Rightarrow> numeric_range list result" where
  "parse_numeric_ranges value =
     (case value of
        None \<Rightarrow> Inr []
      | Some v \<Rightarrow> if v = [] then Inr [] else rmap parse_range_token (tokens_of v))"

definition matches_numeric_ranges :: "int \<Rightarrow> numeric_range list \<Rightarrow> bool" where
  "matches_numeric_ranges value ranges \<longleftrightarrow>
     list_ex (\<lambda>(minimum, maximum). minimum \<le> value \<and> value \<le> maximum) ranges"

section \<open>Floating point text\<close>

datatype pyfloat = Fin rat | PosInf | NegInf | NaN

fun fl_less :: "pyfloat \<Rightarrow> pyfloat \<Rightarrow> bool" where
  "fl_less (Fin a) (Fin b) \<longleftrightarrow> a < b"
| "fl_less NaN _ \<longleftrightarrow> False"
| "fl_less _ NaN \<longleftrightarrow> False"
| "fl_less NegInf b \<longleftrightarrow> b \<noteq> NegInf"
| "fl_less (Fin _) b \<longleftrightarrow> b = PosInf"
| "fl_less PosInf _ \<longleftrightarrow> False"

definition fl_eq :: "pyfloat \<Rightarrow> pyfloat \<Rightarrow> bool" where
  "fl_eq a b \<longleftrightarrow> a = b \<and> a \<noteq> NaN"

text \<open>\<open>float(s)\<close>: digits with single underscores, a fraction, an exponent; or the names of the
  special values.\<close>

definition digits_value :: "string \<Rightarrow> (nat \<times> nat) option" where
  "digits_value s =
     (if s = [] then Some (0, 0)
      else map_option (\<lambda>n. (n, length (filter is_digit s))) (read_digits 0 False s))"

definition signed :: "string \<Rightarrow> bool \<times> string" where
  "signed s =
     (case s of
        [] \<Rightarrow> (False, [])
      | c # t \<Rightarrow> if c = CHR ''-'' then (True, t) else if c = CHR ''+'' then (False, t) else (False, s))"

definition exponent_value :: "string \<Rightarrow> int option" where
  "exponent_value s =
     (let (neg, t) = signed s in
      map_option (\<lambda>n. if neg then - int n else int n) (read_digits 0 False t))"

definition ten_power :: "int \<Rightarrow> rat" where
  "ten_power e = (if 0 \<le> e then 10 ^ nat e else 1 / 10 ^ nat (- e))"

definition py_float :: "string \<Rightarrow> pyfloat option" where
  "py_float raw =
     (let (neg, s) = signed (strip raw); l = lower s in
      if l = ''inf'' \<or> l = ''infinity'' then Some (if neg then NegInf else PosInf)
      else if l = ''nan'' then Some NaN
      else
        (let (mant, e, expo) = partition ''e'' l;
             (whole, _, frac) = partition ''.'' mant
         in case (digits_value whole, digits_value frac,
                  if e = [] then Some 0 else exponent_value expo) of
              (Some (w, wd), Some (f, fd), Some x) \<Rightarrow>
                if wd + fd = 0 then None
                else (let v = (of_nat w + of_nat f / 10 ^ fd) * ten_power x in
                      Some (Fin (if neg then - v else v)))
            | _ \<Rightarrow> None))"

section \<open>Time filters\<close>

type_synonym time_filter = "char \<times> pyfloat"

definition parse_time_token :: "string \<Rightarrow> time_filter result" where
  "parse_time_token token =
     (let (op, number) =
            (if hd token = CHR ''>'' \<or> hd token = CHR ''<'' then (hd token, tl token)
             else (CHR ''='', token))
      in case py_float number of
           None \<Rightarrow> Inl (ValueError (''Invalid time filter: '' @ [op] @ number))
         | Some f \<Rightarrow> Inr (op, f))"

definition parse_time_filters :: "string option \<Rightarrow> time_filter list result" where
  "parse_time_filters value =
     (case value of
        None \<Rightarrow> Inr []
      | Some v \<Rightarrow> if v = [] then Inr [] else rmap parse_time_token (tokens_of v))"

definition time_filter_matches :: "pyfloat \<Rightarrow> time_filter \<Rightarrow> bool" where
  "time_filter_matches milliseconds f \<longleftrightarrow>
     (case f of (op, value) \<Rightarrow>
        (op = CHR ''>'' \<and> fl_less value milliseconds) \<or>
        (op = CHR ''<'' \<and> fl_less milliseconds value) \<or>
        (op = CHR ''='' \<and> fl_eq milliseconds value))"

definition matches_time_filters :: "rat \<Rightarrow> time_filter list \<Rightarrow> bool" where
  "matches_time_filters elapsed filters \<longleftrightarrow>
     list_ex (time_filter_matches (Fin (elapsed * 1000))) filters"

section \<open>Sizes\<close>

definition size_units_table :: "(string \<times> int) list" where
  "size_units_table =
     [(''B'', 1), (''KB'', 1024), (''MB'', 1024 ^ 2), (''GB'', 1024 ^ 3), (''TB'', 1024 ^ 4),
      (''PB'', 1024 ^ 5), (''EB'', 1024 ^ 6), (''ZB'', 1024 ^ 7), (''YB'', 1024 ^ 8)]"

text \<open>\<open>SIZE_RE\<close>: \<open>^(\d+)\s*([KMGTPEZY]?B)?$\<close> without regard to case.\<close>

definition size_re :: rx where
  "size_re =
     Seq (Cap 1 (Plus (Chr is_digit)))
       (Seq (Star (Chr is_space))
         (Seq (Opt (Cap 2 (Seq (Opt (Chr (\<lambda>c. upper_char c \<in> set ''KMGTPEZY''))) (LitI (CHR ''B'')))))
           Eol))"

datatype size_arg = NoSize | SizeInt int | SizeText string

definition parse_size_text :: "string \<Rightarrow> int result" where
  "parse_size_text value =
     (let token = strip value in
      if token = [] then Inr 0
      else (case re_fullmatch size_re token of
              None \<Rightarrow> Inl (ValueError (''Invalid response size: '' @ value))
            | Some m \<Rightarrow>
                (case (group 1 m, map_of size_units_table
                         (upper (case group 2 m of None \<Rightarrow> ''B'' | Some u \<Rightarrow> u))) of
                   (Some number, Some multiplier) \<Rightarrow>
                     (case py_int number of
                        Some n \<Rightarrow> Inr (n * multiplier)
                      | None \<Rightarrow> Inl (ValueError number))
                 | _ \<Rightarrow> Inl KeyError)))"

fun parse_size :: "size_arg \<Rightarrow> int result" where
  "parse_size NoSize = Inr 0"
| "parse_size (SizeInt n) =
     (if n < 0 then Inl (ValueError (''Invalid response size: '' @ show_int n)) else Inr n)"
| "parse_size (SizeText value) = (if value = [] then Inr 0 else parse_size_text value)"

definition parse_size_list :: "string option \<Rightarrow> int set result" where
  "parse_size_list value =
     (case value of
        None \<Rightarrow> Inr {}
      | Some v \<Rightarrow>
          if v = [] then Inr {}
          else rfold (\<lambda>token sizes. rbind (parse_size (SizeText token)) (\<lambda>n. Inr (insert n sizes)))
                 (tokens_of v) {})"

text \<open>\<open>validate_regex\<close>, with the compiler's verdict on a pattern as a parameter.\<close>

definition validate_regex :: "(string \<Rightarrow> string option) \<Rightarrow> string option \<Rightarrow> string \<Rightarrow> unit result" where
  "validate_regex compile_error pattern label =
     (case pattern of
        None \<Rightarrow> Inr ()
      | Some p \<Rightarrow>
          if p = [] then Inr ()
          else (case compile_error p of
                  None \<Rightarrow> Inr ()
                | Some e \<Rightarrow> Inl (ValueError (''Invalid '' @ label @ '' regular expression: '' @ e))))"

section \<open>Facts\<close>

lemma split_range:
  assumes "CHR ''-'' \<in> set token"
  shows "\<exists>a b. partition ''-'' token = (a, ''-'', b) \<and> CHR ''-'' \<notin> set a \<and> token = a @ ''-'' @ b"
proof -
  from assms obtain i where i: "find_sub ''-'' token = Some i"
    using contains_single [of token "CHR ''-''"] by (auto simp: contains_def)
  have "CHR ''-'' \<notin> set (take i token)"
    using i
  proof (induction token arbitrary: i)
    case (Cons c token)
    then show ?case by (cases i) (auto simp: starts_with_Cons split: if_splits)
  qed simp
  with i find_sub_Some [OF i] show ?thesis by (auto simp: partition_def)
qed

lemma py_int_nonneg:
  assumes "py_int s = Some n" and "CHR ''-'' \<notin> set s"
  shows "0 \<le> n"
proof -
  have "set (strip s) \<subseteq> set s"
    unfolding strip_p_def rstrip_p_def lstrip_p_def
    by (auto dest!: set_dropWhileD)
  then have "CHR ''-'' \<notin> set (strip s)" using assms(2) by blast
  with assms(1) show ?thesis by (auto simp: py_int_def split: list.splits if_splits)
qed

lemma parse_range_token_bounds:
  assumes "parse_range_token token = Inr (a, b)"
  shows "0 \<le> a \<and> a \<le> b"
proof (cases "CHR ''-'' \<in> set token")
  case True
  then obtain s e where p: "partition ''-'' token = (s, ''-'', e)" and "CHR ''-'' \<notin> set s"
    using split_range by blast
  with assms True py_int_nonneg [of s] show ?thesis
    by (auto simp: parse_range_token_def split: option.splits if_splits)
next
  case False
  with assms py_int_nonneg [of token] show ?thesis
    by (auto simp: parse_range_token_def split: option.splits)
qed

lemma parse_numeric_ranges_bounds:
  assumes "parse_numeric_ranges v = Inr rs" and "(a, b) \<in> set rs"
  shows "0 \<le> a \<and> a \<le> b"
proof -
  obtain ts where "rmap parse_range_token ts = Inr rs"
    using assms by (auto simp: parse_numeric_ranges_def split: option.splits if_splits)
  then have "list_all2 (\<lambda>t r. parse_range_token t = Inr r) ts rs" by (simp add: rmap_eq_Inr)
  with assms(2) obtain t where "parse_range_token t = Inr (a, b)"
    by (auto simp: list_all2_conv_all_nth in_set_conv_nth)
  then show ?thesis by (rule parse_range_token_bounds)
qed

definition show_range :: "numeric_range \<Rightarrow> string" where
  "show_range r = show_int (fst r) @ ''-'' @ show_int (snd r)"

lemma show_int_chars: "0 \<le> n \<Longrightarrow> \<forall>c \<in> set (show_int n). c \<noteq> CHR ''-'' \<and> c \<noteq> CHR '','' \<and> \<not> is_space c"
  using show_nat_chars [of "nat n"] by (auto simp: show_int_def)

lemma show_int_ne [simp]: "show_int n \<noteq> []"
  using show_nat_chars by (auto simp: show_int_def)

lemma partition_range:
  "CHR ''-'' \<notin> set a \<Longrightarrow> partition ''-'' (a @ CHR ''-'' # b) = (a, ''-'', b)"
proof -
  assume "CHR ''-'' \<notin> set a"
  then have "find_sub ''-'' (a @ CHR ''-'' # b) = Some (length a)"
    by (induction a) (auto simp: starts_with_Cons)
  then show ?thesis by (simp add: partition_def)
qed

lemma parse_show_range:
  assumes "0 \<le> a" and "a \<le> b"
  shows "parse_range_token (show_range (a, b)) = Inr (a, b)"
proof -
  have "CHR ''-'' \<notin> set (show_int a)" using show_int_chars [OF assms(1)] by auto
  then show ?thesis
    using assms by (simp add: parse_range_token_def show_range_def partition_range py_int_show)
qed

lemma tokens_of_ranges:
  assumes "\<forall>r \<in> set rs. 0 \<le> fst r \<and> fst r \<le> snd r" and "rs \<noteq> []"
  shows "tokens_of (join '','' (map show_range rs)) = map show_range rs"
proof -
  have c: "CHR '','' \<notin> set (show_range r) \<and> strip (show_range r) = show_range r \<and> show_range r \<noteq> []"
    if "r \<in> set rs" for r
  proof -
    have nn: "0 \<le> fst r" "0 \<le> snd r" using assms(1) that by force+
    have h: "hd (show_range r) \<in> set (show_int (fst r))" and l: "last (show_range r) \<in> set (show_int (snd r))"
      by (simp_all add: show_range_def)
    have "strip (show_range r) = show_range r"
      using h l show_int_chars [OF nn(1)] show_int_chars [OF nn(2)] by (intro strip_p_id) auto
    with show_int_chars [OF nn(1)] show_int_chars [OF nn(2)] show ?thesis
      by (auto simp: show_range_def)
  qed
  then have "split_char (CHR '','') (join '','' (map show_range rs)) = map show_range rs"
    using assms(2) by (intro split_join) auto
  moreover have "map strip (map show_range rs) = map show_range rs" using c by simp
  moreover have "filter (\<lambda>t. t \<noteq> []) (map show_range rs) = map show_range rs"
    using c by (auto intro: filter_True)
  ultimately show ?thesis by (simp only: tokens_of_def)
qed

lemma join_not_Nil: "ws \<noteq> [] \<Longrightarrow> \<forall>w \<in> set ws. w \<noteq> [] \<Longrightarrow> join sep ws \<noteq> []"
  by (induction sep ws rule: join.induct) auto

lemma parse_show_ranges:
  assumes "\<forall>r \<in> set rs. 0 \<le> fst r \<and> fst r \<le> snd r"
  shows "parse_numeric_ranges (Some (join '','' (map show_range rs))) = Inr rs"
proof (cases "rs = []")
  case False
  then have "join '','' (map show_range rs) \<noteq> []"
    by (intro join_not_Nil) (auto simp: show_range_def)
  moreover have "rmap parse_range_token (map show_range rs) = Inr rs"
    using assms parse_show_range
    by (auto simp: rmap_eq_Inr list.rel_map intro!: list.rel_refl_strong)
  ultimately show ?thesis
    using False assms by (simp add: parse_numeric_ranges_def tokens_of_ranges)
qed (simp add: parse_numeric_ranges_def)

text \<open>A decimal number followed by a unit matches the size pattern in one way only.\<close>

lemma fullmatch_unique:
  assumes "\<exists>m \<in> set (rmatch r ([], s, [])). rest m = []"
    and "\<And>m. m \<in> set (rmatch r ([], s, [])) \<Longrightarrow> rest m = [] \<Longrightarrow> snd (snd m) = g"
  shows "re_fullmatch r s = Some \<lparr>matched = s, groups = g, after = []\<rparr>"
proof -
  obtain m ms where ms: "filter (\<lambda>m. rest m = []) (rmatch r ([], s, [])) = m # ms"
    using assms(1) by (cases "filter (\<lambda>m. rest m = []) (rmatch r ([], s, []))") (auto simp: filter_empty_conv)
  have "m \<in> set (filter (\<lambda>m. rest m = []) (rmatch r ([], s, [])))" by (simp only: ms) simp
  then have "snd (snd m) = g" using assms(2) by simp
  with ms show ?thesis by (simp add: re_fullmatch_def)
qed

lemma rmatch_digits:
  "set (rmatch (Cap n (Plus (Chr is_digit))) ([], s, [])) =
     {(rev u, v, [(n, u)]) | u v. s = u @ v \<and> u \<noteq> [] \<and> (\<forall>x \<in> set u. is_digit x)}"
proof -
  have plus: "set (rmatch (Plus (Chr is_digit)) ([], s, [])) =
    {(rev u, v, []) | u v. s = u @ v \<and> u \<noteq> [] \<and> (\<forall>x \<in> set u. is_digit x)}"
  proof (cases s)
    case (Cons c t)
    have "{(rev u @ [c], v, []) | u v. t = u @ v \<and> (\<forall>x \<in> set u. is_digit x)} =
      {(rev u, v, []) | u v. c # t = u @ v \<and> u \<noteq> [] \<and> (\<forall>x \<in> set u. is_digit x)}" if "is_digit c"
      using that by (auto simp: Cons_eq_append_conv)
    with Cons show ?thesis
      by (auto simp: Plus_def rmatch_Star_Chr_set Cons_eq_append_conv split: if_splits)
  qed (auto simp: Plus_def)
  show ?thesis using plus by (force simp: image_iff)
qed

definition size_tail :: rx where
  "size_tail =
     Seq (Star (Chr is_space))
       (Seq (Opt (Cap 2 (Seq (Opt (Chr (\<lambda>c. upper_char c \<in> set ''KMGTPEZY''))) (LitI (CHR ''B'')))))
         Eol)"

lemma digit_char_facts:
  "is_digit c \<Longrightarrow> \<not> is_space c \<and> \<not> is_lower c \<and> \<not> is_upper c \<and> c \<notin> set ''KMGTPEZY'' \<and> c \<noteq> CHR ''b'' \<and> c \<noteq> CHR 0x0A"
  by (auto simp: is_digit_def is_space_def is_lower_def is_upper_def)

lemma size_tail_digit: "is_digit c \<Longrightarrow> rmatch size_tail (l, c # v, g) = []"
  using digit_char_facts [of c]
  by (simp add: size_tail_def rmatch_Star_Chr rx_defs upper_char_def lower_char_def char_simps)

lemma size_tail_unit:
  "(u, k) \<in> set size_units_table \<Longrightarrow> rmatch size_tail (l, u, g) = [(rev u @ l, [], (2, u) # g)]"
  by (auto simp: size_units_table_def size_tail_def rmatch_Star_Chr rx_defs char_simps
      of_char_Char numeral_2_eq_2)

lemma size_unit_not_digit: "(u, k) \<in> set size_units_table \<Longrightarrow> u \<noteq> [] \<and> \<not> is_digit (hd u) \<and> \<not> is_space (last u)"
  by (auto simp: size_units_table_def char_simps)

lemma size_unit_upper: "(u, k) \<in> set size_units_table \<Longrightarrow> map_of size_units_table (upper u) = Some k"
  by (auto simp: size_units_table_def char_simps)

lemma size_fullmatch:
  assumes ds: "ds \<noteq> []" "\<forall>c \<in> set ds. is_digit c" and u: "(u, k) \<in> set size_units_table"
  shows "re_fullmatch size_re (ds @ u) = Some \<lparr>matched = ds @ u, groups = [(2, u), (1, ds)], after = []\<rparr>"
proof (rule fullmatch_unique)
  let ?D = "set (rmatch (Cap 1 (Plus (Chr is_digit))) ([], ds @ u, []))"
  have re: "set (rmatch size_re ([], ds @ u, [])) = (\<Union>m \<in> ?D. set (rmatch size_tail m))"
    by (simp only: size_re_def size_tail_def [symmetric] rmatch_Seq_set)
  have "(rev ds, u, [(1, ds)]) \<in> ?D" unfolding rmatch_digits using ds by blast
  moreover have "(rev u @ rev ds, [], [(2, u), (1, ds)]) \<in> set (rmatch size_tail (rev ds, u, [(1, ds)]))"
    using size_tail_unit [OF u] by simp
  ultimately have "(rev u @ rev ds, [], [(2, u), (1, ds)]) \<in> set (rmatch size_re ([], ds @ u, []))"
    unfolding re by blast
  then show "\<exists>m \<in> set (rmatch size_re ([], ds @ u, [])). rest m = []"
    by (rule bexI [rotated]) simp
  fix m
  assume "m \<in> set (rmatch size_re ([], ds @ u, []))"
  then obtain w v where wv: "ds @ u = w @ v" "w \<noteq> []" "\<forall>x \<in> set w. is_digit x"
    and m: "m \<in> set (rmatch size_tail (rev w, v, [(1, w)]))"
    unfolding re rmatch_digits by blast
  have "w = ds \<and> v = u"
  proof (cases "length w < length ds")
    case True
    then have "v = drop (length w) ds @ u" using wv(1) by (simp add: append_eq_append_conv_if)
    moreover obtain c t where "drop (length w) ds = c # t" using True by (cases "drop (length w) ds") auto
    moreover from this have "c \<in> set ds" by (metis in_set_dropD list.set_intros(1))
    ultimately have "v = c # t @ u" and "is_digit c"
      using ds(2) by simp_all
    with m size_tail_digit show ?thesis by simp
  next
    case False
    then have "ds = take (length ds) w" and ux: "u = drop (length ds) w @ v"
      using wv(1) by (simp_all add: append_eq_append_conv_if)
    then have w: "w = ds @ drop (length ds) w" by (metis append_take_drop_id)
    moreover have "drop (length ds) w = []"
    proof (rule ccontr)
      assume ne: "drop (length ds) w \<noteq> []"
      then have "hd u \<in> set w" using ux by (metis hd_append2 hd_in_set in_set_dropD)
      with wv(3) size_unit_not_digit [OF u] show False by blast
    qed
    ultimately show ?thesis using wv(1) by simp
  qed
  with m size_tail_unit [OF u, of "rev w" "[(1, w)]"] show "snd (snd m) = [(2, u), (1, ds)]" by simp
qed

lemma parse_size_show:
  assumes u: "(u, k) \<in> set size_units_table"
  shows "parse_size (SizeText (show_nat n @ u)) = Inr (int n * k)"
proof -
  have ds: "show_nat n \<noteq> []" "\<forall>c \<in> set (show_nat n). is_digit c" using show_nat_chars [of n] by auto
  have "strip (show_nat n @ u) = show_nat n @ u"
    using show_nat_chars [of n] size_unit_not_digit [OF u] by (intro strip_p_id) auto
  moreover have "py_int (show_nat n) = Some (int n)"
    using py_int_show [of "int n"] by (simp add: show_int_def)
  ultimately show ?thesis
    using ds size_fullmatch [OF ds u] size_unit_upper [OF u]
    by (simp add: parse_size_text_def group_def)
qed

section \<open>Properties\<close>

text \<open>Printing a list of ranges and parsing the text gives the same list.\<close>
theorem parse_printed_ranges:
  assumes "list_all (\<lambda>r. 0 \<le> fst r \<and> fst r \<le> snd r) rs"
  shows "parse_numeric_ranges (Some (join '','' (map show_range rs))) = Inr rs"
  using assms by (intro parse_show_ranges) (auto simp: list_all_iff)

theorem parse_printed_ranges_witness:
  "parse_numeric_ranges (Some (join '','' (map show_range [(200, 299), (404, 404)]))) = Inr [(200, 299), (404, 404)]"
  by (rule parse_printed_ranges) simp

text \<open>Every parsed range is ordered and not negative, and a value matches the parsed ranges
  exactly when it lies in one of them.\<close>
theorem parsed_ranges_are_ordered:
  assumes "parse_numeric_ranges v = Inr rs"
  shows "list_all (\<lambda>(a, b). 0 \<le> a \<and> a \<le> b) rs \<and>
    matches_numeric_ranges n rs = (n \<in> (\<Union>r \<in> set rs. {fst r..snd r}))"
  using parse_numeric_ranges_bounds [OF assms]
  by (auto simp: list_all_iff matches_numeric_ranges_def list_ex_iff case_prod_beta)

theorem parsed_ranges_are_ordered_witness:
  "list_all (\<lambda>(a, b). 0 \<le> a \<and> a \<le> b) [(200 :: int, 299 :: int)] \<and>
    matches_numeric_ranges 204 [(200, 299)] = (204 \<in> (\<Union>r \<in> set [(200 :: int, 299 :: int)]. {fst r..snd r}))"
  by (rule parsed_ranges_are_ordered [OF parse_show_ranges]) simp

text \<open>A number with a unit parses to the number times the power of 1024 of its unit.\<close>
theorem parse_size_with_unit:
  assumes "(u, k) \<in> set size_units_table"
  shows "parse_size (SizeText (show_nat n @ u)) = Inr (int n * k)"
  using assms by (rule parse_size_show)

theorem parse_size_with_unit_witness:
  "parse_size (SizeText (show_nat 12 @ ''MB'')) = Inr (int 12 * 1048576)"
  by (rule parse_size_with_unit) (simp add: size_units_table_def)

end
