(* ===== verification/Response.thy ===== *)
theory Response
  imports Url Diff Filters
begin

text \<open>
  \<open>lib/connection/response.py\<close>: the response headers, the bounded capture of a body with its
  running digest, the charset rules, and the response object with its derived values and its
  equality.  Bytes and text are both \<open>string\<close>; the codecs, the SHA-256 function and the chunks
  the HTTP library yields are parameters.
\<close>

section \<open>Headers\<close>

type_synonym header_items = "(string \<times> string) list"

text \<open>\<open>ResponseHeaders\<close>: the pairs as received, the first spelling and all values of each name.\<close>

record response_headers =
  rh_items :: header_items
  rh_names :: "(string \<times> string) list"
  rh_values :: "(string \<times> string list) list"

definition setdefault :: "string \<Rightarrow> 'v \<Rightarrow> (string \<times> 'v) list \<Rightarrow> (string \<times> 'v) list" where
  "setdefault k v d = (if map_of d k = None then d @ [(k, v)] else d)"

definition append_value :: "string \<Rightarrow> string \<Rightarrow> (string \<times> string list) list \<Rightarrow> (string \<times> string list) list" where
  "append_value k v d = map (\<lambda>(j, vs). if j = k then (j, vs @ [v]) else (j, vs)) (setdefault k [] d)"

definition add_header :: "string \<times> string \<Rightarrow> response_headers \<Rightarrow> response_headers" where
  "add_header nv h =
     h\<lparr>rh_names := setdefault (lower (fst nv)) (fst nv) (rh_names h),
       rh_values := append_value (lower (fst nv)) (snd nv) (rh_values h)\<rparr>"

definition new_headers :: "header_items \<Rightarrow> response_headers" where
  "new_headers items = fold add_header items \<lparr>rh_items = items, rh_names = [], rh_values = []\<rparr>"

definition header_value :: "response_headers \<Rightarrow> string \<Rightarrow> string result" where
  "header_value h name =
     (case map_of (rh_values h) (lower name) of
        None \<Rightarrow> Inl KeyError
      | Some values \<Rightarrow> Inr (if length values = 1 then hd values else join '', '' values))"

text \<open>\<open>Mapping.get\<close> turns the \<open>KeyError\<close> into the default.\<close>

definition get_header :: "response_headers \<Rightarrow> string \<Rightarrow> string option" where
  "get_header h name = (case header_value h name of Inl _ \<Rightarrow> None | Inr v \<Rightarrow> Some v)"

definition get_list :: "response_headers \<Rightarrow> string \<Rightarrow> string list" where
  "get_list h name = (case map_of (rh_values h) (lower name) of None \<Rightarrow> [] | Some vs \<Rightarrow> vs)"

definition header_names :: "response_headers \<Rightarrow> string list" where
  "header_names h = map snd (rh_names h)"

definition headers_len :: "response_headers \<Rightarrow> nat" where
  "headers_len h = length (rh_values h)"

definition multi_items :: "response_headers \<Rightarrow> header_items" where
  "multi_items h = rh_items h"

section \<open>Content length, charset, media type\<close>

definition truthy :: "string option \<Rightarrow> bool" where
  "truthy s \<longleftrightarrow> s \<noteq> None \<and> s \<noteq> Some []"

definition or_empty :: "string option \<Rightarrow> string" where
  "or_empty s = (case s of None \<Rightarrow> [] | Some v \<Rightarrow> v)"

definition decoded_content_length :: "response_headers \<Rightarrow> nat option" where
  "decoded_content_length h =
     (if truthy (get_header h ''transfer-encoding'') then None
      else
        (let ce = lower (strip (or_empty (get_header h ''content-encoding''))) in
         if ce \<noteq> [] \<and> ce \<noteq> ''identity'' then None
         else (case get_header h ''content-length'' of
                 None \<Rightarrow> None
               | Some s \<Rightarrow> (case py_int s of
                              None \<Rightarrow> None
                            | Some n \<Rightarrow> if 0 \<le> n then Some (nat n) else None))))"

definition quote_mark :: "char \<Rightarrow> bool" where
  "quote_mark c \<longleftrightarrow> c = CHR 0x22 \<or> c = CHR 0x27"

text \<open>The loop over the parameters of the content type: it returns at the first charset.\<close>

fun charset_parameter :: "string list \<Rightarrow> string option" where
  "charset_parameter [] = None"
| "charset_parameter (parameter # parameters) =
     (let (name, separator, value) = partition ''='' parameter in
      if separator \<noteq> [] \<and> lower (strip_p quote_mark (strip name)) = ''charset''
      then (let v = strip_p quote_mark (strip value) in if v = [] then None else Some v)
      else charset_parameter parameters)"

definition declared_charset :: "response_headers \<Rightarrow> string option" where
  "declared_charset h =
     (let ct = get_header h ''content-type'' in
      if \<not> truthy ct then None
      else charset_parameter (tl (split_char (CHR '';'') (or_empty ct))))"

definition has_textual_media_type :: "response_headers \<Rightarrow> bool" where
  "has_textual_media_type h \<longleftrightarrow>
     (let ct = lower (strip (hd (split_char (CHR '';'') (or_empty (get_header h ''content-type''))))) in
      starts_with ct ''text/'' \<or> ct = ''application/json'' \<or> ct = ''application/xml'' \<or>
      ends_with_any ct [''+json'', ''+xml''])"

text \<open>The codecs: decoding with replacement (\<open>None\<close> for an unknown name), the known names, and
  decoding as UTF-8 without the undecodable bytes.\<close>

record codecs =
  codec_decode :: "string \<Rightarrow> string \<Rightarrow> string option"
  codec_ignore :: "string \<Rightarrow> string"

definition is_known_charset :: "codecs \<Rightarrow> string option \<Rightarrow> bool" where
  "is_known_charset cs charset \<longleftrightarrow>
     (case charset of None \<Rightarrow> False | Some c \<Rightarrow> codec_decode cs c [] \<noteq> None)"

definition should_decode_binary_text :: "codecs \<Rightarrow> response_headers \<Rightarrow> string option \<Rightarrow> bool" where
  "should_decode_binary_text cs h charset \<longleftrightarrow> has_textual_media_type h \<and> is_known_charset cs charset"

definition decode_response_body :: "codecs \<Rightarrow> string \<Rightarrow> string option \<Rightarrow> bool \<Rightarrow> string" where
  "decode_response_body cs body encoding decode_binary_text =
     (if is_binary body \<and> \<not> decode_binary_text then []
      else (case codec_decode cs (if truthy encoding then the encoding else ''utf-8'') body of
              Some text \<Rightarrow> text
            | None \<Rightarrow> (case codec_decode cs ''utf-8'' body of Some text \<Rightarrow> text | None \<Rightarrow> [])))"

section \<open>Capturing a body\<close>

text \<open>A running digest is the bytes fed to it.\<close>

record body_capture =
  bc_body :: string
  bc_complete :: bool
  bc_digest :: "string option"
  bc_full :: bool
  bc_headers :: response_headers
  bc_read_length :: nat

definition new_capture :: "response_headers \<Rightarrow> bool \<Rightarrow> body_capture" where
  "new_capture h capture_full_body =
     \<lparr>bc_body = [], bc_complete = False, bc_digest = None, bc_full = capture_full_body,
      bc_headers = h, bc_read_length = 0\<rparr>"

text \<open>Where the captured part of a chunk goes: to the running digest, or to the body, which turns
  into a digest when it is binary and its whole text is not wanted.\<close>

definition capture_store :: "string \<Rightarrow> body_capture \<Rightarrow> body_capture" where
  "capture_store part c =
     (case bc_digest c of
        Some d \<Rightarrow> c\<lparr>bc_digest := Some (d @ part)\<rparr>
      | None \<Rightarrow>
          (let c = c\<lparr>bc_body := bc_body c @ part\<rparr> in
           if \<not> bc_full c \<and> get_header (bc_headers c) ''content-length'' \<noteq> None \<and>
              is_binary (bc_body c)
           then c\<lparr>bc_digest := Some (bc_body c)\<rparr> else c))"

definition capture_add :: "string \<Rightarrow> body_capture \<Rightarrow> bool \<times> body_capture" where
  "capture_add chunk c =
     (let part = take (max_response_size - bc_read_length c) chunk;
          c = capture_store part (c\<lparr>bc_read_length := bc_read_length c + length part\<rparr>)
      in if length part < length chunk \<or> max_response_size \<le> bc_read_length c
         then (False, c\<lparr>bc_complete := length part = length chunk \<and>
                        decoded_content_length (bc_headers c) = Some (bc_read_length c)\<rparr>)
         else (True, c))"

definition capture_finish :: "body_capture \<Rightarrow> body_capture" where
  "capture_finish c = c\<lparr>bc_complete := True\<rparr>"

text \<open>The \<open>for\<close> loop over the chunks with its \<open>else\<close> branch.\<close>

fun capture_chunks :: "string list \<Rightarrow> body_capture \<Rightarrow> body_capture" where
  "capture_chunks [] c = capture_finish c"
| "capture_chunks (chunk # chunks) c =
     (let (more, c) = capture_add chunk c in if more then capture_chunks chunks c else c)"

definition body_digest :: "(string \<Rightarrow> string) \<Rightarrow> body_capture \<Rightarrow> string option" where
  "body_digest sha256 c = map_option sha256 (bc_digest c)"

section \<open>Responses\<close>

record response =
  r_id :: nat
  r_url :: string
  r_final_url :: string
  r_full_path :: string
  r_path :: string
  r_status :: int
  r_headers :: response_headers
  r_redirect :: string
  r_history :: "string list"
  r_elapsed :: rat
  r_content :: string
  r_body :: string
  r_body_complete :: bool
  r_body_digest :: "string option"
  r_length_override :: "nat option"
  r_filtered :: bool
  r_filter_reason :: "string option"

definition base_response ::
  "nat \<Rightarrow> string \<Rightarrow> int \<Rightarrow> header_items \<Rightarrow> rat \<Rightarrow> string list \<Rightarrow> string option \<Rightarrow> response" where
  "base_response oid url status headers elapsed history final_url =
     (let h = new_headers headers; full_path = parse_path url in
      \<lparr>r_id = oid, r_url = url,
       r_final_url = (if truthy final_url then the final_url else url),
       r_full_path = full_path, r_path = clean_path full_path False False,
       r_status = status, r_headers = h, r_redirect = or_empty (get_header h ''location''),
       r_history = history, r_elapsed = elapsed, r_content = [], r_body = [],
       r_body_complete = True, r_body_digest = None, r_length_override = None,
       r_filtered = False, r_filter_reason = None\<rparr>)"

text \<open>\<open>Response.__init__\<close> and \<open>AsyncResponse.create\<close>: the library's response gives status,
  headers, history, final URL, guessed encoding and the chunks.\<close>

record http_result =
  h_status :: int
  h_headers :: header_items
  h_history :: "string list"
  h_url :: string
  h_encoding :: "string option"
  h_chunks :: "string list"

definition capture_of :: "codecs \<Rightarrow> http_result \<Rightarrow> bool \<Rightarrow> body_capture" where
  "capture_of cs res capture_full_body =
     (let h = new_headers (h_headers res) in
      capture_chunks (h_chunks res)
        (new_capture h (capture_full_body \<or> should_decode_binary_text cs h (declared_charset h))))"

definition new_response ::
  "codecs \<Rightarrow> (string \<Rightarrow> string) \<Rightarrow> nat \<Rightarrow> string \<Rightarrow> http_result \<Rightarrow> rat \<Rightarrow> bool \<Rightarrow> response" where
  "new_response cs sha256 oid url res elapsed capture_full_body =
     (let r = base_response oid url (h_status res) (h_headers res) elapsed (h_history res) (Some (h_url res));
          charset = declared_charset (r_headers r);
          decode_binary_text = should_decode_binary_text cs (r_headers r) charset;
          capture = capture_of cs res capture_full_body
      in r\<lparr>r_body := bc_body capture, r_body_complete := bc_complete capture,
           r_body_digest := body_digest sha256 capture,
           r_content := decode_response_body cs (bc_body capture)
             (if truthy charset then charset else h_encoding res) decode_binary_text\<rparr>)"

text \<open>\<open>AsyncResponse.create\<close>: the chunks arrive by asynchronous iteration.\<close>

definition async_response ::
  "codecs \<Rightarrow> (string \<Rightarrow> string) \<Rightarrow> nat \<Rightarrow> string \<Rightarrow> http_result \<Rightarrow> rat \<Rightarrow> bool \<Rightarrow> response" where
  "async_response cs sha256 oid url res elapsed capture_full_body =
     new_response cs sha256 oid url res elapsed capture_full_body"

text \<open>\<open>NativeResponse.__init__\<close>.\<close>

definition native_response ::
  "codecs \<Rightarrow> nat \<Rightarrow> string \<Rightarrow> int \<Rightarrow> header_items \<Rightarrow> string \<Rightarrow> rat \<Rightarrow> nat option \<Rightarrow> bool \<Rightarrow>
     string option \<Rightarrow> bool option \<Rightarrow> string list \<Rightarrow> string option \<Rightarrow> response" where
  "native_response cs oid url status headers body elapsed len filtered reason body_complete history final_url =
     (let r = base_response oid url status (map (\<lambda>(n, v). (lower n, v)) headers) elapsed history final_url;
          charset = declared_charset (r_headers r)
      in r\<lparr>r_length_override := len, r_filtered := filtered, r_filter_reason := reason, r_body := body,
           r_body_complete := (case body_complete of
                                 Some b \<Rightarrow> b
                               | None \<Rightarrow> (case len of Some n \<Rightarrow> n = length body | None \<Rightarrow> True)),
           r_content := decode_response_body cs body charset
             (should_decode_binary_text cs (r_headers r) charset)\<rparr>)"

definition r_type :: "response \<Rightarrow> string" where
  "r_type r =
     (let ct = get_header (r_headers r) ''content-type'' in
      if truthy ct then hd (split_char (CHR '';'') (the ct)) else unknown)"

definition r_length :: "response \<Rightarrow> int" where
  "r_length r =
     (case r_length_override r of
        Some n \<Rightarrow> int n
      | None \<Rightarrow> get_response_length (get_header (r_headers r) ''content-length'') (int (length (r_body r))))"

definition r_size :: "response \<Rightarrow> string" where
  "r_size r = get_readable_size (r_length r)"

definition r_text :: "codecs \<Rightarrow> response \<Rightarrow> string" where
  "r_text cs r = (if r_content r \<noteq> [] then r_content r else codec_ignore cs (r_body r))"

definition r_normalized_content :: "codecs \<Rightarrow> response \<Rightarrow> string" where
  "r_normalized_content cs r = normalize_dynamic_content (r_text cs r)"

definition r_words :: "codecs \<Rightarrow> response \<Rightarrow> nat" where
  "r_words cs r = length (words_of (r_text cs r))"

definition r_lines :: "codecs \<Rightarrow> response \<Rightarrow> nat" where
  "r_lines cs r = (if r_text cs r = [] then 0 else char_count (r_text cs r) (CHR 0x0A) + 1)"

definition body_fingerprint :: "(string \<Rightarrow> string) \<Rightarrow> response \<Rightarrow> string" where
  "body_fingerprint sha256 r =
     (case r_body_digest r of Some d \<Rightarrow> d | None \<Rightarrow> sha256 (r_body r))"

text \<open>What \<open>filter_fingerprint\<close> hashes: the status with the text less the path, or the body's digest.\<close>

definition filter_fingerprint :: "(string \<Rightarrow> string) \<Rightarrow> response \<Rightarrow> int \<times> string" where
  "filter_fingerprint sha256 r =
     (r_status r,
      if r_content r \<noteq> []
      then replace_path (r_content r) (hd (split_char (CHR ''#'') (r_full_path r))) []
      else body_fingerprint sha256 r)"

definition has_same_body :: "(string \<Rightarrow> string) \<Rightarrow> response \<Rightarrow> response \<Rightarrow> bool" where
  "has_same_body sha256 r s \<longleftrightarrow>
     r_id r = r_id s \<or>
     (r_body_complete r \<and> r_body_complete s \<and>
      (if r_body_digest r = None \<and> r_body_digest s = None then r_body r = r_body s
       else body_fingerprint sha256 r = body_fingerprint sha256 s))"

definition response_eq :: "(string \<Rightarrow> string) \<Rightarrow> response \<Rightarrow> response \<Rightarrow> bool" where
  "response_eq sha256 r s \<longleftrightarrow>
     r_status r = r_status s \<and> r_redirect r = r_redirect s \<and> has_same_body sha256 r s"

section \<open>Headers keep every value\<close>

definition headers_ok :: "header_items \<Rightarrow> response_headers \<Rightarrow> bool" where
  "headers_ok items h \<longleftrightarrow>
     (\<forall>n. map_of (rh_values h) n =
        (if n \<in> (\<lambda>nv. lower (fst nv)) ` set items
         then Some (map snd (filter (\<lambda>nv. lower (fst nv) = n) items)) else None)) \<and>
     map fst (rh_names h) = map fst (rh_values h) \<and> distinct (map fst (rh_values h))"

lemma map_of_append_value:
  "map_of (append_value k v d) n =
     (if n = k then Some ((case map_of d k of None \<Rightarrow> [] | Some vs \<Rightarrow> vs) @ [v]) else map_of d n)"
proof -
  have m: "map_of (map (\<lambda>(j, vs). if j = k then (j, vs @ [v]) else (j, vs)) e) n =
      map_option (\<lambda>vs. if n = k then vs @ [v] else vs) (map_of e n)" for e
    by (induction e) auto
  show ?thesis
    by (auto simp: append_value_def m setdefault_def map_add_def split: option.splits)
qed

lemma keys_append_value:
  "map fst (append_value k v d) = (if map_of d k = None then map fst d @ [k] else map fst d)"
  by (auto simp: append_value_def setdefault_def o_def case_prod_beta)

lemma keys_setdefault:
  "map fst (setdefault k v d) = (if map_of d k = None then map fst d @ [k] else map fst d)"
  by (simp add: setdefault_def)

lemma add_header_ok:
  assumes "headers_ok items h"
  shows "headers_ok (items @ [nv]) (add_header nv h)"
proof -
  let ?k = "lower (fst nv)"
  have keys: "map fst (rh_names h) = map fst (rh_values h)" and dist: "distinct (map fst (rh_values h))"
    and vals: "\<And>n. map_of (rh_values h) n =
      (if n \<in> (\<lambda>nv. lower (fst nv)) ` set items
       then Some (map snd (filter (\<lambda>nv. lower (fst nv) = n) items)) else None)"
    using assms by (auto simp: headers_ok_def)
  have none: "map_of (rh_names h) ?k = None \<longleftrightarrow> map_of (rh_values h) ?k = None"
    using keys by (metis list.set_map map_of_eq_None_iff)
  have "filter (\<lambda>nv. lower (fst nv) = ?k) items = []" if "?k \<notin> (\<lambda>nv. lower (fst nv)) ` set items"
    using that by (intro filter_False ballI notI) (metis (mono_tags, lifting) image_eqI)
  then have "map_of (append_value ?k (snd nv) (rh_values h)) n =
    (if n \<in> (\<lambda>nv. lower (fst nv)) ` set (items @ [nv])
     then Some (map snd (filter (\<lambda>nv. lower (fst nv) = n) (items @ [nv]))) else None)" for n
    by (auto simp: map_of_append_value vals)
  moreover have "map fst (setdefault ?k (fst nv) (rh_names h)) = map fst (append_value ?k (snd nv) (rh_values h))"
    by (simp add: keys_setdefault keys_append_value none keys)
  moreover have "distinct (map fst (append_value ?k (snd nv) (rh_values h)))"
    using dist by (auto simp: keys_append_value map_of_eq_None_iff)
  ultimately show ?thesis by (simp add: headers_ok_def add_header_def)
qed

lemma fold_add_header_ok:
  "headers_ok items h \<Longrightarrow> headers_ok (items @ nvs) (fold add_header nvs h)"
proof (induction nvs arbitrary: items h)
  case (Cons nv nvs)
  from Cons.IH [OF add_header_ok [OF Cons.prems, of nv]] show ?case by simp
qed simp

lemma rh_items_fold [simp]: "rh_items (fold add_header nvs h) = rh_items h"
  by (induction nvs arbitrary: h) (auto simp: add_header_def)

lemma new_headers_ok: "headers_ok items (new_headers items) \<and> rh_items (new_headers items) = items"
  using fold_add_header_ok [of "[]" "\<lparr>rh_items = items, rh_names = [], rh_values = []\<rparr>" items]
  by (simp add: new_headers_def headers_ok_def)

lemma get_list_new_headers:
  "get_list (new_headers items) name = map snd (filter (\<lambda>nv. lower (fst nv) = lower name) items)"
proof -
  have "filter (\<lambda>nv. lower (fst nv) = lower name) items = []"
    if "lower name \<notin> (\<lambda>nv. lower (fst nv)) ` set items"
    using that by (intro filter_False ballI notI) (metis (mono_tags, lifting) image_eqI)
  then show ?thesis using new_headers_ok [of items] by (auto simp: get_list_def headers_ok_def)
qed

section \<open>Capture is bounded and exact\<close>

text \<open>The captured data: what the digest saw, or the body.\<close>

definition captured :: "body_capture \<Rightarrow> string" where
  "captured c = (case bc_digest c of Some d \<Rightarrow> d | None \<Rightarrow> bc_body c)"

definition capture_ok :: "string \<Rightarrow> body_capture \<Rightarrow> bool" where
  "capture_ok read c \<longleftrightarrow>
     captured c = take max_response_size read \<and>
     bc_read_length c = length (captured c) \<and>
     (\<exists>t. captured c = bc_body c @ t)"

lemma captured_simps [simp]:
  "captured (c\<lparr>bc_complete := b\<rparr>) = captured c" "captured (c\<lparr>bc_read_length := n\<rparr>) = captured c"
  by (simp_all add: captured_def split: option.split)

lemma capture_store_fields [simp]:
  "bc_headers (capture_store x c) = bc_headers c"
  "bc_read_length (capture_store x c) = bc_read_length c"
  "bc_complete (capture_store x c) = bc_complete c"
  "captured (capture_store x c) = captured c @ x"
  by (cases "bc_digest c"; simp add: capture_store_def captured_def Let_def)+

lemma capture_store_prefix:
  "\<exists>t. captured c = bc_body c @ t \<Longrightarrow> \<exists>t. captured c @ x = bc_body (capture_store x c) @ t"
  by (cases "bc_digest c") (auto simp: capture_store_def captured_def Let_def)

lemma capture_add_eq:
  "capture_add chunk c =
    (let part = take (max_response_size - bc_read_length c) chunk;
         n = bc_read_length c + length part;
         c' = capture_store part (c\<lparr>bc_read_length := n\<rparr>)
     in if length part < length chunk \<or> max_response_size \<le> n
        then (False, c'\<lparr>bc_complete := length part = length chunk \<and>
                        decoded_content_length (bc_headers c) = Some n\<rparr>)
        else (True, c'))"
  by (simp add: capture_add_def Let_def)

lemma take_more: "n = length (take m read) \<Longrightarrow> take m read @ take (m - n) chunk = take m (read @ chunk)"
  by (auto simp: min_def)

lemma capture_add_ok:
  assumes ok: "capture_ok read c"
  shows "capture_ok (read @ chunk) (snd (capture_add chunk c))"
proof -
  let ?part = "take (max_response_size - bc_read_length c) chunk"
  let ?c = "snd (capture_add chunk c)"
  have "captured ?c = captured c @ ?part"
    and len: "bc_read_length ?c = bc_read_length c + length ?part"
    and body: "bc_body ?c = bc_body (capture_store ?part (c\<lparr>bc_read_length := bc_read_length c + length ?part\<rparr>))"
    by (simp_all add: capture_add_eq Let_def)
  moreover have "captured c @ ?part = take max_response_size (read @ chunk)"
    using ok take_more [of "bc_read_length c" max_response_size read chunk] by (simp add: capture_ok_def)
  moreover have "\<exists>t. captured c @ ?part = bc_body ?c @ t"
  proof -
    have "\<exists>t. captured c = bc_body c @ t" using ok unfolding capture_ok_def by blast
    then have "\<exists>t. captured (c\<lparr>bc_read_length := bc_read_length c + length ?part\<rparr>) =
        bc_body (c\<lparr>bc_read_length := bc_read_length c + length ?part\<rparr>) @ t"
      by simp
    from capture_store_prefix [OF this] show ?thesis unfolding body by simp
  qed
  ultimately show ?thesis using ok by (simp add: capture_ok_def)
qed

lemma capture_finish_ok [simp]: "capture_ok read (capture_finish c) = capture_ok read c"
  by (simp add: capture_ok_def capture_finish_def)

lemma capture_add_stops:
  assumes ok: "capture_ok read c" and room: "bc_read_length c < max_response_size"
    and stop: "capture_add chunk c = (False, c')" and comp: "bc_complete c'"
  shows "captured c' = read @ chunk \<and> decoded_content_length (bc_headers c) = Some (length (read @ chunk))"
proof -
  let ?part = "take (max_response_size - bc_read_length c) chunk"
  have part: "length ?part = length chunk"
    and d: "decoded_content_length (bc_headers c) = Some (bc_read_length c + length ?part)"
    and c': "captured c' = captured c @ ?part"
    using stop comp by (auto simp: capture_add_eq Let_def split: if_splits)
  from ok room have read: "captured c = read" and "bc_read_length c = length read"
    by (auto simp: capture_ok_def min_def split: if_splits)
  moreover have "?part = chunk" using part by (metis length_take min.cobounded2 take_all_iff)
  ultimately show ?thesis using d c' by simp
qed

lemma capture_add_more:
  assumes ok: "capture_ok read c" and more: "capture_add chunk c = (True, c')"
  shows "bc_read_length c' < max_response_size"
  using more by (auto simp: capture_add_eq Let_def split: if_splits)

lemma capture_chunks_spec:
  assumes "capture_ok read c" and "bc_read_length c < max_response_size"
  shows "\<exists>n. capture_ok (read @ concat (take n chunks)) (capture_chunks chunks c) \<and>
    (bc_complete c \<or> bc_complete (capture_chunks chunks c) \<longrightarrow> bc_complete c \<or>
       captured (capture_chunks chunks c) = read @ concat (take n chunks) \<and>
       (n = length chunks \<or>
        decoded_content_length (bc_headers c) = Some (length (captured (capture_chunks chunks c)))))"
  using assms
proof (induction chunks arbitrary: read c)
  case Nil
  then have "captured (capture_finish c) = read"
    by (auto simp: capture_ok_def capture_finish_def min_def split: if_splits)
  with Nil show ?case by (intro exI [of _ 0]) simp
next
  case (Cons chunk chunks)
  obtain more c' where a: "capture_add chunk c = (more, c')" by fastforce
  have ok': "capture_ok (read @ chunk) c'" using capture_add_ok [OF Cons.prems(1), of chunk] a by simp
  show ?case
  proof (cases more)
    case False
    with a ok' capture_add_stops [OF Cons.prems, of chunk c'] show ?thesis
      by (intro exI [of _ 1]) auto
  next
    case True
    have comp: "bc_complete c' = bc_complete c" and h: "bc_headers c' = bc_headers c"
      using a True by (auto simp: capture_add_eq Let_def split: if_splits)
    from a True have a': "capture_add chunk c = (True, c')" by simp
    from Cons.IH [OF ok' capture_add_more [OF Cons.prems(1) a']] obtain n where
      "capture_ok ((read @ chunk) @ concat (take n chunks)) (capture_chunks chunks c')"
      "bc_complete c' \<or> bc_complete (capture_chunks chunks c') \<longrightarrow> bc_complete c' \<or>
       captured (capture_chunks chunks c') = (read @ chunk) @ concat (take n chunks) \<and>
       (n = length chunks \<or>
        decoded_content_length (bc_headers c') = Some (length (captured (capture_chunks chunks c'))))"
      by blast
    with a True comp h show ?thesis by (intro exI [of _ "Suc n"]) simp
  qed
qed

lemma new_capture_ok: "capture_ok [] (new_capture h full)"
  by (simp add: capture_ok_def new_capture_def captured_def)

section \<open>Properties\<close>

text \<open>C11: however large a response is, its capture keeps at most the maximum size, the body is a prefix
  of what the server sent, and a capture marked complete holds every byte that was read: all of them,
  or exactly as many as the server declared.\<close>
theorem capture_is_bounded_and_exact:
  "let c = capture_chunks chunks (new_capture h full) in
   length (captured c) \<le> max_response_size \<and>
   take (length (bc_body c)) (concat chunks) = bc_body c \<and>
   (bc_complete c \<longrightarrow> captured c = concat chunks \<or>
    (\<exists>n. captured c = concat (take n chunks) \<and> decoded_content_length h = Some (length (captured c))))"
proof -
  let ?c = "capture_chunks chunks (new_capture h full)"
  have z: "bc_read_length (new_capture h full) < max_response_size" and inc: "\<not> bc_complete (new_capture h full)"
    and hd: "bc_headers (new_capture h full) = h"
    by (simp_all add: new_capture_def max_response_size_def)
  from capture_chunks_spec [OF new_capture_ok z, of chunks] inc hd obtain n where
    ok: "capture_ok (concat (take n chunks)) ?c"
    and comp: "bc_complete ?c \<Longrightarrow> captured ?c = concat (take n chunks) \<and>
       (n = length chunks \<or> decoded_content_length h = Some (length (captured ?c)))"
    by auto
  have cap: "captured ?c = take max_response_size (concat (take n chunks))" using ok by (simp add: capture_ok_def)
  from ok obtain t where "captured ?c = bc_body ?c @ t" unfolding capture_ok_def by blast
  moreover have "concat chunks = concat (take n chunks) @ concat (drop n chunks)"
    by (metis append_take_drop_id concat_append)
  moreover have "concat (take n chunks) = captured ?c @ drop max_response_size (concat (take n chunks))"
    unfolding cap by simp
  ultimately have "\<exists>t. concat chunks = bc_body ?c @ t" by (metis append.assoc)
  then have "take (length (bc_body ?c)) (concat chunks) = bc_body ?c" by auto
  with cap comp show ?thesis by (auto simp: Let_def)
qed

theorem capture_is_bounded_and_exact_witness:
  "bc_complete (capture_chunks [''ab'', ''c''] (new_capture (new_headers []) True)) \<and>
   captured (capture_chunks [''ab'', ''c''] (new_capture (new_headers []) True)) = ''abc''"
proof -
  let ?c = "capture_chunks [''ab'', ''c''] (new_capture (new_headers []) True)"
  have none: "get_header (new_headers []) n = None" for n
    by (simp add: new_headers_def get_header_def header_value_def)
  then have c: "bc_complete ?c"
    by (simp add: capture_add_def capture_store_def capture_finish_def new_capture_def max_response_size_def Let_def)
  have "decoded_content_length (new_headers []) = None"
    by (simp add: decoded_content_length_def none)
  with capture_is_bounded_and_exact [of "[''ab'', ''c'']" "new_headers []" True] c show ?thesis
    by (simp add: Let_def)
qed

lemma new_response_fields:
  "r_id (new_response cs sha256 i u a e f) = i"
  "r_body (new_response cs sha256 i u a e f) = bc_body (capture_of cs a f)"
  "r_body_complete (new_response cs sha256 i u a e f) = bc_complete (capture_of cs a f)"
  "r_body_digest (new_response cs sha256 i u a e f) = map_option sha256 (bc_digest (capture_of cs a f))"
  by (simp_all add: new_response_def base_response_def body_digest_def Let_def)

lemma fingerprint_of_capture:
  "body_fingerprint sha256 (new_response cs sha256 i u a e f) = sha256 (captured (capture_of cs a f))"
  by (simp add: body_fingerprint_def new_response_fields captured_def split: option.split)

text \<open>Two responses that are told to have the same body are one object, or both are complete and
  the data the server sent for them is the same, if the hash does not collide on the two.\<close>
theorem same_body_means_same_data:
  assumes "has_same_body sha256 (new_response cs sha256 i u1 a e1 f1) (new_response cs sha256 j u2 b e2 f2)"
    and "i \<noteq> j"
    and "sha256 (captured (capture_of cs a f1)) = sha256 (captured (capture_of cs b f2)) \<Longrightarrow>
      captured (capture_of cs a f1) = captured (capture_of cs b f2)"
  shows "captured (capture_of cs a f1) = captured (capture_of cs b f2) \<and>
    bc_complete (capture_of cs a f1) \<and> bc_complete (capture_of cs b f2)"
proof -
  have comp: "bc_complete (capture_of cs a f1) \<and> bc_complete (capture_of cs b f2)"
    using assms(1,2) by (simp add: has_same_body_def new_response_fields)
  show ?thesis
  proof (cases "bc_digest (capture_of cs a f1) = None \<and> bc_digest (capture_of cs b f2) = None")
    case True
    then have "bc_body (capture_of cs a f1) = bc_body (capture_of cs b f2)"
      using assms(1,2) by (simp add: has_same_body_def new_response_fields)
    with True comp show ?thesis by (simp add: captured_def)
  next
    case False
    then have "sha256 (captured (capture_of cs a f1)) = sha256 (captured (capture_of cs b f2))"
      using assms(1,2) by (auto simp: has_same_body_def new_response_fields(1,3,4) fingerprint_of_capture)
    with comp assms(3) show ?thesis by blast
  qed
qed

definition demo_codecs :: codecs where
  "demo_codecs = \<lparr>codec_decode = (\<lambda>enc b. if enc = ''utf-8'' then Some b else None), codec_ignore = (\<lambda>b. b)\<rparr>"

definition demo_result :: http_result where
  "demo_result = \<lparr>h_status = 200, h_headers = [], h_history = [], h_url = ''http://e.com/'',
     h_encoding = None, h_chunks = [''ab'', ''c'']\<rparr>"

lemma demo_complete: "bc_complete (capture_of demo_codecs demo_result f)"
  by (simp add: capture_of_def demo_result_def new_capture_def new_headers_def capture_add_eq
      capture_store_def get_header_def header_value_def max_response_size_def capture_finish_def Let_def)

theorem same_body_means_same_data_witness:
  "captured (capture_of demo_codecs demo_result True) = captured (capture_of demo_codecs demo_result True) \<and>
    bc_complete (capture_of demo_codecs demo_result True) \<and> bc_complete (capture_of demo_codecs demo_result True)"
proof -
  have "has_same_body (\<lambda>x. x) (new_response demo_codecs (\<lambda>x. x) 1 ''u'' demo_result 0 True)
      (new_response demo_codecs (\<lambda>x. x) 2 ''u'' demo_result 0 True)"
    by (simp add: has_same_body_def new_response_fields fingerprint_of_capture demo_complete)
  then show ?thesis by (rule same_body_means_same_data) simp_all
qed

text \<open>No header value is lost: a lookup gives all values of a name, whatever its case, in the order
  received, and the pairs as received are kept.\<close>
theorem headers_keep_every_value:
  "get_list (new_headers items) name = map snd (filter (\<lambda>nv. lower (fst nv) = lower name) items) \<and>
   multi_items (new_headers items) = items"
  using get_list_new_headers [of items name] new_headers_ok [of items] by (simp add: multi_items_def)

end
