(* ===== verification/Scanner.thy ===== *)
theory Scanner
  imports Response
begin

text \<open>
  \<open>lib/core/scanner.py\<close>: a wildcard profile, set up by requesting paths that do not exist, and
  the classification of a response against it.  The requester and the random words act on a
  world; \<open>time.sleep\<close> between requests has no effect on the model.  The asynchronous scanner is
  the same sequence of steps with awaits between them.
\<close>

section \<open>State\<close>

record scanner =
  sc_path :: string
  sc_context :: string
  sc_response :: response
  sc_redirect_regex :: "redirect_regex option"
  sc_parser :: content_parser
  sc_sample_count :: nat

text \<open>The scanners set up so far, by category, in the order of their creation.\<close>

type_synonym tested = "(string \<times> scanner list) list"

text \<open>What a scanner is given: the library functions and the effects.\<close>

record 'w scan_env =
  e_sha256 :: "string \<Rightarrow> string"
  e_codecs :: codecs
  e_differ :: differ
  e_request :: "string \<Rightarrow> ('w, response) io"
  e_word :: "string set \<Rightarrow> ('w, string) io"
  e_auto_calibrate :: bool

datatype decision = Unique string | Wildcard string

section \<open>Classification\<close>

definition ambiguous_similarity_threshold :: rat where "ambiguous_similarity_threshold = 9 / 10"
definition ambiguous_similarity_max_content_length :: nat where
  "ambiguous_similarity_max_content_length = 262144"
definition auto_calibration_extra_samples :: nat where "auto_calibration_extra_samples = 2"

definition get_duplicate :: "(string \<Rightarrow> string) \<Rightarrow> tested \<Rightarrow> response \<Rightarrow> scanner option" where
  "get_duplicate sha256 tested response =
     find (\<lambda>tester. response_eq sha256 response (sc_response tester)) (concat (map snd tested))"

definition is_wildcard :: "'w scan_env \<Rightarrow> scanner \<Rightarrow> response \<Rightarrow> bool" where
  "is_wildcard env s response =
     (if r_content (sc_response s) = [] \<and> r_content response = []
      then has_same_body (e_sha256 env) (sc_response s) response
      else compare_to (sc_parser s) (r_content response) (r_normalized_content (e_codecs env) response))"

definition is_probable_wildcard :: "'w scan_env \<Rightarrow> scanner \<Rightarrow> string \<Rightarrow> response \<Rightarrow> bool" where
  "is_probable_wildcard env s path response =
     (let base = sc_response s; normalized = r_normalized_content (e_codecs env) response;
          base_length = max (r_length base) 1;
          normalized_path = strip_char (CHR ''/'') (clean_path path False False)
      in if r_content base = [] \<or> r_content response = [] then False
         else if r_type base \<noteq> r_type response then False
         else if r_redirect base \<noteq> [] \<and> r_redirect response = [] then False
         else if 20 \<le> length (cp_patterns (sc_parser s)) then False
         else if ambiguous_similarity_max_content_length < length (r_content base) \<or>
                 ambiguous_similarity_max_content_length < length (r_content response) then False
         else if similarity_to (sc_parser s) normalized < ambiguous_similarity_threshold then False
         else if 35 / 100 < (of_int \<bar>r_length base - r_length response\<bar> / of_int base_length :: rat) then False
         else if normalized_path \<noteq> [] \<and> contains normalized normalized_path then True
         else is_ambiguous (sc_parser s))"

definition redirect_differs :: "scanner \<Rightarrow> string \<Rightarrow> response \<Rightarrow> bool" where
  "redirect_differs s path response =
     (case sc_redirect_regex s of
        None \<Rightarrow> False
      | Some regex \<Rightarrow>
          r_redirect response \<noteq> [] \<and>
          \<not> matches_redirect regex
              (replace_path (clean_path (r_redirect response) False False)
                 (clean_path path False False) reflected_path_marker))"

definition classify :: "'w scan_env \<Rightarrow> scanner \<Rightarrow> string \<Rightarrow> response \<Rightarrow> decision" where
  "classify env s path response =
     (if r_status (sc_response s) \<noteq> r_status response
      then Unique ''status differs from wildcard profile''
      else if redirect_differs s path response
      then Unique ''redirect differs from wildcard profile''
      else if is_wildcard env s response
      then Wildcard ''matches wildcard profile''
      else if is_probable_wildcard env s path response
      then Wildcard ''matches ambiguous wildcard profile''
      else Unique ''response is unique enough'')"

definition is_wildcard_decision :: "decision \<Rightarrow> bool" where
  "is_wildcard_decision d = (case d of Wildcard _ \<Rightarrow> True | Unique _ \<Rightarrow> False)"

text \<open>\<open>check\<close>: whether the response is worth reporting.\<close>

definition check :: "'w scan_env \<Rightarrow> scanner \<Rightarrow> string \<Rightarrow> response \<Rightarrow> bool" where
  "check env s path response \<longleftrightarrow> \<not> is_wildcard_decision (classify env s path response)"

section \<open>Setting a profile up\<close>

definition generate_redirect_regex :: "string \<Rightarrow> string \<Rightarrow> string \<Rightarrow> string \<Rightarrow> redirect_regex" where
  "generate_redirect_regex first_loc first_path second_loc second_path =
     generate_matching_regex
       (if first_path \<noteq> [] then replace_all first_loc (CHR ''/'' # first_path) reflected_path_marker
        else first_loc)
       (if second_path \<noteq> [] then replace_all second_loc (CHR ''/'' # second_path) reflected_path_marker
        else second_loc)"

definition test_path :: "string \<Rightarrow> string \<Rightarrow> string" where
  "test_path path word = replace_all path wildcard_test_point_marker word"

definition should_auto_calibrate :: "'w scan_env \<Rightarrow> scanner \<Rightarrow> bool" where
  "should_auto_calibrate env s \<longleftrightarrow> e_auto_calibrate env \<or> is_ambiguous (sc_parser s)"

definition add_calibration_sample :: "'w scan_env \<Rightarrow> response \<Rightarrow> scanner \<Rightarrow> scanner" where
  "add_calibration_sample env response s =
     (let s = s\<lparr>sc_sample_count := sc_sample_count s + 1\<rparr> in
      if r_content response \<noteq> []
      then s\<lparr>sc_parser := add_sample (e_differ env) (r_content response) (sc_parser s)\<rparr> else s)"

fun calibrate :: "'w scan_env \<Rightarrow> nat \<Rightarrow> string set \<Rightarrow> scanner \<Rightarrow> ('w, scanner) io" where
  "calibrate env 0 omitted s = ret s"
| "calibrate env (Suc n) omitted s =
     io_bind (e_word env omitted) (\<lambda>word.
       let sample_path = test_path (sc_path s) word in
       io_bind (e_request env sample_path) (\<lambda>sample_response.
         calibrate env n (insert sample_path omitted) (add_calibration_sample env sample_response s)))"

definition auto_calibrate :: "'w scan_env \<Rightarrow> string set \<Rightarrow> scanner \<Rightarrow> ('w, scanner) io" where
  "auto_calibrate env tested_paths s =
     (if \<not> should_auto_calibrate env s then ret s
      else calibrate env auto_calibration_extra_samples tested_paths s)"

definition redirect_regex_for :: "response \<Rightarrow> string \<Rightarrow> response \<Rightarrow> string \<Rightarrow> redirect_regex option" where
  "redirect_regex_for first first_path second second_path =
     (if r_redirect first \<noteq> [] \<and> r_redirect second \<noteq> []
      then Some (generate_redirect_regex (clean_path (r_redirect first) False False) first_path
                  (clean_path (r_redirect second) False False) second_path)
      else None)"

definition first_profile :: "scanner \<Rightarrow> string \<Rightarrow> string \<Rightarrow> response \<Rightarrow> scanner" where
  "first_profile duplicate path ctx first_response =
     \<lparr>sc_path = path, sc_context = ctx, sc_response = first_response,
      sc_redirect_regex = sc_redirect_regex duplicate, sc_parser = sc_parser duplicate,
      sc_sample_count = 1\<rparr>"

definition two_sample_profile ::
  "differ \<Rightarrow> string \<Rightarrow> string \<Rightarrow> response \<Rightarrow> string \<Rightarrow> response \<Rightarrow> string \<Rightarrow> scanner" where
  "two_sample_profile differ path ctx first_response first_path second_response second_path =
     \<lparr>sc_path = path, sc_context = ctx, sc_response = first_response,
      sc_redirect_regex = redirect_regex_for first_response first_path second_response second_path,
      sc_parser = new_parser differ (r_content first_response) (r_content second_response),
      sc_sample_count = 2\<rparr>"

definition scanner_setup :: "'w scan_env \<Rightarrow> tested \<Rightarrow> string \<Rightarrow> string \<Rightarrow> ('w, scanner) io" where
  "scanner_setup env tested path ctx =
     io_bind (e_word env {}) (\<lambda>word1.
     let first_path = test_path path word1 in
     io_bind (e_request env first_path) (\<lambda>first_response.
     case get_duplicate (e_sha256 env) tested first_response of
       Some duplicate \<Rightarrow> ret (first_profile duplicate path ctx first_response)
     | None \<Rightarrow>
         io_bind (e_word env {first_path}) (\<lambda>word2.
         let second_path = test_path path word2 in
         io_bind (e_request env second_path) (\<lambda>second_response.
         auto_calibrate env {first_path, second_path}
           (two_sample_profile (e_differ env) path ctx first_response first_path
              second_response second_path)))))"

text \<open>\<open>AsyncScanner.setup\<close>: each await is a request or a sleep of the synchronous one.\<close>

definition async_setup :: "'w scan_env \<Rightarrow> tested \<Rightarrow> string \<Rightarrow> string \<Rightarrow> ('w, scanner) io" where
  "async_setup env tested path ctx = scanner_setup env tested path ctx"

section \<open>What calibration keeps\<close>

definition profile_ok :: "scanner \<Rightarrow> bool" where
  "profile_ok s \<longleftrightarrow> parser_ok (sc_parser s) \<and> cp_base (sc_parser s) = r_content (sc_response s)"

lemma add_calibration_sample_keeps:
  "differ_ok (e_differ env) \<Longrightarrow> profile_ok s \<Longrightarrow>
     profile_ok (add_calibration_sample env r s) \<and>
     sc_response (add_calibration_sample env r s) = sc_response s \<and>
     sc_sample_count (add_calibration_sample env r s) = sc_sample_count s + 1"
  by (simp add: add_calibration_sample_def profile_ok_def add_sample_ok Let_def)

lemma calibrate_keeps:
  assumes "differ_ok (e_differ env)"
  shows "profile_ok s \<Longrightarrow> calibrate env n omitted s w = (Inr s', w') \<Longrightarrow>
    profile_ok s' \<and> sc_response s' = sc_response s"
proof (induction n arbitrary: omitted s w)
  case (Suc n)
  then obtain p r v where
    "calibrate env n p (add_calibration_sample env r s) v = (Inr s', w')"
    by (auto simp: io_bind_eq_Inr Let_def)
  with Suc.IH Suc.prems(1) add_calibration_sample_keeps [OF assms] show ?case by metis
qed simp

lemma auto_calibrate_keeps:
  "differ_ok (e_differ env) \<Longrightarrow> profile_ok s \<Longrightarrow> auto_calibrate env ps s w = (Inr s', w') \<Longrightarrow>
     profile_ok s' \<and> sc_response s' = sc_response s"
  using calibrate_keeps [of env s auto_calibration_extra_samples ps w s' w']
  by (auto simp: auto_calibrate_def split: if_splits)

text \<open>A setup that succeeds: one request and a duplicate, or two requests and the calibration.\<close>

lemma setup_steps:
  assumes "scanner_setup env tested path ctx w = (Inr s, w')"
  obtains word1 w1 first where "e_word env {} w = (Inr word1, w1)"
    and "e_request env (test_path path word1) w1 = (Inr first, w')"
    and "\<exists>d. get_duplicate (e_sha256 env) tested first = Some d \<and> s = first_profile d path ctx first"
  | word1 w1 first w2 word2 w3 second w4 where "e_word env {} w = (Inr word1, w1)"
    and "e_request env (test_path path word1) w1 = (Inr first, w2)"
    and "get_duplicate (e_sha256 env) tested first = None"
    and "e_word env {test_path path word1} w2 = (Inr word2, w3)"
    and "e_request env (test_path path word2) w3 = (Inr second, w4)"
    and "auto_calibrate env {test_path path word1, test_path path word2}
      (two_sample_profile (e_differ env) path ctx first (test_path path word1) second (test_path path word2)) w4 =
      (Inr s, w')"
  using assms
  by (fastforce simp: scanner_setup_def io_bind_eq_Inr Let_def split: option.splits)

lemma setup_profile:
  assumes d: "differ_ok (e_differ env)" and r: "scanner_setup env tested path ctx w = (Inr s, w')"
    and nd: "get_duplicate (e_sha256 env) tested (sc_response s) = None"
  shows "profile_ok s"
  using r
proof (cases rule: setup_steps)
  case (1 word1 w1 first)
  with nd show ?thesis by (auto simp: first_profile_def)
next
  case (2 word1 w1 first w2 word2 w3 second w4)
  have "profile_ok (two_sample_profile (e_differ env) path ctx first (test_path path word1) second (test_path path word2))"
    using new_parser_ok [OF d] by (simp add: profile_ok_def two_sample_profile_def new_parser_def)
  from auto_calibrate_keeps [OF d this 2(6)] show ?thesis by simp
qed

lemma profile_recognises:
  assumes "profile_ok s" and "r_redirect (sc_response s) = []"
  shows "is_wildcard_decision (classify env s p (sc_response s))"
proof -
  have "is_wildcard env s (sc_response s)"
    using assms(1) compare_to_base [of "sc_parser s"]
    by (auto simp: is_wildcard_def has_same_body_def profile_ok_def r_normalized_content_def r_text_def)
  moreover have "\<not> redirect_differs s p (sc_response s)"
    using assms(2) by (simp add: redirect_differs_def split: option.split)
  ultimately show ?thesis by (simp add: classify_def is_wildcard_decision_def)
qed

section \<open>Requests made\<close>

definition traces :: "'w scan_env \<Rightarrow> ('w \<Rightarrow> string list) \<Rightarrow> bool" where
  "traces env trace \<longleftrightarrow>
     (\<forall>p w. trace (snd (e_request env p w)) = trace w @ [p]) \<and>
     (\<forall>om w. trace (snd (e_word env om w)) = trace w)"

lemma traces_request: "traces env trace \<Longrightarrow> e_request env p w = (r, w') \<Longrightarrow> trace w' = trace w @ [p]"
  by (metis snd_conv traces_def)

lemma traces_word: "traces env trace \<Longrightarrow> e_word env om w = (r, w') \<Longrightarrow> trace w' = trace w"
  by (metis snd_conv traces_def)

lemma calibrate_counts:
  assumes t: "traces env trace"
  shows "calibrate env n om s w = (Inr s', w') \<Longrightarrow>
    length (trace w') = length (trace w) + n \<and> sc_sample_count s' = sc_sample_count s + n"
proof (induction n arbitrary: om s w)
  case (Suc n)
  then obtain word w1 r w2 where
    1: "e_word env om w = (Inr word, w1)" "e_request env (test_path (sc_path s) word) w1 = (Inr r, w2)"
    and 2: "calibrate env n (insert (test_path (sc_path s) word) om) (add_calibration_sample env r s) w2 = (Inr s', w')"
    by (auto simp: io_bind_eq_Inr Let_def)
  have "sc_sample_count (add_calibration_sample env r s) = sc_sample_count s + 1"
    by (simp add: add_calibration_sample_def Let_def)
  with Suc.IH [OF 2] traces_request [OF t 1(2)] traces_word [OF t 1(1)] show ?case by simp
qed simp

lemma auto_calibrate_counts:
  assumes t: "traces env trace" and r: "auto_calibrate env ps s w = (Inr s', w')"
  shows "length (trace w') + sc_sample_count s = length (trace w) + sc_sample_count s' \<and>
    sc_sample_count s \<le> sc_sample_count s' \<and> sc_sample_count s' \<le> sc_sample_count s + 2"
  using r calibrate_counts [OF t, of 2 ps s w s' w']
  by (auto simp: auto_calibrate_def auto_calibration_extra_samples_def split: if_splits)

lemma setup_counts:
  assumes t: "traces env trace" and r: "scanner_setup env tested path ctx w = (Inr s, w')"
  shows "length (trace w') = length (trace w) + sc_sample_count s \<and> 1 \<le> sc_sample_count s \<and>
    sc_sample_count s \<le> 4"
  using r
proof (cases rule: setup_steps)
  case (1 word1 w1 first)
  with traces_word [OF t] traces_request [OF t] show ?thesis by (auto simp: first_profile_def)
next
  case (2 word1 w1 first w2 word2 w3 second w4)
  have "length (trace w4) = length (trace w) + 2"
    using traces_word [OF t 2(1)] traces_request [OF t 2(2)] traces_word [OF t 2(4)] traces_request [OF t 2(5)]
    by simp
  with auto_calibrate_counts [OF t 2(6)] show ?thesis by (simp add: two_sample_profile_def)
qed

section \<open>Properties\<close>

text \<open>A profile set up from requests recognises the response it was built from: for any path, the
  first wildcard response that is no redirect is classified as wildcard again.\<close>
theorem profile_recognises_its_response:
  assumes "differ_ok (e_differ env)" and "scanner_setup env tested path ctx w = (Inr s, w')"
    and "get_duplicate (e_sha256 env) tested (sc_response s) = None" and "r_redirect (sc_response s) = []"
  shows "is_wildcard_decision (classify env s p (sc_response s))"
  using profile_recognises [OF setup_profile [OF assms(1-3)] assms(4)] .

text \<open>A world that is the list of the requested paths, with one answer for all of them.\<close>

definition demo_env :: "string list scan_env" where
  "demo_env =
     \<lparr>e_sha256 = (\<lambda>x. x), e_codecs = demo_codecs, e_differ = plain_differ,
      e_request = (\<lambda>p w. (Inr (base_response 7 ''http://e.com/x'' 404 [] 0 [] None), w @ [p])),
      e_word = (\<lambda>_ w. (Inr ''word'', w)), e_auto_calibrate = True\<rparr>"

lemma demo_setup:
  "\<exists>s. scanner_setup demo_env [] ''a'' ''all cases'' [] = (Inr s, replicate 4 ''a'') \<and>
     sc_response s = base_response 7 ''http://e.com/x'' 404 [] 0 [] None"
  by (simp add: scanner_setup_def demo_env_def get_duplicate_def io_bind_def ret_def auto_calibrate_def
      should_auto_calibrate_def auto_calibration_extra_samples_def numeral_2_eq_2 add_calibration_sample_def
      base_response_def Let_def two_sample_profile_def test_path_def wildcard_test_point_marker_def
      replace_all.simps starts_with_def numeral_eq_Suc)

theorem profile_recognises_its_response_witness:
  "\<exists>s. is_wildcard_decision (classify demo_env s ''b'' (sc_response s))"
proof -
  obtain s where s: "scanner_setup demo_env [] ''a'' ''all cases'' [] = (Inr s, replicate 4 ''a'')"
    and "sc_response s = base_response 7 ''http://e.com/x'' 404 [] 0 [] None"
    using demo_setup by blast
  then have "r_redirect (sc_response s) = []"
    by (simp add: base_response_def new_headers_def get_header_def header_value_def or_empty_def Let_def)
  then have "is_wildcard_decision (classify demo_env s ''b'' (sc_response s))"
    by (intro profile_recognises_its_response [OF _ s])
       (simp_all add: demo_env_def plain_differ_ok get_duplicate_def)
  then show ?thesis by blast
qed

text \<open>A response is only dropped as wildcard on evidence: the status of the profile, a redirect the
  profile's pattern matches if both have one, and either the content parser's match or, for text of
  the same type, a similarity of at least 90 percent with lengths that differ by at most 35 percent.\<close>
theorem wildcard_needs_evidence:
  assumes "is_wildcard_decision (classify env s path response)"
  shows "r_status response = r_status (sc_response s) \<and> \<not> redirect_differs s path response \<and>
    (is_wildcard env s response \<or>
     r_content response \<noteq> [] \<and> r_type response = r_type (sc_response s) \<and>
     9 / 10 \<le> similarity_to (sc_parser s) (r_normalized_content (e_codecs env) response) \<and>
     \<bar>r_length (sc_response s) - r_length response\<bar> * 100 \<le> 35 * max (r_length (sc_response s)) 1)"
proof -
  have len: "\<not> 35 / 100 < (of_int \<bar>a - b\<bar> / of_int (max a 1) :: rat) \<Longrightarrow> \<bar>a - b\<bar> * 100 \<le> 35 * max a 1" for a b :: int
  proof -
    assume "\<not> 35 / 100 < (of_int \<bar>a - b\<bar> / of_int (max a 1) :: rat)"
    then have "(of_int \<bar>a - b\<bar> :: rat) \<le> 35 / 100 * of_int (max a 1)"
      by (simp add: not_less pos_divide_le_eq)
    then have "(of_int (\<bar>a - b\<bar> * 100) :: rat) \<le> of_int (35 * max a 1)" by simp
    then show "\<bar>a - b\<bar> * 100 \<le> 35 * max a 1" by (simp only: of_int_le_iff)
  qed
  from assms have "r_status response = r_status (sc_response s)" "\<not> redirect_differs s path response"
    and "is_wildcard env s response \<or> is_probable_wildcard env s path response"
    by (auto simp: classify_def is_wildcard_decision_def split: if_splits)
  moreover have "is_probable_wildcard env s path response \<Longrightarrow>
      r_content response \<noteq> [] \<and> r_type response = r_type (sc_response s) \<and>
      9 / 10 \<le> similarity_to (sc_parser s) (r_normalized_content (e_codecs env) response) \<and>
      \<bar>r_length (sc_response s) - r_length response\<bar> * 100 \<le> 35 * max (r_length (sc_response s)) 1"
    using len [of "r_length (sc_response s)" "r_length response"]
    by (auto simp: is_probable_wildcard_def Let_def ambiguous_similarity_threshold_def split: if_splits)
  ultimately show ?thesis by blast
qed

theorem wildcard_needs_evidence_witness:
  "\<exists>s. r_status (sc_response s) = r_status (sc_response s) \<and> \<not> redirect_differs s ''b'' (sc_response s) \<and>
    (is_wildcard demo_env s (sc_response s) \<or>
     r_content (sc_response s) \<noteq> [] \<and> r_type (sc_response s) = r_type (sc_response s) \<and>
     9 / 10 \<le> similarity_to (sc_parser s) (r_normalized_content (e_codecs demo_env) (sc_response s)) \<and>
     \<bar>r_length (sc_response s) - r_length (sc_response s)\<bar> * 100 \<le> 35 * max (r_length (sc_response s)) 1)"
proof -
  let ?r = "base_response 7 ''http://e.com/x'' 404 [] 0 [] None"
  let ?s = "two_sample_profile plain_differ ''a'' ''all cases'' ?r ''a'' ?r ''a''"
  have "r_redirect ?r = []"
    by (simp add: base_response_def new_headers_def get_header_def header_value_def or_empty_def Let_def)
  moreover have "profile_ok ?s"
    using new_parser_ok [OF plain_differ_ok] by (simp add: profile_ok_def two_sample_profile_def new_parser_def)
  ultimately have "is_wildcard_decision (classify demo_env ?s ''b'' (sc_response ?s))"
    by (intro profile_recognises) (simp_all add: two_sample_profile_def)
  from wildcard_needs_evidence [OF this] show ?thesis by blast
qed

text \<open>Setting a profile up makes between one and four requests, exactly as many as it records.\<close>
theorem setup_request_budget:
  assumes "traces env trace" and "scanner_setup env tested path ctx w = (Inr s, w')"
  shows "length (trace w') = length (trace w) + sc_sample_count s \<and> sc_sample_count s \<in> {1..4}"
  using setup_counts [OF assms] by simp

theorem setup_request_budget_witness:
  "\<exists>s :: scanner. length (replicate 4 ''a'') = length ([] :: string list) + sc_sample_count s \<and> sc_sample_count s \<in> {1..4}"
proof -
  obtain s where "scanner_setup demo_env [] ''a'' ''all cases'' [] = (Inr s, replicate 4 ''a'')"
    using demo_setup by blast
  moreover have "traces demo_env (\<lambda>w. w)" by (simp add: traces_def demo_env_def)
  ultimately have "length (replicate 4 ''a'') = length ([] :: string list) + sc_sample_count s \<and> sc_sample_count s \<in> {1..4}"
    using setup_request_budget [of demo_env "\<lambda>w. w" "[]" "''a''" "''all cases''" "[]" s "replicate 4 ''a''"]
    by simp
  then show ?thesis by blast
qed

end
