(* ===== verification/Dictionary.thy ===== *)
theory Dictionary
  imports Prelude
begin

text \<open>
  The work queue of the scanner, class \<open>Dictionary\<close> of \<open>lib/core/dictionary.py\<close>: the wordlist
  with a cursor, the paths discovered during the scan with their own cursor, the claims workers
  hold, and the claim on a range of a native corpus.  Every operation runs under one lock, so an
  operation is one step.  An operation returns its value or exception and the new state, which
  is the old one when the code raises.  A native corpus is the list of its paths with a flag;
  a chunk carries an identity, since the code compares chunks with \<open>is\<close>.  The generation of the
  list is the theory \<open>Wordlist\<close>.
\<close>

section \<open>The contract of a recoverable work queue\<close>

text \<open>
  What the workers rely on: taking moves a prefix of the pending work to the outstanding work,
  finishing removes what was outstanding, and requeueing puts the outstanding work in front.
\<close>

locale work_queue =
  fixes pending :: "'s \<Rightarrow> 'a list"
    and outstanding :: "'s \<Rightarrow> 'a list"
    and claim :: "nat \<Rightarrow> 's \<Rightarrow> 'a list \<times> 's"
    and finish :: "'a list \<Rightarrow> 's \<Rightarrow> unit result \<times> 's"
    and requeue :: "'s \<Rightarrow> 's"
    and invar :: "'s \<Rightarrow> bool"
  assumes claim_pending: "invar q \<Longrightarrow> claim n q = (xs, q') \<Longrightarrow>
        xs = take n (pending q) \<and> pending q' = drop n (pending q)"
    and claim_outstanding: "invar q \<Longrightarrow> claim n q = (xs, q') \<Longrightarrow> outstanding q' = outstanding q @ xs"
    and finish_ok: "invar q \<Longrightarrow> mset xs \<subseteq># mset (outstanding q) \<Longrightarrow>
        \<exists>q'. finish xs q = (Inr (), q') \<and> pending q' = pending q \<and>
             mset (outstanding q) = mset xs + mset (outstanding q')"
    and finish_err: "invar q \<Longrightarrow> \<not> mset xs \<subseteq># mset (outstanding q) \<Longrightarrow>
        \<exists>e. finish xs q = (Inl e, q)"
    and requeue_pending: "invar q \<Longrightarrow> pending (requeue q) = outstanding q @ pending q"
    and requeue_outstanding: "invar q \<Longrightarrow> outstanding (requeue q) = []"
    and invar_claim: "invar q \<Longrightarrow> invar (snd (claim n q))"
    and invar_finish: "invar q \<Longrightarrow> invar (snd (finish xs q))"
    and invar_requeue: "invar q \<Longrightarrow> invar (requeue q)"
begin

lemma claim_total:
  "invar q \<Longrightarrow> claim n q = (xs, q') \<Longrightarrow>
     mset (outstanding q') + mset (pending q') = mset (outstanding q) + mset (pending q)"
  using claim_pending claim_outstanding by (metis append_take_drop_id mset_append union_assoc)

lemma finish_total:
  "invar q \<Longrightarrow> finish xs q = (Inr (), q') \<Longrightarrow>
     mset xs + mset (outstanding q') + mset (pending q') = mset (outstanding q) + mset (pending q)"
  using finish_ok finish_err by (metis Inl_Inr_False prod.inject)

lemma finish_error_keeps: "invar q \<Longrightarrow> finish xs q = (Inl e, q') \<Longrightarrow> q' = q"
  using finish_ok finish_err by (metis Inl_Inr_False prod.inject)

lemma requeue_total:
  "invar q \<Longrightarrow>
     mset (outstanding (requeue q)) + mset (pending (requeue q)) =
     mset (outstanding q) + mset (pending q)"
  by (simp add: requeue_pending requeue_outstanding)

text \<open>A worker that claims, and finishes what it claimed: what is left after \<open>k\<close> rounds.\<close>

fun rounds :: "nat \<Rightarrow> nat \<Rightarrow> 's \<Rightarrow> 's" where
  "rounds n 0 q = q"
| "rounds n (Suc k) q = (let (xs, q') = claim n q in rounds n k (snd (finish xs q')))"

lemma round_step:
  assumes "invar q" and "claim n q = (xs, q')"
  shows "pending (snd (finish xs q')) = drop n (pending q)"
    and "mset (outstanding (snd (finish xs q'))) = mset (outstanding q)"
    and "invar (snd (finish xs q'))"
proof -
  have inv: "invar q'" using assms invar_claim by (metis snd_conv)
  have out: "outstanding q' = outstanding q @ xs" using assms by (rule claim_outstanding)
  then have "mset xs \<subseteq># mset (outstanding q')" by simp
  then obtain r where r: "finish xs q' = (Inr (), r)" "pending r = pending q'"
    "mset (outstanding q') = mset xs + mset (outstanding r)"
    using finish_ok [OF inv] by blast
  show "pending (snd (finish xs q')) = drop n (pending q)"
    using r claim_pending [OF assms] by simp
  show "mset (outstanding (snd (finish xs q'))) = mset (outstanding q)"
    using r out by simp
  show "invar (snd (finish xs q'))" using inv by (rule invar_finish)
qed

lemma rounds_pending: "invar q \<Longrightarrow> pending (rounds n k q) = drop (k * n) (pending q)"
proof (induction k arbitrary: q)
  case (Suc k)
  obtain xs q' where c: "claim n q = (xs, q')" by fastforce
  with Suc round_step [OF Suc.prems c] show ?case by (simp add: add.commute)
qed simp

lemma rounds_drain: "invar q \<Longrightarrow> 0 < n \<Longrightarrow> length (pending q) \<le> k \<Longrightarrow> pending (rounds n k q) = []"
  using rounds_pending [of q n k] by (cases n) auto

end

section \<open>State\<close>

record native_chunk =
  chunk_id :: nat
  chunk_paths :: "string list"
  chunk_base :: string

record native_claim =
  claim_chunk :: native_chunk
  claim_start :: nat
  claim_released :: nat

record dictionary =
  d_items :: "string list"
  d_native :: bool
  d_index :: nat
  d_item_membership :: "string set option"
  d_extra :: "string list"
  d_extra_index :: nat
  d_extra_membership :: "string set"
  d_claimed :: "string list"
  d_native_claim :: "native_claim option"
  d_next_chunk :: nat

definition dict_init :: "string list \<Rightarrow> bool \<Rightarrow> dictionary" where
  "dict_init items native =
     \<lparr>d_items = items, d_native = native, d_index = 0, d_item_membership = None,
      d_extra = [], d_extra_index = 0, d_extra_membership = {}, d_claimed = [],
      d_native_claim = None, d_next_chunk = 0\<rparr>"

section \<open>Operations\<close>

text \<open>\<open>__next__\<close>.\<close>

definition dict_next :: "dictionary \<Rightarrow> string result \<times> dictionary" where
  "dict_next d =
     (if d_extra_index d < length (d_extra d)
      then (Inr (d_extra d ! d_extra_index d), d\<lparr>d_extra_index := d_extra_index d + 1\<rparr>)
      else if d_index d < length (d_items d)
      then (Inr (d_items d ! d_index d), d\<lparr>d_index := d_index d + 1\<rparr>)
      else (Inl StopIteration, d))"

definition claim_next :: "dictionary \<Rightarrow> string result \<times> dictionary" where
  "claim_next d =
     (if d_extra_index d < length (d_extra d)
      then (let path = d_extra d ! d_extra_index d in
            (Inr path, d\<lparr>d_claimed := d_claimed d @ [path], d_extra_index := d_extra_index d + 1\<rparr>))
      else if d_index d < length (d_items d)
      then (let path = d_items d ! d_index d in
            (Inr path, d\<lparr>d_claimed := d_claimed d @ [path], d_index := d_index d + 1\<rparr>))
      else (Inl StopIteration, d))"

text \<open>The two halves \<open>claim_many\<close> and \<open>claim_native_many\<close> share: up to a number of extras, up to
  a number of items.\<close>

definition take_extras :: "nat \<Rightarrow> dictionary \<Rightarrow> string list \<times> dictionary" where
  "take_extras maximum d =
     (let extra_count = min maximum (length (d_extra d) - d_extra_index d) in
      if extra_count \<noteq> 0
      then (let extra_end = d_extra_index d + extra_count in
            (slice (d_extra_index d) extra_end (d_extra d), d\<lparr>d_extra_index := extra_end\<rparr>))
      else ([], d))"

definition take_items :: "nat \<Rightarrow> dictionary \<Rightarrow> string list \<times> dictionary" where
  "take_items maximum d =
     (let item_count = min maximum (length (d_items d) - d_index d) in
      if item_count \<noteq> 0
      then (let item_end = d_index d + item_count in
            (slice (d_index d) item_end (d_items d), d\<lparr>d_index := item_end\<rparr>))
      else ([], d))"

definition claim_lists :: "nat \<Rightarrow> dictionary \<Rightarrow> string list \<times> dictionary" where
  "claim_lists maximum d =
     (let (paths, d) = take_extras maximum d;
          (items, d) = take_items (maximum - length paths) d;
          paths = (if paths \<noteq> [] then paths @ items else items)
      in (paths, d\<lparr>d_claimed := d_claimed d @ paths\<rparr>))"

definition claim_many :: "nat \<Rightarrow> dictionary \<Rightarrow> string list \<times> dictionary" where
  "claim_many maximum d = (if maximum = 0 then ([], d) else claim_lists maximum d)"

definition claim_native_many ::
  "nat \<Rightarrow> string \<Rightarrow> dictionary \<Rightarrow> (string list + native_chunk) result \<times> dictionary" where
  "claim_native_many maximum base_path d =
     (if maximum = 0 then (Inr (Inl []), d)
      else if d_native_claim d \<noteq> None
      then (Inl (RuntimeError ''native dictionary claim is still active''), d)
      else if \<not> d_native d
      then (let (paths, d) = claim_lists maximum d in (Inr (Inl paths), d))
      else
        (let (paths, d) = take_extras maximum d in
         if paths \<noteq> []
         then (Inr (Inl paths), d\<lparr>d_claimed := d_claimed d @ paths\<rparr>)
         else
           (let item_count = min maximum (length (d_items d) - d_index d) in
            if item_count = 0 then (Inr (Inl []), d)
            else
              (let start = d_index d;
                   chunk = \<lparr>chunk_id = d_next_chunk d,
                            chunk_paths = slice start (start + item_count) (d_items d),
                            chunk_base = base_path\<rparr>
               in (Inr (Inr chunk),
                   d\<lparr>d_index := start + item_count, d_next_chunk := d_next_chunk d + 1,
                     d_native_claim := Some \<lparr>claim_chunk = chunk, claim_start = start,
                                             claim_released = 0\<rparr>\<rparr>)))))"

definition release_native_claims :: "native_chunk \<Rightarrow> nat \<Rightarrow> dictionary \<Rightarrow> unit result \<times> dictionary" where
  "release_native_claims chunk n d =
     (if n = 0 then (Inr (), d)
      else (case d_native_claim d of
              None \<Rightarrow> (Inl (ValueError ''native wordlist chunk is not claimed''), d)
            | Some claim \<Rightarrow>
                if chunk_id (claim_chunk claim) \<noteq> chunk_id chunk
                then (Inl (ValueError ''native wordlist chunk is not claimed''), d)
                else if claim_released claim + n > length (chunk_paths chunk)
                then (Inl (ValueError ''native wordlist release exceeds claimed chunk''), d)
                else (let claim = claim\<lparr>claim_released := claim_released claim + n\<rparr> in
                      if claim_released claim = length (chunk_paths chunk)
                      then (Inr (), d\<lparr>d_native_claim := None\<rparr>)
                      else (Inr (), d\<lparr>d_native_claim := Some claim\<rparr>))))"

definition release_claim :: "string \<Rightarrow> dictionary \<Rightarrow> unit result \<times> dictionary" where
  "release_claim path d =
     (case list_remove path (d_claimed d) of
        Inl e \<Rightarrow> (Inl e, d)
      | Inr claimed \<Rightarrow> (Inr (), d\<lparr>d_claimed := claimed\<rparr>))"

text \<open>The loop over the claims with the \<open>Counter\<close> of the paths still to release.\<close>

fun release_scan :: "(string \<Rightarrow> nat) \<Rightarrow> string list \<Rightarrow> (string \<Rightarrow> nat) \<times> string list" where
  "release_scan pend [] = (pend, [])"
| "release_scan pend (path # rest) =
     (if pend path \<noteq> 0 then release_scan (pend(path := pend path - 1)) rest
      else (let (pend', claimed) = release_scan pend rest in (pend', path # claimed)))"

definition release_claims :: "string list \<Rightarrow> dictionary \<Rightarrow> unit result \<times> dictionary" where
  "release_claims paths d =
     (if paths = [] then (Inr (), d)
      else
        (let cnt = length paths in
         if cnt = length (d_claimed d) \<and> d_claimed d = paths
         then (Inr (), d\<lparr>d_claimed := []\<rparr>)
         else if take cnt (d_claimed d) = paths
         then (Inr (), d\<lparr>d_claimed := drop cnt (d_claimed d)\<rparr>)
         else
           (let (pend, claimed) = release_scan (count_list paths) (d_claimed d) in
            if list_ex (\<lambda>p. pend p \<noteq> 0) paths
            then (Inl (ValueError ''list.remove(x): x not in list''), d)
            else (Inr (), d\<lparr>d_claimed := claimed\<rparr>))))"

definition requeue_claims :: "dictionary \<Rightarrow> dictionary" where
  "requeue_claims d =
     (if d_claimed d = [] \<and> d_native_claim d = None then d
      else
        (let d = (if d_claimed d \<noteq> []
                  then d\<lparr>d_extra := take (d_extra_index d) (d_extra d) @ d_claimed d @
                                    drop (d_extra_index d) (d_extra d),
                         d_claimed := []\<rparr>
                  else d)
         in (case d_native_claim d of
               None \<Rightarrow> d
             | Some claim \<Rightarrow>
                 d\<lparr>d_index := claim_start claim + claim_released claim, d_native_claim := None\<rparr>)))"

definition dict_contains :: "string \<Rightarrow> dictionary \<Rightarrow> bool" where
  "dict_contains item d \<longleftrightarrow> item \<in> set (d_items d)"

definition dict_len :: "dictionary \<Rightarrow> nat" where
  "dict_len d = length (d_items d)"

text \<open>What \<open>__getstate__\<close> hands to a saved session, and \<open>__setstate__\<close> on a fresh object.\<close>

type_synonym dict_state = "string list \<times> nat \<times> string list \<times> nat"

definition dict_getstate :: "dictionary \<Rightarrow> dict_state" where
  "dict_getstate d =
     (let extra = take (d_extra_index d) (d_extra d) @ d_claimed d @ drop (d_extra_index d) (d_extra d);
          index = (case d_native_claim d of
                     None \<Rightarrow> d_index d
                   | Some claim \<Rightarrow> claim_start claim + claim_released claim)
      in (d_items d, index, extra, d_extra_index d))"

definition dict_setstate :: "dict_state \<Rightarrow> nat \<Rightarrow> dictionary" where
  "dict_setstate state next_chunk =
     (case state of (items, index, extra, extra_index) \<Rightarrow>
        \<lparr>d_items = items, d_native = False, d_index = index, d_item_membership = None,
         d_extra = extra, d_extra_index = extra_index, d_extra_membership = set extra,
         d_claimed = [], d_native_claim = None, d_next_chunk = next_chunk\<rparr>)"

definition add_extra :: "(string \<Rightarrow> bool) \<Rightarrow> string \<Rightarrow> dictionary \<Rightarrow> dictionary" where
  "add_extra is_valid path d =
     (if \<not> is_valid path then d
      else
        (let d = (if d_item_membership d = None \<and> \<not> d_native d
                  then d\<lparr>d_item_membership := Some (set (d_items d))\<rparr> else d);
             in_items = (if d_native d then path \<in> set (d_items d)
                         else path \<in> (case d_item_membership d of None \<Rightarrow> {} | Some m \<Rightarrow> m))
         in if in_items \<or> path \<in> d_extra_membership d then d
            else d\<lparr>d_extra := d_extra d @ [path],
                   d_extra_membership := insert path (d_extra_membership d)\<rparr>))"

definition dict_reset :: "dictionary \<Rightarrow> dictionary" where
  "dict_reset d =
     d\<lparr>d_index := 0, d_extra_index := 0, d_extra := [], d_extra_membership := {},
       d_claimed := [], d_native_claim := None\<rparr>"

section \<open>Invariant and views\<close>

text \<open>The paths still to hand out, and the paths handed out and not finished.\<close>

definition dict_pending :: "dictionary \<Rightarrow> string list" where
  "dict_pending d = drop (d_extra_index d) (d_extra d) @ drop (d_index d) (d_items d)"

definition native_outstanding :: "dictionary \<Rightarrow> string list" where
  "native_outstanding d =
     (case d_native_claim d of
        None \<Rightarrow> []
      | Some c \<Rightarrow> drop (claim_released c) (chunk_paths (claim_chunk c)))"

definition dict_outstanding :: "dictionary \<Rightarrow> string list" where
  "dict_outstanding d = d_claimed d @ native_outstanding d"

definition native_claim_ok :: "dictionary \<Rightarrow> bool" where
  "native_claim_ok d \<longleftrightarrow>
     (case d_native_claim d of
        None \<Rightarrow> True
      | Some c \<Rightarrow>
          d_native d \<and>
          chunk_paths (claim_chunk c) = slice (claim_start c) (d_index d) (d_items d) \<and>
          claim_start c \<le> d_index d \<and>
          claim_released c < length (chunk_paths (claim_chunk c)) \<and>
          chunk_id (claim_chunk c) < d_next_chunk d)"

definition dict_wf :: "dictionary \<Rightarrow> bool" where
  "dict_wf d \<longleftrightarrow>
     d_index d \<le> length (d_items d) \<and> d_extra_index d \<le> length (d_extra d) \<and>
     (d_item_membership d = None \<or> d_item_membership d = Some (set (d_items d))) \<and>
     set (d_extra d) \<subseteq> set (d_items d) \<union> d_extra_membership d \<and>
     set (d_claimed d) \<subseteq> set (d_items d) \<union> d_extra_membership d \<and>
     native_claim_ok d"

lemma dict_wf_init [simp]: "dict_wf (dict_init items native)"
  by (simp add: dict_wf_def dict_init_def native_claim_ok_def)

lemma native_claim_ok_simps [simp]:
  "native_claim_ok (d\<lparr>d_native_claim := None\<rparr>)"
  "native_claim_ok (d\<lparr>d_claimed := x\<rparr>) = native_claim_ok d"
  "native_claim_ok (d\<lparr>d_extra := e\<rparr>) = native_claim_ok d"
  "native_claim_ok (d\<lparr>d_extra_index := i\<rparr>) = native_claim_ok d"
  "native_claim_ok (d\<lparr>d_item_membership := m\<rparr>) = native_claim_ok d"
  "native_claim_ok (d\<lparr>d_extra_membership := em\<rparr>) = native_claim_ok d"
  by (simp_all add: native_claim_ok_def split: option.splits)

lemma native_claim_ok_None: "d_native_claim d = None \<Longrightarrow> native_claim_ok d"
  by (simp add: native_claim_ok_def)

section \<open>Claiming\<close>

text \<open>Both counts clipped to what is there: the result is the pending list cut at the maximum.\<close>

lemma slice_count: "slice i (i + min n (length xs - i)) xs = take n (drop i xs)"
  by (simp add: slice_def min_def)

lemma take_extras_eq:
  "take_extras n d =
     (take n (drop (d_extra_index d) (d_extra d)),
      d\<lparr>d_extra_index := d_extra_index d + min n (length (d_extra d) - d_extra_index d)\<rparr>)"
  by (auto simp: take_extras_def Let_def slice_count)

lemma take_items_eq:
  "take_items n d =
     (take n (drop (d_index d) (d_items d)),
      d\<lparr>d_index := d_index d + min n (length (d_items d) - d_index d)\<rparr>)"
  by (auto simp: take_items_def Let_def slice_count)

lemma claim_lists_eq:
  "claim_lists n d =
    (take n (dict_pending d),
     d\<lparr>d_extra_index := d_extra_index d + min n (length (d_extra d) - d_extra_index d),
       d_index := d_index d + min (n - (length (d_extra d) - d_extra_index d)) (length (d_items d) - d_index d),
       d_claimed := d_claimed d @ take n (dict_pending d)\<rparr>)"
proof -
  have "n - min (length (d_extra d) - d_extra_index d) n = n - (length (d_extra d) - d_extra_index d)"
    by simp
  then show ?thesis
    by (simp add: claim_lists_def take_extras_eq take_items_eq dict_pending_def Let_def)
qed

lemma drop_pending:
  assumes "dict_wf d"
  shows "drop (d_extra_index d + min n (length (d_extra d) - d_extra_index d)) (d_extra d) @
         drop (d_index d + min (n - (length (d_extra d) - d_extra_index d)) (length (d_items d) - d_index d)) (d_items d) =
         drop n (dict_pending d)"
proof -
  have "drop (i + min m (length xs - i)) xs = drop m (drop i xs)" for i m and xs :: "string list"
    by (simp add: min_def add.commute)
  then show ?thesis by (simp only: dict_pending_def drop_append length_drop)
qed

lemma set_pending: "dict_wf d \<Longrightarrow> set (dict_pending d) \<subseteq> set (d_items d) \<union> d_extra_membership d"
  unfolding dict_wf_def dict_pending_def
  by (auto dest: in_set_dropD)

lemma claim_lists_wf [inv_intros]:
  assumes wf: "dict_wf d" and nc: "d_native_claim d = None"
  shows "dict_wf (snd (claim_lists n d))"
proof -
  have "set (take n (dict_pending d)) \<subseteq> set (d_items d) \<union> d_extra_membership d"
    using set_pending [OF wf] by (meson order_trans set_take_subset)
  with wf nc show ?thesis
    unfolding claim_lists_eq by (auto simp: dict_wf_def native_claim_ok_def split: option.splits)
qed

lemma claim_many_eq:
  "dict_wf d \<Longrightarrow> claim_many n d = (take n (dict_pending d), snd (claim_many n d))"
  by (simp add: claim_many_def claim_lists_eq)

lemma claim_many_pending:
  "dict_wf d \<Longrightarrow> dict_pending (snd (claim_many n d)) = drop n (dict_pending d)"
  using drop_pending [of d n] by (auto simp: claim_many_def claim_lists_eq dict_pending_def)

lemma claim_many_outstanding:
  "dict_wf d \<Longrightarrow> d_native_claim d = None \<Longrightarrow>
     dict_outstanding (snd (claim_many n d)) = dict_outstanding d @ take n (dict_pending d)"
  by (auto simp: claim_many_def claim_lists_eq dict_outstanding_def native_outstanding_def)

lemma claim_many_native [simp]: "d_native_claim (snd (claim_many n d)) = d_native_claim d"
  by (simp add: claim_many_def claim_lists_eq)

lemma claim_many_wf [inv_intros]:
  "dict_wf d \<Longrightarrow> d_native_claim d = None \<Longrightarrow> dict_wf (snd (claim_many n d))"
  by (auto simp: claim_many_def intro: claim_lists_wf)

text \<open>One claim is the first path of the pending list.\<close>

lemma claim_next_eq:
  assumes wf: "dict_wf d"
  shows "claim_next d =
    (if dict_pending d = [] then (Inl StopIteration, d)
     else (Inr (hd (dict_pending d)), snd (claim_many 1 d)))"
proof (cases "d_extra_index d < length (d_extra d)")
  case True
  then show ?thesis
    using wf by (simp add: claim_next_def claim_many_def claim_lists_eq dict_pending_def hd_drop_conv_nth Let_def take_Suc)
next
  case False
  with wf have e: "d_extra_index d = length (d_extra d)" by (simp add: dict_wf_def)
  show ?thesis
    using wf e
    by (auto simp: claim_next_def claim_many_def claim_lists_eq dict_pending_def hd_drop_conv_nth take_Suc Let_def
        not_less)
qed

section \<open>Releasing\<close>

lemma release_scan_fst: "fst (release_scan f xs) x = f x - count_list xs x"
proof (induction f xs rule: release_scan.induct)
  case (2 f p rest)
  show ?case
  proof (cases "f p = 0")
    case True
    with "2.IH"(2) show ?thesis by (auto simp: case_prod_beta simp del: fun_upd_apply)
  next
    case False
    with "2.IH"(1) show ?thesis by (simp del: fun_upd_apply) (auto)
  qed
qed simp

text \<open>One more copy of a path that is claimed removes its first occurrence.\<close>

lemma release_scan_Suc:
  "p \<in> set xs \<Longrightarrow> release_scan (f(p := Suc (f p))) xs = release_scan f (remove1 p xs)"
proof (induction xs arbitrary: f)
  case (Cons c xs)
  show ?case
  proof (cases "c = p")
    case False
    let ?g = "f(c := f c - 1)"
    have upd: "(f(p := Suc (f p)))(c := f c - 1) = ?g(p := Suc (?g p))"
      using False by (auto simp: fun_eq_iff)
    have "release_scan (?g(p := Suc (?g p))) xs = release_scan ?g (remove1 p xs)"
      using False Cons.prems by (intro Cons.IH) simp
    moreover have "release_scan (f(p := Suc (f p))) xs = release_scan f (remove1 p xs)"
      using False Cons.prems by (intro Cons.IH) simp
    moreover have "(f(p := Suc (f p))) c = f c" using False by simp
    ultimately show ?thesis
      using False by (simp only: release_scan.simps upd remove1.simps if_False not_sym [OF False])
  next
    case True
    have "(f(p := Suc (f p)))(p := f p) = f" by auto
    with True show ?thesis by (simp del: fun_upd_apply) (simp add: fun_upd_idem)
  qed
qed simp

fun release_each :: "string list \<Rightarrow> string list \<Rightarrow> string list result" where
  "release_each [] claimed = Inr claimed"
| "release_each (p # ps) claimed = rbind (list_remove p claimed) (release_each ps)"

lemma release_each_eq:
  "release_each ps claimed =
     (if mset ps \<subseteq># mset claimed then Inr (foldl (\<lambda>c p. remove1 p c) claimed ps)
      else Inl (ValueError ''list.remove(x): x not in list''))"
proof (induction ps arbitrary: claimed)
  case (Cons p ps)
  show ?case
  proof (cases "p \<in> set claimed")
    case True
    then have "mset (p # ps) \<subseteq># mset claimed \<longleftrightarrow> mset ps \<subseteq># mset (remove1 p claimed)"
      by (simp add: insert_subset_eq_iff)
    with True Cons show ?thesis by (simp add: list_remove_def)
  next
    case False
    then have "\<not> mset (p # ps) \<subseteq># mset claimed" by (metis insert_subset_eq_iff mset.simps(2) set_mset_mset)
    with False show ?thesis by (simp add: list_remove_def)
  qed
qed simp

lemma release_scan_snd:
  "mset ps \<subseteq># mset claimed \<Longrightarrow>
     snd (release_scan (count_list ps) claimed) = foldl (\<lambda>c p. remove1 p c) claimed ps"
proof (induction ps arbitrary: claimed)
  case Nil
  have "snd (release_scan (\<lambda>_. 0) claimed) = claimed"
    by (induction claimed) (auto simp: Let_def split: prod.splits)
  then show ?case by (simp add: fun_eq_iff [symmetric])
next
  case (Cons p ps)
  then have p: "p \<in> set claimed" and ps: "mset ps \<subseteq># mset (remove1 p claimed)"
    by (simp_all add: insert_subset_eq_iff)
  have "count_list (p # ps) = (count_list ps)(p := Suc (count_list ps p))" by (auto simp: fun_eq_iff)
  then have "release_scan (count_list (p # ps)) claimed = release_scan (count_list ps) (remove1 p claimed)"
    using p by (simp only: release_scan_Suc)
  with Cons.IH [OF ps] show ?case by (simp only: foldl_Cons)
qed

lemma count_list_mset: "count_list xs x = count (mset xs) x"
  by (induction xs) auto

lemma release_scan_pending:
  "list_ex (\<lambda>p. fst (release_scan (count_list ps) claimed) p \<noteq> 0) ps \<longleftrightarrow> \<not> mset ps \<subseteq># mset claimed"
  by (auto simp: release_scan_fst list_ex_iff count_list_mset subseteq_mset_def not_le
      intro: count_greater_zero_iff [THEN iffD1] dest: le_less_trans)
     (metis count_eq_zero_iff le0 not_less set_mset_mset)

lemma foldl_remove1_prefix: "foldl (\<lambda>c p. remove1 p c) (ps @ rest) ps = rest"
  by (induction ps) auto

text \<open>All three branches of \<open>release_claims\<close> do what releasing one path after the other does.\<close>

lemma release_claims_eq:
  "release_claims paths d =
     (case release_each paths (d_claimed d) of
        Inl e \<Rightarrow> (Inl e, d)
      | Inr claimed \<Rightarrow> (Inr (), d\<lparr>d_claimed := claimed\<rparr>))"
proof (cases "take (length paths) (d_claimed d) = paths")
  case True
  obtain rest where c: "d_claimed d = paths @ rest" by (metis True append_take_drop_id)
  have "release_each paths (paths @ rest) = Inr rest"
    by (simp add: release_each_eq foldl_remove1_prefix)
  with c show ?thesis by (auto simp: release_claims_def Let_def)
next
  case False
  then have "\<not> (length paths = length (d_claimed d) \<and> d_claimed d = paths)" and "paths \<noteq> []" by auto
  with False show ?thesis
    using release_scan_pending [of paths "d_claimed d"] release_scan_snd [of paths "d_claimed d"]
    by (auto simp: release_claims_def release_each_eq Let_def case_prod_beta)
qed

lemma mset_foldl_remove1: "mset (foldl (\<lambda>c p. remove1 p c) claimed ps) = mset claimed - mset ps"
  by (induction ps arbitrary: claimed) auto

lemma release_claims_ok:
  assumes "mset ps \<subseteq># mset (d_claimed d)"
  shows "\<exists>claimed. release_claims ps d = (Inr (), d\<lparr>d_claimed := claimed\<rparr>) \<and>
    mset (d_claimed d) = mset ps + mset claimed"
  using assms
  by (intro exI [of _ "foldl (\<lambda>c p. remove1 p c) (d_claimed d) ps"])
     (simp add: release_claims_eq release_each_eq mset_foldl_remove1)

lemma release_claims_err:
  "\<not> mset ps \<subseteq># mset (d_claimed d) \<Longrightarrow> \<exists>e. release_claims ps d = (Inl e, d)"
  by (simp add: release_claims_eq release_each_eq)

lemma release_claim_eq: "release_claim p d = release_claims [p] d"
  by (auto simp: release_claim_def release_claims_eq split: sum.splits)

lemma release_claims_wf [inv_intros]:
  assumes wf: "dict_wf d"
  shows "dict_wf (snd (release_claims ps d))"
proof (cases "mset ps \<subseteq># mset (d_claimed d)")
  case True
  then obtain claimed where r: "release_claims ps d = (Inr (), d\<lparr>d_claimed := claimed\<rparr>)"
    and m: "mset (d_claimed d) = mset ps + mset claimed"
    using release_claims_ok by blast
  from m have "set claimed \<subseteq> set (d_claimed d)" by (metis mset_subset_eq_add_right set_mset_mono set_mset_mset)
  with wf r show ?thesis by (auto simp: dict_wf_def split: option.splits)
next
  case False
  then obtain e where "release_claims ps d = (Inl e, d)" using release_claims_err by blast
  with wf show ?thesis by simp
qed

section \<open>Requeueing\<close>

lemma native_rewind:
  assumes "native_claim_ok d" and "d_native_claim d = Some c" and "d_index d \<le> length (d_items d)"
  shows "drop (claim_start c + claim_released c) (d_items d) =
         drop (claim_released c) (chunk_paths (claim_chunk c)) @ drop (d_index d) (d_items d)"
    and "claim_start c + claim_released c \<le> length (d_items d)"
proof -
  from assms have ch: "chunk_paths (claim_chunk c) = slice (claim_start c) (d_index d) (d_items d)"
    and st: "claim_start c \<le> d_index d" and rel: "claim_released c < length (chunk_paths (claim_chunk c))"
    by (auto simp: native_claim_ok_def)
  from ch st assms(3) have len: "length (chunk_paths (claim_chunk c)) = d_index d - claim_start c"
    by (simp add: length_slice)
  with rel st assms(3) show "claim_start c + claim_released c \<le> length (d_items d)" by linarith
  have "drop (claim_start c) (d_items d) = chunk_paths (claim_chunk c) @ drop (d_index d) (d_items d)"
    using ch st by (simp add: slice_append_drop)
  then have "drop (claim_released c) (drop (claim_start c) (d_items d)) =
    drop (claim_released c) (chunk_paths (claim_chunk c)) @ drop (d_index d) (d_items d)"
    using rel by simp
  then show "drop (claim_start c + claim_released c) (d_items d) =
    drop (claim_released c) (chunk_paths (claim_chunk c)) @ drop (d_index d) (d_items d)"
    by (simp add: add.commute)
qed

lemma requeue_pending_eq:
  assumes wf: "dict_wf d"
  shows "dict_pending (requeue_claims d) =
    d_claimed d @ drop (d_extra_index d) (d_extra d) @ native_outstanding d @ drop (d_index d) (d_items d)"
proof -
  have ei: "d_extra_index d \<le> length (d_extra d)" using wf by (simp add: dict_wf_def)
  have ex: "drop (d_extra_index d) (take (d_extra_index d) (d_extra d) @ d_claimed d @ drop (d_extra_index d) (d_extra d)) =
    d_claimed d @ drop (d_extra_index d) (d_extra d)"
    using ei by simp
  show ?thesis
  proof (cases "d_native_claim d")
    case None
    then show ?thesis
      using ex by (simp add: requeue_claims_def dict_pending_def native_outstanding_def Let_def)
  next
    case (Some c)
    have "drop (claim_start c + claim_released c) (d_items d) =
        native_outstanding d @ drop (d_index d) (d_items d)"
      using native_rewind(1) [OF _ Some] wf Some by (simp add: dict_wf_def native_outstanding_def)
    with Some show ?thesis
      using ex by (simp add: requeue_claims_def dict_pending_def Let_def)
  qed
qed

lemma requeue_outstanding_eq: "dict_outstanding (requeue_claims d) = []"
  by (auto simp: requeue_claims_def dict_outstanding_def native_outstanding_def Let_def
      split: option.splits)

lemma requeue_native [simp]: "d_native_claim (requeue_claims d) = None"
  by (auto simp: requeue_claims_def Let_def split: option.splits)

lemma requeue_wf [inv_intros]:
  assumes wf: "dict_wf d"
  shows "dict_wf (requeue_claims d)"
proof -
  have sets: "set (take (d_extra_index d) (d_extra d)) \<subseteq> set (d_extra d)"
    "set (drop (d_extra_index d) (d_extra d)) \<subseteq> set (d_extra d)"
    by (auto dest: in_set_takeD in_set_dropD)
  have idx: "d_native_claim d = Some c \<Longrightarrow> claim_start c + claim_released c \<le> length (d_items d)" for c
    using native_rewind(2) [of d c] wf by (simp add: dict_wf_def)
  show ?thesis
    using wf sets idx
    by (cases "d_native_claim d")
       (auto simp: requeue_claims_def Let_def dict_wf_def native_claim_ok_None split: option.splits)
qed

section \<open>The dictionary meets the contract\<close>

definition dict_ready :: "dictionary \<Rightarrow> bool" where
  "dict_ready d \<longleftrightarrow> dict_wf d \<and> d_native_claim d = None"

lemma release_claims_ready: "dict_ready d \<Longrightarrow> dict_ready (snd (release_claims xs d))"
  using release_claims_wf [of d xs]
  by (auto simp: dict_ready_def release_claims_eq split: sum.splits)

lemma dict_finish_ok:
  assumes "dict_ready d" and "mset xs \<subseteq># mset (dict_outstanding d)"
  shows "\<exists>d'. release_claims xs d = (Inr (), d') \<and> dict_pending d' = dict_pending d \<and>
    mset (dict_outstanding d) = mset xs + mset (dict_outstanding d')"
proof -
  from assms have "mset xs \<subseteq># mset (d_claimed d)" and n: "native_outstanding d = []"
    by (simp_all add: dict_ready_def dict_outstanding_def native_outstanding_def)
  then obtain claimed where "release_claims xs d = (Inr (), d\<lparr>d_claimed := claimed\<rparr>)"
    and "mset (d_claimed d) = mset xs + mset claimed"
    using release_claims_ok by blast
  then show ?thesis
    using assms n by (simp add: dict_ready_def dict_outstanding_def dict_pending_def native_outstanding_def)
qed

interpretation dq: work_queue dict_pending dict_outstanding claim_many release_claims requeue_claims dict_ready
proof (unfold_locales, goal_cases)
  case (1 q n xs q')
  then show ?case using claim_many_eq [of q n] claim_many_pending [of q n] by (auto simp: dict_ready_def)
next
  case (2 q n xs q')
  then show ?case using claim_many_eq [of q n] claim_many_outstanding [of q n] by (auto simp: dict_ready_def)
next
  case (3 q xs)
  then show ?case by (rule dict_finish_ok)
next
  case (4 q xs)
  then show ?case
    using release_claims_err [of xs q]
    by (simp add: dict_ready_def dict_outstanding_def native_outstanding_def)
next
  case (5 q)
  then show ?case
    using requeue_pending_eq [of q]
    by (simp add: dict_ready_def dict_outstanding_def native_outstanding_def dict_pending_def)
qed (auto simp: dict_ready_def requeue_outstanding_eq intro: claim_many_wf requeue_wf
    release_claims_ready [unfolded dict_ready_def, THEN conjunct1]
    release_claims_ready [unfolded dict_ready_def, THEN conjunct2])

section \<open>Native ranges\<close>

text \<open>With no native claim active, a native claim takes a prefix of the pending paths as well; the
  claim it leaves is well-formed.\<close>

definition claimed_paths :: "string list + native_chunk \<Rightarrow> string list" where
  "claimed_paths r = (case r of Inl paths \<Rightarrow> paths | Inr chunk \<Rightarrow> chunk_paths chunk)"

lemma claim_native_list:
  "n \<noteq> 0 \<Longrightarrow> d_native_claim d = None \<Longrightarrow> \<not> d_native d \<Longrightarrow>
     claim_native_many n b d = (Inr (Inl (fst (claim_many n d))), snd (claim_many n d))"
  by (simp add: claim_native_many_def claim_many_def case_prod_beta)

lemma claim_native_extras:
  assumes "n \<noteq> 0" and "d_native_claim d = None" and "d_native d" and "d_extra_index d < length (d_extra d)"
  shows "claim_native_many n b d =
    (Inr (Inl (take n (drop (d_extra_index d) (d_extra d)))),
     d\<lparr>d_extra_index := d_extra_index d + min n (length (d_extra d) - d_extra_index d),
       d_claimed := d_claimed d @ take n (drop (d_extra_index d) (d_extra d))\<rparr>)"
  using assms by (simp add: claim_native_many_def take_extras_eq)

lemma claim_native_chunk:
  assumes "n \<noteq> 0" and "d_native_claim d = None" and "d_native d" and "length (d_extra d) \<le> d_extra_index d"
  shows "claim_native_many n b d =
    (let k = min n (length (d_items d) - d_index d);
         chunk = \<lparr>chunk_id = d_next_chunk d,
                  chunk_paths = take n (drop (d_index d) (d_items d)), chunk_base = b\<rparr>
     in if k = 0 then (Inr (Inl []), d)
        else (Inr (Inr chunk),
              d\<lparr>d_index := d_index d + k, d_next_chunk := d_next_chunk d + 1,
                d_native_claim := Some \<lparr>claim_chunk = chunk, claim_start = d_index d,
                                        claim_released = 0\<rparr>\<rparr>))"
proof -
  have "take_extras n d = ([], d)" using assms by (simp add: take_extras_eq)
  with assms show ?thesis by (auto simp: claim_native_many_def Let_def slice_count)
qed

lemma drop_split: "drop e xs = take n (drop e xs) @ drop (n + e) xs"
  by (metis append_take_drop_id drop_drop)

lemma claim_native_effect:
  assumes wf: "dict_wf d" and r: "claim_native_many n b d = (Inr r, d')"
  shows "dict_wf d' \<and> d_items d' = d_items d \<and> d_extra d' = d_extra d \<and>
    mset (dict_outstanding d') = mset (dict_outstanding d) + mset (claimed_paths r) \<and>
    dict_pending d = claimed_paths r @ dict_pending d'"
proof (cases "n = 0")
  case True
  with r wf show ?thesis by (auto simp: claim_native_many_def claimed_paths_def)
next
  case False
  with r have nc: "d_native_claim d = None" by (auto simp: claim_native_many_def split: if_splits)
  consider (list) "\<not> d_native d" | (extras) "d_native d" "d_extra_index d < length (d_extra d)"
    | (chunk) "d_native d" "length (d_extra d) \<le> d_extra_index d" by linarith
  then show ?thesis
  proof cases
    case list
    then have r': "r = Inl (fst (claim_many n d))" and d': "d' = snd (claim_many n d)"
      using r claim_native_list [OF False nc, of b] by auto
    have cp: "claimed_paths r = take n (dict_pending d)"
      using r' wf by (simp add: claimed_paths_def claim_many_def claim_lists_eq)
    show ?thesis
      using claim_many_wf [OF wf nc, of n] claim_many_pending [OF wf, of n]
        claim_many_outstanding [OF wf nc, of n] cp d'
      by (simp add: claim_many_def claim_lists_eq)
  next
    case extras
    let ?xs = "take n (drop (d_extra_index d) (d_extra d))"
    have d': "d' = d\<lparr>d_extra_index := d_extra_index d + min n (length (d_extra d) - d_extra_index d),
        d_claimed := d_claimed d @ ?xs\<rparr>" and cp: "claimed_paths r = ?xs"
      using r claim_native_extras [OF False nc extras, of b] by (auto simp: claimed_paths_def)
    have "set ?xs \<subseteq> set (d_extra d)"
      by (meson set_drop_subset set_take_subset subset_trans)
    then have "dict_wf d'"
      using wf nc unfolding d'
      by (auto simp: dict_wf_def native_claim_ok_None)
    moreover have "drop (d_extra_index d + min n (length (d_extra d) - d_extra_index d)) (d_extra d) =
      drop n (drop (d_extra_index d) (d_extra d))"
      by (simp add: min_def add.commute)
    then have "dict_pending d = claimed_paths r @ dict_pending d'"
      using drop_split [of "d_extra_index d" "d_extra d" n] unfolding d' cp by (simp add: dict_pending_def)
    ultimately show ?thesis
      using nc cp unfolding d' by (simp add: dict_outstanding_def native_outstanding_def)
  next
    case chunk
    note eq = claim_native_chunk [OF False nc chunk, of b]
    have pend: "drop (d_index d + min n (length (d_items d) - d_index d)) (d_items d) =
      drop n (drop (d_index d) (d_items d))"
      by (simp add: min_def add.commute)
    have sl: "slice (d_index d) (d_index d + min n (length (d_items d) - d_index d)) (d_items d) =
      take n (drop (d_index d) (d_items d))" by (rule slice_count)
    show ?thesis
    proof (cases "min n (length (d_items d) - d_index d) = 0")
      case True
      show ?thesis using r [unfolded eq Let_def if_P [OF True]] wf by (auto simp: claimed_paths_def)
    next
      case False
      then have d': "d' = d\<lparr>d_index := d_index d + min n (length (d_items d) - d_index d),
          d_next_chunk := d_next_chunk d + 1,
          d_native_claim := Some \<lparr>claim_chunk = \<lparr>chunk_id = d_next_chunk d,
              chunk_paths = take n (drop (d_index d) (d_items d)), chunk_base = b\<rparr>,
            claim_start = d_index d, claim_released = 0\<rparr>\<rparr>"
        and r': "claimed_paths r = take n (drop (d_index d) (d_items d))"
        using r [unfolded eq Let_def if_not_P [OF False]] by (auto simp: claimed_paths_def)
      have "native_claim_ok d'"
        using chunk False by (auto simp: d' native_claim_ok_def sl)
      moreover have "d_index d + min n (length (d_items d) - d_index d) \<le> length (d_items d)"
        using wf unfolding dict_wf_def by linarith
      ultimately have "dict_wf d'" using wf unfolding dict_wf_def by (simp add: d')
      moreover have "dict_pending d = claimed_paths r @ dict_pending d'"
        using chunk drop_split [of "d_index d" "d_items d" n] unfolding d' r'
        by (simp add: dict_pending_def pend)
      ultimately show ?thesis
        using nc r' unfolding d' by (simp add: dict_outstanding_def native_outstanding_def)
    qed
  qed
qed

text \<open>Releasing an ordered prefix of a native claim finishes exactly that prefix.\<close>

lemma release_native_effect:
  assumes wf: "dict_wf d" and c: "d_native_claim d = Some c"
    and r: "release_native_claims (claim_chunk c) n d = (Inr (), d')"
  shows "dict_wf d' \<and> d_items d' = d_items d \<and> d_extra d' = d_extra d \<and>
    dict_pending d' = dict_pending d \<and>
    native_outstanding d = take n (native_outstanding d) @ native_outstanding d' \<and>
    d_claimed d' = d_claimed d \<and> n \<le> length (native_outstanding d)"
proof (cases "n = 0")
  case True
  with r wf show ?thesis by (auto simp: release_native_claims_def)
next
  case False
  have ok: "native_claim_ok d" using wf by (simp add: dict_wf_def)
  from False c r have le: "claim_released c + n \<le> length (chunk_paths (claim_chunk c))"
    by (auto simp: release_native_claims_def Let_def split: if_splits)
  have dd: "drop (claim_released c) xs = take n (drop (claim_released c) xs) @ drop (claim_released c + n) xs" for xs :: "string list"
    by (metis add.commute append_take_drop_id drop_drop)
  show ?thesis
  proof (cases "claim_released c + n = length (chunk_paths (claim_chunk c))")
    case True
    then have "d' = d\<lparr>d_native_claim := None\<rparr>"
      using False c r by (auto simp: release_native_claims_def Let_def split: if_splits)
    with True c wf show ?thesis
      by (auto simp: dict_wf_def native_outstanding_def dict_pending_def split: option.splits)
  next
    case neq: False
    then have d': "d' = d\<lparr>d_native_claim := Some (c\<lparr>claim_released := claim_released c + n\<rparr>)\<rparr>"
      using False c r by (auto simp: release_native_claims_def Let_def split: if_splits)
    have "native_claim_ok d'" using ok c le neq unfolding d' by (auto simp: native_claim_ok_def)
    then show ?thesis
      using c wf le dd [of "chunk_paths (claim_chunk c)"] unfolding d'
      by (auto simp: dict_wf_def native_outstanding_def dict_pending_def split: option.splits)
  qed
qed

section \<open>Discovered paths, saved state\<close>

lemma add_extra_eq:
  assumes wf: "dict_wf d"
  shows "d_extra (add_extra v p d) =
      (if v p \<and> p \<notin> set (d_items d) \<and> p \<notin> d_extra_membership d then d_extra d @ [p] else d_extra d)"
    and "d_items (add_extra v p d) = d_items d" "d_index (add_extra v p d) = d_index d"
    "d_extra_index (add_extra v p d) = d_extra_index d" "d_claimed (add_extra v p d) = d_claimed d"
    "d_native_claim (add_extra v p d) = d_native_claim d"
  using wf by (auto simp: add_extra_def dict_wf_def Let_def split: option.splits)

lemma add_extra_wf [inv_intros]:
  assumes wf: "dict_wf d"
  shows "dict_wf (add_extra v p d)"
proof -
  have n: "native_claim_ok (add_extra v p d)"
    using wf by (auto simp: add_extra_def dict_wf_def Let_def)
  show ?thesis
    using wf n by (auto simp: add_extra_def dict_wf_def Let_def split: option.splits)
qed

lemma add_extra_outstanding: "dict_wf d \<Longrightarrow> dict_outstanding (add_extra v p d) = dict_outstanding d"
  by (simp add: dict_outstanding_def native_outstanding_def add_extra_eq)

lemma add_extra_pending:
  assumes wf: "dict_wf d"
  shows "mset (dict_pending (add_extra v p d)) =
    mset (dict_pending d) + mset (drop (length (d_extra d)) (d_extra (add_extra v p d)))"
  using wf by (auto simp: dict_pending_def add_extra_eq dict_wf_def)

lemma setstate_simps [simp]:
  "d_items (dict_setstate (dict_getstate d) k) = d_items d"
  "dict_outstanding (dict_setstate (dict_getstate d) k) = []"
  by (simp_all add: dict_setstate_def dict_getstate_def dict_outstanding_def native_outstanding_def Let_def)

lemma setstate_pending:
  assumes wf: "dict_wf d"
  shows "dict_pending (dict_setstate (dict_getstate d) k) = dict_pending (requeue_claims d)"
proof -
  have ei: "d_extra_index d \<le> length (d_extra d)" using wf by (simp add: dict_wf_def)
  have ok: "native_claim_ok d" and idx: "d_index d \<le> length (d_items d)" using wf by (simp_all add: dict_wf_def)
  show ?thesis
  proof (cases "d_native_claim d")
    case None
    with ei show ?thesis
      unfolding requeue_pending_eq [OF wf]
      by (simp add: dict_setstate_def dict_getstate_def dict_pending_def native_outstanding_def)
  next
    case (Some c)
    with ei show ?thesis
      unfolding requeue_pending_eq [OF wf]
      by (simp add: dict_setstate_def dict_getstate_def dict_pending_def native_outstanding_def
          native_rewind(1) [OF ok Some idx])
  qed
qed

lemma setstate_wf [inv_intros]:
  assumes wf: "dict_wf d"
  shows "dict_wf (dict_setstate (dict_getstate d) k)"
proof -
  have ok: "native_claim_ok d" and idx: "d_index d \<le> length (d_items d)" using wf by (simp_all add: dict_wf_def)
  have "\<And>c. d_native_claim d = Some c \<Longrightarrow> claim_start c + claim_released c \<le> length (d_items d)"
    using native_rewind(2) [OF ok _ idx] .
  with wf show ?thesis
    by (auto simp: dict_wf_def dict_setstate_def dict_getstate_def native_claim_ok_def Let_def
        split: option.splits)
qed

section \<open>Histories\<close>

text \<open>
  A scan's history: the dictionary, the paths whose work is finished, and the paths discovered
  during the scan.  \<open>__next__\<close> hands a path out for good; the calls on the Python side of the
  queue are made while no native range is in flight, as \<open>requeue_claims\<close> relies on.
\<close>

type_synonym history = "dictionary \<times> string list \<times> string list"

inductive dict_step :: "(string \<Rightarrow> bool) \<Rightarrow> history \<Rightarrow> history \<Rightarrow> bool" for v where
  Next: "d_native_claim d = None \<Longrightarrow> dict_next d = (Inr p, d') \<Longrightarrow>
    dict_step v (d, fin, disc) (d', fin @ [p], disc)"
| ClaimNext: "d_native_claim d = None \<Longrightarrow> claim_next d = (Inr p, d') \<Longrightarrow>
    dict_step v (d, fin, disc) (d', fin, disc)"
| ClaimMany: "d_native_claim d = None \<Longrightarrow> claim_many n d = (ps, d') \<Longrightarrow>
    dict_step v (d, fin, disc) (d', fin, disc)"
| ClaimNative: "claim_native_many n b d = (Inr r, d') \<Longrightarrow>
    dict_step v (d, fin, disc) (d', fin, disc)"
| ReleaseNative: "d_native_claim d = Some c \<Longrightarrow>
    release_native_claims (claim_chunk c) n d = (Inr (), d') \<Longrightarrow>
    dict_step v (d, fin, disc) (d', fin @ take n (native_outstanding d), disc)"
| Release: "release_claim p d = (Inr (), d') \<Longrightarrow>
    dict_step v (d, fin, disc) (d', fin @ [p], disc)"
| ReleaseMany: "release_claims ps d = (Inr (), d') \<Longrightarrow>
    dict_step v (d, fin, disc) (d', fin @ ps, disc)"
| Requeue: "dict_step v (d, fin, disc) (requeue_claims d, fin, disc)"
| Discover: "add_extra v p d = d' \<Longrightarrow>
    dict_step v (d, fin, disc) (d', fin, disc @ drop (length (d_extra d)) (d_extra d'))"
| Resume: "dict_step v (d, fin, disc) (dict_setstate (dict_getstate d) k, fin, disc)"
| Reset: "dict_step v (d, fin, disc) (dict_reset d, [], [])"

inductive_cases dict_stepE: "dict_step v (d, fin, disc) (d', fin', disc')"

text \<open>Nothing is lost and nothing is done twice: finished, outstanding and pending work together
  are the wordlist and the discovered paths; no discovered path is known already.\<close>

definition history_ok :: "string list \<Rightarrow> history \<Rightarrow> bool" where
  "history_ok items h \<longleftrightarrow>
     (case h of (d, fin, disc) \<Rightarrow>
        dict_wf d \<and> d_items d = items \<and>
        mset fin + (mset (dict_outstanding d) + mset (dict_pending d)) = mset items + mset disc \<and>
        distinct disc \<and> set disc \<inter> set items = {} \<and> set disc \<subseteq> set (d_extra d))"

lemma dict_next_eq:
  assumes wf: "dict_wf d"
  shows "dict_next d =
    (if dict_pending d = [] then (Inl StopIteration, d)
     else (Inr (hd (dict_pending d)), (snd (claim_many 1 d))\<lparr>d_claimed := d_claimed d\<rparr>))"
  using claim_next_eq [OF wf] by (auto simp: dict_next_def claim_next_def Let_def split: if_splits)
    (auto simp: claim_many_def claim_lists_eq dict_pending_def)

lemma claim_many_fields [simp]:
  "d_items (snd (claim_many n d)) = d_items d" "d_extra (snd (claim_many n d)) = d_extra d"
  by (simp_all add: claim_many_def claim_lists_eq)

lemma dict_pending_claimed [simp]: "dict_pending (d\<lparr>d_claimed := c\<rparr>) = dict_pending d"
  by (simp add: dict_pending_def)

lemma dict_next_effect:
  assumes wf: "dict_wf d" and nc: "d_native_claim d = None" and r: "dict_next d = (Inr p, d')"
  shows "dict_wf d' \<and> d_items d' = d_items d \<and> d_extra d' = d_extra d \<and>
    dict_outstanding d' = dict_outstanding d \<and> dict_pending d = p # dict_pending d'"
proof -
  from r have ne: "dict_pending d \<noteq> []" and p: "p = hd (dict_pending d)"
    and d': "d' = (snd (claim_many 1 d))\<lparr>d_claimed := d_claimed d\<rparr>"
    by (simp_all add: dict_next_eq [OF wf] split: if_splits)
  have "dict_wf d'"
    using claim_many_wf [OF wf nc, of 1] wf unfolding d'
    by (auto simp: dict_wf_def claim_many_def claim_lists_eq split: if_splits)
  moreover have "dict_pending d' = tl (dict_pending d)"
    using claim_many_pending [OF wf, of 1] by (simp add: d' drop_Suc)
  moreover have "dict_outstanding d' = dict_outstanding d"
    using nc by (simp add: d' dict_outstanding_def native_outstanding_def)
  ultimately show ?thesis using ne p by (simp add: d')
qed

lemma dict_reset_ok: "dict_wf d \<Longrightarrow> history_ok (d_items d) (dict_reset d, [], [])"
  by (auto simp: history_ok_def dict_reset_def dict_wf_def native_claim_ok_def dict_outstanding_def
      native_outstanding_def dict_pending_def)

lemma claim_many_effect:
  assumes "dict_wf d" and "d_native_claim d = None" and "claim_many n d = (ps, d')"
  shows "dict_wf d' \<and> d_items d' = d_items d \<and> d_extra d' = d_extra d \<and>
    mset (dict_outstanding d') + mset (dict_pending d') = mset (dict_outstanding d) + mset (dict_pending d)"
  using assms dq.claim_total [of d n ps d'] claim_many_wf [of d n] claim_many_fields [of n d]
  by (simp add: dict_ready_def)

lemma release_effect:
  assumes wf: "dict_wf d" and r: "release_claims ps d = (Inr (), d')"
  shows "dict_wf d' \<and> d_items d' = d_items d \<and> d_extra d' = d_extra d \<and> dict_pending d' = dict_pending d \<and>
    mset (dict_outstanding d) = mset ps + mset (dict_outstanding d')"
proof -
  have "mset ps \<subseteq># mset (d_claimed d)"
    using release_claims_err [of ps d] r by (metis Inl_Inr_False prod.inject)
  then obtain cl where cl: "release_claims ps d = (Inr (), d\<lparr>d_claimed := cl\<rparr>)"
    and m: "mset (d_claimed d) = mset ps + mset cl" using release_claims_ok by blast
  have "dict_wf d'" using release_claims_wf [OF wf, of ps] r by simp
  with r cl m show ?thesis by (auto simp: dict_pending_def dict_outstanding_def native_outstanding_def)
qed

lemma requeue_effect:
  assumes wf: "dict_wf d"
  shows "d_items (requeue_claims d) = d_items d \<and> set (d_extra d) \<subseteq> set (d_extra (requeue_claims d)) \<and>
    mset (dict_outstanding (requeue_claims d)) + mset (dict_pending (requeue_claims d)) =
    mset (dict_outstanding d) + mset (dict_pending d)"
proof -
  have "set (d_extra d) \<subseteq> set (take n (d_extra d)) \<union> set (drop n (d_extra d))" for n
    by (metis append_take_drop_id set_append subset_refl)
  then have "set (d_extra d) \<subseteq> set (d_extra (requeue_claims d))" and "d_items (requeue_claims d) = d_items d"
    by (auto simp: requeue_claims_def Let_def split: option.splits)
  then show ?thesis
    unfolding requeue_pending_eq [OF wf] requeue_outstanding_eq
    by (simp add: dict_outstanding_def dict_pending_def)
qed

lemma resume_extra: "set (d_extra d) \<subseteq> set (d_extra (dict_setstate (dict_getstate d) k))"
proof -
  have "set (d_extra d) = set (take (d_extra_index d) (d_extra d)) \<union> set (drop (d_extra_index d) (d_extra d))"
    by (metis append_take_drop_id set_append)
  then show ?thesis by (auto simp: dict_setstate_def dict_getstate_def)
qed

lemma discover_ok:
  assumes h: "history_ok items (d, fin, disc)"
  shows "history_ok items
    (add_extra v p d, fin, disc @ drop (length (d_extra d)) (d_extra (add_extra v p d)))"
proof -
  from h have wf: "dict_wf d" by (simp add: history_ok_def)
  then have "set (d_extra d) \<subseteq> set (d_items d) \<union> d_extra_membership d" by (simp add: dict_wf_def)
  with h show ?thesis
    using add_extra_wf [OF wf, of v p] add_extra_pending [OF wf, of v p] add_extra_outstanding [OF wf, of v p]
    by (auto simp: history_ok_def add_extra_eq [OF wf])
qed

lemma dict_step_ok:
  assumes "dict_step v h h'" and "history_ok items h"
  shows "history_ok items h'"
  using assms
proof (cases rule: dict_step.cases)
  case (Next d p d' fin disc)
  with assms(2) dict_next_effect [of d p d'] show ?thesis by (simp add: history_ok_def)
next
  case (ClaimNext d p d' fin disc)
  then have wf: "dict_wf d" using assms(2) by (simp add: history_ok_def)
  with ClaimNext have "d' = snd (claim_many 1 d)" by (simp add: claim_next_eq split: if_splits)
  then have "claim_many 1 d = (fst (claim_many 1 d), d')" by simp
  from claim_many_effect [OF wf _ this] ClaimNext assms(2) show ?thesis
    by (simp add: history_ok_def)
next
  case (ClaimMany d n ps d' fin disc)
  with assms(2) claim_many_effect [of d n ps d'] show ?thesis
    by (simp add: history_ok_def)
next
  case (ClaimNative n b d r d' fin disc)
  with assms(2) claim_native_effect [of d n b r d'] show ?thesis
    by (simp add: history_ok_def add_ac)
next
  case (ReleaseNative d c n d' fin disc)
  then have wf: "dict_wf d" using assms(2) by (simp add: history_ok_def)
  note e = release_native_effect [OF wf ReleaseNative(3,4)]
  then have "mset (native_outstanding d) = mset (take n (native_outstanding d)) + mset (native_outstanding d')"
    by (metis mset_append)
  with e ReleaseNative assms(2) show ?thesis
    by (simp add: history_ok_def dict_outstanding_def add_ac)
next
  case (Release p d d' fin disc)
  then have r: "release_claims [p] d = (Inr (), d')" by (simp add: release_claim_eq)
  from Release assms(2) release_effect [OF _ r] show ?thesis by (auto simp: history_ok_def add_ac)
next
  case (ReleaseMany ps d d' fin disc)
  with assms(2) release_effect [of d ps d'] show ?thesis by (simp add: history_ok_def add_ac)
next
  case (Requeue d fin disc)
  with assms(2) requeue_effect [of d] requeue_wf [of d] show ?thesis
    by (auto simp: history_ok_def)
next
  case (Discover p d d' fin disc)
  with assms(2) discover_ok [of items d fin disc v p] show ?thesis by simp
next
  case (Resume d fin disc k)
  then have wf: "dict_wf d" using assms(2) by (simp add: history_ok_def)
  with Resume assms(2) requeue_effect [OF wf] setstate_wf [OF wf, of k] resume_extra [of d k]
    setstate_pending [OF wf, of k]
  show ?thesis by (auto simp: history_ok_def requeue_outstanding_eq)
next
  case (Reset d fin disc)
  with assms(2) dict_reset_ok [of d] show ?thesis by (simp add: history_ok_def)
qed

lemma history_reachable:
  assumes "(dict_step v)\<^sup>*\<^sup>* (dict_init items native, [], []) h"
  shows "history_ok items h"
  using assms
proof (induction rule: rtranclp_induct)
  case base
  have "dict_outstanding (dict_init items native) = []" and "dict_pending (dict_init items native) = items"
    and "d_items (dict_init items native) = items"
    by (simp_all add: dict_init_def dict_outstanding_def native_outstanding_def dict_pending_def)
  then show ?case by (simp add: history_ok_def)
next
  case (step h h')
  show ?case using step(2) step.IH by (rule dict_step_ok)
qed

section \<open>Properties\<close>

text \<open>A dictionary on which the workers have claimed and finished in turn.\<close>

fun claim_repeat :: "nat \<Rightarrow> dictionary \<Rightarrow> string list \<times> dictionary" where
  "claim_repeat 0 d = ([], d)"
| "claim_repeat (Suc n) d =
     (case claim_next d of
        (Inl _, d') \<Rightarrow> ([], d')
      | (Inr path, d') \<Rightarrow> (let (paths, d'') = claim_repeat n d' in (path # paths, d'')))"

lemma claim_lists_Suc:
  assumes "dict_pending d \<noteq> []"
  shows "claim_lists (Suc n) d =
    (hd (dict_pending d) # fst (claim_lists n (snd (claim_lists 1 d))),
     snd (claim_lists n (snd (claim_lists 1 d))))"
proof (cases "d_extra_index d < length (d_extra d)")
  case True
  then have "length (d_extra d) - d_extra_index d = Suc (length (d_extra d) - Suc (d_extra_index d))" by simp
  moreover from True have "drop (d_extra_index d) (d_extra d) =
      d_extra d ! d_extra_index d # drop (Suc (d_extra_index d)) (d_extra d)"
    by (rule Cons_nth_drop_Suc [symmetric])
  ultimately show ?thesis by (simp add: claim_lists_eq dict_pending_def)
next
  case False
  with assms have i: "d_index d < length (d_items d)" by (auto simp: dict_pending_def)
  then have "length (d_items d) - d_index d = Suc (length (d_items d) - Suc (d_index d))" by simp
  moreover from i have "drop (d_index d) (d_items d) = d_items d ! d_index d # drop (Suc (d_index d)) (d_items d)"
    by (rule Cons_nth_drop_Suc [symmetric])
  ultimately show ?thesis using False by (simp add: claim_lists_eq dict_pending_def)
qed

lemma claim_lists_none: "dict_wf d \<Longrightarrow> dict_pending d = [] \<Longrightarrow> claim_lists n d = ([], d)"
  by (simp add: claim_lists_eq dict_pending_def)

lemma claim_repeat_lists:
  "dict_wf d \<Longrightarrow> d_native_claim d = None \<Longrightarrow> claim_repeat n d = claim_lists n d"
proof (induction n arbitrary: d)
  case 0
  then show ?case by (simp add: claim_lists_eq)
next
  case (Suc n)
  show ?case
  proof (cases "dict_pending d = []")
    case True
    with Suc.prems show ?thesis by (simp add: claim_next_eq claim_lists_none)
  next
    case False
    let ?d = "snd (claim_lists 1 d)"
    have "claim_next d = (Inr (hd (dict_pending d)), ?d)"
      using Suc.prems False by (simp add: claim_next_eq claim_many_def)
    moreover have "claim_repeat n ?d = claim_lists n ?d"
      using Suc.prems claim_lists_wf [of d 1] by (intro Suc.IH) (simp_all add: claim_lists_eq)
    ultimately show ?thesis using claim_lists_Suc [OF False, of n] by (simp add: case_prod_beta)
  qed
qed

text \<open>C1: no path is lost, invented or done twice: in every history of queue operations
  (claims of one path, of many, of native ranges, releases, requeues, discoveries, a saved and
  resumed session, resets) the finished, outstanding and pending paths together are exactly the
  wordlist and the discovered paths, as multisets.\<close>
theorem dictionary_conserves_paths:
  assumes "(dict_step v)\<^sup>*\<^sup>* (dict_init items native, [], []) (d, fin, disc)"
  shows "mset fin + (mset (dict_outstanding d) + mset (dict_pending d)) = mset items + mset disc"
  using history_reachable [OF assms] by (simp add: history_ok_def)

theorem dictionary_conserves_paths_witness:
  "mset [''a''] + (mset (dict_outstanding (snd (release_claim ''a'' (snd (claim_many 2 (dict_init [''a'', ''b''] False))))))
     + mset (dict_pending (snd (release_claim ''a'' (snd (claim_many 2 (dict_init [''a'', ''b''] False)))))))
   = mset [''a'', ''b''] + mset []"
proof (rule dictionary_conserves_paths [where native = False and v = "\<lambda>_. True"])
  let ?d0 = "dict_init [''a'', ''b''] False"
  let ?d1 = "snd (claim_many 2 ?d0)"
  have "dict_step (\<lambda>_. True) (?d0, [], []) (?d1, [], [])"
    by (rule dict_step.ClaimMany [where n = 2 and ps = "fst (claim_many 2 ?d0)"]) (simp add: dict_init_def, simp)
  moreover have "dict_step (\<lambda>_. True) (?d1, [], []) (snd (release_claim ''a'' ?d1), [] @ [''a''], [])"
    by (rule dict_step.Release)
       (simp add: release_claim_def list_remove_def claim_many_def claim_lists_eq dict_init_def dict_pending_def)
  ultimately show "(dict_step (\<lambda>_. True))\<^sup>*\<^sup>* (?d0, [], []) (snd (release_claim ''a'' ?d1), [''a''], [])"
    by (simp add: rtranclp.rtrancl_into_rtrancl)
qed



text \<open>Claiming many paths in one lock operation is claiming them one after the other.\<close>
theorem claim_many_is_repeated_claim_next:
  assumes "dict_wf d" and "d_native_claim d = None"
  shows "claim_many n d = claim_repeat n d"
  using assms claim_repeat_lists [of d n] by (cases n) (simp_all add: claim_many_def)

theorem claim_many_is_repeated_claim_next_witness:
  "claim_many 3 (dict_init [''a'', ''b''] False) = claim_repeat 3 (dict_init [''a'', ''b''] False)"
  by (rule claim_many_is_repeated_claim_next) (simp, simp add: dict_init_def)

text \<open>C4: releasing a batch does what releasing its paths one by one does, through every shortcut of
  the code, and a batch that is not all claimed changes nothing.\<close>
theorem release_claims_is_sequential:
  "release_claims paths d =
     (case release_each paths (d_claimed d) of
        Inl e \<Rightarrow> (Inl e, d)
      | Inr claimed \<Rightarrow> (Inr (), d\<lparr>d_claimed := claimed\<rparr>))
   \<and> ((\<exists>e. fst (release_claims paths d) = Inl e) = (\<not> mset paths \<subseteq># mset (d_claimed d)))"
  using release_claims_eq [of paths d] by (simp add: release_each_eq)

text \<open>Requeueing makes every claim available again, before all other work and in claim order; a
  native range is rewound to exactly its unfinished rest.\<close>
theorem requeue_claims_order:
  assumes "dict_wf d"
  shows "dict_pending (requeue_claims d) =
      d_claimed d @ drop (d_extra_index d) (d_extra d) @ native_outstanding d @ drop (d_index d) (d_items d) \<and>
    dict_outstanding (requeue_claims d) = [] \<and> dict_wf (requeue_claims d)"
  using requeue_pending_eq [OF assms] requeue_outstanding_eq [of d] requeue_wf [OF assms] by auto

theorem requeue_claims_order_witness:
  "dict_pending (requeue_claims (snd (claim_many 1 (dict_init [''a'', ''b''] False)))) = [''a'', ''b'']"
proof -
  let ?d = "snd (claim_many 1 (dict_init [''a'', ''b''] False))"
  have "dict_wf ?d" by (rule claim_many_wf) (simp, simp add: dict_init_def)
  from requeue_claims_order [OF this] show ?thesis
    by (simp add: claim_many_def claim_lists_eq dict_init_def dict_pending_def native_outstanding_def)
qed

text \<open>A saved session resumes with all unfinished work: the restored queue hands out the same
  paths in the same order as the live queue after a requeue, holds no claim, and is well-formed.\<close>
theorem saved_state_resumes_all_work:
  assumes "dict_wf d"
  shows "dict_pending (dict_setstate (dict_getstate d) k) = dict_pending (requeue_claims d) \<and>
    dict_outstanding (dict_setstate (dict_getstate d) k) = [] \<and>
    dict_wf (dict_setstate (dict_getstate d) k)"
  using setstate_pending [OF assms] setstate_wf [OF assms] by simp

theorem saved_state_resumes_all_work_witness:
  "dict_pending (dict_setstate (dict_getstate (dict_init [''a''] True)) 1) =
   dict_pending (requeue_claims (dict_init [''a''] True))"
  using saved_state_resumes_all_work [of "dict_init [''a''] True" 1] by simp

end
