(* ===== verification/Structures.thy ===== *)
theory Structures
  imports PyStr "HOL-Library.AList"
begin

text \<open>
  The containers of \<open>lib/core/structures.py\<close>: \<open>OrderedSet\<close>, a dict used for its keys and their
  insertion order, and \<open>CaseInsensitiveDict\<close>, a dict whose item access lowers the key.  The
  interface the wordlist code needs of an ordered set is the locale \<open>insertion_set\<close>.
\<close>

section \<open>What a client needs of an ordered set\<close>

locale insertion_set =
  fixes add :: "'a \<Rightarrow> 's \<Rightarrow> 's"
    and mem :: "'a \<Rightarrow> 's \<Rightarrow> bool"
    and elems :: "'s \<Rightarrow> 'a list"
    and invar :: "'s \<Rightarrow> bool"
  assumes mem_elems: "invar s \<Longrightarrow> mem x s \<longleftrightarrow> x \<in> set (elems s)"
    and add_old: "invar s \<Longrightarrow> mem x s \<Longrightarrow> elems (add x s) = elems s"
    and add_new: "invar s \<Longrightarrow> \<not> mem x s \<Longrightarrow> elems (add x s) = elems s @ [x]"
    and invar_add: "invar s \<Longrightarrow> invar (add x s)"
    and invar_distinct: "invar s \<Longrightarrow> distinct (elems s)"
begin

lemma invar_fold: "invar s \<Longrightarrow> invar (fold add xs s)"
  by (induction xs arbitrary: s) (auto intro: invar_add)

lemma elems_fold: "invar s \<Longrightarrow> elems (fold add xs s) = dedup_from (elems s) xs"
proof (induction xs arbitrary: s)
  case (Cons x xs)
  then have "elems (add x s) = (if x \<in> set (elems s) then elems s else elems s @ [x])"
    using add_old add_new mem_elems by auto
  with Cons show ?case by (simp add: invar_add)
qed simp

lemma set_fold: "invar s \<Longrightarrow> set (elems (fold add xs s)) = set (elems s) \<union> set xs"
  by (simp add: elems_fold)

lemma size_fold: "invar s \<Longrightarrow> length (elems (fold add xs s)) \<le> length (elems s) + length xs"
  by (simp add: elems_fold length_dedup_from_le)

end

section \<open>OrderedSet\<close>

text \<open>The underlying dict maps every key to \<open>None\<close>: its keys, in insertion order, are the state.\<close>

record 'a ordered_set =
  data :: "'a list"

definition oset_wf :: "'a ordered_set \<Rightarrow> bool" where
  "oset_wf s \<longleftrightarrow> distinct (data s)"

definition oset_contains :: "'a \<Rightarrow> 'a ordered_set \<Rightarrow> bool" where
  "oset_contains x s \<longleftrightarrow> x \<in> set (data s)"

definition oset_add :: "'a \<Rightarrow> 'a ordered_set \<Rightarrow> 'a ordered_set" where
  "oset_add x s = (if x \<in> set (data s) then s else s\<lparr>data := data s @ [x]\<rparr>)"

definition oset_update :: "'a list \<Rightarrow> 'a ordered_set \<Rightarrow> 'a ordered_set" where
  "oset_update xs s = fold oset_add xs s"

definition oset_init :: "'a list \<Rightarrow> 'a ordered_set" where
  "oset_init xs = fold oset_add xs \<lparr>data = []\<rparr>"

definition oset_clear :: "'a ordered_set \<Rightarrow> 'a ordered_set" where
  "oset_clear s = s\<lparr>data := []\<rparr>"

definition oset_discard :: "'a \<Rightarrow> 'a ordered_set \<Rightarrow> 'a ordered_set" where
  "oset_discard x s = s\<lparr>data := remove1 x (data s)\<rparr>"

definition oset_remove :: "'a \<Rightarrow> 'a ordered_set \<Rightarrow> 'a ordered_set result" where
  "oset_remove x s = (if x \<in> set (data s) then Inr (s\<lparr>data := remove1 x (data s)\<rparr>) else Inl KeyError)"

text \<open>\<open>dict.popitem\<close> takes the last key; \<open>OrderedSet.pop\<close> returns nothing.\<close>

definition oset_pop :: "'a ordered_set \<Rightarrow> 'a ordered_set result" where
  "oset_pop s = (if data s = [] then Inl KeyError else Inr (s\<lparr>data := butlast (data s)\<rparr>))"

text \<open>\<open>__eq__\<close> compares the key views, which are sets.\<close>

definition oset_eq :: "'a ordered_set \<Rightarrow> 'a ordered_set \<Rightarrow> bool" where
  "oset_eq s t \<longleftrightarrow> set (data s) = set (data t)"

definition oset_len :: "'a ordered_set \<Rightarrow> nat" where
  "oset_len s = length (data s)"

interpretation oset: insertion_set oset_add oset_contains data oset_wf
  by unfold_locales (auto simp: oset_add_def oset_contains_def oset_wf_def)

lemma oset_wf_init [simp]: "oset_wf (oset_init xs)"
  unfolding oset_init_def by (rule oset.invar_fold) (simp add: oset_wf_def)

lemma oset_wf_ops [inv_intros]:
  "oset_wf s \<Longrightarrow> oset_wf (oset_add x s)"
  "oset_wf s \<Longrightarrow> oset_wf (oset_update xs s)"
  "oset_wf s \<Longrightarrow> oset_wf (oset_clear s)"
  "oset_wf s \<Longrightarrow> oset_wf (oset_discard x s)"
  "oset_wf s \<Longrightarrow> oset_remove x s = Inr t \<Longrightarrow> oset_wf t"
  "oset_wf s \<Longrightarrow> oset_pop s = Inr t \<Longrightarrow> oset_wf t"
  by (auto simp: oset_update_def oset_clear_def oset_discard_def oset_remove_def oset_pop_def
      intro: oset.invar_add oset.invar_fold split: if_splits)
     (auto simp: oset_wf_def distinct_butlast)

lemma data_init: "data (oset_init xs) = dedup_from [] xs"
  by (simp add: oset_init_def oset.elems_fold oset_wf_def)

lemma data_update: "oset_wf s \<Longrightarrow> data (oset_update xs s) = dedup_from (data s) xs"
  by (simp add: oset_update_def oset.elems_fold)

text \<open>Removal is exact on a well-formed set: the removed key is gone and no other is.\<close>

lemma oset_discard_set: "oset_wf s \<Longrightarrow> set (data (oset_discard x s)) = set (data s) - {x}"
  by (simp add: oset_discard_def oset_wf_def)

section \<open>CaseInsensitiveDict\<close>

text \<open>
  The dict is an association list with distinct keys in insertion order.  \<open>__setitem__\<close> and
  \<open>__getitem__\<close> lower the key; the constructor then pops every key and stores its value again.
\<close>

type_synonym 'v ci_dict = "(string \<times> 'v) list"

definition ci_set :: "string \<Rightarrow> 'v \<Rightarrow> 'v ci_dict \<Rightarrow> 'v ci_dict" where
  "ci_set k v d = AList.update (lower k) v d"

definition ci_get :: "string \<Rightarrow> 'v ci_dict \<Rightarrow> 'v result" where
  "ci_get k d = (case map_of d (lower k) of None \<Rightarrow> Inl KeyError | Some v \<Rightarrow> Inr v)"

definition ci_convert_key :: "string \<Rightarrow> 'v ci_dict \<Rightarrow> 'v ci_dict" where
  "ci_convert_key k d =
     (case map_of d k of None \<Rightarrow> d | Some v \<Rightarrow> ci_set k v (AList.delete k d))"

definition ci_convert_keys :: "'v ci_dict \<Rightarrow> 'v ci_dict" where
  "ci_convert_keys d = fold ci_convert_key (map fst d) d"

text \<open>\<open>dict(pairs)\<close>: a later pair replaces the value of an equal key.\<close>

definition dict_of :: "(string \<times> 'v) list \<Rightarrow> 'v ci_dict" where
  "dict_of ps = fold (\<lambda>(k, v). AList.update k v) ps []"

definition ci_init :: "(string \<times> 'v) list \<Rightarrow> 'v ci_dict" where
  "ci_init ps = ci_convert_keys (dict_of ps)"

definition ci_wf :: "'v ci_dict \<Rightarrow> bool" where
  "ci_wf d \<longleftrightarrow> distinct (map fst d) \<and> (\<forall>k \<in> set (map fst d). lower k = k)"

lemma distinct_dict_of: "distinct (map fst (dict_of ps))"
proof -
  have "distinct (map fst d) \<Longrightarrow> distinct (map fst (fold (\<lambda>(k, v). AList.update k v) ps d))" for d
    by (induction ps arbitrary: d) (auto simp: distinct_update)
  then show ?thesis by (simp add: dict_of_def)
qed

lemma ci_set_get: "ci_get k' (ci_set k v d) = (if lower k' = lower k then Inr v else ci_get k' d)"
  by (simp add: ci_get_def ci_set_def update_conv)

lemma ci_wf_set [inv_intros]: "ci_wf d \<Longrightarrow> ci_wf (ci_set k v d)"
  by (auto simp: ci_wf_def ci_set_def distinct_update dom_update)

text \<open>
  While the constructor converts keys, the keys it has passed are lower case; what is left to
  do is a list of keys that is distinct and still holds every key that is not lower case.
\<close>

lemma keys_convert_key:
  "fst ` set (ci_convert_key k d) \<subseteq> insert (lower k) (fst ` set d - {k}) \<union> (fst ` set d - {k})"
proof (cases "map_of d k")
  case None
  then have "k \<notin> fst ` set d" by (simp add: map_of_eq_None_iff)
  with None show ?thesis by (auto simp: ci_convert_key_def)
next
  case (Some v)
  have "fst ` set (AList.delete k d) = fst ` set d - {k}"
    by (metis delete_keys image_set set_removeAll)
  with Some show ?thesis by (simp add: ci_convert_key_def ci_set_def dom_update)
qed

lemma distinct_convert_key:
  "distinct (map fst d) \<Longrightarrow> distinct (map fst (ci_convert_key k d))"
  by (auto simp: ci_convert_key_def ci_set_def distinct_update distinct_delete split: option.splits)

lemma convert_fold_keys:
  assumes "distinct (map fst d)" and "\<forall>k \<in> fst ` set d. k \<in> set ks \<or> lower k = k"
  shows "ci_wf (fold ci_convert_key ks d)"
  using assms
proof (induction ks arbitrary: d)
  case Nil
  then show ?case by (auto simp: ci_wf_def)
next
  case (Cons k ks)
  have "\<forall>j \<in> fst ` set (ci_convert_key k d). j \<in> set ks \<or> lower j = j"
  proof
    fix j
    assume "j \<in> fst ` set (ci_convert_key k d)"
    then have "j = lower k \<or> (j \<in> fst ` set d \<and> j \<noteq> k)"
      using keys_convert_key [of k d] by blast
    with Cons.prems(2) show "j \<in> set ks \<or> lower j = j" by auto
  qed
  with Cons.IH [of "ci_convert_key k d"] Cons.prems(1) show ?case
    by (simp add: distinct_convert_key)
qed

lemma ci_wf_init: "ci_wf (ci_init ps)"
  unfolding ci_init_def ci_convert_keys_def
  by (rule convert_fold_keys) (auto simp: distinct_dict_of)

text \<open>On a dict whose keys already are lower case the conversion changes nothing a lookup sees.\<close>

lemma convert_key_lower:
  "lower k = k \<Longrightarrow> distinct (map fst d) \<Longrightarrow> map_of (ci_convert_key k d) = map_of d"
  by (auto simp: ci_convert_key_def ci_set_def update_conv delete_conv fun_eq_iff split: option.splits)

lemma convert_fold_lower:
  "\<forall>k \<in> set ks. lower k = k \<Longrightarrow> distinct (map fst d) \<Longrightarrow>
     map_of (fold ci_convert_key ks d) = map_of d"
  by (induction ks arbitrary: d) (auto simp: convert_key_lower distinct_convert_key)

lemma ci_convert_id: "ci_wf d \<Longrightarrow> map_of (ci_convert_keys d) = map_of d"
  by (auto simp: ci_convert_keys_def ci_wf_def intro!: convert_fold_lower)

end
