(* ===== verification/Wordlist.thy ===== *)
theory Wordlist
  imports Url Structures
begin

text \<open>
  \<open>lib/core/wordlist_template.py\<close> and \<open>lib/core/wordlist_backend.py\<close>: the expansion of
  \<open>%TOKEN%\<close> placeholders in wordlist lines, the backup names of a discovered file, and the
  generation of the wordlist with its extension rules, prefixes, suffixes, case options and size
  limit.  The file system is a function from a path to the text of a readable file, the date a
  triple; the native engine's generator is a parameter.
\<close>

section \<open>Template tokens\<close>

text \<open>\<open>TOKEN_RE\<close>, \<open>%([A-Z0-9_:/-]+)%\<close> without regard to case.\<close>

definition token_char :: "char \<Rightarrow> bool" where
  "token_char c \<longleftrightarrow> is_alnum c \<or> c \<in> set ''_:/-''"

definition token_re :: rx where
  "token_re = Seqs [Lit (CHR ''%''), Cap 1 (Plus (Chr token_char)), Lit (CHR ''%'')]"

definition default_placeholders :: "(string \<times> string list) list" where
  "default_placeholders =
     [(''SUBJECT'', [''user'', ''users'', ''account'', ''accounts'', ''profile'', ''article'',
        ''articles'', ''post'', ''posts'', ''product'', ''products'', ''order'', ''orders'',
        ''invoice'', ''invoices'']),
      (''CRUD_OP'', [''create'', ''read'', ''update'', ''delete'', ''list'', ''get'', ''add'',
        ''edit'', ''remove'', ''search'']),
      (''AUTH_OP'', [''login'', ''logout'', ''signin'', ''signout'', ''signup'', ''register'',
        ''reset'', ''forgot'', ''password'', ''oauth'', ''sso'']),
      (''ADMIN_OP'', [''admin'', ''dashboard'', ''panel'', ''manage'', ''settings'', ''users'',
        ''roles'', ''permissions'']),
      (''ENV'', [''dev'', ''development'', ''test'', ''stage'', ''staging'', ''prod'',
        ''production'', ''local'']),
      (''SEP'', [''-'', ''_'', ''.'', ''/'']),
      (''DB'', db_engines),
      (''DB_ENGINE'', db_engines),
      (''ARCHIVE'', archive_extensions),
      (''ARCHIVE_EXT'', archive_extensions),
      (''BACKUP'', backup_extensions),
      (''BACKUP_EXT'', backup_extensions),
      (''API_VERSION'', [''v1'', ''v2'', ''v3'', ''v4'', ''latest'', ''beta''])]"

definition date_placeholders :: "string list" where
  "date_placeholders = [''YYYY'', ''YY'', ''MM'', ''DD'', ''DATE'', ''DATE_COMPACT'']"

definition extension_token :: string where
  "extension_token = upper (strip_char (CHR ''%'') extension_tag)"

definition is_template_token :: "string \<Rightarrow> bool" where
  "is_template_token token \<longleftrightarrow>
     (let normalized = upper (strip_char (CHR ''%'') token) in
      normalized = extension_token \<or>
      normalized \<in> set (map fst default_placeholders) \<or>
      normalized \<in> set date_placeholders \<or>
      starts_with normalized ''CATEGORY:'')"

section \<open>Backup names\<close>

definition has_extension :: "string \<Rightarrow> string list \<Rightarrow> bool" where
  "has_extension path extensions \<longleftrightarrow>
     ends_with_any (lower path) (map (\<lambda>e. ''.'' @ lower e) extensions)"

definition dotted :: "string \<Rightarrow> string \<Rightarrow> string" where
  "dotted base extension = base @ ''.'' @ extension"

definition generate_backup_paths :: "string \<Rightarrow> string list" where
  "generate_backup_paths path =
     (let (directory, separator, filename) = rpartition (CHR ''/'') path in
      if filename = [] \<or> \<not> is_alnum (last filename) then []
      else
        (let (basename, dot, ext) = rpartition (CHR ''.'') filename in
         if dot = [] \<or> ext = [] then []
         else if has_extension path (media_extensions @ backup_extensions) then []
         else dedup_from []
           ([path @ ''~''] @ map (dotted path) backup_extensions @
            (if basename \<noteq> []
             then map (dotted (directory @ separator @ basename)) archive_extensions else []))))"

section \<open>Placeholder values\<close>

definition normalize_placeholders :: "(string \<times> (string + string list)) list \<Rightarrow> (string \<times> string list) list" where
  "normalize_placeholders placeholders =
     map (\<lambda>(key, values).
            (upper (strip_char (CHR ''%'') key), case values of Inl s \<Rightarrow> [s] | Inr vs \<Rightarrow> vs)) placeholders"

definition zero_pad :: "nat \<Rightarrow> nat \<Rightarrow> string" where
  "zero_pad w n = replicate (w - length (show_nat n)) (CHR ''0'') @ show_nat n"

type_synonym date = "nat \<times> nat \<times> nat"

definition date_values :: "date \<Rightarrow> (string \<times> string list) list" where
  "date_values today =
     (case today of (y, m, d) \<Rightarrow>
        [(''YYYY'', [zero_pad 4 y]), (''YY'', [zero_pad 2 (y mod 100)]),
         (''MM'', [zero_pad 2 m]), (''DD'', [zero_pad 2 d]),
         (''DATE'', [join ''-'' [zero_pad 4 y, zero_pad 2 m, zero_pad 2 d]]),
         (''DATE_COMPACT'', [zero_pad 4 y @ zero_pad 2 m @ zero_pad 2 d])])"

text \<open>The dict after its updates: the placeholders of the caller win, a later one over an earlier.\<close>

definition placeholder_values ::
  "date \<Rightarrow> string list \<Rightarrow> (string \<times> (string + string list)) list \<Rightarrow> string \<Rightarrow> string list option" where
  "placeholder_values today extensions placeholders =
     map_of (rev (normalize_placeholders placeholders) @
             [(extension_token, extensions)] @ date_values today @ default_placeholders)"

section \<open>Files\<close>

type_synonym file_texts = "string \<Rightarrow> string option"

text \<open>\<open>os.path.join\<close> of two components.\<close>

definition build_path :: "string \<Rightarrow> string \<Rightarrow> string" where
  "build_path a b =
     (if starts_with b ''/'' then b
      else if a = [] \<or> ends_with a ''/'' then a @ b else a @ ''/'' @ b)"

definition can_read :: "file_texts \<Rightarrow> string \<Rightarrow> bool" where
  "can_read fs name \<longleftrightarrow> fs name \<noteq> None"

definition get_lines :: "file_texts \<Rightarrow> string \<Rightarrow> string list result" where
  "get_lines fs name =
     (case fs name of None \<Rightarrow> Inl (OSError name) | Some text \<Rightarrow> Inr (splitlines text))"

definition category_name :: "string \<Rightarrow> bool" where
  "category_name name \<longleftrightarrow>
     name \<noteq> [] \<and> list_all (\<lambda>c. is_lower c \<or> is_digit c \<or> c \<in> set ''_./-'') name"

definition load_category :: "file_texts \<Rightarrow> string \<Rightarrow> string \<Rightarrow> string list" where
  "load_category fs category_dir name =
     (if \<not> category_name name then []
      else
        (let path = (case map_of wordlist_categories name of
                       Some filename \<Rightarrow> build_path category_dir filename
                     | None \<Rightarrow> build_path category_dir (name @ ''.txt''))
         in (case get_lines fs path of
               Inl _ \<Rightarrow> []
             | Inr lines \<Rightarrow>
                 map (\<lambda>line. lstrip_char (CHR ''/'') (strip line))
                   (filter (\<lambda>line. strip line \<noteq> [] \<and> \<not> starts_with (strip line) ''#'') lines))))"

definition resolve_token ::
  "file_texts \<Rightarrow> string \<Rightarrow> (string \<Rightarrow> string list option) \<Rightarrow> string \<Rightarrow> string list option" where
  "resolve_token fs category_dir values token =
     (if starts_with token ''CATEGORY:''
      then Some (load_category fs category_dir (lower (drop 9 token)))
      else values token)"

section \<open>Expanding a line\<close>

text \<open>The tokens of a line, upper case, once each, that have values.\<close>

definition add_token :: "(string \<Rightarrow> string list option) \<Rightarrow> string list \<Rightarrow> string \<Rightarrow> string list" where
  "add_token resolve tokens token =
     (let normalized = upper token in
      if normalized \<in> set tokens then tokens
      else if resolve normalized \<noteq> None then tokens @ [normalized] else tokens)"

definition line_tokens :: "(string \<Rightarrow> string list option) \<Rightarrow> string \<Rightarrow> string list" where
  "line_tokens resolve line = foldl (add_token resolve) [] (re_findall1 token_re line)"

text \<open>\<open>re.sub\<close> of the escaped token, without regard to case.\<close>

definition sub_token :: "string \<Rightarrow> string \<times> string \<Rightarrow> string" where
  "sub_token rendered tv =
     re_sub (StrI (''%'' @ fst tv @ ''%'')) (\<lambda>_. snd tv) rendered"

definition expand_with :: "(string \<Rightarrow> string list option) \<Rightarrow> string \<Rightarrow> string list" where
  "expand_with resolve line =
     (let tokens = line_tokens resolve line in
      if tokens = [] then [line]
      else
        (let expansions = map resolve tokens in
         if list_ex (\<lambda>e. e = None) expansions then [line]
         else
           (let expansions = map the expansions in
            if list_ex (\<lambda>e. e = []) expansions then []
            else map (\<lambda>combo. foldl sub_token line (zip tokens combo))
                   (product_lists expansions))))"

definition expand_template_line ::
  "file_texts \<Rightarrow> string \<Rightarrow> date \<Rightarrow> string list \<Rightarrow> (string \<times> (string + string list)) list \<Rightarrow>
     string \<Rightarrow> string list" where
  "expand_template_line fs category_dir today extensions placeholders line =
     expand_with (resolve_token fs category_dir (placeholder_values today extensions placeholders)) line"

section \<open>Generating the wordlist\<close>

record wl_options =
  o_extensions :: "string list"
  o_force_extensions :: bool
  o_overwrite_extensions :: bool
  o_exclude_extensions :: "string list"
  o_prefixes :: "string list"
  o_suffixes :: "string list"
  o_lowercase :: bool
  o_uppercase :: bool
  o_capitalization :: bool
  o_wordlist_max_size :: nat

definition is_valid_path :: "wl_options \<Rightarrow> string \<Rightarrow> bool" where
  "is_valid_path options path \<longleftrightarrow>
     path \<noteq> [] \<and> \<not> starts_with path ''#'' \<and>
     \<not> ends_with_any (clean_path path False False)
         (map (\<lambda>e. ''.'' @ e) (o_exclude_extensions options))"

text \<open>\<open>_add_wordlist_entry\<close>.\<close>

definition add_wordlist_entry :: "nat \<Rightarrow> string \<Rightarrow> string ordered_set \<Rightarrow> string ordered_set result" where
  "add_wordlist_entry max_size path wordlist =
     (let wordlist = oset_add path wordlist in
      if max_size \<noteq> 0 \<and> max_size < oset_len wordlist
      then Inl (WordlistLimitError
             (''Generated wordlist exceeded --wordlist-max-size ('' @ show_nat max_size @ '')''))
      else Inr wordlist)"

text \<open>\<open>EXTENSION_RECOGNITION_REGEX\<close>: \<open>\w+([.][a-zA-Z0-9]{2,5}){1,3}~?$\<close>.\<close>

definition extension_recognition_regex :: rx where
  "extension_recognition_regex =
     Seqs [Plus (Chr is_word),
           Between 1 3 (Cap 1 (Seq (Lit (CHR ''.'')) (Between 2 5 (Chr is_alnum)))),
           Opt (Lit (CHR ''~'')), Eol]"

definition forces_extensions :: "wl_options \<Rightarrow> string \<Rightarrow> bool" where
  "forces_extensions options line \<longleftrightarrow>
     o_force_extensions options \<and> CHR ''.'' \<notin> set line \<and> \<not> ends_with line ''/''"

definition overwrites_extensions :: "wl_options \<Rightarrow> string \<Rightarrow> bool" where
  "overwrites_extensions options line \<longleftrightarrow>
     o_overwrite_extensions options \<and>
     \<not> ends_with_any line (o_extensions options @ exclude_overwrite_extensions) \<and>
     CHR ''?'' \<notin> set line \<and> CHR ''#'' \<notin> set line \<and>
     re_search extension_recognition_regex line \<noteq> None"

text \<open>The body of the inner loop for one expanded line.\<close>

definition add_line :: "wl_options \<Rightarrow> bool \<Rightarrow> string \<Rightarrow> string ordered_set \<Rightarrow> string ordered_set result" where
  "add_line options is_blacklist line wordlist =
     (let add = add_wordlist_entry (o_wordlist_max_size options) in
      if \<not> is_valid_path options line then Inr wordlist
      else rbind (add line wordlist) (\<lambda>wordlist.
        if is_blacklist then Inr wordlist
        else if forces_extensions options line
        then rbind (add (line @ ''/'') wordlist)
               (rfold (\<lambda>extension. add (dotted line extension)) (o_extensions options))
        else if overwrites_extensions options line
        then (let base = hd (split_char (CHR ''.'') line) in
              rfold (\<lambda>extension. add (dotted base extension)) (o_extensions options) wordlist)
        else Inr wordlist))"

definition add_file ::
  "file_texts \<Rightarrow> string \<Rightarrow> date \<Rightarrow> wl_options \<Rightarrow> bool \<Rightarrow> string \<Rightarrow> string ordered_set \<Rightarrow>
     string ordered_set result" where
  "add_file fs category_dir today options is_blacklist dict_file wordlist =
     rbind (get_lines fs dict_file) (\<lambda>lines.
       rfold (\<lambda>line. rfold (add_line options is_blacklist)
                (expand_template_line fs category_dir today (o_extensions options) []
                  (lstrip_once line ''/''))) lines wordlist)"

text \<open>The loops over prefixes and suffixes for one path.\<close>

definition add_affixes :: "wl_options \<Rightarrow> string \<Rightarrow> string ordered_set \<Rightarrow> string ordered_set result" where
  "add_affixes options path altered =
     (let add = add_wordlist_entry (o_wordlist_max_size options) in
      rbind
        (rfold (\<lambda>pref altered. if \<not> starts_with_any path [''/'', pref] then add (pref @ path) altered
                              else Inr altered) (o_prefixes options) altered)
        (rfold (\<lambda>suff altered.
            if \<not> ends_with_any path [''/'', suff] \<and> CHR ''?'' \<notin> set path \<and> CHR ''#'' \<notin> set path
            then add (path @ suff) altered else Inr altered) (o_suffixes options)))"

definition case_option :: "wl_options \<Rightarrow> string \<Rightarrow> string" where
  "case_option options =
     (if o_lowercase options then lower
      else if o_uppercase options then upper
      else if o_capitalization options then capitalize
      else (\<lambda>s. s))"

text \<open>\<open>PythonWordlistBackend.generate\<close>.\<close>

definition generate ::
  "file_texts \<Rightarrow> string \<Rightarrow> date \<Rightarrow> wl_options \<Rightarrow> string list \<Rightarrow> bool \<Rightarrow> string list result" where
  "generate fs category_dir today options files is_blacklist =
     rbind (rfold (add_file fs category_dir today options is_blacklist) files \<lparr>data = []\<rparr>) (\<lambda>wordlist.
     rbind (if \<not> is_blacklist
            then rbind (rfold (add_affixes options) (data wordlist) \<lparr>data = []\<rparr>) (\<lambda>altered.
                   Inr (if data altered \<noteq> [] then altered else wordlist))
            else Inr wordlist) (\<lambda>wordlist.
     Inr (map (case_option options) (data wordlist))))"

section \<open>Selecting the backend\<close>

text \<open>The native engine is there or the reason it is not; its generator takes the options.  The
  files it may handle alone have no placeholder but the extension tag.\<close>

record native_engine =
  engine_error :: "string option"
  engine_generate :: "string list \<Rightarrow> wl_options \<Rightarrow> string list result"

definition requires_python_template_expansion :: "file_texts \<Rightarrow> string list \<Rightarrow> bool result" where
  "requires_python_template_expansion fs files =
     rfold (\<lambda>dict_file found.
       if found then Inr True
       else rbind (get_lines fs dict_file) (\<lambda>lines.
         Inr (list_ex (\<lambda>line.
                CHR ''%'' \<in> set line \<and>
                list_ex (\<lambda>token. is_template_token token \<and> upper token \<noteq> extension_token)
                  (re_findall1 token_re line)) lines))) files False"

definition native_generate ::
  "native_engine \<Rightarrow> file_texts \<Rightarrow> string \<Rightarrow> date \<Rightarrow> wl_options \<Rightarrow> string list \<Rightarrow> bool \<Rightarrow>
     string list result" where
  "native_generate engine fs category_dir today options files is_blacklist =
     rbind (if is_blacklist then Inr True else requires_python_template_expansion fs files) (\<lambda>python.
       if python then generate fs category_dir today options files is_blacklist
       else engine_generate engine files options)"

datatype wordlist_backend = PythonBackend | NativeBackend

text \<open>\<open>NativeWordlistBackend.__init__\<close>.\<close>

definition native_backend_init :: "native_engine \<Rightarrow> wordlist_backend result" where
  "native_backend_init engine =
     (case engine_error engine of
        Some e \<Rightarrow> Inl (WordlistBackendUnavailableError e)
      | None \<Rightarrow> Inr NativeBackend)"

definition get_wordlist_backend ::
  "native_engine \<Rightarrow> string \<Rightarrow> string \<Rightarrow> wordlist_backend result" where
  "get_wordlist_backend engine backend request_backend =
     (if backend = ''auto'' \<and> request_backend = ''native''
      then (case native_backend_init engine of
              Inr b \<Rightarrow> Inr b
            | Inl e \<Rightarrow> (case e of WordlistBackendUnavailableError _ \<Rightarrow> Inr PythonBackend | _ \<Rightarrow> Inl e))
      else if backend = ''auto'' \<or> backend = ''python'' then Inr PythonBackend
      else if backend = ''native'' then native_backend_init engine
      else Inl (ValueError (''Unknown wordlist backend: '' @ backend)))"

section \<open>What generation computes\<close>

text \<open>The entries one expanded line gives, and the altered paths of one entry.\<close>

definition line_entries :: "wl_options \<Rightarrow> bool \<Rightarrow> string \<Rightarrow> string list" where
  "line_entries options is_blacklist line =
     (if \<not> is_valid_path options line then []
      else line #
        (if is_blacklist then []
         else if forces_extensions options line
         then (line @ ''/'') # map (dotted line) (o_extensions options)
         else if overwrites_extensions options line
         then map (dotted (hd (split_char (CHR ''.'') line))) (o_extensions options)
         else []))"

definition affix_entries :: "wl_options \<Rightarrow> string \<Rightarrow> string list" where
  "affix_entries options path =
     map (\<lambda>pref. pref @ path) (filter (\<lambda>pref. \<not> starts_with_any path [''/'', pref]) (o_prefixes options)) @
     map (\<lambda>suff. path @ suff)
       (filter (\<lambda>suff. \<not> ends_with_any path [''/'', suff] \<and> CHR ''?'' \<notin> set path \<and> CHR ''#'' \<notin> set path)
         (o_suffixes options))"

definition file_entries ::
  "file_texts \<Rightarrow> string \<Rightarrow> date \<Rightarrow> wl_options \<Rightarrow> bool \<Rightarrow> string \<Rightarrow> string list" where
  "file_entries fs category_dir today options is_blacklist dict_file =
     concat (map (line_entries options is_blacklist)
       (concat (map (\<lambda>line. expand_template_line fs category_dir today (o_extensions options) []
                              (lstrip_once line ''/''))
                (splitlines (the (fs dict_file))))))"

lemma add_line_entries:
  "add_line options b line wl =
     rfold (add_wordlist_entry (o_wordlist_max_size options)) (line_entries options b line) wl"
  by (simp add: add_line_def line_entries_def Let_def rfold_map cong: rbind_cong)

lemma add_affixes_entries:
  "add_affixes options path wl =
     rfold (add_wordlist_entry (o_wordlist_max_size options)) (affix_entries options path) wl"
proof -
  let ?add = "add_wordlist_entry (o_wordlist_max_size options)"
  let ?P = "\<lambda>pref. \<not> starts_with_any path [''/'', pref]"
  let ?S = "\<lambda>suff. \<not> ends_with_any path [''/'', suff] \<and> CHR ''?'' \<notin> set path \<and> CHR ''#'' \<notin> set path"
  have p: "rfold (\<lambda>pref altered. if ?P pref then ?add (pref @ path) altered else Inr altered) xs s =
    rfold ?add (map (\<lambda>pref. pref @ path) (filter ?P xs)) s" for xs s
    by (induction xs arbitrary: s) (simp_all cong: rbind_cong)
  have q: "rfold (\<lambda>suff altered. if ?S suff then ?add (path @ suff) altered else Inr altered) xs s =
    rfold ?add (map (\<lambda>suff. path @ suff) (filter ?S xs)) s" for xs s
    by (induction xs arbitrary: s) (simp_all cong: rbind_cong)
  show ?thesis
    unfolding add_affixes_def affix_entries_def rfold_append Let_def p q ..
qed

lemma add_file_entries:
  assumes "fs f \<noteq> None"
  shows "add_file fs cd today options b f wl =
    rfold (add_wordlist_entry (o_wordlist_max_size options)) (file_entries fs cd today options b f) wl"
  using assms
  by (auto simp: add_file_def get_lines_def file_entries_def rfold_concat rfold_map add_line_entries
      intro!: rfold_cong)

definition limit_error :: "nat \<Rightarrow> exc" where
  "limit_error m = WordlistLimitError (''Generated wordlist exceeded --wordlist-max-size ('' @ show_nat m @ '')'')"

lemma rfold_add_entry:
  assumes "oset_wf wl" and "m = 0 \<or> oset_len wl \<le> m"
  shows "rfold (add_wordlist_entry m) ps wl =
    (if m \<noteq> 0 \<and> m < length (dedup_from (data wl) ps) then Inl (limit_error m)
     else Inr \<lparr>data = dedup_from (data wl) ps\<rparr>)"
  using assms
proof (induction ps arbitrary: wl)
  case Nil
  then show ?case by (auto simp: oset_len_def)
next
  case (Cons p ps)
  have d: "dedup_from (data wl) (p # ps) = dedup_from (data (oset_add p wl)) ps"
    by (simp add: oset_add_def)
  have wf: "oset_wf (oset_add p wl)" using Cons.prems(1) by (rule oset_wf_ops)
  show ?case
  proof (cases "m \<noteq> 0 \<and> m < oset_len (oset_add p wl)")
    case True
    then have "m < length (dedup_from (data (oset_add p wl)) ps)"
      using length_dedup_from_mono [of "data (oset_add p wl)" ps] by (simp add: oset_len_def)
    with True d show ?thesis by (simp add: add_wordlist_entry_def limit_error_def Let_def)
  next
    case False
    then have "m = 0 \<or> oset_len (oset_add p wl) \<le> m" by auto
    from Cons.IH [OF wf this] False d show ?thesis by (auto simp: add_wordlist_entry_def Let_def)
  qed
qed

lemma rfold_add_entry_empty:
  "rfold (add_wordlist_entry m) ps \<lparr>data = []\<rparr> =
    (if m \<noteq> 0 \<and> m < length (dedup_from [] ps) then Inl (limit_error m)
     else Inr \<lparr>data = dedup_from [] ps\<rparr>)"
  using rfold_add_entry [of "\<lparr>data = []\<rparr>" m ps] by (simp add: oset_wf_def oset_len_def)

text \<open>Both stages of the generation, as lists.\<close>

definition base_wordlist ::
  "file_texts \<Rightarrow> string \<Rightarrow> date \<Rightarrow> wl_options \<Rightarrow> string list \<Rightarrow> bool \<Rightarrow> string list" where
  "base_wordlist fs category_dir today options files b =
     dedup_from [] (concat (map (file_entries fs category_dir today options b) files))"

definition altered_wordlist :: "wl_options \<Rightarrow> bool \<Rightarrow> string list \<Rightarrow> string list" where
  "altered_wordlist options b base =
     (if b then [] else dedup_from [] (concat (map (affix_entries options) base)))"

lemma generate_eq:
  assumes "\<forall>f \<in> set files. fs f \<noteq> None"
  shows "generate fs cd today options files b =
    (let base = base_wordlist fs cd today options files b;
         altered = altered_wordlist options b base;
         m = o_wordlist_max_size options
     in if m \<noteq> 0 \<and> (m < length base \<or> m < length altered) then Inl (limit_error m)
        else Inr (map (case_option options) (if altered \<noteq> [] then altered else base)))"
proof -
  let ?m = "o_wordlist_max_size options"
  have "rfold (add_file fs cd today options b) files \<lparr>data = []\<rparr> =
    rfold (add_wordlist_entry ?m) (concat (map (file_entries fs cd today options b) files)) \<lparr>data = []\<rparr>"
    using assms by (auto simp: rfold_concat rfold_map add_file_entries intro!: rfold_cong)
  moreover have "rfold (add_affixes options) xs \<lparr>data = []\<rparr> =
    rfold (add_wordlist_entry ?m) (concat (map (affix_entries options) xs)) \<lparr>data = []\<rparr>" for xs
    by (auto simp: rfold_concat rfold_map add_affixes_entries intro!: rfold_cong)
  ultimately show ?thesis
    by (auto simp: generate_def Let_def rfold_add_entry_empty base_wordlist_def altered_wordlist_def)
qed

lemma add_file_unreadable: "fs f = None \<Longrightarrow> add_file fs cd today options b f wl = Inl (OSError f)"
  by (simp add: add_file_def get_lines_def)

lemma rfold_Inr_files:
  "rfold (add_file fs cd today options b) files wl = Inr wl' \<Longrightarrow> \<forall>f \<in> set files. fs f \<noteq> None"
proof (induction files arbitrary: wl)
  case (Cons f files)
  then show ?case by (cases "fs f") (auto simp: add_file_unreadable rbind_eq_Inr)
qed simp

lemma generate_Inr_files: "generate fs cd today options files b = Inr xs \<Longrightarrow> \<forall>f \<in> set files. fs f \<noteq> None"
  using rfold_Inr_files by (fastforce simp: generate_def rbind_eq_Inr)

section \<open>Expansion and backups\<close>

lemma foldl_tokens:
  "distinct acc \<and> (\<forall>t \<in> set acc. resolve t \<noteq> None) \<Longrightarrow>
     distinct (foldl (add_token resolve) acc ts) \<and>
     (\<forall>t \<in> set (foldl (add_token resolve) acc ts). resolve t \<noteq> None)"
proof (induction ts arbitrary: acc)
  case (Cons t ts)
  have "distinct (add_token resolve acc t) \<and> (\<forall>u \<in> set (add_token resolve acc t). resolve u \<noteq> None)"
    using Cons.prems by (auto simp: add_token_def Let_def)
  from Cons.IH [OF this] show ?case unfolding foldl_Cons .
qed simp

lemma line_tokens_ok:
  "distinct (line_tokens resolve line) \<and> (\<forall>t \<in> set (line_tokens resolve line). resolve t \<noteq> None)"
  unfolding line_tokens_def by (rule foldl_tokens) simp_all

lemma expand_with_eq:
  "expand_with resolve line =
     (if line_tokens resolve line = [] then [line]
      else map (\<lambda>combo. foldl sub_token line (zip (line_tokens resolve line) combo))
             (product_lists (map (\<lambda>t. the (resolve t)) (line_tokens resolve line))))"
proof -
  have none: "\<not> list_ex (\<lambda>e. e = None) (map resolve (line_tokens resolve line))"
    using line_tokens_ok [of resolve line] by (auto simp: list_ex_iff)
  have "[] \<in> set xss \<Longrightarrow> product_lists xss = []" for xss :: "string list list"
    by (induction xss) auto
  then have "list_ex (\<lambda>e. e = []) xss \<Longrightarrow> product_lists xss = []" for xss :: "string list list"
    by (auto simp: list_ex_iff)
  with none show ?thesis by (auto simp: expand_with_def Let_def o_def)
qed

lemma length_expand_with:
  "length (expand_with resolve line) =
     prod_list (map (\<lambda>t. length (the (resolve t))) (line_tokens resolve line))"
proof -
  have "length (product_lists xss) = prod_list (map length xss)" for xss :: "string list list"
    by (induction xss) (auto simp: length_concat o_def sum_list_const_mult sum_list_triv mult.commute)
  then show ?thesis by (simp add: expand_with_eq o_def)
qed

lemma has_extension_dotted: "e \<in> set es \<Longrightarrow> has_extension (dotted b e) es"
proof -
  assume "e \<in> set es"
  moreover have "lower ''.'' = ''.''" by (simp add: char_simps)
  then have "ends_with (lower (dotted b e)) (''.'' @ lower e)"
    by (simp add: dotted_def lower_append ends_with_iff)
       (metis append_Cons append_Nil lower_append)
  ultimately show ?thesis by (auto simp: has_extension_def ends_with_any_def list_ex_iff)
qed

lemma backups_of_extension:
  "has_extension c (media_extensions @ backup_extensions) \<Longrightarrow> generate_backup_paths c = []"
  by (simp add: generate_backup_paths_def split: prod.split)

lemma backups_of_tilde: "generate_backup_paths (c @ ''~'') = []"
proof -
  obtain d s f where r: "rpartition (CHR ''/'') (c @ ''~'') = (d, s, f)" by (metis prod_cases3)
  have "f = [] \<or> last f = CHR ''~''"
  proof (cases "CHR ''/'' \<in> set (c @ ''~'')")
    case True
    then have "c @ ''~'' = d @ ''/'' @ f" using rpartition_found [OF True] r by simp
    then have "f \<noteq> [] \<Longrightarrow> last f = last (c @ ''~'')" by (simp add: last_append)
    then show ?thesis by auto
  next
    case False
    with r show ?thesis by (auto simp: rpartition_def)
  qed
  with r show ?thesis by (auto simp: generate_backup_paths_def char_simps)
qed

lemma backup_forms:
  assumes "c \<in> set (generate_backup_paths path)"
  shows "c = path @ ''~'' \<or> (\<exists>b. \<exists>e \<in> set backup_extensions. c = dotted b e)"
proof -
  have "set archive_extensions \<subseteq> set backup_extensions" by (auto simp: backup_extensions_def)
  with assms show ?thesis
    by (auto simp: generate_backup_paths_def Let_def split: prod.splits if_splits)
qed

lemma backups_not_backed_up:
  assumes "c \<in> set (generate_backup_paths path)"
  shows "generate_backup_paths c = []"
  using backup_forms [OF assms]
proof
  assume "\<exists>b. \<exists>e \<in> set backup_extensions. c = dotted b e"
  then obtain b e where "c = dotted b e" "e \<in> set (media_extensions @ backup_extensions)" by auto
  then show ?thesis by (auto intro!: backups_of_extension has_extension_dotted)
qed (simp add: backups_of_tilde)

lemma distinct_backups: "distinct (generate_backup_paths path)"
  by (auto simp: generate_backup_paths_def distinct_dedup_from split: prod.splits)

section \<open>Properties\<close>

definition demo_options :: wl_options where
  "demo_options =
     \<lparr>o_extensions = [''php''], o_force_extensions = True, o_overwrite_extensions = False,
      o_exclude_extensions = [], o_prefixes = [], o_suffixes = [], o_lowercase = False,
      o_uppercase = False, o_capitalization = False, o_wordlist_max_size = 9\<rparr>"

lemma demo_expand: "expand_template_line fs cd today exts ph ''ab'' = [''ab'']"
  by (simp add: expand_template_line_def expand_with_def line_tokens_def re_findall1_def token_re_def
      find_from.simps match_from_def rx_defs)

lemma demo_generate:
  "generate (\<lambda>_. Some ''ab'') ''/c'' today demo_options [''w''] False = Inr [''ab'', ''ab/'', ''ab.php'']"
  by (simp add: generate_eq base_wordlist_def altered_wordlist_def file_entries_def Let_def
      case_option_def affix_entries_def line_entries_def demo_expand splitlines_def char_simps
      lstrip_once_def starts_with_def is_valid_path_def clean_path_def ends_with_any_def
      ends_with_def forces_extensions_def dotted_def demo_options_def)

text \<open>C3: the wordlist generated from readable files is the de-duplicated list of the entries their
  lines give (expanded, filtered, with forced or overwritten extensions), replaced by its prefixed
  and suffixed variants when there are any, under the case option; it fails with the limit error
  exactly when one of the two lists is longer than the maximum size.\<close>
theorem generate_computes_wordlist:
  assumes "\<forall>f \<in> set files. fs f \<noteq> None"
  shows "generate fs category_dir today options files is_blacklist =
    (let base = base_wordlist fs category_dir today options files is_blacklist;
         altered = altered_wordlist options is_blacklist base;
         m = o_wordlist_max_size options
     in if m \<noteq> 0 \<and> (m < length base \<or> m < length altered) then Inl (limit_error m)
        else Inr (map (case_option options) (if altered \<noteq> [] then altered else base)))"
  using assms by (rule generate_eq)

theorem generate_computes_wordlist_witness:
  "generate (\<lambda>_. Some ''ab'') ''/c'' (2024, 1, 2) demo_options [''w''] False =
    (let base = base_wordlist (\<lambda>_. Some ''ab'') ''/c'' (2024, 1, 2) demo_options [''w''] False;
         altered = altered_wordlist demo_options False base;
         m = o_wordlist_max_size demo_options
     in if m \<noteq> 0 \<and> (m < length base \<or> m < length altered) then Inl (limit_error m)
        else Inr (map (case_option demo_options) (if altered \<noteq> [] then altered else base)))"
  by (rule generate_computes_wordlist) simp

text \<open>A generated wordlist never exceeds the maximum size, and without a case option it has no
  duplicates.\<close>
theorem generate_bounded_distinct:
  assumes "generate fs category_dir today options files is_blacklist = Inr paths"
  shows "(o_wordlist_max_size options = 0 \<or> length paths \<le> o_wordlist_max_size options) \<and>
    (o_lowercase options \<or> o_uppercase options \<or> o_capitalization options \<or> distinct paths)"
proof -
  have d: "distinct (base_wordlist fs category_dir today options files is_blacklist)"
    "distinct (altered_wordlist options is_blacklist xs)" for xs
    by (simp_all add: base_wordlist_def altered_wordlist_def distinct_dedup_from)
  show ?thesis
    using assms d generate_eq [OF generate_Inr_files [OF assms]]
    by (auto simp: Let_def case_option_def split: if_splits)
qed

theorem generate_bounded_distinct_witness:
  "(o_wordlist_max_size demo_options = 0 \<or> length [''ab'', ''ab/'', ''ab.php''] \<le> o_wordlist_max_size demo_options) \<and>
    (o_lowercase demo_options \<or> o_uppercase demo_options \<or> o_capitalization demo_options \<or>
     distinct [''ab'', ''ab/'', ''ab.php''])"
  by (rule generate_bounded_distinct [OF demo_generate [of "(2024, 1, 2)"]])

text \<open>A template line gives one path per combination of the values of its tokens: their number
  is the product of the numbers of values, one for a line without tokens.\<close>
theorem expand_template_counts:
  "length (expand_template_line fs category_dir today extensions placeholders line) =
     (let resolve = resolve_token fs category_dir (placeholder_values today extensions placeholders)
      in prod_list (map (\<lambda>t. length (the (resolve t))) (line_tokens resolve line)))"
  by (simp add: expand_template_line_def length_expand_with Let_def)

text \<open>The backup names of a discovered file are distinct, and none of them has backup names of
  its own, so queueing them never feeds back into itself.\<close>
theorem backup_paths_do_not_recur:
  "distinct (generate_backup_paths path) \<and>
   list_all (\<lambda>c. generate_backup_paths c = []) (generate_backup_paths path)"
  using distinct_backups backups_not_backed_up by (auto simp: list_all_iff)

text \<open>The case options are applied after duplicates were removed, so they can repeat paths.\<close>
theorem lowercase_can_repeat_paths:
  "generate (\<lambda>_. Some [CHR ''A'', CHR 0x0A, CHR ''a'']) ''/c'' (2024, 1, 2)
     (demo_options\<lparr>o_lowercase := True, o_force_extensions := False\<rparr>) [''w''] False = Inr [''a'', ''a'']"
  by (simp add: generate_eq base_wordlist_def altered_wordlist_def file_entries_def Let_def
      case_option_def affix_entries_def line_entries_def splitlines_def char_simps
      lstrip_once_def starts_with_def is_valid_path_def clean_path_def ends_with_any_def
      ends_with_def forces_extensions_def overwrites_extensions_def demo_options_def
      expand_template_line_def expand_with_def line_tokens_def re_findall1_def token_re_def
      find_from.simps match_from_def rx_defs)

end
