(* ===== verification/Fuzzer.thy ===== *)
theory Fuzzer
  imports Scanner Filters Dictionary Wordlist "HOL-Library.AList"
begin

text \<open>
  \<open>lib/core/fuzzer.py\<close>: which responses are excluded (simple filters, advanced matchers and
  filters, auto-calibration, repeated fingerprints), the wildcard scanners that apply to a path,
  and what a worker does with a claimed path.  Parameters: \<open>re.search\<close> on the patterns of
  the user, \<open>hash\<close>, the requester and the callbacks, which act on the fuzzer's state, whose last
  field is the outside world.
\<close>

section \<open>Options and state\<close>

record fuzz_options =
  fo_exclude_status_codes :: "int set"
  fo_include_status_codes :: "int set"
  fo_exclude_sizes :: "int set"
  fo_minimum_response_size :: int
  fo_maximum_response_size :: int
  fo_exclude_texts :: "string list"
  fo_exclude_regex :: string
  fo_exclude_redirect :: string
  fo_match_status_codes :: "int set"
  fo_match_sizes :: "numeric_range list"
  fo_match_words :: "numeric_range list"
  fo_match_lines :: "numeric_range list"
  fo_match_regex :: string
  fo_match_headers :: "string list"
  fo_match_header_regex :: string
  fo_match_time :: "time_filter list"
  fo_matcher_mode :: string
  fo_filter_status_codes :: "int set"
  fo_filter_sizes :: "numeric_range list"
  fo_filter_words :: "numeric_range list"
  fo_filter_lines :: "numeric_range list"
  fo_filter_regex :: string
  fo_filter_headers :: "string list"
  fo_filter_header_regex :: string
  fo_filter_time :: "time_filter list"
  fo_filter_mode :: string
  fo_filter_threshold :: nat
  fo_auto_calibration :: bool
  fo_exclude_response :: string
  fo_prefixes :: "string list"
  fo_suffixes :: "string list"
  fo_extensions :: "string list"
  fo_thread_count :: nat

text \<open>The library functions: searching a pattern, also without regard to case, and \<open>hash\<close>.\<close>

record fuzz_lib =
  fl_search :: "string \<Rightarrow> string \<Rightarrow> bool"
  fl_isearch :: "string \<Rightarrow> string \<Rightarrow> bool"
  fl_hash :: "string \<Rightarrow> int"
  fl_sha256 :: "string \<Rightarrow> string"
  fl_codecs :: codecs

type_synonym fingerprint = "int \<times> string \<times> string \<times> nat \<times> int"

record scanners =
  sn_default :: "(string \<times> scanner) list"
  sn_prefixes :: "(string \<times> scanner) list"
  sn_suffixes :: "(string \<times> scanner) list"

definition tested_of :: "scanners \<Rightarrow> tested" where
  "tested_of sn = [(''default'', map snd (sn_default sn)), (''prefixes'', map snd (sn_prefixes sn)),
                   (''suffixes'', map snd (sn_suffixes sn))]"

record 'w fuzzer =
  fz_base_path :: string
  fz_filter_fingerprints :: "int \<times> string \<Rightarrow> nat option"
  fz_similar_fingerprints :: "fingerprint \<Rightarrow> nat option"
  fz_auto_calibrated :: "fingerprint set"
  fz_scanners :: scanners
  fz_dictionary :: dictionary
  fz_play :: bool
  fz_quit :: bool
  fz_exc :: "exc option"
  fz_world :: 'w

definition new_fuzzer :: "dictionary \<Rightarrow> 'w \<Rightarrow> 'w fuzzer" where
  "new_fuzzer d w =
     \<lparr>fz_base_path = [], fz_filter_fingerprints = (\<lambda>_. None), fz_similar_fingerprints = (\<lambda>_. None),
      fz_auto_calibrated = {},
      fz_scanners = \<lparr>sn_default = [], sn_prefixes = [], sn_suffixes = []\<rparr>,
      fz_dictionary = d, fz_play = False, fz_quit = False, fz_exc = None, fz_world = w\<rparr>"

definition set_base_path :: "string \<Rightarrow> 'w fuzzer \<Rightarrow> 'w fuzzer" where
  "set_base_path path fz = fz\<lparr>fz_base_path := path\<rparr>"

section \<open>Header text\<close>

definition response_headers_text :: "response \<Rightarrow> string" where
  "response_headers_text resp =
     join [CHR 0x0A] (map (\<lambda>name. name @ '': '' @
        (case header_value (r_headers resp) name of Inr v \<Rightarrow> v | Inl _ \<Rightarrow> []))
       (header_names (r_headers resp)))"

definition matches_header_text :: "response \<Rightarrow> string list \<Rightarrow> bool" where
  "matches_header_text resp patterns \<longleftrightarrow>
     (let headers = lower (response_headers_text resp) in
      list_ex (\<lambda>pattern. contains headers (lower pattern)) patterns)"

definition matches_header_regex :: "fuzz_lib \<Rightarrow> response \<Rightarrow> string \<Rightarrow> bool" where
  "matches_header_regex lib resp pattern = fl_isearch lib pattern (response_headers_text resp)"

section \<open>Advanced matchers and filters\<close>

definition combine_advanced_checks :: "bool list \<Rightarrow> string \<Rightarrow> bool \<Rightarrow> bool" where
  "combine_advanced_checks checks mode dflt =
     (if checks = [] then dflt
      else if mode = ''and'' then list_all (\<lambda>b. b) checks
      else list_ex (\<lambda>b. b) checks)"

text \<open>\<open>if option: checks.append(test)\<close>.\<close>

definition check_if :: "bool \<Rightarrow> bool \<Rightarrow> bool list" where
  "check_if given test = (if given then [test] else [])"

definition matcher_checks :: "fuzz_options \<Rightarrow> fuzz_lib \<Rightarrow> response \<Rightarrow> bool list" where
  "matcher_checks opts lib resp =
     check_if (fo_match_status_codes opts \<noteq> {}) (r_status resp \<in> fo_match_status_codes opts) @
     check_if (fo_match_sizes opts \<noteq> []) (matches_numeric_ranges (r_length resp) (fo_match_sizes opts)) @
     check_if (fo_match_words opts \<noteq> [])
       (matches_numeric_ranges (int (r_words (fl_codecs lib) resp)) (fo_match_words opts)) @
     check_if (fo_match_lines opts \<noteq> [])
       (matches_numeric_ranges (int (r_lines (fl_codecs lib) resp)) (fo_match_lines opts)) @
     check_if (fo_match_regex opts \<noteq> []) (fl_search lib (fo_match_regex opts) (r_text (fl_codecs lib) resp)) @
     check_if (fo_match_headers opts \<noteq> []) (matches_header_text resp (fo_match_headers opts)) @
     check_if (fo_match_header_regex opts \<noteq> [])
       (matches_header_regex lib resp (fo_match_header_regex opts)) @
     check_if (fo_match_time opts \<noteq> []) (matches_time_filters (r_elapsed resp) (fo_match_time opts))"

definition matches_advanced_matchers :: "fuzz_options \<Rightarrow> fuzz_lib \<Rightarrow> response \<Rightarrow> bool" where
  "matches_advanced_matchers opts lib resp =
     combine_advanced_checks (matcher_checks opts lib resp) (fo_matcher_mode opts) True"

definition filter_checks :: "fuzz_options \<Rightarrow> fuzz_lib \<Rightarrow> response \<Rightarrow> bool list" where
  "filter_checks opts lib resp =
     check_if (fo_filter_status_codes opts \<noteq> {}) (r_status resp \<in> fo_filter_status_codes opts) @
     check_if (fo_filter_sizes opts \<noteq> []) (matches_numeric_ranges (r_length resp) (fo_filter_sizes opts)) @
     check_if (fo_filter_words opts \<noteq> [])
       (matches_numeric_ranges (int (r_words (fl_codecs lib) resp)) (fo_filter_words opts)) @
     check_if (fo_filter_lines opts \<noteq> [])
       (matches_numeric_ranges (int (r_lines (fl_codecs lib) resp)) (fo_filter_lines opts)) @
     check_if (fo_filter_regex opts \<noteq> []) (fl_search lib (fo_filter_regex opts) (r_text (fl_codecs lib) resp)) @
     check_if (fo_filter_headers opts \<noteq> []) (matches_header_text resp (fo_filter_headers opts)) @
     check_if (fo_filter_header_regex opts \<noteq> [])
       (matches_header_regex lib resp (fo_filter_header_regex opts)) @
     check_if (fo_filter_time opts \<noteq> []) (matches_time_filters (r_elapsed resp) (fo_filter_time opts))"

definition matches_advanced_filters :: "fuzz_options \<Rightarrow> fuzz_lib \<Rightarrow> response \<Rightarrow> bool" where
  "matches_advanced_filters opts lib resp =
     combine_advanced_checks (filter_checks opts lib resp) (fo_filter_mode opts) False"

definition has_advanced_matchers :: "fuzz_options \<Rightarrow> bool" where
  "has_advanced_matchers opts \<longleftrightarrow>
     fo_match_status_codes opts \<noteq> {} \<or> fo_match_sizes opts \<noteq> [] \<or> fo_match_words opts \<noteq> [] \<or>
     fo_match_lines opts \<noteq> [] \<or> fo_match_regex opts \<noteq> [] \<or> fo_match_headers opts \<noteq> [] \<or>
     fo_match_header_regex opts \<noteq> [] \<or> fo_match_time opts \<noteq> []"

section \<open>Auto-calibration and repeated responses\<close>

definition auto_calibration_duplicate_threshold :: nat where "auto_calibration_duplicate_threshold = 8"
definition auto_calibration_forced_threshold :: nat where "auto_calibration_forced_threshold = 3"
definition auto_calibration_min_content_length :: int where "auto_calibration_min_content_length = 32"

definition response_fingerprint :: "fuzz_lib \<Rightarrow> response \<Rightarrow> fingerprint" where
  "response_fingerprint lib resp =
     (let path = strip_char (CHR ''/'') (clean_path (r_full_path resp) False False);
          body = r_normalized_content (fl_codecs lib) resp;
          redirect = clean_path (r_redirect resp) False False;
          body = (if path \<noteq> [] then replace_all body path ''__PATH__'' else body);
          redirect = (if path \<noteq> [] then replace_all redirect path ''__PATH__'' else redirect)
      in (r_status resp, r_type resp, redirect, length body div 64, fl_hash lib (take 4096 body)))"

definition should_record_auto_calibration :: "fuzz_options \<Rightarrow> fuzz_lib \<Rightarrow> response \<Rightarrow> bool" where
  "should_record_auto_calibration opts lib resp =
     (if has_advanced_matchers opts then False
      else if r_length resp < auto_calibration_min_content_length then False
      else if fo_auto_calibration opts then True
      else if 400 \<le> r_status resp \<and> r_status resp \<le> 599 then True
      else
        (let path = strip_char (CHR ''/'') (clean_path (r_full_path resp) False False) in
         if path \<noteq> [] \<and> contains (r_text (fl_codecs lib) resp) path then True
         else r_redirect resp \<noteq> []))"

definition calibration_threshold :: "fuzz_options \<Rightarrow> nat" where
  "calibration_threshold opts =
     (if fo_auto_calibration opts then auto_calibration_forced_threshold
      else auto_calibration_duplicate_threshold)"

definition is_auto_calibrated ::
  "fuzz_options \<Rightarrow> fuzz_lib \<Rightarrow> response \<Rightarrow> 'w fuzzer \<Rightarrow> bool \<times> 'w fuzzer" where
  "is_auto_calibrated opts lib resp fz =
     (let fp = response_fingerprint lib resp in
      if fp \<in> fz_auto_calibrated fz then (True, fz)
      else if \<not> should_record_auto_calibration opts lib resp then (False, fz)
      else
        (let cnt = (case fz_similar_fingerprints fz fp of None \<Rightarrow> 0 | Some n \<Rightarrow> n) + 1;
             fz = fz\<lparr>fz_similar_fingerprints := (fz_similar_fingerprints fz)(fp \<mapsto> cnt)\<rparr>
         in if cnt < calibration_threshold opts then (False, fz)
            else (True, fz\<lparr>fz_auto_calibrated := insert fp (fz_auto_calibrated fz)\<rparr>)))"

definition is_filter_threshold_reached ::
  "fuzz_options \<Rightarrow> fuzz_lib \<Rightarrow> response \<Rightarrow> 'w fuzzer \<Rightarrow> bool \<times> 'w fuzzer" where
  "is_filter_threshold_reached opts lib resp fz =
     (let threshold = fo_filter_threshold opts in
      if threshold = 0 then (False, fz)
      else
        (let fp = filter_fingerprint (fl_sha256 lib) resp;
             cnt = (case fz_filter_fingerprints fz fp of None \<Rightarrow> 0 | Some n \<Rightarrow> n)
         in if threshold \<le> cnt then (True, fz)
            else (False, fz\<lparr>fz_filter_fingerprints := (fz_filter_fingerprints fz)(fp \<mapsto> cnt + 1)\<rparr>)))"

section \<open>Exclusion\<close>

text \<open>\<open>get_blacklists\<close>: the statuses with a readable blacklist and its entries.\<close>

type_synonym blacklists = "(int \<times> string list) list"

definition blacklist_file :: "string \<Rightarrow> int \<Rightarrow> string" where
  "blacklist_file script_path status =
     build_path (build_path script_path ''db'') (show_int status @ ''_blacklist.txt'')"

definition get_blacklists ::
  "file_texts \<Rightarrow> string \<Rightarrow> string \<Rightarrow> date \<Rightarrow> wl_options \<Rightarrow> blacklists result" where
  "get_blacklists fs script_path category_dir today options =
     rfold (\<lambda>status bl.
              let name = blacklist_file script_path status in
              if \<not> can_read fs name then Inr bl
              else rbind (generate fs category_dir today options [name] True) (\<lambda>items.
                     Inr (bl @ [(status, items)])))
       [400, 403, 500] []"

definition blacklisted :: "blacklists \<Rightarrow> response \<Rightarrow> bool" where
  "blacklisted bl resp \<longleftrightarrow>
     (case map_of bl (r_status resp) of
        None \<Rightarrow> False
      | Some items \<Rightarrow> list_ex (\<lambda>entry. ends_with (r_path resp) (lstrip_once entry ''/'')) items)"

text \<open>The tests of \<open>is_excluded\<close> that only look at the response, in their order.\<close>

definition statically_excluded :: "fuzz_options \<Rightarrow> fuzz_lib \<Rightarrow> blacklists \<Rightarrow> response \<Rightarrow> bool" where
  "statically_excluded opts lib bl resp =
     (if r_status resp \<in> fo_exclude_status_codes opts then True
      else if fo_include_status_codes opts \<noteq> {} \<and> r_status resp \<notin> fo_include_status_codes opts then True
      else if blacklisted bl resp then True
      else if r_length resp \<in> fo_exclude_sizes opts then True
      else if r_length resp < fo_minimum_response_size opts then True
      else if fo_maximum_response_size opts < r_length resp \<and> 0 < fo_maximum_response_size opts then True
      else if list_ex (contains (r_content resp)) (fo_exclude_texts opts) then True
      else if fo_exclude_regex opts \<noteq> [] \<and> fl_search lib (fo_exclude_regex opts) (r_content resp) then True
      else if fo_exclude_redirect opts \<noteq> [] \<and>
              (contains (r_redirect resp) (fo_exclude_redirect opts) \<or>
               fl_search lib (fo_exclude_redirect opts) (r_redirect resp)) then True
      else if \<not> matches_advanced_matchers opts lib resp then True
      else matches_advanced_filters opts lib resp)"

definition is_excluded ::
  "fuzz_options \<Rightarrow> fuzz_lib \<Rightarrow> blacklists \<Rightarrow> response \<Rightarrow> 'w fuzzer \<Rightarrow> bool \<times> 'w fuzzer" where
  "is_excluded opts lib bl resp fz =
     (if statically_excluded opts lib bl resp then (True, fz)
      else is_auto_calibrated opts lib resp fz)"

section \<open>Effects\<close>

text \<open>What a fuzzer is given.  A set of strings is walked in the order \<open>fe_set_order\<close> gives it.\<close>

record 'w fuzz_env =
  fe_options :: fuzz_options
  fe_lib :: fuzz_lib
  fe_blacklists :: blacklists
  fe_scan :: "'w scan_env"
  fe_set_order :: "string list \<Rightarrow> string list"
  fe_match_callbacks :: "(response \<Rightarrow> ('w fuzzer, unit) io) list"
  fe_not_found_callbacks :: "(response \<Rightarrow> ('w fuzzer, unit) io) list"
  fe_error_callbacks :: "(exc \<Rightarrow> ('w fuzzer, unit) io) list"
  fe_filtered_chunk_callbacks :: "(nat \<Rightarrow> ('w fuzzer, unit) io) list"

text \<open>An action on the outside world, and a step on the queue.\<close>

definition on_world :: "('w, 'a) io \<Rightarrow> ('w fuzzer, 'a) io" where
  "on_world m fz = (case m (fz_world fz) of (r, w) \<Rightarrow> (r, fz\<lparr>fz_world := w\<rparr>))"

definition on_queue :: "(dictionary \<Rightarrow> 'a result \<times> dictionary) \<Rightarrow> ('w fuzzer, 'a) io" where
  "on_queue m fz = (case m (fz_dictionary fz) of (r, d) \<Rightarrow> (r, fz\<lparr>fz_dictionary := d\<rparr>))"

definition io_finally :: "('w, 'a) io \<Rightarrow> ('w, unit) io \<Rightarrow> ('w, 'a) io" where
  "io_finally m cleanup w =
     (case m w of (r, w') \<Rightarrow>
        (case cleanup w' of (Inl e, w'') \<Rightarrow> (Inl e, w'') | (Inr _, w'') \<Rightarrow> (r, w'')))"

fun run_callbacks :: "('v \<Rightarrow> ('w, unit) io) list \<Rightarrow> 'v \<Rightarrow> ('w, unit) io" where
  "run_callbacks [] v = ret ()"
| "run_callbacks (callback # callbacks) v = io_bind (callback v) (\<lambda>_. run_callbacks callbacks v)"

section \<open>Setting the scanners up\<close>

definition new_scanner :: "'w fuzz_env \<Rightarrow> tested \<Rightarrow> string \<Rightarrow> string \<Rightarrow> ('w fuzzer, scanner) io" where
  "new_scanner env tested path ctx = on_world (scanner_setup (fe_scan env) tested path ctx)"

definition put_default :: "string \<Rightarrow> scanner \<Rightarrow> 'w fuzzer \<Rightarrow> 'w fuzzer" where
  "put_default k s fz = fz\<lparr>fz_scanners := (fz_scanners fz)\<lparr>sn_default := AList.update k s (sn_default (fz_scanners fz))\<rparr>\<rparr>"

definition put_prefix :: "string \<Rightarrow> scanner \<Rightarrow> 'w fuzzer \<Rightarrow> 'w fuzzer" where
  "put_prefix k s fz = fz\<lparr>fz_scanners := (fz_scanners fz)\<lparr>sn_prefixes := AList.update k s (sn_prefixes (fz_scanners fz))\<rparr>\<rparr>"

definition put_suffix :: "string \<Rightarrow> scanner \<Rightarrow> 'w fuzzer \<Rightarrow> 'w fuzzer" where
  "put_suffix k s fz = fz\<lparr>fz_scanners := (fz_scanners fz)\<lparr>sn_suffixes := AList.update k s (sn_suffixes (fz_scanners fz))\<rparr>\<rparr>"

definition modify :: "('s \<Rightarrow> 's) \<Rightarrow> ('s, unit) io" where
  "modify f s = (Inr (), f s)"

definition with_state :: "('s \<Rightarrow> ('s, 'a) io) \<Rightarrow> ('s, 'a) io" where
  "with_state f s = f s s"

definition default_context :: string where "default_context = ''all cases''"

definition setup_default :: "'w fuzz_env \<Rightarrow> ('w fuzzer, unit) io" where
  "setup_default env = with_state (\<lambda>fz.
     io_bind (new_scanner env [] (fz_base_path fz @ wildcard_test_point_marker) default_context) (\<lambda>s.
     modify (put_default ''random'' s)))"

definition setup_custom :: "'w fuzz_env \<Rightarrow> ('w fuzzer, unit) io" where
  "setup_custom env = with_state (\<lambda>fz.
     if fo_exclude_response (fe_options env) = [] then ret ()
     else io_bind (new_scanner env (tested_of (fz_scanners fz)) (fo_exclude_response (fe_options env))
                     default_context) (\<lambda>s.
          modify (put_default ''custom'' s)))"

definition setup_prefix :: "'w fuzz_env \<Rightarrow> string \<Rightarrow> ('w fuzzer, unit) io" where
  "setup_prefix env pref = with_state (\<lambda>fz.
     io_bind (new_scanner env (tested_of (fz_scanners fz))
                (fz_base_path fz @ pref @ wildcard_test_point_marker)
                (''/'' @ fz_base_path fz @ pref @ ''***'')) (\<lambda>s.
     modify (put_prefix pref s)))"

definition setup_suffix :: "'w fuzz_env \<Rightarrow> string \<Rightarrow> ('w fuzzer, unit) io" where
  "setup_suffix env suff = with_state (\<lambda>fz.
     io_bind (new_scanner env (tested_of (fz_scanners fz))
                (fz_base_path fz @ wildcard_test_point_marker @ suff)
                (''/'' @ fz_base_path fz @ ''***'' @ suff)) (\<lambda>s.
     modify (put_suffix suff s)))"

definition setup_extension :: "'w fuzz_env \<Rightarrow> string \<Rightarrow> ('w fuzzer, unit) io" where
  "setup_extension env extension = with_state (\<lambda>fz.
     if ''.'' @ extension \<notin> fst ` set (sn_suffixes (fz_scanners fz))
     then setup_suffix env (''.'' @ extension) else ret ())"

fun each :: "('a \<Rightarrow> ('w, unit) io) \<Rightarrow> 'a list \<Rightarrow> ('w, unit) io" where
  "each f [] = ret ()"
| "each f (x # xs) = io_bind (f x) (\<lambda>_. each f xs)"

definition setup_scanners :: "'w fuzz_env \<Rightarrow> ('w fuzzer, unit) io" where
  "setup_scanners env =
     (let opts = fe_options env in
      io_bind (setup_default env) (\<lambda>_.
      io_bind (setup_custom env) (\<lambda>_.
      io_bind (each (setup_prefix env) (fe_set_order env (fo_prefixes opts @ default_test_prefixes))) (\<lambda>_.
      io_bind (each (setup_suffix env) (fe_set_order env (fo_suffixes opts @ default_test_suffixes))) (\<lambda>_.
      each (setup_extension env) (fo_extensions opts))))))"

text \<open>\<open>AsyncFuzzer.setup_scanners\<close> walks the lists themselves, repetitions included.\<close>

definition async_setup_scanners :: "'w fuzz_env \<Rightarrow> ('w fuzzer, unit) io" where
  "async_setup_scanners env =
     (let opts = fe_options env in
      io_bind (setup_default env) (\<lambda>_.
      io_bind (setup_custom env) (\<lambda>_.
      io_bind (each (setup_prefix env) (fo_prefixes opts @ default_test_prefixes)) (\<lambda>_.
      io_bind (each (setup_suffix env) (fo_suffixes opts @ default_test_suffixes)) (\<lambda>_.
      each (setup_extension env) (fo_extensions opts))))))"

section \<open>Classifying a response\<close>

definition get_scanners_for :: "scanners \<Rightarrow> string \<Rightarrow> scanner list" where
  "get_scanners_for sn path =
     (let path = clean_path path False False in
      map snd (filter (\<lambda>(pref, _). starts_with path pref) (sn_prefixes sn)) @
      map snd (filter (\<lambda>(suff, _). ends_with path suff) (sn_suffixes sn)) @
      map snd (sn_default sn))"

text \<open>Whether the callbacks for matches are chosen.\<close>

definition is_match :: "'w fuzz_env \<Rightarrow> string \<Rightarrow> response \<Rightarrow> 'w fuzzer \<Rightarrow> bool \<times> 'w fuzzer" where
  "is_match env path response fz =
     (let testers = get_scanners_for (fz_scanners fz) path;
          (excluded, fz) = is_excluded (fe_options env) (fe_lib env) (fe_blacklists env) response fz
      in if excluded then (False, fz)
         else if list_ex (\<lambda>tester. \<not> check (fe_scan env) tester path response) testers then (False, fz)
         else
           (let (reached, fz) = is_filter_threshold_reached (fe_options env) (fe_lib env) response fz
            in (\<not> reached, fz)))"

definition response_callbacks ::
  "'w fuzz_env \<Rightarrow> string \<Rightarrow> response \<Rightarrow> 'w fuzzer \<Rightarrow> (response \<Rightarrow> ('w fuzzer, unit) io) list \<times> 'w fuzzer" where
  "response_callbacks env path response fz =
     (case is_match env path response fz of
        (hit, fz) \<Rightarrow> (if hit then fe_match_callbacks env else fe_not_found_callbacks env, fz))"

definition process_response :: "'w fuzz_env \<Rightarrow> string \<Rightarrow> response \<Rightarrow> ('w fuzzer, unit) io" where
  "process_response env path response fz =
     (case response_callbacks env path response fz of (callbacks, fz) \<Rightarrow> run_callbacks callbacks response fz)"

definition scan :: "'w fuzz_env \<Rightarrow> string \<Rightarrow> ('w fuzzer, unit) io" where
  "scan env path fz =
     (case on_world (e_request (fe_scan env) path) fz of
        (Inl (RequestException m), fz) \<Rightarrow> run_callbacks (fe_error_callbacks env) (RequestException m) fz
      | (Inl e, fz) \<Rightarrow> (Inl e, fz)
      | (Inr response, fz) \<Rightarrow> process_response env path response fz)"

text \<open>\<open>AsyncFuzzer.scan\<close>: callbacks that are coroutines are awaited.\<close>

definition async_scan :: "'w fuzz_env \<Rightarrow> string \<Rightarrow> ('w fuzzer, unit) io" where
  "async_scan env path = scan env path"

section \<open>How often a response is reported\<close>

text \<open>The classification of a sequence of responses; each response is classified under the locks, so
  the workers' classifications form such a sequence.\<close>

fun reported :: "'w fuzz_env \<Rightarrow> (string \<times> response) list \<Rightarrow> 'w fuzzer \<Rightarrow> response list" where
  "reported env [] fz = []"
| "reported env ((path, resp) # others) fz =
     (case is_match env path resp fz of
        (m, fz') \<Rightarrow> (if m then [resp] else []) @ reported env others fz')"

definition seen :: "('k \<Rightarrow> nat option) \<Rightarrow> 'k \<Rightarrow> nat" where
  "seen m k = (case m k of None \<Rightarrow> 0 | Some n \<Rightarrow> n)"

lemma seen_upd [simp]: "seen (m(k \<mapsto> n)) k' = (if k' = k then n else seen m k')"
  by (simp add: seen_def)

lemma auto_calibrated_frame [simp]:
  "fz_filter_fingerprints (snd (is_auto_calibrated opts lib resp fz)) = fz_filter_fingerprints fz"
  "fz_scanners (snd (is_auto_calibrated opts lib resp fz)) = fz_scanners fz"
  by (auto simp: is_auto_calibrated_def Let_def)

lemma excluded_frame [simp]:
  "fz_filter_fingerprints (snd (is_excluded opts lib bl resp fz)) = fz_filter_fingerprints fz"
  "fz_scanners (snd (is_excluded opts lib bl resp fz)) = fz_scanners fz"
  by (auto simp: is_excluded_def)

lemma threshold_frame [simp]:
  "fz_similar_fingerprints (snd (is_filter_threshold_reached opts lib resp fz)) = fz_similar_fingerprints fz"
  "fz_auto_calibrated (snd (is_filter_threshold_reached opts lib resp fz)) = fz_auto_calibrated fz"
  "fz_scanners (snd (is_filter_threshold_reached opts lib resp fz)) = fz_scanners fz"
  by (auto simp: is_filter_threshold_reached_def Let_def)

lemma threshold_counts:
  assumes "fo_filter_threshold opts = Suc k"
  shows "is_filter_threshold_reached opts lib resp fz =
    (let fp = filter_fingerprint (fl_sha256 lib) resp; n = seen (fz_filter_fingerprints fz) fp in
     if k < n then (True, fz)
     else (False, fz\<lparr>fz_filter_fingerprints := (fz_filter_fingerprints fz)(fp \<mapsto> n + 1)\<rparr>))"
  using assms by (auto simp: is_filter_threshold_reached_def seen_def Let_def)

lemma is_match_unfold:
  "is_match env path resp fz =
     (let ex = is_excluded (fe_options env) (fe_lib env) (fe_blacklists env) resp fz in
      if fst ex \<or> list_ex (\<lambda>tester. \<not> check (fe_scan env) tester path resp) (get_scanners_for (fz_scanners fz) path)
      then (False, snd ex)
      else (case is_filter_threshold_reached (fe_options env) (fe_lib env) resp (snd ex) of
              (reached, fz') \<Rightarrow> (\<not> reached, fz')))"
  by (auto simp: is_match_def Let_def split: prod.splits)

lemma is_match_threshold:
  assumes "fo_filter_threshold (fe_options env) = Suc k" and "is_match env path resp fz = (m, fz')"
  defines "fp \<equiv> filter_fingerprint (fl_sha256 (fe_lib env)) resp"
  shows "if m then seen (fz_filter_fingerprints fz) fp \<le> k \<and>
       fz_filter_fingerprints fz' = (fz_filter_fingerprints fz)(fp \<mapsto> seen (fz_filter_fingerprints fz) fp + 1)
     else fz_filter_fingerprints fz' = fz_filter_fingerprints fz"
  using assms(2) unfolding fp_def
  by (auto simp: is_match_unfold Let_def threshold_counts [OF assms(1)] split: if_splits)

lemma reported_threshold:
  assumes "fo_filter_threshold (fe_options env) = Suc k"
  shows "length (filter (\<lambda>r. filter_fingerprint (fl_sha256 (fe_lib env)) r = fp) (reported env rs fz)) \<le>
    Suc k - seen (fz_filter_fingerprints fz) fp"
proof (induction rs arbitrary: fz)
  case (Cons pr rs)
  obtain path resp where pr: "pr = (path, resp)" by fastforce
  obtain m fz' where m: "is_match env path resp fz = (m, fz')" by fastforce
  from is_match_threshold [OF assms m] Cons.IH [of fz'] show ?case
    by (cases m) (auto simp: pr m seen_def split: if_splits)
qed simp

text \<open>How many more responses of a fingerprint auto-calibration lets through.\<close>

definition calibration_room :: "fuzz_options \<Rightarrow> 'w fuzzer \<Rightarrow> fingerprint \<Rightarrow> nat" where
  "calibration_room opts fz fp =
     (if fp \<in> fz_auto_calibrated fz then 0
      else calibration_threshold opts - 1 - seen (fz_similar_fingerprints fz) fp)"

lemma threshold_room [simp]:
  "calibration_room opts (snd (is_filter_threshold_reached opts' lib resp fz)) fp = calibration_room opts fz fp"
  by (simp add: calibration_room_def)

lemma auto_calibrated_room:
  assumes "is_auto_calibrated opts lib resp fz = (c, fz')"
  shows "calibration_room opts fz' fp \<le> calibration_room opts fz fp"
    and "fp = response_fingerprint lib resp \<Longrightarrow> should_record_auto_calibration opts lib resp \<Longrightarrow> \<not> c \<Longrightarrow>
      calibration_room opts fz' fp < calibration_room opts fz fp"
  using assms by (auto simp: is_auto_calibrated_def calibration_room_def seen_def Let_def split: if_splits)

lemma is_match_room:
  assumes "is_match env path resp fz = (m, fz')"
  shows "calibration_room (fe_options env) fz' fp \<le> calibration_room (fe_options env) fz fp"
    and "fp = response_fingerprint (fe_lib env) resp \<Longrightarrow>
      should_record_auto_calibration (fe_options env) (fe_lib env) resp \<Longrightarrow> m \<Longrightarrow>
      calibration_room (fe_options env) fz' fp < calibration_room (fe_options env) fz fp"
proof -
  let ?o = "fe_options env" and ?l = "fe_lib env"
  obtain c f1 where c: "is_auto_calibrated ?o ?l resp fz = (c, f1)" by fastforce
  have eq: "if statically_excluded ?o ?l (fe_blacklists env) resp then fz' = fz \<and> \<not> m
    else if c then fz' = f1 \<and> \<not> m
    else fz' = f1 \<or> fz' = snd (is_filter_threshold_reached ?o ?l resp f1)"
    using assms c by (auto simp: is_match_unfold is_excluded_def Let_def split: if_splits prod.splits)
  show "calibration_room ?o fz' fp \<le> calibration_room ?o fz fp"
    using eq auto_calibrated_room(1) [OF c, of fp] by (auto split: if_splits)
  show "calibration_room ?o fz' fp < calibration_room ?o fz fp"
    if "fp = response_fingerprint ?l resp" "should_record_auto_calibration ?o ?l resp" m
    using eq auto_calibrated_room(2) [OF c that(1,2)] that by (auto split: if_splits)
qed

lemma reported_calibration:
  assumes "\<forall>r \<in> set (map snd rs). response_fingerprint (fe_lib env) r = fp \<longrightarrow>
    should_record_auto_calibration (fe_options env) (fe_lib env) r"
  shows "length (filter (\<lambda>r. response_fingerprint (fe_lib env) r = fp) (reported env rs fz)) \<le>
    calibration_room (fe_options env) fz fp"
  using assms
proof (induction rs arbitrary: fz)
  case (Cons pr rs)
  obtain path resp where pr: "pr = (path, resp)" by fastforce
  obtain m fz' where m: "is_match env path resp fz = (m, fz')" by fastforce
  from is_match_room [OF m, of fp] Cons.IH [of fz'] Cons.prems show ?case
    by (cases m) (auto simp: pr m)
qed simp

text \<open>A configuration without filters, one worker and at most one report per fingerprint.\<close>

definition demo_options :: fuzz_options where
  "demo_options =
     \<lparr>fo_exclude_status_codes = {}, fo_include_status_codes = {}, fo_exclude_sizes = {},
     fo_minimum_response_size = 0, fo_maximum_response_size = 0, fo_exclude_texts = [],
     fo_exclude_regex = [], fo_exclude_redirect = [], fo_match_status_codes = {}, fo_match_sizes
     = [], fo_match_words = [], fo_match_lines = [], fo_match_regex = [], fo_match_headers = [],
     fo_match_header_regex = [], fo_match_time = [], fo_matcher_mode = ''or'',
     fo_filter_status_codes = {}, fo_filter_sizes = [], fo_filter_words = [], fo_filter_lines =
     [], fo_filter_regex = [], fo_filter_headers = [], fo_filter_header_regex = [],
     fo_filter_time = [], fo_filter_mode = ''or'', fo_filter_threshold = 1, fo_auto_calibration
     = True, fo_exclude_response = [], fo_prefixes = [], fo_suffixes = [], fo_extensions = [],
     fo_thread_count = 1\<rparr>"

definition demo_lib :: fuzz_lib where
  "demo_lib = \<lparr>fl_search = (\<lambda>_ _. False), fl_isearch = (\<lambda>_ _. False), fl_hash = (\<lambda>s. int (length s)),
     fl_sha256 = (\<lambda>s. s), fl_codecs = demo_codecs\<rparr>"

definition demo_fuzz :: "string list fuzz_env" where
  "demo_fuzz = \<lparr>fe_options = demo_options, fe_lib = demo_lib, fe_blacklists = [], fe_scan = demo_env,
     fe_set_order = remdups, fe_match_callbacks = [], fe_not_found_callbacks = [],
     fe_error_callbacks = [], fe_filtered_chunk_callbacks = []\<rparr>"

definition demo_response :: response where
  "demo_response = base_response 1 ''http://e.com/a'' 200 [(''Content-Length'', ''40'')] 0 [] None"

section \<open>Properties of the classification\<close>

text \<open>With a filter threshold, in any sequence of responses at most that many with the same filter
  fingerprint are reported.\<close>
theorem reports_per_fingerprint_bounded:
  assumes "fo_filter_threshold (fe_options env) \<noteq> 0"
  shows "length (filter (\<lambda>r. filter_fingerprint (fl_sha256 (fe_lib env)) r = fp) (reported env rs fz)) \<le>
    fo_filter_threshold (fe_options env)"
proof -
  obtain k where k: "fo_filter_threshold (fe_options env) = Suc k" using assms by (cases "fo_filter_threshold (fe_options env)") auto
  from reported_threshold [OF k, where fp = fp and rs = rs and fz = fz] k show ?thesis by linarith
qed

theorem reports_per_fingerprint_bounded_witness:
  "length (filter (\<lambda>r. filter_fingerprint (fl_sha256 demo_lib) r = (200, []))
     (reported demo_fuzz [(''a'', demo_response), (''a'', demo_response)] (new_fuzzer (dict_init [] False) []))) \<le> 1"
  using reports_per_fingerprint_bounded [of demo_fuzz "(200, [])"
      "[(''a'', demo_response), (''a'', demo_response)]" "new_fuzzer (dict_init [] False) []"]
  by (simp add: demo_fuzz_def demo_options_def)

text \<open>C10: auto-calibration stops a flood of similar responses: of the responses with one calibration
  fingerprint, all worth recording, at most 7 are reported, and at most 2 when it is forced.\<close>
theorem auto_calibration_stops_floods:
  assumes "\<forall>r \<in> set (map snd rs). response_fingerprint (fe_lib env) r = fp \<longrightarrow>
    should_record_auto_calibration (fe_options env) (fe_lib env) r"
  shows "length (filter (\<lambda>r. response_fingerprint (fe_lib env) r = fp) (reported env rs fz)) \<le>
    (if fo_auto_calibration (fe_options env) then 2 else 7)"
  using reported_calibration [OF assms, of fz]
  by (simp add: calibration_room_def calibration_threshold_def auto_calibration_forced_threshold_def
      auto_calibration_duplicate_threshold_def split: if_splits)

theorem auto_calibration_stops_floods_witness:
  "length (filter (\<lambda>r. response_fingerprint demo_lib r = response_fingerprint demo_lib demo_response)
     (reported demo_fuzz (replicate 5 (''a'', demo_response)) (new_fuzzer (dict_init [] False) []))) \<le> 2"
proof -
  have "r_length demo_response = 40" by code_simp
  then have "should_record_auto_calibration demo_options demo_lib demo_response"
    by (simp add: should_record_auto_calibration_def has_advanced_matchers_def demo_options_def
        auto_calibration_min_content_length_def)
  then show ?thesis
    using auto_calibration_stops_floods [of "replicate 5 (''a'', demo_response)" demo_fuzz
        "response_fingerprint demo_lib demo_response" "new_fuzzer (dict_init [] False) []"]
    by (simp add: demo_fuzz_def demo_options_def)
qed

text \<open>A response that no filter excludes, that every applicable scanner finds unique and whose
  fingerprints are new is reported.\<close>
theorem new_unique_response_is_reported:
  assumes "\<not> statically_excluded (fe_options env) (fe_lib env) (fe_blacklists env) resp"
    and "\<forall>tester \<in> set (get_scanners_for (fz_scanners fz) path). check (fe_scan env) tester path resp"
    and "response_fingerprint (fe_lib env) resp \<notin> fz_auto_calibrated fz"
    and "fz_similar_fingerprints fz (response_fingerprint (fe_lib env) resp) = None"
    and "fz_filter_fingerprints fz (filter_fingerprint (fl_sha256 (fe_lib env)) resp) = None"
  shows "fst (response_callbacks env path resp fz) = fe_match_callbacks env"
proof -
  have "\<not> fst (is_auto_calibrated (fe_options env) (fe_lib env) resp fz)"
    using assms(3,4) by (auto simp: is_auto_calibrated_def Let_def calibration_threshold_def
        auto_calibration_forced_threshold_def auto_calibration_duplicate_threshold_def)
  then have ex: "\<not> fst (is_excluded (fe_options env) (fe_lib env) (fe_blacklists env) resp fz)"
    using assms(1) by (simp add: is_excluded_def)
  have "\<not> fst (is_filter_threshold_reached (fe_options env) (fe_lib env) resp
      (snd (is_excluded (fe_options env) (fe_lib env) (fe_blacklists env) resp fz)))"
    using assms(5) by (auto simp: is_filter_threshold_reached_def Let_def)
  then have "fst (is_match env path resp fz)"
    using ex assms(2) by (auto simp: is_match_unfold Let_def list_ex_iff split: prod.splits)
  then show ?thesis by (auto simp: response_callbacks_def split: prod.splits)
qed

theorem new_unique_response_is_reported_witness:
  "fst (response_callbacks demo_fuzz ''a'' demo_response (new_fuzzer (dict_init [] False) [])) =
     fe_match_callbacks demo_fuzz"
proof (rule new_unique_response_is_reported)
  show "\<not> statically_excluded (fe_options demo_fuzz) (fe_lib demo_fuzz) (fe_blacklists demo_fuzz) demo_response"
    by code_simp
qed (simp_all add: new_fuzzer_def get_scanners_for_def)

end
