(* ===== verification/Workers.thy ===== *)
theory Workers
  imports Fuzzer
begin

text \<open>
  The threads of \<open>lib/core/fuzzer.py\<close>: workers that claim a path, request it, classify the
  response, run callbacks and release the claim, with the play and quit events, the pause
  semaphore and the first exception, and the controlling thread that pauses, resumes and quits.
  Their interleavings are a step relation; a step is one operation under a lock, one request,
  one classification or one callback.  \<open>thread_proc\<close> without other threads is a function.
\<close>

section \<open>One worker\<close>

text \<open>\<open>except Exception\<close> does not catch the exceptions that are only \<open>BaseException\<close>.\<close>

definition is_exception :: "exc \<Rightarrow> bool" where
  "is_exception e \<longleftrightarrow> (case e of SystemExit _ \<Rightarrow> False | KeyboardInterrupt \<Rightarrow> False | _ \<Rightarrow> True)"

definition stop_with_exception :: "exc \<Rightarrow> 'w fuzzer \<Rightarrow> 'w fuzzer" where
  "stop_with_exception e fz =
     fz\<lparr>fz_exc := (if fz_exc fz = None then Some e else fz_exc fz), fz_quit := True, fz_play := True\<rparr>"

definition play :: "'w fuzzer \<Rightarrow> 'w fuzzer" where
  "play fz = fz\<lparr>fz_play := True\<rparr>"

definition quit :: "'w fuzzer \<Rightarrow> 'w fuzzer" where
  "quit fz = play (fz\<lparr>fz_quit := True\<rparr>)"

text \<open>What ends the body of the loop: go on, or leave after the \<open>finally\<close> part.\<close>

definition leaves :: "unit result \<Rightarrow> bool" where
  "leaves r \<longleftrightarrow> (case r of Inl e \<Rightarrow> e = StopIteration \<or> \<not> is_exception e | Inr _ \<Rightarrow> False)"

definition handle :: "unit result \<Rightarrow> 'w fuzzer \<Rightarrow> 'w fuzzer" where
  "handle r fz =
     (case r of
        Inl e \<Rightarrow> if e \<noteq> StopIteration \<and> is_exception e then stop_with_exception e fz else fz
      | Inr _ \<Rightarrow> fz)"

text \<open>The body of the \<open>try\<close>: claim, scan, and release whatever happens.\<close>

definition claim_and_scan :: "'w fuzz_env \<Rightarrow> ('w fuzzer, unit) io" where
  "claim_and_scan env =
     io_bind (on_queue claim_next) (\<lambda>path.
       io_finally (with_state (\<lambda>fz. scan env (fz_base_path fz @ path)))
         (on_queue (release_claim path)))"

text \<open>\<open>thread_proc\<close> while no other thread runs, for at most \<open>n\<close> rounds: \<open>None\<close> when the rounds do not
  suffice or when the worker is paused, since nobody resumes it.\<close>

fun thread_proc :: "nat \<Rightarrow> 'w fuzz_env \<Rightarrow> 'w fuzzer \<Rightarrow> 'w fuzzer option" where
  "thread_proc 0 env fz = None"
| "thread_proc (Suc n) env fz =
     (case claim_and_scan env fz of
        (r, fz) \<Rightarrow>
          let fz = handle r fz in
          if \<not> fz_play fz then None
          else if leaves r \<or> fz_quit fz then Some fz
          else thread_proc n env fz)"

text \<open>\<open>AsyncFuzzer.task_proc\<close>: the exception of a scan ends the task.\<close>

fun task_proc :: "nat \<Rightarrow> 'w fuzz_env \<Rightarrow> 'w fuzzer \<Rightarrow> (unit result \<times> 'w fuzzer) option" where
  "task_proc 0 env fz = None"
| "task_proc (Suc n) env fz =
     (if \<not> fz_play fz then None
      else (case on_queue claim_next fz of
              (Inl StopIteration, fz) \<Rightarrow> Some (Inr (), fz)
            | (Inl e, fz) \<Rightarrow> Some (Inl e, fz)
            | (Inr path, fz) \<Rightarrow>
                (case io_finally (async_scan env (fz_base_path fz @ path)) (on_queue (release_claim path)) fz of
                   (Inl e, fz) \<Rightarrow> Some (Inl e, fz)
                 | (Inr _, fz) \<Rightarrow> task_proc n env fz)))"

section \<open>All threads\<close>

text \<open>A worker is at the top of the loop, holds a claim before its request, after it, or after the
  classification with the callbacks still to run, ends the round, waits in a pause, or is done.\<close>

datatype 'w worker =
    Ready
  | Holding string
  | Answered string response
  | Unfiltered string response
  | Reporting string "('w fuzzer, unit) io list"
  | Ending bool
  | Waiting bool
  | Leaving bool
  | Done

text \<open>The controlling thread runs, waits in \<open>pause\<close> for the workers still to acknowledge, or knows
  whether all did.\<close>

datatype main_thread = Running | Pausing "nat list" | Paused bool

record 'w threads =
  th_workers :: "'w worker list"
  th_fuzzer :: "'w fuzzer"
  th_permits :: nat
  th_main :: main_thread

definition set_worker :: "nat \<Rightarrow> 'w worker \<Rightarrow> 'w fuzzer \<Rightarrow> 'w threads \<Rightarrow> 'w threads" where
  "set_worker i wk fz t = t\<lparr>th_workers := (th_workers t)[i := wk], th_fuzzer := fz\<rparr>"

definition start_threads :: "nat \<Rightarrow> 'w fuzzer \<Rightarrow> 'w threads" where
  "start_threads n fz =
     \<lparr>th_workers = replicate n Ready, th_fuzzer = (play fz)\<lparr>fz_quit := False\<rparr>, th_permits = 0,
      th_main = Running\<rparr>"

text \<open>The end of a scan: the claim is released, an exception recorded.\<close>

definition end_scan :: "string \<Rightarrow> unit result \<Rightarrow> 'w fuzzer \<Rightarrow> 'w worker \<times> 'w fuzzer" where
  "end_scan path r fz =
     (case io_finally (\<lambda>fz. (r, fz)) (on_queue (release_claim path)) fz of
        (r, fz) \<Rightarrow> (Ending (leaves r), handle r fz))"

definition answer :: "'w fuzz_env \<Rightarrow> string \<Rightarrow> response result \<Rightarrow> 'w fuzzer \<Rightarrow> 'w worker \<times> 'w fuzzer" where
  "answer env path r fz =
     (case r of
        Inr resp \<Rightarrow> (Answered path resp, fz)
      | Inl (RequestException m) \<Rightarrow>
          (Reporting path (map (\<lambda>cb. cb (RequestException m)) (fe_error_callbacks env)), fz)
      | Inl e \<Rightarrow> end_scan path (Inl e) fz)"

definition calls :: "(response \<Rightarrow> ('w fuzzer, unit) io) list \<Rightarrow> response \<Rightarrow> ('w fuzzer, unit) io list" where
  "calls cbs resp = map (\<lambda>cb. cb resp) cbs"

text \<open>The step of a worker that is not blocked, from what it is and the shared state.\<close>

fun worker_step :: "'w fuzz_env \<Rightarrow> 'w worker \<Rightarrow> 'w fuzzer \<Rightarrow> 'w worker \<times> 'w fuzzer" where
  "worker_step env Ready fz =
     (case on_queue claim_next fz of
        (Inr path, fz) \<Rightarrow> (Holding path, fz)
      | (Inl e, fz) \<Rightarrow> (Ending (leaves (Inl e)), handle (Inl e) fz))"
| "worker_step env (Holding path) fz =
     (case on_world (e_request (fe_scan env) (fz_base_path fz @ path)) fz of (r, fz) \<Rightarrow> answer env path r fz)"
| "worker_step env (Answered path resp) fz =
     (case is_excluded (fe_options env) (fe_lib env) (fe_blacklists env) resp fz of
        (excluded, fz) \<Rightarrow>
          if excluded \<or> list_ex (\<lambda>tester. \<not> check (fe_scan env) tester (fz_base_path fz @ path) resp)
                          (get_scanners_for (fz_scanners fz) (fz_base_path fz @ path))
          then (Reporting path (calls (fe_not_found_callbacks env) resp), fz)
          else (Unfiltered path resp, fz))"
| "worker_step env (Unfiltered path resp) fz =
     (case is_filter_threshold_reached (fe_options env) (fe_lib env) resp fz of
        (reached, fz) \<Rightarrow>
          (Reporting path (calls (if reached then fe_not_found_callbacks env else fe_match_callbacks env) resp), fz))"
| "worker_step env (Reporting path []) fz = end_scan path (Inr ()) fz"
| "worker_step env (Reporting path (cb # cbs)) fz =
     (case cb fz of
        (Inl e, fz) \<Rightarrow> end_scan path (Inl e) fz
      | (Inr _, fz) \<Rightarrow> (Reporting path cbs, fz))"
| "worker_step env (Leaving b) fz = (if b \<or> fz_quit fz then Done else Ready, fz)"
| "worker_step env wk fz = (wk, fz)"

definition is_done :: "'w worker \<Rightarrow> bool" where
  "is_done wk \<longleftrightarrow> (case wk of Done \<Rightarrow> True | _ \<Rightarrow> False)"

definition busy :: "'w worker \<Rightarrow> bool" where
  "busy wk \<longleftrightarrow> (case wk of Ending _ \<Rightarrow> False | Waiting _ \<Rightarrow> False | Done \<Rightarrow> False | _ \<Rightarrow> True)"

inductive thread_step :: "'w fuzz_env \<Rightarrow> 'w threads \<Rightarrow> 'w threads \<Rightarrow> bool" for env where
  work: "i < length (th_workers t) \<Longrightarrow> busy (th_workers t ! i) \<Longrightarrow>
      worker_step env (th_workers t ! i) (th_fuzzer t) = (wk, fz) \<Longrightarrow>
      thread_step env t (set_worker i wk fz t)"
| pass: "i < length (th_workers t) \<Longrightarrow> th_workers t ! i = Ending b \<Longrightarrow> fz_play (th_fuzzer t) \<Longrightarrow>
      thread_step env t (set_worker i (Leaving b) (th_fuzzer t) t)"
| acknowledge: "i < length (th_workers t) \<Longrightarrow> th_workers t ! i = Ending b \<Longrightarrow> \<not> fz_play (th_fuzzer t) \<Longrightarrow>
      thread_step env t ((set_worker i (Waiting b) (th_fuzzer t) t)\<lparr>th_permits := th_permits t + 1\<rparr>)"
| resume: "i < length (th_workers t) \<Longrightarrow> th_workers t ! i = Waiting b \<Longrightarrow> fz_play (th_fuzzer t) \<Longrightarrow>
      thread_step env t (set_worker i (Leaving b) (th_fuzzer t) t)"
| pause: "th_main t = Running \<Longrightarrow>
      thread_step env t (t\<lparr>th_fuzzer := (th_fuzzer t)\<lparr>fz_play := False\<rparr>,
                           th_main := Pausing [0..<length (th_workers t)]\<rparr>)"
| pause_acquire: "th_main t = Pausing (i # is) \<Longrightarrow> \<not> is_done (th_workers t ! i) \<Longrightarrow> 0 < th_permits t \<Longrightarrow>
      thread_step env t (t\<lparr>th_permits := th_permits t - 1, th_main := Pausing is\<rparr>)"
| pause_skip: "th_main t = Pausing (i # is) \<Longrightarrow> is_done (th_workers t ! i) \<Longrightarrow>
      thread_step env t (t\<lparr>th_main := Pausing is\<rparr>)"
| pause_timeout: "th_main t = Pausing (i # is) \<Longrightarrow> \<not> is_done (th_workers t ! i) \<Longrightarrow> th_permits t = 0 \<Longrightarrow>
      thread_step env t (t\<lparr>th_main := Paused False\<rparr>)"
| pause_done: "th_main t = Pausing [] \<Longrightarrow> thread_step env t (t\<lparr>th_main := Paused True\<rparr>)"
| main_play: "th_main t = Paused b \<Longrightarrow>
      thread_step env t (t\<lparr>th_fuzzer := play (th_fuzzer t), th_main := Running\<rparr>)"
| main_quit: "thread_step env t (t\<lparr>th_fuzzer := quit (th_fuzzer t)\<rparr>)"

inductive_cases thread_stepE: "thread_step env t t'"

text \<open>\<open>is_finished\<close>: no thread is alive; the recorded exception is raised.\<close>

definition is_finished :: "'w threads \<Rightarrow> bool result" where
  "is_finished t =
     (if list_ex (\<lambda>wk. \<not> is_done wk) (th_workers t) then Inr False
      else (case fz_exc (th_fuzzer t) of Some e \<Rightarrow> Inl e | None \<Rightarrow> Inr True))"

section \<open>Claims are held by workers\<close>

fun held :: "'w worker \<Rightarrow> string list" where
  "held (Holding path) = [path]"
| "held (Answered path resp) = [path]"
| "held (Unfiltered path resp) = [path]"
| "held (Reporting path cbs) = [path]"
| "held wk = []"

text \<open>A worker that has seen the empty queue leaves the loop.\<close>

fun committed :: "'w worker \<Rightarrow> bool" where
  "committed (Ending b) = b"
| "committed (Waiting b) = b"
| "committed (Leaving b) = b"
| "committed Done = True"
| "committed wk = False"

text \<open>What a callback may do to the shared state: queue discovered paths, and whatever it likes to the
  outside world; it does not end the thread with an exception of the interpreter.\<close>

definition safe_to :: "(string \<Rightarrow> bool) \<Rightarrow> 'w fuzzer \<Rightarrow> unit result \<times> 'w fuzzer \<Rightarrow> bool" where
  "safe_to valid fz res \<longleftrightarrow>
     \<not> leaves (fst res) \<and>
     (\<exists>paths. fz_dictionary (snd res) = fold (add_extra valid) paths (fz_dictionary fz)) \<and>
     fz_play (snd res) = fz_play fz \<and> fz_quit (snd res) = fz_quit fz"

definition queue_safe :: "(string \<Rightarrow> bool) \<Rightarrow> ('w fuzzer, unit) io \<Rightarrow> bool" where
  "queue_safe valid m \<longleftrightarrow> (\<forall>fz. safe_to valid fz (m fz))"

lemma safe_to_trans:
  assumes "safe_to valid fz (r, f)" and "safe_to valid f res"
  shows "safe_to valid fz res"
proof -
  obtain ps qs where "fz_dictionary f = fold (add_extra valid) ps (fz_dictionary fz)"
    and "fz_dictionary (snd res) = fold (add_extra valid) qs (fz_dictionary f)"
    using assms by (auto simp: safe_to_def)
  then have "fz_dictionary (snd res) = fold (add_extra valid) (ps @ qs) (fz_dictionary fz)" by simp
  with assms show ?thesis unfolding safe_to_def by (metis snd_conv)
qed

lemma safe_to_same:
  "fz_dictionary f = fz_dictionary fz \<Longrightarrow> fz_play f = fz_play fz \<Longrightarrow> fz_quit f = fz_quit fz \<Longrightarrow>
     \<not> leaves r \<Longrightarrow> safe_to valid fz (r, f)"
  by (auto simp: safe_to_def intro!: exI [of _ "[]"])

definition callbacks_safe :: "(string \<Rightarrow> bool) \<Rightarrow> 'w fuzz_env \<Rightarrow> bool" where
  "callbacks_safe valid env \<longleftrightarrow>
     (\<forall>cb \<in> set (fe_match_callbacks env) \<union> set (fe_not_found_callbacks env). \<forall>resp. queue_safe valid (cb resp)) \<and>
     (\<forall>cb \<in> set (fe_error_callbacks env). \<forall>e. queue_safe valid (cb e)) \<and>
     (\<forall>path w e. fst (e_request (fe_scan env) path w) = Inl e \<longrightarrow> \<not> leaves (Inl e))"

fun worker_ok :: "(string \<Rightarrow> bool) \<Rightarrow> 'w worker \<Rightarrow> bool" where
  "worker_ok valid (Reporting path cbs) = (\<forall>cb \<in> set cbs. queue_safe valid cb)"
| "worker_ok valid wk = True"

lemma add_extra_claimed [simp]: "d_claimed (add_extra valid path d) = d_claimed d"
  by (simp add: add_extra_def Let_def)

lemma fold_add_extra_claimed [simp]: "d_claimed (fold (add_extra valid) paths d) = d_claimed d"
  by (induction paths arbitrary: d) simp_all

lemma handle_frame [simp]: "fz_dictionary (handle r fz) = fz_dictionary fz"
  by (simp add: handle_def stop_with_exception_def split: sum.split)

lemma handle_quit: "fz_quit fz \<Longrightarrow> fz_quit (handle r fz)"
  by (simp add: handle_def stop_with_exception_def split: sum.split)

lemma release_claim_held:
  "path \<in> set (d_claimed d) \<Longrightarrow> release_claim path d = (Inr (), d\<lparr>d_claimed := remove1 path (d_claimed d)\<rparr>)"
  by (simp add: release_claim_def list_remove_def)

lemma end_scan_held:
  assumes "path \<in> set (d_claimed (fz_dictionary fz))"
  shows "end_scan path r fz =
    (Ending (leaves r),
     handle r (fz\<lparr>fz_dictionary := (fz_dictionary fz)\<lparr>d_claimed := remove1 path (d_claimed (fz_dictionary fz))\<rparr>\<rparr>))"
  using assms by (simp add: end_scan_def io_finally_def on_queue_def release_claim_held)

lemma dict_pending_empty:
  "claim_next d = (Inl e, d') \<Longrightarrow> d' = d \<and> e = StopIteration \<and> dict_pending d = []"
  by (auto simp: claim_next_def dict_pending_def Let_def split: if_splits)

lemma claim_next_claims:
  "claim_next d = (Inr path, d') \<Longrightarrow> d_claimed d' = d_claimed d @ [path]"
  by (auto simp: claim_next_def Let_def split: if_splits)

text \<open>The effect of a step of one worker on the claims, the queue and the quit event.\<close>

definition step_keeps :: "(string \<Rightarrow> bool) \<Rightarrow> 'w worker \<Rightarrow> 'w fuzzer \<Rightarrow> 'w worker \<Rightarrow> 'w fuzzer \<Rightarrow> bool" where
  "step_keeps valid wk fz wk' fz' \<longleftrightarrow>
     worker_ok valid wk' \<and>
     mset (d_claimed (fz_dictionary fz')) + mset (held wk) = mset (d_claimed (fz_dictionary fz)) + mset (held wk') \<and>
     (fz_quit fz \<longrightarrow> fz_quit fz') \<and>
     (committed wk' \<longrightarrow> fz_quit fz' \<or> dict_pending (fz_dictionary fz') = [] \<or>
        committed wk \<and> dict_pending (fz_dictionary fz') = dict_pending (fz_dictionary fz))"

lemma end_scan_keeps:
  assumes "path \<in> set (d_claimed (fz_dictionary fz))" and "held wk = [path]" and "\<not> leaves r"
    and "end_scan path r fz = (wk', fz')"
    and "d_claimed (fz_dictionary fz) = d_claimed (fz_dictionary fz0)" and "fz_quit fz0 \<longrightarrow> fz_quit fz"
  shows "step_keeps valid wk fz0 wk' fz'"
proof -
  from assms have wk': "wk' = Ending False"
    and fz': "fz' = handle r (fz\<lparr>fz_dictionary := (fz_dictionary fz)\<lparr>d_claimed := remove1 path (d_claimed (fz_dictionary fz))\<rparr>\<rparr>)"
    by (simp_all add: end_scan_held)
  have "fz_quit fz0 \<longrightarrow> fz_quit fz'" using assms(6) by (simp add: fz' handle_quit)
  with assms show ?thesis by (simp add: step_keeps_def wk' fz')
qed

lemma safe_effect:
  assumes "queue_safe valid m" and "m fz = (r, fz')"
  shows "\<not> leaves r" and "d_claimed (fz_dictionary fz') = d_claimed (fz_dictionary fz)"
    and "fz_quit fz' = fz_quit fz" and "fz_play fz' = fz_play fz"
proof -
  from assms have "safe_to valid fz (r, fz')" unfolding queue_safe_def by metis
  then show "\<not> leaves r" "d_claimed (fz_dictionary fz') = d_claimed (fz_dictionary fz)"
    "fz_quit fz' = fz_quit fz" "fz_play fz' = fz_play fz"
    by (auto simp: safe_to_def)
qed

lemma on_world_frame:
  "on_world m fz = (r, fz') \<Longrightarrow> fz_dictionary fz' = fz_dictionary fz \<and> fz_quit fz' = fz_quit fz \<and>
     fz_play fz' = fz_play fz \<and> r = fst (m (fz_world fz))"
  by (auto simp: on_world_def split: prod.splits)

lemma classification_frame [simp]:
  "fz_dictionary (snd (is_excluded opts lib bl resp fz)) = fz_dictionary fz"
  "fz_quit (snd (is_excluded opts lib bl resp fz)) = fz_quit fz"
  "fz_play (snd (is_excluded opts lib bl resp fz)) = fz_play fz"
  "fz_dictionary (snd (is_filter_threshold_reached opts lib resp fz)) = fz_dictionary fz"
  "fz_quit (snd (is_filter_threshold_reached opts lib resp fz)) = fz_quit fz"
  "fz_play (snd (is_filter_threshold_reached opts lib resp fz)) = fz_play fz"
  by (auto simp: is_excluded_def is_auto_calibrated_def is_filter_threshold_reached_def Let_def)

lemma answer_keeps:
  assumes "callbacks_safe valid env" and "path \<in> set (d_claimed (fz_dictionary fz))"
    and "on_world (e_request (fe_scan env) p) fz = (r, f1)" and "answer env path r f1 = (wk', fz')"
  shows "step_keeps valid (Holding path) fz wk' fz'"
proof (cases r)
  case (Inl e)
  have fr: "fz_dictionary f1 = fz_dictionary fz" "fz_quit f1 = fz_quit fz"
    and "r = fst (e_request (fe_scan env) p (fz_world fz))"
    using on_world_frame [OF assms(3)] by simp_all
  with Inl assms(1) have nl: "\<not> leaves (Inl e)" by (metis callbacks_safe_def)
  have safe: "worker_ok valid (Reporting path (map (\<lambda>cb. cb x) (fe_error_callbacks env)))" for x
    using assms(1) by (auto simp: callbacks_safe_def)
  show ?thesis
  proof (cases "\<exists>m. e = RequestException m")
    case True
    then obtain m where m: "e = RequestException m" by blast
    with Inl assms(4) have "wk' = Reporting path (map (\<lambda>cb. cb (RequestException m)) (fe_error_callbacks env))" "fz' = f1"
      by (simp_all add: answer_def)
    with fr safe show ?thesis by (simp add: step_keeps_def)
  next
    case False
    with Inl assms(4) have "end_scan path (Inl e) f1 = (wk', fz')"
      by (cases e) (simp_all add: answer_def)
    from end_scan_keeps [OF _ _ nl this] assms(2) fr show ?thesis by simp
  qed
next
  case (Inr resp)
  with assms(4) have "wk' = Answered path resp" "fz' = f1" by (simp_all add: answer_def)
  with on_world_frame [OF assms(3)] show ?thesis by (simp add: step_keeps_def)
qed

lemma worker_step_keeps:
  assumes "callbacks_safe valid env" and "worker_ok valid wk" and "busy wk"
    and "set (held wk) \<subseteq> set (d_claimed (fz_dictionary fz))"
    and "worker_step env wk fz = (wk', fz')"
  shows "step_keeps valid wk fz wk' fz'"
proof (cases wk)
  case Ready
  show ?thesis
  proof (cases "claim_next (fz_dictionary fz)")
    case (Pair r d)
    with assms(5) Ready dict_pending_empty [of "fz_dictionary fz"] claim_next_claims [of "fz_dictionary fz"]
    show ?thesis
      by (cases r) (auto simp: on_queue_def step_keeps_def leaves_def handle_quit)
  qed
next
  case (Holding path)
  obtain r f1 where "on_world (e_request (fe_scan env) (fz_base_path fz @ path)) fz = (r, f1)" by fastforce
  with answer_keeps [OF assms(1) _ this] assms(4,5) Holding show ?thesis by simp
next
  case (Answered path resp)
  have ok: "worker_ok valid (Reporting path (calls (fe_not_found_callbacks env) resp))"
    using assms(1) by (auto simp: callbacks_safe_def calls_def)
  obtain x f1 where x: "is_excluded (fe_options env) (fe_lib env) (fe_blacklists env) resp fz = (x, f1)"
    by fastforce
  with classification_frame(1,2) [of "fe_options env" "fe_lib env" "fe_blacklists env" resp fz]
  have "fz_dictionary f1 = fz_dictionary fz" "fz_quit f1 = fz_quit fz" by simp_all
  with ok x Answered assms(5) show ?thesis by (auto simp: step_keeps_def split: if_splits)
next
  case (Unfiltered path resp)
  have ok: "worker_ok valid (Reporting path (calls (if b then fe_not_found_callbacks env else fe_match_callbacks env) resp))" for b
    using assms(1) by (auto simp: callbacks_safe_def calls_def)
  obtain x f1 where x: "is_filter_threshold_reached (fe_options env) (fe_lib env) resp fz = (x, f1)"
    by fastforce
  with classification_frame(4,5) [of "fe_options env" "fe_lib env" resp fz]
  have "fz_dictionary f1 = fz_dictionary fz" "fz_quit f1 = fz_quit fz" by simp_all
  with ok [of x] x Unfiltered assms(5) show ?thesis by (auto simp: step_keeps_def)
next
  case (Reporting path cbs)
  have path: "path \<in> set (d_claimed (fz_dictionary fz))" using assms(4) Reporting by simp
  show ?thesis
  proof (cases cbs)
    case Nil
    with Reporting assms(5) have "end_scan path (Inr ()) fz = (wk', fz')" by simp
    from end_scan_keeps [OF path _ _ this] Reporting show ?thesis by (simp add: leaves_def)
  next
    case (Cons cb cbs')
    obtain r f1 where r: "cb fz = (r, f1)" by fastforce
    have safe: "queue_safe valid cb" and ok: "worker_ok valid (Reporting path cbs')"
      using assms(2) Reporting Cons by auto
    note eff = safe_effect [OF safe r]
    show ?thesis
    proof (cases r)
      case (Inl e)
      with Reporting Cons r assms(5) have "end_scan path (Inl e) f1 = (wk', fz')" by simp
      from end_scan_keeps [OF _ _ _ this] path eff Inl Reporting show ?thesis by simp
    next
      case (Inr u)
      with Reporting Cons r assms(5) eff ok show ?thesis by (auto simp: step_keeps_def)
    qed
  qed
qed (use assms in \<open>auto simp: busy_def step_keeps_def\<close>)

section \<open>Invariants of all interleavings\<close>

definition all_held :: "'w worker list \<Rightarrow> string multiset" where
  "all_held ws = \<Sum>\<^sub># (image_mset (\<lambda>wk. mset (held wk)) (mset ws))"

lemma all_held_update:
  "i < length ws \<Longrightarrow> all_held (ws[i := wk]) + mset (held (ws ! i)) = all_held ws + mset (held wk)"
  by (simp add: all_held_def mset_update image_mset_Diff sum_mset.remove [of "mset (held (ws ! i))"]
      union_ac)

definition claims_inv :: "(string \<Rightarrow> bool) \<Rightarrow> 'w threads \<Rightarrow> bool" where
  "claims_inv valid t \<longleftrightarrow>
     mset (d_claimed (fz_dictionary (th_fuzzer t))) = all_held (th_workers t) \<and>
     (\<forall>wk \<in> set (th_workers t). worker_ok valid wk)"

definition work_inv :: "'w threads \<Rightarrow> bool" where
  "work_inv t \<longleftrightarrow>
     fz_quit (th_fuzzer t) \<or> dict_pending (fz_dictionary (th_fuzzer t)) = [] \<or>
     (\<exists>wk \<in> set (th_workers t). \<not> committed wk)"

text \<open>Replacing worker \<open>i\<close>, where the step keeps what it must.\<close>

lemma set_worker_inv:
  assumes "claims_inv valid t" and i: "i < length (th_workers t)"
    and k: "step_keeps valid (th_workers t ! i) (th_fuzzer t) wk fz"
  shows "claims_inv valid (set_worker i wk fz t)"
proof -
  have "mset (d_claimed (fz_dictionary fz)) + mset (held (th_workers t ! i)) =
      all_held ((th_workers t)[i := wk]) + mset (held (th_workers t ! i))"
    using assms(1) k all_held_update [OF i, of wk] by (simp add: claims_inv_def step_keeps_def)
  moreover have "\<forall>x \<in> set ((th_workers t)[i := wk]). worker_ok valid x"
    using assms(1) k set_update_subset_insert [of "th_workers t" i wk]
    by (auto simp: claims_inv_def step_keeps_def)
  ultimately show ?thesis by (simp add: claims_inv_def set_worker_def)
qed

lemma set_worker_work:
  assumes w: "work_inv t" and i: "i < length (th_workers t)"
    and k: "step_keeps valid (th_workers t ! i) (th_fuzzer t) wk fz"
  shows "work_inv (set_worker i wk fz t)"
proof (cases "committed wk")
  case False
  with i show ?thesis by (auto simp: work_inv_def set_worker_def intro!: bexI [of _ wk] set_update_memI)
next
  case True
  with k consider "fz_quit fz \<or> dict_pending (fz_dictionary fz) = []"
    | "committed (th_workers t ! i)" "dict_pending (fz_dictionary fz) = dict_pending (fz_dictionary (th_fuzzer t))"
    by (auto simp: step_keeps_def)
  then show ?thesis
  proof cases
    case 1
    then show ?thesis by (auto simp: work_inv_def set_worker_def)
  next
    case 2
    have "\<exists>x \<in> set ((th_workers t)[i := wk]). \<not> committed x"
      if x: "x \<in> set (th_workers t)" "\<not> committed x" for x
    proof -
      obtain j where "j < length (th_workers t)" "th_workers t ! j = x" using x(1) by (auto simp: in_set_conv_nth)
      moreover have "i \<noteq> j" using x(2) 2(1) calculation by auto
      ultimately have "(th_workers t)[i := wk] ! j = x" "j < length ((th_workers t)[i := wk])" by simp_all
      then show ?thesis using x(2) by (metis nth_mem)
    qed
    with w 2(2) k show ?thesis by (auto simp: work_inv_def set_worker_def step_keeps_def)
  qed
qed

lemma held_claimed:
  assumes "claims_inv valid t" and i: "i < length (th_workers t)"
  shows "set (held (th_workers t ! i)) \<subseteq> set (d_claimed (fz_dictionary (th_fuzzer t)))"
proof -
  have "mset (held (th_workers t ! i)) \<in># image_mset (\<lambda>wk. mset (held wk)) (mset (th_workers t))"
    using i by simp
  then have "mset (held (th_workers t ! i)) \<subseteq># all_held (th_workers t)"
    unfolding all_held_def by (simp add: sum_mset.remove)
  with assms(1) have "mset (held (th_workers t ! i)) \<subseteq># mset (d_claimed (fz_dictionary (th_fuzzer t)))"
    by (simp add: claims_inv_def)
  then show ?thesis by (metis set_mset_mono set_mset_mset)
qed

lemma passive_keeps:
  "held wk' = [] \<Longrightarrow> held wk = [] \<Longrightarrow> committed wk' = committed wk \<Longrightarrow> worker_ok valid wk' \<Longrightarrow>
     step_keeps valid wk fz wk' fz"
  by (simp add: step_keeps_def)

lemma main_fields [simp]:
  "claims_inv valid (t\<lparr>th_main := m\<rparr>) = claims_inv valid t" "work_inv (t\<lparr>th_main := m\<rparr>) = work_inv t"
  "claims_inv valid (t\<lparr>th_permits := n\<rparr>) = claims_inv valid t" "work_inv (t\<lparr>th_permits := n\<rparr>) = work_inv t"
  by (simp_all add: claims_inv_def work_inv_def)

lemma claims_inv_step:
  assumes "thread_step env t t'" and "callbacks_safe valid env" and "claims_inv valid t"
  shows "claims_inv valid t' \<and> (work_inv t \<longrightarrow> work_inv t')"
  using assms(1)
proof cases
  case (work i wk fz)
  have "worker_ok valid (th_workers t ! i)" using work(2) assms(3) by (simp add: claims_inv_def)
  from worker_step_keeps [OF assms(2) this work(3) held_claimed [OF assms(3) work(2)] work(4)]
  show ?thesis using work set_worker_inv [OF assms(3)] set_worker_work by blast
next
  case (pass i b)
  have "step_keeps valid (th_workers t ! i) (th_fuzzer t) (Leaving b) (th_fuzzer t)"
    by (rule passive_keeps) (simp_all add: pass)
  then show ?thesis using pass set_worker_inv [OF assms(3)] set_worker_work by blast
next
  case (acknowledge i b)
  have "step_keeps valid (th_workers t ! i) (th_fuzzer t) (Waiting b) (th_fuzzer t)"
    by (rule passive_keeps) (simp_all add: acknowledge)
  then show ?thesis using acknowledge set_worker_inv [OF assms(3)] set_worker_work by (metis main_fields(3,4))
next
  case (resume i b)
  have "step_keeps valid (th_workers t ! i) (th_fuzzer t) (Leaving b) (th_fuzzer t)"
    by (rule passive_keeps) (simp_all add: resume)
  then show ?thesis using resume set_worker_inv [OF assms(3)] set_worker_work by blast
qed (use assms(3) in \<open>auto simp: claims_inv_def work_inv_def play_def quit_def\<close>)

lemma reachable_inv:
  assumes "(thread_step env)\<^sup>*\<^sup>* t t'" and "callbacks_safe valid env" and "claims_inv valid t" and "work_inv t"
  shows "claims_inv valid t' \<and> work_inv t'"
  using assms by (induction rule: rtranclp_induct) (auto dest: claims_inv_step)

lemma start_inv:
  assumes "d_claimed (fz_dictionary fz) = []" and "0 < n"
  shows "claims_inv valid (start_threads n fz) \<and> work_inv (start_threads n fz)"
  using assms by (auto simp: claims_inv_def work_inv_def start_threads_def all_held_def play_def)

lemma all_done_held: "\<forall>wk \<in> set ws. is_done wk \<Longrightarrow> all_held ws = {#} \<and> (\<forall>wk \<in> set ws. committed wk)"
  by (induction ws) (auto simp: all_held_def is_done_def split: worker.splits)

section \<open>Pausing\<close>

definition acknowledged :: "'w worker list \<Rightarrow> nat" where
  "acknowledged ws = card {i. i < length ws \<and> (\<exists>b. ws ! i = Waiting b)}"

definition finished_below :: "nat \<Rightarrow> 'w worker list \<Rightarrow> nat" where
  "finished_below k ws = card {i. i < k \<and> i < length ws \<and> is_done (ws ! i)}"

text \<open>While \<open>pause\<close> has visited \<open>k\<close> workers: every visit took a permit or found a finished thread.\<close>

definition pause_count :: "nat \<Rightarrow> 'w threads \<Rightarrow> bool" where
  "pause_count k t \<longleftrightarrow>
     k \<le> length (th_workers t) \<and>
     th_permits t + k \<le> acknowledged (th_workers t) + finished_below k (th_workers t)"

definition pause_inv :: "'w threads \<Rightarrow> bool" where
  "pause_inv t \<longleftrightarrow>
     fz_play (th_fuzzer t) \<or>
     (\<exists>k. th_main t = Pausing [k..<length (th_workers t)] \<and> pause_count k t) \<or>
     th_main t = Paused False \<or>
     th_main t = Paused True \<and> pause_count (length (th_workers t)) t"

lemma acknowledged_update:
  assumes "i < length ws" and "\<not> (\<exists>b. ws ! i = Waiting b)"
  shows "acknowledged (ws[i := wk]) = acknowledged ws + (if \<exists>b. wk = Waiting b then 1 else 0)"
proof -
  have "{j. j < length (ws[i := wk]) \<and> (\<exists>b. ws[i := wk] ! j = Waiting b)} =
    (if \<exists>b. wk = Waiting b then insert i {j. j < length ws \<and> (\<exists>b. ws ! j = Waiting b)}
     else {j. j < length ws \<and> (\<exists>b. ws ! j = Waiting b)})"
    using assms by (auto simp: nth_list_update split: if_splits)
  then show ?thesis using assms(2) by (simp add: acknowledged_def)
qed

lemma finished_update:
  assumes "\<not> is_done (ws ! i)"
  shows "finished_below k ws \<le> finished_below k (ws[i := wk])"
proof -
  have "is_done (ws[i := wk] ! j)" if "is_done (ws ! j)" for j
    using that assms by (cases "i = j") simp_all
  then show ?thesis unfolding finished_below_def by (intro card_mono) auto
qed

lemma finished_below_Suc:
  assumes "i < length ws" and "is_done (ws ! i)"
  shows "finished_below (Suc i) ws = finished_below i ws + 1"
proof -
  have "{j. j < Suc i \<and> j < length ws \<and> is_done (ws ! j)} = insert i {j. j < i \<and> j < length ws \<and> is_done (ws ! j)}"
    using assms by (auto simp: less_Suc_eq)
  then show ?thesis by (simp add: finished_below_def)
qed

lemma finished_below_mono: "finished_below i ws \<le> finished_below (Suc i) ws"
  unfolding finished_below_def by (rule card_mono) auto

lemma pause_count_update:
  assumes "pause_count k t" and "i < length (th_workers t)" and "\<not> is_done (th_workers t ! i)"
    and "\<not> (\<exists>b. th_workers t ! i = Waiting b)"
  shows "pause_count k (set_worker i wk fz t)"
    and "\<exists>b. wk = Waiting b \<Longrightarrow> pause_count k ((set_worker i wk fz t)\<lparr>th_permits := th_permits t + 1\<rparr>)"
  using assms(1) acknowledged_update [OF assms(2,4), of wk] finished_update [OF assms(3), of k wk]
  by (auto simp: pause_count_def set_worker_def split: if_splits)

lemma pause_inv_update:
  assumes "pause_inv t" and "i < length (th_workers t)" and "\<not> is_done (th_workers t ! i)"
    and "\<not> (\<exists>b. th_workers t ! i = Waiting b)" and "fz_play (th_fuzzer t) \<longrightarrow> fz_play fz"
  shows "pause_inv (set_worker i wk fz t)"
    and "\<exists>b. wk = Waiting b \<Longrightarrow> pause_inv ((set_worker i wk fz t)\<lparr>th_permits := th_permits t + 1\<rparr>)"
  using assms(1,5) pause_count_update [OF _ assms(2-4)]
  by (auto simp: pause_inv_def set_worker_def)

text \<open>A step while the controlling thread is inside \<open>pause\<close> or before \<open>play\<close>.\<close>

definition pausing_step :: "'w fuzz_env \<Rightarrow> 'w threads \<Rightarrow> 'w threads \<Rightarrow> bool" where
  "pausing_step env t t' \<longleftrightarrow> thread_step env t t' \<and> th_main t \<noteq> Running"

lemma worker_step_play:
  assumes "callbacks_safe valid env" and "worker_ok valid wk" and "worker_step env wk fz = (wk', fz')"
    and "fz_play fz"
  shows "fz_play fz'"
proof -
  have handle: "fz_play f \<Longrightarrow> fz_play (handle r f)" for f :: "'a fuzzer" and r
    by (simp add: handle_def stop_with_exception_def split: sum.split)
  have ends: "fz_play f \<Longrightarrow> fz_play (snd (end_scan path r f))" for f :: "'a fuzzer" and r path
    by (auto simp: end_scan_def io_finally_def on_queue_def handle split: prod.splits sum.splits)
  show ?thesis
  proof (cases wk)
    case Ready
    with assms show ?thesis by (auto simp: on_queue_def handle split: prod.splits sum.splits)
  next
    case (Holding path)
    obtain r f1 where r: "on_world (e_request (fe_scan env) (fz_base_path fz @ path)) fz = (r, f1)" by fastforce
    with on_world_frame [OF r] assms(4) have "fz_play f1" by simp
    with ends [of f1 path] have "fz_play (snd (answer env path r f1))"
      by (auto simp: answer_def split: sum.splits exc.splits)
    with r Holding assms(3) show ?thesis by simp
  next
    case (Answered path resp)
    obtain x f1 where x: "is_excluded (fe_options env) (fe_lib env) (fe_blacklists env) resp fz = (x, f1)"
      by fastforce
    with classification_frame(3) [of "fe_options env" "fe_lib env" "fe_blacklists env" resp fz] assms(4)
    have "fz_play f1" by simp
    with x Answered assms(3) show ?thesis by (auto split: if_splits)
  next
    case (Unfiltered path resp)
    obtain x f1 where x: "is_filter_threshold_reached (fe_options env) (fe_lib env) resp fz = (x, f1)"
      by fastforce
    with classification_frame(6) [of "fe_options env" "fe_lib env" resp fz] assms(4)
    have "fz_play f1" by simp
    with x Unfiltered assms(3) show ?thesis by auto
  next
    case (Reporting path cbs)
    show ?thesis
    proof (cases cbs)
      case Nil
      with Reporting assms(3,4) ends [of fz path "Inr ()"] show ?thesis by simp
    next
      case (Cons cb cbs')
      obtain r f1 where r: "cb fz = (r, f1)" by fastforce
      have "queue_safe valid cb" using assms(2) Reporting Cons by simp
      from safe_effect(4) [OF this r] assms(4) have "fz_play f1" by simp
      show ?thesis
      proof (cases r)
        case (Inl e)
        with Reporting Cons r assms(3) have "end_scan path (Inl e) f1 = (wk', fz')" by simp
        with ends [OF \<open>fz_play f1\<close>, of path "Inl e"] show ?thesis by simp
      next
        case (Inr u)
        with Reporting Cons r assms(3) \<open>fz_play f1\<close> show ?thesis by simp
      qed
    qed
  qed (use assms in auto)
qed

lemma upt_head: "i # is = [k..<n] \<Longrightarrow> i = k \<and> is = [Suc k..<n] \<and> k < n"
  by (cases "k < n") (simp_all add: upt_conv_Cons)

lemma pause_inv_step:
  assumes "pausing_step env t t'" and "callbacks_safe valid env" and "claims_inv valid t" and "pause_inv t"
  shows "pause_inv t'"
proof -
  from assms(1) have step: "thread_step env t t'" and nr: "th_main t \<noteq> Running" by (simp_all add: pausing_step_def)
  have visit: "fz_play (th_fuzzer t) \<or>
      is = [Suc i..<length (th_workers t)] \<and> pause_count i t \<and> i < length (th_workers t)"
    if "th_main t = Pausing (i # is)" for i "is"
    using assms(4) that upt_head [of i "is"] by (auto simp: pause_inv_def)
  have count_all: "pause_count k t \<Longrightarrow> [] = [k..<length (th_workers t)] \<Longrightarrow>
      pause_count (length (th_workers t)) t" for k
    using upt_eq_Nil_conv [of k "length (th_workers t)"] le_antisym [of k "length (th_workers t)"]
    by (auto simp: pause_count_def eq_commute [of "[]"])
  from step show ?thesis
  proof cases
    case (work i wk fz)
    have "worker_ok valid (th_workers t ! i)" using work(2) assms(3) by (simp add: claims_inv_def)
    from worker_step_play [OF assms(2) this work(4)]
    have "fz_play (th_fuzzer t) \<longrightarrow> fz_play fz" by blast
    with work assms(4) show ?thesis
      by (auto simp: busy_def is_done_def intro!: pause_inv_update(1) split: worker.splits)
  next
    case (pass i b)
    with assms(4) show ?thesis by (auto simp: is_done_def intro!: pause_inv_update(1))
  next
    case (acknowledge i b)
    from pause_inv_update(2) [OF assms(4) acknowledge(2), of "th_fuzzer t" "Waiting b"] acknowledge
    show ?thesis by (simp add: is_done_def)
  next
    case (pause_acquire i "is")
    from visit [OF pause_acquire(2)] have "fz_play (th_fuzzer t) \<or>
        (is = [Suc i..<length (th_workers t)] \<and> pause_count i t \<and> i < length (th_workers t))" .
    with pause_acquire finished_below_mono [of i "th_workers t"] show ?thesis
      by (auto simp: pause_inv_def pause_count_def)
  next
    case (pause_skip i "is")
    from visit [OF pause_skip(2)] have "fz_play (th_fuzzer t) \<or>
        (is = [Suc i..<length (th_workers t)] \<and> pause_count i t \<and> i < length (th_workers t))" .
    with pause_skip finished_below_Suc [of i "th_workers t"] show ?thesis
      by (auto simp: pause_inv_def pause_count_def)
  next
    case pause_done
    with assms(4) count_all show ?thesis by (auto simp: pause_inv_def pause_count_def)
  qed (use assms(4) nr in \<open>auto simp: pause_inv_def play_def quit_def set_worker_def pause_count_def\<close>)
qed

lemma pausing_keeps:
  assumes "(pausing_step env)\<^sup>*\<^sup>* t t'" and "callbacks_safe valid env" and "claims_inv valid t" and "pause_inv t"
  shows "claims_inv valid t' \<and> pause_inv t'"
  using assms
proof (induction rule: rtranclp_induct)
  case (step u v)
  then have "thread_step env u v" by (simp add: pausing_step_def)
  with step pause_inv_step [OF step.hyps(2)] claims_inv_step show ?case by blast
qed simp

lemma all_counted:
  assumes "pause_count (length (th_workers t)) t" and "wk \<in> set (th_workers t)"
  shows "is_done wk \<or> (\<exists>b. wk = Waiting b)"
proof (rule ccontr)
  assume n: "\<not> ?thesis"
  let ?ws = "th_workers t"
  let ?W = "{i. i < length ?ws \<and> (\<exists>b. ?ws ! i = Waiting b)}" and ?D = "{i. i < length ?ws \<and> is_done (?ws ! i)}"
  obtain i where i: "i < length ?ws" "?ws ! i = wk" using assms(2) by (auto simp: in_set_conv_nth)
  have "?W \<inter> ?D = {}" by (auto simp: is_done_def)
  then have "card ?W + card ?D = card (?W \<union> ?D)" by (simp add: card_Un_disjoint)
  also have "\<dots> \<le> card ({..<length ?ws} - {i})" using n i by (intro card_mono) auto
  also have "\<dots> < length ?ws" using i by simp
  finally show False
    using assms(1) by (simp add: pause_count_def acknowledged_def finished_below_def)
qed

section \<open>A worker alone\<close>

text \<open>The work there can still be: what is pending and what callbacks may still discover.\<close>

definition work_bound :: "(string \<Rightarrow> bool) \<Rightarrow> dictionary \<Rightarrow> nat" where
  "work_bound valid d =
     length (dict_pending d) + card {p. valid p \<and> p \<notin> set (d_items d) \<and> p \<notin> d_extra_membership d}"

lemma add_extra_membership:
  assumes "dict_wf d"
  shows "d_extra_membership (add_extra v p d) =
    (if v p \<and> p \<notin> set (d_items d) \<and> p \<notin> d_extra_membership d then insert p (d_extra_membership d)
     else d_extra_membership d)"
  using assms by (auto simp: add_extra_def dict_wf_def Let_def split: option.splits)

lemma add_extra_bound:
  assumes wf: "dict_wf d" and fin: "finite {p. valid p}"
  shows "work_bound valid (add_extra valid p d) \<le> work_bound valid d"
proof (cases "valid p \<and> p \<notin> set (d_items d) \<and> p \<notin> d_extra_membership d")
  case False
  show ?thesis
    unfolding work_bound_def dict_pending_def add_extra_eq [OF wf] add_extra_membership [OF wf] if_not_P [OF False]
    by simp
next
  case True
  let ?N = "{p. valid p \<and> p \<notin> set (d_items d) \<and> p \<notin> d_extra_membership d}"
  have "finite ?N" using fin by (rule rev_finite_subset) auto
  moreover have "{q. valid q \<and> q \<notin> set (d_items d) \<and> q \<notin> insert p (d_extra_membership d)} = ?N - {p}"
    by auto
  moreover have "p \<in> ?N" using True by simp
  ultimately have card: "card {q. valid q \<and> q \<notin> set (d_items d) \<and> q \<notin> insert p (d_extra_membership d)} + 1 = card ?N"
    using card_Suc_Diff1 [of ?N p] by (simp only: Suc_eq_plus1)
  have "length (dict_pending (add_extra valid p d)) = length (dict_pending d) + 1"
    using wf unfolding dict_pending_def add_extra_eq [OF wf] if_P [OF True] by (simp add: dict_wf_def)
  with card show ?thesis
    unfolding work_bound_def add_extra_eq(2) [OF wf] add_extra_membership [OF wf] if_P [OF True] by linarith
qed

lemma fold_add_extra_bound:
  assumes "dict_wf d" and "finite {p. valid p}"
  shows "dict_wf (fold (add_extra valid) ps d) \<and>
    work_bound valid (fold (add_extra valid) ps d) \<le> work_bound valid d"
  using assms(1)
proof (induction ps arbitrary: d)
  case (Cons p ps)
  from Cons.IH [OF add_extra_wf [OF Cons.prems]] add_extra_bound [OF Cons.prems assms(2), of p]
  show ?case by (auto intro: le_trans)
qed simp

lemma run_callbacks_safe:
  "\<forall>cb \<in> set cbs. queue_safe valid (cb v) \<Longrightarrow> queue_safe valid (run_callbacks cbs v)"
proof (induction cbs)
  case Nil
  show ?case by (auto simp: queue_safe_def ret_def leaves_def intro: safe_to_same)
next
  case (Cons cb cbs)
  then have cb: "queue_safe valid (cb v)" and IH: "queue_safe valid (run_callbacks cbs v)" by simp_all
  have "safe_to valid fz (run_callbacks (cb # cbs) v fz)" for fz
  proof -
    obtain r f where r: "cb v fz = (r, f)" by fastforce
    have "safe_to valid fz (r, f)" using cb r unfolding queue_safe_def by metis
    moreover have "safe_to valid f (run_callbacks cbs v f)" using IH unfolding queue_safe_def by blast
    ultimately show ?thesis by (cases r) (auto simp: io_bind_def r intro: safe_to_trans)
  qed
  then show ?case by (simp add: queue_safe_def)
qed

lemma is_match_frame:
  "fz_dictionary (snd (is_match env path resp fz)) = fz_dictionary fz"
  "fz_play (snd (is_match env path resp fz)) = fz_play fz"
  "fz_quit (snd (is_match env path resp fz)) = fz_quit fz"
  by (simp_all add: is_match_unfold Let_def case_prod_beta)

lemma scan_safe:
  assumes "callbacks_safe valid env"
  shows "queue_safe valid (scan env path)"
proof -
  have "safe_to valid fz (scan env path fz)" for fz
  proof -
    obtain r f where r: "on_world (e_request (fe_scan env) path) fz = (r, f)" by fastforce
    note fr = on_world_frame [OF r]
    show ?thesis
    proof (cases r)
      case (Inr resp)
      obtain m f' where m: "is_match env path resp f = (m, f')" by fastforce
      have same: "fz_dictionary f' = fz_dictionary f \<and> fz_play f' = fz_play f \<and> fz_quit f' = fz_quit f"
        using is_match_frame [of env path resp f] m by simp
      have "queue_safe valid (run_callbacks (if m then fe_match_callbacks env else fe_not_found_callbacks env) resp)"
        using assms by (intro run_callbacks_safe) (auto simp: callbacks_safe_def)
      then have "safe_to valid f' (run_callbacks (if m then fe_match_callbacks env else fe_not_found_callbacks env) resp f')"
        by (simp add: queue_safe_def)
      with same fr have "safe_to valid fz (run_callbacks (if m then fe_match_callbacks env else fe_not_found_callbacks env) resp f')"
        using safe_to_trans [OF safe_to_same [of f' fz "Inr ()" valid]] by (simp add: leaves_def)
      with r Inr m show ?thesis by (simp add: scan_def process_response_def response_callbacks_def)
    next
      case (Inl e)
      with fr have "fst (e_request (fe_scan env) path (fz_world fz)) = Inl e" by simp
      with assms have nl: "\<not> leaves (Inl e)" unfolding callbacks_safe_def by blast
      have "queue_safe valid (run_callbacks (fe_error_callbacks env) x)" for x
        using assms by (intro run_callbacks_safe) (auto simp: callbacks_safe_def)
      then have "safe_to valid f (run_callbacks (fe_error_callbacks env) x f)" for x by (simp add: queue_safe_def)
      with fr have "safe_to valid fz (run_callbacks (fe_error_callbacks env) x f)" for x
        using safe_to_trans [OF safe_to_same [of f fz "Inr ()" valid]] by (simp add: leaves_def)
      moreover have "safe_to valid fz (Inl e, f)" using nl fr by (auto intro: safe_to_same)
      moreover have "scan env path fz = (Inl e, f) \<or> (\<exists>x. scan env path fz = run_callbacks (fe_error_callbacks env) x f)"
        unfolding scan_def r Inl by (cases e) (simp_all, blast)
      ultimately show ?thesis by fastforce
    qed
  qed
  then show ?thesis by (simp add: queue_safe_def)
qed

lemma claim_next_bound:
  assumes "dict_ready d" and "claim_next d = (Inr path, d')"
  shows "dict_ready d' \<and> work_bound valid d' < work_bound valid d \<and> path \<in> set (d_claimed d')"
proof -
  have wf: "dict_wf d" and nc: "d_native_claim d = None" using assms(1) by (simp_all add: dict_ready_def)
  have ne: "dict_pending d \<noteq> []" and d': "d' = snd (claim_many 1 d)"
    using assms(2) claim_next_eq [OF wf] by (auto split: if_splits)
  have "dict_pending d' = tl (dict_pending d)"
    using dq.claim_pending [OF assms(1), of 1] d' by (metis drop_Suc drop0 One_nat_def prod.collapse)
  moreover have "d_items d' = d_items d \<and> d_extra_membership d' = d_extra_membership d"
    using assms(2) by (auto simp: claim_next_def Let_def split: if_splits)
  ultimately have "work_bound valid d' < work_bound valid d" using ne by (cases "dict_pending d") (simp_all add: work_bound_def)
  moreover have "dict_ready d'" using dq.invar_claim [OF assms(1)] d' by simp
  moreover have "path \<in> set (d_claimed d')" using claim_next_claims [OF assms(2)] by simp
  ultimately show ?thesis by blast
qed

lemma release_claim_bound:
  assumes "dict_ready d" and "path \<in> set (d_claimed d)" and "release_claim path d = (r, d')"
  shows "r = Inr () \<and> dict_ready d' \<and> work_bound valid d' = work_bound valid d"
proof -
  have "dict_ready d'" using assms(1,3) dq.invar_finish [OF assms(1), of "[path]"] by (simp add: release_claim_eq)
  then show ?thesis using assms release_claim_held [OF assms(2)] by (auto simp: work_bound_def dict_pending_def)
qed

text \<open>A round of a worker that finds work uses some of the bound up.\<close>

lemma round_bound:
  assumes safe: "callbacks_safe valid env" and fin: "finite {p. valid p}"
    and ready: "dict_ready (fz_dictionary fz)" and ne: "dict_pending (fz_dictionary fz) \<noteq> []"
    and r: "claim_and_scan env fz = (r, fz')"
  shows "\<not> leaves r \<and> dict_ready (fz_dictionary fz') \<and>
    work_bound valid (fz_dictionary fz') < work_bound valid (fz_dictionary fz) \<and> fz_play fz' = fz_play fz"
proof -
  have wf: "dict_wf (fz_dictionary fz)" using ready by (simp add: dict_ready_def)
  obtain path d where c: "claim_next (fz_dictionary fz) = (Inr path, d)"
    using claim_next_eq [OF wf] ne by auto
  let ?f = "fz\<lparr>fz_dictionary := d\<rparr>"
  note d = claim_next_bound [OF ready c, of valid]
  obtain r1 f1 where s: "scan env (fz_base_path ?f @ path) ?f = (r1, f1)" by fastforce
  have "safe_to valid ?f (r1, f1)" using scan_safe [OF safe] s unfolding queue_safe_def by metis
  then obtain ps where nl: "\<not> leaves r1" and ps: "fz_dictionary f1 = fold (add_extra valid) ps d"
    and pl: "fz_play f1 = fz_play fz"
    by (auto simp: safe_to_def)
  from fold_add_extra_bound [OF _ fin, of d ps] d ps have
    d1: "dict_wf (fz_dictionary f1)" "work_bound valid (fz_dictionary f1) \<le> work_bound valid d"
    by (simp_all add: dict_ready_def)
  have "d_native_claim (fold (add_extra valid) ps d) = d_native_claim d" for ps
    by (induction ps arbitrary: d) (simp_all add: add_extra_def Let_def)
  with d d1 ps have r1: "dict_ready (fz_dictionary f1)" by (simp add: dict_ready_def)
  have "path \<in> set (d_claimed (fz_dictionary f1))" using d ps by simp
  with release_claim_held [OF this] release_claim_bound [OF r1 this] obtain d2 where
    rel: "release_claim path (fz_dictionary f1) = (Inr (), d2)"
    and d2: "dict_ready d2" "work_bound valid d2 = work_bound valid (fz_dictionary f1)" by blast
  have "claim_and_scan env fz = (r1, f1\<lparr>fz_dictionary := d2\<rparr>)"
    using c s rel by (simp add: claim_and_scan_def io_bind_def on_queue_def io_finally_def with_state_def)
  with r nl pl d d1 d2 show ?thesis by auto
qed

lemma thread_proc_ends:
  assumes safe: "callbacks_safe valid env" and fin: "finite {p. valid p}"
  shows "dict_ready (fz_dictionary fz) \<Longrightarrow> fz_play fz \<Longrightarrow> work_bound valid (fz_dictionary fz) < n \<Longrightarrow>
    \<exists>fz'. thread_proc n env fz = Some fz' \<and> (fz_quit fz' \<or> dict_pending (fz_dictionary fz') = [])"
proof (induction n arbitrary: fz)
  case (Suc n)
  obtain r f where r: "claim_and_scan env fz = (r, f)" by fastforce
  show ?case
  proof (cases "dict_pending (fz_dictionary fz) = []")
    case True
    have "claim_next (fz_dictionary fz) = (Inl StopIteration, fz_dictionary fz)"
      using claim_next_eq True Suc.prems(1) by (simp add: dict_ready_def)
    then have "r = Inl StopIteration" "f = fz"
      using r by (simp_all add: claim_and_scan_def io_bind_def on_queue_def)
    with r Suc.prems True show ?thesis by (simp add: handle_def leaves_def)
  next
    case False
    from round_bound [OF safe fin Suc.prems(1) this r] Suc.prems
    have nl: "\<not> leaves r" and f: "dict_ready (fz_dictionary f)" "work_bound valid (fz_dictionary f) < n" "fz_play f"
      by auto
    have "fz_play (handle r f)" using f(3) by (simp add: handle_def stop_with_exception_def split: sum.split)
    with r nl f Suc.IH [of "handle r f"] show ?thesis by (auto simp: Let_def)
  qed
qed simp

section \<open>The steps of a worker are a scan\<close>

lemma set_worker_work_step:
  assumes "i < length (th_workers t)" and "busy wk" and "worker_step env wk fz = (wk', fz')"
  shows "thread_step env (set_worker i wk fz t) (set_worker i wk' fz' t)"
  using thread_step.work [of i "set_worker i wk fz t" env wk' fz'] assms by (simp add: set_worker_def)

lemma report_steps:
  assumes i: "i < length (th_workers t)"
    and "io_finally (run_callbacks cbs v) (on_queue (release_claim path)) fz = (r, fz')"
  shows "(thread_step env)\<^sup>*\<^sup>* (set_worker i (Reporting path (map (\<lambda>cb. cb v) cbs)) fz t)
    (set_worker i (Ending (leaves r)) (handle r fz') t)"
  using assms(2)
proof (induction cbs arbitrary: fz)
  case Nil
  then have "worker_step env (Reporting path []) fz = (Ending (leaves r), handle r fz')"
    by (auto simp: end_scan_def ret_def io_finally_def split: prod.splits)
  from set_worker_work_step [OF i _ this] show ?case by (simp add: busy_def r_into_rtranclp)
next
  case (Cons cb cbs)
  obtain q f where q: "cb v fz = (q, f)" by fastforce
  show ?case
  proof (cases q)
    case (Inl e)
    with Cons.prems q have "worker_step env (Reporting path (map (\<lambda>cb. cb v) (cb # cbs))) fz = (Ending (leaves r), handle r fz')"
      by (auto simp: end_scan_def io_finally_def io_bind_def split: prod.splits)
    from set_worker_work_step [OF i _ this] show ?thesis by (simp add: busy_def r_into_rtranclp)
  next
    case (Inr u)
    with q have "worker_step env (Reporting path (map (\<lambda>cb. cb v) (cb # cbs))) fz =
        (Reporting path (map (\<lambda>cb. cb v) cbs), f)" by simp
    from set_worker_work_step [OF i _ this] have
      "thread_step env (set_worker i (Reporting path (map (\<lambda>cb. cb v) (cb # cbs))) fz t)
         (set_worker i (Reporting path (map (\<lambda>cb. cb v) cbs)) f t)" by (simp add: busy_def)
    moreover have "io_finally (run_callbacks cbs v) (on_queue (release_claim path)) f = (r, fz')"
      using Cons.prems q Inr by (simp add: io_finally_def io_bind_def)
    ultimately show ?thesis using Cons.IH by (meson converse_rtranclp_into_rtranclp)
  qed
qed

lemma classification_base [simp]:
  "fz_base_path (snd (is_excluded opts lib bl resp fz)) = fz_base_path fz"
  "fz_scanners (snd (is_excluded opts lib bl resp fz)) = fz_scanners fz"
  by (auto simp: is_excluded_def is_auto_calibrated_def Let_def)

text \<open>The end of a scan after the response: the callbacks the classification chose, in two steps.\<close>

lemma classify_steps:
  assumes i: "i < length (th_workers t)"
    and m: "is_match env (fz_base_path fz @ path) resp fz = (m, f)"
  shows "(thread_step env)\<^sup>*\<^sup>* (set_worker i (Answered path resp) fz t)
    (set_worker i (Reporting path (map (\<lambda>cb. cb resp)
       (if m then fe_match_callbacks env else fe_not_found_callbacks env))) f t)"
proof -
  let ?opts = "fe_options env" and ?lib = "fe_lib env"
  obtain x g where x: "is_excluded ?opts ?lib (fe_blacklists env) resp fz = (x, g)" by fastforce
  with classification_base [of ?opts ?lib "fe_blacklists env" resp fz]
  have base: "fz_base_path g = fz_base_path fz" "fz_scanners g = fz_scanners fz" by simp_all
  let ?bad = "x \<or> list_ex (\<lambda>tester. \<not> check (fe_scan env) tester (fz_base_path fz @ path) resp)
      (get_scanners_for (fz_scanners fz) (fz_base_path fz @ path))"
  show ?thesis
  proof (cases ?bad)
    case True
    with x base have "worker_step env (Answered path resp) fz =
        (Reporting path (calls (fe_not_found_callbacks env) resp), g)" by simp
    moreover have "\<not> m" "f = g" using m True x by (auto simp: is_match_unfold Let_def)
    ultimately show ?thesis
      using set_worker_work_step [OF i, of "Answered path resp"] by (simp add: busy_def calls_def r_into_rtranclp)
  next
    case False
    obtain y h where y: "is_filter_threshold_reached ?opts ?lib resp g = (y, h)" by fastforce
    have "thread_step env (set_worker i (Answered path resp) fz t) (set_worker i (Unfiltered path resp) g t)"
      using False x base by (intro set_worker_work_step [OF i]) (simp_all add: busy_def)
    moreover have "thread_step env (set_worker i (Unfiltered path resp) g t)
        (set_worker i (Reporting path (calls (if y then fe_not_found_callbacks env else fe_match_callbacks env) resp)) h t)"
      using y by (intro set_worker_work_step [OF i]) (simp_all add: busy_def)
    moreover have "m = (\<not> y)" "f = h" using m False x y by (auto simp: is_match_unfold Let_def)
    ultimately show ?thesis by (cases y) (auto simp: calls_def)
  qed
qed

lemma scan_steps:
  assumes i: "i < length (th_workers t)"
    and s: "io_finally (scan env (fz_base_path fz @ path)) (on_queue (release_claim path)) fz = (r, fz')"
  shows "(thread_step env)\<^sup>*\<^sup>* (set_worker i (Holding path) fz t)
    (set_worker i (Ending (leaves r)) (handle r fz') t)"
proof -
  let ?p = "fz_base_path fz @ path"
  obtain q f where q: "on_world (e_request (fe_scan env) ?p) fz = (q, f)" by fastforce
  have base: "fz_base_path f = fz_base_path fz" using q by (auto simp: on_world_def split: prod.splits)
  have "worker_step env (Holding path) fz = answer env path q f" using q by simp
  then have one: "thread_step env (set_worker i (Holding path) fz t) (set_worker i (fst (answer env path q f)) (snd (answer env path q f)) t)"
    using set_worker_work_step [OF i, of "Holding path" env fz "fst (answer env path q f)"] by (simp add: busy_def)
  show ?thesis
  proof (cases q)
    case (Inr resp)
    obtain m g where m: "is_match env ?p resp f = (m, g)" by fastforce
    let ?cbs = "if m then fe_match_callbacks env else fe_not_found_callbacks env"
    have "scan env ?p fz = run_callbacks ?cbs resp g"
      using q Inr m by (simp add: scan_def process_response_def response_callbacks_def)
    with s have "io_finally (run_callbacks ?cbs resp) (on_queue (release_claim path)) g = (r, fz')"
      by (simp add: io_finally_def)
    from report_steps [OF i this] classify_steps [OF i, of env f path resp m g] one m base Inr show ?thesis
      by (auto simp: answer_def intro: converse_rtranclp_into_rtranclp rtranclp_trans)
  next
    case (Inl e)
    show ?thesis
    proof (cases "\<exists>x. e = RequestException x")
      case True
      then obtain x where x: "e = RequestException x" by blast
      with s q Inl have "io_finally (run_callbacks (fe_error_callbacks env) (RequestException x)) (on_queue (release_claim path)) f = (r, fz')"
        by (simp add: io_finally_def scan_def)
      from report_steps [OF i this] one Inl x show ?thesis
        by (auto simp: answer_def intro: converse_rtranclp_into_rtranclp)
    next
      case False
      then have a: "answer env path q f = end_scan path (Inl e) f" and "scan env ?p fz = (Inl e, f)"
        using Inl q by (cases e; simp add: answer_def scan_def)+
      with s have "end_scan path (Inl e) f = (Ending (leaves r), handle r fz')"
        by (simp add: end_scan_def io_finally_def split: prod.splits)
      with one a show ?thesis by (simp add: r_into_rtranclp)
    qed
  qed
qed

section \<open>A run\<close>

text \<open>One worker, a target that refuses every request.\<close>

definition refusing :: "string list fuzz_env" where
  "refusing = demo_fuzz\<lparr>fe_scan := demo_env\<lparr>e_request := (\<lambda>p w. (Inl (RequestException []), w))\<rparr>\<rparr>"

abbreviation one :: "'w worker \<Rightarrow> 'w fuzzer \<Rightarrow> nat \<Rightarrow> main_thread \<Rightarrow> 'w threads" where
  "one wk fz n m \<equiv> \<lparr>th_workers = [wk], th_fuzzer = fz, th_permits = n, th_main = m\<rparr>"

text \<open>The shared state with the first paths of the list handed out.\<close>

definition handed :: "string list \<Rightarrow> nat \<Rightarrow> string list \<Rightarrow> bool \<Rightarrow> string list fuzzer" where
  "handed paths i claimed pl =
     (new_fuzzer ((dict_init paths False)\<lparr>d_index := i, d_claimed := claimed\<rparr>) [])\<lparr>fz_play := pl\<rparr>"

lemma refusing_safe: "callbacks_safe (\<lambda>_. True) refusing"
  by (simp add: callbacks_safe_def refusing_def demo_fuzz_def leaves_def is_exception_def)

lemma one_work:
  "worker_step env wk fz = (wk', fz') \<Longrightarrow> busy wk \<Longrightarrow> thread_step env (one wk fz n m) (one wk' fz' n m)"
  using thread_step.work [of 0 "one wk fz n m" env wk' fz'] by (simp add: set_worker_def)

lemma one_pass: "fz_play fz \<Longrightarrow> thread_step env (one (Ending b) fz n m) (one (Leaving b) fz n m)"
  using thread_step.pass [of 0 "one (Ending b) fz n m" b] by (simp add: set_worker_def)

lemma one_acknowledge:
  "\<not> fz_play fz \<Longrightarrow> thread_step env (one (Ending b) fz n m) (one (Waiting b) fz (Suc n) m)"
  using thread_step.acknowledge [of 0 "one (Ending b) fz n m" b] by (simp add: set_worker_def)

lemma one_resume: "fz_play fz \<Longrightarrow> thread_step env (one (Waiting b) fz n m) (one (Leaving b) fz n m)"
  using thread_step.resume [of 0 "one (Waiting b) fz n m" b] by (simp add: set_worker_def)

lemma one_pause:
  "thread_step env (one wk fz n Running) (one wk (fz\<lparr>fz_play := False\<rparr>) n (Pausing [0]))"
  using thread_step.pause [of "one wk fz n Running"] by simp

lemma one_acquire:
  "\<not> is_done wk \<Longrightarrow> thread_step env (one wk fz (Suc n) (Pausing [0])) (one wk fz n (Pausing []))"
  using thread_step.pause_acquire [of "one wk fz (Suc n) (Pausing [0])" 0 "[]"] by simp

lemma one_timeout:
  "\<not> is_done wk \<Longrightarrow> thread_step env (one wk fz 0 (Pausing [0])) (one wk fz 0 (Paused False))"
  using thread_step.pause_timeout [of "one wk fz 0 (Pausing [0])" 0 "[]"] by simp

lemma one_done: "thread_step env (one wk fz n (Pausing [])) (one wk fz n (Paused True))"
  using thread_step.pause_done [of "one wk fz n (Pausing [])"] by simp

lemma one_play: "thread_step env (one wk fz n (Paused b)) (one wk (play fz) n Running)"
  using thread_step.main_play [of "one wk fz n (Paused b)" b] by simp

lemma handed_play [simp]:
  "fz_play (handed ps i c pl) = pl" "fz_quit (handed ps i c pl) = False"
  "(handed ps i c pl)\<lparr>fz_play := pl'\<rparr> = handed ps i c pl'" "play (handed ps i c pl) = handed ps i c True"
  by (simp_all add: handed_def new_fuzzer_def play_def)

lemma handed_claim:
  "worker_step refusing Ready (handed ps i c pl) =
     (if i < length ps then (Holding (ps ! i), handed ps (Suc i) (c @ [ps ! i]) pl)
      else (Ending True, handed ps i c pl))"
  by (simp add: handed_def new_fuzzer_def on_queue_def claim_next_def dict_init_def leaves_def handle_def Let_def)

lemma handed_refuse:
  "worker_step refusing (Holding p) (handed ps i c pl) = (Reporting p [], handed ps i c pl)"
  by (simp add: handed_def new_fuzzer_def on_world_def refusing_def demo_fuzz_def answer_def)

lemma handed_report:
  "worker_step refusing (Reporting p []) (handed ps i [p] pl) = (Ending False, handed ps i [] pl)"
  by (simp add: handed_def new_fuzzer_def end_scan_def io_finally_def on_queue_def release_claim_def
      list_remove_def leaves_def handle_def)

lemma handed_start: "start_threads 1 (handed ps i c pl) = one Ready (handed ps i c True) 0 Running"
  by (simp add: start_threads_def handed_def new_fuzzer_def play_def)

lemmas one_steps = handed_claim handed_refuse handed_report busy_def is_done_def

text \<open>A first claim, and a pause that gives up before the worker's acknowledgement.\<close>

lemma late_run:
  "(thread_step refusing)\<^sup>*\<^sup>* (one Ready (handed [''a'', ''b''] 0 [] True) 0 Running)
     (one Ready (handed [''a'', ''b''] 1 [] True) 1 Running)"
proof -
  let ?h = "handed [''a'', ''b'']" and ?s = "thread_step refusing"
  have 1: "?s (one (Ready) (?h 0 [] True) 0 (Running)) (one (Holding ''a'') (?h 1 [''a''] True) 0 (Running))"
    by (rule one_work) (simp_all add: one_steps numeral_2_eq_2 del: worker_step.simps)
  have 2: "?s (one (Holding ''a'') (?h 1 [''a''] True) 0 (Running)) (one (Holding ''a'') (?h 1 [''a''] False) 0 (Pausing [0]))"
    using one_pause [of refusing _ "?h 1 [''a''] True"] by simp
  have 3: "?s (one (Holding ''a'') (?h 1 [''a''] False) 0 (Pausing [0])) (one (Holding ''a'') (?h 1 [''a''] False) 0 (Paused False))"
    by (rule one_timeout) (simp add: one_steps)
  have 4: "?s (one (Holding ''a'') (?h 1 [''a''] False) 0 (Paused False)) (one (Reporting ''a'' []) (?h 1 [''a''] False) 0 (Paused False))"
    by (rule one_work) (simp_all add: one_steps numeral_2_eq_2 del: worker_step.simps)
  have 5: "?s (one (Reporting ''a'' []) (?h 1 [''a''] False) 0 (Paused False)) (one (Ending False) (?h 1 [] False) 0 (Paused False))"
    by (rule one_work) (simp_all add: one_steps numeral_2_eq_2 del: worker_step.simps)
  have 6: "?s (one (Ending False) (?h 1 [] False) 0 (Paused False)) (one (Waiting False) (?h 1 [] False) 1 (Paused False))"
    using one_acknowledge [of "?h 1 [] False" refusing False 0] by simp
  have 7: "?s (one (Waiting False) (?h 1 [] False) 1 (Paused False)) (one (Waiting False) (?h 1 [] True) 1 (Running))"
    using one_play [of refusing "Waiting False" "?h 1 [] False"] by simp
  have 8: "?s (one (Waiting False) (?h 1 [] True) 1 (Running)) (one (Leaving False) (?h 1 [] True) 1 (Running))"
    by (rule one_resume) simp
  have 9: "?s (one (Leaving False) (?h 1 [] True) 1 (Running)) (one (Ready) (?h 1 [] True) 1 (Running))"
    by (rule one_work) (simp_all add: busy_def)
  show ?thesis
    by (rule converse_rtranclp_into_rtranclp, rule 1,
      rule converse_rtranclp_into_rtranclp, rule 2,
      rule converse_rtranclp_into_rtranclp, rule 3,
      rule converse_rtranclp_into_rtranclp, rule 4,
      rule converse_rtranclp_into_rtranclp, rule 5,
      rule converse_rtranclp_into_rtranclp, rule 6,
      rule converse_rtranclp_into_rtranclp, rule 7,
      rule converse_rtranclp_into_rtranclp, rule 8,
      rule converse_rtranclp_into_rtranclp, rule 9,
      rule rtranclp.rtrancl_refl)
qed

lemma early_run:
  "(thread_step refusing)\<^sup>*\<^sup>* (one Ready (handed [''a'', ''b''] 1 [] True) 1 Running)
     (one (Holding ''b'') (handed [''a'', ''b''] 2 [''b''] False) 0 (Paused True))"
proof -
  let ?h = "handed [''a'', ''b'']" and ?s = "thread_step refusing"
  have 1: "?s (one (Ready) (?h 1 [] True) 1 (Running)) (one (Holding ''b'') (?h 2 [''b''] True) 1 (Running))"
    by (rule one_work) (simp_all add: one_steps numeral_2_eq_2 del: worker_step.simps)
  have 2: "?s (one (Holding ''b'') (?h 2 [''b''] True) 1 (Running)) (one (Holding ''b'') (?h 2 [''b''] False) 1 (Pausing [0]))"
    using one_pause [of refusing _ "?h 2 [''b''] True"] by simp
  have 3: "?s (one (Holding ''b'') (?h 2 [''b''] False) 1 (Pausing [0])) (one (Holding ''b'') (?h 2 [''b''] False) 0 (Pausing []))"
    using one_acquire [of "Holding ''b''" refusing "?h 2 [''b''] False" 0] by (simp add: one_steps)
  have 4: "?s (one (Holding ''b'') (?h 2 [''b''] False) 0 (Pausing [])) (one (Holding ''b'') (?h 2 [''b''] False) 0 (Paused True))"
    by (rule one_done)
  show ?thesis
    by (rule converse_rtranclp_into_rtranclp, rule 1,
      rule converse_rtranclp_into_rtranclp, rule 2,
      rule converse_rtranclp_into_rtranclp, rule 3,
      rule converse_rtranclp_into_rtranclp, rule 4,
      rule rtranclp.rtrancl_refl)
qed

lemma empty_run:
  "(thread_step refusing)\<^sup>*\<^sup>* (one Ready (handed [] 0 [] True) 0 Running) (one Done (handed [] 0 [] True) 0 Running)"
proof -
  let ?h = "handed [] 0 [] True" and ?s = "thread_step refusing"
  have 1: "?s (one Ready ?h 0 Running) (one (Ending True) ?h 0 Running)"
    by (rule one_work) (simp_all add: one_steps del: worker_step.simps)
  have 2: "?s (one (Ending True) ?h 0 Running) (one (Leaving True) ?h 0 Running)"
    by (rule one_pass) simp
  have 3: "?s (one (Leaving True) ?h 0 Running) (one Done ?h 0 Running)"
    by (rule one_work) (simp_all add: busy_def)
  show ?thesis
    by (rule converse_rtranclp_into_rtranclp, rule 1, rule converse_rtranclp_into_rtranclp, rule 2,
        rule converse_rtranclp_into_rtranclp, rule 3, rule rtranclp.rtrancl_refl)
qed

lemma paused_run:
  "(pausing_step refusing)\<^sup>*\<^sup>* (one Ready (handed [] 0 [] False) 0 (Pausing [0]))
     (one (Waiting True) (handed [] 0 [] False) 0 (Paused True))"
proof -
  let ?h = "handed [] 0 [] False" and ?s = "thread_step refusing"
  have 1: "?s (one Ready ?h 0 (Pausing [0])) (one (Ending True) ?h 0 (Pausing [0]))"
    by (rule one_work) (simp_all add: one_steps del: worker_step.simps)
  have 2: "?s (one (Ending True) ?h 0 (Pausing [0])) (one (Waiting True) ?h (Suc 0) (Pausing [0]))"
    by (rule one_acknowledge) simp
  have 3: "?s (one (Waiting True) ?h (Suc 0) (Pausing [0])) (one (Waiting True) ?h 0 (Pausing []))"
    by (rule one_acquire) (simp add: is_done_def)
  have 4: "?s (one (Waiting True) ?h 0 (Pausing [])) (one (Waiting True) ?h 0 (Paused True))"
    by (rule one_done)
  show ?thesis
    unfolding pausing_step_def
    by (rule converse_rtranclp_into_rtranclp, rule conjI, rule 1, simp,
        rule converse_rtranclp_into_rtranclp, rule conjI, rule 2, simp,
        rule converse_rtranclp_into_rtranclp, rule conjI, rule 3, simp,
        rule converse_rtranclp_into_rtranclp, rule conjI, rule 4, simp, rule rtranclp.rtrancl_refl)
qed

section \<open>Properties\<close>

text \<open>C5: a scan that finished without being stopped has left no work behind: however the workers, the
  pauses and the discoveries of the callbacks interleave, once all workers are done the queue is
  empty and nothing is claimed.\<close>
theorem finished_scan_leaves_nothing:
  assumes "callbacks_safe valid env" and "d_claimed (fz_dictionary fz) = []" and "0 < n"
    and "(thread_step env)\<^sup>*\<^sup>* (start_threads n fz) t"
    and "is_finished t = Inr True" and "\<not> fz_quit (th_fuzzer t)"
  shows "dict_pending (fz_dictionary (th_fuzzer t)) = [] \<and> d_claimed (fz_dictionary (th_fuzzer t)) = []"
proof -
  from start_inv [OF assms(2,3)] have "claims_inv valid t" and "work_inv t"
    using reachable_inv [OF assms(4,1)] by blast+
  moreover have "\<forall>wk \<in> set (th_workers t). is_done wk"
    using assms(5) by (auto simp: is_finished_def list_ex_iff split: if_splits)
  ultimately show ?thesis
    using assms(6) all_done_held [of "th_workers t"] by (auto simp: claims_inv_def work_inv_def)
qed

theorem finished_scan_leaves_nothing_witness:
  "\<exists>t. (thread_step refusing)\<^sup>*\<^sup>* (start_threads 1 (handed [] 0 [] True)) t \<and> is_finished t = Inr True \<and>
     dict_pending (fz_dictionary (th_fuzzer t)) = [] \<and> d_claimed (fz_dictionary (th_fuzzer t)) = []"
proof -
  have f: "is_finished (one Done (handed [] 0 [] True) 0 Running) = Inr True"
    by (simp add: is_finished_def is_done_def handed_def new_fuzzer_def)
  have "dict_pending (fz_dictionary (th_fuzzer (one Done (handed [] 0 [] True) 0 Running))) = [] \<and>
      d_claimed (fz_dictionary (th_fuzzer (one Done (handed [] 0 [] True) 0 Running))) = []"
    by (rule finished_scan_leaves_nothing [OF refusing_safe _ _ _ f, of "handed [] 0 [] True" 1])
       (simp_all add: empty_run handed_start [simplified], simp add: handed_def new_fuzzer_def)
  with f empty_run show ?thesis by (metis handed_start)
qed

text \<open>Claims are neither lost nor shared: in every interleaving the claimed paths are exactly those
  the workers hold, each once per worker.\<close>
theorem claims_are_held_by_workers:
  assumes "callbacks_safe valid env" and "d_claimed (fz_dictionary fz) = []" and "0 < n"
    and "(thread_step env)\<^sup>*\<^sup>* (start_threads n fz) t"
  shows "mset (d_claimed (fz_dictionary (th_fuzzer t))) = mset (concat (map held (th_workers t)))"
proof -
  have "all_held ws = mset (concat (map held ws))" for ws :: "'a worker list"
    by (induction ws) (simp_all add: all_held_def)
  with reachable_inv [OF assms(4,1)] start_inv [OF assms(2,3)] show ?thesis
    by (auto simp: claims_inv_def)
qed

theorem claims_are_held_by_workers_witness:
  "\<exists>t. (thread_step refusing)\<^sup>*\<^sup>* (start_threads 1 (handed [''a'', ''b''] 0 [] True)) t \<and>
     mset (d_claimed (fz_dictionary (th_fuzzer t))) = mset (concat (map held (th_workers t)))"
proof -
  have "d_claimed (fz_dictionary (handed [''a'', ''b''] 0 [] True)) = []" by (simp add: handed_def new_fuzzer_def)
  from claims_are_held_by_workers [OF refusing_safe this zero_less_one] late_run show ?thesis
    by (metis handed_start)
qed

text \<open>C7: when \<open>pause\<close> starts with no acknowledgement left over and reports success, every worker waits
  or is done, unless the scan was told to go on meanwhile.\<close>
theorem pause_stops_all_workers:
  assumes "callbacks_safe valid env" and "claims_inv valid t" and "th_main t = Running" and "th_permits t = 0"
    and "(pausing_step env)\<^sup>*\<^sup>* (t\<lparr>th_fuzzer := (th_fuzzer t)\<lparr>fz_play := False\<rparr>,
            th_main := Pausing [0..<length (th_workers t)]\<rparr>) t'"
    and "th_main t' = Paused True" and "\<not> fz_play (th_fuzzer t')"
  shows "\<forall>wk \<in> set (th_workers t'). is_done wk \<or> (\<exists>b. wk = Waiting b)"
proof -
  let ?t = "t\<lparr>th_fuzzer := (th_fuzzer t)\<lparr>fz_play := False\<rparr>, th_main := Pausing [0..<length (th_workers t)]\<rparr>"
  have "claims_inv valid ?t" using assms(2) by (simp add: claims_inv_def)
  moreover have "pause_inv ?t"
    using assms(4) by (auto simp: pause_inv_def pause_count_def)
  ultimately have "pause_inv t'" using pausing_keeps [OF assms(5,1)] by blast
  then have "pause_count (length (th_workers t')) t'" using assms(6,7) by (simp add: pause_inv_def)
  then show ?thesis using all_counted by blast
qed

theorem pause_stops_all_workers_witness:
  "\<exists>t'. (pausing_step refusing)\<^sup>*\<^sup>* (one Ready (handed [] 0 [] False) 0 (Pausing [0])) t' \<and>
     th_main t' = Paused True \<and> (\<forall>wk \<in> set (th_workers t'). is_done wk \<or> (\<exists>b. wk = Waiting b))"
proof -
  let ?t = "one Ready (handed [] 0 [] True) 0 Running" and ?t' = "one (Waiting True) (handed [] 0 [] False) 0 (Paused True)"
  have c: "claims_inv (\<lambda>_. True) ?t"
    by (simp add: claims_inv_def all_held_def handed_def new_fuzzer_def)
  have "\<forall>wk \<in> set (th_workers ?t'). is_done wk \<or> (\<exists>b. wk = Waiting b)"
    by (rule pause_stops_all_workers [OF refusing_safe c]) (simp_all add: paused_run)
  with paused_run show ?thesis by (intro exI [of _ ?t']) simp
qed

text \<open>C8: the acknowledgement of a worker that was too late for one pause counts for the next one: then
  \<open>pause\<close> reports success while the worker still has its request to make.\<close>
theorem late_acknowledgement_breaks_pause:
  "\<exists>t. (thread_step refusing)\<^sup>*\<^sup>* (start_threads 1 (handed [''a'', ''b''] 0 [] True)) t \<and>
     th_main t = Paused True \<and> \<not> fz_play (th_fuzzer t) \<and> th_workers t = [Holding ''b'']"
proof -
  have "(thread_step refusing)\<^sup>*\<^sup>* (start_threads 1 (handed [''a'', ''b''] 0 [] True))
     (one (Holding ''b'') (handed [''a'', ''b''] 2 [''b''] False) 0 (Paused True))"
    using rtranclp_trans [OF late_run early_run] by (simp only: handed_start)
  then show ?thesis by (intro exI conjI) (auto)
qed

text \<open>C6: a worker alone always comes to an end, whatever its callbacks discover, as long as they can
  only discover finitely many paths: with as many rounds as there is work it returns, stopped by an
  exception or with an empty queue.\<close>
theorem lone_worker_terminates:
  assumes "callbacks_safe valid env" and "finite {p. valid p}" and "dict_ready (fz_dictionary fz)"
    and "fz_play fz" and "work_bound valid (fz_dictionary fz) < n"
  shows "\<exists>fz'. thread_proc n env fz = Some fz' \<and> (fz_quit fz' \<or> dict_pending (fz_dictionary fz') = [])"
  using thread_proc_ends [OF assms(1,2,3,4,5)] .

theorem lone_worker_terminates_witness:
  "\<exists>fz'. thread_proc 3 refusing (handed [''a'', ''b''] 0 [] True) = Some fz' \<and>
     (fz_quit fz' \<or> dict_pending (fz_dictionary fz') = [])"
proof (rule lone_worker_terminates [where valid = "\<lambda>p. p \<in> {}"])
  show "callbacks_safe (\<lambda>p. p \<in> {}) refusing"
    by (simp add: callbacks_safe_def refusing_def demo_fuzz_def leaves_def is_exception_def)
qed (simp_all add: handed_def new_fuzzer_def dict_ready_def dict_init_def dict_wf_def native_claim_ok_def
    work_bound_def dict_pending_def)

text \<open>The fine-grained steps of a worker refine \<open>scan\<close>: a worker that holds a path and is not
  interrupted reaches, step by step, the state that \<open>scan\<close> followed by the release of the claim
  computes at once.\<close>
theorem worker_steps_refine_scan:
  assumes "i < length (th_workers t)"
    and "io_finally (scan env (fz_base_path fz @ path)) (on_queue (release_claim path)) fz = (r, fz')"
  shows "(thread_step env)\<^sup>*\<^sup>* (set_worker i (Holding path) fz t)
    (set_worker i (Ending (leaves r)) (handle r fz') t)"
  using scan_steps [OF assms] .

theorem worker_steps_refine_scan_witness:
  "(thread_step refusing)\<^sup>*\<^sup>* (set_worker 0 (Holding ''a'') (handed [''a''] 1 [''a''] True) (one Ready (handed [''a''] 1 [''a''] True) 0 Running))
    (set_worker 0 (Ending False) (handed [''a''] 1 [] True) (one Ready (handed [''a''] 1 [''a''] True) 0 Running))"
proof -
  have "io_finally (scan refusing (fz_base_path (handed [''a''] 1 [''a''] True) @ ''a'')) (on_queue (release_claim ''a''))
      (handed [''a''] 1 [''a''] True) = (Inr (), handed [''a''] 1 [] True)"
    by (simp add: io_finally_def scan_def on_world_def on_queue_def handed_def new_fuzzer_def refusing_def
        demo_fuzz_def ret_def release_claim_def list_remove_def)
  from worker_steps_refine_scan [OF _ this, of 0 "one Ready (handed [''a''] 1 [''a''] True) 0 Running"] show ?thesis
    by (simp add: leaves_def handle_def)
qed

end
