(* ===== verification/NativeFuzzer.thy ===== *)
theory NativeFuzzer
  imports Workers
begin

text \<open>
  \<open>NativeFuzzer\<close> of \<open>lib/core/fuzzer.py\<close>: the scan whose requests the Rust engine makes.  The
  engine is a parameter: it delivers chunks of results for consecutive ranges of the claimed paths
  to a callback.  Modelled are the expansion of a chunk, the release of the claims, the claim of
  the next paths, and the loop with its pause and its recovery from failures.
\<close>

section \<open>Data\<close>

record native_event =
  ev_request_index :: nat
  ev_path :: string
  ev_response :: "response option"
  ev_error :: "exc option"

record native_scan_chunk =
  nc_start_index :: nat
  nc_end_index :: nat
  nc_events :: "native_event list"

type_synonym native_paths = "string list + native_chunk"

definition paths_length :: "native_paths \<Rightarrow> nat" where
  "paths_length paths = length (claimed_paths paths)"

section \<open>A chunk of results\<close>

definition should_stop_processing :: "'w fuzzer \<Rightarrow> bool" where
  "should_stop_processing fz \<longleftrightarrow> fz_quit fz \<or> \<not> fz_play fz"

definition dictionary_path :: "string \<Rightarrow> string \<Rightarrow> string" where
  "dictionary_path base path = (if base \<noteq> [] then lstrip_once path base else path)"

definition release_paths :: "string list \<Rightarrow> ('w fuzzer, unit) io" where
  "release_paths paths =
     with_state (\<lambda>fz. on_queue (release_claims (map (dictionary_path (fz_base_path fz)) paths)))"

definition process_filtered_paths :: "'w fuzz_env \<Rightarrow> string list \<Rightarrow> ('w fuzzer, unit) io" where
  "process_filtered_paths env paths =
     (if paths = [] then ret ()
      else io_finally (run_callbacks (fe_filtered_chunk_callbacks env) (length paths)) (release_paths paths))"

definition process_filtered_range :: "'w fuzz_env \<Rightarrow> native_paths \<Rightarrow> nat \<Rightarrow> nat \<Rightarrow> ('w fuzzer, unit) io" where
  "process_filtered_range env paths start end' =
     (if end' \<le> start then ret ()
      else (case paths of
              Inr chunk \<Rightarrow>
                io_finally (run_callbacks (fe_filtered_chunk_callbacks env) (end' - start))
                  (on_queue (release_native_claims chunk (end' - start)))
            | Inl ps \<Rightarrow>
                process_filtered_paths env
                  (if start = 0 \<and> end' = length ps then ps else slice start end' ps)))"

definition process_native_result ::
  "'w fuzz_env \<Rightarrow> string \<Rightarrow> response option \<Rightarrow> exc option \<Rightarrow> ('w fuzzer, unit) io" where
  "process_native_result env path response error' =
     (case error' of
        Some e \<Rightarrow> run_callbacks (fe_error_callbacks env) e
      | None \<Rightarrow>
          (case response of
             None \<Rightarrow> raise (RuntimeError ''Native backend returned neither response nor error'')
           | Some resp \<Rightarrow>
               if r_filtered resp then run_callbacks (fe_not_found_callbacks env) resp
               else process_response env path resp))"

definition release_event :: "native_paths \<Rightarrow> native_event \<Rightarrow> ('w fuzzer, unit) io" where
  "release_event paths event =
     (case paths of
        Inr chunk \<Rightarrow> on_queue (release_native_claims chunk 1)
      | Inl _ \<Rightarrow> release_paths [ev_path event])"

text \<open>The loop over the events, from the next index that is not done; its end releases the tail.\<close>

fun process_events ::
  "'w fuzz_env \<Rightarrow> native_paths \<Rightarrow> nat \<Rightarrow> nat \<Rightarrow> native_event list \<Rightarrow> ('w fuzzer, unit) io" where
  "process_events env paths end' next_index [] =
     with_state (\<lambda>fz. if \<not> should_stop_processing fz \<and> next_index < end'
                      then process_filtered_range env paths next_index end' else ret ())"
| "process_events env paths end' next_index (event # events) =
     with_state (\<lambda>fz.
       if should_stop_processing fz then ret ()
       else io_bind (if next_index < ev_request_index event
                     then process_filtered_range env paths next_index (ev_request_index event) else ret ())
         (\<lambda>_. with_state (\<lambda>fz.
            if should_stop_processing fz then ret ()
            else io_bind (io_finally (process_native_result env (ev_path event) (ev_response event) (ev_error event))
                            (release_event paths event))
              (\<lambda>_. process_events env paths end' (ev_request_index event + 1) events))))"

definition process_native_chunk ::
  "'w fuzz_env \<Rightarrow> native_paths \<Rightarrow> native_scan_chunk \<Rightarrow> ('w fuzzer, unit) io" where
  "process_native_chunk env paths chunk =
     process_events env paths (nc_end_index chunk) (nc_start_index chunk) (nc_events chunk)"

section \<open>The loop\<close>

definition native_chunk_size :: "fuzz_options \<Rightarrow> nat" where
  "native_chunk_size opts = max 1000 (fo_thread_count opts * 100)"

definition next_chunk :: "'w fuzz_env \<Rightarrow> ('w fuzzer, native_paths) io" where
  "next_chunk env = with_state (\<lambda>fz.
     io_bind (on_queue (claim_native_many (native_chunk_size (fe_options env)) (fz_base_path fz))) (\<lambda>paths.
       ret (case paths of
              Inr chunk \<Rightarrow> Inr chunk
            | Inl ps \<Rightarrow> Inl (if fz_base_path fz = [] then ps else map (\<lambda>p. fz_base_path fz @ p) ps))))"

text \<open>The engine: given the claimed paths and the callback, it acts.\<close>

type_synonym 'w engine = "native_paths \<Rightarrow> (native_scan_chunk \<Rightarrow> ('w fuzzer, unit) io) \<Rightarrow> ('w fuzzer, unit) io"

definition requeue :: "'w fuzzer \<Rightarrow> 'w fuzzer" where
  "requeue fz = fz\<lparr>fz_dictionary := requeue_claims (fz_dictionary fz)\<rparr>"

text \<open>The \<open>while\<close> loop of \<open>start\<close> for at most \<open>n\<close> rounds: \<open>Inr True\<close> when it is left, \<open>Inr False\<close> when
  it waits, paused, for another thread to set the play event; then it goes on from this state.\<close>

fun native_loop :: "nat \<Rightarrow> 'w fuzz_env \<Rightarrow> 'w engine \<Rightarrow> 'w fuzzer \<Rightarrow> (bool result \<times> 'w fuzzer) option" where
  "native_loop 0 env engine fz = None"
| "native_loop (Suc n) env engine fz =
     (if fz_quit fz then Some (Inr True, fz)
      else if \<not> fz_play fz then Some (Inr False, requeue fz)
      else (case next_chunk env fz of
              (Inl e, fz) \<Rightarrow> Some (Inl e, fz)
            | (Inr paths, fz) \<Rightarrow>
                if paths_length paths = 0 then Some (Inr True, fz)
                else (case engine paths (process_native_chunk env paths) fz of
                        (Inl e, fz) \<Rightarrow> Some (Inl e, requeue fz)
                      | (Inr _, fz) \<Rightarrow> native_loop n env engine (if \<not> fz_play fz then requeue fz else fz))))"

definition native_start :: "nat \<Rightarrow> 'w fuzz_env \<Rightarrow> 'w engine \<Rightarrow> 'w fuzzer \<Rightarrow> (bool result \<times> 'w fuzzer) option" where
  "native_start n env engine fz =
     (case setup_scanners env fz of
        (Inl e, fz) \<Rightarrow> Some (Inl e, fz)
      | (Inr _, fz) \<Rightarrow> native_loop n env engine (play fz))"

section \<open>Progress is a prefix\<close>

text \<open>The paths as the queue knows them, and the state in which those from index \<open>i\<close> on are claimed.\<close>

definition queue_paths :: "string \<Rightarrow> native_paths \<Rightarrow> string list" where
  "queue_paths base paths =
     (case paths of Inl ps \<Rightarrow> map (dictionary_path base) ps | Inr chunk \<Rightarrow> chunk_paths chunk)"

definition claimed_from :: "native_paths \<Rightarrow> nat \<Rightarrow> 'w fuzzer \<Rightarrow> bool" where
  "claimed_from paths i fz \<longleftrightarrow>
     dict_wf (fz_dictionary fz) \<and> i \<le> length (queue_paths (fz_base_path fz) paths) \<and>
     (case paths of
        Inl ps \<Rightarrow> d_native_claim (fz_dictionary fz) = None \<and>
          mset (drop i (queue_paths (fz_base_path fz) paths)) \<subseteq># mset (d_claimed (fz_dictionary fz))
      | Inr chunk \<Rightarrow>
          if i = length (chunk_paths chunk) then d_native_claim (fz_dictionary fz) = None
          else \<exists>c. d_native_claim (fz_dictionary fz) = Some c \<and> claim_chunk c = chunk \<and> claim_released c = i)"

text \<open>What callbacks may do meanwhile: queue discoveries, and stop the processing for good.\<close>

definition quiet :: "(string \<Rightarrow> bool) \<Rightarrow> 'w fuzzer \<Rightarrow> 'w fuzzer \<Rightarrow> bool" where
  "quiet valid fz fz' \<longleftrightarrow>
     (\<exists>ps. fz_dictionary fz' = fold (add_extra valid) ps (fz_dictionary fz)) \<and>
     fz_base_path fz' = fz_base_path fz \<and>
     (should_stop_processing fz \<longrightarrow> should_stop_processing fz')"

definition native_safe :: "(string \<Rightarrow> bool) \<Rightarrow> ('w fuzzer, unit) io \<Rightarrow> bool" where
  "native_safe valid m \<longleftrightarrow> (\<forall>fz. quiet valid fz (snd (m fz)))"

definition native_callbacks_safe :: "(string \<Rightarrow> bool) \<Rightarrow> 'w fuzz_env \<Rightarrow> bool" where
  "native_callbacks_safe valid env \<longleftrightarrow>
     (\<forall>cb \<in> set (fe_match_callbacks env) \<union> set (fe_not_found_callbacks env). \<forall>resp. native_safe valid (cb resp)) \<and>
     (\<forall>cb \<in> set (fe_error_callbacks env). \<forall>e. native_safe valid (cb e)) \<and>
     (\<forall>cb \<in> set (fe_filtered_chunk_callbacks env). \<forall>n. native_safe valid (cb n))"

lemma quiet_trans: "quiet valid a b \<Longrightarrow> quiet valid b c \<Longrightarrow> quiet valid a c"
  unfolding quiet_def by (metis fold_append comp_apply)

lemma quiet_same:
  "fz_dictionary f = fz_dictionary fz \<Longrightarrow> fz_base_path f = fz_base_path fz \<Longrightarrow> fz_play f = fz_play fz \<Longrightarrow>
     fz_quit f = fz_quit fz \<Longrightarrow> quiet valid fz f"
  by (auto simp: quiet_def should_stop_processing_def intro!: exI [of _ "[]"])

lemma run_callbacks_native:
  "\<forall>cb \<in> set cbs. native_safe valid (cb v) \<Longrightarrow> native_safe valid (run_callbacks cbs v)"
proof (induction cbs)
  case (Cons cb cbs)
  have "quiet valid fz (snd (run_callbacks (cb # cbs) v fz))" for fz
  proof -
    obtain r f where r: "cb v fz = (r, f)" by fastforce
    then have "quiet valid fz f" using Cons.prems unfolding native_safe_def by (metis list.set_intros(1) snd_conv)
    moreover have "quiet valid f (snd (run_callbacks cbs v f))" using Cons by (simp add: native_safe_def)
    ultimately show ?thesis by (cases r) (auto simp: io_bind_def r intro: quiet_trans)
  qed
  then show ?case by (simp add: native_safe_def)
qed (simp add: native_safe_def ret_def quiet_same)

lemma is_match_base: "fz_base_path (snd (is_match env path resp fz)) = fz_base_path fz"
  by (auto simp: is_match_unfold is_filter_threshold_reached_def Let_def split: prod.splits)

lemma process_native_result_safe:
  assumes "native_callbacks_safe valid env"
  shows "native_safe valid (process_native_result env path response e)"
proof (cases e)
  case (Some x)
  with assms show ?thesis
    by (auto simp: process_native_result_def native_callbacks_safe_def intro: run_callbacks_native)
next
  case None
  show ?thesis
  proof (cases response)
    case None
    with \<open>e = None\<close> show ?thesis by (simp add: process_native_result_def native_safe_def raise_def quiet_same)
  next
    case (Some resp)
    have nf: "native_safe valid (run_callbacks (fe_not_found_callbacks env) resp)"
      and m: "native_safe valid (run_callbacks (fe_match_callbacks env) resp)"
      using assms by (auto simp: native_callbacks_safe_def intro!: run_callbacks_native)
    have "quiet valid fz (snd (process_response env path resp fz))" for fz
    proof -
      obtain b f where f: "is_match env path resp fz = (b, f)" by fastforce
      with is_match_frame [of env path resp fz] is_match_base [of env path resp fz]
      have "quiet valid fz f" by (simp add: quiet_same)
      moreover have "quiet valid f (snd (run_callbacks (if b then fe_match_callbacks env else fe_not_found_callbacks env) resp f))"
        using nf m by (simp add: native_safe_def)
      ultimately show ?thesis by (auto simp: process_response_def response_callbacks_def f intro: quiet_trans)
    qed
    with nf \<open>e = None\<close> Some show ?thesis by (simp add: process_native_result_def native_safe_def)
  qed
qed

lemma fold_extra_frame:
  assumes "dict_wf d"
  shows "dict_wf (fold (add_extra valid) ps d) \<and> d_native_claim (fold (add_extra valid) ps d) = d_native_claim d \<and>
    dict_outstanding (fold (add_extra valid) ps d) = dict_outstanding d"
  using assms
proof (induction ps arbitrary: d)
  case (Cons p ps)
  from Cons.IH [OF add_extra_wf [OF Cons.prems]] Cons.prems show ?case
    by (simp add: add_extra_outstanding add_extra_eq)
qed simp

lemma quiet_claimed:
  assumes "quiet valid fz fz'" and "claimed_from paths i fz"
  shows "claimed_from paths i fz'" and "dict_outstanding (fz_dictionary fz') = dict_outstanding (fz_dictionary fz)"
proof -
  have wf: "dict_wf (fz_dictionary fz)" using assms(2) by (simp add: claimed_from_def)
  obtain ps where ps: "fz_dictionary fz' = fold (add_extra valid) ps (fz_dictionary fz)"
    and b: "fz_base_path fz' = fz_base_path fz" using assms(1) by (auto simp: quiet_def)
  note fr = fold_extra_frame [OF wf, of valid ps]
  show "dict_outstanding (fz_dictionary fz') = dict_outstanding (fz_dictionary fz)" using fr ps by simp
  show "claimed_from paths i fz'"
    using assms(2) fr unfolding claimed_from_def b by (cases paths) (simp_all add: ps)
qed

section \<open>Releasing a range\<close>

text \<open>What the queue looks like after the paths from \<open>i\<close> to \<open>k\<close> are done.\<close>

definition advances :: "(string \<Rightarrow> bool) \<Rightarrow> native_paths \<Rightarrow> nat \<Rightarrow> nat \<Rightarrow> 'w fuzzer \<Rightarrow> 'w fuzzer \<Rightarrow> bool" where
  "advances valid paths i k fz fz' \<longleftrightarrow>
     i \<le> k \<and> claimed_from paths k fz' \<and> fz_base_path fz' = fz_base_path fz \<and>
     (should_stop_processing fz \<longrightarrow> should_stop_processing fz') \<and>
     (finite {p. valid p} \<longrightarrow>
        work_bound valid (fz_dictionary fz') \<le> work_bound valid (fz_dictionary fz)) \<and>
     mset (dict_outstanding (fz_dictionary fz)) =
       mset (slice i k (queue_paths (fz_base_path fz) paths)) + mset (dict_outstanding (fz_dictionary fz'))"

lemma mset_slice_append:
  "i \<le> j \<Longrightarrow> j \<le> k \<Longrightarrow> mset (slice i k xs) = mset (slice i j xs) + mset (slice j k xs)"
proof -
  assume "i \<le> j" "j \<le> k"
  then have k: "k - i = (j - i) + (k - j)" and j: "k - j + 0 = k - j" "j - i + i = j" by simp_all
  have "slice i k xs = slice i j xs @ slice j k xs"
    unfolding slice_def k take_add drop_drop j ..
  then show ?thesis by simp
qed

lemma advances_trans:
  assumes a: "advances valid paths i j a b" and b: "advances valid paths j k b c"
  shows "advances valid paths i k a c"
proof -
  have "i \<le> j" "j \<le> k" and base: "fz_base_path b = fz_base_path a"
    using a b by (simp_all add: advances_def)
  moreover have "work_bound valid (fz_dictionary c) \<le> work_bound valid (fz_dictionary a)" if "finite {p. valid p}"
    using a b that by (auto simp: advances_def)
  moreover have "mset (dict_outstanding (fz_dictionary a)) =
      mset (slice i k (queue_paths (fz_base_path a) paths)) + mset (dict_outstanding (fz_dictionary c))"
    using a b mset_slice_append [OF \<open>i \<le> j\<close> \<open>j \<le> k\<close>, of "queue_paths (fz_base_path a) paths"]
    by (simp add: advances_def base)
  moreover have "claimed_from paths k c" "fz_base_path c = fz_base_path b"
    "should_stop_processing a \<longrightarrow> should_stop_processing c"
    using a b by (simp_all add: advances_def)
  ultimately show ?thesis unfolding advances_def by simp
qed

lemma quiet_bound:
  "quiet valid fz fz' \<Longrightarrow> claimed_from paths i fz \<Longrightarrow> finite {p. valid p} \<Longrightarrow>
     work_bound valid (fz_dictionary fz') \<le> work_bound valid (fz_dictionary fz)"
  using fold_add_extra_bound by (auto simp: quiet_def claimed_from_def)

lemma advances_quiet:
  "quiet valid fz fz' \<Longrightarrow> claimed_from paths i fz \<Longrightarrow> advances valid paths i i fz fz'"
  using quiet_claimed [of valid fz fz' paths i] quiet_bound [of valid fz fz' paths i]
  by (simp add: advances_def) (simp add: quiet_def)

lemma release_list_advances:
  assumes c: "claimed_from (Inl ps) i fz" and ij: "i \<le> j" "j \<le> length ps"
  shows "\<exists>fz'. release_paths (slice i j ps) fz = (Inr (), fz') \<and> advances valid (Inl ps) i j fz fz'"
proof -
  let ?q = "map (dictionary_path (fz_base_path fz)) ps" and ?d = "fz_dictionary fz"
  have q: "map (dictionary_path (fz_base_path fz)) (slice i j ps) = slice i j ?q"
    by (simp add: slice_def take_map drop_map)
  have ready: "dict_ready ?d" and sub: "mset (drop i ?q) \<subseteq># mset (d_claimed ?d)"
    using c by (auto simp: claimed_from_def dict_ready_def queue_paths_def)
  have out: "dict_ready d \<Longrightarrow> dict_outstanding d = d_claimed d" for d
    by (simp add: dict_ready_def dict_outstanding_def native_outstanding_def)
  have dr: "mset (drop i ?q) = mset (slice i j ?q) + mset (drop j ?q)" using ij(1) by (rule mset_drop_slice)
  with sub out [OF ready] have "mset (slice i j ?q) \<subseteq># mset (dict_outstanding ?d)"
    by (metis mset_subset_eq_add_left subset_mset.order_trans)
  from dq.finish_ok [OF ready this] obtain d' where d': "release_claims (slice i j ?q) ?d = (Inr (), d')"
    and m: "mset (dict_outstanding ?d) = mset (slice i j ?q) + mset (dict_outstanding d')" by blast
  have frame: "work_bound valid d' = work_bound valid ?d"
    using d' by (auto simp: release_claims_eq work_bound_def dict_pending_def split: sum.splits)
  have ready': "dict_ready d'" using dq.invar_finish [OF ready, of "slice i j ?q"] d' by simp
  have "mset (drop j ?q) \<subseteq># mset (d_claimed d')"
    using sub m dr out [OF ready] out [OF ready'] by simp
  with ready' ij m frame have "advances valid (Inl ps) i j fz (fz\<lparr>fz_dictionary := d'\<rparr>)"
    by (simp add: advances_def claimed_from_def queue_paths_def dict_ready_def should_stop_processing_def)
  with d' q show ?thesis by (simp add: release_paths_def with_state_def on_queue_def)
qed

lemma release_chunk_advances:
  assumes c: "claimed_from (Inr chunk) i fz" and ij: "i < j" "j \<le> length (chunk_paths chunk)"
  shows "\<exists>fz'. on_queue (release_native_claims chunk (j - i)) fz = (Inr (), fz') \<and> advances valid (Inr chunk) i j fz fz'"
proof -
  let ?d = "fz_dictionary fz"
  have wf: "dict_wf ?d" using c by (simp add: claimed_from_def)
  obtain cl where cl: "d_native_claim ?d = Some cl" "claim_chunk cl = chunk" "claim_released cl = i"
    using c ij by (auto simp: claimed_from_def)
  obtain d' where d': "release_native_claims chunk (j - i) ?d = (Inr (), d')"
    and frame: "work_bound valid d' = work_bound valid ?d"
    and nc: "d_native_claim d' = (if j = length (chunk_paths chunk) then None else Some (cl\<lparr>claim_released := j\<rparr>))"
    using cl ij by (cases "j = length (chunk_paths chunk)") (auto simp: release_native_claims_def Let_def work_bound_def dict_pending_def)
  from release_native_effect [OF wf cl(1), of "j - i" d'] cl d' have
    e: "dict_wf d'" "d_claimed d' = d_claimed ?d"
      "native_outstanding ?d = take (j - i) (native_outstanding ?d) @ native_outstanding d'" by auto
  have n: "native_outstanding ?d = drop i (chunk_paths chunk)" using cl by (simp add: native_outstanding_def)
  have "mset (native_outstanding ?d) = mset (slice i j (chunk_paths chunk)) + mset (native_outstanding d')"
    using arg_cong [OF e(3), of mset] unfolding slice_def mset_append n .
  then have "mset (dict_outstanding ?d) = mset (slice i j (chunk_paths chunk)) + mset (dict_outstanding d')"
    by (simp add: dict_outstanding_def e(2))
  with e nc cl ij frame have "advances valid (Inr chunk) i j fz (fz\<lparr>fz_dictionary := d'\<rparr>)"
    by (auto simp: advances_def claimed_from_def queue_paths_def should_stop_processing_def)
  with d' show ?thesis by (simp add: on_queue_def)
qed

lemma finally_advances:
  assumes "native_safe valid m" and "claimed_from paths i fz" and "io_finally m rel fz = (r, fz')"
    and "\<And>f. claimed_from paths i f \<Longrightarrow> fz_base_path f = fz_base_path fz \<Longrightarrow>
      \<exists>f'. rel f = (Inr (), f') \<and> advances valid paths i j f f'"
  shows "advances valid paths i j fz fz'"
proof -
  obtain r1 f1 where m: "m fz = (r1, f1)" by fastforce
  then have q: "quiet valid fz f1" using assms(1) unfolding native_safe_def by (metis snd_conv)
  from assms(4) [OF quiet_claimed(1) [OF q assms(2)]] q obtain f2 where
    f2: "rel f1 = (Inr (), f2)" "advances valid paths i j f1 f2" by (auto simp: quiet_def)
  with assms(3) m have "fz' = f2" by (simp add: io_finally_def)
  with advances_trans [OF advances_quiet [OF q assms(2)] f2(2)] show ?thesis by simp
qed

lemma slice_all: "slice 0 (length ps) ps = ps"
  by (simp add: slice_def)

lemma filtered_range_advances:
  assumes "native_callbacks_safe valid env" and c: "claimed_from paths i fz" and ij: "i < j" "j \<le> paths_length paths"
    and r: "process_filtered_range env paths i j fz = (r, fz')"
  shows "advances valid paths i j fz fz'"
proof -
  have safe: "native_safe valid (run_callbacks (fe_filtered_chunk_callbacks env) n)" for n
    using assms(1) by (auto simp: native_callbacks_safe_def intro: run_callbacks_native)
  show ?thesis
  proof (cases paths)
    case (Inl ps)
    have ne: "slice i j ps \<noteq> []" and len: "j \<le> length ps"
      using ij Inl by (auto simp: slice_def paths_length_def claimed_paths_def)
    have "process_filtered_range env paths i j = process_filtered_paths env (slice i j ps)"
      using ij Inl by (auto simp: process_filtered_range_def slice_all)
    with r ne have "io_finally (run_callbacks (fe_filtered_chunk_callbacks env) (length (slice i j ps)))
        (release_paths (slice i j ps)) fz = (r, fz')" by (simp add: process_filtered_paths_def)
    from finally_advances [OF safe c this, of j] Inl ij len show ?thesis
      by (simp add: release_list_advances less_imp_le)
  next
    case (Inr chunk)
    have "io_finally (run_callbacks (fe_filtered_chunk_callbacks env) (j - i))
        (on_queue (release_native_claims chunk (j - i))) fz = (r, fz')"
      using r ij Inr by (simp add: process_filtered_range_def)
    from finally_advances [OF safe c this, of j] Inr ij show ?thesis
      by (simp add: release_chunk_advances [simplified] paths_length_def claimed_paths_def)
  qed
qed

lemma event_advances:
  assumes "native_callbacks_safe valid env" and c: "claimed_from paths (ev_request_index ev) fz"
    and i: "ev_request_index ev < paths_length paths"
    and path: "\<forall>ps. paths = Inl ps \<longrightarrow> ev_path ev = ps ! ev_request_index ev"
    and r: "io_finally (process_native_result env (ev_path ev) (ev_response ev) (ev_error ev)) (release_event paths ev) fz = (r, fz')"
  shows "advances valid paths (ev_request_index ev) (Suc (ev_request_index ev)) fz fz'"
proof (rule finally_advances [OF process_native_result_safe [OF assms(1)] c r])
  fix f :: "'a fuzzer"
  assume f: "claimed_from paths (ev_request_index ev) f"
  show "\<exists>f'. release_event paths ev f = (Inr (), f') \<and>
      advances valid paths (ev_request_index ev) (Suc (ev_request_index ev)) f f'"
  proof (cases paths)
    case (Inl ps)
    then have "[ev_path ev] = slice (ev_request_index ev) (Suc (ev_request_index ev)) ps"
      using i path by (simp add: slice_Suc paths_length_def claimed_paths_def)
    with release_list_advances [of ps "ev_request_index ev" f "Suc (ev_request_index ev)"] f i Inl show ?thesis
      by (simp add: release_event_def paths_length_def claimed_paths_def)
  next
    case (Inr chunk)
    with release_chunk_advances [of chunk "ev_request_index ev" f "Suc (ev_request_index ev)"] f i show ?thesis
      by (simp add: release_event_def paths_length_def claimed_paths_def)
  qed
qed

text \<open>The events of a chunk: their indices ascend within the range, and the path of an event is the
  claimed path with its index.\<close>

fun events_ok :: "native_paths \<Rightarrow> nat \<Rightarrow> nat \<Rightarrow> native_event list \<Rightarrow> bool" where
  "events_ok paths i j [] = (i \<le> j \<and> j \<le> paths_length paths)"
| "events_ok paths i j (ev # evs) =
     (i \<le> ev_request_index ev \<and> ev_request_index ev < j \<and> j \<le> paths_length paths \<and>
      (case paths of Inl ps \<Rightarrow> ev_path ev = ps ! ev_request_index ev | Inr _ \<Rightarrow> True) \<and>
      events_ok paths (Suc (ev_request_index ev)) j evs)"

lemma advances_refl: "claimed_from paths i fz \<Longrightarrow> advances valid paths i i fz fz"
  by (simp add: advances_def)

lemma advances_claimed: "advances valid paths i k fz fz' \<Longrightarrow> claimed_from paths k fz'"
  by (simp add: advances_def)

lemma process_events_progress:
  assumes safe: "native_callbacks_safe valid env"
  shows "events_ok paths i j evs \<Longrightarrow> claimed_from paths i fz \<Longrightarrow>
    process_events env paths j i evs fz = (r, fz') \<Longrightarrow>
    \<exists>k \<le> j. advances valid paths i k fz fz' \<and> (r = Inr () \<and> \<not> should_stop_processing fz' \<longrightarrow> k = j)"
proof (induction evs arbitrary: i fz)
  case Nil
  show ?case
  proof (cases "\<not> should_stop_processing fz \<and> i < j")
    case True
    with Nil have "process_filtered_range env paths i j fz = (r, fz')" by (simp add: with_state_def)
    from filtered_range_advances [OF safe Nil.prems(2) _ _ this] True Nil.prems(1) show ?thesis by auto
  next
    case False
    with Nil have "fz' = fz" by (auto simp: with_state_def)
    with False Nil advances_refl [OF Nil.prems(2)] show ?thesis by (intro exI [of _ i]) auto
  qed
next
  case (Cons ev evs)
  let ?x = "ev_request_index ev"
  have ev: "i \<le> ?x" "?x < j" "j \<le> paths_length paths" "\<forall>ps. paths = Inl ps \<longrightarrow> ev_path ev = ps ! ?x"
    "events_ok paths (Suc ?x) j evs" using Cons.prems(1) by (auto split: sum.splits)
  show ?case
  proof (cases "should_stop_processing fz")
    case True
    with Cons.prems have "fz' = fz" by (simp add: with_state_def)
    with True ev advances_refl [OF Cons.prems(2)] show ?thesis by (intro exI [of _ i]) auto
  next
    case False
    let ?pre = "if i < ?x then process_filtered_range env paths i ?x else ret ()"
    obtain r1 f1 where pre: "?pre fz = (r1, f1)" by fastforce
    have a1: "advances valid paths i ?x fz f1"
    proof (cases "i < ?x")
      case True
      with pre ev filtered_range_advances [OF safe Cons.prems(2), of ?x] show ?thesis by simp
    next
      case False
      with pre ev Cons.prems(2) show ?thesis by (simp add: advances_refl)
    qed
    show ?thesis
    proof (cases "r1 = Inr () \<and> \<not> should_stop_processing f1")
      case False
      then have "fz' = f1 \<and> (r = Inr () \<longrightarrow> should_stop_processing fz')"
        using Cons.prems(3) pre \<open>\<not> should_stop_processing fz\<close>
        by (cases r1) (auto simp: with_state_def io_bind_def split: if_splits)
      with a1 ev show ?thesis by (intro exI [of _ ?x]) auto
    next
      case True
      let ?one = "io_finally (process_native_result env (ev_path ev) (ev_response ev) (ev_error ev)) (release_event paths ev)"
      obtain r2 f2 where one: "?one f1 = (r2, f2)" by fastforce
      from event_advances [OF safe advances_claimed [OF a1] _ ev(4) one] ev
      have "advances valid paths ?x (Suc ?x) f1 f2" by simp
      with a1 have a2: "advances valid paths i (Suc ?x) fz f2" by (rule advances_trans)
      have eq: "process_events env paths j i (ev # evs) fz =
          (case r2 of Inl e \<Rightarrow> (Inl e, f2) | Inr _ \<Rightarrow> process_events env paths j (Suc ?x) evs f2)"
        using pre one True \<open>\<not> should_stop_processing fz\<close> by (simp add: with_state_def io_bind_def split: sum.split)
      show ?thesis
      proof (cases r2)
        case (Inl e)
        with eq Cons.prems(3) a2 ev show ?thesis by (intro exI [of _ "Suc ?x"]) auto
      next
        case (Inr u)
        with eq Cons.prems(3) have "process_events env paths j (Suc ?x) evs f2 = (r, fz')" by simp
        from Cons.IH [OF ev(5) advances_claimed [OF a2] this] obtain k where "k \<le> j"
          "advances valid paths (Suc ?x) k f2 fz'" "r = Inr () \<and> \<not> should_stop_processing fz' \<longrightarrow> k = j" by blast
        with advances_trans [OF a2] show ?thesis by (intro exI [of _ k]) simp
      qed
    qed
  qed
qed

section \<open>The engine and the loop\<close>

text \<open>What the engine promises: it calls the callback for consecutive ranges from the first path on,
  raises when the callback did, and delivers everything unless it failed or was cancelled by a stop.\<close>

fun chunks_ok :: "native_paths \<Rightarrow> nat \<Rightarrow> nat \<Rightarrow> native_scan_chunk list \<Rightarrow> bool" where
  "chunks_ok paths i m [] = (i = m)"
| "chunks_ok paths i m (c # cs) =
     (nc_start_index c = i \<and> events_ok paths i (nc_end_index c) (nc_events c) \<and> chunks_ok paths (nc_end_index c) m cs)"

definition engine_ok :: "'w engine \<Rightarrow> bool" where
  "engine_ok engine \<longleftrightarrow>
     (\<forall>paths cb fz. \<exists>cs m. m \<le> paths_length paths \<and> chunks_ok paths 0 m cs \<and>
        snd (engine paths cb fz) = snd (each cb cs fz) \<and>
        (fst (engine paths cb fz) = Inr () \<longrightarrow> fst (each cb cs fz) = Inr ()) \<and>
        (fst (engine paths cb fz) = Inr () \<and> \<not> should_stop_processing (snd (engine paths cb fz)) \<longrightarrow>
         m = paths_length paths))"

lemma events_ok_le: "events_ok paths i j evs \<Longrightarrow> i \<le> j"
  by (induction evs arbitrary: i) fastforce+

lemma chunks_ok_le: "chunks_ok paths i m cs \<Longrightarrow> i \<le> m"
  by (induction cs arbitrary: i) (auto dest: events_ok_le le_trans)

lemma stopped_events: "should_stop_processing fz \<Longrightarrow> process_events env paths j i evs fz = (Inr (), fz)"
  by (cases evs) (simp_all add: with_state_def ret_def)

lemma stopped_chunks:
  "should_stop_processing fz \<Longrightarrow> each (process_native_chunk env paths) cs fz = (Inr (), fz)"
  by (induction cs) (simp_all add: ret_def io_bind_def process_native_chunk_def stopped_events)

lemma each_chunk_progress:
  assumes safe: "native_callbacks_safe valid env"
  shows "chunks_ok paths i m cs \<Longrightarrow> claimed_from paths i fz \<Longrightarrow>
    each (process_native_chunk env paths) cs fz = (r, fz') \<Longrightarrow>
    \<exists>k \<le> m. advances valid paths i k fz fz' \<and> (r = Inr () \<and> \<not> should_stop_processing fz' \<longrightarrow> k = m)"
proof (induction cs arbitrary: i fz)
  case Nil
  then show ?case by (auto intro: advances_refl)
next
  case (Cons c cs)
  have c: "nc_start_index c = i" "events_ok paths i (nc_end_index c) (nc_events c)"
    and rest: "chunks_ok paths (nc_end_index c) m cs" using Cons.prems(1) by simp_all
  obtain r1 f1 where one: "process_native_chunk env paths c fz = (r1, f1)" by fastforce
  from process_events_progress [OF safe c(2) Cons.prems(2)] one c obtain k where
    k: "k \<le> nc_end_index c" "advances valid paths i k fz f1"
      "r1 = Inr () \<and> \<not> should_stop_processing f1 \<longrightarrow> k = nc_end_index c"
    by (metis process_native_chunk_def)
  have le: "k \<le> m" using k(1) chunks_ok_le [OF rest] by simp
  show ?case
  proof (cases r1)
    case (Inl e)
    with Cons.prems(3) one have "r = Inl e" "fz' = f1" by (auto simp: io_bind_def)
    with k le show ?thesis by auto
  next
    case (Inr u)
    with Cons.prems(3) one have e: "each (process_native_chunk env paths) cs f1 = (r, fz')" by (simp add: io_bind_def)
    show ?thesis
    proof (cases "should_stop_processing f1")
      case False
      with k Inr have "k = nc_end_index c" by simp
      from Cons.IH [OF rest _ e] k(2) this obtain k' where "k' \<le> m" "advances valid paths k k' f1 fz'"
        "r = Inr () \<and> \<not> should_stop_processing fz' \<longrightarrow> k' = m"
        by (metis advances_claimed)
      with advances_trans [OF k(2)] show ?thesis by (intro exI [of _ k']) simp
    next
      case True
      with e have "fz' = f1" by (simp add: stopped_chunks)
      with k le True show ?thesis by auto
    qed
  qed
qed

text \<open>What a claim for the engine gives.\<close>

lemma claim_native_shape:
  assumes wf: "dict_wf d" and nc: "d_native_claim d = None" and n: "n \<noteq> 0"
  shows "\<exists>r d'. claim_native_many n b d = (Inr r, d') \<and>
    (case r of
       Inl ps \<Rightarrow> d_native_claim d' = None \<and> (ps = [] \<longrightarrow> dict_pending d = [])
     | Inr chunk \<Rightarrow> chunk_paths chunk \<noteq> [] \<and>
         (\<exists>c. d_native_claim d' = Some c \<and> claim_chunk c = chunk \<and> claim_released c = 0))"
proof -
  consider (list) "\<not> d_native d" | (extras) "d_native d" "d_extra_index d < length (d_extra d)"
    | (chunk) "d_native d" "length (d_extra d) \<le> d_extra_index d" by linarith
  then show ?thesis
  proof cases
    case list
    have "fst (claim_many n d) = [] \<longrightarrow> dict_pending d = []"
      using claim_many_eq [OF wf, of n] n by (metis fst_conv take_eq_Nil)
    moreover have "d_native_claim (snd (claim_many n d)) = None"
      using nc by (simp add: claim_many_def claim_lists_eq)
    ultimately show ?thesis using claim_native_list [OF n nc list, of b] by simp
  next
    case extras
    then show ?thesis using claim_native_extras [OF n nc extras, of b] nc n by simp
  next
    case chunk
    then show ?thesis using claim_native_chunk [OF n nc chunk, of b] nc n by (auto simp: Let_def dict_pending_def)
  qed
qed

lemma dict_path_base [simp]: "dictionary_path base (base @ p) = p"
  by (simp add: dictionary_path_def)

lemma dict_path_Nil [simp]: "map (dictionary_path []) ps = ps"
  by (simp add: map_idI dictionary_path_def)

definition settled :: "'w fuzzer \<Rightarrow> bool" where
  "settled fz \<longleftrightarrow> dict_wf (fz_dictionary fz) \<and> dict_outstanding (fz_dictionary fz) = []"

lemma settled_no_claim: "settled fz \<Longrightarrow> d_native_claim (fz_dictionary fz) = None \<and> d_claimed (fz_dictionary fz) = []"
  by (auto simp: settled_def dict_outstanding_def native_outstanding_def dict_wf_def native_claim_ok_def
      split: option.splits)

lemma take_frame [simp]:
  "d_items (snd (take_extras n d)) = d_items d" "d_extra_membership (snd (take_extras n d)) = d_extra_membership d"
  "d_items (snd (take_items n d)) = d_items d" "d_extra_membership (snd (take_items n d)) = d_extra_membership d"
  by (simp_all add: take_extras_def take_items_def Let_def)

lemma claim_native_items:
  assumes "claim_native_many n b d = (Inr r, d')" and "d_native_claim d = None" and "dict_wf d"
  shows "d_items d' = d_items d \<and> d_extra_membership d' = d_extra_membership d"
proof -
  have "d_items (snd (claim_native_many n b d)) = d_items d \<and>
      d_extra_membership (snd (claim_native_many n b d)) = d_extra_membership d"
    by (simp add: claim_native_many_def claim_lists_def Let_def case_prod_beta)
  with assms(1) show ?thesis by simp
qed

lemma next_chunk_claims:
  assumes "settled fz"
  shows "\<exists>paths f. next_chunk env fz = (Inr paths, f) \<and> claimed_from paths 0 f \<and>
    fz_base_path f = fz_base_path fz \<and> fz_play f = fz_play fz \<and> fz_quit f = fz_quit fz \<and>
    dict_pending (fz_dictionary fz) = queue_paths (fz_base_path fz) paths @ dict_pending (fz_dictionary f) \<and>
    mset (dict_outstanding (fz_dictionary f)) = mset (queue_paths (fz_base_path fz) paths) \<and>
    (paths_length paths = 0 \<longrightarrow> dict_pending (fz_dictionary fz) = [] \<and> settled f) \<and>
    work_bound valid (fz_dictionary f) + paths_length paths = work_bound valid (fz_dictionary fz)"
proof -
  let ?d = "fz_dictionary fz" and ?b = "fz_base_path fz" and ?n = "native_chunk_size (fe_options env)"
  have wf: "dict_wf ?d" and out: "dict_outstanding ?d = []" using assms by (simp_all add: settled_def)
  have nc: "d_native_claim ?d = None" using settled_no_claim [OF assms] by simp
  have n: "?n \<noteq> 0" by (simp add: native_chunk_size_def)
  from claim_native_shape [OF wf nc n, of ?b] obtain r d' where r: "claim_native_many ?n ?b ?d = (Inr r, d')"
    and shape: "case r of
       Inl ps \<Rightarrow> d_native_claim d' = None \<and> (ps = [] \<longrightarrow> dict_pending ?d = [])
     | Inr chunk \<Rightarrow> chunk_paths chunk \<noteq> [] \<and>
         (\<exists>c. d_native_claim d' = Some c \<and> claim_chunk c = chunk \<and> claim_released c = 0)" by blast
  note eff = claim_native_effect [OF wf r]
  let ?paths = "case r of Inr chunk \<Rightarrow> Inr chunk | Inl ps \<Rightarrow> Inl (if ?b = [] then ps else map (\<lambda>p. ?b @ p) ps)"
  let ?f = "fz\<lparr>fz_dictionary := d'\<rparr>"
  have nx: "next_chunk env fz = (Inr ?paths, ?f)"
    using r by (simp add: next_chunk_def with_state_def io_bind_def on_queue_def ret_def)
  have qp: "queue_paths ?b ?paths = claimed_paths r"
    by (cases r) (auto simp: queue_paths_def claimed_paths_def dictionary_path_def o_def split: if_splits)
  have len: "paths_length ?paths = length (claimed_paths r)"
    by (cases r) (simp_all add: paths_length_def claimed_paths_def)
  have o: "mset (dict_outstanding d') = mset (claimed_paths r)" using eff out by simp
  have items: "d_items d' = d_items ?d \<and> d_extra_membership d' = d_extra_membership ?d"
    using r nc wf by (rule claim_native_items)
  have cl: "claimed_from ?paths 0 ?f"
  proof (cases r)
    case (Inl ps)
    with shape have "dict_outstanding d' = d_claimed d'" by (simp add: dict_outstanding_def native_outstanding_def)
    with o have "mset (claimed_paths r) \<subseteq># mset (d_claimed d')" by simp
    with Inl shape eff qp show ?thesis by (simp add: claimed_from_def)
  next
    case (Inr chunk)
    with shape eff show ?thesis by (auto simp: claimed_from_def queue_paths_def)
  qed
  have z: "dict_pending ?d = [] \<and> settled ?f" if "paths_length ?paths = 0"
  proof -
    have "claimed_paths r = []" using that len by simp
    with o eff shape show ?thesis by (cases r) (auto simp: settled_def claimed_paths_def)
  qed
  have "work_bound valid d' + length (claimed_paths r) = work_bound valid ?d"
    using eff items by (simp add: work_bound_def)
  with nx cl eff o qp len z show ?thesis by (intro exI [of _ ?paths] exI [of _ ?f]) simp
qed

lemma requeue_settles: "dict_wf (fz_dictionary fz) \<Longrightarrow> settled (requeue fz)"
  by (simp add: settled_def requeue_def requeue_wf requeue_outstanding_eq)

lemma requeue_flags [simp]:
  "fz_quit (requeue fz) = fz_quit fz" "fz_play (requeue fz) = fz_play fz"
  by (simp_all add: requeue_def)

text \<open>One round: the state after the engine.\<close>

lemma engine_round:
  assumes safe: "native_callbacks_safe valid env" and eng: "engine_ok engine" and c: "claimed_from paths 0 fz"
    and out: "mset (dict_outstanding (fz_dictionary fz)) = mset (queue_paths (fz_base_path fz) paths)"
    and r: "engine paths (process_native_chunk env paths) fz = (r, fz')"
  shows "dict_wf (fz_dictionary fz') \<and>
    (finite {p. valid p} \<longrightarrow> work_bound valid (fz_dictionary fz') \<le> work_bound valid (fz_dictionary fz)) \<and>
    (should_stop_processing fz \<longrightarrow> should_stop_processing fz') \<and>
    (r = Inr () \<and> \<not> should_stop_processing fz' \<longrightarrow> settled fz')"
proof -
  from eng obtain cs m where m: "chunks_ok paths 0 m cs"
    and e: "fz' = snd (each (process_native_chunk env paths) cs fz)"
    and ok: "r = Inr () \<longrightarrow> fst (each (process_native_chunk env paths) cs fz) = Inr ()"
    and all: "r = Inr () \<and> \<not> should_stop_processing fz' \<longrightarrow> m = paths_length paths"
    unfolding engine_ok_def using r by (metis fst_conv snd_conv)
  have "each (process_native_chunk env paths) cs fz = (fst (each (process_native_chunk env paths) cs fz), fz')"
    using e by simp
  from each_chunk_progress [OF safe m c this] obtain k where k: "advances valid paths 0 k fz fz'"
    and full: "fst (each (process_native_chunk env paths) cs fz) = Inr () \<and> \<not> should_stop_processing fz' \<longrightarrow> k = m"
    by blast
  have "settled fz'" if "r = Inr () \<and> \<not> should_stop_processing fz'"
  proof -
    have "k = length (queue_paths (fz_base_path fz) paths)"
      using that full ok all by (cases paths) (simp_all add: paths_length_def claimed_paths_def queue_paths_def)
    then have "mset (dict_outstanding (fz_dictionary fz')) = {#}"
      using k out by (simp add: advances_def slice_all)
    with k show ?thesis by (simp add: settled_def advances_def claimed_from_def)
  qed
  with k show ?thesis by (simp add: advances_def claimed_from_def)
qed

lemma native_loop_spec:
  assumes safe: "native_callbacks_safe valid env" and eng: "engine_ok engine"
  shows "settled fz \<Longrightarrow> native_loop n env engine fz = Some (r, fz') \<Longrightarrow>
    dict_wf (fz_dictionary fz') \<and> (r = Inr True \<and> fz_quit fz' \<or> settled fz') \<and>
    (r = Inr True \<longrightarrow> fz_quit fz' \<or> dict_pending (fz_dictionary fz') = [])"
proof (induction n arbitrary: fz)
  case (Suc n)
  show ?case
  proof (cases "fz_quit fz \<or> \<not> fz_play fz")
    case True
    then have "fz_quit fz \<and> r = Inr True \<and> fz' = fz \<or> r = Inr False \<and> fz' = requeue fz"
      using Suc.prems(2) by (auto split: if_splits)
    with Suc.prems(1) requeue_settles [of fz] show ?thesis by (auto simp: settled_def)
  next
    case False
    from next_chunk_claims [OF Suc.prems(1), of env valid] obtain paths f where
      nx: "next_chunk env fz = (Inr paths, f)" and c: "claimed_from paths 0 f"
      and fr: "fz_base_path f = fz_base_path fz" "fz_play f = fz_play fz" "fz_quit f = fz_quit fz"
      and pend: "dict_pending (fz_dictionary fz) = queue_paths (fz_base_path fz) paths @ dict_pending (fz_dictionary f)"
      and out: "mset (dict_outstanding (fz_dictionary f)) = mset (queue_paths (fz_base_path fz) paths)"
      and z: "paths_length paths = 0 \<longrightarrow> dict_pending (fz_dictionary fz) = [] \<and> settled f"
      by (elim exE conjE) (rule that)
    show ?thesis
    proof (cases "paths_length paths = 0")
      case True
      with Suc.prems(2) False nx z pend show ?thesis by (auto simp: settled_def)
    next
      case ne: False
      obtain q g where q: "engine paths (process_native_chunk env paths) f = (q, g)" by fastforce
      have out': "mset (dict_outstanding (fz_dictionary f)) = mset (queue_paths (fz_base_path f) paths)"
        using out fr by simp
      note rd = engine_round [OF safe eng c out' q]
      show ?thesis
      proof (cases q)
        case (Inl e)
        with Suc.prems(2) False nx ne q have "r = Inl e" "fz' = requeue g" by auto
        moreover have "settled (requeue g)" using rd requeue_settles by blast
        ultimately show ?thesis by (simp add: settled_def)
      next
        case (Inr u)
        let ?g = "if \<not> fz_play g then requeue g else g"
        have l: "native_loop n env engine ?g = Some (r, fz')"
          using Suc.prems(2) False nx ne q Inr by simp
        show ?thesis
        proof (cases "\<not> fz_play g \<or> settled g")
          case True
          then have "settled ?g" using rd requeue_settles [of g] by auto
          from Suc.IH [OF this l] show ?thesis .
        next
          case False
          with rd Inr have "fz_quit g" by (auto simp: should_stop_processing_def)
          with l False rd show ?thesis by (cases n) auto
        qed
      qed
    qed
  qed
qed simp

lemma native_loop_ends:
  assumes safe: "native_callbacks_safe valid env" and eng: "engine_ok engine" and fin: "finite {p. valid p}"
  shows "settled fz \<Longrightarrow> work_bound valid (fz_dictionary fz) < n \<Longrightarrow> \<exists>res. native_loop n env engine fz = Some res"
proof (induction n arbitrary: fz)
  case (Suc n)
  show ?case
  proof (cases "fz_quit fz \<or> \<not> fz_play fz")
    case False
    from next_chunk_claims [OF Suc.prems(1), of env valid] obtain paths f where
      nx: "next_chunk env fz = (Inr paths, f)" and c: "claimed_from paths 0 f"
      and fr: "fz_base_path f = fz_base_path fz"
      and out: "mset (dict_outstanding (fz_dictionary f)) = mset (queue_paths (fz_base_path fz) paths)"
      and wb: "work_bound valid (fz_dictionary f) + paths_length paths = work_bound valid (fz_dictionary fz)" by blast
    show ?thesis
    proof (cases "paths_length paths = 0")
      case ne: False
      obtain q g where q: "engine paths (process_native_chunk env paths) f = (q, g)" by fastforce
      have out': "mset (dict_outstanding (fz_dictionary f)) = mset (queue_paths (fz_base_path f) paths)"
        using out fr by simp
      note rd = engine_round [OF safe eng c out' q]
      show ?thesis
      proof (cases q)
        case (Inr u)
        let ?g = "if \<not> fz_play g then requeue g else g"
        have "\<exists>res. native_loop n env engine ?g = Some res"
        proof (cases "should_stop_processing g")
          case True
          with Suc.prems(2) wb ne obtain k where "n = Suc k" by (cases n) auto
          with True show ?thesis by (auto simp: should_stop_processing_def)
        next
          case False
          with rd Inr fin wb ne Suc.prems(2) have "settled g" "work_bound valid (fz_dictionary g) < n" by auto
          with False Suc.IH show ?thesis by (simp add: should_stop_processing_def)
        qed
        with False nx ne q Inr show ?thesis by simp
      qed (use False nx ne q in simp)
    qed (use False nx in simp)
  qed auto
qed simp

section \<open>An engine\<close>

text \<open>Every response filtered: one chunk without events.\<close>

definition missing_all :: "string list engine" where
  "missing_all paths cb = cb \<lparr>nc_start_index = 0, nc_end_index = paths_length paths, nc_events = []\<rparr>"

definition two_paths :: "string list fuzzer" where
  "two_paths = play (new_fuzzer (dict_init [''a'', ''b''] False) [])"

lemma missing_all_ok: "engine_ok missing_all"
proof -
  have "\<exists>cs m. m \<le> paths_length paths \<and> chunks_ok paths 0 m cs \<and>
        snd (missing_all paths cb fz) = snd (each cb cs fz) \<and>
        (fst (missing_all paths cb fz) = Inr () \<longrightarrow> fst (each cb cs fz) = Inr ()) \<and>
        (fst (missing_all paths cb fz) = Inr () \<and> \<not> should_stop_processing (snd (missing_all paths cb fz)) \<longrightarrow>
         m = paths_length paths)" for paths cb fz
    by (intro exI [of _ "[\<lparr>nc_start_index = 0, nc_end_index = paths_length paths, nc_events = []\<rparr>]"]
          exI [of _ "paths_length paths"])
       (auto simp: missing_all_def io_bind_def ret_def split: prod.split sum.split)
  then show ?thesis unfolding engine_ok_def by blast
qed

lemma two_paths_settled: "settled two_paths"
  by (simp add: settled_def two_paths_def play_def new_fuzzer_def dict_outstanding_def native_outstanding_def dict_init_def
      dict_wf_def native_claim_ok_def)

lemma demo_native_safe: "native_callbacks_safe valid demo_fuzz"
  by (simp add: native_callbacks_safe_def demo_fuzz_def)

lemma two_paths_work: "work_bound (\<lambda>_. False) (fz_dictionary two_paths) = 2"
  by (simp add: work_bound_def two_paths_def play_def new_fuzzer_def dict_init_def dict_pending_def)

section \<open>Properties\<close>

text \<open>A native scan strands no path: whatever chunks the engine delivers and however its callbacks
  fail or stop it, the loop ends with no claim left over, unless it was told to quit; and when it
  ends by itself the queue is empty.\<close>
theorem native_scan_strands_no_path:
  assumes "native_callbacks_safe valid env" and "engine_ok engine" and "settled fz"
    and "native_loop n env engine fz = Some (r, fz')"
  shows "(fz_quit fz' \<or> dict_outstanding (fz_dictionary fz') = []) \<and>
    (r = Inr True \<longrightarrow> fz_quit fz' \<or> dict_pending (fz_dictionary fz') = [])"
  using native_loop_spec [OF assms] by (auto simp: settled_def)

theorem native_scan_strands_no_path_witness:
  "\<exists>r fz'. native_loop 3 demo_fuzz missing_all two_paths = Some (r, fz') \<and>
     (fz_quit fz' \<or> dict_outstanding (fz_dictionary fz') = []) \<and>
     (r = Inr True \<longrightarrow> fz_quit fz' \<or> dict_pending (fz_dictionary fz') = [])"
proof -
  obtain r fz' where l: "native_loop 3 demo_fuzz missing_all two_paths = Some (r, fz')"
    using native_loop_ends [OF demo_native_safe missing_all_ok _ two_paths_settled, of "\<lambda>_. False" 3]
    by (auto simp: two_paths_work)
  from native_scan_strands_no_path [OF demo_native_safe missing_all_ok two_paths_settled l] l show ?thesis by blast
qed

text \<open>The loop of a native scan ends, in as many rounds as there is pending and discoverable work.\<close>
theorem native_scan_terminates:
  assumes "native_callbacks_safe valid env" and "engine_ok engine" and "finite {p. valid p}"
    and "settled fz" and "work_bound valid (fz_dictionary fz) < n"
  shows "\<exists>res. native_loop n env engine fz = Some res"
  using native_loop_ends [OF assms] .

theorem native_scan_terminates_witness:
  "\<exists>res. native_loop 3 demo_fuzz missing_all two_paths = Some res"
  by (rule native_scan_terminates [OF demo_native_safe missing_all_ok _ two_paths_settled, of "\<lambda>_. False"])
     (simp_all add: two_paths_work)

text \<open>C12: progress inside a chunk is a prefix: after any number of events, failures and stops, the paths
  that were released are those from the chunk's start up to some index, no path in between is
  skipped, and all of the chunk is released when nothing failed and nobody stopped it.\<close>
theorem native_progress_is_prefix:
  assumes "native_callbacks_safe valid env"
    and "events_ok paths (nc_start_index chunk) (nc_end_index chunk) (nc_events chunk)"
    and "claimed_from paths (nc_start_index chunk) fz"
    and "process_native_chunk env paths chunk fz = (r, fz')"
  shows "\<exists>k \<le> nc_end_index chunk. claimed_from paths k fz' \<and>
    mset (dict_outstanding (fz_dictionary fz)) =
      mset (slice (nc_start_index chunk) k (queue_paths (fz_base_path fz) paths)) +
      mset (dict_outstanding (fz_dictionary fz')) \<and>
    (r = Inr () \<and> \<not> should_stop_processing fz' \<longrightarrow> k = nc_end_index chunk)"
  using process_events_progress [OF assms(1,2,3) assms(4) [unfolded process_native_chunk_def]]
  by (auto simp: advances_def)

theorem native_progress_is_prefix_witness:
  "\<exists>k \<le> 2. claimed_from (Inl [''a'', ''b'']) k (snd (process_native_chunk demo_fuzz (Inl [''a'', ''b''])
     \<lparr>nc_start_index = 0, nc_end_index = 2, nc_events = []\<rparr> (handed [''a'', ''b''] 2 [''a'', ''b''] True)))"
proof -
  let ?p = "Inl [''a'', ''b''] :: native_paths" and ?fz = "handed [''a'', ''b''] 2 [''a'', ''b''] True"
  let ?c = "\<lparr>nc_start_index = 0, nc_end_index = 2, nc_events = []\<rparr>"
  obtain r fz' where r: "process_native_chunk demo_fuzz ?p ?c ?fz = (r, fz')" by fastforce
  have "claimed_from ?p (nc_start_index ?c) ?fz"
    by (simp add: claimed_from_def handed_def new_fuzzer_def queue_paths_def dict_init_def dict_wf_def
        native_claim_ok_def dictionary_path_def)
  moreover have "events_ok ?p (nc_start_index ?c) (nc_end_index ?c) (nc_events ?c)"
    by (simp add: paths_length_def claimed_paths_def)
  ultimately show ?thesis using native_progress_is_prefix [OF demo_native_safe _ _ r] r by auto
qed

end
