(* ===== verification/Proxy.thy ===== *)
theory Proxy
  imports Url Settings "HOL-Library.AList" "HOL-Library.List_Lexorder" "HOL-Library.Product_Lexorder"
    "HOL-Library.Char_ord"
begin

text \<open>
  Connection settings: \<open>lib/connection/proxy.py\<close> (credentials in a proxy URL, what a failed
  proxy said), \<open>lib/connection/ip_overrides.py\<close> (forced addresses), and the checks before a
  backend is chosen, \<open>lib/core/request_backend.py\<close> and \<open>lib/core/native_runtime.py\<close>.
\<close>

section \<open>Credentials\<close>

definition replace_first :: "string \<Rightarrow> string \<Rightarrow> string \<Rightarrow> string" where
  "replace_first s old new =
     (case find_sub old s of None \<Rightarrow> s | Some i \<Rightarrow> take i s @ new @ drop (i + length old) s)"

definition proxy_userinfo :: "string \<Rightarrow> string" where
  "proxy_userinfo credential =
     (let (username, separator, password) = partition '':'' credential;
          userinfo = quote_with (\<lambda>_. False) username
      in if separator \<noteq> [] then userinfo @ '':'' @ quote_with (\<lambda>_. False) password else userinfo)"

definition add_proxy_authentication :: "string \<Rightarrow> string option \<Rightarrow> string result" where
  "add_proxy_authentication proxy credential =
     (case credential of
        None \<Rightarrow> Inr proxy
      | Some cred \<Rightarrow>
          if cred = [] then Inr proxy
          else rbind (urlsplit proxy) (\<lambda>parsed.
            if CHR ''@'' \<in> set (url_netloc parsed) then Inr proxy
            else Inr (replace_first proxy ''://'' (''://'' @ proxy_userinfo cred @ ''@''))))"

section \<open>What a proxy error says\<close>

text \<open>An exception is its text with its cause and its context; both refer to exceptions by identity.\<close>

type_synonym error_object = "string \<times> nat option \<times> nat option"
type_synonym error_heap = "(nat \<times> error_object) list"

datatype error_ref = ErrorText string | ErrorObject nat

definition chained :: "nat option \<Rightarrow> error_ref list" where
  "chained r = (case r of None \<Rightarrow> [] | Some i \<Rightarrow> [ErrorObject i])"

lemma unseen_less:
  assumes "i \<notin> set seen" and "map_of heap i = Some x"
  shows "card (fst ` set heap - set (i # seen)) < card (fst ` set heap - set seen)"
proof (rule psubset_card_mono)
  have "i \<in> fst ` set heap" using assms(2) by (metis domI dom_map_of_conv_image_fst)
  with assms(1) show "fst ` set heap - set (i # seen) \<subset> fst ` set heap - set seen" by auto
qed simp

text \<open>\<open>_error_messages\<close>; the head of the list is the top of the stack.\<close>

function error_messages :: "error_heap \<Rightarrow> nat list \<Rightarrow> error_ref list \<Rightarrow> string list" where
  "error_messages heap seen [] = []"
| "error_messages heap seen (ErrorText s # pending) = s # error_messages heap seen pending"
| "error_messages heap seen (ErrorObject i # pending) =
     (if i \<in> set seen then error_messages heap seen pending
      else (case map_of heap i of
              None \<Rightarrow> error_messages heap seen pending
            | Some (message, cause, ctx) \<Rightarrow>
                message # error_messages heap (i # seen) (chained ctx @ chained cause @ pending)))"
  by pat_completeness auto

termination
  by (relation "measures [\<lambda>(heap, seen, pending). card (fst ` set heap - set seen),
                          \<lambda>(heap, seen, pending). length pending]")
     (auto simp: unseen_less [simplified])

definition messages_of :: "error_heap \<Rightarrow> error_ref \<Rightarrow> string list" where
  "messages_of heap error' = error_messages heap [] [error']"

definition proxy_authentication_required :: nat where "proxy_authentication_required = 407"

definition status_digits :: rx where
  "status_digits = Cap 1 (Seq (Chr (\<lambda>c. c \<in> set ''12345'')) (Times 2 (Chr is_digit)))"

definition http_status_patterns :: "rx list" where
  "http_status_patterns =
     [Seqs [Alts [Seq (StrI ''HTTP'') (Opt (Seq (Lit (CHR ''/'')) (Plus (Chr (\<lambda>c. is_digit c \<or> c = CHR ''.''))))),
                  Seq (StrI ''status'') (Opt (StrI '' code'')),
                  Seqs [StrI ''tunnel'', Opt (StrI '' connection''), Lit (CHR '' ''),
                        Alt (StrI ''failed'') (StrI ''unsuccessful'')]],
            Star (Chr is_space), Opt (Lit (CHR '':'')), Star (Chr is_space), status_digits, Wordb],
      Seqs [Bol, Star (Chr is_space), status_digits, Alt (Chr is_space) Eol]]"

definition pattern_status :: "string \<Rightarrow> rx \<Rightarrow> int option" where
  "pattern_status message pattern =
     (case re_search pattern message of
        None \<Rightarrow> None
      | Some m \<Rightarrow> (case group 1 m of None \<Rightarrow> None | Some d \<Rightarrow> py_int d))"

fun first_some :: "('a \<Rightarrow> 'b option) \<Rightarrow> 'a list \<Rightarrow> 'b option" where
  "first_some f [] = None"
| "first_some f (x # xs) = (case f x of Some y \<Rightarrow> Some y | None \<Rightarrow> first_some f xs)"

definition proxy_error_status :: "error_heap \<Rightarrow> error_ref \<Rightarrow> int option" where
  "proxy_error_status heap error' =
     first_some (\<lambda>message. first_some (pattern_status message) http_status_patterns)
       (messages_of heap error')"

definition is_proxy_connect_rejection :: "error_heap \<Rightarrow> error_ref \<Rightarrow> bool" where
  "is_proxy_connect_rejection heap error' \<longleftrightarrow>
     list_ex (\<lambda>message. contains (lower message) ''tunnel error: unsuccessful'') (messages_of heap error')"

definition authentication_markers :: "string list" where
  "authentication_markers =
     [''proxy authentication required'', ''proxy authorization required'',
      ''socks error: credentials not accepted'']"

definition is_proxy_authentication_error :: "error_heap \<Rightarrow> error_ref \<Rightarrow> bool" where
  "is_proxy_authentication_error heap error' \<longleftrightarrow>
     (if proxy_error_status heap error' = Some (int proxy_authentication_required) then True
      else list_ex (\<lambda>message. list_ex (contains (lower message)) authentication_markers)
             (messages_of heap error'))"

definition format_proxy_error :: "error_heap \<Rightarrow> error_ref \<Rightarrow> string" where
  "format_proxy_error heap error' =
     (if is_proxy_authentication_error heap error' then ''Proxy authentication required''
      else (case proxy_error_status heap error' of
              Some status \<Rightarrow> ''Proxy connection failed with HTTP '' @ show_int status
            | None \<Rightarrow>
                if is_proxy_connect_rejection heap error' then ''Proxy CONNECT request was rejected''
                else ''Cannot establish the proxy connection''))"

section \<open>Forced addresses\<close>

type_synonym ip_overrides = "((string \<times> nat) \<times> string) list"

definition override_key :: "string \<Rightarrow> nat \<Rightarrow> string \<times> nat" where
  "override_key host port = (lower (rstrip_char (CHR ''.'') host), port)"

definition set_override :: "string \<Rightarrow> nat \<Rightarrow> string \<Rightarrow> ip_overrides \<Rightarrow> ip_overrides" where
  "set_override host port ip overrides = AList.update (override_key host port) ip overrides"

definition get_override :: "string \<Rightarrow> nat \<Rightarrow> ip_overrides \<Rightarrow> string option" where
  "get_override host port overrides = map_of overrides (override_key host port)"

definition connection_overrides :: "ip_overrides \<Rightarrow> (string \<times> nat \<times> string) list" where
  "connection_overrides overrides = sort (map (\<lambda>((host, port), ip). (host, port, ip)) overrides)"

section \<open>Choosing a backend\<close>

definition native_authentication_types :: "string list" where
  "native_authentication_types = [''basic'', ''bearer'', ''digest'', ''jwt'', ''ntlm'']"

definition get_native_authentication_error :: "string \<Rightarrow> string option" where
  "get_native_authentication_error auth_type =
     (if auth_type \<in> set native_authentication_types then None
      else Some (''--request-backend native does not support '' @ auth_type @ '' authentication''))"

definition native_proxy_schemes :: "string list" where
  "native_proxy_schemes = [''http'', ''https'', ''socks4'', ''socks4a'', ''socks5'', ''socks5h'']"

definition native_proxy_scheme_error :: string where
  "native_proxy_scheme_error =
     ''--request-backend native supports HTTP, HTTPS, SOCKS4, SOCKS4a, '' @
     ''SOCKS5, and SOCKS5h proxies only''"

definition native_socks4_auth_error :: string where
  "native_socks4_auth_error =
     ''--request-backend native does not support SOCKS4 user IDs; '' @
     ''use SOCKS5 or the threaded engine when proxy credentials are required''"

definition native_ip_proxy_error :: string where
  "native_ip_proxy_error =
     ''--request-backend native cannot combine --ip with a scan proxy because '' @
     ''the proxy controls origin resolution''"

definition client_certificate_pair_error :: string where
  "client_certificate_pair_error = ''--cert-file and --key-file must be used together''"

text \<open>An option that is not given is the empty string.\<close>

record backend_options =
  bo_async_mode :: bool
  bo_proxies :: "string list"
  bo_proxy_auth :: string
  bo_auth :: string
  bo_auth_type :: string
  bo_cert_file :: string
  bo_key_file :: string
  bo_ip :: string

definition with_scheme :: "string \<Rightarrow> string" where
  "with_scheme proxy = (if contains proxy ''://'' then proxy else ''http://'' @ proxy)"

definition get_async_request_backend_error :: "backend_options \<Rightarrow> string option result" where
  "get_async_request_backend_error opt =
     (if \<not> bo_async_mode opt then Inr None
      else rfold (\<lambda>proxy found.
        if found \<noteq> None then Inr found
        else rbind (urlsplit (with_scheme proxy)) (\<lambda>parsed.
          if url_scheme parsed \<in> {''socks4'', ''socks4a''}
          then Inr (Some (''--async supports SOCKS5 proxies only; use the threaded '' @ ''engine for SOCKS4''))
          else Inr None)) (bo_proxies opt) None)"

definition proxy_problem :: "backend_options \<Rightarrow> string \<Rightarrow> string option result" where
  "proxy_problem opt proxy =
     rbind (urlsplit (with_scheme proxy)) (\<lambda>parsed.
       if url_scheme parsed \<notin> set native_proxy_schemes then Inr (Some native_proxy_scheme_error)
       else if url_scheme parsed \<in> {''socks4'', ''socks4a''} \<and>
               (bo_proxy_auth opt \<noteq> [] \<or> url_userinfo parsed \<noteq> None)
       then Inr (Some native_socks4_auth_error)
       else Inr None)"

definition get_native_request_backend_error :: "backend_options \<Rightarrow> string option result" where
  "get_native_request_backend_error opt =
     (if bo_async_mode opt then Inr (Some ''--request-backend native cannot be combined with --async'')
      else rbind (rfold (\<lambda>proxy found. if found \<noteq> None then Inr found else proxy_problem opt proxy)
                   (bo_proxies opt) None) (\<lambda>found.
        if found \<noteq> None then Inr found
        else if (bo_auth opt \<noteq> [] \<or> bo_auth_type opt \<noteq> []) \<and>
                get_native_authentication_error (bo_auth_type opt) \<noteq> None
        then Inr (get_native_authentication_error (bo_auth_type opt))
        else if (bo_cert_file opt \<noteq> []) \<noteq> (bo_key_file opt \<noteq> []) then Inr (Some client_certificate_pair_error)
        else if bo_ip opt \<noteq> [] \<and> bo_proxies opt \<noteq> [] then Inr (Some native_ip_proxy_error)
        else Inr None))"

section \<open>The native runtime\<close>

definition min_native_python :: "nat list" where "min_native_python = [3, 14]"
definition native_extension_version :: string where "native_extension_version = ''0.2.20''"

definition format_python_version :: "nat list \<Rightarrow> string" where
  "format_python_version version = join ''.'' (map show_nat (take 3 version))"

definition get_native_python_version_error :: "nat list \<Rightarrow> string option" where
  "get_native_python_version_error version =
     (if min_native_python \<le> take 2 version then None
      else Some (''Native Rust backend requires Python 3.14 or newer '' @
                 ''(current: Python '' @ format_python_version version @ ''). '' @
                 ''Create a Python 3.14 environment, install dirsearch there, '' @
                 ''then run: dirsearch-build-native''))"

definition get_native_backend_install_error :: "nat list \<Rightarrow> string" where
  "get_native_backend_install_error version =
     (case get_native_python_version_error version of
        Some e \<Rightarrow> e
      | None \<Rightarrow>
          ''Native Rust backend is not installed in this Python environment. '' @
          ''Install dirsearch, then compile the native engine with: '' @
          ''dirsearch-build-native. '' @
          ''The build requires Python 3.14 development headers, Rust 1.88 or newer, '' @
          ''and a C compiler.'')"

definition get_native_extension_version_error :: "string option \<Rightarrow> string option" where
  "get_native_extension_version_error installed =
     (if installed = Some native_extension_version then None
      else Some (''Native Rust backend version is incompatible with this dirsearch build '' @
                 ''(expected '' @ native_extension_version @ '', found '' @
                 (case installed of Some v \<Rightarrow> v | None \<Rightarrow> ''unversioned'') @ ''). '' @
                 ''Rebuild it with: dirsearch-build-native''))"

definition get_native_runtime_error :: "string \<Rightarrow> string \<Rightarrow> nat list \<Rightarrow> bool \<Rightarrow> string option" where
  "get_native_runtime_error request_backend wordlist_backend version available =
     (if request_backend \<noteq> ''native'' \<and> wordlist_backend \<noteq> ''native'' then None
      else (case get_native_python_version_error version of
              Some e \<Rightarrow> Some e
            | None \<Rightarrow> if \<not> available then Some (get_native_backend_install_error version) else None))"

section \<open>Credentials survive\<close>

lemma hex_char_alnum: "n < 16 \<Longrightarrow> is_alnum (hex_char n)"
proof -
  assume "n < 16"
  then have "n \<in> {0, 1, 2, 3, 4, 5, 6, 7, 8, 9, 10, 11, 12, 13, 14, 15}"
    by (simp only: insert_iff empty_iff) presburger
  then show ?thesis by (elim insertE emptyE) (simp_all add: hex_char_def is_alnum_def is_digit_def is_upper_def)
qed

lemma quote_all_chars:
  assumes "c \<in> set (quote_with (\<lambda>_. False) s)"
  shows "is_alnum c \<or> c \<in> set ''_.-~%''"
proof -
  obtain d where d: "c \<in> set (quote_char (\<lambda>_. False) d)" using assms by (auto simp: quote_with_def)
  have "code d < 256" using of_char_mod_256 [of d, where 'a = nat] by (metis mod_less_divisor zero_less_numeral)
  then have "code d div 16 < 16" by (intro less_mult_imp_div_less) simp
  with d hex_char_alnum show ?thesis
    by (auto simp: quote_char_def quote_always_safe_def split: if_splits)
qed

lemma quote_all_safe:
  "set (quote_with (\<lambda>_. False) s) \<inter> set '':@/?#'' = {}"
proof (rule equals0I)
  fix c
  assume "c \<in> set (quote_with (\<lambda>_. False) s) \<inter> set '':@/?#''"
  then have "is_alnum c \<or> c \<in> set ''_.-~%''" and "c = CHR '':'' \<or> c = CHR ''@'' \<or> c = CHR ''/'' \<or> c = CHR ''?'' \<or> c = CHR ''#''"
    using quote_all_chars [of c s] by simp_all
  then show False by (elim disjE) (simp_all add: is_alnum_def is_digit_def is_upper_def is_lower_def)
qed

lemma partition_absent: "c \<notin> set s \<Longrightarrow> partition [c] s = (s, [], [])"
  by (simp add: partition_char)

lemma find_after: "c \<notin> set a \<Longrightarrow> find_sub (c # p) (a @ (c # p) @ b) = Some (length a)"
  by (induction a) (auto simp: starts_with_Cons)

lemma partition_after: "c \<notin> set a \<Longrightarrow> partition [c] (a @ c # b) = (a, [c], b)"
  using find_after [of c a "[]" b] by (simp add: partition_def)

lemma userinfo_decodes:
  "(case partition '':'' (proxy_userinfo cred) of (u, sep, pw) \<Rightarrow> unquote u @ sep @ unquote pw = cred) \<and>
   set (proxy_userinfo cred) \<inter> set ''@/?#'' = {}"
proof (cases "CHR '':'' \<in> set cred")
  case True
  then obtain a b where c: "cred = a @ CHR '':'' # b" "CHR '':'' \<notin> set a" by (metis split_list_first)
  let ?q = "quote_with (\<lambda>_. False)"
  have u: "proxy_userinfo cred = ?q a @ CHR '':'' # ?q b"
    using partition_after [OF c(2), of b] by (simp add: proxy_userinfo_def c(1))
  have "CHR '':'' \<notin> set (?q a)" using quote_all_safe [of a] by auto
  from partition_after [OF this, of "?q b"] u c quote_all_safe [of a] quote_all_safe [of b] show ?thesis
    by (auto simp: unquote_quote)
next
  case False
  then have u: "proxy_userinfo cred = quote_with (\<lambda>_. False) cred"
    by (simp add: proxy_userinfo_def partition_absent)
  moreover have "CHR '':'' \<notin> set (quote_with (\<lambda>_. False) cred)" using quote_all_safe [of cred] by auto
  ultimately show ?thesis using quote_all_safe [of cred] by (auto simp: partition_absent unquote_quote)
qed

section \<open>A keyed store\<close>

text \<open>The contract of the small dictionaries the components keep: what a lookup returns after a write.\<close>

locale keyed_store =
  fixes look :: "'k \<Rightarrow> 's \<Rightarrow> 'v option"
    and put :: "'k \<Rightarrow> 'v \<Rightarrow> 's \<Rightarrow> 's"
    and same :: "'k \<Rightarrow> 'k \<Rightarrow> bool"
  assumes look_put_same: "same k k' \<Longrightarrow> look k (put k' v s) = Some v"
    and look_put_other: "\<not> same k k' \<Longrightarrow> look k (put k' v s) = look k s"
begin

lemma look_put: "look k (put k' v s) = (if same k k' then Some v else look k s)"
  by (simp add: look_put_same look_put_other)

text \<open>After a sequence of writes a lookup gives the last value written for the key.\<close>

lemma last_write_wins:
  "look k (fold (\<lambda>(k', v) s. put k' v s) kvs s) =
     (case find (\<lambda>(k', v). same k k') (rev kvs) of Some (k', v) \<Rightarrow> Some v | None \<Rightarrow> look k s)"
proof (induction kvs arbitrary: s rule: rev_induct)
  case (snoc kv kvs)
  then show ?case by (auto simp: look_put split: prod.splits option.splits)
qed simp

end

definition same_host_port :: "string \<times> nat \<Rightarrow> string \<times> nat \<Rightarrow> bool" where
  "same_host_port a b \<longleftrightarrow> override_key (fst a) (snd a) = override_key (fst b) (snd b)"

interpretation ip: keyed_store "\<lambda>k. get_override (fst k) (snd k)" "\<lambda>k. set_override (fst k) (snd k)" same_host_port
  by unfold_locales (simp_all add: get_override_def set_override_def same_host_port_def update_conv')

definition overrides_ok :: "ip_overrides \<Rightarrow> bool" where
  "overrides_ok ov \<longleftrightarrow> distinct (map fst ov)"

lemma set_override_ok: "overrides_ok ov \<Longrightarrow> overrides_ok (set_override h p ip ov)"
  by (simp add: overrides_ok_def set_override_def distinct_update)

section \<open>Properties\<close>

text \<open>C13: credentials added to a proxy URL come out again: the user information put in front of the host
  has none of the characters that end it, and decoding its two parts gives the configured
  credentials, colon included.\<close>
theorem proxy_credentials_roundtrip:
  assumes "CHR '':'' \<notin> set sch" and "urlsplit (sch @ ''://'' @ host) = Inr parsed"
    and "CHR ''@'' \<notin> set (url_netloc parsed)" and "cred \<noteq> []"
  shows "\<exists>info. add_proxy_authentication (sch @ ''://'' @ host) (Some cred) =
      Inr (sch @ ''://'' @ info @ ''@'' @ host) \<and> set info \<inter> set ''@/?#'' = {} \<and>
    (case partition '':'' info of (u, sep, pw) \<Rightarrow> unquote u @ sep @ unquote pw = cred)"
proof -
  have "replace_first (sch @ ''://'' @ host) ''://'' (''://'' @ x) = sch @ ''://'' @ x @ host" for x
    using find_after [OF assms(1), of "''//''" host] by (simp add: replace_first_def)
  with assms userinfo_decodes [of cred] show ?thesis
    by (intro exI [of _ "proxy_userinfo cred"]) (simp add: add_proxy_authentication_def)
qed

theorem proxy_credentials_roundtrip_witness:
  "\<exists>info. add_proxy_authentication ''http://p:80'' (Some ''a@b:c:d'') = Inr (''http://'' @ info @ ''@p:80'')"
proof -
  have s: "urlsplit (''http'' @ ''://'' @ ''p:80'') = Inr \<lparr>url_scheme = ''http'', url_netloc = ''p:80'', url_path = [],
      url_query = [], url_fragment = []\<rparr>" by code_simp
  from proxy_credentials_roundtrip [OF _ s, of "''a@b:c:d''"] show ?thesis by auto
qed

text \<open>After any sequence of overrides, the address forced for a host is the one set last for it,
  whatever its case or its trailing dots, and the transport gets exactly these, sorted.\<close>
theorem last_override_wins:
  "get_override host port (fold (\<lambda>(k, a). set_override (fst k) (snd k) a) sets []) =
     map_option snd (find (\<lambda>(k, a). override_key host port = override_key (fst k) (snd k)) (rev sets)) \<and>
   sorted (connection_overrides ov) \<and>
   set (connection_overrides ov) = (\<lambda>((h, p), a). (h, p, a)) ` set ov"
proof -
  have "get_override host port (fold (\<lambda>(k, a). set_override (fst k) (snd k) a) sets []) =
     map_option snd (find (\<lambda>(k, a). override_key host port = override_key (fst k) (snd k)) (rev sets))"
    using ip.last_write_wins [of "(host, port)" sets "[]"]
    by (cases "find (\<lambda>(k, a). override_key host port = override_key (fst k) (snd k)) (rev sets)")
       (simp_all add: same_host_port_def get_override_def case_prod_beta)
  then show ?thesis by (simp add: connection_overrides_def)
qed

end
