(* ===== verification/NativeBackend.thy ===== *)
theory NativeBackend
  imports NativeFuzzer Proxy
begin

text \<open>
  \<open>lib/connection/native.py\<close>: the Python side of the Rust engine.  The engine is a parameter: the
  constructor may fail, and a scan hands raw results to Python.  Modelled are the configuration of
  the engine and when it is rebuilt, the bookkeeping of cancellation, the conversion of raw results
  to responses and errors, the chunks the fuzzer gets, and the requester facade; also
  \<open>lib/utils/mimetype.py\<close>, which labels a request body.
\<close>

section \<open>The type of a request body\<close>

text \<open>The JSON and XML parsers are given by what they accept.\<close>

record body_parsers =
  accepts_json :: "string \<Rightarrow> bool"
  accepts_xml :: "string \<Rightarrow> bool"

text \<open>\<open>QUERY_STRING_REGEX\<close>: \<open>^(\&?([^=& ]+)\=([^=& ]+)?){1,200}$\<close>.\<close>

definition query_string_regex :: rx where
  "query_string_regex =
     (let word = Plus (Chr (\<lambda>c. c \<notin> set ''=& '')) in
      Seqs [Bol,
            Between 1 200 (Cap 1 (Seqs [Opt (Lit (CHR ''&'')), Cap 2 word, Lit (CHR ''=''), Opt (Cap 3 word)])),
            Eol])"

definition is_query_string :: "string \<Rightarrow> bool" where
  "is_query_string content \<longleftrightarrow> re_match query_string_regex content \<noteq> None"

definition guess_mimetype :: "body_parsers \<Rightarrow> string \<Rightarrow> string" where
  "guess_mimetype ps content =
     (if accepts_json ps content then ''application/json''
      else if accepts_xml ps content then ''application/xml''
      else if is_query_string content then ''application/x-www-form-urlencoded''
      else ''text/plain'')"

section \<open>Options, configuration, state\<close>

record native_options =
  no_proxies :: "string list"
  no_proxy_auth :: string
  no_headers :: "(string \<times> string) list"
  no_thread_count :: nat
  no_timeout :: rat
  no_max_rate :: nat
  no_delay :: rat
  no_follow_redirects :: bool
  no_http_method :: string
  no_data :: "string option"
  no_auth :: string
  no_auth_type :: string
  no_network_interface :: "string option"
  no_cert_file :: string
  no_key_file :: string
  no_random_agents :: bool
  no_max_retries :: nat

record engine_config =
  ec_concurrency :: nat
  ec_timeout_secs :: rat
  ec_max_rate :: nat
  ec_delay_secs :: rat
  ec_headers :: "(string \<times> string) list"
  ec_proxies :: "string list"
  ec_follow_redirects :: bool
  ec_max_redirects :: nat
  ec_method :: string
  ec_body :: string
  ec_client_certificate :: string
  ec_client_key :: string
  ec_auth_type :: string
  ec_auth_credential :: string
  ec_random_user_agents :: "string list"
  ec_network_interface :: string
  ec_connection_overrides :: "(string \<times> nat \<times> string) list"

text \<open>The native module: whether it can be imported, its version, and the error of its constructor.\<close>

record native_module =
  nm_importable :: bool
  nm_version :: "string option"
  nm_engine_error :: "engine_config \<Rightarrow> string option"

record native_backend =
  nb_engine :: "engine_config option"
  nb_engine_cancelled :: bool
  nb_proxy_override :: "string option"
  nb_overrides :: ip_overrides
  nb_auth_type :: string
  nb_auth_credential :: string
  nb_client_certificate :: string
  nb_client_key :: string
  nb_random_user_agents :: "string list"
  nb_cancel_generation :: nat
  nb_consumed_generation :: nat

definition load_client_identity :: "file_texts \<Rightarrow> native_options \<Rightarrow> (string \<times> string) result" where
  "load_client_identity fs opts =
     (if (no_cert_file opts \<noteq> []) \<noteq> (no_key_file opts \<noteq> [])
      then Inl (RequestException client_certificate_pair_error)
      else if no_cert_file opts = [] then Inr ([], [])
      else (case (fs (no_cert_file opts), fs (no_key_file opts)) of
              (Some certificate, Some key) \<Rightarrow>
                if certificate = [] \<or> key = []
                then Inl (RequestException ''Client certificate and private key files must not be empty'')
                else Inr (certificate, key)
            | _ \<Rightarrow> Inl (RequestException ''Could not read client certificate or private key'')))"

definition load_random_user_agents :: "file_texts \<Rightarrow> string \<Rightarrow> native_options \<Rightarrow> string list result" where
  "load_random_user_agents fs script_path opts =
     (if \<not> no_random_agents opts then Inr []
      else (case get_lines fs (build_path (build_path script_path ''db'') ''user-agents.txt'') of
              Inl _ \<Rightarrow> Inl (RequestException ''Could not read random User-Agent list'')
            | Inr lines \<Rightarrow> Inr lines))"

definition new_backend ::
  "native_module \<Rightarrow> nat list \<Rightarrow> file_texts \<Rightarrow> string \<Rightarrow> native_options \<Rightarrow> string option \<Rightarrow>
     (string \<times> string) option \<Rightarrow> ip_overrides \<Rightarrow> native_backend result" where
  "new_backend m version fs script_path opts proxy_override auth_override overrides =
     (if \<not> nm_importable m then Inl (RequestException (get_native_backend_install_error version))
      else (case get_native_extension_version_error (nm_version m) of
              Some e \<Rightarrow> Inl (RequestException e)
            | None \<Rightarrow>
                let (auth_type, credential) =
                      (case auth_override of
                         Some a \<Rightarrow> a
                       | None \<Rightarrow> if no_auth opts \<noteq> [] then (no_auth_type opts, no_auth opts) else ([], []))
                in rbind (load_client_identity fs opts) (\<lambda>(certificate, key).
                   rbind (load_random_user_agents fs script_path opts) (\<lambda>agents.
                     Inr \<lparr>nb_engine = None, nb_engine_cancelled = False, nb_proxy_override = proxy_override,
                          nb_overrides = overrides, nb_auth_type = auth_type, nb_auth_credential = credential,
                          nb_client_certificate = certificate, nb_client_key = key,
                          nb_random_user_agents = agents, nb_cancel_generation = 0,
                          nb_consumed_generation = 0\<rparr>))))"

section \<open>Proxies\<close>

definition lower_scheme_ok :: "string \<Rightarrow> bool" where
  "lower_scheme_ok proxy \<longleftrightarrow> starts_with_any (lower proxy) proxy_schemes"

definition normalize_proxy_url :: "native_options \<Rightarrow> string \<Rightarrow> string result" where
  "normalize_proxy_url opts proxy =
     rbind (if \<not> contains proxy ''://'' then Inr (''http://'' @ proxy)
            else if \<not> lower_scheme_ok proxy then Inl (RequestException native_proxy_scheme_error)
            else Inr proxy) (\<lambda>proxy.
     rbind (urlsplit proxy) (\<lambda>parsed.
       if lower (url_scheme parsed) \<in> {''socks4'', ''socks4a''} \<and>
          (no_proxy_auth opts \<noteq> [] \<or> url_userinfo parsed \<noteq> None)
       then Inl (RequestException native_socks4_auth_error)
       else add_proxy_authentication proxy (Some (no_proxy_auth opts))))"

definition normalize_proxy_urls :: "native_options \<Rightarrow> string list \<Rightarrow> string list result" where
  "normalize_proxy_urls opts = rmap (normalize_proxy_url opts)"

definition using_proxy :: "native_options \<Rightarrow> native_backend \<Rightarrow> bool" where
  "using_proxy opts b \<longleftrightarrow> nb_proxy_override b \<noteq> None \<or> no_proxies opts \<noteq> []"

section \<open>The engine\<close>

definition request_body :: "native_options \<Rightarrow> string" where
  "request_body opts = (case no_data opts of None \<Rightarrow> [] | Some d \<Rightarrow> d)"

definition engine_headers :: "body_parsers \<Rightarrow> native_options \<Rightarrow> native_backend \<Rightarrow> (string \<times> string) list" where
  "engine_headers ps opts b =
     (let headers = filter (\<lambda>(name, _).
            \<not> ((nb_random_user_agents b \<noteq> [] \<and> lower name = ''user-agent'') \<or>
               (nb_auth_type b \<noteq> [] \<and> lower name = ''authorization''))) (no_headers opts)
      in if request_body opts \<noteq> [] \<and> \<not> list_ex (\<lambda>(name, _). lower name = ''content-type'') headers
         then headers @ [(''content-type'', guess_mimetype ps (request_body opts))] else headers)"

definition engine_config_of :: "body_parsers \<Rightarrow> native_options \<Rightarrow> native_backend \<Rightarrow> engine_config result" where
  "engine_config_of ps opts b =
     rbind (normalize_proxy_urls opts
              (case nb_proxy_override b of Some p \<Rightarrow> [p] | None \<Rightarrow> no_proxies opts)) (\<lambda>proxies.
       Inr \<lparr>ec_concurrency = no_thread_count opts, ec_timeout_secs = no_timeout opts,
            ec_max_rate = no_max_rate opts, ec_delay_secs = no_delay opts,
            ec_headers = engine_headers ps opts b, ec_proxies = proxies,
            ec_follow_redirects = no_follow_redirects opts, ec_max_redirects = max_redirects,
            ec_method = no_http_method opts, ec_body = request_body opts,
            ec_client_certificate = nb_client_certificate b, ec_client_key = nb_client_key b,
            ec_auth_type = nb_auth_type b, ec_auth_credential = nb_auth_credential b,
            ec_random_user_agents = nb_random_user_agents b,
            ec_network_interface = (case no_network_interface opts of Some i \<Rightarrow> i | None \<Rightarrow> []),
            ec_connection_overrides = connection_overrides (nb_overrides b)\<rparr>)"

text \<open>\<open>_get_engine\<close>: a new engine when there is none or the configuration changed.\<close>

definition get_engine ::
  "native_module \<Rightarrow> body_parsers \<Rightarrow> native_options \<Rightarrow> native_backend \<Rightarrow> engine_config result \<times> native_backend" where
  "get_engine m ps opts b =
     (case engine_config_of ps opts b of
        Inl e \<Rightarrow> (Inl e, b)
      | Inr config \<Rightarrow>
          if nb_engine b = Some config then (Inr config, b)
          else (case nm_engine_error m config of
                  Some e \<Rightarrow> (Inl (RequestException e), b)
                | None \<Rightarrow> (Inr config, b\<lparr>nb_engine := Some config, nb_engine_cancelled := False\<rparr>)))"

definition set_origin_authentication :: "string \<Rightarrow> string \<Rightarrow> native_backend \<Rightarrow> native_backend" where
  "set_origin_authentication auth_type credential b =
     b\<lparr>nb_auth_type := auth_type, nb_auth_credential := credential\<rparr>"

section \<open>Cancellation\<close>

definition cancel_engine :: "native_backend \<Rightarrow> native_backend" where
  "cancel_engine b = (if nb_engine b \<noteq> None then b\<lparr>nb_engine_cancelled := True\<rparr> else b)"

definition cancel :: "native_backend \<Rightarrow> native_backend" where
  "cancel b = cancel_engine (b\<lparr>nb_cancel_generation := nb_cancel_generation b + 1\<rparr>)"

definition reset_cancel :: "native_backend \<Rightarrow> native_backend" where
  "reset_cancel b =
     (let b = b\<lparr>nb_consumed_generation := nb_cancel_generation b\<rparr> in
      if nb_engine b \<noteq> None then b\<lparr>nb_engine_cancelled := False\<rparr> else b)"

definition close_backend :: "native_backend \<Rightarrow> native_backend" where
  "close_backend b = (cancel_engine b)\<lparr>nb_engine := None, nb_engine_cancelled := False\<rparr>"

text \<open>What both scans do under the lock before they hand over to Rust, and at the end.\<close>

definition enter_scan ::
  "native_module \<Rightarrow> body_parsers \<Rightarrow> native_options \<Rightarrow> native_backend \<Rightarrow> engine_config result \<times> native_backend" where
  "enter_scan m ps opts b =
     (case get_engine m ps opts b of
        (Inl e, b) \<Rightarrow> (Inl e, b)
      | (Inr config, b) \<Rightarrow>
          (Inr config, if nb_cancel_generation b \<noteq> nb_consumed_generation b then cancel_engine b else b))"

text \<open>The engine clears its own flag when a scan ends (\<open>native/src/engine.rs\<close>).\<close>

definition leave_scan :: "native_backend \<Rightarrow> native_backend" where
  "leave_scan b = b\<lparr>nb_consumed_generation := nb_cancel_generation b, nb_engine_cancelled := False\<rparr>"

section \<open>Results\<close>

record raw_result =
  rr_request_index :: nat
  rr_path :: string
  rr_status :: int
  rr_headers :: header_items
  rr_body :: string
  rr_elapsed_ms :: rat
  rr_length :: nat
  rr_filtered :: bool
  rr_filter_reason :: "string option"
  rr_body_complete :: "bool option"
  rr_history :: "string list"
  rr_final_url :: "string option"
  rr_error :: "string option"

text \<open>\<open>_convert_result\<close>; \<open>oid\<close> is the identity of the new response object.\<close>

definition convert_error :: "native_options \<Rightarrow> native_backend \<Rightarrow> string \<Rightarrow> exc" where
  "convert_error opts b message =
     RequestException
       (if using_proxy opts b \<and>
           (proxy_error_status [] (ErrorText message) \<noteq> None \<or>
            is_proxy_authentication_error [] (ErrorText message) \<or>
            is_proxy_connect_rejection [] (ErrorText message))
        then format_proxy_error [] (ErrorText message) else message)"

definition convert_result ::
  "codecs \<Rightarrow> native_options \<Rightarrow> native_backend \<Rightarrow> nat \<Rightarrow> string \<Rightarrow> raw_result \<Rightarrow> response option \<times> exc option" where
  "convert_result cs opts b oid base_url res =
     (case rr_error res of
        Some message \<Rightarrow> (None, Some (convert_error opts b message))
      | None \<Rightarrow>
          if using_proxy opts b \<and> rr_status res = int proxy_authentication_required
          then (None, Some (RequestException ''Proxy authentication required''))
          else (Some (native_response cs oid (base_url @ rr_path res) (rr_status res) (rr_headers res)
                        (rr_body res) (rr_elapsed_ms res / 1000) (Some (rr_length res)) (rr_filtered res)
                        (rr_filter_reason res) (rr_body_complete res)
                        (case nb_engine b of
                           Some c \<Rightarrow> if ec_follow_redirects c then rr_history res else []
                         | None \<Rightarrow> [])
                        (rr_final_url res)), None))"

text \<open>\<open>_make_scan_chunk\<close>.  \<open>path_at\<close> is the method of a native chunk.\<close>

definition actionable :: "native_options \<Rightarrow> native_backend \<Rightarrow> raw_result \<Rightarrow> bool" where
  "actionable opts b res \<longleftrightarrow>
     \<not> (rr_filtered res \<and> \<not> (using_proxy opts b \<and> rr_status res = int proxy_authentication_required))"

definition event_of ::
  "codecs \<Rightarrow> native_options \<Rightarrow> native_backend \<Rightarrow> nat \<Rightarrow> string \<Rightarrow> (native_chunk \<Rightarrow> nat \<Rightarrow> string) \<Rightarrow>
     native_paths \<Rightarrow> raw_result \<Rightarrow> native_event" where
  "event_of cs opts b oid base_url path_at paths res =
     (case convert_result cs opts b (oid + rr_request_index res) base_url res of
        (response, error') \<Rightarrow>
          \<lparr>ev_request_index = rr_request_index res,
           ev_path = (case paths of Inr chunk \<Rightarrow> path_at chunk (rr_request_index res)
                                  | Inl ps \<Rightarrow> ps ! rr_request_index res),
           ev_response = response, ev_error = error'\<rparr>)"

definition make_scan_chunk ::
  "codecs \<Rightarrow> native_options \<Rightarrow> native_backend \<Rightarrow> nat \<Rightarrow> string \<Rightarrow> (native_chunk \<Rightarrow> nat \<Rightarrow> string) \<Rightarrow>
     native_paths \<Rightarrow> raw_result list \<Rightarrow> nat \<Rightarrow> nat \<Rightarrow> native_scan_chunk" where
  "make_scan_chunk cs opts b oid base_url path_at paths results start_index end_index =
     \<lparr>nc_start_index = start_index, nc_end_index = end_index,
      nc_events = map (event_of cs opts b oid base_url path_at paths) (filter (actionable opts b) results)\<rparr>"

section \<open>Filters\<close>

record filter_config =
  fc_status_codes :: "int list list"
  fc_minimum_response_size :: int
  fc_maximum_response_size :: int
  fc_modes :: "string list"
  fc_ranges :: "numeric_range list list"
  fc_patterns :: "string list"
  fc_headers :: "string list list"
  fc_times :: "time_filter list list"

text \<open>\<open>_filter_options\<close>; the fields group the keywords of the same kind in the order of the code.\<close>

definition filter_options :: "fuzz_options \<Rightarrow> filter_config" where
  "filter_options o' =
     \<lparr>fc_status_codes = map sorted_list_of_set
        [fo_include_status_codes o', fo_exclude_status_codes o', fo_match_status_codes o', fo_filter_status_codes o'],
      fc_minimum_response_size = fo_minimum_response_size o',
      fc_maximum_response_size = fo_maximum_response_size o',
      fc_modes = [fo_matcher_mode o', fo_filter_mode o'],
      fc_ranges = [fo_match_sizes o', fo_filter_sizes o', fo_match_words o', fo_filter_words o',
                   fo_match_lines o', fo_filter_lines o'],
      fc_patterns = [fo_match_regex o', fo_filter_regex o', fo_match_header_regex o', fo_filter_header_regex o'],
      fc_headers = [fo_match_headers o', fo_filter_headers o'],
      fc_times = [fo_match_time o', fo_filter_time o']\<rparr>"

definition get_filter_config :: "fuzz_options \<Rightarrow> bool \<Rightarrow> filter_config option" where
  "get_filter_config o' apply_filters = (if apply_filters then Some (filter_options o') else None)"

section \<open>Scans\<close>

text \<open>A scan of the engine: its configuration, whether it was told to cancel, the base URL, the paths,
  the query string, the number of retries, the filters.  The result may be a \<open>RuntimeError\<close>.\<close>

type_synonym raw_scan =
  "engine_config \<Rightarrow> bool \<Rightarrow> string \<Rightarrow> string list \<Rightarrow> string \<Rightarrow> nat \<Rightarrow> filter_config option \<Rightarrow> raw_result list result"

record native_setup =
  ns_module :: native_module
  ns_python :: "nat list"
  ns_parsers :: body_parsers
  ns_codecs :: codecs
  ns_files :: file_texts
  ns_script_path :: string
  ns_options :: native_options
  ns_filters :: fuzz_options
  ns_scan :: raw_scan

definition scan_results ::
  "native_setup \<Rightarrow> native_backend \<Rightarrow> string \<Rightarrow> string list \<Rightarrow> string \<Rightarrow> bool \<Rightarrow> raw_result list result \<times> native_backend" where
  "scan_results s b base_url paths query apply_filters =
     (case enter_scan (ns_module s) (ns_parsers s) (ns_options s) b of
        (Inl e, b) \<Rightarrow> (Inl e, b)
      | (Inr config, b) \<Rightarrow>
          (ns_scan s config (nb_engine_cancelled b) base_url paths query (no_max_retries (ns_options s))
             (get_filter_config (ns_filters s) apply_filters), leave_scan b))"

definition scan_paths ::
  "native_setup \<Rightarrow> nat \<Rightarrow> native_backend \<Rightarrow> string \<Rightarrow> string list \<Rightarrow> string \<Rightarrow>
     (string \<times> response option \<times> exc option) list result \<times> native_backend" where
  "scan_paths s oid b base_url paths query =
     (case scan_results s b base_url paths query True of
        (Inl e, b) \<Rightarrow> (Inl e, b)
      | (Inr results, b) \<Rightarrow>
          (Inr (map (\<lambda>(path, res).
             (path, convert_result (ns_codecs s) (ns_options s) b (oid + rr_request_index res) base_url res))
             (zip paths results)), b))"

definition scan_unfiltered ::
  "native_setup \<Rightarrow> nat \<Rightarrow> native_backend \<Rightarrow> string \<Rightarrow> string \<Rightarrow> string \<Rightarrow>
     (response option \<times> exc option) result \<times> native_backend" where
  "scan_unfiltered s oid b base_url path query =
     (case scan_results s b base_url [path] query False of
        (Inl e, b) \<Rightarrow> (Inl e, b)
      | (Inr [], b) \<Rightarrow> (Inr (None, Some (RequestException ''Native request was cancelled'')), b)
      | (Inr (res # _), b) \<Rightarrow> (Inr (convert_result (ns_codecs s) (ns_options s) b oid base_url res), b))"

text \<open>\<open>scan_chunks\<close>: the engine trace \<open>process_chunk\<close> for the ranges it completes.  \<open>raw\<close> gives, for the
  claimed paths and the state it starts in, these ranges with their results and what Rust returns
  in the end.\<close>

type_synonym 'w raw_chunks = "native_paths \<Rightarrow> 'w fuzzer \<Rightarrow> (nat \<times> nat \<times> raw_result list) list \<times> unit result"

definition scan_chunks ::
  "native_setup \<Rightarrow> nat \<Rightarrow> native_backend \<Rightarrow> string \<Rightarrow> (native_chunk \<Rightarrow> nat \<Rightarrow> string) \<Rightarrow>
     'w raw_chunks \<Rightarrow> 'w engine" where
  "scan_chunks s oid b base_url path_at raw paths cb fz =
     (case raw paths fz of (ranges, outcome) \<Rightarrow>
        io_bind (each (\<lambda>(start, end', results).
                   cb (make_scan_chunk (ns_codecs s) (ns_options s) b oid base_url path_at paths results start end')) ranges)
          (\<lambda>_. case outcome of Inl e \<Rightarrow> raise e | Inr _ \<Rightarrow> ret ()) fz)"

section \<open>The requester\<close>

record native_requester =
  nr_url :: string
  nr_query :: string
  nr_configured_auth :: "string \<times> string"
  nr_origin_auth :: "string \<times> string"
  nr_overrides :: ip_overrides
  nr_backend :: "native_backend option"

definition new_native_requester :: "native_options \<Rightarrow> native_requester" where
  "new_native_requester opts =
     (let auth = if no_auth opts \<noteq> [] then (no_auth_type opts, no_auth opts) else ([], []) in
      \<lparr>nr_url = [], nr_query = [], nr_configured_auth = auth, nr_origin_auth = auth,
       nr_overrides = [], nr_backend = None\<rparr>)"

definition get_backend :: "native_setup \<Rightarrow> native_requester \<Rightarrow> native_backend result \<times> native_requester" where
  "get_backend s r =
     (case nr_backend r of
        Some b \<Rightarrow> (Inr b, r)
      | None \<Rightarrow>
          (case new_backend (ns_module s) (ns_python s) (ns_files s) (ns_script_path s) (ns_options s) None
                  (Some (nr_origin_auth r)) (nr_overrides r) of
             Inl e \<Rightarrow> (Inl e, r)
           | Inr b \<Rightarrow> (Inr b, r\<lparr>nr_backend := Some b\<rparr>)))"

definition set_native_url :: "string \<Rightarrow> native_requester \<Rightarrow> native_requester" where
  "set_native_url url r = r\<lparr>nr_url := url\<rparr>"

definition set_native_query :: "string \<Rightarrow> native_requester \<Rightarrow> native_requester" where
  "set_native_query query r = r\<lparr>nr_query := query\<rparr>"

text \<open>The overrides are one object, shared with the backend.\<close>

definition set_native_ip :: "string \<Rightarrow> nat \<Rightarrow> string \<Rightarrow> native_requester \<Rightarrow> native_requester" where
  "set_native_ip host port ip r =
     (let ov = set_override host port ip (nr_overrides r) in
      r\<lparr>nr_overrides := ov, nr_backend := map_option (\<lambda>b. b\<lparr>nb_overrides := ov\<rparr>) (nr_backend r)\<rparr>)"

definition set_requester_authentication :: "string \<Rightarrow> string \<Rightarrow> native_requester \<Rightarrow> native_requester" where
  "set_requester_authentication auth_type credential r =
     r\<lparr>nr_origin_auth := (auth_type, credential),
       nr_backend := map_option (set_origin_authentication auth_type credential) (nr_backend r)\<rparr>"

definition reset_native_auth :: "native_requester \<Rightarrow> native_requester" where
  "reset_native_auth r =
     set_requester_authentication (fst (nr_configured_auth r)) (snd (nr_configured_auth r)) r"

definition set_native_auth :: "string \<Rightarrow> string \<Rightarrow> native_requester \<Rightarrow> unit result \<times> native_requester" where
  "set_native_auth auth_type credential r =
     (case get_native_authentication_error auth_type of
        Some e \<Rightarrow> (Inl (RequestException e), r)
      | None \<Rightarrow> (Inr (), set_requester_authentication auth_type credential r))"

text \<open>The backend of a proxied request is thrown away afterwards.\<close>

definition native_request ::
  "native_setup \<Rightarrow> nat \<Rightarrow> string \<Rightarrow> string \<Rightarrow> native_requester \<Rightarrow> response result \<times> native_requester" where
  "native_request s oid path proxy r =
     (case get_backend s r of
        (Inl e, r) \<Rightarrow> (Inl e, r)
      | (Inr own, r) \<Rightarrow>
          let (outcome, r) =
            (if proxy \<noteq> []
             then (case new_backend (ns_module s) (ns_python s) (ns_files s) (ns_script_path s) (ns_options s)
                          (Some proxy) (Some (nr_origin_auth r)) [] of
                     Inl e \<Rightarrow> (Inl e, r)
                   | Inr b \<Rightarrow> (fst (scan_unfiltered s oid b (nr_url r) path (nr_query r)), r))
             else (case scan_unfiltered s oid own (nr_url r) path (nr_query r) of
                     (outcome, b) \<Rightarrow> (outcome, r\<lparr>nr_backend := Some b\<rparr>)))
          in (rbind outcome (\<lambda>(response, error').
                case error' of
                  Some e \<Rightarrow> Inl e
                | None \<Rightarrow> (case response of
                             None \<Rightarrow> Inl (RequestException ''Native request returned no response'')
                           | Some resp \<Rightarrow> Inr resp)), r))"

definition close_native :: "native_requester \<Rightarrow> native_requester" where
  "close_native r = r\<lparr>nr_backend := None\<rparr>"

section \<open>A request to stop is neither lost nor kept\<close>

text \<open>The calls on a backend, and the runs they make: a scan whose engine cannot be made is left before
  it has begun.\<close>

datatype backend_call =
    CallCancel
  | CallReset
  | CallClose
  | CallAuthenticate string string
  | CallScan native_options
  | CallFailedScan native_options

inductive backend_run ::
  "native_module \<Rightarrow> body_parsers \<Rightarrow> native_backend \<Rightarrow> backend_call list \<Rightarrow> native_backend \<Rightarrow> bool"
  for m :: native_module and ps :: body_parsers and b0 :: native_backend where
  run_start: "backend_run m ps b0 [] b0"
| run_cancel: "backend_run m ps b0 trace b \<Longrightarrow> backend_run m ps b0 (CallCancel # trace) (cancel b)"
| run_reset: "backend_run m ps b0 trace b \<Longrightarrow> backend_run m ps b0 (CallReset # trace) (reset_cancel b)"
| run_close: "backend_run m ps b0 trace b \<Longrightarrow> backend_run m ps b0 (CallClose # trace) (close_backend b)"
| run_authenticate: "backend_run m ps b0 trace b \<Longrightarrow>
    backend_run m ps b0 (CallAuthenticate t c # trace) (set_origin_authentication t c b)"
| run_scan: "backend_run m ps b0 trace b \<Longrightarrow> enter_scan m ps opts b = (Inr config, b') \<Longrightarrow>
    backend_run m ps b0 (CallScan opts # trace) (leave_scan b')"
| run_failed: "backend_run m ps b0 trace b \<Longrightarrow> enter_scan m ps opts b = (Inl e, b') \<Longrightarrow>
    backend_run m ps b0 (CallFailedScan opts # trace) b'"

text \<open>The abstract specification, latest call first: the last cancel counts until it is reset or a
  scan has ended.\<close>

fun cancel_wanted :: "backend_call list \<Rightarrow> bool" where
  "cancel_wanted [] = False"
| "cancel_wanted (CallCancel # _) = True"
| "cancel_wanted (CallReset # _) = False"
| "cancel_wanted (CallScan _ # _) = False"
| "cancel_wanted (_ # trace) = cancel_wanted trace"

text \<open>The generations count up to this: an engine is told to stop only while a cancel is pending.\<close>

definition cancel_ok :: "bool \<Rightarrow> native_backend \<Rightarrow> bool" where
  "cancel_ok wanted b \<longleftrightarrow>
     nb_consumed_generation b \<le> nb_cancel_generation b \<and>
     (wanted \<longleftrightarrow> nb_cancel_generation b \<noteq> nb_consumed_generation b) \<and>
     (nb_engine_cancelled b \<longrightarrow> wanted \<and> nb_engine b \<noteq> None)"

lemmas cancel_simps = cancel_ok_def cancel_def cancel_engine_def reset_cancel_def close_backend_def
  leave_scan_def set_origin_authentication_def Let_def

lemma get_engine_ok: "cancel_ok w b \<Longrightarrow> cancel_ok w (snd (get_engine m ps opts b))"
  by (auto simp: get_engine_def cancel_ok_def split: sum.split option.split)

lemma get_engine_engine: "get_engine m ps opts b = (Inr config, b') \<Longrightarrow> nb_engine b' = Some config"
  by (auto simp: get_engine_def split: sum.splits option.splits if_splits)

lemma enter_scan_ok:
  assumes "cancel_ok w b"
  shows "enter_scan m ps opts b = (Inr config, b') \<Longrightarrow>
      cancel_ok w b' \<and> nb_engine b' = Some config \<and> (nb_engine_cancelled b' \<longleftrightarrow> w)"
    and "enter_scan m ps opts b = (Inl e, b') \<Longrightarrow> cancel_ok w b'"
proof -
  obtain r b1 where g: "get_engine m ps opts b = (r, b1)" by fastforce
  with get_engine_ok [OF assms, of m ps opts] have ok: "cancel_ok w b1" by simp
  show "enter_scan m ps opts b = (Inl e, b') \<Longrightarrow> cancel_ok w b'"
    using g ok by (cases r) (simp_all add: enter_scan_def)
  assume e: "enter_scan m ps opts b = (Inr config, b')"
  with g get_engine_engine [of m ps opts b _ b1] have "nb_engine b1 = Some config"
    by (cases r) (auto simp: enter_scan_def)
  with e g ok show "cancel_ok w b' \<and> nb_engine b' = Some config \<and> (nb_engine_cancelled b' \<longleftrightarrow> w)"
    by (cases r) (auto simp: enter_scan_def cancel_simps)
qed

lemma backend_run_ok: "backend_run m ps b0 trace b \<Longrightarrow> cancel_ok False b0 \<Longrightarrow> cancel_ok (cancel_wanted trace) b"
proof (induction rule: backend_run.induct)
  case (run_scan trace b opts config b')
  with enter_scan_ok(1) [of "cancel_wanted trace" b m ps opts config b'] show ?case by (simp add: cancel_simps)
next
  case (run_failed trace b opts e b')
  with enter_scan_ok(2) [of "cancel_wanted trace" b m ps opts e b'] show ?case by simp
qed (auto simp: cancel_simps)

lemma new_backend_ok: "new_backend m v fs sp opts po ao ov = Inr b \<Longrightarrow> cancel_ok False b"
  by (auto simp: new_backend_def rbind_def Let_def cancel_ok_def split: if_splits option.splits sum.splits prod.splits)

section \<open>Chunks for the fuzzer\<close>

text \<open>What Rust promises of a range: the indices of its results ascend within it.\<close>

fun raw_ok :: "nat \<Rightarrow> nat \<Rightarrow> raw_result list \<Rightarrow> bool" where
  "raw_ok i j [] = (i \<le> j)"
| "raw_ok i j (res # results) = (i \<le> rr_request_index res \<and> rr_request_index res < j \<and>
     raw_ok (Suc (rr_request_index res)) j results)"

fun ranges_ok :: "nat \<Rightarrow> nat \<Rightarrow> (nat \<times> nat \<times> raw_result list) list \<Rightarrow> bool" where
  "ranges_ok i m [] = (i = m)"
| "ranges_ok i m ((start, end', results) # ranges) =
     (start = i \<and> raw_ok i end' results \<and> ranges_ok end' m ranges)"

lemma raw_ok_weaken: "raw_ok j k results \<Longrightarrow> i \<le> j \<Longrightarrow> raw_ok i k results"
  by (cases results) auto

lemma raw_ok_le: "raw_ok i j results \<Longrightarrow> i \<le> j"
  by (cases results) auto

lemma ranges_ok_le: "ranges_ok i m ranges \<Longrightarrow> i \<le> m"
  by (induction i m ranges rule: ranges_ok.induct) (auto dest: raw_ok_le)

lemma raw_ok_filter: "raw_ok i j results \<Longrightarrow> raw_ok i j (filter P results)"
proof (induction results arbitrary: i)
  case (Cons res results)
  then show ?case using raw_ok_weaken [of "Suc (rr_request_index res)" j "filter P results" i] by auto
qed simp

lemma event_of_fields [simp]:
  "ev_request_index (event_of cs opts b oid base_url path_at paths res) = rr_request_index res"
  "paths = Inl ps \<Longrightarrow> ev_path (event_of cs opts b oid base_url path_at paths res) = ps ! rr_request_index res"
  by (simp_all add: event_of_def split: prod.split)

lemma events_of_ok:
  "raw_ok i j results \<Longrightarrow> j \<le> paths_length paths \<Longrightarrow>
     events_ok paths i j (map (event_of cs opts b oid base_url path_at paths) results)"
  by (induction results arbitrary: i) (auto split: sum.split)

lemma make_scan_chunk_ok:
  "raw_ok i j results \<Longrightarrow> j \<le> paths_length paths \<Longrightarrow>
     events_ok paths i j (nc_events (make_scan_chunk cs opts b oid base_url path_at paths results start j))"
  by (simp add: make_scan_chunk_def events_of_ok raw_ok_filter)

definition chunk_of ::
  "native_setup \<Rightarrow> nat \<Rightarrow> native_backend \<Rightarrow> string \<Rightarrow> (native_chunk \<Rightarrow> nat \<Rightarrow> string) \<Rightarrow> native_paths \<Rightarrow>
     nat \<times> nat \<times> raw_result list \<Rightarrow> native_scan_chunk" where
  "chunk_of s oid b base_url path_at paths r =
     (case r of (start, end', results) \<Rightarrow>
        make_scan_chunk (ns_codecs s) (ns_options s) b oid base_url path_at paths results start end')"

lemma chunks_of_ok:
  "ranges_ok i m ranges \<Longrightarrow> m \<le> paths_length paths \<Longrightarrow>
     chunks_ok paths i m (map (chunk_of s oid b base_url path_at paths) ranges)"
proof (induction ranges arbitrary: i)
  case (Cons r ranges)
  obtain start end' results where r: "r = (start, end', results)" by (cases r)
  with Cons.prems ranges_ok_le have "end' \<le> paths_length paths" by fastforce
  with Cons r have "events_ok paths i end' (nc_events (chunk_of s oid b base_url path_at paths r))"
    by (simp add: chunk_of_def make_scan_chunk_ok)
  moreover have "nc_start_index (chunk_of s oid b base_url path_at paths r) = start"
    "nc_end_index (chunk_of s oid b base_url path_at paths r) = end'"
    by (simp_all add: r chunk_of_def make_scan_chunk_def)
  ultimately show ?case using Cons r by simp
qed simp

lemma each_map: "each cb (map f xs) = each (\<lambda>x. cb (f x)) xs"
  by (induction xs) simp_all

lemma chunk_of_each:
  "each (\<lambda>(start, end', results).
       cb (make_scan_chunk (ns_codecs s) (ns_options s) b oid base_url path_at paths results start end')) ranges =
   each cb (map (chunk_of s oid b base_url path_at paths) ranges)"
proof -
  have "(\<lambda>(start, end', results).
       cb (make_scan_chunk (ns_codecs s) (ns_options s) b oid base_url path_at paths results start end')) =
    (\<lambda>r. cb (chunk_of s oid b base_url path_at paths r))"
    by (auto simp: chunk_of_def)
  then show ?thesis by (simp add: each_map)
qed

text \<open>The Rust side: it covers the paths from the first on, all of them unless it fails or the
  processing was stopped meanwhile, for then it was cancelled.\<close>

definition raw_engine_ok ::
  "native_setup \<Rightarrow> nat \<Rightarrow> native_backend \<Rightarrow> string \<Rightarrow> (native_chunk \<Rightarrow> nat \<Rightarrow> string) \<Rightarrow> 'w raw_chunks \<Rightarrow> bool" where
  "raw_engine_ok s oid b base_url path_at raw \<longleftrightarrow>
     (\<forall>paths cb fz. \<exists>m \<le> paths_length paths. ranges_ok 0 m (fst (raw paths fz)) \<and>
        (snd (raw paths fz) = Inr () \<and>
         \<not> should_stop_processing (snd (each cb (map (chunk_of s oid b base_url path_at paths) (fst (raw paths fz))) fz))
           \<longrightarrow> m = paths_length paths))"

lemma scan_chunks_ok:
  assumes "raw_engine_ok s oid b base_url path_at raw"
  shows "engine_ok (scan_chunks s oid b base_url path_at raw :: 'w engine)"
  unfolding engine_ok_def
proof (intro allI)
  fix paths and cb :: "native_scan_chunk \<Rightarrow> ('w fuzzer, unit) io" and fz
  let ?cs = "map (chunk_of s oid b base_url path_at paths) (fst (raw paths fz))"
  let ?e = "scan_chunks s oid b base_url path_at raw paths cb fz"
  from assms obtain m where m: "m \<le> paths_length paths" "ranges_ok 0 m (fst (raw paths fz))"
    "snd (raw paths fz) = Inr () \<and> \<not> should_stop_processing (snd (each cb ?cs fz)) \<longrightarrow> m = paths_length paths"
    unfolding raw_engine_ok_def by blast
  obtain r f where r: "each cb ?cs fz = (r, f)" by fastforce
  have e: "?e = (case r of Inl e \<Rightarrow> (Inl e, f) | Inr _ \<Rightarrow> (snd (raw paths fz), f))"
    using r by (cases "raw paths fz")
      (simp add: scan_chunks_def chunk_of_each io_bind_def raise_def ret_def split: sum.split)
  have "snd ?e = snd (each cb ?cs fz)" "fst ?e = Inr () \<longrightarrow> fst (each cb ?cs fz) = Inr ()"
    "fst ?e = Inr () \<and> \<not> should_stop_processing (snd ?e) \<longrightarrow> m = paths_length paths"
    using m(3) unfolding e r by (cases r; simp)+
  with m chunks_of_ok [OF m(2,1), of s oid b base_url path_at]
  show "\<exists>cs m. m \<le> paths_length paths \<and> chunks_ok paths 0 m cs \<and> snd ?e = snd (each cb cs fz) \<and>
      (fst ?e = Inr () \<longrightarrow> fst (each cb cs fz) = Inr ()) \<and>
      (fst ?e = Inr () \<and> \<not> should_stop_processing (snd ?e) \<longrightarrow> m = paths_length paths)"
    by (intro exI [of _ ?cs] exI [of _ m]) simp
qed

section \<open>A run\<close>

definition quick_options :: native_options where
  "quick_options =
     \<lparr>no_proxies = [], no_proxy_auth = [], no_headers = [], no_thread_count = 25, no_timeout = 7,
      no_max_rate = 0, no_delay = 0, no_follow_redirects = False, no_http_method = ''GET'', no_data = None,
      no_auth = [], no_auth_type = [], no_network_interface = None, no_cert_file = [], no_key_file = [],
      no_random_agents = False, no_max_retries = 1\<rparr>"

definition working_module :: native_module where
  "working_module = \<lparr>nm_importable = True, nm_version = Some native_extension_version, nm_engine_error = (\<lambda>_. None)\<rparr>"

definition no_parsers :: body_parsers where
  "no_parsers = \<lparr>accepts_json = (\<lambda>_. False), accepts_xml = (\<lambda>_. False)\<rparr>"

definition quick_setup :: native_setup where
  "quick_setup =
     \<lparr>ns_module = working_module, ns_python = [3, 14, 0], ns_parsers = no_parsers,
      ns_codecs = fl_codecs demo_lib, ns_files = (\<lambda>_. None), ns_script_path = [], ns_options = quick_options,
      ns_filters = demo_options, ns_scan = (\<lambda>_ _ _ _ _ _ _. Inr [])\<rparr>"

definition quick_backend :: native_backend where
  "quick_backend =
     \<lparr>nb_engine = None, nb_engine_cancelled = False, nb_proxy_override = None, nb_overrides = [],
      nb_auth_type = [], nb_auth_credential = [], nb_client_certificate = [], nb_client_key = [],
      nb_random_user_agents = [], nb_cancel_generation = 0, nb_consumed_generation = 0\<rparr>"

lemma quick_backend_new: "new_backend working_module [3, 14] (\<lambda>_. None) [] quick_options None None [] = Inr quick_backend"
  by (simp add: new_backend_def working_module_def quick_options_def quick_backend_def
      get_native_extension_version_error_def load_client_identity_def load_random_user_agents_def)

lemma quick_enter: "\<exists>config b. enter_scan working_module no_parsers quick_options (cancel quick_backend) = (Inr config, b)"
  by (simp add: enter_scan_def get_engine_def engine_config_of_def normalize_proxy_urls_def quick_options_def
      quick_backend_def cancel_def cancel_engine_def working_module_def)

section \<open>Properties\<close>



text \<open>C15: the fuzzer over the Rust engine finishes its work: if Rust delivers ascending results for
  consecutive ranges, the loop over \<open>scan_chunks\<close> ends, and it leaves no claimed path behind
  unless the scan was told to quit.\<close>
theorem native_backend_finishes:
  assumes "raw_engine_ok s oid b base_url path_at raw" and "native_callbacks_safe valid env"
    and "finite {p. valid p}" and "settled fz" and "work_bound valid (fz_dictionary fz) < n"
  shows "\<exists>r fz'. native_loop n env (scan_chunks s oid b base_url path_at raw) fz = Some (r, fz') \<and>
    (fz_quit fz' \<or> dict_outstanding (fz_dictionary fz') = []) \<and>
    (r = Inr True \<longrightarrow> fz_quit fz' \<or> dict_pending (fz_dictionary fz') = [])"
proof -
  note e = scan_chunks_ok [OF assms(1)]
  obtain r fz' where l: "native_loop n env (scan_chunks s oid b base_url path_at raw) fz = Some (r, fz')"
    using native_loop_ends [OF assms(2) e assms(3,4,5)] by auto
  with native_loop_spec [OF assms(2) e assms(4) l] show ?thesis by (auto simp: settled_def)
qed

theorem native_backend_finishes_witness:
  "\<exists>r fz'. native_loop 3 demo_fuzz
     (scan_chunks quick_setup 0 quick_backend ''http://h/'' (\<lambda>_ _. []) (\<lambda>paths _. ([(0, paths_length paths, [])], Inr ())))
     two_paths = Some (r, fz') \<and> (fz_quit fz' \<or> dict_outstanding (fz_dictionary fz') = [])"
proof -
  have raw: "raw_engine_ok quick_setup 0 quick_backend ''http://h/'' (\<lambda>_ _. [])
      (\<lambda>paths _. ([(0, paths_length paths, [])], Inr ()))"
    by (simp add: raw_engine_ok_def)
  from native_backend_finishes [OF raw demo_native_safe _ two_paths_settled, of "\<lambda>_. False" 3]
  show ?thesis by (auto simp: two_paths_work)
qed

text \<open>The requester speaks with one voice about authentication: whatever was set before, the backend
  it scans with uses the credentials the requester holds, and a reset brings the configured ones
  back; a type that Rust cannot do is refused and changes nothing.\<close>
lemma native_auth_reaches_backend:
  "map_option (\<lambda>b. (nb_auth_type b, nb_auth_credential b)) (nr_backend (set_requester_authentication t c r)) =
     map_option (\<lambda>_. (t, c)) (nr_backend r) \<and>
   nr_origin_auth (reset_native_auth (snd (set_native_auth t c r))) = nr_configured_auth r \<and>
   (t \<notin> set native_authentication_types \<longrightarrow>
      set_native_auth t c r = (Inl (RequestException (the (get_native_authentication_error t))), r))"
  by (auto simp: set_requester_authentication_def set_origin_authentication_def reset_native_auth_def
      set_native_auth_def get_native_authentication_error_def option.map_comp comp_def split: option.split)

end
