(* ===== verification/NativeControl.thy ===== *)
theory NativeControl
  imports NativeBackend
begin

text \<open>
  The life cycle of \<open>NativeFuzzer\<close> (\<open>lib/core/fuzzer.py\<close>): \<open>prepare_start\<close>, the phases of
  \<open>start\<close>, and \<open>play\<close>, \<open>pause\<close> and \<open>quit\<close> of the controlling thread, as steps of two threads that
  share events.  What a scan does to the queue is left open here, up to the queue's invariant;
  \<open>NativeFuzzer\<close> has it in detail.
\<close>

section \<open>State\<close>

text \<open>Where the scanning thread is: \<open>Acked\<close> has set the pause event and not yet called \<open>wait\<close>, \<open>Woken\<close> was
  released from it.\<close>

datatype native_phase = Idle | SettingUp | AtLoop | Scanning | Acked | Waiting | Woken | Finished

record native_control =
  nt_phase :: native_phase
  nt_play :: bool
  nt_quit :: bool
  nt_finished :: bool
  nt_started :: bool
  nt_paused :: bool
  nt_prepared :: bool
  nt_backend :: "native_backend option"
  nt_dictionary :: dictionary

definition new_control :: "native_backend option \<Rightarrow> dictionary \<Rightarrow> native_control" where
  "new_control b d =
     \<lparr>nt_phase = Idle, nt_play = False, nt_quit = False, nt_finished = False, nt_started = False,
      nt_paused = False, nt_prepared = False, nt_backend = b, nt_dictionary = d\<rparr>"

section \<open>Operations of the controlling thread\<close>

definition reset_native_cancellation :: "native_control \<Rightarrow> native_control" where
  "reset_native_cancellation c = c\<lparr>nt_backend := map_option reset_cancel (nt_backend c)\<rparr>"

definition clear_events :: "native_control \<Rightarrow> native_control" where
  "clear_events c =
     reset_native_cancellation (c\<lparr>nt_quit := False, nt_finished := False, nt_paused := False, nt_started := False,
        nt_phase := Idle\<rparr>)"

definition prepare_start :: "native_control \<Rightarrow> native_control" where
  "prepare_start c = (clear_events c)\<lparr>nt_prepared := True\<rparr>"

text \<open>Setting the play event also releases a thread that waits for it.\<close>

definition set_play :: "native_control \<Rightarrow> native_control" where
  "set_play c = c\<lparr>nt_play := True, nt_phase := (if nt_phase c = Waiting then Woken else nt_phase c)\<rparr>"

definition native_play :: "native_control \<Rightarrow> native_control" where
  "native_play c = set_play ((reset_native_cancellation c)\<lparr>nt_paused := False\<rparr>)"

text \<open>\<open>pause\<close> up to its last wait, when the scan has started; and the answer it then waits for.\<close>

definition native_pause :: "native_control \<Rightarrow> native_control" where
  "native_pause c =
     (let c = c\<lparr>nt_play := False\<rparr> in
      if nt_finished c then c else c\<lparr>nt_backend := map_option cancel (nt_backend c)\<rparr>)"

definition pause_answered :: "native_control \<Rightarrow> bool" where
  "pause_answered c \<longleftrightarrow> nt_finished c \<or> nt_paused c"

definition native_quit :: "native_control \<Rightarrow> native_control" where
  "native_quit c =
     (let c = set_play (c\<lparr>nt_quit := True, nt_paused := False\<rparr>) in
      c\<lparr>nt_backend := map_option cancel (nt_backend c)\<rparr>)"

section \<open>Operations of the scanning thread\<close>

definition requeue_control :: "native_control \<Rightarrow> native_control" where
  "requeue_control c = c\<lparr>nt_dictionary := requeue_claims (nt_dictionary c)\<rparr>"

definition native_finish :: "native_control \<Rightarrow> native_control" where
  "native_finish c = c\<lparr>nt_phase := Finished, nt_finished := True, nt_started := True, nt_paused := True\<rparr>"

definition native_begin :: "native_backend \<Rightarrow> native_control \<Rightarrow> native_control" where
  "native_begin b c =
     (let c = (if nt_prepared c then c else clear_events c)\<lparr>nt_prepared := False, nt_phase := SettingUp\<rparr> in
      case nt_backend c of None \<Rightarrow> c\<lparr>nt_backend := Some b\<rparr> | Some _ \<Rightarrow> c)"

definition native_ready :: "native_control \<Rightarrow> native_control" where
  "native_ready c = (set_play c)\<lparr>nt_started := True, nt_phase := AtLoop\<rparr>"

text \<open>A turn of the loop, with the queue after the claim of the next chunk; no chunk ends the loop.\<close>

definition native_turn :: "dictionary \<Rightarrow> bool \<Rightarrow> native_control \<Rightarrow> native_control" where
  "native_turn d got c =
     (if nt_quit c then native_finish c
      else if \<not> nt_play c then (requeue_control c)\<lparr>nt_paused := True, nt_phase := Acked\<rparr>
      else if got then c\<lparr>nt_dictionary := d, nt_phase := Scanning\<rparr>
      else native_finish (c\<lparr>nt_dictionary := d\<rparr>))"

definition native_scan_end :: "dictionary \<Rightarrow> bool \<Rightarrow> native_control \<Rightarrow> native_control" where
  "native_scan_end d failed c =
     (let c = c\<lparr>nt_dictionary := d\<rparr> in
      if failed then native_finish (requeue_control c)
      else (if nt_play c then c else requeue_control c)\<lparr>nt_phase := AtLoop\<rparr>)"

definition native_wait :: "native_control \<Rightarrow> native_control" where
  "native_wait c = c\<lparr>nt_phase := (if nt_play c then Woken else Waiting)\<rparr>"

definition native_wake :: "native_control \<Rightarrow> native_control" where
  "native_wake c = c\<lparr>nt_paused := False, nt_phase := AtLoop\<rparr>"

section \<open>The steps\<close>

inductive scan_thread_step :: "native_control \<Rightarrow> native_control \<Rightarrow> bool" where
  step_ready: "nt_phase c = SettingUp \<Longrightarrow> scan_thread_step c (native_ready c)"
| step_setup_failed: "nt_phase c = SettingUp \<Longrightarrow> scan_thread_step c (native_finish c)"
| step_turn: "nt_phase c = AtLoop \<Longrightarrow> dict_wf d \<Longrightarrow> scan_thread_step c (native_turn d got c)"
| step_scan: "nt_phase c = Scanning \<Longrightarrow> dict_wf d \<Longrightarrow> scan_thread_step c (c\<lparr>nt_dictionary := d\<rparr>)"
| step_scan_end: "nt_phase c = Scanning \<Longrightarrow> dict_wf d \<Longrightarrow> scan_thread_step c (native_scan_end d failed c)"
| step_wait: "nt_phase c = Acked \<Longrightarrow> scan_thread_step c (native_wait c)"
| step_wake: "nt_phase c = Woken \<Longrightarrow> scan_thread_step c (native_wake c)"

inductive control_step :: "native_control \<Rightarrow> native_control \<Rightarrow> bool" where
  by_scan_thread: "scan_thread_step c c' \<Longrightarrow> control_step c c'"
| by_prepare: "nt_phase c \<in> {Idle, Finished} \<Longrightarrow> control_step c (prepare_start c)"
| by_begin: "nt_phase c = Idle \<or> nt_phase c = Finished \<and> \<not> nt_prepared c \<Longrightarrow> control_step c (native_begin b c)"
| by_play: "control_step c (native_play c)"
| by_pause: "nt_started c \<Longrightarrow> control_step c (native_pause c)"
| by_quit: "control_step c (native_quit c)"

inductive_cases scan_thread_cases: "scan_thread_step c c'"

inductive control_reachable :: "native_control \<Rightarrow> native_control \<Rightarrow> bool" for c0 :: native_control where
  control_initial: "control_reachable c0 c0"
| control_next: "control_reachable c0 c \<Longrightarrow> control_step c c' \<Longrightarrow> control_reachable c0 c'"

section \<open>The invariant\<close>

definition control_inv :: "native_control \<Rightarrow> bool" where
  "control_inv c \<longleftrightarrow>
     dict_wf (nt_dictionary c) \<and>
     (nt_finished c \<longleftrightarrow> nt_phase c = Finished) \<and>
     (nt_paused c \<and> nt_phase c \<noteq> Finished \<longrightarrow> nt_phase c \<in> {Acked, Waiting} \<and> \<not> nt_play c) \<and>
     (nt_phase c \<in> {Acked, Waiting, Woken} \<longrightarrow> dict_outstanding (nt_dictionary c) = []) \<and>
     (nt_phase c = Waiting \<longrightarrow> \<not> nt_play c)"

lemmas control_defs = reset_native_cancellation_def clear_events_def prepare_start_def set_play_def
  native_play_def native_pause_def native_quit_def requeue_control_def native_finish_def native_begin_def
  native_ready_def native_turn_def native_scan_end_def native_wait_def native_wake_def Let_def

lemma new_control_inv: "dict_wf d \<Longrightarrow> control_inv (new_control b d)"
  by (simp add: control_inv_def new_control_def)

lemma requeue_inv: "dict_wf d \<Longrightarrow> dict_wf (requeue_claims d) \<and> dict_outstanding (requeue_claims d) = []"
  by (simp add: requeue_wf requeue_outstanding_eq)

lemma scan_thread_inv: "scan_thread_step c c' \<Longrightarrow> control_inv c \<Longrightarrow> control_inv c'"
  by (elim scan_thread_cases)
     (auto simp: control_inv_def control_defs requeue_inv)

lemma control_step_inv: "control_step c c' \<Longrightarrow> control_inv c \<Longrightarrow> control_inv c'"
proof (induction rule: control_step.induct)
  case (by_begin c b)
  then show ?case by (auto simp: control_inv_def control_defs split: option.split)
qed (auto simp: scan_thread_inv, auto simp: control_inv_def control_defs)

lemma control_reachable_inv: "control_reachable c0 c \<Longrightarrow> control_inv c0 \<Longrightarrow> control_inv c"
  by (induction rule: control_reachable.induct) (auto dest: control_step_inv)

text \<open>From an acknowledged pause on, the scanning thread only goes to sleep.\<close>

lemma paused_thread_idle:
  assumes "scan_thread_step c c'" and "control_inv c" and "nt_phase c \<in> {Acked, Waiting}" and "\<not> nt_play c"
  shows "nt_phase c' \<in> {Acked, Waiting} \<and> \<not> nt_play c' \<and> nt_dictionary c' = nt_dictionary c \<and> control_inv c'"
  using assms scan_thread_inv [OF assms(1,2)] by (elim scan_thread_cases) (auto simp: native_wait_def)

lemma paused_thread_stays:
  assumes "scan_thread_step\<^sup>*\<^sup>* c c'" and "control_inv c" and "nt_phase c \<in> {Acked, Waiting}" and "\<not> nt_play c"
  shows "nt_phase c' \<in> {Acked, Waiting} \<and> \<not> nt_play c' \<and> nt_dictionary c' = nt_dictionary c \<and> control_inv c'"
  using assms
proof (induction rule: rtranclp_induct)
  case (step y z)
  then show ?case using paused_thread_idle [OF step.hyps(2)] by auto
qed simp

section \<open>A run\<close>

definition paused_run :: native_control where
  "paused_run = native_turn (dict_init [''a''] False) True (native_pause (native_ready
     (native_begin quick_backend (prepare_start (new_control None (dict_init [''a''] False))))))"

lemma paused_run_reachable: "control_reachable (new_control None (dict_init [''a''] False)) paused_run"
  unfolding paused_run_def
  by (rule control_next [OF control_next [OF control_next [OF control_next [OF control_next [OF control_initial by_prepare]
        by_begin] by_scan_thread [OF step_ready]] by_pause] by_scan_thread [OF step_turn]])
     (simp_all add: control_defs new_control_def dict_init_def dict_wf_def native_claim_ok_def)

section \<open>Properties\<close>



end
