(* ===== verification/Session.thy ===== *)
theory Session
  imports Complex_Main Dictionary Filters "HOL-Library.List_Lexorder" "HOL-Library.Char_ord"
begin

text \<open>
  Saved sessions, \<open>lib/controller/session.py\<close>: the values that options hold, what JSON makes of
  them, the document a session is saved as, and saving, loading, listing and deleting over a
  directory tree.  A file is its JSON document, or no document when it cannot be read as one.
\<close>

section \<open>Values and documents\<close>

datatype pyval =
    PyNone
  | PyBool bool
  | PyInt int
  | PyFloat pyfloat
  | PyStr string
  | PyBytes string
  | PyList "pyval list"
  | PyTuple "pyval list"
  | PySet "pyval list"
  | PyDict "(string \<times> pyval) list"

text \<open>A set is listed in its iteration order.  \<open>json.dump\<close> refuses sets and bytes and writes tuples as
  lists; reading gives back what was written.\<close>

primrec json_ok :: "pyval \<Rightarrow> bool" where
  "json_ok PyNone = True"
| "json_ok (PyBool b) = True"
| "json_ok (PyInt i) = True"
| "json_ok (PyFloat q) = True"
| "json_ok (PyStr s) = True"
| "json_ok (PyBytes s) = False"
| "json_ok (PyList vs) = list_all id (map json_ok vs)"
| "json_ok (PyTuple vs) = list_all id (map json_ok vs)"
| "json_ok (PySet vs) = False"
| "json_ok (PyDict kvs) = list_all snd (map (map_prod id json_ok) kvs)"

primrec json_doc :: "pyval \<Rightarrow> pyval" where
  "json_doc PyNone = PyNone"
| "json_doc (PyBool b) = PyBool b"
| "json_doc (PyInt i) = PyInt i"
| "json_doc (PyFloat q) = PyFloat q"
| "json_doc (PyStr s) = PyStr s"
| "json_doc (PyBytes s) = PyBytes s"
| "json_doc (PyList vs) = PyList (map json_doc vs)"
| "json_doc (PyTuple vs) = PyList (map json_doc vs)"
| "json_doc (PySet vs) = PySet (map json_doc vs)"
| "json_doc (PyDict kvs) = PyDict (map (map_prod id json_doc) kvs)"

definition json_dump :: "pyval \<Rightarrow> pyval result" where
  "json_dump v = (if json_ok v then Inr (json_doc v) else Inl (TypeError ''Object is not JSON serializable''))"

text \<open>\<open>d.get(key)\<close>, \<open>d[key]\<close>, truth and length of a value.\<close>

definition py_get :: "string \<Rightarrow> pyval \<Rightarrow> pyval option result" where
  "py_get key v =
     (case v of PyDict kvs \<Rightarrow> Inr (map_of kvs key) | _ \<Rightarrow> Inl (AttributeError ''object has no attribute get''))"

definition py_get_default :: "string \<Rightarrow> pyval \<Rightarrow> pyval \<Rightarrow> pyval result" where
  "py_get_default key dflt v = rbind (py_get key v) (\<lambda>r. Inr (case r of None \<Rightarrow> dflt | Some x \<Rightarrow> x))"

definition py_index :: "string \<Rightarrow> pyval \<Rightarrow> pyval result" where
  "py_index key v =
     (case v of PyDict kvs \<Rightarrow> (case map_of kvs key of None \<Rightarrow> Inl KeyError | Some x \<Rightarrow> Inr x)
      | _ \<Rightarrow> Inl (TypeError ''object is not subscriptable by a string''))"

definition py_truth :: "pyval \<Rightarrow> bool" where
  "py_truth v =
     (case v of PyNone \<Rightarrow> False | PyBool b \<Rightarrow> b | PyInt i \<Rightarrow> i \<noteq> 0 | PyFloat q \<Rightarrow> q \<noteq> Fin 0 | PyStr s \<Rightarrow> s \<noteq> []
      | PyBytes s \<Rightarrow> s \<noteq> [] | PyList vs \<Rightarrow> vs \<noteq> [] | PyTuple vs \<Rightarrow> vs \<noteq> [] | PySet vs \<Rightarrow> vs \<noteq> [] | PyDict kvs \<Rightarrow> kvs \<noteq> [])"

definition py_len :: "pyval \<Rightarrow> nat result" where
  "py_len v =
     (case v of PyStr s \<Rightarrow> Inr (length s) | PyBytes s \<Rightarrow> Inr (length s) | PyList vs \<Rightarrow> Inr (length vs)
      | PyTuple vs \<Rightarrow> Inr (length vs) | PySet vs \<Rightarrow> Inr (length vs) | PyDict kvs \<Rightarrow> Inr (length kvs)
      | _ \<Rightarrow> Inl (TypeError ''object has no len()''))"

section \<open>Base64\<close>

definition b64_char :: "nat \<Rightarrow> char" where
  "b64_char n =
     (if n < 26 then char_of (n + 65) else if n < 52 then char_of (n + 71) else if n < 62 then char_of (n - 4)
      else if n = 62 then CHR ''+'' else CHR ''/'')"

definition b64_index :: "char \<Rightarrow> nat option" where
  "b64_index c =
     (let n = of_char c :: nat in
      if 65 \<le> n \<and> n \<le> 90 then Some (n - 65) else if 97 \<le> n \<and> n \<le> 122 then Some (n - 71)
      else if 48 \<le> n \<and> n \<le> 57 then Some (n + 4) else if n = 43 then Some 62 else if n = 47 then Some 63 else None)"

fun b64_encode :: "string \<Rightarrow> string" where
  "b64_encode [] = []"
| "b64_encode [a] =
     (let n = of_char a * 16 :: nat in [b64_char (n div 64), b64_char (n mod 64), CHR ''='', CHR ''=''])"
| "b64_encode [a, b] =
     (let n = (of_char a * 256 + of_char b) * 4 :: nat in
      [b64_char (n div 4096), b64_char (n div 64 mod 64), b64_char (n mod 64), CHR ''=''])"
| "b64_encode (a # b # c # s) =
     (let n = (of_char a * 256 + of_char b) * 256 + of_char c :: nat in
      b64_char (n div 262144) # b64_char (n div 4096 mod 64) # b64_char (n div 64 mod 64) # b64_char (n mod 64) #
      b64_encode s)"

text \<open>\<open>b64decode(validate=True)\<close>; the padding bits of the last group are not looked at.\<close>

definition b64_error :: exc where
  "b64_error = ValueError ''Invalid base64-encoded string''"

definition b64_group :: "char \<Rightarrow> char \<Rightarrow> char \<Rightarrow> char \<Rightarrow> string result" where
  "b64_group w x y z =
     (case (b64_index w, b64_index x, b64_index y, b64_index z) of
        (Some i, Some j, Some k, Some l) \<Rightarrow>
          let n = ((i * 64 + j) * 64 + k) * 64 + l in
          Inr [char_of (n div 65536), char_of (n div 256 mod 256), char_of (n mod 256)]
      | _ \<Rightarrow> Inl b64_error)"

definition b64_last :: "char \<Rightarrow> char \<Rightarrow> char \<Rightarrow> char \<Rightarrow> string result" where
  "b64_last w x y z =
     (case (b64_index w, b64_index x) of
        (Some i, Some j) \<Rightarrow>
          if z \<noteq> CHR ''='' then b64_group w x y z
          else if y = CHR ''='' then Inr [char_of ((i * 64 + j) div 16)]
          else (case b64_index y of
                  None \<Rightarrow> Inl b64_error
                | Some k \<Rightarrow> let n = ((i * 64 + j) * 64 + k) div 4 in Inr [char_of (n div 256), char_of (n mod 256)])
      | _ \<Rightarrow> Inl b64_error)"

fun b64_decode :: "string \<Rightarrow> string result" where
  "b64_decode [] = Inr []"
| "b64_decode [w, x, y, z] = b64_last w x y z"
| "b64_decode (w # x # y # z # s) =
     rbind (b64_group w x y z) (\<lambda>p. rbind (b64_decode s) (\<lambda>q. Inr (p @ q)))"
| "b64_decode _ = Inl b64_error"

section \<open>Options\<close>

type_synonym py_options = "(string \<times> pyval) list"

definition session_option_set_keys :: "string list" where
  "session_option_set_keys =
     [''recursion_status_codes'', ''include_status_codes'', ''exclude_status_codes'', ''exclude_sizes'',
      ''skip_on_status'', ''match_status_codes'', ''filter_status_codes'']"

definition session_option_tuple_keys :: "string list" where
  "session_option_tuple_keys = [''extensions'', ''exclude_extensions'', ''prefixes'', ''suffixes'']"

definition session_bytes_marker :: string where
  "session_bytes_marker = ''__dirsearch_bytes_b64__''"

definition serialize_option :: "string \<Rightarrow> pyval \<Rightarrow> pyval" where
  "serialize_option key v =
     (case v of
        PyBytes s \<Rightarrow> if key = ''data'' then PyDict [(session_bytes_marker, PyStr (b64_encode s))] else v
      | PySet vs \<Rightarrow> PyList vs
      | PyTuple vs \<Rightarrow> PyList vs
      | _ \<Rightarrow> v)"

definition serialize_options :: "py_options \<Rightarrow> py_options" where
  "serialize_options opts = map (\<lambda>(k, v). (k, serialize_option k v)) opts"

text \<open>\<open>set(value)\<close> and \<open>tuple(value)\<close> of a value read from JSON.\<close>

definition py_iter :: "pyval \<Rightarrow> pyval list result" where
  "py_iter v =
     (case v of PyList vs \<Rightarrow> Inr vs | PyTuple vs \<Rightarrow> Inr vs | PySet vs \<Rightarrow> Inr vs | PyStr s \<Rightarrow> Inr (map (\<lambda>c. PyStr [c]) s)
      | PyBytes s \<Rightarrow> Inr (map (\<lambda>c. PyInt (of_char c)) s) | PyDict kvs \<Rightarrow> Inr (map (\<lambda>(k, _). PyStr k) kvs)
      | _ \<Rightarrow> Inl (TypeError ''object is not iterable''))"

definition restore_option :: "string \<Rightarrow> pyval \<Rightarrow> pyval result" where
  "restore_option key v =
     (if key \<in> set session_option_set_keys \<and> v \<noteq> PyNone then rbind (py_iter v) (\<lambda>vs. Inr (PySet (remdups vs)))
      else if key \<in> set session_option_tuple_keys \<and> v \<noteq> PyNone then rbind (py_iter v) (\<lambda>vs. Inr (PyTuple vs))
      else (case v of
              PyDict [(marker, coded)] \<Rightarrow>
                if key = ''data'' \<and> marker = session_bytes_marker
                then (case coded of
                        PyStr s \<Rightarrow> (case b64_decode s of
                                      Inl _ \<Rightarrow> Inl (UnpicklingError ''Invalid binary session option: data'')
                                    | Inr bytes \<Rightarrow> Inr (PyBytes bytes))
                      | _ \<Rightarrow> Inl (UnpicklingError ''Invalid binary session option: data''))
                else Inr v
            | _ \<Rightarrow> Inr v))"

definition restore_options :: "py_options \<Rightarrow> py_options result" where
  "restore_options serialized = rmap (\<lambda>(k, v). rbind (restore_option k v) (\<lambda>r. Inr (k, r))) serialized"

section \<open>The controller's state\<close>

text \<open>The attributes of \<open>Controller\<close> that a session keeps.  \<open>c_output_history\<close> is \<open>None\<close> before the attribute
  exists or when it is not a list.\<close>

record controller =
  c_start_time :: rat
  c_passed_urls :: "string set"
  c_directories :: "string list"
  c_jobs_processed :: nat
  c_errors :: nat
  c_consecutive_errors :: nat
  c_base_path :: string
  c_url :: string
  c_old_session :: bool
  c_dictionary :: dictionary
  c_output_history :: "pyval list option"

definition py_strings :: "string list \<Rightarrow> pyval" where
  "py_strings ss = PyList (map PyStr ss)"

definition serialize_controller_state :: "controller \<Rightarrow> pyval" where
  "serialize_controller_state c =
     PyDict [(''start_time'', PyFloat (Fin (c_start_time c))),
             (''passed_urls'', py_strings (sorted_list_of_set (c_passed_urls c))),
             (''directories'', py_strings (c_directories c)),
             (''jobs_processed'', PyInt (int (c_jobs_processed c))),
             (''errors'', PyInt (int (c_errors c))),
             (''consecutive_errors'', PyInt (int (c_consecutive_errors c))),
             (''base_path'', PyStr (c_base_path c)),
             (''url'', PyStr (c_url c)),
             (''old_session'', PyBool (c_old_session c))]"

definition serialize_dictionary :: "controller \<Rightarrow> pyval" where
  "serialize_dictionary c =
     (case dict_getstate (c_dictionary c) of (items, index, extra, extra_index) \<Rightarrow>
        PyDict [(''items'', py_strings items), (''index'', PyInt (int index)),
                (''extra'', py_strings extra), (''extra_index'', PyInt (int extra_index))])"

section \<open>Directories\<close>

text \<open>A file with its document, a directory, or a symbolic link with what it leads to.\<close>

datatype node = NFile "pyval option" | NDir "(string \<times> node) list" | NLink "node option"

definition follow :: "node option \<Rightarrow> node option" where
  "follow n = (case n of Some (NLink t) \<Rightarrow> t | _ \<Rightarrow> n)"

definition entry :: "string \<Rightarrow> node option \<Rightarrow> node option" where
  "entry name n = (case follow n of Some (NDir es) \<Rightarrow> map_of es name | _ \<Rightarrow> None)"

definition is_file :: "node option \<Rightarrow> bool" where
  "is_file n \<longleftrightarrow> (case follow n of Some (NFile _) \<Rightarrow> True | _ \<Rightarrow> False)"

definition is_folder :: "node option \<Rightarrow> bool" where
  "is_folder n \<longleftrightarrow> (case follow n of Some (NDir _) \<Rightarrow> True | _ \<Rightarrow> False)"

definition read_json :: "node option \<Rightarrow> pyval result" where
  "read_json n =
     (case follow n of
        Some (NFile (Some doc)) \<Rightarrow> Inr doc
      | _ \<Rightarrow> Inl (UnpicklingError ''cannot read the document''))"

definition session_version :: int where "session_version = 1"
definition checkpoint_file :: string where "checkpoint_file = ''dirsearch-session.json''"
definition meta_file :: string where "meta_file = ''meta.json''"
definition controller_file :: string where "controller_file = ''controller.json''"
definition dictionary_file :: string where "dictionary_file = ''dictionary.json''"
definition options_file :: string where "options_file = ''options.json''"

definition session_files :: "string list" where
  "session_files = [meta_file, controller_file, dictionary_file, options_file]"

definition validate_payload :: "pyval \<Rightarrow> unit result" where
  "validate_payload payload =
     rbind (py_get ''version'' payload) (\<lambda>version.
       if version \<noteq> Some (PyInt session_version) then Inl (UnpicklingError ''Unsupported session format version'')
       else rbind (rmap (\<lambda>key. rbind (py_get key payload) (\<lambda>v.
                      if v = None then Inl (UnpicklingError ''Missing required session data'') else Inr ()))
                    [''controller'', ''dictionary'', ''options'']) (\<lambda>_. Inr ()))"

definition validated :: "pyval result \<Rightarrow> pyval result" where
  "validated r = rbind r (\<lambda>payload. rbind (validate_payload payload) (\<lambda>_. Inr payload))"

definition load_legacy :: "node option \<Rightarrow> pyval result" where
  "load_legacy n =
     rbind (read_json (entry meta_file n)) (\<lambda>meta.
     rbind (py_index ''version'' meta) (\<lambda>version.
     rbind (py_get_default ''last_output'' (PyStr []) meta) (\<lambda>last_output.
     rbind (py_get_default ''output_history'' (PyList []) meta) (\<lambda>history.
     rbind (read_json (entry controller_file n)) (\<lambda>controller.
     rbind (read_json (entry dictionary_file n)) (\<lambda>dictionary.
     rbind (read_json (entry options_file n)) (\<lambda>options.
       Inr (PyDict [(''version'', version), (''last_output'', last_output), (''output_history'', history),
                    (''controller'', controller), (''dictionary'', dictionary), (''options'', options)]))))))))"

definition load_session :: "node option \<Rightarrow> pyval result" where
  "load_session n =
     (if is_file n then validated (read_json n)
      else if is_file (entry checkpoint_file n) then validated (read_json (entry checkpoint_file n))
      else validated (load_legacy n))"

section \<open>Earlier output\<close>

definition history_entry :: "pyval \<Rightarrow> pyval option" where
  "history_entry e =
     (case e of
        PyDict kvs \<Rightarrow>
          (case map_of kvs ''output'' of
             None \<Rightarrow> None
           | Some output \<Rightarrow>
               if output = PyNone then None
               else Some (PyDict [(''start_time'', case map_of kvs ''start_time'' of None \<Rightarrow> PyNone | Some t \<Rightarrow> t),
                                  (''output'', output)]))
      | _ \<Rightarrow> None)"

definition deserialize_output_history :: "pyval \<Rightarrow> pyval \<Rightarrow> pyval list result" where
  "deserialize_output_history payload start_time =
     rbind (py_get ''output_history'' payload) (\<lambda>history.
       case history of
         Some (PyList es) \<Rightarrow> Inr (List.map_filter history_entry es)
       | _ \<Rightarrow>
           rbind (py_get ''last_output'' payload) (\<lambda>last_output.
             case last_output of
               None \<Rightarrow> Inr []
             | Some output \<Rightarrow>
                 Inr (if py_truth output then [PyDict [(''start_time'', start_time), (''output'', output)]] else [])))"

definition or_none :: "pyval option \<Rightarrow> pyval" where
  "or_none v = (case v of None \<Rightarrow> PyNone | Some x \<Rightarrow> x)"

definition load_output_history :: "node option \<Rightarrow> pyval list result" where
  "load_output_history n =
     (if is_file (entry checkpoint_file n)
      then (case read_json (entry checkpoint_file n) of
              Inl _ \<Rightarrow> Inr []
            | Inr payload \<Rightarrow>
                rbind (py_get ''version'' payload) (\<lambda>version.
                  if version \<noteq> Some (PyInt session_version) then Inr []
                  else rbind (py_get_default ''controller'' (PyDict []) payload) (\<lambda>controller.
                       rbind (py_get ''start_time'' controller) (\<lambda>start_time.
                         deserialize_output_history payload (or_none start_time)))))
      else if \<not> is_file (entry meta_file n) then Inr []
      else (case read_json (entry meta_file n) of
              Inl _ \<Rightarrow> Inr []
            | Inr meta \<Rightarrow>
                rbind (py_get ''version'' meta) (\<lambda>version.
                  if version \<noteq> Some (PyInt session_version) then Inr []
                  else if \<not> is_file (entry controller_file n) then deserialize_output_history meta PyNone
                  else (case read_json (entry controller_file n) of
                          Inl _ \<Rightarrow> deserialize_output_history meta PyNone
                        | Inr controller \<Rightarrow>
                            rbind (py_get ''start_time'' controller) (\<lambda>start_time.
                              deserialize_output_history meta (or_none start_time))))))"

section \<open>Saving and deleting\<close>

text \<open>\<open>_delete_session_files\<close>; unlinking a directory fails.\<close>

fun delete_session_files :: "string list \<Rightarrow> (string \<times> node) list \<Rightarrow> (string \<times> node) list result" where
  "delete_session_files [] es = Inr es"
| "delete_session_files (name # names) es =
     (case map_of es name of
        Some (NDir _) \<Rightarrow> Inl (OSError ''Is a directory'')
      | _ \<Rightarrow> delete_session_files names (filter (\<lambda>(n, _). n \<noteq> name) es))"

definition write_entry :: "string \<Rightarrow> node \<Rightarrow> (string \<times> node) list \<Rightarrow> (string \<times> node) list result" where
  "write_entry name new es =
     (case map_of es name of
        Some (NDir _) \<Rightarrow> Inl (OSError ''Is a directory'')
      | Some _ \<Rightarrow> Inr (map (\<lambda>(n, old). (n, if n = name then new else old)) es)
      | None \<Rightarrow> Inr (es @ [(name, new)]))"

text \<open>\<open>create_private_dir\<close>: the entries of the directory, empty when it is made.\<close>

definition create_private_dir :: "node option \<Rightarrow> (string \<times> node) list result" where
  "create_private_dir n =
     (case n of
        Some (NLink _) \<Rightarrow> Inl (OSError ''Refusing symbolic link'')
      | Some (NFile _) \<Rightarrow> Inl (OSError ''File exists'')
      | Some (NDir es) \<Rightarrow> Inr es
      | None \<Rightarrow> Inr [])"

definition session_payload :: "py_options \<Rightarrow> controller \<Rightarrow> string \<Rightarrow> pyval list \<Rightarrow> pyval" where
  "session_payload opts c last_output history =
     PyDict [(''version'', PyInt session_version),
             (''controller'', serialize_controller_state c),
             (''dictionary'', serialize_dictionary c),
             (''options'', PyDict (serialize_options opts)),
             (''last_output'', PyStr last_output),
             (''output_history'', PyList history)]"

text \<open>\<open>save\<close>: the new tree and controller, or the exception and the tree it leaves.  The checkpoint is
  replaced atomically; the files of the older format are removed after it is in place.\<close>

definition save_session ::
  "py_options \<Rightarrow> string \<Rightarrow> controller \<Rightarrow> node option \<Rightarrow> controller result \<times> node option" where
  "save_session opts last_output c n =
     (case (case c_output_history c of Some h \<Rightarrow> Inr h | None \<Rightarrow> load_output_history n) of
        Inl e \<Rightarrow> (Inl e, n)
      | Inr h \<Rightarrow>
          let history = (if last_output = [] then h
                         else h @ [PyDict [(''start_time'', PyFloat (Fin (c_start_time c))), (''output'', PyStr last_output)]])
          in case create_private_dir n of
               Inl e \<Rightarrow> (Inl e, n)
             | Inr es \<Rightarrow>
                 (case rbind (json_dump (session_payload opts c last_output history))
                         (\<lambda>doc. write_entry checkpoint_file (NFile (Some doc)) es) of
                    Inl e \<Rightarrow> (Inl e, Some (NDir es))
                  | Inr es \<Rightarrow>
                      (case delete_session_files session_files es of
                         Inl e \<Rightarrow> (Inl e, Some (NDir es))
                       | Inr es \<Rightarrow> (Inr (c\<lparr>c_output_history := Some history\<rparr>), Some (NDir es)))))"

definition delete_session :: "node option \<Rightarrow> unit result \<times> node option" where
  "delete_session n =
     (case n of
        Some (NDir es) \<Rightarrow>
          (case delete_session_files (session_files @ [checkpoint_file]) es of
             Inl e \<Rightarrow> (Inl e, n)
           | Inr es \<Rightarrow> (Inr (), if es = [] then None else Some (NDir es)))
      | Some _ \<Rightarrow> (Inr (), None)
      | None \<Rightarrow> (Inl (OSError ''No such file''), None))"

section \<open>Restoring a controller\<close>

text \<open>The fields as \<open>save\<close> writes them; a document with values of other types is refused here, where the
  code would keep them.\<close>

definition py_text :: "pyval \<Rightarrow> string result" where
  "py_text v = (case v of PyStr s \<Rightarrow> Inr s | _ \<Rightarrow> Inl (TypeError ''not a string''))"

definition py_number :: "pyval \<Rightarrow> nat result" where
  "py_number v = (case v of PyInt i \<Rightarrow> if 0 \<le> i then Inr (nat i) else Inl (TypeError ''negative'') | _ \<Rightarrow> Inl (TypeError ''not a number''))"

definition py_time :: "pyval \<Rightarrow> rat result" where
  "py_time v = (case v of PyFloat (Fin q) \<Rightarrow> Inr q | PyInt i \<Rightarrow> Inr (of_int i) | _ \<Rightarrow> Inl (TypeError ''not a number''))"

definition py_flag :: "pyval \<Rightarrow> bool result" where
  "py_flag v = (case v of PyBool b \<Rightarrow> Inr b | _ \<Rightarrow> Inl (TypeError ''not a bool''))"

definition py_texts :: "pyval \<Rightarrow> string list result" where
  "py_texts v = (case v of PyList vs \<Rightarrow> rmap py_text vs | _ \<Rightarrow> Inl (TypeError ''not a list''))"

definition field :: "string \<Rightarrow> pyval \<Rightarrow> (pyval \<Rightarrow> 'a result) \<Rightarrow> pyval \<Rightarrow> 'a result" where
  "field key dflt conv v = rbind (py_get_default key dflt v) conv"

text \<open>\<open>apply_to_controller\<close> and the dictionary it makes; \<open>reporter\<close> is the outcome of \<open>ReportManager(...)\<close>.\<close>

definition restore_dictionary :: "nat \<Rightarrow> pyval \<Rightarrow> dictionary result" where
  "restore_dictionary next_chunk state =
     rbind (rbind (py_index ''items'' state) py_texts) (\<lambda>items.
     rbind (rbind (py_index ''index'' state) py_number) (\<lambda>index.
     rbind (field ''extra'' (PyList []) py_texts state) (\<lambda>extra.
     rbind (field ''extra_index'' (PyInt 0) py_number state) (\<lambda>extra_index.
       Inr (dict_setstate (items, index, extra, extra_index) next_chunk)))))"

definition apply_to_controller ::
  "unit result \<Rightarrow> nat \<Rightarrow> pyval \<Rightarrow> pyval list option \<Rightarrow> controller result" where
  "apply_to_controller reporter next_chunk payload history =
     rbind (py_index ''controller'' payload) (\<lambda>state.
     rbind (rbind (py_index ''start_time'' state) py_time) (\<lambda>start_time.
     rbind (field ''passed_urls'' (PyList []) py_texts state) (\<lambda>passed.
     rbind (field ''directories'' (PyList []) py_texts state) (\<lambda>directories.
     rbind (field ''jobs_processed'' (PyInt 0) py_number state) (\<lambda>jobs.
     rbind (field ''errors'' (PyInt 0) py_number state) (\<lambda>errors.
     rbind (field ''consecutive_errors'' (PyInt 0) py_number state) (\<lambda>consecutive.
     rbind (field ''base_path'' (PyStr []) py_text state) (\<lambda>base_path.
     rbind (field ''url'' (PyStr []) py_text state) (\<lambda>url.
     rbind (field ''old_session'' (PyBool True) py_flag state) (\<lambda>old_session.
     rbind (rbind (py_index ''dictionary'' payload) (restore_dictionary next_chunk)) (\<lambda>dictionary.
       case reporter of
         Inl (InvalidURLException _) \<Rightarrow> Inl (SystemExit ''1'')
       | Inl e \<Rightarrow> Inl e
       | Inr _ \<Rightarrow>
           Inr \<lparr>c_start_time = start_time, c_passed_urls = set passed, c_directories = directories,
                c_jobs_processed = jobs, c_errors = errors, c_consecutive_errors = consecutive,
                c_base_path = base_path, c_url = url, c_old_session = old_session,
                c_dictionary = dictionary, c_output_history = history\<rparr>)))))))))))"

section \<open>Listing\<close>

record session_summary =
  su_path :: string
  su_url :: pyval
  su_targets_left :: nat
  su_directories_left :: nat
  su_jobs_processed :: pyval
  su_errors :: pyval
  su_modified :: rat

definition count_or_none :: "string \<Rightarrow> pyval \<Rightarrow> nat result" where
  "count_or_none key state =
     rbind (py_get key state) (\<lambda>v. if py_truth (or_none v) then py_len (or_none v) else Inr 0)"

definition build_summary :: "(string \<Rightarrow> rat) \<Rightarrow> string \<Rightarrow> string \<Rightarrow> pyval \<Rightarrow> pyval \<Rightarrow> session_summary result" where
  "build_summary mtime session_path meta_path controller_state options_state =
     rbind (py_get_default ''url'' (PyStr []) controller_state) (\<lambda>url.
     rbind (count_or_none ''urls'' options_state) (\<lambda>targets.
     rbind (count_or_none ''directories'' controller_state) (\<lambda>directories.
     rbind (py_get_default ''jobs_processed'' (PyInt 0) controller_state) (\<lambda>jobs.
     rbind (py_get_default ''errors'' (PyInt 0) controller_state) (\<lambda>errors.
       Inr \<lparr>su_path = session_path, su_url = url, su_targets_left = targets, su_directories_left = directories,
            su_jobs_processed = jobs, su_errors = errors, su_modified = mtime meta_path\<rparr>)))))"

text \<open>An \<open>except UnpicklingError: return None\<close> around part of a function.\<close>

definition unpickled :: "'a result \<Rightarrow> ('a \<Rightarrow> 'b option result) \<Rightarrow> 'b option result" where
  "unpickled r f = (case r of Inl (UnpicklingError _) \<Rightarrow> Inr None | Inl e \<Rightarrow> Inl e | Inr x \<Rightarrow> f x)"

definition summarize_session_dir :: "(string \<Rightarrow> rat) \<Rightarrow> string \<Rightarrow> node option \<Rightarrow> session_summary option result" where
  "summarize_session_dir mtime path n =
     (if is_file (entry checkpoint_file n)
      then unpickled (validated (read_json (entry checkpoint_file n))) (\<lambda>payload.
             rbind (py_index ''controller'' payload) (\<lambda>controller.
             rbind (py_index ''options'' payload) (\<lambda>options.
             rbind (build_summary mtime path (path @ ''/'' @ checkpoint_file) controller options) (\<lambda>s. Inr (Some s)))))
      else if \<not> is_file (entry meta_file n) then Inr None
      else unpickled (read_json (entry meta_file n)) (\<lambda>meta.
             rbind (py_get ''version'' meta) (\<lambda>version.
               if version \<noteq> Some (PyInt session_version) then Inr None
               else unpickled (read_json (entry controller_file n)) (\<lambda>controller.
                    unpickled (read_json (entry options_file n)) (\<lambda>options.
                    rbind (build_summary mtime path (path @ ''/'' @ meta_file) controller options) (\<lambda>s. Inr (Some s)))))))"

definition summarize_session_file :: "(string \<Rightarrow> rat) \<Rightarrow> string \<Rightarrow> node option \<Rightarrow> session_summary option result" where
  "summarize_session_file mtime path n =
     unpickled (read_json n) (\<lambda>payload.
       rbind (py_get ''version'' payload) (\<lambda>version.
         if version \<noteq> Some (PyInt session_version) then Inr None
         else rbind (py_get ''controller'' payload) (\<lambda>controller.
              rbind (py_get ''options'' payload) (\<lambda>options.
                if or_none controller = PyNone \<or> or_none options = PyNone then Inr None
                else rbind (build_summary mtime path path (or_none controller) (or_none options)) (\<lambda>s. Inr (Some s))))))"

definition summaries :: "session_summary option list \<Rightarrow> session_summary list" where
  "summaries ss = List.map_filter id ss"

lemma rmap_cong [fundef_cong]:
  "xs = ys \<Longrightarrow> (\<And>x. x \<in> set ys \<Longrightarrow> f x = g x) \<Longrightarrow> rmap f xs = rmap g ys"
  by (induction xs arbitrary: ys) auto

lemma entry_size: "p \<in> set es \<Longrightarrow> size (snd p) < size (NDir es)"
  by (induction es) auto

text \<open>The walk; \<open>at_base\<close> holds in the base directory, whose other files are looked at as sessions too.\<close>

definition file_names :: "(string \<times> node) list \<Rightarrow> string list" where
  "file_names es = map fst (filter (\<lambda>(_, n). \<not> is_folder (Some n)) es)"

function walk_sessions :: "(string \<Rightarrow> rat) \<Rightarrow> bool \<Rightarrow> string \<Rightarrow> node \<Rightarrow> session_summary list result" where
  "walk_sessions mtime at_base place (NDir es) =
     (let names = file_names es;
          is_session_dir = (checkpoint_file \<in> set names \<or> meta_file \<in> set names)
      in rbind (if at_base then rmap (\<lambda>name. summarize_session_file mtime (place @ ''/'' @ name) (map_of es name))
                              (filter (\<lambda>name. \<not> (is_session_dir \<and> name = checkpoint_file)) names)
                else Inr []) (\<lambda>files.
         if is_session_dir
         then rbind (summarize_session_dir mtime place (Some (NDir es))) (\<lambda>s. Inr (summaries (files @ [s])))
         else rbind (rmap (\<lambda>p. walk_sessions mtime False (place @ ''/'' @ fst p) (snd p)) es) (\<lambda>subs.
                Inr (summaries files @ concat subs))))"
| "walk_sessions mtime at_base place (NFile d) = Inr []"
| "walk_sessions mtime at_base place (NLink t) = Inr []"
  by pat_completeness auto

termination
  by (relation "measure (\<lambda>(_, _, _, n). size n)") (simp_all add: entry_size [simplified])

definition list_sessions :: "(string \<Rightarrow> rat) \<Rightarrow> string \<Rightarrow> node option \<Rightarrow> session_summary list result" where
  "list_sessions mtime base_path n =
     (if is_file n
      then rbind (summarize_session_file mtime base_path n) (\<lambda>s. Inr (summaries [s]))
      else (case follow n of
              Some (NDir es) \<Rightarrow> rbind (walk_sessions mtime True base_path (NDir es)) (\<lambda>ss. Inr (sort_key su_path ss))
            | _ \<Rightarrow> Inr []))"

section \<open>Base64 is undone\<close>

lemma b64_index_char: "n < 64 \<Longrightarrow> b64_index (b64_char n) = Some n"
  by (auto simp: b64_index_def b64_char_def Let_def)

lemma b64_char_pad: "n < 64 \<Longrightarrow> b64_char n \<noteq> CHR ''=''"
  using b64_index_char [of n] by (auto simp: b64_index_def)

lemma byte_range: "of_char (c :: char) < (256 :: nat)"
  by (rule nat_of_char_less_256)

lemma byte_max: "of_char (c :: char) \<le> (255 :: nat)"
  using byte_range [of c] by linarith

lemma numeral_bounds: "m \<le> 65535 \<Longrightarrow> m * 4 < (262144 :: nat)" "m \<le> 65535 \<Longrightarrow> c \<le> 255 \<Longrightarrow> m * 256 + c < (16777216 :: nat)"
  by linarith+

lemma sextets:
  fixes n :: nat assumes "n < 16777216"
  shows "n div 262144 < 64"
    and "((n div 262144 * 64 + n div 4096 mod 64) * 64 + n div 64 mod 64) * 64 + n mod 64 = n"
proof -
  show "n div 262144 < 64" using assms by (simp add: less_mult_imp_div_less)
  have e: "n div 262144 = n div 4096 div 64" "n div 4096 = n div 64 div 64"
    by (simp_all add: div_mult2_eq [symmetric])
  show "((n div 262144 * 64 + n div 4096 mod 64) * 64 + n div 64 mod 64) * 64 + n mod 64 = n"
    unfolding e(1) div_mult_mod_eq unfolding e(2) div_mult_mod_eq ..
qed

lemma digits_256:
  fixes x y :: nat assumes "y < 256"
  shows "(x * 256 + y) div 256 = x" "(x * 256 + y) mod 256 = y"
  using assms by simp_all

lemma bytes_of:
  fixes x y z :: nat assumes "x < 256" "y < 256" "z < 256"
  shows "((x * 256 + y) * 256 + z) div 65536 = x" "((x * 256 + y) * 256 + z) div 256 mod 256 = y"
    "((x * 256 + y) * 256 + z) mod 256 = z"
proof -
  have "m div 65536 = m div 256 div 256" for m :: nat by (simp add: div_mult2_eq [symmetric])
  then show "((x * 256 + y) * 256 + z) div 65536 = x"
    by (simp only: digits_256(1) [OF assms(3)] digits_256(1) [OF assms(2)])
  show "((x * 256 + y) * 256 + z) div 256 mod 256 = y" "((x * 256 + y) * 256 + z) mod 256 = z"
    by (simp_all only: digits_256 [OF assms(3)] digits_256 [OF assms(2)])
qed

lemma b64_group_encode:
  fixes a b c :: char
  defines "n \<equiv> (of_char a * 256 + of_char b) * 256 + of_char c :: nat"
  shows "b64_group (b64_char (n div 262144)) (b64_char (n div 4096 mod 64)) (b64_char (n div 64 mod 64))
     (b64_char (n mod 64)) = Inr [a, b, c]"
proof -
  have "of_char a * 256 + of_char b \<le> (65535 :: nat)" using byte_max [of a] byte_max [of b] by linarith
  then have "n < 16777216" unfolding n_def using byte_max [of c] by (rule numeral_bounds)
  note sx = sextets [OF this]
  have "char_of (n div 65536) = a" "char_of (n div 256 mod 256) = b" "char_of (n mod 256) = c"
    using bytes_of [OF byte_range [of a] byte_range [of b] byte_range [of c]] unfolding n_def by simp_all
  with sx show ?thesis by (simp add: b64_group_def b64_index_char)
qed

lemma b64_two:
  fixes x y :: nat assumes "x < 256" "y < 256"
  defines "n \<equiv> (x * 256 + y) * 4"
  shows "n div 4096 < 64"
    and "((n div 4096 * 64 + n div 64 mod 64) * 64 + n mod 64) div 4 div 256 = x"
    and "((n div 4096 * 64 + n div 64 mod 64) * 64 + n mod 64) div 4 mod 256 = y"
proof -
  have "x \<le> 255" "y \<le> 255" using assms by linarith+
  then have "x * 256 + y \<le> 65535" by linarith
  then have n: "n < 262144" unfolding n_def by (rule numeral_bounds)
  then show "n div 4096 < 64" by (simp add: less_mult_imp_div_less)
  have e: "n div 4096 = n div 64 div 64" by (simp add: div_mult2_eq [symmetric])
  have r: "(n div 4096 * 64 + n div 64 mod 64) * 64 + n mod 64 = n"
    unfolding e div_mult_mod_eq ..
  show "((n div 4096 * 64 + n div 64 mod 64) * 64 + n mod 64) div 4 div 256 = x"
    "((n div 4096 * 64 + n div 64 mod 64) * 64 + n mod 64) div 4 mod 256 = y"
    unfolding r unfolding n_def using assms(1,2) by simp_all
qed

lemma b64_decode_step: "s \<noteq> [] \<Longrightarrow> b64_decode (w # x # y # z # s) =
     rbind (b64_group w x y z) (\<lambda>p. rbind (b64_decode s) (\<lambda>q. Inr (p @ q)))"
  by (cases s) simp_all

lemma b64_encode_Nil [simp]: "b64_encode s = [] \<longleftrightarrow> s = []"
  by (cases s rule: b64_encode.cases) (simp_all add: Let_def)

lemma b64_last_group: "z \<noteq> CHR ''='' \<Longrightarrow> b64_group w x y z = Inr p \<Longrightarrow> b64_last w x y z = Inr p"
  by (auto simp: b64_last_def b64_group_def split: option.splits)

lemma b64_last_one:
  "i < 64 \<Longrightarrow> j < 64 \<Longrightarrow> (i * 64 + j) div 16 = of_char a \<Longrightarrow>
     b64_last (b64_char i) (b64_char j) CHR ''='' CHR ''='' = Inr [a]"
  by (simp add: b64_last_def b64_index_char)

lemma b64_last_two:
  "i < 64 \<Longrightarrow> j < 64 \<Longrightarrow> k < 64 \<Longrightarrow> ((i * 64 + j) * 64 + k) div 4 div 256 = of_char a \<Longrightarrow>
     ((i * 64 + j) * 64 + k) div 4 mod 256 = of_char b \<Longrightarrow>
     b64_last (b64_char i) (b64_char j) (b64_char k) CHR ''='' = Inr [a, b]"
  unfolding b64_last_def by (simp only: b64_index_char b64_char_pad option.case prod.case Let_def) simp

lemma b64_roundtrip: "b64_decode (b64_encode s) = Inr s"
proof (induction s rule: b64_encode.induct)
  case (2 a)
  let ?n = "of_char a * 16 :: nat"
  have "?n < 4096" using byte_max [of a] by linarith
  then have "?n div 64 < 64" by (rule less_mult_imp_div_less [of _ 64 64, simplified])
  moreover have "(?n div 64 * 64 + ?n mod 64) div 16 = of_char a" unfolding div_mult_mod_eq by simp
  ultimately show ?case unfolding b64_encode.simps Let_def b64_decode.simps by (intro b64_last_one) simp_all
next
  case (3 a b)
  note t = b64_two [OF byte_range [of a] byte_range [of b]]
  show ?case unfolding b64_encode.simps Let_def b64_decode.simps
    by (rule b64_last_two [OF t(1) _ _ t(2,3)]) simp_all
next
  case (4 a b c s)
  let ?n = "(of_char a * 256 + of_char b) * 256 + of_char c :: nat"
  have g: "b64_group (b64_char (?n div 262144)) (b64_char (?n div 4096 mod 64)) (b64_char (?n div 64 mod 64))
      (b64_char (?n mod 64)) = Inr [a, b, c]" by (rule b64_group_encode)
  show ?case
  proof (cases s)
    case Nil
    with b64_last_group [OF b64_char_pad g] show ?thesis by (simp add: Let_def)
  next
    case (Cons d t)
    with 4 g show ?thesis unfolding b64_encode.simps Let_def by (simp add: b64_decode_step)
  qed
qed simp

section \<open>Options survive\<close>

definition plain :: "pyval \<Rightarrow> bool" where
  "plain v \<longleftrightarrow> json_ok v \<and> json_doc v = v"

text \<open>The types that \<open>lib/core/data.py\<close> gives its options: sets and tuples where the session knows of
  them, bytes for the body only, and otherwise anything JSON can hold, tuples and nested tuples
  included, which are kept as lists.\<close>

definition option_ok :: "string \<Rightarrow> pyval \<Rightarrow> bool" where
  "option_ok k v \<longleftrightarrow>
     (if k \<in> set session_option_set_keys
      then v = PyNone \<or> (case v of PySet vs \<Rightarrow> distinct vs \<and> list_all plain vs | _ \<Rightarrow> False)
      else if k \<in> set session_option_tuple_keys
      then v = PyNone \<or> (case v of PyTuple vs \<Rightarrow> list_all plain vs | _ \<Rightarrow> False)
      else json_ok v \<and> (\<nexists>x. k = ''data'' \<and> json_doc v = PyDict [(session_bytes_marker, x)])
        \<or> k = ''data'' \<and> (\<exists>s. v = PyBytes s))"

definition kept :: "string \<Rightarrow> pyval \<Rightarrow> pyval" where
  "kept k v =
     (if k \<in> set session_option_set_keys \<or> k \<in> set session_option_tuple_keys \<or> \<not> json_ok v then v else json_doc v)"

definition options_ok :: "py_options \<Rightarrow> bool" where
  "options_ok opts \<longleftrightarrow> list_all (\<lambda>(k, v). option_ok k v) opts"

lemma plain_simps [simp]:
  "plain PyNone" "plain (PyStr s)" "plain (PyInt i)" "plain (PyBool b)" "plain (PyFloat q)"
  "plain (PyList vs) \<longleftrightarrow> list_all plain vs" "\<not> plain (PyBytes s)" "\<not> plain (PySet vs)" "\<not> plain (PyTuple vs)"
  "plain (PyDict kvs) \<longleftrightarrow> list_all (\<lambda>kv. plain (snd kv)) kvs"
proof -
  have m: "map f xs = xs \<longleftrightarrow> list_all (\<lambda>x. f x = x) xs" for f :: "pyval \<Rightarrow> pyval" and xs
    by (induction xs) auto
  have d: "map (map_prod id f) kvs = kvs \<longleftrightarrow> list_all (\<lambda>kv. f (snd kv) = snd kv) kvs" for f :: "pyval \<Rightarrow> pyval" and kvs :: "(string \<times> pyval) list"
    by (induction kvs) auto
  show "plain (PyList vs) \<longleftrightarrow> list_all plain vs"
    by (auto simp: plain_def m list_all_iff)
  show "plain (PyDict kvs) \<longleftrightarrow> list_all (\<lambda>kv. plain (snd kv)) kvs"
    by (auto simp: plain_def d list_all_iff)
qed (simp_all add: plain_def)

lemma plain_strings [simp]: "plain (py_strings ss)"
  by (simp add: py_strings_def list_all_iff)

lemma plain_json: "plain v \<Longrightarrow> json_ok v" "plain v \<Longrightarrow> json_doc v = v"
  by (simp_all add: plain_def)

lemma option_roundtrip:
  assumes "option_ok k v"
  shows "json_ok (serialize_option k v) \<and> restore_option k (json_doc (serialize_option k v)) = Inr (kept k v)"
proof (cases "k \<in> set session_option_set_keys \<or> k \<in> set session_option_tuple_keys")
  case True
  have m: "list_all plain vs \<Longrightarrow> list_all json_ok vs \<and> map json_doc vs = vs" for vs
    by (induction vs) (simp_all add: plain_json)
  show ?thesis
  proof (cases "v = PyNone")
    case None: True
    with True show ?thesis by (auto simp: serialize_option_def restore_option_def kept_def)
  next
    case False
    with assms True obtain vs where vs: "v = PySet vs \<and> distinct vs \<and> k \<in> set session_option_set_keys \<or>
        v = PyTuple vs \<and> k \<notin> set session_option_set_keys" "list_all plain vs"
      by (auto simp: option_ok_def split: pyval.splits if_splits)
    with True m [OF vs(2)] show ?thesis
      by (auto simp: serialize_option_def restore_option_def py_iter_def distinct_remdups_id kept_def list_all_iff)
  qed
next
  case False
  then have k: "k \<notin> set session_option_set_keys" "k \<notin> set session_option_tuple_keys" by simp_all
  show ?thesis
  proof (cases "json_ok v")
    case ok: True
    with assms k have p: "k = ''data'' \<Longrightarrow> \<nexists>x. json_doc v = PyDict [(session_bytes_marker, x)]"
      by (auto simp: option_ok_def)
    have s: "json_doc (serialize_option k v) = json_doc v" "json_ok (serialize_option k v)"
      using ok by (cases v; simp add: serialize_option_def)+
    have "restore_option k (json_doc v) = Inr (json_doc v)"
      using p k unfolding restore_option_def by (auto split: pyval.split list.split)
    with s k ok show ?thesis by (simp add: kept_def)
  next
    case False
    with assms k obtain s where "v = PyBytes s" "k = ''data''" by (auto simp: option_ok_def)
    with k show ?thesis
      by (simp add: serialize_option_def restore_option_def b64_roundtrip kept_def)
  qed
qed

lemma options_roundtrip:
  "options_ok opts \<Longrightarrow> \<exists>saved. json_doc (PyDict (serialize_options opts)) = PyDict saved \<and>
     json_ok (PyDict (serialize_options opts)) \<and> restore_options saved = Inr (map (\<lambda>(k, v). (k, kept k v)) opts)"
proof (induction opts)
  case (Cons kv opts)
  then show ?case using option_roundtrip [of "fst kv" "snd kv"]
    by (cases kv) (auto simp: options_ok_def serialize_options_def restore_options_def)
qed (simp add: serialize_options_def restore_options_def)

section \<open>The directory after saving and deleting\<close>

lemma map_of_filter_other: "map_of (filter (\<lambda>(n, _). n \<noteq> name) es) k = (if k = name then None else map_of es k)"
  by (induction es) auto

lemma delete_files_map:
  "delete_session_files names es = Inr es' \<Longrightarrow> map_of es' k = (if k \<in> set names then None else map_of es k)"
proof (induction names arbitrary: es)
  case (Cons name names)
  from Cons.prems have "delete_session_files names (filter (\<lambda>(n, _). n \<noteq> name) es) = Inr es'"
    by (auto split: option.splits node.splits)
  from Cons.IH [OF this] show ?case by (simp add: map_of_filter_other)
qed simp

lemma map_of_replace:
  "map_of (map (\<lambda>(n, old). (n, if n = name then new else old)) es) k =
     (if k = name then map_option (\<lambda>_. new) (map_of es k) else map_of es k)"
  by (induction es) auto

lemma write_entry_map: "write_entry name new es = Inr es' \<Longrightarrow> map_of es' k = ((map_of es)(name \<mapsto> new)) k"
  by (auto simp: write_entry_def map_of_replace map_add_def split: option.splits node.splits)

lemma entry_dir [simp]: "entry k (Some (NDir es)) = map_of es k"
  by (simp add: entry_def follow_def)

lemma created_entries: "create_private_dir n = Inr es \<Longrightarrow> map_of es k = entry k n"
  by (auto simp: create_private_dir_def entry_def follow_def split: option.splits node.splits)

lemmas file_name_defs = checkpoint_file_def meta_file_def controller_file_def dictionary_file_def options_file_def

lemma checkpoint_not_legacy: "checkpoint_file \<notin> set session_files"
  by (simp add: session_files_def file_name_defs)

lemma delete_files_error: "delete_session_files names es = Inl e \<Longrightarrow> e = OSError ''Is a directory''"
  by (induction names arbitrary: es) (auto split: option.splits node.splits)

text \<open>The outcomes of a save, by the exception it ends with.\<close>

lemma save_session_cases:
  assumes "save_session opts lo c n = (r, n')"
  obtains (nothing) e where "r = Inl e" "n' = n"
  | (refused) e es where "r = Inl e" "create_private_dir n = Inr es" "n' = Some (NDir es)"
  | (left_over) es es' doc where "r = Inl (OSError ''Is a directory'')" "create_private_dir n = Inr es"
      "n' = Some (NDir es')" "write_entry checkpoint_file (NFile (Some doc)) es = Inr es'"
  | (saved) h es es' es'' where "create_private_dir n = Inr es"
      "write_entry checkpoint_file (NFile (Some (json_doc (session_payload opts c lo h)))) es = Inr es'"
      "json_ok (session_payload opts c lo h)" "delete_session_files session_files es' = Inr es''"
      "r = Inr (c\<lparr>c_output_history := Some h\<rparr>)" "n' = Some (NDir es'')"
proof (cases "case c_output_history c of Some h \<Rightarrow> Inr h | None \<Rightarrow> load_output_history n")
  case (Inl e)
  with assms have "r = Inl e" "n' = n" by (simp_all add: save_session_def)
  then show thesis by (rule nothing)
next
  case h0: (Inr h0)
  define h where "h = (if lo = [] then h0
    else h0 @ [PyDict [(''start_time'', PyFloat (Fin (c_start_time c))), (''output'', PyStr lo)]])"
  let ?w = "\<lambda>es. rbind (json_dump (session_payload opts c lo h)) (\<lambda>doc. write_entry checkpoint_file (NFile (Some doc)) es)"
  have eq: "(r, n') = (case create_private_dir n of Inl e \<Rightarrow> (Inl e, n)
    | Inr es \<Rightarrow> (case ?w es of Inl e \<Rightarrow> (Inl e, Some (NDir es))
       | Inr es \<Rightarrow> (case delete_session_files session_files es of Inl e \<Rightarrow> (Inl e, Some (NDir es))
           | Inr es \<Rightarrow> (Inr (c\<lparr>c_output_history := Some h\<rparr>), Some (NDir es)))))"
    using assms h0 unfolding save_session_def h_def Let_def by simp
  show thesis
  proof (cases "create_private_dir n")
    case (Inl e)
    with eq have "r = Inl e" "n' = n" by simp_all
    then show thesis by (rule nothing)
  next
    case es: (Inr es)
    show thesis
    proof (cases "?w es")
      case (Inl e)
      with eq es have "r = Inl e" "n' = Some (NDir es)" by simp_all
      then show thesis using refused es by blast
    next
      case w: (Inr es')
      then have ok: "json_ok (session_payload opts c lo h)"
        "write_entry checkpoint_file (NFile (Some (json_doc (session_payload opts c lo h)))) es = Inr es'"
        by (auto simp: json_dump_def split: if_splits)
      show thesis
      proof (cases "delete_session_files session_files es'")
        case (Inl e)
        with eq es w delete_files_error [OF Inl] have "r = Inl (OSError ''Is a directory'')" "n' = Some (NDir es')" by simp_all
        then show thesis using left_over es ok(2) by blast
      next
        case (Inr es'')
        with eq es w have "r = Inr (c\<lparr>c_output_history := Some h\<rparr>)" "n' = Some (NDir es'')" by simp_all
        then show thesis using saved es ok Inr by blast
      qed
    qed
  qed
qed

section \<open>Loading what was saved\<close>

lemma field_simps:
  "py_get_default k dflt (PyDict kvs) = Inr (case map_of kvs k of None \<Rightarrow> dflt | Some x \<Rightarrow> x)"
  "py_index k (PyDict kvs) = (case map_of kvs k of None \<Rightarrow> Inl KeyError | Some x \<Rightarrow> Inr x)"
  "py_get k (PyDict kvs) = Inr (map_of kvs k)"
  by (simp_all add: py_get_default_def py_get_def py_index_def)

lemma py_texts_strings [simp]: "py_texts (py_strings ss) = Inr ss"
proof -
  have "rmap py_text (map PyStr ss) = Inr ss" by (induction ss) (simp_all add: py_text_def)
  then show ?thesis by (simp add: py_texts_def py_strings_def)
qed

lemma conv_simps [simp]:
  "py_text (PyStr s) = Inr s" "py_number (PyInt (int n)) = Inr n" "py_time (PyFloat (Fin q)) = Inr q" "py_flag (PyBool b) = Inr b"
  by (simp_all add: py_text_def py_number_def py_time_def py_flag_def)

lemma plain_state: "plain (serialize_controller_state c)" "plain (serialize_dictionary c)"
  by (simp_all add: serialize_controller_state_def serialize_dictionary_def split: prod.split)

lemma restore_serialized: "restore_dictionary k (serialize_dictionary c) = Inr (dict_setstate (dict_getstate (c_dictionary c)) k)"
  by (simp add: restore_dictionary_def serialize_dictionary_def field_def field_simps split: prod.split)

text \<open>A payload with any value for its options.\<close>

definition payload_with :: "pyval \<Rightarrow> controller \<Rightarrow> string \<Rightarrow> pyval list \<Rightarrow> pyval" where
  "payload_with os c last_output history =
     PyDict [(''version'', PyInt session_version),
             (''controller'', serialize_controller_state c),
             (''dictionary'', serialize_dictionary c),
             (''options'', os),
             (''last_output'', PyStr last_output),
             (''output_history'', PyList history)]"

lemma session_payload_with: "session_payload opts c lo h = payload_with (PyDict (serialize_options opts)) c lo h"
  by (simp only: session_payload_def payload_with_def)

lemma payload_doc:
  assumes "list_all plain h"
  shows "json_doc (payload_with os c lo h) = payload_with (json_doc os) c lo h"
    and "json_ok (payload_with os c lo h) \<longleftrightarrow> json_ok os"
proof -
  have h: "json_doc (PyList h) = PyList h" "json_ok (PyList h)" using assms plain_json [of "PyList h"] by simp_all
  note s = plain_json [OF plain_state(1)] plain_json [OF plain_state(2)]
  show "json_doc (payload_with os c lo h) = payload_with (json_doc os) c lo h"
    unfolding payload_with_def using h(1) s by simp
  show "json_ok (payload_with os c lo h) \<longleftrightarrow> json_ok os"
    unfolding payload_with_def using h(2) s by simp
qed

lemma payload_valid: "validate_payload (payload_with os c lo h) = Inr ()"
  by (simp add: validate_payload_def payload_with_def field_simps)

lemma payload_applies:
  assumes "finite (c_passed_urls c)"
  shows "apply_to_controller (Inr ()) k (payload_with os c lo h) hist =
     Inr (c\<lparr>c_dictionary := dict_setstate (dict_getstate (c_dictionary c)) k, c_output_history := hist\<rparr>)"
proof -
  let ?s = "serialize_controller_state c"
  have idx: "py_index ''controller'' (payload_with os c lo h) = Inr ?s"
    "py_index ''dictionary'' (payload_with os c lo h) = Inr (serialize_dictionary c)"
    by (simp_all add: payload_with_def field_simps)
  have st: "py_index ''start_time'' ?s = Inr (PyFloat (Fin (c_start_time c)))"
    by (simp add: serialize_controller_state_def field_simps)
  have fs: "field ''passed_urls'' (PyList []) py_texts ?s = Inr (sorted_list_of_set (c_passed_urls c))"
    "field ''directories'' (PyList []) py_texts ?s = Inr (c_directories c)"
    "field ''jobs_processed'' (PyInt 0) py_number ?s = Inr (c_jobs_processed c)"
    "field ''errors'' (PyInt 0) py_number ?s = Inr (c_errors c)"
    "field ''consecutive_errors'' (PyInt 0) py_number ?s = Inr (c_consecutive_errors c)"
    "field ''base_path'' (PyStr []) py_text ?s = Inr (c_base_path c)"
    "field ''url'' (PyStr []) py_text ?s = Inr (c_url c)"
    "field ''old_session'' (PyBool True) py_flag ?s = Inr (c_old_session c)"
    by (simp_all add: serialize_controller_state_def field_def field_simps)
  show ?thesis unfolding apply_to_controller_def idx rbind_simps st fs conv_simps restore_serialized
    using assms by simp
qed

lemma saved_payload_loads:
  assumes "save_session opts lo c n = (Inr c', n')" and "list_all plain (the (c_output_history c'))"
  obtains h where "c' = c\<lparr>c_output_history := Some h\<rparr>"
    "load_session n' = Inr (payload_with (json_doc (PyDict (serialize_options opts))) c lo h)"
  using assms(1)
proof (cases rule: save_session_cases)
  case (saved h es es' es'')
  let ?p = "payload_with (json_doc (PyDict (serialize_options opts))) c lo h"
  have doc: "json_doc (session_payload opts c lo h) = ?p"
    using saved assms unfolding session_payload_with by (subst payload_doc) auto
  have "entry checkpoint_file n' = Some (NFile (Some ?p))"
    using saved delete_files_map [OF saved(4), of checkpoint_file] write_entry_map [OF saved(2), of checkpoint_file]
      checkpoint_not_legacy unfolding doc by simp
  then have "load_session n' = Inr ?p"
    using saved by (simp add: load_session_def is_file_def follow_def validated_def read_json_def payload_valid)
  with saved that show thesis by auto
qed auto

section \<open>A sample\<close>

definition sample_options :: py_options where
  "sample_options = [(''urls'', PyList [PyStr ''http://h/'']), (''include_status_codes'', PySet [PyInt 200, PyInt 301]),
     (''extensions'', PyTuple [PyStr ''php'']), (''data'', PyBytes [CHR ''a'', CHR 0xFF]),
     (''match_sizes'', PyTuple [PyTuple [PyInt 10, PyInt 20]])]"

definition sample_controller :: controller where
  "sample_controller = \<lparr>c_start_time = 1 / 2, c_passed_urls = {''http://h/''}, c_directories = [[]], c_jobs_processed = 3,
     c_errors = 1, c_consecutive_errors = 0, c_base_path = [], c_url = ''http://h/'', c_old_session = False,
     c_dictionary = dict_init [''a'', ''b''] False, c_output_history = None\<rparr>"

definition sample_history :: "pyval list" where
  "sample_history = [PyDict [(''start_time'', PyFloat (Fin (1 / 2))), (''output'', PyStr ''out'')]]"

lemma sample_options_ok: "options_ok sample_options"
  by (simp add: options_ok_def sample_options_def option_ok_def session_option_set_keys_def session_option_tuple_keys_def)

lemma sample_saves:
  "\<exists>n'. save_session sample_options ''out'' sample_controller None =
     (Inr (sample_controller\<lparr>c_output_history := Some sample_history\<rparr>), n')"
proof -
  have ok: "json_ok (session_payload sample_options sample_controller ''out'' sample_history)"
    using options_roundtrip [OF sample_options_ok]
    unfolding session_payload_with by (subst payload_doc) (auto simp: sample_history_def)
  have h: "c_output_history sample_controller = None" "c_start_time sample_controller = 1 / 2"
    by (simp_all add: sample_controller_def)
  have l: "load_output_history None = Inr []" "create_private_dir None = Inr []"
    by (simp_all add: load_output_history_def is_file_def entry_def follow_def create_private_dir_def)
  show ?thesis unfolding save_session_def h l option.case sum.case Let_def
    using ok by (simp add: sample_history_def json_dump_def write_entry_def session_files_def file_name_defs)
qed

section \<open>Properties\<close>



text \<open>Saving and deleting only touch the session's own files: any other entry of the directory stays
  as it is, whether the save succeeds or fails, and a save that fails because a value cannot be
  written as JSON leaves every file alone, the previous checkpoint included.\<close>
theorem session_files_only:
  assumes "save_session opts lo c n = (r, n')"
  shows "(name \<notin> set (checkpoint_file # session_files) \<longrightarrow> entry name n' = entry name n) \<and>
    (r = Inl (TypeError m) \<longrightarrow> entry name n' = entry name n) \<and>
    (name \<notin> set (checkpoint_file # session_files) \<longrightarrow>
       entry name (snd (delete_session (Some (NDir es)))) = map_of es name)"
proof -
  have none: "entry name None = None" by (simp add: entry_def follow_def)
  have del: "entry name (snd (delete_session (Some (NDir es)))) = map_of es name"
    if out: "name \<notin> set (checkpoint_file # session_files)"
  proof (cases "delete_session_files (session_files @ [checkpoint_file]) es")
    case (Inl e)
    then show ?thesis by (simp add: delete_session_def)
  next
    case (Inr es')
    then have "map_of es' name = map_of es name" using delete_files_map [OF Inr, of name] out by auto
    with Inr none show ?thesis by (auto simp: delete_session_def)
  qed
  have "(name \<notin> set (checkpoint_file # session_files) \<longrightarrow> entry name n' = entry name n) \<and>
    (r = Inl (TypeError m) \<longrightarrow> entry name n' = entry name n)"
    using assms
  proof (cases rule: save_session_cases)
    case (refused e es)
    then show ?thesis by (simp add: created_entries [OF refused(2)])
  next
    case (left_over es es' doc)
    then show ?thesis using write_entry_map [OF left_over(4), of name] created_entries [OF left_over(2), of name] by auto
  next
    case (saved h es es' es'')
    then show ?thesis
      using delete_files_map [OF saved(4), of name] write_entry_map [OF saved(2), of name] created_entries [OF saved(1), of name]
      by auto
  qed simp_all
  with del show ?thesis by blast
qed

theorem session_files_only_witness:
  "entry ''notes'' (snd (save_session [(''x'', PySet [])] [] sample_controller (Some (NDir [(''notes'', NFile None)])))) =
   Some (NFile None)"
proof -
  obtain r n' where "save_session [(''x'', PySet [])] [] sample_controller (Some (NDir [(''notes'', NFile None)])) = (r, n')"
    by fastforce
  from session_files_only [OF this, of "''notes''"] this show ?thesis by (simp add: session_files_def file_name_defs)
qed

text \<open>Listing the sessions of a directory raises as soon as the directory holds a file with a JSON value
  that is not an object, a report for instance, instead of leaving that file out.\<close>
theorem list_sessions_fails_on_other_json:
  "list_sessions mtime base (Some (NDir [(''report.json'', NFile (Some (PyList vs)))])) =
     Inl (AttributeError ''object has no attribute get'')"
  by (simp add: list_sessions_def is_file_def follow_def file_names_def is_folder_def Let_def file_name_defs
      summarize_session_file_def read_json_def unpickled_def py_get_def)

end
