(* ===== verification/Controller.thy ===== *)
theory Controller
  imports Session Wordlist Url Response Settings "HOL-Library.AList"
begin

text \<open>
  \<open>lib/controller/controller.py\<close>: targets, the queue of directories and recursion into new ones, the
  callbacks of the fuzzers, time limits, the pause menu, and the two loops over directories and
  targets.  The fuzzer, the requester, the crawler and the reports are parameters; terminal output
  is left out.
\<close>

section \<open>Options\<close>

record ctl_options =
  co_skip_on_status :: "int set"
  co_recursion_status_codes :: "int set"
  co_recursive :: bool
  co_deep_recursive :: bool
  co_force_recursive :: bool
  co_recursion_depth :: nat
  co_exclude_subdirs :: "string list"
  co_subdirs :: "string list"
  co_replay_proxy :: string
  co_crawl :: bool
  co_find_backup :: bool
  co_exit_on_error :: bool
  co_max_time :: rat
  co_target_max_time :: rat
  co_scheme :: string
  co_ip :: string
  co_proxied :: bool
  co_async :: bool

section \<open>Directories\<close>

definition is_excluded_subdir :: "ctl_options \<Rightarrow> string \<Rightarrow> bool" where
  "is_excluded_subdir opts path =
     (let resource_path = lstrip_char (CHR ''/'') (hd (split_char (CHR ''?'') path)) in
      list_ex (\<lambda>subdir. starts_with resource_path subdir \<or> contains resource_path (''/'' @ subdir))
        (co_exclude_subdirs opts))"

definition slashes :: "string \<Rightarrow> nat" where
  "slashes path = length (filter (\<lambda>c. c = CHR ''/'') path)"

definition too_deep :: "ctl_options \<Rightarrow> controller \<Rightarrow> string \<Rightarrow> bool" where
  "too_deep opts c path \<longleftrightarrow>
     int (slashes path) - int (slashes (c_base_path c)) > int (co_recursion_depth opts) \<and> co_recursion_depth opts > 0"

definition add_directory :: "ctl_options \<Rightarrow> string \<Rightarrow> controller \<Rightarrow> controller" where
  "add_directory opts path c =
     (if is_excluded_subdir opts path then c
      else if too_deep opts c path \<or> c_url c @ path \<in> c_passed_urls c then c
      else c\<lparr>c_directories := c_directories c @ [path], c_passed_urls := insert (c_url c @ path) (c_passed_urls c)\<rparr>)"

text \<open>The prefixes of a path that end at its slashes, shortest first.\<close>

fun slash_prefixes :: "string \<Rightarrow> string \<Rightarrow> string list" where
  "slash_prefixes seen [] = []"
| "slash_prefixes seen (ch # path) =
     (if ch = CHR ''/'' then (seen @ [ch]) # slash_prefixes (seen @ [ch]) path else slash_prefixes (seen @ [ch]) path)"

definition recur_path :: "ctl_options \<Rightarrow> string \<Rightarrow> string" where
  "recur_path opts path =
     (let path = clean_path path False False in
      if co_force_recursive opts \<and> \<not> ends_with path ''/'' then path @ ''/'' else path)"

text \<open>\<open>recur\<close>, with the directories it added.\<close>

definition recur :: "ctl_options \<Rightarrow> string \<Rightarrow> controller \<Rightarrow> string list \<times> controller" where
  "recur opts path c =
     (let dirs_count = length (c_directories c);
          path = recur_path opts path;
          c = (if co_deep_recursive opts then fold (add_directory opts) (slash_prefixes [] path) c
               else if co_recursive opts \<and> ends_with path ''/'' \<and>
                       re_search extension_recognition_regex (butlast path) = None
               then add_directory opts path c else c)
      in (drop dirs_count (c_directories c), c))"

definition recur_for_redirect :: "ctl_options \<Rightarrow> string \<Rightarrow> string \<Rightarrow> controller \<Rightarrow> string list \<times> controller" where
  "recur_for_redirect opts path redirect_path c =
     (if redirect_path = path @ ''/'' then recur opts redirect_path c else ([], c))"

section \<open>Callbacks\<close>

definition add_extras :: "(string \<Rightarrow> bool) \<Rightarrow> string list \<Rightarrow> controller \<Rightarrow> controller" where
  "add_extras valid paths c = c\<lparr>c_dictionary := fold (add_extra valid) paths (c_dictionary c)\<rparr>"

text \<open>\<open>crawl\<close> lists what the crawler finds in a response, in the order of its set.\<close>

definition add_crawled_paths ::
  "ctl_options \<Rightarrow> (response \<Rightarrow> string list) \<Rightarrow> (string \<Rightarrow> bool) \<Rightarrow> response \<Rightarrow> controller \<Rightarrow> controller" where
  "add_crawled_paths opts crawl valid resp c =
     add_extras valid (filter (\<lambda>p. \<not> is_excluded_subdir opts p)
                         (map (\<lambda>p. lstrip_once p (c_base_path c)) (crawl resp))) c"

definition recursion_wanted :: "ctl_options \<Rightarrow> response \<Rightarrow> bool" where
  "recursion_wanted opts resp \<longleftrightarrow>
     r_status resp \<in> co_recursion_status_codes opts \<and>
     (co_recursive opts \<or> co_deep_recursive opts \<or> co_force_recursive opts)"

definition recur_for_response :: "ctl_options \<Rightarrow> response \<Rightarrow> controller \<Rightarrow> string list \<times> controller" where
  "recur_for_response opts resp c =
     (if r_redirect resp \<noteq> []
      then (case same_origin_path (r_url resp) (r_redirect resp) of
              None \<Rightarrow> ([], c)
            | Some p \<Rightarrow> recur_for_redirect opts (r_path resp) (clean_path p False False) c)
      else if r_history resp \<noteq> []
      then (case same_origin_path (r_url resp) (r_final_url resp) of
              None \<Rightarrow> ([], c)
            | Some p \<Rightarrow> recur_for_redirect opts (r_path resp) (clean_path p False False) c)
      else recur opts (r_path resp) c)"

definition add_backups :: "(string \<Rightarrow> bool) \<Rightarrow> response \<Rightarrow> controller \<Rightarrow> controller" where
  "add_backups valid resp c =
     add_extras valid (generate_backup_paths (lstrip_once (r_path resp) (c_base_path c))) c"

text \<open>\<open>match_callback\<close>.  \<open>replay\<close> is what the replayed request raises, if anything; in asynchronous mode it is
  not made here: the path to replay is returned for the fuzzer to await.\<close>

definition match_callback ::
  "ctl_options \<Rightarrow> (response \<Rightarrow> string list) \<Rightarrow> (string \<Rightarrow> bool) \<Rightarrow> (string \<Rightarrow> exc option) \<Rightarrow> response \<Rightarrow>
     controller \<Rightarrow> string option result \<times> controller" where
  "match_callback opts crawl valid replay resp c =
     (if r_status resp \<in> co_skip_on_status opts
      then (Inl (SkipTargetInterrupt (''Skipped the target due to '' @ show_int (r_status resp) @ '' status code'')), c)
      else
        let c = (if recursion_wanted opts resp then snd (recur_for_response opts resp c) else c);
            finish = (\<lambda>c. let c = (if co_crawl opts then add_crawled_paths opts crawl valid resp c else c)
                          in if co_find_backup opts then add_backups valid resp c else c)
        in if co_replay_proxy opts = [] then (Inr None, finish c)
           else if co_async opts then (Inr (Some (r_full_path resp)), finish c)
           else (case replay (r_full_path resp) of
                   Some e \<Rightarrow> (Inl e, c)
                 | None \<Rightarrow> (Inr None, finish c)))"

definition raise_error :: "ctl_options \<Rightarrow> controller \<Rightarrow> unit result \<times> controller" where
  "raise_error opts c =
     (if co_exit_on_error opts then (Inl (QuitInterrupt ''Canceled due to an error''), c)
      else
        let c = c\<lparr>c_errors := c_errors c + 1, c_consecutive_errors := c_consecutive_errors c + 1\<rparr> in
        if c_consecutive_errors c > max_consecutive_request_errors
        then (Inl (SkipTargetInterrupt ''Too many request errors''), c) else (Inr (), c))"

definition reset_consecutive_errors :: "controller \<Rightarrow> controller" where
  "reset_consecutive_errors c = c\<lparr>c_consecutive_errors := 0\<rparr>"

definition crawl_target ::
  "ctl_options \<Rightarrow> (response \<Rightarrow> string list) \<Rightarrow> (string \<Rightarrow> bool) \<Rightarrow> response result \<Rightarrow> controller \<Rightarrow> unit result \<times> controller" where
  "crawl_target opts crawl valid outcome c =
     (if \<not> co_crawl opts then (Inr (), c)
      else (case outcome of
              Inr resp \<Rightarrow> (Inr (), add_crawled_paths opts crawl valid resp c)
            | Inl (RequestException _) \<Rightarrow> raise_error opts c
            | Inl e \<Rightarrow> (Inl e, c)))"

text \<open>\<open>update_progress_bar\<close>: the position and size of the queue, and the number of jobs.\<close>

definition progress :: "ctl_options \<Rightarrow> nat \<Rightarrow> controller \<Rightarrow> nat \<times> nat \<times> nat \<times> nat \<times> nat" where
  "progress opts urls_left c =
     (d_index (c_dictionary c), dict_len (c_dictionary c), c_jobs_processed c + 1,
      length (co_subdirs opts) * (urls_left - 1) + length (c_directories c) + c_jobs_processed c, c_errors c)"

section \<open>Time limits\<close>

definition time_limits :: "ctl_options \<Rightarrow> rat \<Rightarrow> rat \<Rightarrow> controller \<Rightarrow> (rat \<times> exc) list" where
  "time_limits opts now start_time c =
     (if co_max_time opts > 0
      then [(co_max_time opts - (now - c_start_time c), QuitInterrupt ''Runtime exceeded the maximum set by the user'')]
      else []) @
     (if co_target_max_time opts > 0
      then [(co_target_max_time opts - (now - start_time),
             SkipTargetInterrupt ''Runtime for target exceeded the maximum set by the user'')]
      else [])"

fun least_limit :: "(rat \<times> exc) list \<Rightarrow> (rat \<times> exc) option" where
  "least_limit [] = None"
| "least_limit (l # ls) =
     (case least_limit ls of None \<Rightarrow> Some l | Some m \<Rightarrow> if fst m < fst l then Some m else Some l)"

definition get_time_limit :: "ctl_options \<Rightarrow> rat \<Rightarrow> rat \<Rightarrow> controller \<Rightarrow> (rat \<times> exc) option result" where
  "get_time_limit opts now start_time c =
     (case find (\<lambda>(remaining, _). remaining \<le> 0) (time_limits opts now start_time c) of
        Some (_, e) \<Rightarrow> Inl e
      | None \<Rightarrow> Inr (least_limit (time_limits opts now start_time c)))"

text \<open>\<open>process\<close> over what its polls see: whether the fuzzer is finished, or what it raised, and the time.\<close>

fun process :: "ctl_options \<Rightarrow> rat \<Rightarrow> controller \<Rightarrow> (bool result \<times> rat) list \<Rightarrow> unit result option" where
  "process opts start_time c [] = None"
| "process opts start_time c ((finished, now) # polls) =
     (case finished of
        Inl e \<Rightarrow> Some (Inl e)
      | Inr True \<Rightarrow> Some (Inr ())
      | Inr False \<Rightarrow>
          if now - c_start_time c > co_max_time opts \<and> co_max_time opts > 0
          then Some (Inl (QuitInterrupt ''Runtime exceeded the maximum set by the user''))
          else if now - start_time > co_target_max_time opts \<and> co_target_max_time opts > 0
          then Some (Inl (SkipTargetInterrupt ''Runtime for target exceeded the maximum set by the user''))
          else process opts start_time c polls)"

section \<open>Targets\<close>

text \<open>What a target asks of the requester: the forced address, the credentials, the base URL, the query.\<close>

record target =
  tg_override :: "(string option \<times> nat \<times> string) option"
  tg_credential :: "string option"
  tg_url :: string
  tg_query :: string

text \<open>\<open>detect_scheme\<close>; \<open>secure\<close> tells whether a TLS connection to a host and port is accepted, even with
  a certificate that does not verify.\<close>

definition detect_scheme :: "(string option \<Rightarrow> nat \<Rightarrow> bool) \<Rightarrow> string option \<Rightarrow> nat option \<Rightarrow> string \<Rightarrow> string result" where
  "detect_scheme secure host port connect_host =
     (case port of
        None \<Rightarrow> Inl (ValueError [])
      | Some p \<Rightarrow>
          if p = 0 then Inl (ValueError [])
          else Inr (if secure (if connect_host \<noteq> [] then Some connect_host else host) p then ''https'' else ''http''))"

definition no_detection_error :: string where
  "no_detection_error =
     ''Cannot auto-detect the scheme when using a proxy or Tor. '' @
     ''Specify http:// or https:// in the target, or use --scheme''"

definition target_credential :: "split_result \<Rightarrow> string option" where
  "target_credential parsed =
     (case url_userinfo parsed of
        None \<Rightarrow> None
      | Some (user, pass) \<Rightarrow>
          Some (unquote user @ (case pass of None \<Rightarrow> [] | Some p \<Rightarrow> '':'' @ unquote p)))"

text \<open>The scheme and port that are used; \<open>port\<close> is what the URL says.\<close>

definition choose_origin ::
  "ctl_options \<Rightarrow> (string option \<Rightarrow> nat \<Rightarrow> bool) \<Rightarrow> split_result \<Rightarrow> nat option \<Rightarrow> (string \<times> nat) result" where
  "choose_origin opts secure parsed port =
     (let port = (if port = None \<or> port = Some 0 then standard_port (url_scheme parsed) else port);
          host = url_hostname parsed
      in case (if url_scheme parsed \<noteq> unknown then Inr (url_scheme parsed)
               else detect_scheme secure host port (co_ip opts)) of
           Inr scheme \<Rightarrow> (case port of Some p \<Rightarrow> Inr (scheme, p) | None \<Rightarrow> Inl KeyError)
         | Inl _ \<Rightarrow>
             rbind (detect_scheme secure host (Some 443) (co_ip opts)) (\<lambda>scheme.
               case standard_port scheme of Some p \<Rightarrow> Inr (scheme, p) | None \<Rightarrow> Inl KeyError))"

definition target_url :: "string option \<Rightarrow> string \<Rightarrow> nat \<Rightarrow> string" where
  "target_url host scheme port =
     (let name = (case host of None \<Rightarrow> ''None'' | Some h \<Rightarrow> if CHR '':'' \<in> set h then ''['' @ h @ '']'' else h)
      in scheme @ ''://'' @ name @ (if standard_port scheme \<noteq> Some port then '':'' @ show_nat port else []) @ ''/'')"

text \<open>\<open>set_target\<close>: the target and the controller it leaves, its base path set before most checks.\<close>

definition target_text :: "ctl_options \<Rightarrow> string \<Rightarrow> string" where
  "target_text opts url =
     (if contains url ''://'' then url
      else (if co_scheme opts \<noteq> [] then co_scheme opts else unknown) @ ''://'' @ url)"

definition set_origin ::
  "ctl_options \<Rightarrow> (string option \<Rightarrow> nat \<Rightarrow> bool) \<Rightarrow> split_result \<Rightarrow> controller \<Rightarrow> target result \<times> controller" where
  "set_origin opts secure parsed c =
     (case url_port parsed of
        Inl _ \<Rightarrow> (Inl (InvalidURLException ''Invalid port in target URL''), c)
      | Inr port \<Rightarrow>
          (case choose_origin opts secure parsed port of
             Inl e \<Rightarrow> (Inl e, c)
           | Inr (scheme, p) \<Rightarrow>
               let url = target_url (url_hostname parsed) scheme p in
               (Inr \<lparr>tg_override = (if co_ip opts \<noteq> [] then Some (url_hostname parsed, p, co_ip opts) else None),
                     tg_credential = target_credential parsed, tg_url = url, tg_query = url_query parsed\<rparr>,
                c\<lparr>c_url := url\<rparr>)))"

definition set_target ::
  "ctl_options \<Rightarrow> (string option \<Rightarrow> nat \<Rightarrow> bool) \<Rightarrow> string \<Rightarrow> controller \<Rightarrow> target result \<times> controller" where
  "set_target opts secure url c =
     (case rbind (ensure_trailing_path_slash (target_text opts url)) urlsplit of
        Inl e \<Rightarrow> (Inl e, c)
      | Inr parsed \<Rightarrow>
          if url_scheme parsed = unknown \<and> co_proxied opts then (Inl (InvalidURLException no_detection_error), c)
          else
            let c = c\<lparr>c_base_path := lstrip_once (url_path parsed) ''/''\<rparr> in
            if url_scheme parsed \<notin> {unknown, ''https'', ''http''}
            then (Inl (InvalidURLException (''Unsupported URI scheme: '' @ url_scheme parsed)), c)
            else set_origin opts secure parsed c)"

section \<open>The pause menu\<close>

text \<open>\<open>handle_pause\<close> after the fuzzer was paused, for the lines the user types.  \<open>AskAgain\<close>: more input is
  needed.\<close>

datatype pause_choice = AskAgain | Continue | NextDirectory | SkipTarget | QuitSaving string | QuitUnsaved

fun pause_menu :: "(string \<Rightarrow> string) \<Rightarrow> string \<Rightarrow> nat \<Rightarrow> nat \<Rightarrow> string list \<Rightarrow> pause_choice" where
  "pause_menu format_path session_file dirs urls [] = AskAgain"
| "pause_menu format_path session_file dirs urls (option # answers) =
     (if lower option = ''q''
      then (case answers of
              [] \<Rightarrow> AskAgain
            | a # answers \<Rightarrow>
                if lower a = ''s''
                then (case answers of
                        [] \<Rightarrow> AskAgain
                      | p # _ \<Rightarrow> QuitSaving (format_path (if p \<noteq> [] then p else format_path session_file)))
                else if lower a = ''q'' then QuitUnsaved
                else pause_menu format_path session_file dirs urls answers)
      else if lower option = ''c'' then Continue
      else if lower option = ''n'' \<and> dirs > 1 then NextDirectory
      else if lower option = ''s'' \<and> urls > 1 then SkipTarget
      else pause_menu format_path session_file dirs urls answers)"

text \<open>What the choice raises in the thread that scans, and what it does to the fuzzer.\<close>

datatype fuzzer_order = OrderPlay | OrderQuit

definition pause_effect :: "pause_choice \<Rightarrow> (fuzzer_order option result) option" where
  "pause_effect choice =
     (case choice of
        AskAgain \<Rightarrow> None
      | Continue \<Rightarrow> Some (Inr (Some OrderPlay))
      | NextDirectory \<Rightarrow> Some (Inr (Some OrderQuit))
      | SkipTarget \<Rightarrow> Some (Inl (SkipTargetInterrupt ''Target skipped by the user''))
      | QuitSaving path \<Rightarrow> Some (Inl (QuitInterrupt (''Session saved to: '' @ path)))
      | QuitUnsaved \<Rightarrow> Some (Inl (QuitInterrupt ''Canceled by the user'')))"

text \<open>\<open>PyInstallerLinuxForceQuitHandler\<close>: the number of interrupts and the time of the last one.\<close>

record force_quit =
  fq_count :: nat
  fq_last :: rat

definition on_pause_start :: "rat \<Rightarrow> force_quit \<Rightarrow> force_quit" where
  "on_pause_start now f = \<lparr>fq_count = 1, fq_last = now\<rparr>"

definition on_resume :: "force_quit \<Rightarrow> force_quit" where
  "on_resume f = f\<lparr>fq_count := 0\<rparr>"

definition check_force_quit :: "rat \<Rightarrow> force_quit \<Rightarrow> bool \<times> force_quit" where
  "check_force_quit now f =
     (let f = \<lparr>fq_count = (if now - fq_last f \<le> sigint_window_seconds then fq_count f + 1 else 1), fq_last = now\<rparr>
      in (fq_count f \<ge> sigint_force_quit_threshold, f))"

section \<open>The loops\<close>

text \<open>A run acts on the controller and the rest of the world.  \<open>ce_scan\<close> is the fuzzer's run over one
  directory with all the callbacks it makes, \<open>ce_stopped\<close> whether the workers are gone after it,
  \<open>ce_prepare\<close> what happens between the choice of a target and its scan: the requester's settings,
  \<open>reporter.prepare\<close> and \<open>crawl_target\<close>.\<close>

record 'w ctl_env =
  ce_options :: ctl_options
  ce_secure :: "string option \<Rightarrow> nat \<Rightarrow> bool"
  ce_prepare :: "target \<Rightarrow> (controller \<times> 'w, unit) io"
  ce_scan :: "string \<Rightarrow> (controller \<times> 'w, unit) io"
  ce_stopped :: "controller \<times> 'w \<Rightarrow> bool"

definition on_controller :: "(controller \<Rightarrow> controller) \<Rightarrow> controller \<times> 'w \<Rightarrow> controller \<times> 'w" where
  "on_controller f s = (f (fst s), snd s)"

definition finish_directory :: "controller \<Rightarrow> controller" where
  "finish_directory c =
     c\<lparr>c_dictionary := dict_reset (c_dictionary c), c_directories := tl (c_directories c),
       c_jobs_processed := c_jobs_processed c + 1, c_old_session := False\<rparr>"

text \<open>\<open>start\<close>, for at most \<open>n\<close> directories.\<close>

fun start_loop :: "nat \<Rightarrow> 'w ctl_env \<Rightarrow> controller \<times> 'w \<Rightarrow> (unit result \<times> (controller \<times> 'w)) option" where
  "start_loop 0 env s = None"
| "start_loop (Suc n) env s =
     (case c_directories (fst s) of
        [] \<Rightarrow> Some (Inr (), s)
      | directory # _ \<Rightarrow>
          (case ce_scan env directory s of
             (r, s) \<Rightarrow>
               if \<not> ce_stopped env s then Some (Inl (QuitInterrupt ''The scan did not stop safely''), s)
               else
                 let s = on_controller finish_directory s in
                 (case r of
                    Inl KeyboardInterrupt \<Rightarrow> start_loop n env s
                  | Inl e \<Rightarrow> Some (Inl e, s)
                  | Inr _ \<Rightarrow> start_loop n env s)))"

definition add_subdirs :: "ctl_options \<Rightarrow> controller \<Rightarrow> controller" where
  "add_subdirs opts c =
     (if c_directories c = [] then fold (\<lambda>subdir c. add_directory opts (c_base_path c @ subdir) c) (co_subdirs opts) c
      else c)"

definition scan_target :: "nat \<Rightarrow> 'w ctl_env \<Rightarrow> string \<Rightarrow> controller \<times> 'w \<Rightarrow> (unit result \<times> (controller \<times> 'w)) option" where
  "scan_target n env url s =
     (case set_target (ce_options env) (ce_secure env) url (fst s) of
        (Inl e, c) \<Rightarrow> Some (Inl e, (c, snd s))
      | (Inr tg, c) \<Rightarrow>
          (case ce_prepare env tg (add_subdirs (ce_options env) c, snd s) of
             (Inl e, s) \<Rightarrow> Some (Inl e, s)
           | (Inr _, s) \<Rightarrow> start_loop n env s))"

definition skips_target :: "exc \<Rightarrow> bool" where
  "skips_target e =
     (case e of CannotConnectException _ \<Rightarrow> True | FileExistsException _ \<Rightarrow> True | InvalidURLException _ \<Rightarrow> True
      | RequestException _ \<Rightarrow> True | SkipTargetInterrupt _ \<Rightarrow> True | KeyboardInterrupt \<Rightarrow> True | _ \<Rightarrow> False)"

definition abandon_target :: "controller \<Rightarrow> controller" where
  "abandon_target c = c\<lparr>c_directories := [], c_dictionary := dict_reset (c_dictionary c)\<rparr>"

text \<open>The loop of \<open>run\<close> over the targets: its outcome and the targets that are left.  Any other
  exception ends it as well, after its target was dropped.\<close>

fun run_loop ::
  "nat \<Rightarrow> 'w ctl_env \<Rightarrow> string list \<Rightarrow> controller \<times> 'w \<Rightarrow> (unit result \<times> string list \<times> (controller \<times> 'w)) option" where
  "run_loop n env [] s = Some (Inr (), [], s)"
| "run_loop n env (url # urls) s =
     (case scan_target n env url s of
        None \<Rightarrow> None
      | Some (Inr _, s) \<Rightarrow> run_loop n env urls s
      | Some (Inl e, s) \<Rightarrow>
          if skips_target e then run_loop n env urls (on_controller abandon_target s)
          else (case e of
                  QuitInterrupt _ \<Rightarrow> Some (Inl (SystemExit ''0''), urls, s)
                | _ \<Rightarrow> Some (Inl e, urls, s)))"

section \<open>Sessions\<close>

text \<open>\<open>format_session_path\<close>, with the start time as text.\<close>

definition format_datetime_for_path :: "string \<Rightarrow> string" where
  "format_datetime_for_path value = replace_all (replace_all value '' '' ''_'') '':'' ''-''"

definition format_session_path :: "string \<Rightarrow> string \<Rightarrow> string" where
  "format_session_path start_time path =
     replace_all (replace_all path ''{date}'' (hd (split_char (CHR '' '') start_time))) ''{datetime}''
       (format_datetime_for_path start_time)"

definition is_pickle :: "string \<Rightarrow> node option \<Rightarrow> bool" where
  "is_pickle session_file n \<longleftrightarrow> is_file n \<and> (ends_with session_file ''.pickle'' \<or> ends_with session_file ''.pkl'')"

definition update_options :: "py_options \<Rightarrow> py_options \<Rightarrow> py_options" where
  "update_options new opts = fold (\<lambda>(k, v) o'. AList.update k v o') new opts"

definition session_history :: "pyval \<Rightarrow> pyval list result" where
  "session_history payload =
     rbind (py_get ''output_history'' payload) (\<lambda>history.
       if py_truth (or_none history) then py_iter (or_none history)
       else rbind (py_get_default ''last_output'' (PyStr []) payload) (\<lambda>legacy.
         if \<not> py_truth legacy then Inr []
         else rbind (py_get_default ''controller'' (PyDict []) payload) (\<lambda>controller.
              rbind (py_get ''start_time'' controller) (\<lambda>start_time.
                Inr [PyDict [(''start_time'', or_none start_time), (''output'', legacy)]]))))"

text \<open>The exceptions that mean an invalid session file.\<close>

definition invalid_session :: "'a result \<Rightarrow> 'a result" where
  "invalid_session r =
     (case r of
        Inl (OSError _) \<Rightarrow> Inl (SystemExit ''1'')
      | Inl KeyError \<Rightarrow> Inl (SystemExit ''1'')
      | Inl (TypeError _) \<Rightarrow> Inl (SystemExit ''1'')
      | Inl (UnpicklingError _) \<Rightarrow> Inl (SystemExit ''1'')
      | _ \<Rightarrow> r)"

text \<open>\<open>_import\<close>: \<open>validate\<close> is the outcome of the option checks and of opening the log file, \<open>stores\<close> that of
  preparing the response stores, \<open>answer\<close> what the user says to overwriting.\<close>

definition import_session ::
  "(py_options \<Rightarrow> unit result) \<Rightarrow> unit result \<Rightarrow> unit result \<Rightarrow> string \<Rightarrow> nat \<Rightarrow> string \<Rightarrow> node option \<Rightarrow> py_options \<Rightarrow>
     (controller \<times> py_options) result" where
  "import_session validate reporter stores answer next_chunk session_file n opts =
     (if is_pickle session_file n then Inl (SystemExit ''1'')
      else invalid_session
        (rbind (load_session n) (\<lambda>payload.
         rbind (py_index ''options'' payload) (\<lambda>saved.
         rbind (case saved of PyDict kvs \<Rightarrow> restore_options kvs | _ \<Rightarrow> Inl (AttributeError ''items'')) (\<lambda>restored.
         let opts = AList.update ''session_file'' (PyStr session_file) (update_options restored opts) in
         rbind (validate opts) (\<lambda>_.
         rbind (session_history payload) (\<lambda>history.
         rbind (apply_to_controller reporter next_chunk payload (Some history)) (\<lambda>c.
         rbind stores (\<lambda>_.
           Inr (c, if lower (strip answer) = ''n'' then AList.update ''session_file'' PyNone opts else opts))))))))))"

section \<open>The queue of directories\<close>

text \<open>Queued directories are distinct, marked as passed, allowed, and within the recursion depth.\<close>

definition queue_ok :: "controller \<Rightarrow> bool" where
  "queue_ok c \<longleftrightarrow> distinct (c_directories c) \<and> (\<forall>d \<in> set (c_directories c). c_url c @ d \<in> c_passed_urls c)"

text \<open>What may happen to the queue while a directory is scanned: new directories are appended, none of
  them passed before, all of them allowed and not too deep.\<close>

definition grows :: "ctl_options \<Rightarrow> controller \<Rightarrow> controller \<Rightarrow> bool" where
  "grows opts c c' \<longleftrightarrow>
     c_url c' = c_url c \<and> c_base_path c' = c_base_path c \<and>
     (\<exists>new. c_directories c' = c_directories c @ new \<and> distinct new \<and>
        c_passed_urls c' = c_passed_urls c \<union> (\<lambda>d. c_url c @ d) ` set new \<and>
        (\<forall>d \<in> set new. c_url c @ d \<notin> c_passed_urls c \<and> \<not> is_excluded_subdir opts d \<and> \<not> too_deep opts c d))"

lemma grows_same:
  "c_url c' = c_url c \<Longrightarrow> c_base_path c' = c_base_path c \<Longrightarrow> c_directories c' = c_directories c \<Longrightarrow>
     c_passed_urls c' = c_passed_urls c \<Longrightarrow> grows opts c c'"
  by (simp add: grows_def)

lemma grows_trans:
  assumes "grows opts a b" and "grows opts b c"
  shows "grows opts a c"
proof -
  obtain x where x: "c_url b = c_url a" "c_base_path b = c_base_path a" "c_directories b = c_directories a @ x"
    "distinct x" "c_passed_urls b = c_passed_urls a \<union> (\<lambda>d. c_url a @ d) ` set x"
    "\<forall>d \<in> set x. c_url a @ d \<notin> c_passed_urls a \<and> \<not> is_excluded_subdir opts d \<and> \<not> too_deep opts a d"
    using assms(1) unfolding grows_def by blast
  obtain y where y: "c_url c = c_url b" "c_base_path c = c_base_path b" "c_directories c = c_directories b @ y"
    "distinct y" "c_passed_urls c = c_passed_urls b \<union> (\<lambda>d. c_url b @ d) ` set y"
    "\<forall>d \<in> set y. c_url b @ d \<notin> c_passed_urls b \<and> \<not> is_excluded_subdir opts d \<and> \<not> too_deep opts b d"
    using assms(2) unfolding grows_def by blast
  have "too_deep opts b = too_deep opts a" using x(2) by (simp add: too_deep_def fun_eq_iff)
  moreover have "distinct (x @ y)" using x y by auto
  ultimately show ?thesis unfolding grows_def using x y
    by (intro conjI exI [of _ "x @ y"]) auto
qed

lemma add_directory_grows: "grows opts c (add_directory opts path c)"
proof (cases "is_excluded_subdir opts path \<or> too_deep opts c path \<or> c_url c @ path \<in> c_passed_urls c")
  case False
  then show ?thesis by (auto simp: add_directory_def grows_def intro!: exI [of _ "[path]"])
qed (auto simp: add_directory_def intro: grows_same)

lemma fold_add_grows: "grows opts c (fold (add_directory opts) paths c)"
proof (induction paths arbitrary: c)
  case (Cons p ps)
  from grows_trans [OF add_directory_grows Cons.IH] show ?case by simp
qed (simp add: grows_same)

lemma recur_grows: "grows opts c (snd (recur opts path c))"
  by (simp add: recur_def Let_def fold_add_grows add_directory_grows grows_same)

lemma recur_for_response_grows: "grows opts c (snd (recur_for_response opts resp c))"
  by (simp add: recur_for_response_def recur_for_redirect_def recur_grows grows_same split: option.split)

lemma add_extras_same [simp]:
  "c_url (add_extras valid ps c) = c_url c" "c_base_path (add_extras valid ps c) = c_base_path c"
  "c_directories (add_extras valid ps c) = c_directories c" "c_passed_urls (add_extras valid ps c) = c_passed_urls c"
  by (simp_all add: add_extras_def)

lemma extras_grow:
  "grows opts c d \<Longrightarrow> grows opts c (add_crawled_paths opts crawl valid resp d)"
  "grows opts c d \<Longrightarrow> grows opts c (add_backups valid resp d)"
  by (rule grows_trans, assumption, simp add: add_crawled_paths_def add_backups_def grows_same)+

lemma match_callback_grows: "grows opts c (snd (match_callback opts crawl valid replay resp c))"
proof -
  define c1 where "c1 = (if recursion_wanted opts resp then snd (recur_for_response opts resp c) else c)"
  have "grows opts c c1" by (simp add: c1_def recur_for_response_grows grows_same)
  moreover have "grows opts c c" by (simp add: grows_same)
  ultimately show ?thesis unfolding match_callback_def Let_def c1_def [symmetric]
    by (simp add: extras_grow split: option.split)
qed

lemma grows_queue: "grows opts c c' \<Longrightarrow> queue_ok c \<Longrightarrow> queue_ok c'"
  unfolding grows_def queue_ok_def by (elim conjE exE) (auto simp: image_iff)

lemma finish_queue: "queue_ok c \<Longrightarrow> queue_ok (finish_directory c)"
  by (cases "c_directories c") (auto simp: queue_ok_def finish_directory_def)

lemma passed_grows: "grows opts c c' \<Longrightarrow> c_passed_urls c \<subseteq> c_passed_urls c'"
  by (auto simp: grows_def)

section \<open>The directories a loop scans\<close>

text \<open>The trace of \<open>start_loop\<close>.\<close>

fun scanned :: "nat \<Rightarrow> 'w ctl_env \<Rightarrow> controller \<times> 'w \<Rightarrow> string list" where
  "scanned 0 env s = []"
| "scanned (Suc n) env s =
     (case c_directories (fst s) of
        [] \<Rightarrow> []
      | directory # _ \<Rightarrow>
          directory #
          (case ce_scan env directory s of
             (r, s) \<Rightarrow>
               if \<not> ce_stopped env s then []
               else (case r of
                       Inl KeyboardInterrupt \<Rightarrow> scanned n env (on_controller finish_directory s)
                     | Inl e \<Rightarrow> []
                     | Inr _ \<Rightarrow> scanned n env (on_controller finish_directory s))))"

definition scans_grow :: "'w ctl_env \<Rightarrow> bool" where
  "scans_grow env \<longleftrightarrow> (\<forall>d s. grows (ce_options env) (fst s) (fst (snd (ce_scan env d s))))"

text \<open>What is left to scan, when the URLs that can come up are in a finite set.\<close>

definition directories_left :: "string set \<Rightarrow> controller \<Rightarrow> nat" where
  "directories_left pool c = length (c_directories c) + card (pool - c_passed_urls c)"

definition inside :: "string set \<Rightarrow> controller \<Rightarrow> bool" where
  "inside pool c \<longleftrightarrow> c_passed_urls c \<subseteq> pool"

text \<open>The scanned directories come from the queue or were not passed when the loop began.\<close>

lemma scanned_new:
  assumes "scans_grow env"
  shows "queue_ok (fst s) \<Longrightarrow> distinct (scanned n env s) \<and>
    (\<forall>d \<in> set (scanned n env s). d \<in> set (c_directories (fst s)) \<or> c_url (fst s) @ d \<notin> c_passed_urls (fst s))"
proof (induction n arbitrary: s)
  case (Suc n)
  show ?case
  proof (cases "c_directories (fst s)")
    case (Cons d ds)
    obtain r s1 where r: "ce_scan env d s = (r, s1)" by (cases "ce_scan env d s")
    have g: "grows (ce_options env) (fst s) (fst s1)" using assms r unfolding scans_grow_def by (metis snd_conv)
    then obtain new where new: "c_directories (fst s1) = c_directories (fst s) @ new"
        "\<forall>x \<in> set new. c_url (fst s) @ x \<notin> c_passed_urls (fst s)" "c_url (fst s1) = c_url (fst s)"
      unfolding grows_def by blast
    let ?s = "on_controller finish_directory s1"
    have q: "queue_ok (fst ?s)" using finish_queue grows_queue [OF g Suc.prems] by (simp add: on_controller_def)
    have f: "c_directories (fst ?s) = ds @ new" "c_url (fst ?s) = c_url (fst s)"
        "c_passed_urls (fst s) \<subseteq> c_passed_urls (fst ?s)"
      using new Cons passed_grows [OF g] by (simp_all add: on_controller_def finish_directory_def)
    have d: "d \<notin> set ds" "c_url (fst s) @ d \<in> c_passed_urls (fst s)" using Suc.prems Cons by (simp_all add: queue_ok_def)
    then have "d \<notin> set new" using new(2) by auto
    have rest: "distinct (scanned n env ?s)" "d \<notin> set (scanned n env ?s)"
      "\<forall>x \<in> set (scanned n env ?s). x \<in> set (c_directories (fst s)) \<or> c_url (fst s) @ x \<notin> c_passed_urls (fst s)"
      using Suc.IH [OF q] f d \<open>d \<notin> set new\<close> new(2) Cons by auto
    have "scanned (Suc n) env s = [d] \<or> scanned (Suc n) env s = d # scanned n env ?s"
      using Cons r by (simp split: sum.split exc.split)
    then show ?thesis using rest Cons by (elim disjE) (simp_all del: scanned.simps)
  qed simp
qed simp

lemma directories_left_finish:
  assumes "grows opts c c'" and "inside pool c'" and "finite pool" and "c_directories c \<noteq> []"
  shows "directories_left pool (finish_directory c') < directories_left pool c"
proof -
  obtain new where new: "c_directories c' = c_directories c @ new" "distinct new"
      "c_passed_urls c' = c_passed_urls c \<union> (\<lambda>d. c_url c @ d) ` set new"
      "\<forall>d \<in> set new. c_url c @ d \<notin> c_passed_urls c" using assms(1) unfolding grows_def by blast
  have "card ((\<lambda>d. c_url c @ d) ` set new) = length new"
    using new(2) by (simp add: card_image inj_on_def distinct_card)
  moreover have sub: "(\<lambda>d. c_url c @ d) ` set new \<subseteq> pool - c_passed_urls c" using assms(2) new(3,4) by (auto simp: inside_def)
  moreover have "pool - c_passed_urls c' = (pool - c_passed_urls c) - (\<lambda>d. c_url c @ d) ` set new" using new(3) by auto
  ultimately have "card (pool - c_passed_urls c') + length new = card (pool - c_passed_urls c)"
    using assms(3) card_Diff_subset [OF _ sub] card_mono [OF _ sub] by (simp add: finite_subset)
  then show ?thesis using new(1) assms(4) by (cases "c_directories c") (simp_all add: directories_left_def finish_directory_def)
qed

lemma start_loop_ends:
  assumes env: "scans_grow env" and pool: "finite pool" "\<forall>d s. inside pool (fst s) \<longrightarrow> inside pool (fst (snd (ce_scan env d s)))"
  shows "inside pool (fst s) \<Longrightarrow> directories_left pool (fst s) < n \<Longrightarrow> \<exists>res. start_loop n env s = Some res"
proof (induction n arbitrary: s)
  case (Suc n)
  show ?case
  proof (cases "c_directories (fst s)")
    case (Cons d ds)
    obtain r s1 where r: "ce_scan env d s = (r, s1)" by (cases "ce_scan env d s")
    have g: "grows (ce_options env) (fst s) (fst s1)" "inside pool (fst s1)"
      using env pool(2) r Suc.prems(1) unfolding scans_grow_def by (metis snd_conv)+
    have i: "inside pool (fst (on_controller finish_directory s1))"
      using g(2) by (simp add: inside_def on_controller_def finish_directory_def)
    have "directories_left pool (fst (on_controller finish_directory s1)) < n"
      using directories_left_finish [OF g pool(1)] Cons Suc.prems by (simp add: on_controller_def)
    from Suc.IH [OF i this] Cons r show ?thesis by (simp add: Let_def split: sum.split exc.split)
  qed simp
qed simp

lemma start_loop_done: "start_loop n env s = Some (Inr (), s') \<Longrightarrow> c_directories (fst s') = []"
proof (induction n arbitrary: s)
  case (Suc n)
  then show ?case
    by (cases "c_directories (fst s)") (auto simp: Let_def split: prod.splits if_splits sum.splits exc.splits)
qed simp

lemma start_loop_keeps:
  assumes "\<And>d s. P (fst s) \<Longrightarrow> P (fst (snd (ce_scan env d s)))" and "\<And>c. P c \<Longrightarrow> P (finish_directory c)"
  shows "P (fst s) \<Longrightarrow> start_loop n env s = Some (r, s') \<Longrightarrow> P (fst s')"
proof (induction n arbitrary: s)
  case (Suc n)
  show ?case
  proof (cases "c_directories (fst s)")
    case (Cons d ds)
    obtain r1 s1 where r1: "ce_scan env d s = (r1, s1)" by (cases "ce_scan env d s")
    then have "P (fst s1)" using assms(1) [of s d] Suc.prems(1) by simp
    moreover from this have "P (fst (on_controller finish_directory s1))" using assms(2) by (simp add: on_controller_def)
    ultimately show ?thesis using Suc.IH [of "on_controller finish_directory s1"] Suc.prems Cons r1
      by (auto simp: Let_def split: if_splits sum.splits exc.splits)
  qed (use Suc.prems in auto)
qed simp

section \<open>The loop over the targets\<close>

text \<open>All URLs of directories lie in a finite pool, whichever target is scanned.\<close>

definition pool_ok :: "string set \<Rightarrow> 'w ctl_env \<Rightarrow> string list \<Rightarrow> bool" where
  "pool_ok pool env urls \<longleftrightarrow>
     finite pool \<and> scans_grow env \<and>
     (\<forall>tg s. grows (ce_options env) (fst s) (fst (snd (ce_prepare env tg s)))) \<and>
     (\<forall>d s. inside pool (fst s) \<longrightarrow> inside pool (fst (snd (ce_scan env d s)))) \<and>
     (\<forall>tg s. inside pool (fst s) \<longrightarrow> inside pool (fst (snd (ce_prepare env tg s)))) \<and>
     (\<forall>url \<in> set urls. \<forall>c. inside pool c \<and> c_directories c = [] \<longrightarrow>
        inside pool (add_subdirs (ce_options env) (snd (set_target (ce_options env) (ce_secure env) url c))))"

lemma set_target_queue:
  "c_directories (snd (set_target opts secure url c)) = c_directories c"
  "c_passed_urls (snd (set_target opts secure url c)) = c_passed_urls c"
proof -
  have "c_directories (snd (set_origin opts secure parsed c)) = c_directories c \<and>
      c_passed_urls (snd (set_origin opts secure parsed c)) = c_passed_urls c" for parsed and c :: controller
    by (auto simp: set_origin_def Let_def split: sum.split)
  then show "c_directories (snd (set_target opts secure url c)) = c_directories c"
    "c_passed_urls (snd (set_target opts secure url c)) = c_passed_urls c"
    by (simp_all add: set_target_def Let_def split: sum.split)
qed

lemma add_subdirs_grows: "grows opts c (add_subdirs opts c)"
proof -
  have "grows opts c (fold (\<lambda>subdir c. add_directory opts (c_base_path c @ subdir) c) subs c)" for subs
  proof (induction subs arbitrary: c)
    case (Cons x subs)
    from grows_trans [OF add_directory_grows Cons.IH] show ?case by simp
  qed (simp add: grows_same)
  then show ?thesis by (simp add: add_subdirs_def grows_same)
qed

lemma queue_bounded: "queue_ok c \<Longrightarrow> inside pool c \<Longrightarrow> finite pool \<Longrightarrow> directories_left pool c \<le> 2 * card pool"
proof -
  assume q: "queue_ok c" and i: "inside pool c" and f: "finite pool"
  have "(\<lambda>d. c_url c @ d) ` set (c_directories c) \<subseteq> pool" using q i by (auto simp: queue_ok_def inside_def)
  from card_mono [OF f this] have "length (c_directories c) \<le> card pool"
    using q by (simp add: card_image inj_on_def queue_ok_def distinct_card)
  moreover have "card (pool - c_passed_urls c) \<le> card pool" using f by (simp add: card_mono)
  ultimately show ?thesis by (simp add: directories_left_def)
qed

lemma scan_target_total:
  assumes ok: "pool_ok pool env urls" and url: "url \<in> set urls" and n: "2 * card pool < n"
    and s: "c_directories (fst s) = []" "inside pool (fst s)"
  shows "\<exists>r s'. scan_target n env url s = Some (r, s') \<and> inside pool (fst s') \<and> (r = Inr () \<longrightarrow> c_directories (fst s') = [])"
proof -
  let ?o = "ce_options env"
  obtain r1 c1 where r1: "set_target ?o (ce_secure env) url (fst s) = (r1, c1)" by (cases "set_target ?o (ce_secure env) url (fst s)")
  have "inside pool (add_subdirs ?o (snd (set_target ?o (ce_secure env) url (fst s))))"
    using ok url s unfolding pool_ok_def by blast
  then have c1: "c_directories c1 = []" "inside pool c1" "inside pool (add_subdirs ?o c1)"
    using set_target_queue [of ?o "ce_secure env" url "fst s"] r1 s by (simp_all add: inside_def)
  show ?thesis
  proof (cases r1)
    case (Inl e)
    with r1 c1 show ?thesis by (auto simp: scan_target_def)
  next
    case (Inr tg)
    let ?s1 = "(add_subdirs ?o c1, snd s)"
    obtain r2 s2 where r2: "ce_prepare env tg ?s1 = (r2, s2)" by (cases "ce_prepare env tg ?s1")
    have "queue_ok (add_subdirs ?o c1)" using grows_queue [OF add_subdirs_grows] c1(1) by (simp add: queue_ok_def)
    moreover have g: "grows ?o (add_subdirs ?o c1) (fst s2)" "inside pool (fst s2)"
      using ok r2 c1(3) unfolding pool_ok_def by (metis fst_conv snd_conv)+
    ultimately have q: "queue_ok (fst s2)" using grows_queue by blast
    show ?thesis
    proof (cases r2)
      case (Inl e)
      with r1 r2 Inr g show ?thesis by (auto simp: scan_target_def)
    next
      case u: (Inr u)
      have left: "directories_left pool (fst s2) < n" using queue_bounded [OF q g(2)] n ok by (simp add: pool_ok_def)
      obtain r3 s3 where r3: "start_loop n env s2 = Some (r3, s3)"
        using start_loop_ends [of env pool s2 n] ok g(2) left by (auto simp: pool_ok_def)
      have "inside pool (fst s3)"
      proof (rule start_loop_keeps [of "inside pool", OF _ _ g(2) r3])
        show "inside pool (fst s) \<Longrightarrow> inside pool (fst (snd (ce_scan env d s)))" for d s
          using ok unfolding pool_ok_def by blast
        show "inside pool c \<Longrightarrow> inside pool (finish_directory c)" for c
          by (simp add: inside_def finish_directory_def)
      qed
      with r1 r2 r3 Inr u start_loop_done [of n env s2 s3] show ?thesis by (auto simp: scan_target_def)
    qed
  qed
qed

lemma abandon_fields [simp]: "c_directories (abandon_target c) = []" "c_passed_urls (abandon_target c) = c_passed_urls c"
  by (simp_all add: abandon_target_def)

lemma run_loop_total:
  assumes "2 * card pool < n"
  shows "pool_ok pool env urls \<Longrightarrow> c_directories (fst s) = [] \<Longrightarrow> inside pool (fst s) \<Longrightarrow>
    \<exists>r left s'. run_loop n env urls s = Some (r, left, s') \<and> (r = Inr () \<longrightarrow> left = [] \<and> c_directories (fst s') = []) \<and>
      (\<forall>e. r = Inl e \<longrightarrow> e = SystemExit ''0'' \<or> \<not> skips_target e)"
proof (induction urls arbitrary: s)
  case (Cons url urls)
  obtain r s1 where r: "scan_target n env url s = Some (r, s1)" "inside pool (fst s1)" "r = Inr () \<longrightarrow> c_directories (fst s1) = []"
    using scan_target_total [OF Cons.prems(1) _ assms Cons.prems(2,3), of url] by auto
  have ok: "pool_ok pool env urls" using Cons.prems(1) by (simp add: pool_ok_def)
  show ?case
  proof (cases r)
    case (Inr u)
    with Cons.IH [OF ok, of s1] r show ?thesis by simp
  next
    case (Inl e)
    show ?thesis
    proof (cases "skips_target e")
      case True
      have "inside pool (fst (on_controller abandon_target s1))" using r(2) by (simp add: inside_def on_controller_def)
      with Cons.IH [OF ok, of "on_controller abandon_target s1"] r Inl True show ?thesis by (simp add: on_controller_def)
    next
      case False
      with r Inl show ?thesis by (cases e) simp_all
    qed
  qed
qed simp

section \<open>Errors in a row and time limits\<close>

text \<open>What the callbacks count: \<open>True\<close> is a failed request, \<open>False\<close> a response.  The state is the one after the
  last event, or after the first that raised.\<close>

fun count_errors :: "ctl_options \<Rightarrow> bool list \<Rightarrow> controller \<Rightarrow> unit result \<times> controller" where
  "count_errors opts [] c = (Inr (), c)"
| "count_errors opts (failed # events) c =
     (case (if failed then raise_error opts c else (Inr (), reset_consecutive_errors c)) of
        (Inl e, c) \<Rightarrow> (Inl e, c)
      | (Inr _, c) \<Rightarrow> count_errors opts events c)"

text \<open>The length of the longest run of failures, the one that is going on included.\<close>

fun longest_run :: "nat \<Rightarrow> bool list \<Rightarrow> nat" where
  "longest_run k [] = k"
| "longest_run k (failed # events) = (if failed then longest_run (k + 1) events else max k (longest_run 0 events))"

lemma longest_run_ge: "k \<le> longest_run k events"
proof (induction events arbitrary: k)
  case (Cons x events)
  from Cons.IH [of "k + 1"] show ?case by auto
qed simp

lemma count_errors_iff:
  assumes "\<not> co_exit_on_error opts"
  shows "c_consecutive_errors c \<le> max_consecutive_request_errors \<Longrightarrow>
    fst (count_errors opts events c) =
      (if longest_run (c_consecutive_errors c) events \<le> max_consecutive_request_errors then Inr ()
       else Inl (SkipTargetInterrupt ''Too many request errors''))"
proof (induction events arbitrary: c)
  case (Cons x events)
  show ?case
  proof (cases x)
    case True
    let ?c = "c\<lparr>c_errors := c_errors c + 1, c_consecutive_errors := c_consecutive_errors c + 1\<rparr>"
    show ?thesis
    proof (cases "c_consecutive_errors c + 1 > max_consecutive_request_errors")
      case True
      with longest_run_ge [of "c_consecutive_errors c + 1" events] \<open>x\<close> assms show ?thesis
        by (simp add: raise_error_def Let_def)
    next
      case False
      with Cons.IH [of ?c] \<open>x\<close> assms show ?thesis by (simp add: raise_error_def Let_def)
    qed
  next
    case False
    with Cons.IH [of "reset_consecutive_errors c"] Cons.prems show ?thesis
      by (simp add: reset_consecutive_errors_def)
  qed
qed simp

lemma least_limit_least: "least_limit ls = Some l \<Longrightarrow> l \<in> set ls \<and> (\<forall>m \<in> set ls. fst l \<le> fst m)"
proof (induction ls arbitrary: l)
  case (Cons x ls)
  show ?case
  proof (cases "least_limit ls")
    case None
    then have "ls = []" by (cases ls) (auto split: option.splits if_splits)
    with Cons.prems show ?thesis by simp
  next
    case (Some m)
    with Cons.IH [OF Some] Cons.prems show ?thesis by (auto split: if_splits)
  qed
qed simp

section \<open>A run\<close>

definition quiet_options :: ctl_options where
  "quiet_options =
     \<lparr>co_skip_on_status = {}, co_recursion_status_codes = {200}, co_recursive = True, co_deep_recursive = False,
      co_force_recursive = False, co_recursion_depth = 0, co_exclude_subdirs = [], co_subdirs = [[]],
      co_replay_proxy = [], co_crawl = False, co_find_backup = True, co_exit_on_error = False, co_max_time = 0,
      co_target_max_time = 60, co_scheme = [], co_ip = [], co_proxied = False, co_async = False\<rparr>"

text \<open>A fuzzer that finds nothing.\<close>

definition quiet_env :: "unit ctl_env" where
  "quiet_env = \<lparr>ce_options = quiet_options, ce_secure = (\<lambda>_ _. False), ce_prepare = (\<lambda>_ s. (Inr (), s)),
     ce_scan = (\<lambda>_ s. (Inr (), s)), ce_stopped = (\<lambda>_. True)\<rparr>"

lemma quiet_env_grows: "scans_grow quiet_env"
  by (simp add: scans_grow_def quiet_env_def grows_same)

section \<open>Properties\<close>



text \<open>C19: the loop over the directories ends: when the URLs of all directories ever queued lie in a finite
  set, it is over after as many rounds as there are directories queued or yet unknown, with an
  empty queue unless an exception ended it.\<close>
theorem directory_loop_terminates:
  assumes "scans_grow env" and "finite pool"
    and "\<forall>d s. inside pool (fst s) \<longrightarrow> inside pool (fst (snd (ce_scan env d s)))"
    and "inside pool (fst s)" and "directories_left pool (fst s) < n"
  shows "\<exists>r s'. start_loop n env s = Some (r, s') \<and> (r = Inr () \<longrightarrow> c_directories (fst s') = [])"
proof -
  obtain r s' where "start_loop n env s = Some (r, s')" using start_loop_ends [OF assms] by auto
  with start_loop_done [of n env s s'] show ?thesis by blast
qed

theorem directory_loop_terminates_witness:
  "\<exists>r s'. start_loop 3 quiet_env (sample_controller, ()) = Some (r, s')"
proof -
  have "inside {''http://h/''} (fst (sample_controller, ()))" "directories_left {''http://h/''} (fst (sample_controller, ())) < 3"
    by (simp_all add: inside_def directories_left_def sample_controller_def)
  moreover have "\<forall>d s. inside {''http://h/''} (fst s) \<longrightarrow> inside {''http://h/''} (fst (snd (ce_scan quiet_env d s)))"
    by (simp add: quiet_env_def)
  ultimately show ?thesis using directory_loop_terminates [OF quiet_env_grows, of "{''http://h/''}" "(sample_controller, ())" 3]
    by blast
qed

text \<open>A target is given up for its errors exactly when more than 75 requests in a row have failed: any
  response in between starts the count again.\<close>
theorem skipped_after_errors_in_a_row:
  assumes "\<not> co_exit_on_error opts" and "c_consecutive_errors c = 0"
  shows "fst (count_errors opts events c) =
    (if longest_run 0 events \<le> max_consecutive_request_errors then Inr ()
     else Inl (SkipTargetInterrupt ''Too many request errors''))"
  using count_errors_iff [OF assms(1), of c] assms(2) by simp

theorem skipped_after_errors_in_a_row_witness:
  "fst (count_errors quiet_options [True, False, True] sample_controller) = Inr ()"
  using skipped_after_errors_in_a_row [of quiet_options sample_controller "[True, False, True]"]
  by (simp add: quiet_options_def sample_controller_def max_consecutive_request_errors_def)

text \<open>The time limit handed to a scan is the one that runs out first, it is not over yet, and the call
  raises instead exactly when one of the limits the user has set is over.\<close>
theorem time_limit_is_the_first_to_end:
  "(case get_time_limit opts now start_time c of
      Inl e \<Rightarrow> \<exists>t \<le> 0. (t, e) \<in> set (time_limits opts now start_time c)
    | Inr None \<Rightarrow> co_max_time opts \<le> 0 \<and> co_target_max_time opts \<le> 0
    | Inr (Some (t, e)) \<Rightarrow> 0 < t \<and> (t, e) \<in> set (time_limits opts now start_time c) \<and>
        (\<forall>m \<in> set (time_limits opts now start_time c). t \<le> fst m))"
proof (cases "find (\<lambda>(remaining, _). remaining \<le> 0) (time_limits opts now start_time c)")
  case (Some p)
  obtain t e where p: "p = (t, e)" by (cases p)
  from Some have "t \<le> 0" "(t, e) \<in> set (time_limits opts now start_time c)"
    by (auto simp: find_Some_iff p in_set_conv_nth)
  with Some p show ?thesis by (auto simp: get_time_limit_def)
next
  case None
  then have pos: "\<forall>m \<in> set (time_limits opts now start_time c). 0 < fst m" by (auto simp: find_None_iff)
  show ?thesis
  proof (cases "least_limit (time_limits opts now start_time c)")
    case None
    then have "time_limits opts now start_time c = []"
      by (cases "time_limits opts now start_time c") (auto split: option.splits if_splits)
    with None \<open>find _ _ = None\<close> show ?thesis by (auto simp: get_time_limit_def time_limits_def split: if_splits)
  next
    case (Some l)
    from least_limit_least [OF Some] pos Some None show ?thesis by (cases l) (auto simp: get_time_limit_def)
  qed
qed

theorem time_limit_is_the_first_to_end_witness:
  "\<exists>t e. get_time_limit quiet_options 10 0 sample_controller = Inr (Some (t, e)) \<and> 0 < t"
proof -
  have "get_time_limit quiet_options 10 0 sample_controller =
      Inr (Some (50, SkipTargetInterrupt ''Runtime for target exceeded the maximum set by the user''))"
    by (simp add: get_time_limit_def time_limits_def quiet_options_def)
  with time_limit_is_the_first_to_end [of quiet_options 10 0 sample_controller] show ?thesis by simp
qed


lemma quiet_target:
  "set_target quiet_options (\<lambda>_ _. False) ''http://h/'' c =
     (Inr \<lparr>tg_override = None, tg_credential = None, tg_url = ''http://h/'', tg_query = []\<rparr>,
      c\<lparr>c_base_path := [], c_url := ''http://h/''\<rparr>)"
proof -
  have p: "rbind (ensure_trailing_path_slash ''http://h/'') urlsplit =
      Inr \<lparr>url_scheme = ''http'', url_netloc = ''h'', url_path = ''/'', url_query = [], url_fragment = []\<rparr>"
    by code_simp
  have t: "target_text quiet_options ''http://h/'' = ''http://h/''" by code_simp
  let ?p = "\<lparr>url_scheme = ''http'', url_netloc = ''h'', url_path = ''/'', url_query = [], url_fragment = []\<rparr>"
  have o: "url_port ?p = Inr None" "choose_origin quiet_options (\<lambda>_ _. False) ?p None = Inr (''http'', 80)"
    "target_url (url_hostname ?p) ''http'' 80 = ''http://h/''" "target_credential ?p = None"
    "lstrip_once ''/'' ''/'' = []" "co_ip quiet_options = []" "co_proxied quiet_options = False" by code_simp+
  show ?thesis unfolding set_target_def t p by (simp add: o set_origin_def Let_def)
qed

lemma quiet_pool: "pool_ok {''http://h/''} quiet_env [''http://h/'']"
proof -
  have "inside {''http://h/''} (add_subdirs quiet_options (c\<lparr>c_base_path := [], c_url := ''http://h/''\<rparr>))"
    if "inside {''http://h/''} c" "c_directories c = []" for c
    using that by (simp add: inside_def add_subdirs_def add_directory_def quiet_options_def)
  then show ?thesis using quiet_env_grows
    by (simp add: pool_ok_def quiet_env_def quiet_target grows_same)
qed


text \<open>A malformed bracketed address is not among them: its \<open>ValueError\<close> ends the whole run, and the
  targets that follow are not scanned.\<close>
theorem malformed_target_ends_the_run:
  "run_loop n env (''http://[::1'' # urls) s = Some (Inl (ValueError ''Invalid IPv6 URL''), urls, s)"
proof -
  have "rbind (ensure_trailing_path_slash ''http://[::1'') urlsplit = Inl (ValueError ''Invalid IPv6 URL'')" by code_simp
  moreover have "contains ''http://[::1'' ''://''" by code_simp
  ultimately have "scan_target n env ''http://[::1'' s = Some (Inl (ValueError ''Invalid IPv6 URL''), s)"
    by (simp add: scan_target_def set_target_def target_text_def)
  then show ?thesis by (simp add: skips_target_def)
qed

lemma fold_extra_prefix:
  "dict_wf d \<Longrightarrow> \<exists>more. d_extra (fold (add_extra valid) ps d) = d_extra d @ more"
proof (induction ps arbitrary: d)
  case (Cons p ps)
  obtain more where "d_extra (fold (add_extra valid) ps (add_extra valid p d)) = d_extra (add_extra valid p d) @ more"
    using Cons.IH [OF add_extra_wf [OF Cons.prems]] by blast
  with add_extra_eq(1) [OF Cons.prems, of valid p] show ?case by (simp split: if_splits)
qed simp

text \<open>While the directory \<open>app/admin/\<close> of the target \<open>app/\<close> is scanned, the backups of a file found in it are
  queued relative to the target and not to the directory, so that the fuzzer, which puts the
  directory in front, asks for \<open>app/admin/admin/x.php~\<close>, which is no backup of the file.\<close>
theorem backups_in_subdirectory_misplaced:
  assumes "r_path resp = ''app/admin/x.php''" and "c_base_path c = ''app/''" and "valid ''admin/x.php~''"
    and "c_dictionary c = dict_init [] False"
  shows "hd (d_extra (c_dictionary (add_backups valid resp c))) = ''admin/x.php~'' \<and>
    ''app/admin/'' @ hd (d_extra (c_dictionary (add_backups valid resp c))) \<notin> set (generate_backup_paths (r_path resp))"
proof -
  have l: "lstrip_once ''app/admin/x.php'' ''app/'' = ''admin/x.php''" by code_simp
  have "generate_backup_paths ''admin/x.php'' = ''admin/x.php~'' # tl (generate_backup_paths ''admin/x.php'')" by code_simp
  then obtain ps where ps: "generate_backup_paths ''admin/x.php'' = ''admin/x.php~'' # ps" by blast
  have n: "''app/admin/admin/x.php~'' \<notin> set (generate_backup_paths ''app/admin/x.php'')" by code_simp
  let ?d = "dict_init [] False"
  have wf: "dict_wf ?d" by (simp add: dict_init_def dict_wf_def native_claim_ok_def)
  have one: "d_extra (add_extra valid ''admin/x.php~'' ?d) = [''admin/x.php~'']"
    using add_extra_eq(1) [OF wf, of valid "''admin/x.php~''"] assms(3) by (simp add: dict_init_def)
  obtain more where "d_extra (fold (add_extra valid) ps (add_extra valid ''admin/x.php~'' ?d)) = ''admin/x.php~'' # more"
    using fold_extra_prefix [OF add_extra_wf [OF wf], of valid ps valid "''admin/x.php~''"] one by auto
  then have "hd (d_extra (c_dictionary (add_backups valid resp c))) = ''admin/x.php~''"
    by (simp add: add_backups_def add_extras_def assms l ps)
  with n show ?thesis by (simp add: assms(1))
qed

theorem backups_in_subdirectory_misplaced_witness:
  "hd (d_extra (c_dictionary (add_backups (\<lambda>_. True) (base_response 0 ''http://h/app/admin/x.php'' 200 [] 0 [] None)
     (sample_controller\<lparr>c_base_path := ''app/'', c_dictionary := dict_init [] False\<rparr>)))) = ''admin/x.php~''"
proof -
  have "r_path (base_response 0 ''http://h/app/admin/x.php'' 200 [] 0 [] None) = ''app/admin/x.php''" by code_simp
  from backups_in_subdirectory_misplaced [OF this, of "sample_controller\<lparr>c_base_path := ''app/'', c_dictionary := dict_init [] False\<rparr>"
      "\<lambda>_. True"] show ?thesis by simp
qed

end
