(* ===== verification/Requester.thy ===== *)
theory Requester
  imports NativeBackend
begin

text \<open>
  \<open>lib/connection/requester.py\<close> and \<open>lib/connection/rate_limiter.py\<close>: the rate limit, what a request
  asks for, how a failure is named, and the retries.  The HTTP libraries are parameters: a request
  that is sent ends with an answer or with an exception, which is a node of a graph of exceptions
  with the classes it is an instance of.
\<close>

section \<open>The rate limit\<close>

definition rate_window_seconds :: rat where "rate_window_seconds = 1"
definition rate_wait_poll_seconds :: rat where "rate_wait_poll_seconds = 1 / 10"

definition discard_expired :: "rat \<Rightarrow> rat list \<Rightarrow> rat list" where
  "discard_expired now stamps = dropWhile (\<lambda>t. t \<le> now - rate_window_seconds) stamps"

text \<open>\<open>_reserve\<close>: \<open>None\<close> when the request may go, and else how long to wait.\<close>

definition reserve :: "int \<Rightarrow> rat \<Rightarrow> rat list \<Rightarrow> rat option \<times> rat list" where
  "reserve max_rate now stamps =
     (let stamps = discard_expired now stamps in
      if max_rate \<le> 0 \<or> int (length stamps) < max_rate then (None, stamps @ [now])
      else (Some (max 0 (hd stamps + rate_window_seconds - now)), stamps))"

definition limiter_rate :: "rat \<Rightarrow> rat list \<Rightarrow> nat \<times> rat list" where
  "limiter_rate now stamps = (length (discard_expired now stamps), discard_expired now stamps)"

text \<open>\<open>wait\<close> and \<open>wait_async\<close> for at most \<open>n\<close> polls; \<open>sleep\<close> gives the time after a sleep.\<close>

fun wait_loop :: "nat \<Rightarrow> (rat \<Rightarrow> rat \<Rightarrow> rat) \<Rightarrow> int \<Rightarrow> rat \<Rightarrow> rat list \<Rightarrow> (rat \<times> rat list) option" where
  "wait_loop 0 sleep max_rate now stamps = None"
| "wait_loop (Suc n) sleep max_rate now stamps =
     (case reserve max_rate now stamps of
        (None, stamps) \<Rightarrow> Some (now, stamps)
      | (Some delay, stamps) \<Rightarrow> wait_loop n sleep max_rate (sleep now (min delay rate_wait_poll_seconds)) stamps)"

section \<open>Exceptions\<close>

record error_node =
  en_classes :: "string list"
  en_name :: string
  en_text :: string
  en_cause :: "nat option"
  en_context :: "nat option"
  en_reason :: "nat option"
  en_hidden_reason :: "nat option"
  en_args :: "nat list"
  en_library :: string
  en_ssl_reason :: string

type_synonym error_graph = "(nat \<times> error_node) list"

definition refs :: "nat option list \<Rightarrow> nat list" where
  "refs rs = List.map_filter id rs"

text \<open>The walks of \<open>_iter_exception_chain\<close> and \<open>_is_dns_error\<close>: \<open>nexts\<close> lists what a node leads to, the next to
  be taken first.\<close>

function walk_errors :: "(error_node \<Rightarrow> nat list) \<Rightarrow> error_graph \<Rightarrow> nat list \<Rightarrow> nat list \<Rightarrow> error_node list" where
  "walk_errors nexts g visited [] = []"
| "walk_errors nexts g visited (i # pending) =
     (if i \<in> set visited then walk_errors nexts g visited pending
      else (case map_of g i of
              None \<Rightarrow> walk_errors nexts g visited pending
            | Some e \<Rightarrow> e # walk_errors nexts g (i # visited) (nexts e @ pending)))"
  by pat_completeness auto

termination
  by (relation "measures [\<lambda>(nexts, g, visited, pending). card (fst ` set g - set visited),
                          \<lambda>(nexts, g, visited, pending). length pending]")
     (auto simp: unseen_less [simplified])

definition chain_nexts :: "error_node \<Rightarrow> nat list" where
  "chain_nexts e = refs [en_context e, en_cause e]"

definition dns_nexts :: "error_node \<Rightarrow> nat list" where
  "dns_nexts e = rev (en_args e) @ refs [en_hidden_reason e, en_reason e, en_context e, en_cause e]"

definition exception_chain :: "error_graph \<Rightarrow> nat \<Rightarrow> error_node list" where
  "exception_chain g i = walk_errors chain_nexts g [] [i]"

definition instance_of :: "string list \<Rightarrow> error_node \<Rightarrow> bool" where
  "instance_of classes e \<longleftrightarrow> list_ex (\<lambda>c. c \<in> set (en_classes e)) classes"

definition is_a :: "error_graph \<Rightarrow> nat \<Rightarrow> string \<Rightarrow> bool" where
  "is_a g i c \<longleftrightarrow> (case map_of g i of None \<Rightarrow> False | Some e \<Rightarrow> instance_of [c] e)"

definition is_dns_error :: "error_graph \<Rightarrow> nat \<Rightarrow> bool" where
  "is_dns_error g i \<longleftrightarrow>
     list_ex (instance_of [''socket.gaierror'', ''urllib3.NameResolutionError'']) (walk_errors dns_nexts g [] [i]) \<or>
     (case map_of g i of
        None \<Rightarrow> False
      | Some e \<Rightarrow> instance_of [''httpx.ConnectError''] e \<and> starts_with (en_text e) ''[Errno -2]'')"

definition find_ssl_error :: "error_graph \<Rightarrow> nat \<Rightarrow> error_node option" where
  "find_ssl_error g i = find (instance_of [''ssl.SSLError'']) (exception_chain g i)"

definition timeout_classes :: "string list" where
  "timeout_classes = [''requests.Timeout'', ''urllib3.TimeoutError'', ''httpx.TimeoutException'', ''socket.timeout'']"

definition is_timeout_error :: "error_graph \<Rightarrow> nat \<Rightarrow> bool" where
  "is_timeout_error g i \<longleftrightarrow>
     list_ex (\<lambda>e. instance_of timeout_classes e \<or> contains (lower (en_text e)) ''timed out'' \<or>
                  contains (lower (en_text e)) ''timeout'') (exception_chain g i)"

definition read_error_classes :: "string list" where
  "read_error_classes =
     [''requests.ChunkedEncodingError'', ''requests.ContentDecodingError'', ''requests.StreamConsumedError'',
      ''requests.UnrewindableBodyError'', ''httpx.DecodingError'', ''httpx.ReadError'', ''httpx.RemoteProtocolError'']"

text \<open>\<open>READ_RESPONSE_ERROR_REGEX\<close> is an alternative of three names.\<close>

definition is_response_read_error :: "error_graph \<Rightarrow> nat \<Rightarrow> bool" where
  "is_response_read_error g i \<longleftrightarrow>
     list_ex (\<lambda>e. instance_of read_error_classes e \<or>
                  list_ex (contains (en_name e)) [''ChunkedEncodingError'', ''StreamConsumedError'', ''UnrewindableBodyError''])
       (exception_chain g i)"

definition is_ssl_error :: "error_graph \<Rightarrow> nat \<Rightarrow> bool" where
  "is_ssl_error g i \<longleftrightarrow> is_a g i ''requests.SSLError'' \<or> find_ssl_error g i \<noteq> None"

definition cert_error_text :: "string \<Rightarrow> string \<Rightarrow> string" where
  "cert_error_text detail url =
     (let d = lower detail; msg = ''SSL certificate verification failed'' in
      if contains d ''self signed certificate'' then msg @ '' (self-signed certificate): '' @ url
      else if contains d ''certificate has expired'' then msg @ '' (certificate expired): '' @ url
      else if contains d ''certificate is not yet valid'' then msg @ '' (certificate not yet valid): '' @ url
      else if contains d ''unable to get local issuer certificate''
      then msg @ '' (missing local issuer certificate): '' @ url
      else if contains d ''hostname'' \<and> contains d ''match'' then msg @ '' (hostname mismatch): '' @ url
      else msg @ '': '' @ detail)"

definition handshake_error_text :: "error_node \<Rightarrow> string \<Rightarrow> string" where
  "handshake_error_text e url =
     (let detail = en_text e; d = lower detail in
      if contains d ''wrong version'' \<or> contains d ''unsupported protocol'' then ''SSL protocol version mismatch: '' @ url
      else if contains d ''handshake'' then ''SSL handshake failed: '' @ url
      else if contains d ''no shared cipher'' \<or> contains d ''no ciphers''
      then ''SSL handshake failed (no shared cipher suites): '' @ url
      else if en_library e = ''SSL'' \<and> contains detail ''EOF'' then ''SSL connection terminated unexpectedly: '' @ url
      else if contains detail ''CERTIFICATE_VERIFY_FAILED'' then ''SSL certificate verification failed: '' @ url
      else ''SSL error ('' @ (if en_ssl_reason e \<noteq> [] then en_ssl_reason e
                              else if en_library e \<noteq> [] then en_library e else ''unknown'') @ ''): '' @ detail)"

definition error_text :: "error_graph \<Rightarrow> nat \<Rightarrow> string" where
  "error_text g i = (case map_of g i of None \<Rightarrow> [] | Some e \<Rightarrow> en_text e)"

definition format_ssl_error :: "error_graph \<Rightarrow> nat \<Rightarrow> string \<Rightarrow> string" where
  "format_ssl_error g i url =
     (case find_ssl_error g i of
        Some e \<Rightarrow>
          if instance_of [''ssl.SSLCertVerificationError''] e then cert_error_text (en_text e) url
          else handshake_error_text e url
      | None \<Rightarrow>
          (let detail = error_text g i in
           if contains detail ''CERTIFICATE_VERIFY_FAILED'' then ''SSL certificate verification failed: '' @ url
           else if contains (lower detail) ''wrong version'' then ''SSL protocol version mismatch: '' @ url
           else ''SSL error: '' @ detail))"

text \<open>The same graph as \<open>lib/connection/proxy.py\<close> looks at it.\<close>

definition proxy_heap :: "error_graph \<Rightarrow> error_heap" where
  "proxy_heap g = map (\<lambda>(i, e). (i, (en_text e, en_cause e, en_context e))) g"

definition netloc_of :: "string \<Rightarrow> string result" where
  "netloc_of url = rbind (urlsplit url) (\<lambda>p. Inr (url_netloc p))"

text \<open>The message for a failure, or the exception that ends the retries at once.\<close>

datatype failure = TryAgain string | GiveUp exc

definition proxy_failure :: "error_graph \<Rightarrow> nat \<Rightarrow> failure" where
  "proxy_failure g i =
     (let msg = format_proxy_error (proxy_heap g) (ErrorObject i) in
      if proxy_error_status (proxy_heap g) (ErrorObject i) \<in> {Some 407, Some 429}
      then GiveUp (RequestException msg) else TryAgain msg)"

definition cannot_connect :: "string \<Rightarrow> failure" where
  "cannot_connect url = (case netloc_of url of Inl e \<Rightarrow> GiveUp e | Inr n \<Rightarrow> TryAgain (''Cannot connect to: '' @ n))"

definition sync_failure :: "error_graph \<Rightarrow> nat \<Rightarrow> string \<Rightarrow> string \<Rightarrow> failure" where
  "sync_failure g i url proxy =
     (if is_dns_error g i then TryAgain ''Couldn't resolve DNS''
      else if is_timeout_error g i then TryAgain (''Request timeout: '' @ url)
      else if is_ssl_error g i then TryAgain (format_ssl_error g i url)
      else if is_a g i ''requests.TooManyRedirects'' then TryAgain (''Too many redirects: '' @ url)
      else if is_a g i ''requests.ProxyError'' then proxy_failure g i
      else if is_a g i ''requests.InvalidProxyURL'' then TryAgain (''Invalid proxy URL: '' @ proxy)
      else if is_a g i ''requests.InvalidURL'' then TryAgain (''Invalid URL: '' @ url)
      else if is_response_read_error g i then TryAgain (''Failed to read response body: '' @ url)
      else if is_a g i ''requests.ConnectionError'' then cannot_connect url
      else if is_a g i ''http.client.IncompleteRead'' then TryAgain (''Request timeout: '' @ url)
      else TryAgain (''There was a problem in the request to: '' @ url))"

definition async_failure :: "error_graph \<Rightarrow> nat \<Rightarrow> string \<Rightarrow> failure" where
  "async_failure g i url =
     (if is_dns_error g i then TryAgain ''Couldn't resolve DNS''
      else if is_timeout_error g i then TryAgain (''Request timeout: '' @ url)
      else if is_a g i ''httpx.ConnectError'' \<and> \<not> is_ssl_error g i then cannot_connect url
      else if is_ssl_error g i then TryAgain (format_ssl_error g i url)
      else if is_a g i ''httpx.TooManyRedirects'' then TryAgain (''Too many redirects: '' @ url)
      else if is_a g i ''httpx.ProxyError'' then proxy_failure g i
      else if is_a g i ''httpx.InvalidURL'' then TryAgain (''Invalid URL: '' @ url)
      else if is_response_read_error g i then TryAgain (''Failed to read response body: '' @ url)
      else TryAgain (''There was a problem in the request to: '' @ url))"

section \<open>The requester\<close>

datatype origin_auth = BearerAuth string | BasicAuth string string | DigestAuth string string | NtlmAuth string string

record req_options =
  ro_proxies :: "string list"
  ro_proxy_auth :: string
  ro_headers :: "(string \<times> string) list"
  ro_auth :: string
  ro_auth_type :: string
  ro_data :: string
  ro_random_agents :: bool
  ro_max_rate :: int
  ro_max_retries :: nat
  ro_http_method :: string
  ro_capture_full :: bool

record requester =
  rq_url :: string
  rq_query :: string
  rq_overrides :: ip_overrides
  rq_stamps :: "rat list"
  rq_proxy_cred :: string
  rq_headers :: "string ci_dict"
  rq_agents :: "string list"
  rq_auth :: "origin_auth option"
  rq_configured_auth :: "origin_auth option"

definition set_header :: "string \<Rightarrow> string \<Rightarrow> requester \<Rightarrow> requester" where
  "set_header key value r = r\<lparr>rq_headers := ci_set key (lstrip_p is_space value) (rq_headers r)\<rparr>"

text \<open>\<open>set_auth\<close> of both requesters: a credential without a colon is a user without a password.\<close>

definition auth_of :: "string \<Rightarrow> string \<Rightarrow> origin_auth" where
  "auth_of type' credential =
     (if type' = ''bearer'' \<or> type' = ''jwt'' then BearerAuth credential
      else let (user, colon, password) = partition '':'' credential in
        if type' = ''basic'' then BasicAuth user password
        else if type' = ''digest'' then DigestAuth user password
        else NtlmAuth user password)"

definition set_auth :: "string \<Rightarrow> string \<Rightarrow> requester \<Rightarrow> requester" where
  "set_auth type' credential r = r\<lparr>rq_auth := Some (auth_of type' credential)\<rparr>"

definition reset_auth :: "requester \<Rightarrow> requester" where
  "reset_auth r = r\<lparr>rq_auth := rq_configured_auth r\<rparr>"

text \<open>The headers a bearer token adds to a request.\<close>

definition authorize :: "origin_auth \<Rightarrow> (string \<times> string) list \<Rightarrow> (string \<times> string) list" where
  "authorize a headers =
     (case a of BearerAuth token \<Rightarrow> AList.update ''Authorization'' (''Bearer '' @ token) headers | _ \<Rightarrow> headers)"

text \<open>\<open>BaseRequester.__init__\<close> with the authentication of its subclasses; \<open>agents\<close> is the list of the file.\<close>

definition new_requester :: "body_parsers \<Rightarrow> string list result \<Rightarrow> req_options \<Rightarrow> requester result" where
  "new_requester ps agents opts =
     rbind (if ro_random_agents opts then agents else Inr []) (\<lambda>agents.
       let r = \<lparr>rq_url = [], rq_query = [], rq_overrides = [], rq_stamps = [], rq_proxy_cred = ro_proxy_auth opts,
                rq_headers = ci_init (ro_headers opts), rq_agents = agents, rq_auth = None,
                rq_configured_auth = None\<rparr>;
           r = (if ro_data opts \<noteq> [] \<and> map_of (rq_headers r) ''content-type'' = None
                then set_header ''content-type'' (guess_mimetype ps (ro_data opts)) r else r);
           r = (if ro_auth opts \<noteq> [] then set_auth (ro_auth_type opts) (ro_auth opts) r else r)
       in Inr (r\<lparr>rq_configured_auth := rq_auth r\<rparr>))"

definition set_url :: "string \<Rightarrow> requester \<Rightarrow> requester" where
  "set_url url r = r\<lparr>rq_url := url\<rparr>"

definition set_query :: "string \<Rightarrow> requester \<Rightarrow> requester" where
  "set_query query r = r\<lparr>rq_query := query\<rparr>"

definition set_ip :: "string \<Rightarrow> nat \<Rightarrow> string \<Rightarrow> requester \<Rightarrow> requester" where
  "set_ip host port ip r = r\<lparr>rq_overrides := set_override host port ip (rq_overrides r)\<rparr>"

definition request_path :: "requester \<Rightarrow> string \<Rightarrow> string" where
  "request_path r path = append_query_string path (rq_query r)"

text \<open>\<open>pick\<close> is \<open>random.choice\<close>.\<close>

definition request_headers :: "(string list \<Rightarrow> string) \<Rightarrow> requester \<Rightarrow> string ci_dict" where
  "request_headers pick r =
     (if rq_agents r = [] then rq_headers r else ci_set ''user-agent'' (pick (rq_agents r)) (rq_headers r))"

definition join_request_target :: "string \<Rightarrow> string \<Rightarrow> string result" where
  "join_request_target base_url quoted_path =
     rbind (urlsplit base_url) (\<lambda>p.
       let base_path = (if url_path p = [] then ''/'' else url_path p);
           target = (if base_path = ''/'' then ''/'' else rstrip_char (CHR ''/'') base_path @ ''/'')
       in Inr (target @ lstrip_char (CHR ''/'') quoted_path))"

text \<open>\<open>PathPreservingSocketOptionsAdapter.request_url\<close>: \<open>default'\<close> is what requests itself would send.\<close>

definition adapter_request_url :: "string option \<Rightarrow> string \<Rightarrow> string result" where
  "adapter_request_url tgt default' =
     (case tgt of
        None \<Rightarrow> Inr default'
      | Some tgt \<Rightarrow>
          if tgt = [] then Inr default'
          else if starts_with default' ''/'' then Inr tgt
          else rbind (urlsplit default') (\<lambda>p. Inr (url_scheme p @ ''://'' @ url_netloc p @ tgt)))"

definition proxy_url :: "requester \<Rightarrow> string \<Rightarrow> string result" where
  "proxy_url r proxy =
     add_proxy_authentication (if starts_with_any proxy proxy_schemes then proxy else ''http://'' @ proxy)
       (Some (rq_proxy_cred r))"

text \<open>\<open>proxy or random.choice(options["proxies"])\<close>, with the scheme and the credentials.\<close>

definition choose_proxy :: "(string list \<Rightarrow> string) \<Rightarrow> req_options \<Rightarrow> requester \<Rightarrow> string \<Rightarrow> string option result" where
  "choose_proxy pick opts r proxy =
     (if proxy \<noteq> [] then rbind (proxy_url r proxy) (\<lambda>p. Inr (Some p))
      else if ro_proxies opts = [] then Inr None
      else rbind (proxy_url r (pick (ro_proxies opts))) (\<lambda>p. Inr (Some p)))"

text \<open>What is sent, and what comes back.\<close>

record sent_request =
  sr_method :: string
  sr_url :: string
  sr_target :: string
  sr_headers :: "string ci_dict"
  sr_body :: string
  sr_proxy :: "string option"

datatype sent_outcome = Answer http_result rat | Failure error_graph nat

record 'w req_env =
  re_options :: req_options
  re_codecs :: codecs
  re_sha256 :: "string \<Rightarrow> string"
  re_choose :: "'w \<Rightarrow> string list \<Rightarrow> string"
  re_send :: "sent_request \<Rightarrow> 'w \<Rightarrow> sent_outcome \<times> 'w"
  re_id :: "'w \<Rightarrow> nat"

datatype attempt = Done response | Retry failure

text \<open>One turn of the loop of \<open>request\<close>.\<close>

definition request_for ::
  "'w req_env \<Rightarrow> requester \<Rightarrow> string \<Rightarrow> string \<Rightarrow> 'w \<Rightarrow> sent_request result" where
  "request_for env r path proxy w =
     rbind (choose_proxy (re_choose env w) (re_options env) r proxy) (\<lambda>p.
     rbind (join_request_target (rq_url r) (safequote (request_path r path))) (\<lambda>tgt.
       Inr \<lparr>sr_method = ro_http_method (re_options env), sr_url = rq_url r @ safequote (request_path r path),
            sr_target = tgt, sr_headers = request_headers (re_choose env w) r, sr_body = ro_data (re_options env),
            sr_proxy = p\<rparr>))"

definition sync_attempt :: "'w req_env \<Rightarrow> requester \<Rightarrow> string \<Rightarrow> string \<Rightarrow> 'w \<Rightarrow> attempt \<times> 'w" where
  "sync_attempt env r path proxy w =
     (let url = rq_url r @ safequote (request_path r path) in
      case request_for env r path proxy w of
        Inl e \<Rightarrow> (Retry (TryAgain (''There was a problem in the request to: '' @ url)), w)
      | Inr req \<Rightarrow>
          (case re_send env req w of
             (Failure g i, w) \<Rightarrow> (Retry (sync_failure g i url proxy), w)
           | (Answer res elapsed, w) \<Rightarrow>
               if sr_proxy req \<noteq> None \<and> h_status res = int proxy_authentication_required
               then (Retry (GiveUp (RequestException ''Proxy authentication required'')), w)
               else (Done (new_response (re_codecs env) (re_sha256 env) (re_id env w) url res elapsed
                             (ro_capture_full (re_options env))), w)))"

text \<open>The loop: at most \<open>n\<close> turns, the message of the last failure in the end.\<close>

fun request_loop :: "nat \<Rightarrow> ('w \<Rightarrow> attempt \<times> 'w) \<Rightarrow> string \<Rightarrow> 'w \<Rightarrow> response result \<times> 'w" where
  "request_loop 0 attempt msg w = (Inl (RequestException msg), w)"
| "request_loop (Suc n) attempt msg w =
     (case attempt w of
        (Done resp, w) \<Rightarrow> (Inr resp, w)
      | (Retry (GiveUp e), w) \<Rightarrow> (Inl e, w)
      | (Retry (TryAgain msg), w) \<Rightarrow> request_loop n attempt msg w)"

definition request :: "'w req_env \<Rightarrow> requester \<Rightarrow> string \<Rightarrow> string \<Rightarrow> 'w \<Rightarrow> response result \<times> 'w" where
  "request env r path proxy w =
     request_loop (ro_max_retries (re_options env) + 1) (sync_attempt env r path proxy) [] w"

text \<open>The asynchronous requester: the client of the scan chooses its proxy itself, a replay has its own
  client; \<open>inherited\<close> tells whether the environment sent an answer through a proxy.\<close>

definition async_attempt ::
  "'w req_env \<Rightarrow> (http_result \<Rightarrow> bool) \<Rightarrow> requester \<Rightarrow> string \<Rightarrow> string option \<Rightarrow> 'w \<Rightarrow> attempt \<times> 'w" where
  "async_attempt env inherited r path replay_proxy w =
     (let url = rq_url r @ safequote (request_path r path);
          using_proxy = (replay_proxy \<noteq> None \<or> ro_proxies (re_options env) \<noteq> [])
      in case join_request_target (rq_url r) (safequote (request_path r path)) of
           Inl e \<Rightarrow> (Retry (TryAgain (''There was a problem in the request to: '' @ url)), w)
         | Inr tgt \<Rightarrow>
             (case re_send env
                     \<lparr>sr_method = ro_http_method (re_options env), sr_url = url, sr_target = tgt,
                      sr_headers = request_headers (re_choose env w) r, sr_body = ro_data (re_options env),
                      sr_proxy = replay_proxy\<rparr> w of
                (Failure g i, w) \<Rightarrow> (Retry (async_failure g i url), w)
              | (Answer res elapsed, w) \<Rightarrow>
                  if h_status res = int proxy_authentication_required \<and> (using_proxy \<or> inherited res)
                  then (Retry (GiveUp (RequestException ''Proxy authentication required'')), w)
                  else (Done (async_response (re_codecs env) (re_sha256 env) (re_id env w) url res elapsed
                                (ro_capture_full (re_options env))), w)))"

definition async_request ::
  "'w req_env \<Rightarrow> (http_result \<Rightarrow> bool) \<Rightarrow> requester \<Rightarrow> string \<Rightarrow> string option \<Rightarrow> 'w \<Rightarrow> response result \<times> 'w" where
  "async_request env inherited r path replay_proxy w =
     request_loop (ro_max_retries (re_options env) + 1) (async_attempt env inherited r path replay_proxy) [] w"

definition parse_proxy :: "requester \<Rightarrow> string \<Rightarrow> string option result" where
  "parse_proxy r proxy = (if proxy = [] then Inr None else rbind (proxy_url r proxy) (\<lambda>p. Inr (Some p)))"

section \<open>The rate is kept\<close>

text \<open>The times at which requests were let go, with the limiter's own record.\<close>

definition poll :: "int \<Rightarrow> rat \<Rightarrow> rat list \<times> rat list \<Rightarrow> rat list \<times> rat list" where
  "poll max_rate now st =
     (case reserve max_rate now (snd st) of
        (None, stamps) \<Rightarrow> (fst st @ [now], stamps)
      | (Some _, stamps) \<Rightarrow> (fst st, stamps))"

definition in_window :: "rat \<Rightarrow> rat list \<Rightarrow> nat" where
  "in_window x granted = length (filter (\<lambda>t. x - rate_window_seconds < t \<and> t \<le> x) granted)"

definition limiter_inv :: "int \<Rightarrow> rat \<Rightarrow> rat list \<times> rat list \<Rightarrow> bool" where
  "limiter_inv max_rate now st \<longleftrightarrow>
     sorted (fst st) \<and> (\<forall>t \<in> set (fst st). t \<le> now) \<and>
     snd st = filter (\<lambda>t. now - rate_window_seconds < t) (fst st) \<and>
     (\<forall>x. int (in_window x (fst st)) \<le> max_rate)"

lemma dropWhile_sorted: "sorted ts \<Longrightarrow> dropWhile (\<lambda>t. t \<le> c) ts = filter (\<lambda>t. c < t) (ts :: rat list)"
proof (induction ts)
  case (Cons t ts)
  show ?case
  proof (cases "t \<le> c")
    case False
    with Cons.prems have "\<forall>u \<in> set (t # ts). c < u" by auto
    then show ?thesis using False by (metis dropWhile.simps(2) filter_True)
  qed (use Cons in auto)
qed simp

lemma filter_length_mono: "(\<And>x. P x \<Longrightarrow> Q x) \<Longrightarrow> length (filter P xs) \<le> length (filter Q xs)"
  by (induction xs) auto

lemma dropWhile_full: "length xs \<le> length (dropWhile P xs) \<Longrightarrow> dropWhile P xs = xs"
proof (cases xs)
  case (Cons x ys)
  moreover assume "length xs \<le> length (dropWhile P xs)"
  ultimately show ?thesis using length_dropWhile_le [of P ys] by (cases "P x") simp_all
qed simp

lemma discard_filter:
  assumes "limiter_inv m now st" and "now \<le> now'"
  shows "discard_expired now' (snd st) = filter (\<lambda>t. now' - rate_window_seconds < t) (fst st)"
proof -
  have "sorted (snd st)" using assms(1) by (auto simp: limiter_inv_def intro: sorted_wrt_filter)
  then have "discard_expired now' (snd st) = filter (\<lambda>t. now' - rate_window_seconds < t) (snd st)"
    by (simp add: discard_expired_def dropWhile_sorted)
  also have "\<dots> = filter (\<lambda>t. now' - rate_window_seconds < t) (fst st)"
    using assms by (auto simp: limiter_inv_def intro!: filter_cong)
  finally show ?thesis .
qed

lemma poll_inv:
  assumes inv: "limiter_inv m now st" and "now \<le> now'" and "0 < m"
  shows "limiter_inv m now' (poll m now' st)"
proof (cases "int (length (filter (\<lambda>t. now' - rate_window_seconds < t) (fst st))) < m")
  case True
  let ?g = "fst st @ [now']"
  have "poll m now' st = (?g, filter (\<lambda>t. now' - rate_window_seconds < t) (fst st) @ [now'])"
    using True discard_filter [OF inv \<open>now \<le> now'\<close>] by (simp add: poll_def reserve_def)
  moreover have "int (in_window x ?g) \<le> m" for x
  proof (cases "now' \<le> x \<and> x - rate_window_seconds < now'")
    case True
    have "length (filter (\<lambda>t. x - rate_window_seconds < t \<and> t \<le> x) (fst st)) \<le>
        length (filter (\<lambda>t. now' - rate_window_seconds < t) (fst st))"
      using True by (intro filter_length_mono) auto
    with True \<open>int (length _) < m\<close> show ?thesis by (simp add: in_window_def)
  next
    case False
    with inv show ?thesis by (auto simp: limiter_inv_def in_window_def)
  qed
  moreover have "sorted ?g" "\<forall>t \<in> set ?g. t \<le> now'"
    using inv \<open>now \<le> now'\<close> by (auto simp: limiter_inv_def sorted_append)
  ultimately show ?thesis by (simp add: limiter_inv_def rate_window_seconds_def)
next
  case False
  then have "poll m now' st = (fst st, filter (\<lambda>t. now' - rate_window_seconds < t) (fst st))"
    using discard_filter [OF inv \<open>now \<le> now'\<close>] \<open>0 < m\<close> by (simp add: poll_def reserve_def Let_def)
  with inv \<open>now \<le> now'\<close> show ?thesis by (auto simp: limiter_inv_def)
qed

lemma polls_inv:
  "sorted (now # polls) \<Longrightarrow> limiter_inv m now st \<Longrightarrow> 0 < m \<Longrightarrow>
     limiter_inv m (last (now # polls)) (fold (poll m) polls st)"
proof (induction polls arbitrary: now st)
  case (Cons p polls)
  from Cons.IH [of p "poll m p st"] poll_inv [OF Cons.prems(2) _ Cons.prems(3), of p] Cons.prems show ?case by simp
qed simp

lemma limiter_start: "0 < m \<Longrightarrow> limiter_inv m now ([], [])"
  by (simp add: limiter_inv_def in_window_def)

section \<open>Waiting ends\<close>

lemma reserve_waits:
  assumes "reserve m now ts = (Some d, ts')"
  shows "ts' = discard_expired now ts" and "d = max 0 (hd ts' + rate_window_seconds - now)" and "int (length ts') \<ge> m"
    and "0 < m"
  using assms by (auto simp: reserve_def Let_def split: if_splits)

text \<open>After a refused poll, nothing but the clock changes until the oldest entry expires.\<close>

lemma wait_loop_ends:
  assumes sleep: "\<And>t d. t + d \<le> sleep t d"
  shows "length (discard_expired now ts) \<le> nat m \<Longrightarrow> 0 < m \<Longrightarrow> hd (discard_expired now ts) + 1 - now \<le> of_nat n / 10 \<Longrightarrow>
    wait_loop (Suc n) sleep m now ts \<noteq> None"
proof (induction n arbitrary: now ts)
  case 0
  let ?d = "discard_expired now ts"
  have "int (length ?d) < m"
  proof (rule ccontr)
    assume "\<not> int (length ?d) < m"
    with 0 have "?d \<noteq> []" by auto
    then have "\<not> hd ?d \<le> now - rate_window_seconds"
      using hd_dropWhile [of "\<lambda>t. t \<le> now - rate_window_seconds" ts] by (simp add: discard_expired_def)
    with 0 show False by (simp add: rate_window_seconds_def)
  qed
  then show ?case by (simp add: reserve_def)
next
  case (Suc n)
  show ?case
  proof (cases "reserve m now ts")
    case (Pair r ts')
    show ?thesis
    proof (cases r)
      case None
      with Pair show ?thesis by simp
    next
      case (Some d)
      note r = reserve_waits [OF Pair [unfolded Some]]
      have ne: "ts' \<noteq> []" using r(3,4) by auto
      let ?now = "sleep now (min d rate_wait_poll_seconds)"
      have adv: "now + min d rate_wait_poll_seconds \<le> ?now" by (rule sleep)
      have pos: "\<not> hd ts' \<le> now - rate_window_seconds"
        using ne hd_dropWhile [of "\<lambda>t. t \<le> now - rate_window_seconds" ts] by (simp add: r(1) discard_expired_def)
      then have "now \<le> ?now" using adv r(2) by (simp add: rate_wait_poll_seconds_def rate_window_seconds_def min_def split: if_splits)
      have len: "length (discard_expired ?now ts') \<le> nat m"
        using Suc.prems(1) length_dropWhile_le [of _ ts'] unfolding r(1) by (metis discard_expired_def le_trans)
      have "wait_loop (Suc n) sleep m ?now ts' \<noteq> None"
      proof (cases "int (length (discard_expired ?now ts')) < m")
        case True
        then show ?thesis by (simp add: reserve_def)
      next
        case False
        have "int (length ts') \<le> m" using Suc.prems(1,2) r(1) by simp
        with False have "discard_expired ?now ts' = ts'" unfolding discard_expired_def by (intro dropWhile_full) simp
        then have same: "hd (discard_expired ?now ts') = hd ts'" by simp
        have d: "d = hd ts' + 1 - now" using r(2) pos by (simp add: rate_window_seconds_def)
        have le: "d \<le> of_nat (Suc n) / 10" using Suc.prems(3) d by (simp add: r(1))
        have "hd ts' + 1 - ?now \<le> of_nat n / 10"
        proof (cases "d \<le> 1 / 10")
          case True
          with adv have "now + d \<le> ?now" by (simp add: rate_wait_poll_seconds_def)
          with d have "hd ts' + 1 - ?now \<le> 0" by simp
          also have "(0 :: rat) \<le> of_nat n / 10" by simp
          finally show ?thesis .
        next
          case False
          with adv have "now + 1 / 10 \<le> ?now" by (simp add: rate_wait_poll_seconds_def min_def)
          with le d show ?thesis by (simp add: field_simps)
        qed
        with Suc.IH [OF len Suc.prems(2)] same show ?thesis by simp
      qed
      with Pair Some show ?thesis by simp
    qed
  qed
qed

section \<open>Failures\<close>

definition request_failure :: "failure \<Rightarrow> bool" where
  "request_failure f \<longleftrightarrow> (case f of TryAgain _ \<Rightarrow> True | GiveUp e \<Rightarrow> \<exists>msg. e = RequestException msg)"

lemma request_failure_simps [simp]:
  "request_failure (TryAgain msg)" "request_failure (GiveUp (RequestException msg))"
  by (simp_all add: request_failure_def)

lemma failures_named:
  assumes "netloc_of url = Inr n"
  shows "request_failure (sync_failure g i url proxy)" and "request_failure (async_failure g i url)"
  using assms by (simp_all add: sync_failure_def async_failure_def proxy_failure_def cannot_connect_def Let_def)

definition attempt_ok :: "attempt \<Rightarrow> bool" where
  "attempt_ok a \<longleftrightarrow> (case a of Done _ \<Rightarrow> True | Retry f \<Rightarrow> request_failure f)"

lemma attempts_ok:
  assumes "netloc_of (rq_url r @ safequote (request_path r path)) = Inr n"
  shows "attempt_ok (fst (sync_attempt env r path proxy w))" and "attempt_ok (fst (async_attempt env inherited r path rp w))"
  using failures_named [OF assms]
  by (simp_all add: sync_attempt_def async_attempt_def attempt_ok_def Let_def split: sum.split prod.split sent_outcome.split)

lemma attempts_send_once:
  assumes "\<And>req w. sends (snd (re_send env req w)) = Suc (sends w)"
  shows "sends (snd (sync_attempt env r path proxy w)) \<le> Suc (sends w)"
    and "sends (snd (async_attempt env inherited r path rp w)) \<le> Suc (sends w)"
proof -
  have s: "re_send env req w = (x, w') \<Longrightarrow> sends w' = Suc (sends w)" for req x w w'
    using assms [of req w] by simp
  then show "sends (snd (sync_attempt env r path proxy w)) \<le> Suc (sends w)"
    "sends (snd (async_attempt env inherited r path rp w)) \<le> Suc (sends w)"
    by (auto simp: sync_attempt_def async_attempt_def Let_def split: sum.split prod.split sent_outcome.split)
qed

lemma request_loop_ok:
  assumes ok: "\<And>w. attempt_ok (fst (attempt w))" and sends: "\<And>w. sends (snd (attempt w)) \<le> Suc (sends w)"
  shows "(\<forall>e. fst (request_loop n attempt msg w) = Inl e \<longrightarrow> (\<exists>m. e = RequestException m)) \<and>
    sends (snd (request_loop n attempt msg w)) \<le> sends w + n"
proof (induction n arbitrary: msg w)
  case (Suc n)
  obtain a w1 where a: "attempt w = (a, w1)" by fastforce
  have o: "attempt_ok a" "sends w1 \<le> Suc (sends w)" using ok [of w] sends [of w] a by simp_all
  show ?case
  proof (cases a)
    case (Retry f)
    show ?thesis
    proof (cases f)
      case (TryAgain m)
      with Suc.IH [of m w1] a o Retry show ?thesis by auto
    next
      case (GiveUp e)
      with a o Retry show ?thesis by (auto simp: attempt_ok_def request_failure_def)
    qed
  qed (use a o in simp)
qed simp

section \<open>A run\<close>

definition plain_options :: req_options where
  "plain_options = \<lparr>ro_proxies = [], ro_proxy_auth = [], ro_headers = [], ro_auth = [], ro_auth_type = [], ro_data = [],
     ro_random_agents = False, ro_max_rate = 2, ro_max_retries = 1, ro_http_method = ''GET'', ro_capture_full = False\<rparr>"

definition plain_requester :: requester where
  "plain_requester = \<lparr>rq_url = ''http://h/'', rq_query = [], rq_overrides = [], rq_stamps = [], rq_proxy_cred = [],
     rq_headers = [], rq_agents = [], rq_auth = None, rq_configured_auth = None\<rparr>"

text \<open>Nobody answers; the world counts the requests.\<close>

definition dead_env :: "nat req_env" where
  "dead_env = \<lparr>re_options = plain_options, re_codecs = fl_codecs demo_lib, re_sha256 = id, re_choose = (\<lambda>_. hd),
     re_send = (\<lambda>_ w. (Failure [] 0, Suc w)), re_id = id\<rparr>"

section \<open>Properties\<close>

text \<open>C23: the rate limit is kept: however often and however closely requests ask to go, no window of one
  second ever holds more of those that were let go than the maximum rate.\<close>
theorem rate_never_exceeded:
  assumes "sorted polls" and "0 < m"
  shows "int (in_window x (fst (fold (poll m) polls ([], [])))) \<le> m"
proof (cases polls)
  case Nil
  with \<open>0 < m\<close> show ?thesis by (simp add: in_window_def)
next
  case (Cons p ps)
  have "limiter_inv m (last (p # polls)) (fold (poll m) polls ([], []))"
    using polls_inv [OF _ limiter_start [OF \<open>0 < m\<close>] \<open>0 < m\<close>, of p polls] assms Cons by simp
  then show ?thesis by (simp add: limiter_inv_def)
qed

theorem rate_never_exceeded_witness:
  "int (in_window 1 (fst (fold (poll 2) [0, 1 / 4, 1 / 2, 1] ([], [])))) \<le> 2"
  by (rule rate_never_exceeded) simp_all

text \<open>The rate limit holds nobody back for long: a request that waits is let go after at most ten naps of a
  tenth of a second, when naps do not end early and no other request goes meanwhile.\<close>
theorem rate_limit_lets_through:
  assumes "sorted (polls @ [now])" and "0 < m" and "\<And>t d. t + d \<le> sleep t d"
  shows "\<exists>t stamps. wait_loop 11 sleep m now (snd (fold (poll m) polls ([], []))) = Some (t, stamps)"
proof -
  let ?st = "fold (poll m) polls ([], [])"
  obtain l where l: "limiter_inv m l ?st" "l \<le> now"
  proof (cases polls)
    case Nil
    with limiter_start [OF \<open>0 < m\<close>] that [of now] show thesis by simp
  next
    case (Cons p ps)
    have "limiter_inv m (last (p # polls)) ?st"
      using polls_inv [OF _ limiter_start [OF \<open>0 < m\<close>] \<open>0 < m\<close>, of p polls] assms(1) Cons by (simp add: sorted_append)
    moreover have "last (p # polls) \<le> now" using assms(1) Cons by (auto simp: sorted_append)
    ultimately show thesis by (rule that)
  qed
  let ?d = "discard_expired now (snd ?st)"
  have d: "?d = filter (\<lambda>t. now - rate_window_seconds < t) (fst ?st)" by (rule discard_filter [OF l])
  have all: "\<forall>t \<in> set (fst ?st). t \<le> now" using l by (auto simp: limiter_inv_def)
  then have "?d = filter (\<lambda>t. now - rate_window_seconds < t \<and> t \<le> now) (fst ?st)" unfolding d by (intro filter_cong) auto
  then have len: "int (length ?d) \<le> m" using l(1) by (simp add: limiter_inv_def in_window_def)
  show ?thesis
  proof (cases "?d = []")
    case True
    then show ?thesis using \<open>0 < m\<close> by (simp add: eval_nat_numeral reserve_def)
  next
    case False
    then have "hd ?d \<in> set (fst ?st)" using d hd_in_set [of ?d] by auto
    with all have "hd ?d + 1 - now \<le> of_nat 10 / 10" by simp
    with wait_loop_ends [of sleep now "snd ?st" m 10] assms(2,3) len show ?thesis
      by (simp add: eval_nat_numeral)
  qed
qed

theorem rate_limit_lets_through_witness:
  "\<exists>t stamps. wait_loop 11 (\<lambda>t d. t + d) 1 (1 / 4) (snd (fold (poll 1) [0] ([], []))) = Some (t, stamps)"
  by (rule rate_limit_lets_through) simp_all

text \<open>C24: whatever the HTTP library raises, the fuzzers only ever see a \<open>RequestException\<close>, after at most one
  request more than there are retries, if the URL can be parsed at all; in both modes.\<close>
theorem failures_become_request_exceptions:
  assumes "netloc_of (rq_url r @ safequote (request_path r path)) = Inr n"
    and "\<And>req w. sends (snd (re_send env req w)) = Suc (sends w)"
  shows "(\<forall>e. fst (request env r path proxy w) = Inl e \<longrightarrow> (\<exists>msg. e = RequestException msg)) \<and>
    sends (snd (request env r path proxy w)) \<le> sends w + ro_max_retries (re_options env) + 1 \<and>
    (\<forall>e. fst (async_request env inherited r path rp w) = Inl e \<longrightarrow> (\<exists>msg. e = RequestException msg)) \<and>
    sends (snd (async_request env inherited r path rp w)) \<le> sends w + ro_max_retries (re_options env) + 1"
  using request_loop_ok [of "sync_attempt env r path proxy" sends "ro_max_retries (re_options env) + 1" "[]" w,
      OF attempts_ok(1) [OF assms(1)] attempts_send_once(1) [of sends env, OF assms(2)]]
    request_loop_ok [of "async_attempt env inherited r path rp" sends "ro_max_retries (re_options env) + 1" "[]" w,
      OF attempts_ok(2) [OF assms(1)] attempts_send_once(2) [of sends env, OF assms(2)]]
  by (simp add: request_def async_request_def)

theorem failures_become_request_exceptions_witness:
  "snd (request dead_env plain_requester ''a'' [] 0) \<le> Suc (Suc 0)"
proof -
  have "netloc_of (rq_url plain_requester @ safequote (request_path plain_requester ''a'')) = Inr ''h''" by code_simp
  moreover have "id (snd (re_send dead_env req w)) = Suc (id w)" for req w by (simp add: dead_env_def)
  moreover have "ro_max_retries (re_options dead_env) = 1" by (simp add: dead_env_def plain_options_def)
  ultimately show ?thesis
    using failures_become_request_exceptions [of plain_requester "''a''" "''h''" id dead_env "[]" 0] by simp
qed

end
