(* ===== verification/Cmdline.thy ===== *)
theory Cmdline
  imports Session
begin

text \<open>
  The command line, \<open>lib/parse/cmdline.py\<close>: the tables of its options group by group, the parser
  with its \<open>-hh\<close>, the two help texts as lists of groups with their options, and
  \<open>parse_arguments\<close>.  The options' values are a map from destinations to Python values.  What the
  code uses of \<open>optparse\<close> is modelled: long options with and without \<open>=\<close> and their
  abbreviations, clusters of short options, integers in other bases, \<open>--\<close>; a wrong command line
  exits with status 2, a help text with status 0.
\<close>

section \<open>Options\<close>

datatype action =
    StoreText | StoreInt | StoreFloat | StoreTrue | StoreFalse | AppendText | ShowCommon | ShowAll | ShowVersion

record cli_option =
  co_flags :: "string list"
  co_action :: action
  co_dest :: string
  co_default :: "pyval option"

type_synonym opt_values = "string \<Rightarrow> pyval"

definition opt :: "string list \<Rightarrow> action \<Rightarrow> string \<Rightarrow> cli_option" where
  "opt flags action dest = \<lparr>co_flags = flags, co_action = action, co_dest = dest, co_default = None\<rparr>"

definition takes_value :: "cli_option \<Rightarrow> bool" where
  "takes_value q \<longleftrightarrow> co_action q \<in> {StoreText, StoreInt, StoreFloat, AppendText}"

section \<open>The tables\<close>

text \<open>The parser adds \<open>--version\<close> itself.\<close>

definition parser_options :: "cli_option list" where
  "parser_options =
     [opt [''--version''] ShowVersion '''',
      opt [''-h'', ''--help''] ShowCommon '''',
      opt [''--help-all''] ShowAll '''']"

definition mandatory_options :: "string \<Rightarrow> cli_option list" where
  "mandatory_options config_file =
     [opt [''-u'', ''--url''] AppendText ''urls'',
      opt [''-l'', ''--urls-file''] StoreText ''urls_file'',
      opt [''--stdin''] StoreTrue ''stdin_urls'',
      opt [''--cidr''] StoreText ''cidr'',
      opt [''--raw''] StoreText ''raw_file'',
      opt [''--nmap-report''] StoreText ''nmap_report'',
      opt [''-s'', ''--session''] StoreText ''session_file'',
      opt [''--session-id''] StoreText ''session_id'',
      (opt [''--config''] StoreText ''config'')\<lparr>co_default := Some (PyStr config_file)\<rparr>]"

definition dictionary_options :: "cli_option list" where
  "dictionary_options =
     [opt [''-w'', ''--wordlists''] StoreText ''wordlists'',
      opt [''--wordlist-categories''] StoreText ''wordlist_categories'',
      opt [''--wordlist-backend''] StoreText ''wordlist_backend'',
      opt [''--wordlist-status''] StoreTrue ''wordlist_status'',
      opt [''--wordlist-max-size''] StoreInt ''wordlist_max_size'',
      opt [''-e'', ''--extensions''] StoreText ''extensions'',
      opt [''-f'', ''--force-extensions''] StoreTrue ''force_extensions'',
      opt [''--overwrite-extensions''] StoreTrue ''overwrite_extensions'',
      opt [''--exclude-extensions''] StoreText ''exclude_extensions'',
      opt [''--prefixes''] StoreText ''prefixes'',
      opt [''--suffixes''] StoreText ''suffixes'',
      opt [''-U'', ''--uppercase''] StoreTrue ''uppercase'',
      opt [''-L'', ''--lowercase''] StoreTrue ''lowercase'',
      opt [''-C'', ''--capital''] StoreTrue ''capital'']"

definition general_options :: "cli_option list" where
  "general_options =
     [opt [''-t'', ''--threads''] StoreInt ''thread_count'',
      opt [''--list-sessions''] StoreTrue ''list_sessions'',
      opt [''--sessions-dir''] StoreText ''sessions_dir'',
      opt [''-a'', ''--async''] StoreTrue ''async_mode'',
      opt [''--sync'', ''--no-async''] StoreFalse ''async_mode'',
      opt [''-r'', ''--recursive''] StoreTrue ''recursive'',
      opt [''--deep-recursive''] StoreTrue ''deep_recursive'',
      opt [''--force-recursive''] StoreTrue ''force_recursive'',
      opt [''-R'', ''--max-recursion-depth''] StoreInt ''recursion_depth'',
      opt [''--recursion-status''] StoreText ''recursion_status_codes'',
      opt [''--filter-threshold''] StoreInt ''filter_threshold'',
      opt [''--subdirs''] StoreText ''subdirs'',
      opt [''--exclude-subdirs''] StoreText ''exclude_subdirs'',
      opt [''-i'', ''--include-status''] StoreText ''include_status_codes'',
      opt [''-x'', ''--exclude-status''] StoreText ''exclude_status_codes'',
      opt [''--exclude-sizes''] StoreText ''exclude_sizes'',
      opt [''--exclude-text''] AppendText ''exclude_texts'',
      opt [''--exclude-regex''] StoreText ''exclude_regex'',
      opt [''--exclude-redirect''] StoreText ''exclude_redirect'',
      opt [''--exclude-response''] StoreText ''exclude_response'',
      opt [''--skip-on-status''] StoreText ''skip_on_status'',
      (opt [''--min-response-size''] StoreText ''minimum_response_size'')\<lparr>co_default := Some (PyInt 0)\<rparr>,
      (opt [''--max-response-size''] StoreText ''maximum_response_size'')\<lparr>co_default := Some (PyInt 0)\<rparr>,
      opt [''--max-time''] StoreInt ''max_time'',
      opt [''--target-max-time''] StoreInt ''target_max_time'',
      opt [''--exit-on-error''] StoreTrue ''exit_on_error'']"

definition advanced_filtering_options :: "cli_option list" where
  "advanced_filtering_options =
     [opt [''--auto-calibration''] StoreTrue ''auto_calibration'',
      opt [''--matcher-mode'', ''--mmode''] StoreText ''matcher_mode'',
      opt [''--filter-mode'', ''--fmode''] StoreText ''filter_mode'',
      opt [''--match-status'', ''--mc''] StoreText ''match_status_codes'',
      opt [''--filter-status'', ''--fc''] StoreText ''filter_status_codes'',
      opt [''--match-size'', ''--ms''] StoreText ''match_sizes'',
      opt [''--filter-size'', ''--fs''] StoreText ''filter_sizes'',
      opt [''--match-words'', ''--mw''] StoreText ''match_words'',
      opt [''--filter-words'', ''--fw''] StoreText ''filter_words'',
      opt [''--match-lines'', ''--ml''] StoreText ''match_lines'',
      opt [''--filter-lines'', ''--fl''] StoreText ''filter_lines'',
      opt [''--match-regex'', ''--mr''] StoreText ''match_regex'',
      opt [''--filter-regex'', ''--fr''] StoreText ''filter_regex'',
      opt [''--match-header''] AppendText ''match_headers'',
      opt [''--filter-header''] AppendText ''filter_headers'',
      opt [''--match-header-regex''] StoreText ''match_header_regex'',
      opt [''--filter-header-regex''] StoreText ''filter_header_regex'',
      opt [''--match-time'', ''--mt''] StoreText ''match_time'',
      opt [''--filter-time'', ''--ft''] StoreText ''filter_time'']"

definition request_options :: "cli_option list" where
  "request_options =
     [opt [''-m'', ''--http-method''] StoreText ''http_method'',
      opt [''--request-backend''] StoreText ''request_backend'',
      opt [''-d'', ''--data''] StoreText ''data'',
      opt [''--data-file''] StoreText ''data_file'',
      opt [''-H'', ''--header''] AppendText ''headers'',
      opt [''--headers-file''] StoreText ''headers_file'',
      opt [''-F'', ''--follow-redirects''] StoreTrue ''follow_redirects'',
      opt [''--random-agent''] StoreTrue ''random_agents'',
      opt [''--auth''] StoreText ''auth'',
      opt [''--auth-type''] StoreText ''auth_type'',
      opt [''--cert-file''] StoreText ''cert_file'',
      opt [''--key-file''] StoreText ''key_file'',
      opt [''--user-agent''] StoreText ''user_agent'',
      opt [''--cookie''] StoreText ''cookie'']"

definition connection_options :: "cli_option list" where
  "connection_options =
     [opt [''--timeout''] StoreFloat ''timeout'',
      opt [''--delay''] StoreFloat ''delay'',
      opt [''-p'', ''--proxy''] AppendText ''proxies'',
      opt [''--proxies-file''] StoreText ''proxies_file'',
      opt [''--proxy-auth''] StoreText ''proxy_auth'',
      opt [''--replay-proxy''] StoreText ''replay_proxy'',
      opt [''--tor''] StoreTrue ''tor'',
      opt [''--scheme''] StoreText ''scheme'',
      opt [''--max-rate''] StoreInt ''max_rate'',
      opt [''--retries''] StoreInt ''max_retries'',
      opt [''--ip''] StoreText ''ip'',
      opt [''--interface''] StoreText ''network_interface'']"

definition advanced_options :: "cli_option list" where
  "advanced_options =
     [opt [''--crawl''] StoreTrue ''crawl'',
      opt [''--find-backup''] StoreTrue ''find_backup'']"

definition view_options :: "cli_option list" where
  "view_options =
     [opt [''--full-url''] StoreTrue ''full_url'',
      opt [''--redirects-history''] StoreTrue ''redirects_history'',
      opt [''--no-color''] StoreFalse ''color'',
      opt [''-q'', ''--quiet-mode''] StoreTrue ''quiet'',
      opt [''--disable-cli''] StoreTrue ''disable_cli'',
      opt [''-v'', ''--verbose''] StoreTrue ''verbose'']"

definition output_options :: "cli_option list" where
  "output_options =
     [opt [''-O'', ''--output-formats''] StoreText ''output_formats'',
      opt [''-o'', ''--output-file''] StoreText ''output_file'',
      opt [''--sqlite-commit-batch-size''] StoreInt ''sqlite_commit_batch_size'',
      opt [''--mysql-url''] StoreText ''mysql_url'',
      opt [''--postgres-url''] StoreText ''postgres_url'',
      opt [''--save-response''] StoreText ''save_response'',
      opt [''--save-response-jsonl''] StoreText ''save_response_jsonl'',
      opt [''--log''] StoreText ''log_file'']"

text \<open>The groups in the order they are added to the parser.\<close>

definition option_groups :: "string \<Rightarrow> (string \<times> cli_option list) list" where
  "option_groups config_file =
     [(''Mandatory'', mandatory_options config_file), (''Dictionary Settings'', dictionary_options),
      (''General Settings'', general_options), (''Advanced Filtering'', advanced_filtering_options),
      (''Request Settings'', request_options), (''Connection Settings'', connection_options),
      (''Advanced Settings'', advanced_options), (''View Settings'', view_options), (''Output Settings'', output_options)]"

definition iter_options :: "string \<Rightarrow> cli_option list" where
  "iter_options config_file = parser_options @ concat (map snd (option_groups config_file))"

section \<open>Help\<close>

text \<open>A set in the code, listed here in the order of the tables.\<close>

definition common_help_options :: "string list" where
  "common_help_options =
     [''--version'', ''--help'', ''--help-all'', ''--url'', ''--urls-file'', ''--stdin'',
      ''--cidr'', ''--raw'', ''--session'', ''--config'', ''--wordlists'',
      ''--wordlist-categories'', ''--extensions'', ''--force-extensions'',
      ''--exclude-extensions'', ''--prefixes'', ''--suffixes'', ''--threads'', ''--async'',
      ''--no-async'', ''--recursive'', ''--max-recursion-depth'', ''--recursion-status'',
      ''--include-status'', ''--exclude-status'', ''--exclude-sizes'', ''--exclude-text'',
      ''--exclude-regex'', ''--exclude-redirect'', ''--max-time'', ''--target-max-time'',
      ''--http-method'', ''--data'', ''--header'', ''--follow-redirects'',
      ''--random-agent'', ''--auth'', ''--auth-type'', ''--user-agent'', ''--cookie'',
      ''--timeout'', ''--delay'', ''--proxy'', ''--tor'', ''--scheme'', ''--max-rate'',
      ''--retries'', ''--crawl'', ''--full-url'', ''--no-color'', ''--quiet-mode'',
      ''--verbose'', ''--output-formats'', ''--output-file'', ''--save-response'',
      ''--save-response-jsonl'', ''--log'']"

definition is_common_help_option :: "cli_option \<Rightarrow> bool" where
  "is_common_help_option q \<longleftrightarrow> set common_help_options \<inter> set (co_flags q) \<noteq> {}"

text \<open>The help texts, as the parser's own options and the groups with theirs.\<close>

type_synonym help_page = "cli_option list \<times> (string \<times> cli_option list) list"

definition build_common_help_parser :: "string \<Rightarrow> help_page result" where
  "build_common_help_parser config_file =
     (let missing = filter (\<lambda>f. f \<notin> set (concat (map co_flags (iter_options config_file)))) common_help_options in
      if missing \<noteq> [] then Inl (RuntimeError (''Unknown common help options: '' @ join '', '' (sort missing)))
      else Inr (filter is_common_help_option parser_options,
                filter (\<lambda>(_, os). os \<noteq> [])
                  (map (\<lambda>(title, os). (title, filter is_common_help_option os)) (option_groups config_file))))"

text \<open>What a help action prints before it exits.\<close>

definition show_common_help :: "string \<Rightarrow> help_page result" where
  "show_common_help config_file = build_common_help_parser config_file"

definition show_all_help :: "string \<Rightarrow> help_page result" where
  "show_all_help config_file = Inr (parser_options, option_groups config_file)"

section \<open>Values\<close>

definition cli_error :: exc where
  "cli_error = SystemExit ''2''"

definition digit_in :: "nat \<Rightarrow> char \<Rightarrow> nat option" where
  "digit_in radix c =
     (let d = (if is_digit c then digit_val c
               else if is_lower (lower_char c) then code (lower_char c) - 87 else radix)
      in if d < radix then Some d else None)"

fun read_radix :: "nat \<Rightarrow> nat \<Rightarrow> bool \<Rightarrow> string \<Rightarrow> nat option" where
  "read_radix radix acc after_digit [] = (if after_digit then Some acc else None)"
| "read_radix radix acc after_digit (c # s) =
     (case digit_in radix c of
        Some d \<Rightarrow> read_radix radix (radix * acc + d) True s
      | None \<Rightarrow> if c = CHR ''_'' \<and> after_digit then read_radix radix acc False s else None)"

text \<open>\<open>optparse\<close> reads an integer by its prefix: \<open>0x\<close>, \<open>0b\<close>, a leading \<open>0\<close> for octal, which the octal
  reader also takes as \<open>0o\<close>; after a prefix an underscore may follow.\<close>

definition parse_num :: "string \<Rightarrow> int option" where
  "parse_num val =
     (let low = lower (take 2 val); body = (\<lambda>s. if starts_with s [CHR ''_''] then tl s else s) in
      if low = ''0x'' then map_option int (read_radix 16 0 False (body (rstrip_p is_space (drop 2 val))))
      else if low = ''0b''
      then (let v = (if drop 2 val = [] then ''0'' else drop 2 val);
                (neg, s) = signed (strip v);
                s = (if lower (take 2 s) = ''0b'' then body (drop 2 s) else s)
            in map_option (\<lambda>n. if neg then - int n else int n) (read_radix 2 0 False s))
      else if starts_with val [CHR ''0'']
      then map_option int (read_radix 8 0 False
             (rstrip_p is_space (if low = ''0o'' then body (drop 2 val) else val)))
      else py_int val)"

text \<open>\<open>Option.process\<close>: the value of an option that takes one is there.\<close>

definition process_option :: "cli_option \<Rightarrow> string \<Rightarrow> opt_values \<Rightarrow> opt_values result" where
  "process_option q value vs =
     (case co_action q of
        StoreText \<Rightarrow> Inr (vs(co_dest q := PyStr value))
      | StoreInt \<Rightarrow> (case parse_num value of None \<Rightarrow> Inl cli_error | Some i \<Rightarrow> Inr (vs(co_dest q := PyInt i)))
      | StoreFloat \<Rightarrow> (case py_float value of None \<Rightarrow> Inl cli_error | Some x \<Rightarrow> Inr (vs(co_dest q := PyFloat x)))
      | StoreTrue \<Rightarrow> Inr (vs(co_dest q := PyBool True))
      | StoreFalse \<Rightarrow> Inr (vs(co_dest q := PyBool False))
      | AppendText \<Rightarrow>
          Inr (vs(co_dest q := PyList ((case vs (co_dest q) of PyList ws \<Rightarrow> ws | _ \<Rightarrow> []) @ [PyStr value])))
      | _ \<Rightarrow> Inl (SystemExit ''0''))"

definition cli_defaults :: "string \<Rightarrow> opt_values" where
  "cli_defaults config_file =
     fold (\<lambda>q vs. case co_default q of None \<Rightarrow> vs | Some x \<Rightarrow> vs(co_dest q := x)) (iter_options config_file) (\<lambda>_. PyNone)"

section \<open>Parsing\<close>

definition find_option :: "string \<Rightarrow> string \<Rightarrow> cli_option option" where
  "find_option config_file flag = List.find (\<lambda>q. flag \<in> set (co_flags q)) (iter_options config_file)"

definition long_flags :: "string \<Rightarrow> string list" where
  "long_flags config_file = filter (\<lambda>f. starts_with f ''--'') (concat (map co_flags (iter_options config_file)))"

definition match_abbrev :: "string \<Rightarrow> string list \<Rightarrow> string result" where
  "match_abbrev s words =
     (if s \<in> set words then Inr s
      else case filter (\<lambda>w. starts_with w s) words of [w] \<Rightarrow> Inr w | _ \<Rightarrow> Inl cli_error)"

definition find_long :: "string \<Rightarrow> string \<Rightarrow> cli_option result" where
  "find_long config_file flag =
     rbind (match_abbrev flag (long_flags config_file)) (\<lambda>name.
       case find_option config_file name of None \<Rightarrow> Inl cli_error | Some q \<Rightarrow> Inr q)"

text \<open>\<open>_process_long_opt\<close> and \<open>_process_short_opts\<close>: the arguments left and the values.\<close>

definition process_long_opt :: "string \<Rightarrow> string \<Rightarrow> string list \<Rightarrow> opt_values \<Rightarrow> (string list \<times> opt_values) result" where
  "process_long_opt config_file arg rargs vs =
     (let (flag, eq, given) = partition ''='' arg in
      rbind (find_long config_file flag) (\<lambda>q.
        if takes_value q
        then (if eq \<noteq> [] then rbind (process_option q given vs) (\<lambda>vs. Inr (rargs, vs))
              else case rargs of
                     [] \<Rightarrow> Inl cli_error
                   | v # rargs \<Rightarrow> rbind (process_option q v vs) (\<lambda>vs. Inr (rargs, vs)))
        else if eq \<noteq> [] then Inl cli_error
        else rbind (process_option q [] vs) (\<lambda>vs. Inr (rargs, vs))))"

fun process_cluster :: "string \<Rightarrow> string \<Rightarrow> string list \<Rightarrow> opt_values \<Rightarrow> (string list \<times> opt_values) result" where
  "process_cluster config_file [] rargs vs = Inr (rargs, vs)"
| "process_cluster config_file (ch # cs) rargs vs =
     (case find_option config_file [CHR ''-'', ch] of
        None \<Rightarrow> Inl cli_error
      | Some q \<Rightarrow>
          if takes_value q
          then (if cs \<noteq> [] then rbind (process_option q cs vs) (\<lambda>vs. Inr (rargs, vs))
                else case rargs of
                       [] \<Rightarrow> Inl cli_error
                     | v # rargs \<Rightarrow> rbind (process_option q v vs) (\<lambda>vs. Inr (rargs, vs)))
          else rbind (process_option q [] vs) (process_cluster config_file cs rargs))"

definition process_short_opts :: "string \<Rightarrow> string \<Rightarrow> string list \<Rightarrow> opt_values \<Rightarrow> (string list \<times> opt_values) result" where
  "process_short_opts config_file arg rargs vs =
     (if arg = ''-hh'' then process_long_opt config_file ''--help-all'' rargs vs
      else process_cluster config_file (tl arg) rargs vs)"

lemma long_opt_shorter: "process_long_opt cf arg rargs vs = Inr (rargs', vs') \<Longrightarrow> length rargs' \<le> length rargs"
  by (auto simp: process_long_opt_def rbind_eq_Inr split: prod.splits if_splits list.splits)

lemma cluster_shorter: "process_cluster cf cs rargs vs = Inr (rargs', vs') \<Longrightarrow> length rargs' \<le> length rargs"
  by (induction cf cs rargs vs rule: process_cluster.induct)
     (auto simp: rbind_eq_Inr split: option.splits if_splits list.splits)

lemma short_opts_shorter: "process_short_opts cf arg rargs vs = Inr (rargs', vs') \<Longrightarrow> length rargs' \<le> length rargs"
  by (auto simp: process_short_opts_def dest: long_opt_shorter cluster_shorter split: if_splits)

function process_args :: "string \<Rightarrow> string list \<Rightarrow> string list \<Rightarrow> opt_values \<Rightarrow> (string list \<times> opt_values) result" where
  "process_args config_file [] largs vs = Inr (largs, vs)"
| "process_args config_file (arg # rargs) largs vs =
     (if arg = ''--'' then Inr (largs @ rargs, vs)
      else if starts_with arg ''--''
      then rbind (process_long_opt config_file arg rargs vs) (\<lambda>(rargs, vs). process_args config_file rargs largs vs)
      else if starts_with arg ''-'' \<and> 1 < length arg
      then rbind (process_short_opts config_file arg rargs vs) (\<lambda>(rargs, vs). process_args config_file rargs largs vs)
      else process_args config_file rargs (largs @ [arg]) vs)"
  by pat_completeness auto

termination
  by (relation "measure (\<lambda>(_, args, _, _). length args)")
     (auto dest: long_opt_shorter short_opts_shorter)

definition parse_arguments :: "string \<Rightarrow> string list \<Rightarrow> opt_values result" where
  "parse_arguments config_file arguments =
     rbind (process_args config_file arguments [] (cli_defaults config_file)) (\<lambda>(positional, vs).
       if positional \<noteq> [] then Inl cli_error else Inr vs)"

section \<open>Facts about the tables\<close>

definition all_flags :: "string list" where
  "all_flags = concat (map co_flags (iter_options []))"

lemmas table_defs = iter_options_def option_groups_def parser_options_def mandatory_options_def dictionary_options_def
  general_options_def advanced_filtering_options_def request_options_def connection_options_def advanced_options_def
  view_options_def output_options_def opt_def

lemma flags_anywhere: "map co_flags (iter_options cf) = map co_flags (iter_options [])"
  by (simp add: iter_options_def option_groups_def mandatory_options_def opt_def)

lemma dests_anywhere: "map (\<lambda>q. (co_action q, co_dest q)) (iter_options cf) = map (\<lambda>q. (co_action q, co_dest q)) (iter_options [])"
  by (simp add: iter_options_def option_groups_def mandatory_options_def opt_def)

lemma flags_cf: "concat (map co_flags (iter_options cf)) = all_flags"
  unfolding all_flags_def flags_anywhere [of cf] ..

definition flag_number :: "string \<Rightarrow> nat" where
  "flag_number s = foldl (\<lambda>n c. 128 * n + of_char c) 0 s"

lemma distinct_flags: "distinct all_flags"
proof -
  have "distinct (map flag_number all_flags)"
    unfolding all_flags_def table_defs by (simp add: flag_number_def)
  then show ?thesis by (simp add: distinct_map)
qed

lemma flags_shape: "list_all (\<lambda>f. CHR ''='' \<notin> set f \<and> (starts_with f ''--'' \<or> length f = 2 \<and> hd f = CHR ''-'')) all_flags"
  by code_simp

lemma common_flags: "subseq common_help_options all_flags"
  by code_simp

lemma common_help_known: "\<exists>page. build_common_help_parser cf = Inr page"
proof -
  have "set common_help_options \<subseteq> set all_flags" using list_emb_set [OF common_flags] by blast
  then have "filter (\<lambda>f. f \<notin> set all_flags) common_help_options = []" by (auto simp: filter_empty_conv)
  then show ?thesis by (simp add: build_common_help_parser_def flags_cf Let_def)
qed

lemma common_help_shown:
  assumes "build_common_help_parser cf = Inr page"
  shows "fst page @ concat (map snd (snd page)) = filter is_common_help_option (iter_options cf)"
proof -
  have f: "concat (map snd (filter (\<lambda>(_, qs). qs \<noteq> []) gs)) = concat (map snd gs)" for gs :: "(string \<times> cli_option list) list"
    by (induction gs) auto
  have m: "concat (map snd (map (\<lambda>(t, qs). (t, filter P qs)) gs)) = filter P (concat (map snd gs))"
    for P and gs :: "(string \<times> cli_option list) list"
    by (induction gs) auto
  from assms have "page = (filter is_common_help_option parser_options,
      filter (\<lambda>(_, qs). qs \<noteq> []) (map (\<lambda>(t, qs). (t, filter is_common_help_option qs)) (option_groups cf)))"
    by (simp only: build_common_help_parser_def Let_def split: if_splits) simp_all
  then show ?thesis unfolding iter_options_def filter_append by (simp only: fst_conv snd_conv f m)
qed

lemma found_option: "find_option cf flag = Some q \<Longrightarrow> q \<in> set (iter_options cf) \<and> flag \<in> set (co_flags q)"
  by (auto simp: find_option_def find_Some_iff)

lemma found_long: "find_long cf flag = Inr q \<Longrightarrow> q \<in> set (iter_options cf)"
  by (auto simp: find_long_def rbind_eq_Inr dest: found_option split: option.splits)

section \<open>The types of the values\<close>

definition fits :: "action \<Rightarrow> pyval \<Rightarrow> bool" where
  "fits a x =
     (case x of
        PyStr _ \<Rightarrow> a = StoreText
      | PyInt _ \<Rightarrow> a = StoreInt
      | PyFloat _ \<Rightarrow> a = StoreFloat
      | PyBool b \<Rightarrow> a = (if b then StoreTrue else StoreFalse)
      | PyList xs \<Rightarrow> a = AppendText \<and> xs \<noteq> [] \<and> list_all (\<lambda>y. case y of PyStr _ \<Rightarrow> True | _ \<Rightarrow> False) xs
      | _ \<Rightarrow> False)"

definition dest_fits :: "string \<Rightarrow> string \<Rightarrow> pyval \<Rightarrow> bool" where
  "dest_fits config_file d x \<longleftrightarrow>
     x = cli_defaults config_file d \<or> list_ex (\<lambda>q. co_dest q = d \<and> fits (co_action q) x) (iter_options config_file)"

lemma fold_defaults:
  "list_all (\<lambda>q. case co_default q of Some (PyList _) \<Rightarrow> False | _ \<Rightarrow> True) qs \<Longrightarrow> vs d \<noteq> PyList xs \<Longrightarrow>
     fold (\<lambda>q vs. case co_default q of None \<Rightarrow> vs | Some x \<Rightarrow> vs(co_dest q := x)) qs vs d \<noteq> PyList xs"
proof (induction qs arbitrary: vs)
  case (Cons q qs)
  have "(case co_default q of None \<Rightarrow> vs | Some x \<Rightarrow> vs(co_dest q := x)) d \<noteq> PyList xs"
    using Cons.prems by (cases "co_default q") auto
  with Cons show ?case by simp
qed simp

lemma defaults_no_list: "cli_defaults cf d \<noteq> PyList xs"
  unfolding cli_defaults_def by (rule fold_defaults) (simp_all add: table_defs)

lemma process_option_fits:
  assumes "process_option q value vs = Inr vs'" "q \<in> set (iter_options cf)" "\<forall>d. dest_fits cf d (vs d)"
  shows "dest_fits cf d (vs' d)"
proof (cases "d = co_dest q")
  case False
  then have "vs' d = vs d" using assms(1) by (auto simp: process_option_def split: action.splits option.splits)
  with assms(3) show ?thesis by simp
next
  case True
  have prev: "list_all (\<lambda>y. case y of PyStr _ \<Rightarrow> True | _ \<Rightarrow> False) ws" if "vs d = PyList ws" for ws
    using assms(3) [rule_format, of d] that defaults_no_list [of cf d ws]
    by (auto simp: dest_fits_def fits_def list_ex_iff)
  have "fits (co_action q) (vs' d)"
    using assms(1) True prev
    by (cases "co_action q") (auto simp: process_option_def fits_def split: option.splits pyval.split)
  with True assms(2) show ?thesis by (auto simp: dest_fits_def list_ex_iff)
qed

lemma long_opt_fits:
  "process_long_opt cf arg rargs vs = Inr (rargs', vs') \<Longrightarrow> \<forall>d. dest_fits cf d (vs d) \<Longrightarrow> dest_fits cf d (vs' d)"
  unfolding process_long_opt_def
  by (auto simp: rbind_eq_Inr dest!: found_long split: prod.splits if_splits list.splits elim: process_option_fits)

lemma cluster_fits:
  "process_cluster cf cs rargs vs = Inr (rargs', vs') \<Longrightarrow> \<forall>d. dest_fits cf d (vs d) \<Longrightarrow> dest_fits cf d (vs' d)"
proof (induction cf cs rargs vs rule: process_cluster.induct)
  case (2 cf ch cs rargs vs)
  from 2(2) obtain q where q: "find_option cf [CHR ''-'', ch] = Some q" by (auto split: option.splits)
  note mem = conjunct1 [OF found_option [OF q]]
  show ?case
  proof (cases "takes_value q")
    case True
    with 2(2,3) q show ?thesis
      by (auto simp: rbind_eq_Inr split: if_splits list.splits elim: process_option_fits [OF _ mem])
  next
    case False
    with 2(2) q obtain vs1 where vs1: "process_option q [] vs = Inr vs1" "process_cluster cf cs rargs vs1 = Inr (rargs', vs')"
      by (auto simp: rbind_eq_Inr)
    have "\<forall>d. dest_fits cf d (vs1 d)" using process_option_fits [OF vs1(1) mem 2(3)] by blast
    then show ?thesis using 2(1) [OF q False] vs1 by simp
  qed
qed simp

lemma args_fit:
  "process_args cf args largs vs = Inr (largs', vs') \<Longrightarrow> \<forall>d. dest_fits cf d (vs d) \<Longrightarrow> dest_fits cf d (vs' d)"
proof (induction cf args largs vs rule: process_args.induct)
  case (2 cf arg rargs largs vs)
  have short: "process_short_opts cf arg rargs vs = Inr (r, w) \<Longrightarrow> \<forall>d. dest_fits cf d (w d)" for r w
    using 2(5) long_opt_fits cluster_fits unfolding process_short_opts_def by (metis (full_types))
  have long: "process_long_opt cf arg rargs vs = Inr (r, w) \<Longrightarrow> \<forall>d. dest_fits cf d (w d)" for r w
    using 2(5) long_opt_fits by blast
  show ?case using 2(1-5) short long by (auto simp: rbind_eq_Inr split: if_splits prod.splits)
qed simp

section \<open>Long options are read back\<close>

text \<open>A long option with the value it is given, if it takes one.\<close>

type_synonym setting = "string \<times> string option"

definition render_setting :: "setting \<Rightarrow> string" where
  "render_setting s = (case s of (flag, Some v) \<Rightarrow> flag @ ''='' @ v | (flag, None) \<Rightarrow> flag)"

definition setting_ok :: "string \<Rightarrow> setting \<Rightarrow> bool" where
  "setting_ok config_file s \<longleftrightarrow>
     (case s of (flag, v) \<Rightarrow>
        starts_with flag ''--'' \<and>
        (case find_option config_file flag of None \<Rightarrow> False | Some q \<Rightarrow> takes_value q = (v \<noteq> None)))"

definition apply_setting :: "string \<Rightarrow> setting \<Rightarrow> opt_values \<Rightarrow> opt_values result" where
  "apply_setting config_file s vs =
     (case s of (flag, v) \<Rightarrow>
        process_option (the (find_option config_file flag)) (case v of None \<Rightarrow> [] | Some v \<Rightarrow> v) vs)"

lemma found_flag: "find_option cf flag = Some q \<Longrightarrow> flag \<in> set all_flags"
  unfolding flags_cf [of cf, symmetric] by (auto dest: found_option)

lemma flag_known:
  assumes "find_option cf flag = Some q" "starts_with flag ''--''"
  shows "find_long cf flag = Inr q" "CHR ''='' \<notin> set flag"
proof -
  have m: "flag \<in> set all_flags" by (rule found_flag [OF assms(1)])
  then show "CHR ''='' \<notin> set flag" using flags_shape by (auto simp: list_all_iff)
  from m assms show "find_long cf flag = Inr q"
    by (simp add: find_long_def match_abbrev_def long_flags_def flags_cf)
qed

lemma partition_at_eq: "CHR ''='' \<notin> set flag \<Longrightarrow> partition ''='' (flag @ ''='' @ v) = (flag, ''='', v)"
proof -
  assume "CHR ''='' \<notin> set flag"
  then have "find_sub ''='' (flag @ CHR ''='' # v) = Some (length flag)"
    by (induction flag) (auto simp: starts_with_single)
  then show ?thesis by (simp add: partition_def)
qed

lemma partition_no_eq: "CHR ''='' \<notin> set flag \<Longrightarrow> partition ''='' flag = (flag, [], [])"
proof -
  assume "CHR ''='' \<notin> set flag"
  then have "find_sub ''='' flag = None" by (auto simp: find_sub_None)
  then show ?thesis by (simp add: partition_def)
qed

lemma long_setting:
  assumes "setting_ok cf s"
  shows "process_long_opt cf (render_setting s) rargs vs = rbind (apply_setting cf s vs) (\<lambda>vs. Inr (rargs, vs))"
    and "starts_with (render_setting s) ''--''" "render_setting s \<noteq> ''--''"
proof -
  obtain flag v where s: "s = (flag, v)" by (cases s)
  with assms obtain q where q: "find_option cf flag = Some q" "starts_with flag ''--''" "takes_value q = (v \<noteq> None)"
    by (auto simp: setting_ok_def split: option.splits)
  note known = flag_known [OF q(1,2)]
  show "process_long_opt cf (render_setting s) rargs vs = rbind (apply_setting cf s vs) (\<lambda>vs. Inr (rargs, vs))"
    using q(1,3) known(1) s partition_at_eq [OF known(2)] partition_no_eq [OF known(2)]
    by (cases v) (simp_all add: process_long_opt_def render_setting_def apply_setting_def)
  show "starts_with (render_setting s) ''--''"
    using q(2) s by (cases v) (auto simp: render_setting_def starts_with_iff)
  have "flag \<noteq> ''--''"
  proof
    assume "flag = ''--''"
    moreover have "flag \<in> set all_flags" by (rule found_flag [OF q(1)])
    moreover have "list_all (\<lambda>f. f \<noteq> ''--'') all_flags" by code_simp
    ultimately show False by (auto simp: list_all_iff)
  qed
  then show "render_setting s \<noteq> ''--''" using q(2) s
    by (cases v) (auto simp: render_setting_def starts_with_iff append_eq_Cons_conv)
qed

lemma args_settings:
  "list_all (setting_ok cf) settings \<Longrightarrow>
     process_args cf (map render_setting settings) largs vs =
     rbind (rfold (apply_setting cf) settings vs) (\<lambda>vs. Inr (largs, vs))"
proof (induction settings arbitrary: vs)
  case (Cons s settings)
  note s = long_setting [of cf s]
  from Cons s show ?case by (simp add: rbind_assoc cong: rbind_cong)
qed simp

section \<open>Properties\<close>



text \<open>Every list of long options written as \<open>--option=value\<close>, whatever the values, is read as
  what it says: values that look like options, hold further \<open>=\<close> signs or are empty included.\<close>
theorem long_options_read_back:
  assumes "list_all (setting_ok cf) settings"
  shows "parse_arguments cf (map render_setting settings) = rfold (apply_setting cf) settings (cli_defaults cf)"
  by (simp add: parse_arguments_def args_settings [OF assms] rbind_assoc)

theorem long_options_read_back_witness:
  "case parse_arguments [] [''--data=-u=x'', ''--crawl''] of Inr vs \<Rightarrow> vs ''data'' = PyStr ''-u=x'' | Inl _ \<Rightarrow> False"
proof -
  let ?s = "[(''--data'', Some ''-u=x''), (''--crawl'', None)]"
  have "list_all (setting_ok []) ?s" by code_simp
  moreover have "map render_setting ?s = [''--data=-u=x'', ''--crawl'']" by (simp add: render_setting_def)
  moreover have "case rfold (apply_setting []) ?s (cli_defaults []) of Inr vs \<Rightarrow> vs ''data'' = PyStr ''-u=x'' | Inl _ \<Rightarrow> False"
    by code_simp
  ultimately show ?thesis using long_options_read_back [of "[]" ?s] by simp
qed

end
