(* ===== verification/Config.thy ===== *)
theory Config
  imports Cmdline
begin

text \<open>
  The configuration file, \<open>lib/parse/config.py\<close>, and \<open>merge_config\<close> of \<open>lib/core/options.py\<close>, one
  table of rules per part of the function: each rule says which option it sets, when, and from which
  entry of the file.  A configuration file is a map from sections and options to the text of the
  entry after interpolation, or the exception the interpolation raises; the JSON reader is a
  parameter.
\<close>

section \<open>Reading entries\<close>

type_synonym config = "string \<Rightarrow> string \<Rightarrow> string result option"

definition entry_of :: "config \<Rightarrow> string \<Rightarrow> string \<Rightarrow> 'a \<Rightarrow> (string \<Rightarrow> 'a result) \<Rightarrow> 'a result" where
  "entry_of config section_name option_name dflt conv =
     (case config section_name option_name of None \<Rightarrow> Inr dflt | Some r \<Rightarrow> rbind r conv)"

definition allowed_or :: "'a \<Rightarrow> 'a list \<Rightarrow> 'a \<Rightarrow> 'a" where
  "allowed_or dflt allowed v = (if allowed \<noteq> [] \<and> v \<notin> set allowed then dflt else v)"

definition safe_get :: "config \<Rightarrow> string \<Rightarrow> string \<Rightarrow> pyval \<Rightarrow> string list \<Rightarrow> pyval result" where
  "safe_get config s k dflt allowed =
     entry_of config s k dflt (\<lambda>v. Inr (allowed_or dflt (map PyStr allowed) (PyStr v)))"

definition safe_getfloat :: "config \<Rightarrow> string \<Rightarrow> string \<Rightarrow> pyfloat \<Rightarrow> pyfloat list \<Rightarrow> pyfloat result" where
  "safe_getfloat config s k dflt allowed =
     entry_of config s k dflt (\<lambda>v.
       case py_float v of
         None \<Rightarrow> Inl (ValueError (''could not convert string to float: '' @ v))
       | Some x \<Rightarrow> Inr (allowed_or dflt allowed x))"

definition boolean_states :: "(string \<times> bool) list" where
  "boolean_states =
     [(''1'', True), (''yes'', True), (''true'', True), (''on'', True),
      (''0'', False), (''no'', False), (''false'', False), (''off'', False)]"

definition safe_getboolean :: "config \<Rightarrow> string \<Rightarrow> string \<Rightarrow> bool \<Rightarrow> bool list \<Rightarrow> bool result" where
  "safe_getboolean config s k dflt allowed =
     entry_of config s k dflt (\<lambda>v.
       case map_of boolean_states (lower v) of
         None \<Rightarrow> Inl (ValueError (''Not a boolean: '' @ v))
       | Some b \<Rightarrow> Inr (allowed_or dflt allowed b))"

definition safe_getint :: "config \<Rightarrow> string \<Rightarrow> string \<Rightarrow> int \<Rightarrow> int list \<Rightarrow> int result" where
  "safe_getint config s k dflt allowed =
     entry_of config s k dflt (\<lambda>v.
       case py_int v of
         None \<Rightarrow> Inl (ValueError (''invalid literal for int() with base 10: '' @ v))
       | Some i \<Rightarrow> Inr (allowed_or dflt allowed i))"

text \<open>An entry that is not JSON is the only element of its list; no caller restricts the elements.\<close>

definition safe_getlist :: "(string \<Rightarrow> pyval option) \<Rightarrow> config \<Rightarrow> string \<Rightarrow> string \<Rightarrow> pyval result" where
  "safe_getlist json_loads config s k =
     entry_of config s k (PyList []) (\<lambda>v.
       case json_loads v of None \<Rightarrow> Inr (PyList [PyStr v]) | Some x \<Rightarrow> Inr x)"

section \<open>The rules\<close>

datatype rule_kind = IfFalsy | IfNone | UnlessFalse | Always

datatype getter = GetText pyval "string list" | GetInt int | GetFloat rat | GetBool bool | GetList

record config_rule =
  cr_kind :: rule_kind
  cr_dest :: string
  cr_section :: string
  cr_option :: string
  cr_getter :: getter

definition rule :: "rule_kind \<Rightarrow> string \<Rightarrow> string \<Rightarrow> string \<Rightarrow> getter \<Rightarrow> config_rule" where
  "rule kind dest s k getter =
     \<lparr>cr_kind = kind, cr_dest = dest, cr_section = s, cr_option = k, cr_getter = getter\<rparr>"

definition general_rules :: "config_rule list" where
  "general_rules =
     [rule IfFalsy ''thread_count'' ''general'' ''threads'' (GetInt 25),
      rule IfNone ''async_mode'' ''general'' ''async'' (GetBool True),
      rule IfNone ''filter_threshold'' ''general'' ''filter-threshold'' (GetInt 0),
      rule IfFalsy ''include_status_codes'' ''general'' ''include-status'' (GetText PyNone []),
      rule IfFalsy ''exclude_status_codes'' ''general'' ''exclude-status'' (GetText PyNone []),
      rule IfFalsy ''exclude_sizes'' ''general'' ''exclude-sizes'' (GetText (PyStr '''') []),
      rule IfFalsy ''exclude_texts'' ''general'' ''exclude-texts'' GetList,
      rule IfFalsy ''exclude_regex'' ''general'' ''exclude-regex'' (GetText PyNone []),
      rule IfFalsy ''exclude_redirect'' ''general'' ''exclude-redirect'' (GetText PyNone []),
      rule IfFalsy ''exclude_response'' ''general'' ''exclude-response'' (GetText PyNone []),
      rule IfFalsy ''recursive'' ''general'' ''recursive'' (GetBool False),
      rule IfFalsy ''deep_recursive'' ''general'' ''deep-recursive'' (GetBool False),
      rule IfFalsy ''force_recursive'' ''general'' ''force-recursive'' (GetBool False),
      rule IfNone ''recursion_depth'' ''general'' ''max-recursion-depth'' (GetInt 0),
      rule IfFalsy ''recursion_status_codes'' ''general'' ''recursion-status'' (GetText (PyStr ''100-999'') []),
      rule IfFalsy ''subdirs'' ''general'' ''subdirs'' (GetText (PyStr '''') []),
      rule IfFalsy ''exclude_subdirs'' ''general'' ''exclude-subdirs'' (GetText (PyStr '''') []),
      rule IfFalsy ''skip_on_status'' ''general'' ''skip-on-status'' (GetText (PyStr '''') []),
      rule IfFalsy ''auto_calibration'' ''general'' ''auto-calibration'' (GetBool False),
      rule IfFalsy ''matcher_mode'' ''advanced-filtering'' ''matcher-mode'' (GetText (PyStr ''or'') [''and'', ''or'']),
      rule IfFalsy ''filter_mode'' ''advanced-filtering'' ''filter-mode'' (GetText (PyStr ''or'') [''and'', ''or'']),
      rule IfFalsy ''match_status_codes'' ''advanced-filtering'' ''match-status'' (GetText (PyStr '''') []),
      rule IfFalsy ''filter_status_codes'' ''advanced-filtering'' ''filter-status'' (GetText (PyStr '''') []),
      rule IfFalsy ''match_sizes'' ''advanced-filtering'' ''match-size'' (GetText (PyStr '''') []),
      rule IfFalsy ''filter_sizes'' ''advanced-filtering'' ''filter-size'' (GetText (PyStr '''') []),
      rule IfFalsy ''match_words'' ''advanced-filtering'' ''match-words'' (GetText (PyStr '''') []),
      rule IfFalsy ''filter_words'' ''advanced-filtering'' ''filter-words'' (GetText (PyStr '''') []),
      rule IfFalsy ''match_lines'' ''advanced-filtering'' ''match-lines'' (GetText (PyStr '''') []),
      rule IfFalsy ''filter_lines'' ''advanced-filtering'' ''filter-lines'' (GetText (PyStr '''') []),
      rule IfFalsy ''match_regex'' ''advanced-filtering'' ''match-regex'' (GetText PyNone []),
      rule IfFalsy ''filter_regex'' ''advanced-filtering'' ''filter-regex'' (GetText PyNone []),
      rule IfFalsy ''match_headers'' ''advanced-filtering'' ''match-header'' GetList,
      rule IfFalsy ''filter_headers'' ''advanced-filtering'' ''filter-header'' GetList,
      rule IfFalsy ''match_header_regex'' ''advanced-filtering'' ''match-header-regex'' (GetText PyNone []),
      rule IfFalsy ''filter_header_regex'' ''advanced-filtering'' ''filter-header-regex'' (GetText PyNone []),
      rule IfFalsy ''match_time'' ''advanced-filtering'' ''match-time'' (GetText (PyStr '''') []),
      rule IfFalsy ''filter_time'' ''advanced-filtering'' ''filter-time'' (GetText (PyStr '''') []),
      rule IfNone ''max_time'' ''general'' ''max-time'' (GetInt 0),
      rule IfNone ''target_max_time'' ''general'' ''target-max-time'' (GetInt 0),
      rule IfFalsy ''exit_on_error'' ''general'' ''exit-on-error'' (GetBool False)]"

definition dictionary_rules :: "config_rule list" where
  "dictionary_rules =
     [rule IfFalsy ''wordlists'' ''dictionary'' ''wordlists'' (GetText PyNone []),
      rule IfFalsy ''wordlist_categories'' ''dictionary'' ''wordlist-categories'' (GetText PyNone []),
      rule IfFalsy ''wordlist_backend'' ''dictionary'' ''wordlist-backend'' (GetText (PyStr ''auto'') []),
      rule IfFalsy ''wordlist_max_size'' ''dictionary'' ''wordlist-max-size'' (GetInt 500000),
      rule IfFalsy ''extensions'' ''dictionary'' ''default-extensions'' (GetText (PyStr '''') []),
      rule IfFalsy ''force_extensions'' ''dictionary'' ''force-extensions'' (GetBool False),
      rule IfFalsy ''overwrite_extensions'' ''dictionary'' ''overwrite-extensions'' (GetBool False),
      rule IfFalsy ''exclude_extensions'' ''dictionary'' ''exclude-extensions'' (GetText (PyStr '''') []),
      rule IfFalsy ''prefixes'' ''dictionary'' ''prefixes'' (GetText (PyStr '''') []),
      rule IfFalsy ''suffixes'' ''dictionary'' ''suffixes'' (GetText (PyStr '''') []),
      rule IfFalsy ''lowercase'' ''dictionary'' ''lowercase'' (GetBool False),
      rule IfFalsy ''uppercase'' ''dictionary'' ''uppercase'' (GetBool False),
      rule IfFalsy ''capital'' ''dictionary'' ''capital'' (GetBool False)]"

definition request_rules :: "config_rule list" where
  "request_rules =
     [rule IfFalsy ''http_method'' ''request'' ''http-method'' (GetText (PyStr ''get'') []),
      rule IfFalsy ''request_backend'' ''request'' ''request-backend'' (GetText (PyStr ''python'') []),
      rule IfFalsy ''headers'' ''request'' ''headers'' GetList,
      rule IfFalsy ''headers_file'' ''request'' ''headers-file'' (GetText PyNone []),
      rule IfFalsy ''follow_redirects'' ''request'' ''follow-redirects'' (GetBool False),
      rule IfFalsy ''random_agents'' ''request'' ''random-user-agents'' (GetBool False),
      rule IfFalsy ''user_agent'' ''request'' ''user-agent'' (GetText PyNone []),
      rule IfFalsy ''cookie'' ''request'' ''cookie'' (GetText PyNone [])]"

definition connection_rules :: "config_rule list" where
  "connection_rules =
     [rule IfNone ''delay'' ''connection'' ''delay'' (GetFloat (0)),
      rule IfNone ''timeout'' ''connection'' ''timeout'' (GetFloat (15 / 2)),
      rule IfNone ''max_retries'' ''connection'' ''max-retries'' (GetInt 1),
      rule IfNone ''max_rate'' ''connection'' ''max-rate'' (GetInt 0),
      rule IfFalsy ''proxies'' ''connection'' ''proxies'' GetList,
      rule IfFalsy ''proxies_file'' ''connection'' ''proxies-file'' (GetText PyNone []),
      rule IfFalsy ''scheme'' ''connection'' ''scheme'' (GetText PyNone [''http'', ''https'']),
      rule IfFalsy ''replay_proxy'' ''connection'' ''replay-proxy'' (GetText PyNone []),
      rule IfFalsy ''network_interface'' ''connection'' ''network-interface'' (GetText PyNone [])]"

definition advanced_rules :: "config_rule list" where
  "advanced_rules =
     [rule IfFalsy ''crawl'' ''advanced'' ''crawl'' (GetBool False),
      rule IfFalsy ''find_backup'' ''advanced'' ''find-backup'' (GetBool False)]"

definition view_rules :: "config_rule list" where
  "view_rules =
     [rule IfFalsy ''full_url'' ''view'' ''full-url'' (GetBool False),
      rule UnlessFalse ''color'' ''view'' ''color'' (GetBool True),
      rule IfFalsy ''quiet'' ''view'' ''quiet-mode'' (GetBool False),
      rule IfFalsy ''disable_cli'' ''view'' ''disable-cli'' (GetBool False),
      rule IfFalsy ''verbose'' ''view'' ''verbose'' (GetBool False),
      rule IfFalsy ''redirects_history'' ''view'' ''show-redirects-history'' (GetBool False)]"

definition output_rules :: "config_rule list" where
  "output_rules =
     [rule IfFalsy ''output_file'' ''output'' ''output-file'' (GetText PyNone []),
      rule IfFalsy ''mysql_url'' ''output'' ''mysql-url'' (GetText PyNone []),
      rule IfFalsy ''postgres_url'' ''output'' ''postgres-url'' (GetText PyNone []),
      rule Always ''output_table'' ''output'' ''output-sql-table'' (GetText PyNone []),
      rule IfFalsy ''output_formats'' ''output'' ''output-formats'' (GetText (PyStr ''plain'') []),
      rule IfNone ''sqlite_commit_batch_size'' ''output'' ''sqlite-commit-batch-size'' (GetInt 1),
      rule IfFalsy ''save_response'' ''output'' ''save-response'' (GetText PyNone []),
      rule IfFalsy ''save_response_jsonl'' ''output'' ''save-response-jsonl'' (GetText PyNone []),
      rule IfFalsy ''log_file'' ''output'' ''log-file'' (GetText PyNone []),
      rule Always ''log_file_size'' ''output'' ''log-file-size'' (GetInt 0)]"

definition merge_rules :: "config_rule list" where
  "merge_rules =
     general_rules @ dictionary_rules @ request_rules @ connection_rules @ advanced_rules @ view_rules @ output_rules"

definition configured :: "(string \<Rightarrow> pyval option) \<Rightarrow> config \<Rightarrow> config_rule \<Rightarrow> pyval result" where
  "configured json_loads config r =
     (let s = cr_section r; k = cr_option r in
      case cr_getter r of
        GetText dflt allowed \<Rightarrow> safe_get config s k dflt allowed
      | GetInt dflt \<Rightarrow> rbind (safe_getint config s k dflt []) (\<lambda>i. Inr (PyInt i))
      | GetFloat dflt \<Rightarrow> rbind (safe_getfloat config s k (Fin dflt) []) (\<lambda>x. Inr (PyFloat x))
      | GetBool dflt \<Rightarrow> rbind (safe_getboolean config s k dflt []) (\<lambda>b. Inr (PyBool b))
      | GetList \<Rightarrow> safe_getlist json_loads config s k)"

text \<open>Whether the command line's value stays.\<close>

definition keeps :: "rule_kind \<Rightarrow> pyval \<Rightarrow> bool" where
  "keeps kind v =
     (case kind of
        IfFalsy \<Rightarrow> py_truth v
      | IfNone \<Rightarrow> v \<noteq> PyNone
      | UnlessFalse \<Rightarrow> v = PyBool False
      | Always \<Rightarrow> False)"

definition merge_rule :: "(string \<Rightarrow> pyval option) \<Rightarrow> config \<Rightarrow> config_rule \<Rightarrow> opt_values \<Rightarrow> opt_values result" where
  "merge_rule json_loads config r vs =
     (if keeps (cr_kind r) (vs (cr_dest r)) then Inr vs
      else rbind (configured json_loads config r) (\<lambda>v. Inr (vs(cr_dest r := v))))"

definition merge_config :: "(string \<Rightarrow> pyval option) \<Rightarrow> config \<Rightarrow> opt_values \<Rightarrow> opt_values result" where
  "merge_config json_loads config vs = rfold (merge_rule json_loads config) merge_rules vs"

section \<open>What the merge does\<close>

lemmas rule_table_defs = merge_rules_def general_rules_def dictionary_rules_def request_rules_def connection_rules_def
  advanced_rules_def view_rules_def output_rules_def rule_def

lemma distinct_dests: "distinct (map cr_dest merge_rules)"
proof -
  have "distinct (map (\<lambda>r. flag_number (cr_dest r)) merge_rules)"
    unfolding rule_table_defs by (simp add: flag_number_def)
  then have "distinct (map flag_number (map cr_dest merge_rules))" by (simp add: comp_def)
  then show ?thesis by (simp only: distinct_map)
qed

definition merged :: "(string \<Rightarrow> pyval option) \<Rightarrow> config \<Rightarrow> config_rule \<Rightarrow> pyval \<Rightarrow> pyval result" where
  "merged json_loads config r v =
     (if keeps (cr_kind r) v then Inr v else configured json_loads config r)"

lemma merge_rule_merged: "merge_rule js c r vs = rbind (merged js c r (vs (cr_dest r))) (\<lambda>v. Inr (vs(cr_dest r := v)))"
  by (simp add: merge_rule_def merged_def)

lemma merge_rules_pointwise:
  "rfold (merge_rule js c) rs vs = Inr vs' \<Longrightarrow> distinct (map cr_dest rs) \<Longrightarrow>
     (\<forall>r \<in> set rs. merged js c r (vs (cr_dest r)) = Inr (vs' (cr_dest r))) \<and>
     (\<forall>d. d \<notin> set (map cr_dest rs) \<longrightarrow> vs' d = vs d)"
proof (induction rs arbitrary: vs)
  case (Cons r rs)
  from Cons.prems(1) obtain v where v: "merged js c r (vs (cr_dest r)) = Inr v"
    "rfold (merge_rule js c) rs (vs(cr_dest r := v)) = Inr vs'"
    unfolding rfold.simps merge_rule_merged [of js c r] by (cases "merged js c r (vs (cr_dest r))") simp_all
  from Cons.prems(2) have fresh: "cr_dest r \<notin> set (map cr_dest rs)" by simp
  from Cons.IH [OF v(2)] Cons.prems(2)
  have rest: "\<forall>q \<in> set rs. merged js c q ((vs(cr_dest r := v)) (cr_dest q)) = Inr (vs' (cr_dest q))"
    "\<forall>d. d \<notin> set (map cr_dest rs) \<longrightarrow> vs' d = (vs(cr_dest r := v)) d" by simp_all
  have "merged js c q (vs (cr_dest q)) = Inr (vs' (cr_dest q))" if "q \<in> set rs" for q
    using rest(1) fresh that by (metis (no_types, lifting) fun_upd_other in_set_conv_nth length_map nth_map nth_mem)
  moreover have "vs' (cr_dest r) = v" using rest(2) fresh by simp
  ultimately show ?case using rest(2) v(1) by simp
qed simp

lemma configured_default:
  "configured js (\<lambda>_ _. None) r =
     Inr (case cr_getter r of GetText v _ \<Rightarrow> v | GetInt i \<Rightarrow> PyInt i | GetFloat q \<Rightarrow> PyFloat (Fin q)
          | GetBool b \<Rightarrow> PyBool b | GetList \<Rightarrow> PyList [])"
  by (simp add: configured_def safe_get_def safe_getint_def safe_getfloat_def safe_getboolean_def safe_getlist_def
      entry_of_def Let_def split: getter.split)

lemma merge_without_file: "\<exists>vs'. merge_config js (\<lambda>_ _. None) vs = Inr vs'"
proof -
  have "\<exists>vs'. rfold (merge_rule js (\<lambda>_ _. None)) rs vs = Inr vs'" for rs
    by (induction rs arbitrary: vs) (simp_all add: merge_rule_def configured_default)
  then show ?thesis by (simp add: merge_config_def)
qed

text \<open>The rule of an option, found in the table.\<close>

definition rule_of :: "string \<Rightarrow> config_rule option" where
  "rule_of d = find (\<lambda>r. cr_dest r = d) merge_rules"

lemma rule_of_Some: "rule_of d = Some r \<Longrightarrow> r \<in> set merge_rules \<and> cr_dest r = d"
  by (auto simp: rule_of_def find_Some_iff)

section \<open>Properties\<close>

text \<open>Merging decides each option by its own rule, whatever the order of the rules: the value of
  the command line stays exactly when its rule keeps it, otherwise the option gets what its own entry
  of the file says, and options without a rule stay.\<close>
theorem merge_config_pointwise:
  assumes "merge_config js config vs = Inr vs'"
  shows "case rule_of d of
      Some r \<Rightarrow>
        if keeps (cr_kind r) (vs d) then vs' d = vs d else configured js config r = Inr (vs' d)
    | None \<Rightarrow> vs' d = vs d"
proof (cases "rule_of d")
  case None
  then have "d \<notin> set (map cr_dest merge_rules)" by (auto simp: rule_of_def find_None_iff)
  with None merge_rules_pointwise [OF assms [unfolded merge_config_def] distinct_dests] show ?thesis by simp
next
  case (Some r)
  note r = rule_of_Some [OF Some]
  with merge_rules_pointwise [OF assms [unfolded merge_config_def] distinct_dests]
  have "merged js config r (vs d) = Inr (vs' d)" by blast
  with Some show ?thesis by (auto simp: merged_def split: if_splits)
qed

theorem merge_config_pointwise_witness:
  "\<exists>vs'. merge_config (\<lambda>_. None) (\<lambda>_ _. None) (\<lambda>_. PyInt 0) = Inr vs' \<and> vs' ''thread_count'' = PyInt 25 \<and> vs' ''max_rate'' = PyInt 0"
proof -
  obtain vs' where vs': "merge_config (\<lambda>_. None) (\<lambda>_ _. None) (\<lambda>_. PyInt 0) = Inr vs'" using merge_without_file by blast
  have r: "rule_of ''thread_count'' = Some (rule IfFalsy ''thread_count'' ''general'' ''threads'' (GetInt 25))"
    "rule_of ''max_rate'' = Some (rule IfNone ''max_rate'' ''connection'' ''max-rate'' (GetInt 0))" by code_simp+
  from merge_config_pointwise [OF vs', of "''thread_count''"] merge_config_pointwise [OF vs', of "''max_rate''"] vs'
  show ?thesis by (simp add: r keeps_def py_truth_def rule_def configured_default)
qed

end
