(* ===== verification/Headers.thy ===== *)
theory Headers
  imports Structures PyUrl
begin

text \<open>
  Header texts and raw requests, \<open>lib/parse/headers.py\<close> and \<open>lib/parse/rawrequest.py\<close>.  A header
  text is read by the \<open>email\<close> package, whose header reader (of Python 3.13, lines, continuations,
  lines that end the headers) is modelled for ASCII texts.
\<close>

section \<open>Header texts\<close>

abbreviation CR :: char where "CR \<equiv> CHR 0x0D"
abbreviation LF :: char where "LF \<equiv> CHR 0x0A"

text \<open>The lines of a text with their ends.\<close>

fun keepends_from :: "string \<Rightarrow> string \<Rightarrow> string list" where
  "keepends_from cur [] = (if cur = [] then [] else [cur])"
| "keepends_from cur (c # s) =
     (if c = CR \<and> starts_with s [LF] then (cur @ [CR, LF]) # keepends_from [] (tl s)
      else if c = CR \<or> c = LF then (cur @ [c]) # keepends_from [] s
      else keepends_from (cur @ [c]) s)"

definition keepends :: "string \<Rightarrow> string list" where
  "keepends = keepends_from []"

definition header_name_char :: "char \<Rightarrow> bool" where
  "header_name_char c \<longleftrightarrow> 33 \<le> code c \<and> code c \<le> 126 \<and> c \<noteq> CHR '':''"

definition blank :: "char \<Rightarrow> bool" where
  "blank c \<longleftrightarrow> c = CHR '' '' \<or> c = CHR 0x09"

text \<open>\<open>^(From |[\041-\071\073-\176]*:|[\t ])\<close>\<close>

definition is_header_line :: "string \<Rightarrow> bool" where
  "is_header_line line \<longleftrightarrow>
     starts_with line ''From '' \<or> starts_with (dropWhile header_name_char line) '':'' \<or>
     (line \<noteq> [] \<and> blank (hd line))"

definition header_source_parse :: "string list \<Rightarrow> string \<times> string" where
  "header_source_parse lines =
     (let (name, _, value) = partition '':'' (hd lines) in
      (name, rstrip_p (\<lambda>c. c = CR \<or> c = LF)
               (lstrip_p (\<lambda>c. blank c \<or> c = CR \<or> c = LF) (value @ concat (tl lines)))))"

definition flush_header :: "string list option \<Rightarrow> (string \<times> string) list" where
  "flush_header cur = (case cur of None \<Rightarrow> [] | Some lines \<Rightarrow> [header_source_parse lines])"

text \<open>A continuation belongs to the header before it; a line \<open>From \<close> and a line without a name have
  none.\<close>

fun collect_headers :: "string list option \<Rightarrow> string list \<Rightarrow> (string \<times> string) list" where
  "collect_headers cur [] = flush_header cur"
| "collect_headers cur (line # lines) =
     (if blank (hd line) then collect_headers (map_option (\<lambda>ls. ls @ [line]) cur) lines
      else flush_header cur @
        collect_headers (if starts_with line ''From '' \<or> starts_with line '':'' then None else Some [line]) lines)"

definition message_headers :: "string \<Rightarrow> (string \<times> string) list" where
  "message_headers text = collect_headers None (takeWhile is_header_line (keepends text))"

text \<open>\<open>message[key]\<close> is the first header of that name, whatever its case.\<close>

definition first_header :: "(string \<times> string) list \<Rightarrow> string \<Rightarrow> string" where
  "first_header hs key = the (map_of (map (\<lambda>(k, v). (lower k, v)) hs) (lower key))"

definition str_to_dict :: "string \<Rightarrow> string ci_dict" where
  "str_to_dict headers =
     (if headers = [] then []
      else (let hs = message_headers headers in dict_of (map (\<lambda>(k, _). (k, first_header hs k)) hs)))"

definition dict_to_str :: "string \<Rightarrow> string ci_dict \<Rightarrow> string" where
  "dict_to_str new_line headers = join new_line (map (\<lambda>(k, v). k @ '': '' @ v) headers)"

text \<open>\<open>HeadersParser\<close> of a text and of a dict, as the mapping it iterates over.\<close>

definition headers_of_text :: "string \<Rightarrow> string ci_dict" where
  "headers_of_text headers = ci_init (str_to_dict headers)"

definition headers_of_dict :: "string \<Rightarrow> string ci_dict \<Rightarrow> string ci_dict" where
  "headers_of_dict new_line headers = ci_init (str_to_dict (dict_to_str new_line headers))"

section \<open>Raw requests\<close>

record raw_request =
  rr_url :: string
  rr_method :: string
  rr_headers :: "string ci_dict"
  rr_body :: "string option"

definition split_head_body :: "string \<Rightarrow> string \<times> string option" where
  "split_head_body raw_content =
     (if contains raw_content [CR, LF, CR, LF]
      then (case partition [CR, LF, CR, LF] raw_content of (head, _, body) \<Rightarrow> (head, Some body))
      else if contains raw_content [LF, LF]
      then (case partition [LF, LF] raw_content of (head, _, body) \<Rightarrow> (head, Some body))
      else (strip_p (\<lambda>c. c = CR \<or> c = LF) raw_content, None))"

definition origin_form_target :: "string \<Rightarrow> string \<Rightarrow> string \<Rightarrow> string result" where
  "origin_form_target target host scheme =
     rbind (urlsplit target) (\<lambda>parsed.
       let path = (if starts_with (url_path parsed) ''/'' then url_path parsed else CHR ''/'' # url_path parsed)
       in Inr (if scheme \<noteq> []
               then urlunsplit \<lparr>url_scheme = scheme, url_netloc = host, url_path = path,
                                url_query = url_query parsed, url_fragment = []\<rparr>
               else host @ urlunsplit \<lparr>url_scheme = [], url_netloc = [], url_path = path,
                                       url_query = url_query parsed, url_fragment = []\<rparr>))"

definition absolute_form_target :: "string \<Rightarrow> string option result" where
  "absolute_form_target target =
     rbind (urlsplit target) (\<lambda>parsed.
       Inr (if url_scheme parsed = [] \<or> url_netloc parsed = [] then None
            else Some (urlunsplit (parsed\<lparr>url_path := if url_path parsed = [] then ''/'' else url_path parsed,
                                          url_fragment := []\<rparr>))))"

definition target_from_request_line :: "string \<Rightarrow> string ci_dict \<Rightarrow> string \<Rightarrow> string result" where
  "target_from_request_line target headers scheme =
     rbind (absolute_form_target target) (\<lambda>absolute.
       if absolute \<noteq> None \<and> absolute \<noteq> Some [] then Inr (the absolute)
       else (case ci_get ''host'' headers of
               Inl _ \<Rightarrow> Inl (InvalidRawRequest (''Can'' @ [CHR 0x27] @ ''t find the Host header in the raw request''))
             | Inr host \<Rightarrow> origin_form_target target host scheme))"

text \<open>\<open>bytes.splitlines()\<close>, and \<open>str.split()\<close> of a text decoded as Latin-1.\<close>

definition byte_lines :: "string \<Rightarrow> string list" where
  "byte_lines head = map (takeWhile (\<lambda>c. c \<noteq> CR \<and> c \<noteq> LF)) (keepends head)"

definition latin_words :: "string \<Rightarrow> string list" where
  "latin_words s = filter (\<lambda>w. w \<noteq> []) (split_at (\<lambda>c. is_space c \<or> code c = 133 \<or> code c = 160) s)"

definition raw_invalid :: exc where
  "raw_invalid = InvalidRawRequest ''The raw request is formatively invalid''"

definition parse_raw_content :: "string \<Rightarrow> string \<Rightarrow> raw_request result" where
  "parse_raw_content raw_content scheme =
     (let (head, body) = split_head_body raw_content in
      case byte_lines head of
        [] \<Rightarrow> Inl raw_invalid
      | first # lines \<Rightarrow>
          (case latin_words first of
             method # target # _ \<Rightarrow>
               let headers = headers_of_text (join [LF] lines) in
               (case target_from_request_line target headers scheme of
                  Inl (ValueError _) \<Rightarrow> Inl raw_invalid
                | Inl e \<Rightarrow> Inl e
                | Inr url \<Rightarrow> Inr \<lparr>rr_url = url, rr_method = method, rr_headers = headers, rr_body = body\<rparr>)
           | _ \<Rightarrow> Inl raw_invalid))"

definition parse_raw ::
  "(string \<Rightarrow> string result) \<Rightarrow> string \<Rightarrow> string \<Rightarrow> (string list \<times> string \<times> string ci_dict \<times> string option) result" where
  "parse_raw read_bytes raw_file scheme =
     rbind (rbind (read_bytes raw_file) (\<lambda>content. parse_raw_content content scheme)) (\<lambda>request.
       Inr ([rr_url request], rr_method request, rr_headers request, rr_body request))"

section \<open>Lines\<close>

definition no_break :: "string \<Rightarrow> bool" where
  "no_break s \<longleftrightarrow> CR \<notin> set s \<and> LF \<notin> set s"

lemma no_break_simps [simp]:
  "no_break []" "no_break (c # s) \<longleftrightarrow> c \<noteq> CR \<and> c \<noteq> LF \<and> no_break s" "no_break (s @ t) \<longleftrightarrow> no_break s \<and> no_break t"
  by (auto simp: no_break_def)

lemma keepends_line:
  "no_break l \<Longrightarrow> e = [LF] \<or> e = [CR, LF] \<Longrightarrow> keepends_from cur (l @ e @ t) = (cur @ l @ e) # keepends_from [] t"
  by (induction l arbitrary: cur) (auto simp: starts_with_single)

lemma keepends_last: "no_break l \<Longrightarrow> keepends_from cur l = (if cur @ l = [] then [] else [cur @ l])"
  by (induction l arbitrary: cur) auto

text \<open>Each line but the last with the line end.\<close>

fun ended :: "string \<Rightarrow> string list \<Rightarrow> string list" where
  "ended e [] = []"
| "ended e [l] = [l]"
| "ended e (l # m # ls) = (l @ e) # ended e (m # ls)"

lemma keepends_join:
  "list_all no_break ls \<Longrightarrow> list_all (\<lambda>l. l \<noteq> []) ls \<Longrightarrow> e = [LF] \<or> e = [CR, LF] \<Longrightarrow> keepends (join e ls) = ended e ls"
  unfolding keepends_def
  by (induction e ls rule: join.induct) (auto simp: keepends_last keepends_line [where cur = "[]", simplified])

lemma take_line:
  "no_break l \<Longrightarrow> takeWhile (\<lambda>c. c \<noteq> CR \<and> c \<noteq> LF) l = l"
  "no_break l \<Longrightarrow> takeWhile (\<lambda>c. c \<noteq> CR \<and> c \<noteq> LF) (l @ CR # t) = l"
  "no_break l \<Longrightarrow> takeWhile (\<lambda>c. c \<noteq> CR \<and> c \<noteq> LF) (l @ LF # t) = l"
  by (induction l) auto

lemma map_ended:
  "list_all no_break ls \<Longrightarrow> e = [LF] \<or> e = [CR, LF] \<Longrightarrow> map (takeWhile (\<lambda>c. c \<noteq> CR \<and> c \<noteq> LF)) (ended e ls) = ls"
  by (induction e ls rule: ended.induct) (auto simp: take_line)

lemma byte_lines_join:
  "list_all no_break ls \<Longrightarrow> list_all (\<lambda>l. l \<noteq> []) ls \<Longrightarrow> byte_lines (join [CR, LF] ls) = ls"
  by (simp add: byte_lines_def keepends_join map_ended)

section \<open>Headers are read back\<close>

definition header_ok :: "string \<times> string \<Rightarrow> bool" where
  "header_ok h \<longleftrightarrow>
     (case h of (k, v) \<Rightarrow>
        k \<noteq> [] \<and> list_all header_name_char k \<and> no_break v \<and> (v = [] \<or> \<not> blank (hd v)))"

definition header_line :: "string \<times> string \<Rightarrow> string" where
  "header_line h = (case h of (k, v) \<Rightarrow> k @ '': '' @ v)"

lemma name_char_facts: "header_name_char c \<Longrightarrow> c \<noteq> CR \<and> c \<noteq> LF \<and> c \<noteq> CHR '' '' \<and> c \<noteq> CHR 0x09 \<and> c \<noteq> CHR '':''"
  by (auto simp: header_name_char_def)

lemma header_line_props:
  assumes "header_ok h"
  shows "no_break (header_line h)" "header_line h \<noteq> []" "\<not> blank (hd (header_line h))"
    "is_header_line (header_line h @ e)" "\<not> starts_with (header_line h @ e) ''From ''" "\<not> starts_with (header_line h @ e) '':''"
proof -
  obtain k v where h: "h = (k, v)" by (cases h)
  with assms have k: "k \<noteq> []" "list_all header_name_char k" and v: "no_break v" by (auto simp: header_ok_def)
  have "no_break k" using k(2) by (auto simp: no_break_def list_all_iff dest: name_char_facts)
  with v h show "no_break (header_line h)" by (simp add: header_line_def)
  from h k show "header_line h \<noteq> []" by (simp add: header_line_def)
  obtain c k' where ck: "k = c # k'" using k(1) by (cases k) auto
  with k(2) have c: "c \<noteq> CHR '' ''" "c \<noteq> CHR 0x09" "c \<noteq> CHR '':''" by (auto dest: name_char_facts)
  with h ck show "\<not> blank (hd (header_line h))" by (simp add: header_line_def blank_def)
  from h ck c show "\<not> starts_with (header_line h @ e) '':''" by (simp add: header_line_def starts_with_single)
  have "dropWhile header_name_char (k @ CHR '':'' # u) = CHR '':'' # u" for u
    using k(2) by (induction k) (auto simp: header_name_char_def)
  then show "is_header_line (header_line h @ e)"
    using h by (simp add: is_header_line_def header_line_def starts_with_single)
  have sp: "CHR '' '' \<notin> set k" using k(2) by (auto simp: list_all_iff dest: name_char_facts)
  then have "\<not> starts_with (k @ CHR '':'' # u) ''From ''" for u
    by (auto simp: starts_with_iff append_eq_Cons_conv Cons_eq_append_conv)
  then show "\<not> starts_with (header_line h @ e) ''From ''" using h by (simp add: header_line_def)
qed

lemma header_lines_parse:
  assumes "header_ok (k, v)" "e = [] \<or> e = [LF]"
  shows "header_source_parse [header_line (k, v) @ e] = (k, v)"
proof -
  have "CHR '':'' \<notin> set k" using assms(1) by (auto simp: header_ok_def list_all_iff dest: name_char_facts)
  then have "find_sub '':'' (k @ CHR '':'' # u) = Some (length k)" for u
    by (induction k) (auto simp: starts_with_single)
  then have p: "partition '':'' (k @ CHR '':'' # u) = (k, '':'', u)" for u
    by (simp add: partition_def)
  have v: "no_break v" "v = [] \<or> \<not> blank (hd v)" using assms(1) by (auto simp: header_ok_def)
  let ?P = "\<lambda>c. blank c \<or> c = CR \<or> c = LF" and ?Q = "\<lambda>c. c = CR \<or> c = LF"
  have r: "rstrip_p ?Q (v @ e) = v"
  proof -
    have "dropWhile ?Q (rev v) = rev v" using v(1) by (cases "rev v") (auto simp: no_break_def dest!: arg_cong [where f = set])
    then show ?thesis using assms(2) by (auto simp: rstrip_p_def)
  qed
  have "rstrip_p ?Q (lstrip_p ?P (CHR '' '' # v @ e)) = v"
  proof (cases v)
    case Nil
    then show ?thesis using assms(2) by (auto simp: lstrip_p_def rstrip_p_def blank_def)
  next
    case (Cons c v')
    with v have "\<not> ?P c" by auto
    with Cons r show ?thesis by (simp add: lstrip_p_def blank_def)
  qed
  then show ?thesis by (simp add: header_source_parse_def header_line_def p)
qed

lemma collect_plain:
  "\<forall>l \<in> set ls. \<not> blank (hd l) \<and> \<not> starts_with l ''From '' \<and> \<not> starts_with l '':'' \<Longrightarrow>
     collect_headers cur ls = flush_header cur @ map (\<lambda>l. header_source_parse [l]) ls"
  by (induction ls arbitrary: cur) (auto simp: flush_header_def)

lemma ended_lines: "l \<in> set (ended [LF] ls) \<Longrightarrow> \<exists>m \<in> set ls. l = m \<or> l = m @ [LF]"
  by (induction "[LF]" ls rule: ended.induct) auto

lemma parse_ended:
  "list_all header_ok hs \<Longrightarrow> map (\<lambda>l. header_source_parse [l]) (ended [LF] (map header_line hs)) = hs"
proof (induction hs)
  case (Cons h hs)
  obtain k v where h: "h = (k, v)" by (cases h)
  from Cons show ?case
    using header_lines_parse [of k v "[]"] header_lines_parse [of k v "[LF]"] h by (cases hs) auto
qed simp

lemma message_headers_back:
  assumes "list_all header_ok hs"
  shows "message_headers (join [LF] (map header_line hs)) = hs"
proof -
  let ?ls = "map header_line hs"
  note p = header_line_props
  have ls: "list_all no_break ?ls" "list_all (\<lambda>l. l \<noteq> []) ?ls" using assms p(1,2) by (auto simp: list_all_iff)
  have k: "keepends (join [LF] ?ls) = ended [LF] ?ls" by (rule keepends_join [OF ls]) simp
  have good: "is_header_line l \<and> \<not> blank (hd l) \<and> \<not> starts_with l ''From '' \<and> \<not> starts_with l '':''"
    if l: "l \<in> set (ended [LF] ?ls)" for l
  proof -
    obtain h e where h: "h \<in> set hs" "l = header_line h @ e" using ended_lines [OF l] by force
    then have "header_ok h" using assms by (auto simp: list_all_iff)
    with p [of h] h(2) show ?thesis by simp
  qed
  then have "takeWhile is_header_line (ended [LF] ?ls) = ended [LF] ?ls" by (simp add: takeWhile_eq_all_conv)
  moreover have "collect_headers None (ended [LF] ?ls) = hs"
    using good parse_ended [OF assms] by (subst collect_plain) (auto simp: flush_header_def)
  ultimately show ?thesis unfolding message_headers_def k by (simp only:)
qed

section \<open>The dictionary of distinct headers\<close>

definition distinct_names :: "(string \<times> 'v) list \<Rightarrow> bool" where
  "distinct_names hs \<longleftrightarrow> distinct (map (\<lambda>h. lower (fst h)) hs)"

definition lower_names :: "(string \<times> 'v) list \<Rightarrow> (string \<times> 'v) list" where
  "lower_names hs = map (\<lambda>(k, v). (lower k, v)) hs"

lemma update_fresh: "k \<notin> fst ` set d \<Longrightarrow> AList.update k v d = d @ [(k, v)]"
  by (induction d) auto

lemma dict_of_distinct: "distinct (map fst hs) \<Longrightarrow> dict_of hs = hs"
proof -
  have "distinct (map fst (d @ ps)) \<Longrightarrow> fold (\<lambda>(k, v). AList.update k v) ps d = d @ ps" for d ps :: "(string \<times> 'a) list"
    by (induction ps arbitrary: d) (auto simp: update_fresh split: prod.splits)
  from this [of "[]" hs] show "distinct (map fst hs) \<Longrightarrow> dict_of hs = hs" by (simp add: dict_of_def)
qed

lemma distinct_names_keys: "distinct_names hs \<Longrightarrow> distinct (map fst hs)"
proof -
  have "map (\<lambda>h. lower (fst h)) hs = map lower (map fst hs)" by simp
  then show "distinct_names hs \<Longrightarrow> distinct (map fst hs)" unfolding distinct_names_def by (simp only: distinct_map)
qed

lemma delete_absent: "k \<notin> fst ` set d \<Longrightarrow> AList.delete k d = d"
  by (induction d) auto

lemma convert_distinct:
  "distinct_names hs \<Longrightarrow> (\<forall>(k, _) \<in> set hs. k \<notin> fst ` set d \<and> lower k \<notin> fst ` set d) \<Longrightarrow>
     fold ci_convert_key (map fst hs) (hs @ d) = d @ lower_names hs"
proof (induction hs arbitrary: d)
  case (Cons h hs)
  obtain k v where h: "h = (k, v)" by (cases h)
  have "lower k \<notin> (\<lambda>h. lower (fst h)) ` set hs" "distinct_names hs"
    using Cons.prems(1) h by (simp_all add: distinct_names_def)
  then have names: "distinct_names hs" "\<And>j w. (j, w) \<in> set hs \<Longrightarrow> lower j \<noteq> lower k" by force+
  have d: "k \<notin> fst ` set d" "lower k \<notin> fst ` set d" "\<And>j w. (j, w) \<in> set hs \<Longrightarrow> j \<notin> fst ` set d \<and> lower j \<notin> fst ` set d"
    using Cons.prems(2) h by auto
  have out: "k \<notin> fst ` set hs" "lower k \<notin> fst ` set hs" using names(2) [of k] names(2) [of "lower k"] by auto
  have step: "ci_convert_key k (h # hs @ d) = hs @ (d @ [(lower k, v)])"
    using h out d(1,2) by (simp add: ci_convert_key_def ci_set_def delete_absent update_fresh image_Un)
  have "\<forall>(j, _) \<in> set hs. j \<notin> fst ` set (d @ [(lower k, v)]) \<and> lower j \<notin> fst ` set (d @ [(lower k, v)])"
  proof (intro ballI)
    fix p assume p: "p \<in> set hs"
    obtain j w where j: "p = (j, w)" by (cases p)
    with p d(3) [of j w] names(2) [of j w] have "j \<noteq> lower k" by auto
    with p j d(3) [of j w] names(2) [of j w]
    show "case p of (j, _) \<Rightarrow> j \<notin> fst ` set (d @ [(lower k, v)]) \<and> lower j \<notin> fst ` set (d @ [(lower k, v)])" by simp
  qed
  from Cons.IH [OF names(1) this]
  have "fold ci_convert_key (map fst hs) (hs @ (d @ [(lower k, v)])) = (d @ [(lower k, v)]) @ lower_names hs" .
  with h step show ?case by (simp add: lower_names_def)
qed (simp add: lower_names_def)

lemma headers_of_lines:
  assumes "list_all header_ok hs" "distinct_names hs"
  shows "headers_of_text (join [LF] (map header_line hs)) = lower_names hs"
proof (cases "hs = []")
  case False
  have "join [LF] (map header_line hs) \<noteq> []"
    using False assms(1) header_line_props(2) by (cases hs; cases "tl hs") auto
  moreover have "map (\<lambda>(k, _). (k, first_header hs k)) hs = hs"
  proof -
    have "first_header hs k = v" if "(k, v) \<in> set hs" for k v
    proof -
      have "map fst (map (\<lambda>(k, v). (lower k, v)) hs) = map (\<lambda>h. lower (fst h)) hs" by auto
      then have "distinct (map fst (map (\<lambda>(k, v). (lower k, v)) hs))" using assms(2) by (simp only: distinct_names_def)
      then have "map_of (map (\<lambda>(k, v). (lower k, v)) hs) (lower k) = Some v"
        using that by (intro map_of_is_SomeI) force+
      then show ?thesis by (simp add: first_header_def)
    qed
    then show ?thesis by (intro map_idI) auto
  qed
  ultimately have "str_to_dict (join [LF] (map header_line hs)) = hs"
    using assms dict_of_distinct [OF distinct_names_keys [OF assms(2)]]
    by (simp add: str_to_dict_def message_headers_back Let_def)
  moreover have "ci_init hs = lower_names hs"
    using convert_distinct [of hs "[]"] assms(2) dict_of_distinct [OF distinct_names_keys [OF assms(2)]]
    by (simp add: ci_init_def ci_convert_keys_def)
  ultimately show ?thesis by (simp add: headers_of_text_def)
qed (simp add: headers_of_text_def str_to_dict_def ci_init_def dict_of_def ci_convert_keys_def lower_names_def)

section \<open>Requests are read back\<close>

definition request_text :: "string \<Rightarrow> string \<Rightarrow> string \<Rightarrow> (string \<times> string) list \<Rightarrow> string \<Rightarrow> string" where
  "request_text method target version hs body =
     join [CR, LF] ((method @ '' '' @ target @ '' '' @ version) # map header_line hs) @ [CR, LF, CR, LF] @ body"

definition word_ok :: "string \<Rightarrow> bool" where
  "word_ok w \<longleftrightarrow> w \<noteq> [] \<and> list_all (\<lambda>c. \<not> is_space c \<and> code c \<noteq> 133 \<and> code c \<noteq> 160) w"

lemma word_no_break: "word_ok w \<Longrightarrow> no_break w"
  by (auto simp: word_ok_def no_break_def list_all_iff is_space_def)

lemma latin_words_request: "word_ok m \<Longrightarrow> word_ok t \<Longrightarrow> \<exists>ws. latin_words (m @ '' '' @ t @ '' '' @ v) = m # t # ws"
  by (simp add: latin_words_def word_ok_def list_all_iff split_at_append is_space_def)

lemma find_head:
  "no_break l \<Longrightarrow> l \<noteq> [] \<Longrightarrow> \<not> starts_with t [CR, LF] \<Longrightarrow>
     find_sub [CR, LF, CR, LF] (l @ CR # LF # t) = map_option (\<lambda>i. i + length l + 2) (find_sub [CR, LF, CR, LF] t)"
proof (induction l)
  case (Cons c l)
  show ?case
  proof (cases "l = []")
    case True
    with Cons.prems show ?thesis by (cases "find_sub [CR, LF, CR, LF] t") (auto simp: starts_with_Cons starts_with_single)
  next
    case False
    with Cons.IH Cons.prems have "find_sub [CR, LF, CR, LF] (l @ CR # LF # t) =
        map_option (\<lambda>i. i + length l + 2) (find_sub [CR, LF, CR, LF] t)" by simp
    then show ?thesis using Cons.prems
      by (cases "find_sub [CR, LF, CR, LF] t") (auto simp: starts_with_Cons)
  qed
qed simp

lemma find_blank_line:
  "no_break l \<Longrightarrow> l \<noteq> [] \<Longrightarrow> find_sub [CR, LF, CR, LF] (l @ CR # LF # CR # LF # t) = Some (length l)"
proof (induction l)
  case (Cons c l)
  then show ?case by (cases "l = []") (auto simp: starts_with_Cons)
qed simp

lemma find_lines:
  "ls \<noteq> [] \<Longrightarrow> list_all no_break ls \<Longrightarrow> list_all (\<lambda>l. l \<noteq> []) ls \<Longrightarrow>
     find_sub [CR, LF, CR, LF] (join [CR, LF] ls @ CR # LF # CR # LF # body) = Some (length (join [CR, LF] ls))"
proof (induction "[CR, LF]" ls rule: join.induct)
  case (2 l)
  then show ?case by (simp add: find_blank_line)
next
  case (3 l m ls)
  let ?t = "join [CR, LF] (m # ls) @ CR # LF # CR # LF # body"
  have "m \<noteq> []" "no_break m" using 3 by simp_all
  then have "\<not> starts_with ?t [CR, LF]" by (cases m; cases ls) (auto simp: starts_with_Cons)
  with 3 find_head [of l ?t] show ?case by simp
qed simp

lemma split_request:
  assumes "list_all no_break ls" "list_all (\<lambda>l. l \<noteq> []) ls" "ls \<noteq> []"
  shows "split_head_body (join [CR, LF] ls @ [CR, LF, CR, LF] @ body) = (join [CR, LF] ls, Some body)"
proof -
  note f = find_lines [OF assms(3,1,2), of body]
  then have "contains (join [CR, LF] ls @ [CR, LF, CR, LF] @ body) [CR, LF, CR, LF]" by (simp add: contains_def)
  with f show ?thesis by (simp add: split_head_body_def partition_def)
qed

section \<open>Properties\<close>



text \<open>When the lines of the head end with \<open>\\n\<close> alone, a blank line \<open>\\r\\n\\r\\n\<close> inside the body is taken
  for the end of the head: what stands before it in the body is lost.\<close>
theorem body_with_blank_line_is_cut:
  "map_option rr_body (case parse_raw_content (''POST / HTTP/1.1'' @ [LF] @ ''Host: h'' @ [LF, LF] @ ''one'' @ [CR, LF, CR, LF] @ ''two'') ''http''
     of Inr r \<Rightarrow> Some r | Inl _ \<Rightarrow> None) = Some (Some ''two'')"
  by code_simp

end
