(* ===== verification/SafeXml.thy ===== *)
theory SafeXml
  imports Common
begin

text \<open>
  XML input: the element trees of \<open>xml.etree\<close>, the screening of \<open>lib/utils/safe_xml.py\<close> and the Nmap
  reports of \<open>lib/parse/nmap.py\<close>.  The XML parser is a parameter.
\<close>

section \<open>Element trees\<close>

datatype element = Element (el_tag: string) (el_attrs: "(string \<times> string) list") (el_text: "string option")
  (el_children: "element list")

text \<open>\<open>iter(tag)\<close> in document order, the element itself included; \<open>find(tag)\<close> among the children.\<close>

fun elements :: "element \<Rightarrow> element list" where
  "elements (Element tag attrs text children) = Element tag attrs text children # concat (map elements children)"

definition el_iter :: "string \<Rightarrow> element \<Rightarrow> element list" where
  "el_iter tag e = filter (\<lambda>x. el_tag x = tag) (elements e)"

text \<open>Using what \<open>find\<close> did not find raises \<open>AttributeError\<close>.\<close>

definition el_find :: "string \<Rightarrow> element \<Rightarrow> element result" where
  "el_find tag e =
     (case List.find (\<lambda>x. el_tag x = tag) (el_children e) of
        Some x \<Rightarrow> Inr x
      | None \<Rightarrow> Inl (AttributeError ''NoneType''))"

definition el_get :: "string \<Rightarrow> element \<Rightarrow> string option" where
  "el_get key e = map_of (el_attrs e) key"

section \<open>Screening\<close>

text \<open>\<open><!\s*(?:DOCTYPE|ENTITY)\b\<close> without regard to case.\<close>

definition forbidden_at :: "string \<Rightarrow> bool" where
  "forbidden_at s \<longleftrightarrow>
     starts_with s ''<!'' \<and>
     (let t = lower (lstrip_p (\<lambda>c. is_space c \<and> code c < 28 \<or> c = CHR '' '') (drop 2 s)) in
      list_ex (\<lambda>w. starts_with t w \<and> (drop (length w) t = [] \<or> \<not> is_word (hd (drop (length w) t))))
        [''doctype'', ''entity''])"

fun forbidden_xml_markup :: "string \<Rightarrow> bool" where
  "forbidden_xml_markup [] \<longleftrightarrow> False"
| "forbidden_xml_markup (c # s) \<longleftrightarrow> forbidden_at (c # s) \<or> forbidden_xml_markup s"

definition reject_unsafe_xml_markup :: "string \<Rightarrow> string result" where
  "reject_unsafe_xml_markup payload =
     (if forbidden_xml_markup payload \<or> forbidden_xml_markup (filter (\<lambda>c. code c \<noteq> 0) payload)
      then Inl (UnsafeXML ''XML DTDs and entity declarations are not supported'')
      else Inr payload)"

text \<open>\<open>defusedxml\<close> either gives a tree, fails to parse, or refuses the document.\<close>

datatype xml_outcome = Parsed element | NotXml | Defused

definition xml_result :: "xml_outcome \<Rightarrow> element result" where
  "xml_result r =
     (case r of
        Parsed e \<Rightarrow> Inr e
      | NotXml \<Rightarrow> Inl (ParseError ''not well-formed'')
      | Defused \<Rightarrow> Inl (UnsafeXML ''Unsafe XML markup is not supported''))"

definition xml_fromstring :: "(string \<Rightarrow> xml_outcome) \<Rightarrow> string \<Rightarrow> element result" where
  "xml_fromstring parser content =
     rbind (reject_unsafe_xml_markup content) (\<lambda>content. xml_result (parser content))"

text \<open>The file is read twice, the second time by the parser.\<close>

definition xml_parse_file ::
  "(string \<Rightarrow> string result) \<Rightarrow> (string \<Rightarrow> xml_outcome) \<Rightarrow> string \<Rightarrow> element result" where
  "xml_parse_file read_bytes parser path =
     rbind (rbind (read_bytes path) reject_unsafe_xml_markup) (\<lambda>_.
     rbind (read_bytes path) (\<lambda>content. xml_result (parser content)))"

section \<open>Nmap reports\<close>

definition port_open :: "element \<Rightarrow> bool result" where
  "port_open port =
     (if el_get ''protocol'' port \<noteq> Some ''tcp'' then Inr False
      else rbind (el_find ''state'' port) (\<lambda>state.
        if el_get ''state'' state \<noteq> Some ''open'' then Inr False
        else rbind (el_find ''service'' port) (\<lambda>service.
          Inr (el_get ''name'' service \<in> {Some ''http'', Some ''unknown''}))))"

definition show_optional :: "string option \<Rightarrow> string" where
  "show_optional v = (case v of None \<Rightarrow> ''None'' | Some s \<Rightarrow> s)"

definition host_name :: "element \<Rightarrow> string option result" where
  "host_name host =
     rbind (rbind (el_find ''hostnames'' host) (el_find ''hostname'')) (\<lambda>h.
       if el_get ''name'' h \<noteq> None \<and> el_get ''name'' h \<noteq> Some [] then Inr (el_get ''name'' h)
       else rbind (el_find ''address'' host) (\<lambda>a. Inr (el_get ''addr'' a)))"

definition host_targets :: "element \<Rightarrow> string list result" where
  "host_targets host =
     rbind (host_name host) (\<lambda>hostname.
     rbind (el_find ''ports'' host) (\<lambda>ports.
     rbind (rmap (\<lambda>port. rbind (port_open port) (\<lambda>ok. Inr (port, ok))) (el_iter ''port'' ports)) (\<lambda>checked.
       Inr (map (\<lambda>(port, _). show_optional hostname @ '':'' @ show_optional (el_get ''portid'' port))
              (filter snd checked)))))"

definition parse_nmap :: "(string \<Rightarrow> string result) \<Rightarrow> (string \<Rightarrow> xml_outcome) \<Rightarrow> string \<Rightarrow> string list result" where
  "parse_nmap read_bytes parser file =
     rbind (xml_parse_file read_bytes parser file) (\<lambda>doc.
     rbind (rmap host_targets (el_iter ''host'' doc)) (\<lambda>ts. Inr (concat ts)))"

section \<open>Facts\<close>

lemma forbidden_append: "forbidden_at t \<Longrightarrow> forbidden_xml_markup (s @ t)"
proof -
  assume "forbidden_at t"
  moreover from this have "t \<noteq> []" by (auto simp: forbidden_at_def starts_with_def)
  ultimately have "forbidden_xml_markup t" by (cases t) simp_all
  then show ?thesis by (induction s) simp_all
qed

lemma forbidden_parts: "forbidden_xml_markup s \<longleftrightarrow> (\<exists>a b. s = a @ b \<and> forbidden_at b)"
proof
  show "\<exists>a b. s = a @ b \<and> forbidden_at b \<Longrightarrow> forbidden_xml_markup s" using forbidden_append by blast
  show "forbidden_xml_markup s \<Longrightarrow> \<exists>a b. s = a @ b \<and> forbidden_at b"
  proof (induction s)
    case (Cons c s)
    then show ?case by (metis append_Cons append_Nil forbidden_xml_markup.simps(2))
  qed simp
qed

text \<open>The screen does not read the document: nothing it lets through holds a DTD or an entity
  declaration, even with zero bytes strewn in.\<close>

theorem unsafe_markup_never_parsed:
  "xml_fromstring parser content = Inr e \<Longrightarrow> \<not> forbidden_xml_markup (filter (\<lambda>c. code c \<noteq> 0) content)"
  by (auto simp: xml_fromstring_def reject_unsafe_xml_markup_def split: if_splits)

text \<open>A host without a hostname element makes the whole report fail.\<close>

theorem host_without_name_fails:
  "List.find (\<lambda>x. el_tag x = ''hostname'') hs = None \<Longrightarrow>
     host_targets (Element ''host'' attrs t (Element ''hostnames'' [] None hs # cs)) = Inl (AttributeError ''NoneType'')"
  by (simp add: host_targets_def host_name_def el_find_def)

end
