(* ===== verification/Options.thy ===== *)
theory Options
  imports Config Headers SafeXml Proxy Wordlist
begin

text \<open>
  \<open>parse_options\<close> of \<open>lib/core/options.py\<close>: from the arguments and the configuration file to the
  checked options.  Every step reads and writes the map of options; \<open>fail\<close> exits with status 1.
  What the steps ask of the system (files, standard input, saved sessions, the Nmap report, the
  Python version, whether a regular expression compiles) is a record of functions.
\<close>

section \<open>The surroundings\<close>

record startup =
  s_args :: "string list"
  s_config_file :: string
  s_config :: "string \<Rightarrow> config"
  s_json :: "string \<Rightarrow> pyval option"
  s_session_dir :: string
  s_nodes :: "string \<Rightarrow> node option"
  s_mtime :: "string \<Rightarrow> rat"
  s_exists :: "string \<Rightarrow> bool"
  s_is_file :: "string \<Rightarrow> bool"
  s_is_dir :: "string \<Rightarrow> bool"
  s_files :: "string \<Rightarrow> string list"
  s_texts :: file_texts
  s_read :: "string \<Rightarrow> string result"
  s_read_bytes :: "string \<Rightarrow> string result"
  s_stdin :: string
  s_xml :: "string \<Rightarrow> xml_outcome"
  s_ipv6_network :: "string \<Rightarrow> string list result"
  s_compile_error :: "string \<Rightarrow> string option"
  s_abs_path :: "string \<Rightarrow> string"
  s_script_path :: string
  s_python :: "nat list"
  s_native :: bool

definition fail :: "string \<Rightarrow> 'a result" where
  "fail message = Inl (SystemExit ''1'')"

definition fail_if :: "bool \<Rightarrow> string \<Rightarrow> unit result" where
  "fail_if b message = (if b then fail message else Inr ())"

definition fail_on_value_error :: "'a result \<Rightarrow> 'a result" where
  "fail_on_value_error r = (case r of Inl (ValueError m) \<Rightarrow> fail m | _ \<Rightarrow> r)"

text \<open>A text option, where \<open>None\<close> and the empty text are alike, the texts of a list, and a text that
  has to be there.\<close>

definition text_of :: "pyval \<Rightarrow> string result" where
  "text_of v = (case v of PyNone \<Rightarrow> Inr [] | PyStr s \<Rightarrow> Inr s | _ \<Rightarrow> Inl (TypeError ''not a text''))"

definition texts_of :: "pyval \<Rightarrow> string list result" where
  "texts_of v = (if v = PyNone then Inr [] else rbind (py_iter v) (rmap py_text))"

definition text_option :: "pyval \<Rightarrow> string option result" where
  "text_option v =
     (case v of PyNone \<Rightarrow> Inr None | PyStr s \<Rightarrow> Inr (Some s) | _ \<Rightarrow> Inl (TypeError ''not a text''))"

definition the_text :: "pyval \<Rightarrow> string result" where
  "the_text v = (case v of PyStr s \<Rightarrow> Inr s | _ \<Rightarrow> Inl (AttributeError ''not a text''))"

definition the_int :: "pyval \<Rightarrow> int result" where
  "the_int v = (case v of PyInt i \<Rightarrow> Inr i | _ \<Rightarrow> Inl (TypeError ''not an integer''))"

definition the_float :: "pyval \<Rightarrow> pyfloat result" where
  "the_float v = (case v of PyFloat x \<Rightarrow> Inr x | PyInt i \<Rightarrow> Inr (Fin (of_int i)) | _ \<Rightarrow> Inl (TypeError ''not a number''))"

section \<open>Single values\<close>

text \<open>A range of status codes holds both ends; one that runs backwards is empty.\<close>

definition status_token :: "string \<Rightarrow> int list result" where
  "status_token token =
     (if CHR ''-'' \<in> set token
      then (case split_char (CHR ''-'') (strip token) of
              [start, finish] \<Rightarrow>
                (case (py_int start, py_int finish) of
                   (Some a, Some b) \<Rightarrow> Inr [a..b]
                 | _ \<Rightarrow> fail (''Invalid status code or status code range: '' @ token))
            | _ \<Rightarrow> fail (''Invalid status code or status code range: '' @ token))
      else (case py_int (strip token) of
              Some n \<Rightarrow> Inr [n]
            | None \<Rightarrow> fail (''Invalid status code or status code range: '' @ token)))"

definition parse_status_codes :: "string \<Rightarrow> int list result" where
  "parse_status_codes s =
     (if s = [] then Inr []
      else rbind (rmap status_token (split_char (CHR '','') s)) (\<lambda>codes. Inr (remdups (concat codes))))"

definition parse_advanced_ranges :: "string option \<Rightarrow> numeric_range list result" where
  "parse_advanced_ranges v = fail_on_value_error (parse_numeric_ranges v)"

definition parse_advanced_times :: "string option \<Rightarrow> time_filter list result" where
  "parse_advanced_times v = fail_on_value_error (parse_time_filters v)"

definition size_argument :: "pyval \<Rightarrow> size_arg result" where
  "size_argument v =
     (case v of PyNone \<Rightarrow> Inr NoSize | PyInt i \<Rightarrow> Inr (SizeInt i) | PyStr s \<Rightarrow> Inr (SizeText s)
      | _ \<Rightarrow> Inl (TypeError ''not a size''))"

definition parse_size_option :: "pyval \<Rightarrow> int result" where
  "parse_size_option v = rbind (size_argument v) (\<lambda>a. fail_on_value_error (parse_size a))"

definition parse_size_list_option :: "string option \<Rightarrow> int set result" where
  "parse_size_list_option v = fail_on_value_error (parse_size_list v)"

definition validate_advanced_mode :: "pyval \<Rightarrow> string \<Rightarrow> unit result" where
  "validate_advanced_mode v option_name =
     fail_if (v \<notin> {PyStr ''and'', PyStr ''or''}) (option_name @ '' must be either and or or'')"

definition is_cli_flag_present :: "string list \<Rightarrow> string list \<Rightarrow> bool" where
  "is_cli_flag_present args flags \<longleftrightarrow> list_ex (\<lambda>a. a \<in> set flags) args"

definition access_file :: "startup \<Rightarrow> string \<Rightarrow> unit result" where
  "access_file env path =
     (if \<not> s_exists env path then fail (path @ '' does not exist'')
      else if \<not> s_is_file env path then fail (path @ '' is not a file'')
      else if \<not> can_read (s_texts env) path then fail (path @ '' cannot be read'')
      else Inr ())"

definition split_csv :: "string \<Rightarrow> string list" where
  "split_csv v = filter (\<lambda>w. w \<noteq> []) (map strip (split_char (CHR '','') v))"

section \<open>Wordlists\<close>

definition category_path :: "startup \<Rightarrow> string \<Rightarrow> string" where
  "category_path env filename =
     build_path (build_path (build_path (s_script_path env) ''db'') ''categories'') filename"

text \<open>The files of one category name, or nothing for an unknown one.\<close>

definition category_files :: "string \<Rightarrow> string list" where
  "category_files category =
     (let key = lower category;
          matches = (if ends_with key ''*''
                     then map snd (filter (\<lambda>(name, _). starts_with name (butlast key)) wordlist_categories) else [])
      in if matches \<noteq> [] then matches
         else (case map_of wordlist_categories key of Some filename \<Rightarrow> [filename] | None \<Rightarrow> []))"

definition resolve_wordlist_categories :: "startup \<Rightarrow> string list \<Rightarrow> string list result" where
  "resolve_wordlist_categories env categories =
     (let normalized = filter (\<lambda>c. c \<noteq> []) (map strip categories) in
      if list_ex (\<lambda>c. lower c \<in> {''all'', ''*''}) normalized
      then Inr (map (\<lambda>(_, filename). category_path env filename) wordlist_categories)
      else if list_ex (\<lambda>c. category_files c = []) normalized
      then fail (''Unknown wordlist categories: '' @ join '', '' (filter (\<lambda>c. category_files c = []) normalized))
      else Inr (map (category_path env) (concat (map category_files normalized))))"

definition resolve_wordlists :: "startup \<Rightarrow> opt_values \<Rightarrow> string list result" where
  "resolve_wordlists env vs =
     rbind (text_of (vs ''wordlists'')) (\<lambda>given.
     rbind (text_of (vs ''wordlist_categories'')) (\<lambda>cats.
     rbind (resolve_wordlist_categories env (split_csv cats)) (\<lambda>files.
       let wordlists = split_csv given @ files;
           wordlists = (if wordlists = [] then [build_path (build_path (s_script_path env) ''db'') ''dicc.txt''] else wordlists);
           expanded = concat (map (\<lambda>w. if s_is_dir env w then s_files env w else [w]) wordlists);
           unique = dedup_from [] expanded
       in rbind (rmap (access_file env) unique) (\<lambda>_. Inr unique))))"

section \<open>Checks\<close>

definition fl_finite :: "pyfloat \<Rightarrow> bool" where
  "fl_finite x = (case x of Fin _ \<Rightarrow> True | _ \<Rightarrow> False)"

definition validate_numeric_options :: "opt_values \<Rightarrow> unit result" where
  "validate_numeric_options vs =
     rbind (the_float (vs ''timeout'')) (\<lambda>timeout.
     rbind (fail_if (\<not> fl_finite timeout \<or> \<not> fl_less (Fin 0) timeout) ''--timeout must be finite and greater than zero'') (\<lambda>_.
     rbind (the_float (vs ''delay'')) (\<lambda>delay.
     rbind (fail_if (\<not> fl_finite delay \<or> fl_less delay (Fin 0)) ''--delay must be finite and zero or greater'') (\<lambda>_.
     rbind (the_int (vs ''sqlite_commit_batch_size'')) (\<lambda>batch.
     rbind (fail_if (batch < 1) ''--sqlite-commit-batch-size must be greater than zero'') (\<lambda>_.
     rbind (rmap (\<lambda>(attribute, option_name).
              rbind (the_int (vs attribute)) (\<lambda>n. fail_if (n < 0) (option_name @ '' must be zero or greater'')))
            [(''max_retries'', ''--retries''), (''max_rate'', ''--max-rate''),
             (''recursion_depth'', ''--max-recursion-depth'')]) (\<lambda>_. Inr ())))))))"

definition regex_options :: "(string \<times> string) list" where
  "regex_options =
     [(''exclude_regex'', ''--exclude-regex''), (''exclude_redirect'', ''--exclude-redirect''),
      (''match_regex'', ''--match-regex''), (''filter_regex'', ''--filter-regex''),
      (''match_header_regex'', ''--match-header-regex''), (''filter_header_regex'', ''--filter-header-regex'')]"

definition validate_regex_options :: "startup \<Rightarrow> opt_values \<Rightarrow> unit result" where
  "validate_regex_options env vs =
     rbind (rmap (\<lambda>(key, label). rbind (text_option (vs key)) (\<lambda>pattern.
              fail_on_value_error (validate_regex (s_compile_error env) pattern label))) regex_options) (\<lambda>_. Inr ())"

text \<open>\<open>opt.headers\<close> is a dict from here on.\<close>

definition header_dict :: "pyval \<Rightarrow> (string \<times> pyval) list" where
  "header_dict v = (case v of PyDict hs \<Rightarrow> hs | _ \<Rightarrow> [])"

definition validate_random_agent_headers :: "opt_values \<Rightarrow> unit result" where
  "validate_random_agent_headers vs =
     fail_if (py_truth (vs ''random_agents'') \<and> list_ex (\<lambda>(name, _). lower name = ''user-agent'') (header_dict (vs ''headers'')))
       ''--random-agent cannot be combined with a fixed User-Agent''"

section \<open>Sessions\<close>

definition resolve_session :: "startup \<Rightarrow> opt_values \<Rightarrow> opt_values result" where
  "resolve_session env vs =
     rbind (text_of (vs ''sessions_dir'')) (\<lambda>dir.
       let base_dir = (if dir = [] then s_session_dir env else dir);
           sessions = list_sessions (s_mtime env) base_dir (s_nodes env base_dir)
       in if py_truth (vs ''list_sessions'') then rbind sessions (\<lambda>_. Inl (SystemExit ''0''))
          else if \<not> py_truth (vs ''session_id'') then Inr vs
          else if py_truth (vs ''session_file'') then fail ''Use either --session or --session-id, not both.''
          else rbind sessions (\<lambda>found.
               if found = [] then fail (''No resumable sessions found in '' @ base_dir)
               else rbind (text_of (vs ''session_id'')) (\<lambda>session_id.
                 case py_int session_id of
                   None \<Rightarrow> fail (''Invalid session id: '' @ session_id)
                 | Some i \<Rightarrow>
                     if i < 1 \<or> int (length found) < i then fail (''Session id out of range: '' @ show_int i)
                     else Inr (vs(''session_file'' := PyStr (su_path (found ! nat (i - 1))))))))"

section \<open>The steps\<close>

definition set_method :: "startup \<Rightarrow> opt_values \<Rightarrow> opt_values result" where
  "set_method env vs = rbind (the_text (vs ''http_method'')) (\<lambda>m. Inr (vs(''http_method'' := PyStr (upper m))))"

definition nmap_error :: "exc \<Rightarrow> bool" where
  "nmap_error e \<longleftrightarrow>
     (case e of OSError _ \<Rightarrow> True | AttributeError _ \<Rightarrow> True | TypeError _ \<Rightarrow> True | ParseError _ \<Rightarrow> True
      | UnsafeXML _ \<Rightarrow> True | _ \<Rightarrow> False)"

text \<open>The sources of targets, the first that is given; a raw request is only looked at here.\<close>

definition find_targets :: "startup \<Rightarrow> opt_values \<Rightarrow> opt_values result" where
  "find_targets env vs =
     (let urls = (\<lambda>us. vs(''urls'' := py_strings us)) in
      if py_truth (vs ''urls_file'')
      then rbind (text_of (vs ''urls_file'')) (\<lambda>path. rbind (access_file env path) (\<lambda>_.
             rbind (get_lines (s_texts env) path) (\<lambda>us. Inr (urls us))))
      else if py_truth (vs ''cidr'')
      then rbind (text_of (vs ''cidr'')) (\<lambda>cidr. rbind (iprange (s_ipv6_network env) cidr) (\<lambda>us. Inr (urls us)))
      else if py_truth (vs ''stdin_urls'') then Inr (urls (splitlines (s_stdin env)))
      else if py_truth (vs ''raw_file'')
      then rbind (text_of (vs ''raw_file'')) (\<lambda>path. rbind (access_file env path) (\<lambda>_. Inr vs))
      else if py_truth (vs ''nmap_report'')
      then rbind (text_of (vs ''nmap_report'')) (\<lambda>path.
             case parse_nmap (s_read_bytes env) (s_xml env) path of
               Inr us \<Rightarrow> Inr (urls us)
             | Inl e \<Rightarrow> if nmap_error e then fail ''Error while parsing Nmap report'' else Inl e)
      else if \<not> py_truth (vs ''urls'') \<and> \<not> py_truth (vs ''wordlist_status'')
      then fail ''URL target is missing, try using -u <url>''
      else Inr vs)"

definition clean_targets :: "startup \<Rightarrow> opt_values \<Rightarrow> opt_values result" where
  "clean_targets env vs =
     (if py_truth (vs ''wordlist_status'') \<and> \<not> py_truth (vs ''urls'') then Inr (vs(''urls'' := PyList []))
      else if py_truth (vs ''raw_file'') then Inr vs
      else rbind (texts_of (vs ''urls'')) (\<lambda>us.
             Inr (vs(''urls'' := py_strings (strip_and_uniquify (filter (\<lambda>u. \<not> starts_with u ''#'') us))))))"

definition set_wordlists :: "startup \<Rightarrow> opt_values \<Rightarrow> opt_values result" where
  "set_wordlists env vs = rbind (resolve_wordlists env vs) (\<lambda>files. Inr (vs(''wordlists'' := py_strings files)))"

definition check_numbers :: "startup \<Rightarrow> opt_values \<Rightarrow> opt_values result" where
  "check_numbers env vs =
     rbind (the_int (vs ''thread_count'')) (\<lambda>threads.
     rbind (fail_if (threads < 1) ''Threads number must be greater than zero'') (\<lambda>_.
     rbind (the_int (vs ''wordlist_max_size'')) (\<lambda>limit.
     rbind (fail_if (limit < 1) ''--wordlist-max-size must be greater than zero'') (\<lambda>_.
     rbind (validate_numeric_options vs) (\<lambda>_. Inr vs)))))"

definition wordlist_backends :: "string list" where "wordlist_backends = [''auto'', ''python'', ''native'']"
definition request_backends :: "string list" where "request_backends = [''python'', ''native'']"

definition check_backends :: "startup \<Rightarrow> opt_values \<Rightarrow> opt_values result" where
  "check_backends env vs =
     rbind (fail_if (vs ''wordlist_backend'' \<notin> set (map PyStr wordlist_backends))
              (''--wordlist-backend must be one of: '' @ join '', '' wordlist_backends)) (\<lambda>_.
       let native = (vs ''request_backend'' = PyStr ''native'');
           vs = (if native \<and> \<not> is_cli_flag_present (s_args env) [''-a'', ''--async'']
                 then vs(''async_mode'' := PyBool False) else vs)
       in rbind (fail_if (vs ''request_backend'' \<notin> set (map PyStr request_backends))
                   (''--request-backend must be one of: '' @ join '', '' request_backends)) (\<lambda>_.
          rbind (fail_if ((native \<or> vs ''wordlist_backend'' = PyStr ''native'') \<and>
                          get_native_python_version_error (s_python env) \<noteq> None) ''Python version'') (\<lambda>_. Inr vs)))"

definition set_proxies :: "startup \<Rightarrow> opt_values \<Rightarrow> opt_values result" where
  "set_proxies env vs =
     (if py_truth (vs ''tor'') then Inr (vs(''proxies'' := py_strings default_tor_proxies))
      else if py_truth (vs ''proxies_file'')
      then rbind (text_of (vs ''proxies_file'')) (\<lambda>path. rbind (access_file env path) (\<lambda>_.
             rbind (get_lines (s_texts env) path) (\<lambda>ps. Inr (vs(''proxies'' := py_strings ps)))))
      else Inr vs)"

definition set_data :: "startup \<Rightarrow> opt_values \<Rightarrow> opt_values result" where
  "set_data env vs =
     (if py_truth (vs ''data_file'')
      then rbind (text_of (vs ''data_file'')) (\<lambda>path. rbind (access_file env path) (\<lambda>_.
             rbind (s_read_bytes env path) (\<lambda>bytes. Inr (vs(''data'' := PyBytes bytes)))))
      else Inr vs)"

definition access_option :: "startup \<Rightarrow> opt_values \<Rightarrow> string \<Rightarrow> unit result" where
  "access_option env vs key =
     (if py_truth (vs key) then rbind (text_of (vs key)) (access_file env) else Inr ())"

definition check_certificates :: "startup \<Rightarrow> opt_values \<Rightarrow> opt_values result" where
  "check_certificates env vs =
     rbind (fail_if (py_truth (vs ''cert_file'') \<noteq> py_truth (vs ''key_file'')) client_certificate_pair_error) (\<lambda>_.
     rbind (access_option env vs ''cert_file'') (\<lambda>_.
     rbind (access_option env vs ''key_file'') (\<lambda>_. Inr vs)))"

text \<open>\<open>d.update(other)\<close>.\<close>

definition update_all :: "(string \<times> 'v) list \<Rightarrow> (string \<times> 'v) list \<Rightarrow> (string \<times> 'v) list" where
  "update_all d other = fold (\<lambda>(k, v). AList.update k v) other d"

definition headers_from_file :: "startup \<Rightarrow> opt_values \<Rightarrow> string ci_dict result" where
  "headers_from_file env vs =
     (if py_truth (vs ''headers_file'')
      then rbind (text_of (vs ''headers_file'')) (\<lambda>path. rbind (access_file env path) (\<lambda>_.
             case s_read env path of
               Inr text \<Rightarrow> Inr (headers_of_text text)
             | Inl (OSError m) \<Rightarrow> fail m
             | Inl (ValueError m) \<Rightarrow> fail m
             | Inl e \<Rightarrow> Inl e))
      else Inr [])"

definition headers_from_option :: "opt_values \<Rightarrow> string ci_dict result" where
  "headers_from_option vs =
     (if py_truth (vs ''headers'')
      then rbind (texts_of (vs ''headers'')) (\<lambda>lines. Inr (headers_of_text (join [LF] lines)))
      else Inr [])"

definition set_headers :: "startup \<Rightarrow> opt_values \<Rightarrow> opt_values result" where
  "set_headers env vs =
     rbind (headers_from_file env vs) (\<lambda>from_file.
     rbind (headers_from_option vs) (\<lambda>given.
     rbind (text_of (vs ''user_agent'')) (\<lambda>user_agent.
     rbind (text_of (vs ''cookie'')) (\<lambda>cookie.
       let hs = update_all from_file given;
           hs = (if user_agent \<noteq> [] then AList.update ''user-agent'' user_agent hs else hs);
           hs = (if cookie \<noteq> [] then AList.update ''cookie'' cookie hs else hs);
           vs = vs(''headers'' := PyDict (map (\<lambda>(k, v). (k, PyStr v)) hs))
       in rbind (validate_random_agent_headers vs) (\<lambda>_. Inr vs)))))"

text \<open>The options with status codes, with ranges and with times.\<close>

definition status_options :: "string list" where
  "status_options =
     [''include_status_codes'', ''exclude_status_codes'', ''recursion_status_codes'', ''skip_on_status'',
      ''match_status_codes'', ''filter_status_codes'']"

definition range_options :: "string list" where
  "range_options = [''match_sizes'', ''filter_sizes'', ''match_words'', ''filter_words'', ''match_lines'', ''filter_lines'']"

definition time_options :: "string list" where "time_options = [''match_time'', ''filter_time'']"

definition convert_option :: "(pyval \<Rightarrow> pyval result) \<Rightarrow> string \<Rightarrow> opt_values \<Rightarrow> opt_values result" where
  "convert_option f key vs = rbind (f (vs key)) (\<lambda>v. Inr (vs(key := v)))"

definition convert_status :: "pyval \<Rightarrow> pyval result" where
  "convert_status v = rbind (rbind (text_of v) parse_status_codes) (\<lambda>codes. Inr (PySet (map PyInt codes)))"

definition convert_ranges :: "pyval \<Rightarrow> pyval result" where
  "convert_ranges v =
     rbind (rbind (text_option v) parse_advanced_ranges) (\<lambda>rs. Inr (PyTuple (map (\<lambda>(a, b). PyTuple [PyInt a, PyInt b]) rs)))"

definition convert_times :: "pyval \<Rightarrow> pyval result" where
  "convert_times v =
     rbind (rbind (text_option v) parse_advanced_times) (\<lambda>ts. Inr (PyTuple (map (\<lambda>(c, x). PyTuple [PyStr [c], PyFloat x]) ts)))"

definition set_filters :: "startup \<Rightarrow> opt_values \<Rightarrow> opt_values result" where
  "set_filters env vs =
     rbind (rfold (convert_option convert_status) status_options vs) (\<lambda>vs.
     rbind (rfold (convert_option convert_ranges) range_options vs) (\<lambda>vs.
     rbind (rfold (convert_option convert_times) time_options vs) (\<lambda>vs.
     rbind (validate_advanced_mode (vs ''matcher_mode'') ''--matcher-mode'') (\<lambda>_.
     rbind (validate_advanced_mode (vs ''filter_mode'') ''--filter-mode'') (\<lambda>_.
     rbind (validate_regex_options env vs) (\<lambda>_. Inr vs))))))"

definition comma_list :: "string \<Rightarrow> string list" where
  "comma_list s = split_char (CHR '','') s"

definition subdir_list :: "string \<Rightarrow> string list" where
  "subdir_list s =
     map (lstrip_char (CHR ''/''))
       (strip_and_uniquify (map (\<lambda>d. if ends_with d ''/'' then d else d @ ''/'') (comma_list s)))"

definition set_affixes :: "startup \<Rightarrow> opt_values \<Rightarrow> opt_values result" where
  "set_affixes env vs =
     rbind (the_text (vs ''prefixes'')) (\<lambda>prefixes.
     rbind (the_text (vs ''suffixes'')) (\<lambda>suffixes.
     rbind (the_text (vs ''subdirs'')) (\<lambda>subdirs.
     rbind (the_text (vs ''exclude_subdirs'')) (\<lambda>exclude_subdirs.
       Inr (vs(''prefixes'' := PyTuple (map PyStr (strip_and_uniquify (comma_list prefixes))),
               ''suffixes'' := PyTuple (map PyStr (strip_and_uniquify (comma_list suffixes))),
               ''subdirs'' := py_strings (subdir_list subdirs),
               ''exclude_subdirs'' := py_strings (subdir_list exclude_subdirs)))))))"

definition set_sizes :: "startup \<Rightarrow> opt_values \<Rightarrow> opt_values result" where
  "set_sizes env vs =
     rbind (rbind (text_option (vs ''exclude_sizes'')) parse_size_list_option) (\<lambda>sizes.
     rbind (parse_size_option (vs ''minimum_response_size'')) (\<lambda>low.
     rbind (parse_size_option (vs ''maximum_response_size'')) (\<lambda>high.
       Inr (vs(''exclude_sizes'' := PySet (map PyInt (sorted_list_of_set sizes)),
               ''minimum_response_size'' := PyInt low, ''maximum_response_size'' := PyInt high)))))"

definition extension_list :: "string \<Rightarrow> string list" where
  "extension_list s = strip_and_uniquify (map (lstrip_char (CHR ''.'')) (comma_list s))"

definition set_extensions :: "startup \<Rightarrow> opt_values \<Rightarrow> opt_values result" where
  "set_extensions env vs =
     rbind (the_text (vs ''extensions'')) (\<lambda>extensions.
     rbind (the_text (vs ''exclude_extensions'')) (\<lambda>exclude.
       let es = (if extensions = ''*'' then common_extensions else extension_list extensions)
       in Inr (vs(''extensions'' := PyTuple (map PyStr es),
                  ''exclude_extensions'' := PyTuple (map PyStr (extension_list exclude))))))"

definition check_authentication :: "startup \<Rightarrow> opt_values \<Rightarrow> opt_values result" where
  "check_authentication env vs =
     (let auth = py_truth (vs ''auth''); kind = vs ''auth_type'' in
      rbind (fail_if (auth \<and> \<not> py_truth kind) ''Please select the authentication type with --auth-type'') (\<lambda>_.
      rbind (fail_if (py_truth kind \<and> \<not> auth) ''No authentication credential found'') (\<lambda>_.
      rbind (fail_if (auth \<and> kind \<notin> set (map PyStr authentication_types)) ''not an authentication type'') (\<lambda>_. Inr vs))))"

definition check_extensions :: "startup \<Rightarrow> opt_values \<Rightarrow> opt_values result" where
  "check_extensions env vs =
     rbind (texts_of (vs ''extensions'')) (\<lambda>es.
     rbind (texts_of (vs ''exclude_extensions'')) (\<lambda>ex.
     rbind (fail_if (set es \<inter> set ex \<noteq> {}) ''Exclude extension list can not contain any extension '') (\<lambda>_. Inr vs)))"

definition format_list :: "string \<Rightarrow> string list" where
  "format_list s = map strip (filter (\<lambda>f. f \<noteq> []) (comma_list s))"

text \<open>Two formats share a file unless the name tells them apart.\<close>

definition formats_share_file :: "string \<Rightarrow> string list \<Rightarrow> bool" where
  "formats_share_file output_file formats \<longleftrightarrow>
     output_file \<noteq> [] \<and> \<not> contains output_file ''{format}'' \<and> 1 < length formats \<and>
     (\<not> contains output_file ''{extension}'' \<or> {''plain'', ''simple''} \<subseteq> set formats)"

definition set_output :: "startup \<Rightarrow> opt_values \<Rightarrow> opt_values result" where
  "set_output env vs =
     rbind (rbind (the_text (vs ''output_formats'')) (\<lambda>s. Inr (format_list s))) (\<lambda>formats.
     rbind (fail_if (\<not> set formats \<subseteq> set file_based_output_formats) ''Invalid output format(s)'') (\<lambda>_.
     rbind (text_of (vs ''output_file'')) (\<lambda>output_file.
     rbind (fail_if (formats = [] \<and> output_file \<noteq> []) ''Please provide output formats'') (\<lambda>_.
     rbind (fail_if (formats_share_file output_file formats) ''Found at least 2 output formats sharing the same output file'') (\<lambda>_.
       let formats = formats @ (if py_truth (vs ''mysql_url'') then [''mysql''] else [])
                       @ (if py_truth (vs ''postgres_url'') then [''postgresql''] else [])
       in Inr (vs(''output_formats'' := py_strings formats)))))))"

definition path_options :: "string list" where
  "path_options = [''log_file'', ''output_file'', ''save_response'', ''save_response_jsonl'']"

definition set_paths :: "startup \<Rightarrow> opt_values \<Rightarrow> opt_values result" where
  "set_paths env vs =
     rfold (\<lambda>key vs. if py_truth (vs key)
                      then rbind (text_of (vs key)) (\<lambda>p. Inr (vs(key := PyStr (s_abs_path env p))))
                      else Inr vs) path_options vs"

definition backend_options_of :: "opt_values \<Rightarrow> backend_options result" where
  "backend_options_of vs =
     rbind (texts_of (vs ''proxies'')) (\<lambda>proxies.
     rbind (text_of (vs ''proxy_auth'')) (\<lambda>proxy_auth.
     rbind (text_of (vs ''auth'')) (\<lambda>auth.
     rbind (text_of (vs ''auth_type'')) (\<lambda>auth_type.
     rbind (text_of (vs ''cert_file'')) (\<lambda>cert.
     rbind (text_of (vs ''key_file'')) (\<lambda>key.
     rbind (text_of (vs ''ip'')) (\<lambda>ip.
       Inr \<lparr>bo_async_mode = py_truth (vs ''async_mode''), bo_proxies = proxies, bo_proxy_auth = proxy_auth,
            bo_auth = auth, bo_auth_type = auth_type, bo_cert_file = cert, bo_key_file = key, bo_ip = ip\<rparr>)))))))"

definition check_runtime :: "startup \<Rightarrow> opt_values \<Rightarrow> opt_values result" where
  "check_runtime env vs =
     rbind (backend_options_of vs) (\<lambda>opt.
     rbind (the_text (vs ''request_backend'')) (\<lambda>request_backend.
     rbind (the_text (vs ''wordlist_backend'')) (\<lambda>wordlist_backend.
     rbind (if request_backend = ''native'' then get_native_request_backend_error opt
            else get_async_request_backend_error opt) (\<lambda>problem.
     rbind (fail_if (problem \<noteq> None) ''request backend'') (\<lambda>_.
     rbind (fail_if (get_native_runtime_error request_backend wordlist_backend (s_python env) (s_native env) \<noteq> None)
              ''native runtime'') (\<lambda>_. Inr vs))))))"

definition option_steps :: "(startup \<Rightarrow> opt_values \<Rightarrow> opt_values result) list" where
  "option_steps =
     [set_method, find_targets, clean_targets, set_wordlists, check_numbers, check_backends, set_proxies, set_data,
      check_certificates, set_headers, set_filters, set_affixes, set_sizes, set_extensions, check_authentication,
      check_extensions, set_output, set_paths, check_runtime]"

text \<open>Everything after the session options.\<close>

definition check_options :: "startup \<Rightarrow> opt_values \<Rightarrow> opt_values result" where
  "check_options env vs = rfold (\<lambda>step. step env) option_steps vs"

definition parse_options :: "startup \<Rightarrow> opt_values result" where
  "parse_options env =
     rbind (parse_arguments (s_config_file env) (s_args env)) (\<lambda>vs.
     rbind (text_of (vs ''config'')) (\<lambda>path.
     rbind (merge_config (s_json env) (s_config env path) vs) (\<lambda>vs.
     rbind (resolve_session env vs) (\<lambda>vs.
       if py_truth (vs ''session_file'') then Inr vs
       else check_options env vs))))"

section \<open>What a step leaves alone\<close>

definition leaves :: "string \<Rightarrow> (startup \<Rightarrow> opt_values \<Rightarrow> opt_values result) \<Rightarrow> bool" where
  "leaves k step \<longleftrightarrow> (\<forall>env vs vs'. step env vs = Inr vs' \<longrightarrow> vs' k = vs k)"

named_theorems leave_rules \<open>the options a step does not write\<close>

lemma fail_simps [simp]: "fail m \<noteq> Inr x" "Inr x \<noteq> fail m" "fail_if b m = Inr u \<longleftrightarrow> \<not> b"
  by (simp_all add: fail_def fail_if_def)

lemma fold_leaves: "(\<And>x vs vs'. x \<in> set xs \<Longrightarrow> f x vs = Inr vs' \<Longrightarrow> vs' k = vs k) \<Longrightarrow> rfold f xs vs = Inr vs' \<Longrightarrow> vs' k = vs (k :: string)"
proof (induction xs arbitrary: vs)
  case (Cons x xs)
  from Cons.prems(2) obtain w where w: "f x vs = Inr w" "rfold f xs w = Inr vs'" by (auto simp: rbind_eq_Inr)
  have "vs' k = w k" by (rule Cons.IH [OF _ w(2)]) (use Cons.prems(1) in auto)
  with Cons.prems(1) [of x vs w] w(1) show ?case by simp
qed simp

lemma converted: "convert_option f key vs = Inr vs' \<longleftrightarrow> (\<exists>v. f (vs key) = Inr v \<and> vs' = vs(key := v))"
  by (auto simp: convert_option_def rbind_eq_Inr)

lemma convert_leaves: "k \<notin> set keys \<Longrightarrow> rfold (convert_option f) keys vs = Inr vs' \<Longrightarrow> vs' k = vs k"
  by (rule fold_leaves) (auto simp: converted)

lemma set_method_leaves [leave_rules]: "k \<noteq> ''http_method'' \<Longrightarrow> leaves k set_method"
  by (auto simp: leaves_def set_method_def rbind_eq_Inr)

lemma find_targets_leaves [leave_rules]: "k \<noteq> ''urls'' \<Longrightarrow> leaves k find_targets"
  by (auto simp: leaves_def find_targets_def rbind_eq_Inr Let_def split: if_split_asm sum.split_asm)

lemma clean_targets_leaves [leave_rules]: "k \<noteq> ''urls'' \<Longrightarrow> leaves k clean_targets"
  by (auto simp: leaves_def clean_targets_def rbind_eq_Inr split: if_splits)

lemma set_wordlists_leaves [leave_rules]: "k \<noteq> ''wordlists'' \<Longrightarrow> leaves k set_wordlists"
  by (auto simp: leaves_def set_wordlists_def rbind_eq_Inr)

lemma check_numbers_leaves [leave_rules]: "leaves k check_numbers"
  by (auto simp: leaves_def check_numbers_def rbind_eq_Inr)

lemma check_backends_leaves [leave_rules]: "k \<noteq> ''async_mode'' \<Longrightarrow> leaves k check_backends"
  by (auto simp: leaves_def check_backends_def rbind_eq_Inr Let_def)

lemma set_proxies_leaves [leave_rules]: "k \<noteq> ''proxies'' \<Longrightarrow> leaves k set_proxies"
  by (auto simp: leaves_def set_proxies_def rbind_eq_Inr split: if_splits)

lemma set_data_leaves [leave_rules]: "k \<noteq> ''data'' \<Longrightarrow> leaves k set_data"
  by (auto simp: leaves_def set_data_def rbind_eq_Inr split: if_splits)

lemma check_certificates_leaves [leave_rules]: "leaves k check_certificates"
  by (auto simp: leaves_def check_certificates_def rbind_eq_Inr)

lemma set_headers_leaves [leave_rules]: "k \<noteq> ''headers'' \<Longrightarrow> leaves k set_headers"
  by (auto simp: leaves_def set_headers_def rbind_eq_Inr Let_def)

lemma set_filters_leaves [leave_rules]: "k \<notin> set (status_options @ range_options @ time_options) \<Longrightarrow> leaves k set_filters"
  unfolding leaves_def set_filters_def by (auto simp: rbind_eq_Inr dest!: convert_leaves [rotated])

lemma set_affixes_leaves [leave_rules]:
  "k \<notin> {''prefixes'', ''suffixes'', ''subdirs'', ''exclude_subdirs''} \<Longrightarrow> leaves k set_affixes"
  by (auto simp: leaves_def set_affixes_def rbind_eq_Inr)

lemma set_sizes_leaves [leave_rules]:
  "k \<notin> {''exclude_sizes'', ''minimum_response_size'', ''maximum_response_size''} \<Longrightarrow> leaves k set_sizes"
  by (auto simp: leaves_def set_sizes_def rbind_eq_Inr)

lemma set_extensions_leaves [leave_rules]: "k \<notin> {''extensions'', ''exclude_extensions''} \<Longrightarrow> leaves k set_extensions"
  by (auto simp: leaves_def set_extensions_def rbind_eq_Inr Let_def)

lemma check_authentication_leaves [leave_rules]: "leaves k check_authentication"
  by (auto simp: leaves_def check_authentication_def rbind_eq_Inr Let_def)

lemma check_extensions_leaves [leave_rules]: "leaves k check_extensions"
  by (auto simp: leaves_def check_extensions_def rbind_eq_Inr)

lemma set_output_leaves [leave_rules]: "k \<noteq> ''output_formats'' \<Longrightarrow> leaves k set_output"
  by (auto simp: leaves_def set_output_def rbind_eq_Inr Let_def)

lemma set_paths_leaves [leave_rules]: "k \<notin> set path_options \<Longrightarrow> leaves k set_paths"
  unfolding leaves_def set_paths_def
  by (intro allI impI, erule fold_leaves [rotated]) (auto simp: rbind_eq_Inr split: if_splits)

lemma check_runtime_leaves [leave_rules]: "leaves k check_runtime"
  by (auto simp: leaves_def check_runtime_def rbind_eq_Inr)

text \<open>A run of steps, looked at around one of them.\<close>

lemma run_step:
  assumes "rfold (\<lambda>step. step env) (pre @ step # post) vs = Inr vs'"
  obtains vs1 vs2 where "rfold (\<lambda>step. step env) pre vs = Inr vs1" "step env vs1 = Inr vs2"
    "rfold (\<lambda>step. step env) post vs2 = Inr vs'"
  using assms by (auto simp: rfold_append rbind_eq_Inr)

lemma run_leaves: "list_all (leaves k) steps \<Longrightarrow> rfold (\<lambda>step. step env) steps vs = Inr vs' \<Longrightarrow> vs' k = vs k"
  by (rule fold_leaves) (auto simp: list_all_iff leaves_def)

lemma step_result:
  assumes "rfold (\<lambda>step. step env) option_steps vs = Inr vs'" and "i < length option_steps"
  obtains vs1 vs2 where "(option_steps ! i) env vs1 = Inr vs2"
    "\<And>k. list_all (leaves k) (drop (Suc i) option_steps) \<Longrightarrow> vs' k = vs2 k"
proof -
  have "rfold (\<lambda>step. step env) (take i option_steps @ option_steps ! i # drop (Suc i) option_steps) vs = Inr vs'"
    using assms id_take_nth_drop [OF assms(2)] by simp
  then obtain vs1 vs2 where "(option_steps ! i) env vs1 = Inr vs2" "rfold (\<lambda>step. step env) (drop (Suc i) option_steps) vs2 = Inr vs'"
    by (rule run_step)
  then show thesis using that run_leaves by metis
qed

lemmas step_sets = path_options_def status_options_def range_options_def time_options_def

section \<open>What the steps establish\<close>

definition status_set :: "pyval \<Rightarrow> bool" where
  "status_set v \<longleftrightarrow> (\<exists>codes. v = PySet (map PyInt codes) \<and> distinct codes)"

definition range_tuple :: "pyval \<Rightarrow> bool" where
  "range_tuple v \<longleftrightarrow>
     (\<exists>rs. v = PyTuple (map (\<lambda>(a, b). PyTuple [PyInt a, PyInt b]) rs) \<and> (\<forall>(a, b) \<in> set rs. 0 \<le> a \<and> a \<le> b))"

definition time_tuple :: "pyval \<Rightarrow> bool" where
  "time_tuple v \<longleftrightarrow> (\<exists>ts. v = PyTuple (map (\<lambda>(c, x). PyTuple [PyStr [c], PyFloat x]) ts))"

definition text_tuple :: "string list \<Rightarrow> pyval" where
  "text_tuple ws = PyTuple (map PyStr ws)"

lemma fold_converts:
  assumes "rfold (convert_option f) keys vs = Inr vs'" "distinct keys" "k \<in> set keys"
  shows "f (vs k) = Inr (vs' k)"
  using assms
proof (induction keys arbitrary: vs)
  case (Cons key keys)
  from Cons.prems(1) obtain v where v: "f (vs key) = Inr v" "rfold (convert_option f) keys (vs(key := v)) = Inr vs'"
    by (auto simp: rbind_eq_Inr converted)
  show ?case
  proof (cases "k = key")
    case True
    with Cons.prems(2) convert_leaves [OF _ v(2), of key] v(1) show ?thesis by simp
  next
    case False
    with Cons.IH [OF v(2)] Cons.prems show ?thesis by simp
  qed
qed simp

lemma parse_status_distinct: "parse_status_codes s = Inr codes \<Longrightarrow> distinct codes"
  by (auto simp: parse_status_codes_def rbind_eq_Inr split: if_splits)

lemma converts:
  "convert_status v = Inr w \<Longrightarrow> status_set w"
  "convert_ranges v = Inr w \<Longrightarrow> range_tuple w"
  "convert_times v = Inr w \<Longrightarrow> time_tuple w"
proof -
  have r: "fail_on_value_error m = Inr x \<longleftrightarrow> m = Inr x" for m :: "'a result" and x
    by (auto simp: fail_on_value_error_def split: sum.splits exc.splits)
  show "convert_status v = Inr w \<Longrightarrow> status_set w"
    by (auto simp: convert_status_def rbind_eq_Inr status_set_def dest: parse_status_distinct)
  show "convert_ranges v = Inr w \<Longrightarrow> range_tuple w"
    by (auto simp: convert_ranges_def rbind_eq_Inr range_tuple_def parse_advanced_ranges_def r dest: parse_numeric_ranges_bounds)
  show "convert_times v = Inr w \<Longrightarrow> time_tuple w"
    by (auto simp: convert_times_def rbind_eq_Inr time_tuple_def)
qed

lemma filters_convert:
  assumes "set_filters env vs = Inr vs'"
  shows "k \<in> set status_options \<Longrightarrow> status_set (vs' k)" "k \<in> set range_options \<Longrightarrow> range_tuple (vs' k)"
    "k \<in> set time_options \<Longrightarrow> time_tuple (vs' k)"
proof -
  obtain v1 v2 where v1: "rfold (convert_option convert_status) status_options vs = Inr v1"
    and v2: "rfold (convert_option convert_ranges) range_options v1 = Inr v2"
    and v3: "rfold (convert_option convert_times) time_options v2 = Inr vs'"
    using assms by (auto simp: set_filters_def rbind_eq_Inr)
  have d: "distinct status_options" "distinct range_options" "distinct time_options" by (simp_all add: step_sets)
  show "status_set (vs' k)" if k: "k \<in> set status_options"
  proof -
    have "k \<notin> set range_options" "k \<notin> set time_options" using k by (auto simp: step_sets)
    then have "vs' k = v1 k" using convert_leaves v2 v3 by metis
    with converts(1) [OF fold_converts [OF v1 d(1) k]] show ?thesis by simp
  qed
  show "range_tuple (vs' k)" if k: "k \<in> set range_options"
  proof -
    have "k \<notin> set time_options" using k by (auto simp: step_sets)
    then have "vs' k = v2 k" using convert_leaves v3 by metis
    with converts(2) [OF fold_converts [OF v2 d(2) k]] show ?thesis by simp
  qed
  show "time_tuple (vs' k)" if k: "k \<in> set time_options"
    using converts(3) [OF fold_converts [OF v3 d(3) k]] .
qed

lemma access_all: "rmap (access_file env) files = Inr us \<Longrightarrow> f \<in> set files \<Longrightarrow>
    s_exists env f \<and> s_is_file env f \<and> can_read (s_texts env) f"
proof (induction files arbitrary: us)
  case (Cons g files)
  then show ?case by (auto simp: rbind_eq_Inr access_file_def split: if_splits)
qed simp

section \<open>The run as a whole\<close>

definition number_at_least :: "rat \<Rightarrow> bool \<Rightarrow> pyval \<Rightarrow> bool" where
  "number_at_least q strict v \<longleftrightarrow>
     (\<exists>x. the_float v = Inr (Fin x) \<and> q \<le> x \<and> (strict \<longrightarrow> q \<noteq> x))"

definition checked_options :: "startup \<Rightarrow> opt_values \<Rightarrow> bool" where
  "checked_options env vs \<longleftrightarrow>
     (\<exists>threads. vs ''thread_count'' = PyInt threads \<and> 1 \<le> threads) \<and>
     (\<exists>limit. vs ''wordlist_max_size'' = PyInt limit \<and> 1 \<le> limit) \<and>
     number_at_least 0 True (vs ''timeout'') \<and> number_at_least 0 False (vs ''delay'') \<and>
     (\<forall>k \<in> {''max_retries'', ''max_rate'', ''recursion_depth''}. \<exists>n. vs k = PyInt n \<and> 0 \<le> n) \<and>
     list_all (\<lambda>k. status_set (vs k)) status_options \<and>
     list_all (\<lambda>k. range_tuple (vs k)) range_options \<and>
     list_all (\<lambda>k. time_tuple (vs k)) time_options \<and>
     (\<exists>files. vs ''wordlists'' = py_strings files \<and> distinct files \<and>
        (\<forall>f \<in> set files. s_exists env f \<and> s_is_file env f \<and> can_read (s_texts env) f)) \<and>
     (\<exists>es ex. vs ''extensions'' = text_tuple es \<and> vs ''exclude_extensions'' = text_tuple ex \<and>
        set es \<inter> set ex = {} \<and> distinct es) \<and>
     (\<exists>formats. vs ''output_formats'' = py_strings formats \<and>
        set formats \<subseteq> set file_based_output_formats \<union> {''mysql'', ''postgresql''})"

lemma the_int_Inr: "the_int v = Inr n \<longleftrightarrow> v = PyInt n"
  by (auto simp: the_int_def split: pyval.splits)

lemma fl_positive: "fl_finite x \<Longrightarrow> fl_less (Fin 0) x \<Longrightarrow> \<exists>q. x = Fin q \<and> 0 < q"
  by (cases x) (auto simp: fl_finite_def)

lemma fl_nonneg: "fl_finite x \<Longrightarrow> \<not> fl_less x (Fin 0) \<Longrightarrow> \<exists>q. x = Fin q \<and> 0 \<le> q"
  by (cases x) (auto simp: fl_finite_def)

lemma numbers_checked:
  assumes "check_numbers env vs = Inr vs'"
  shows "\<exists>threads. vs' ''thread_count'' = PyInt threads \<and> 1 \<le> threads" "\<exists>limit. vs' ''wordlist_max_size'' = PyInt limit \<and> 1 \<le> limit"
    "number_at_least 0 True (vs' ''timeout'')" "number_at_least 0 False (vs' ''delay'')"
    "\<forall>k \<in> {''max_retries'', ''max_rate'', ''recursion_depth''}. \<exists>n. vs' k = PyInt n \<and> 0 \<le> n"
proof -
  from assms have vs: "vs' = vs" and v: "validate_numeric_options vs = Inr ()"
    and t: "\<exists>threads. vs ''thread_count'' = PyInt threads \<and> 1 \<le> threads" "\<exists>limit. vs ''wordlist_max_size'' = PyInt limit \<and> 1 \<le> limit"
    by (auto simp: check_numbers_def rbind_eq_Inr the_int_Inr)
  from t vs show "\<exists>threads. vs' ''thread_count'' = PyInt threads \<and> 1 \<le> threads"
    "\<exists>limit. vs' ''wordlist_max_size'' = PyInt limit \<and> 1 \<le> limit" by simp_all
  from v show "number_at_least 0 True (vs' ''timeout'')" "number_at_least 0 False (vs' ''delay'')"
    using fl_positive fl_nonneg unfolding vs number_at_least_def validate_numeric_options_def
    by (fastforce simp: rbind_eq_Inr)+
  from v show "\<forall>k \<in> {''max_retries'', ''max_rate'', ''recursion_depth''}. \<exists>n. vs' k = PyInt n \<and> 0 \<le> n"
    unfolding vs validate_numeric_options_def by (auto simp: rbind_eq_Inr the_int_Inr)
qed

lemma wordlists_checked:
  assumes "set_wordlists env vs = Inr vs'"
  shows "\<exists>files. vs' ''wordlists'' = py_strings files \<and> distinct files \<and>
    (\<forall>f \<in> set files. s_exists env f \<and> s_is_file env f \<and> can_read (s_texts env) f)"
proof -
  from assms obtain files where f: "resolve_wordlists env vs = Inr files" "vs' ''wordlists'' = py_strings files"
    by (auto simp: set_wordlists_def rbind_eq_Inr)
  from f(1) obtain us expanded where "files = dedup_from [] expanded" "rmap (access_file env) files = Inr us"
    by (auto simp: resolve_wordlists_def rbind_eq_Inr Let_def)
  with f(2) access_all distinct_dedup_from [of "[]"] show ?thesis by fastforce
qed

lemma texts_of_tuple [simp]: "texts_of (text_tuple ws) = Inr ws"
proof -
  have "rmap py_text (map PyStr ws) = Inr ws" by (induction ws) (simp_all add: py_text_def)
  then show ?thesis by (simp add: texts_of_def text_tuple_def py_iter_def)
qed

lemma distinct_common: "distinct common_extensions"
  by code_simp

lemma extensions_set:
  assumes "set_extensions env vs = Inr vs'"
  obtains es ex where "vs' ''extensions'' = text_tuple es" "vs' ''exclude_extensions'' = text_tuple ex" "distinct es"
proof -
  from assms obtain extensions exclude where
    vs': "vs' = vs(''extensions'' := text_tuple (if extensions = ''*'' then common_extensions else extension_list extensions),
       ''exclude_extensions'' := text_tuple (extension_list exclude))"
    by (auto simp: set_extensions_def rbind_eq_Inr Let_def text_tuple_def)
  have "distinct (if extensions = ''*'' then common_extensions else extension_list extensions)"
    using distinct_common by (simp add: extension_list_def strip_and_uniquify_distinct)
  then show thesis by (rule that [rotated 2]) (simp_all add: vs')
qed

lemma output_checked:
  assumes "set_output env vs = Inr vs'"
  shows "\<exists>formats. vs' ''output_formats'' = py_strings formats \<and>
    set formats \<subseteq> set file_based_output_formats \<union> {''mysql'', ''postgresql''}"
proof -
  from assms obtain formats where "set formats \<subseteq> set file_based_output_formats"
    "vs' ''output_formats'' = py_strings (formats @ (if py_truth (vs ''mysql_url'') then [''mysql''] else []) @
       (if py_truth (vs ''postgres_url'') then [''postgresql''] else []))"
    by (auto simp: set_output_def rbind_eq_Inr Let_def)
  then show ?thesis by (intro exI conjI) auto
qed

lemma steps_check:
  assumes "rfold (\<lambda>step. step env) option_steps vs = Inr vs'"
  shows "checked_options env vs'"
proof -
  note result = step_result [OF assms] and steps = option_steps_def
  obtain a1 a2 where a: "(option_steps ! 4) env a1 = Inr a2" "\<And>k. list_all (leaves k) (drop 5 option_steps) \<Longrightarrow> vs' k = a2 k"
    by (rule result [of 4]) (simp_all add: steps)
  obtain b1 b2 where b: "(option_steps ! 3) env b1 = Inr b2" "\<And>k. list_all (leaves k) (drop 4 option_steps) \<Longrightarrow> vs' k = b2 k"
    by (rule result [of 3]) (simp_all add: steps)
  obtain c1 c2 where c: "(option_steps ! 10) env c1 = Inr c2" "\<And>k. list_all (leaves k) (drop 11 option_steps) \<Longrightarrow> vs' k = c2 k"
    by (rule result [of 10]) (simp_all add: steps)
  obtain d1 d2 where d: "(option_steps ! 13) env d1 = Inr d2" "\<And>k. list_all (leaves k) (drop 14 option_steps) \<Longrightarrow> vs' k = d2 k"
    by (rule result [of 13]) (simp_all add: steps)
  obtain e1 e2 where e: "(option_steps ! 15) env e1 = Inr e2" "\<And>k. list_all (leaves k) (drop 16 option_steps) \<Longrightarrow> vs' k = e2 k"
    by (rule result [of 15]) (simp_all add: steps)
  obtain f1 f2 where f: "(option_steps ! 16) env f1 = Inr f2" "\<And>k. list_all (leaves k) (drop 17 option_steps) \<Longrightarrow> vs' k = f2 k"
    by (rule result [of 16]) (simp_all add: steps)
  have "vs' ''thread_count'' = a2 ''thread_count''" "vs' ''wordlist_max_size'' = a2 ''wordlist_max_size''"
    "vs' ''timeout'' = a2 ''timeout''" "vs' ''delay'' = a2 ''delay''" "vs' ''max_retries'' = a2 ''max_retries''"
    "vs' ''max_rate'' = a2 ''max_rate''" "vs' ''recursion_depth'' = a2 ''recursion_depth''"
    by (rule a(2); simp add: leave_rules steps step_sets)+
  note an = this
  have bn: "vs' ''wordlists'' = b2 ''wordlists''" by (rule b(2)) (simp add: leave_rules steps step_sets)
  have cn: "k \<in> set (status_options @ range_options @ time_options) \<Longrightarrow> vs' k = c2 k" for k
    by (rule c(2)) (auto simp: step_sets steps intro!: leave_rules)
  have en: "vs' ''extensions'' = e2 ''extensions''" "vs' ''exclude_extensions'' = e2 ''exclude_extensions''"
    by (rule e(2); simp add: leave_rules steps step_sets)+
  have dn: "vs' ''extensions'' = d2 ''extensions''" "vs' ''exclude_extensions'' = d2 ''exclude_extensions''"
    by (rule d(2); simp add: leave_rules steps step_sets)+
  have fn: "vs' ''output_formats'' = f2 ''output_formats''" by (rule f(2)) (simp add: leave_rules steps step_sets)
  obtain es ex where x: "vs' ''extensions'' = text_tuple es" "vs' ''exclude_extensions'' = text_tuple ex" "distinct es"
    using extensions_set [of env d1 d2] d(1) dn by (auto simp: steps)
  have "e2 ''extensions'' = text_tuple es" "e2 ''exclude_extensions'' = text_tuple ex"
    using en [symmetric] x by (simp_all only:)
  then have "set es \<inter> set ex = {}" using e(1) by (auto simp: steps check_extensions_def rbind_eq_Inr)
  with x have "\<exists>es ex. vs' ''extensions'' = text_tuple es \<and> vs' ''exclude_extensions'' = text_tuple ex \<and>
        set es \<inter> set ex = {} \<and> distinct es" by blast
  then show ?thesis
    using numbers_checked [of env a1 a2] wordlists_checked [of env b1 b2] filters_convert [of env c1 c2]
      output_checked [of env f1 f2] a(1) b(1) c(1) f(1)
    unfolding checked_options_def by (simp add: an bn cn fn list_all_iff steps)
qed

section \<open>A sample\<close>

text \<open>A system with one readable file, and options as they are after the merge.\<close>

definition sample_startup :: startup where
  "sample_startup =
     \<lparr>s_args = [], s_config_file = ''c'', s_config = (\<lambda>_ _ _. None),
      s_json = (\<lambda>_. None), s_session_dir = ''s'', s_nodes = (\<lambda>_. None), s_mtime = (\<lambda>_. 0), s_exists = (\<lambda>p. p = ''w''),
      s_is_file = (\<lambda>p. p = ''w''), s_is_dir = (\<lambda>_. False), s_files = (\<lambda>_. []), s_texts = (\<lambda>_. Some []), s_read = (\<lambda>_. Inr []),
      s_read_bytes = (\<lambda>_. Inr []), s_stdin = [], s_xml = (\<lambda>_. NotXml), s_ipv6_network = (\<lambda>_. Inr []),
      s_compile_error = (\<lambda>_. None), s_abs_path = (\<lambda>p. p), s_script_path = [], s_python = [3], s_native = True\<rparr>"

definition sample_table :: "(string \<times> pyval) list" where
  "sample_table =
     [(''urls'', py_strings [''h'']), (''wordlists'', PyStr ''w''), (''http_method'', PyStr ''get''),
      (''include_status_codes'', PyStr ''1-3,9''), (''thread_count'', PyInt 25), (''wordlist_max_size'', PyInt 50),
      (''timeout'', PyInt 7), (''delay'', PyInt 0), (''max_retries'', PyInt 1), (''max_rate'', PyInt 0), (''recursion_depth'', PyInt 0),
      (''sqlite_commit_batch_size'', PyInt 1), (''wordlist_backend'', PyStr ''auto''), (''request_backend'', PyStr ''python''),
      (''match_sizes'', PyStr ''2-4''), (''matcher_mode'', PyStr ''or''), (''filter_mode'', PyStr ''and''), (''prefixes'', PyStr ''a''),
      (''suffixes'', PyStr []), (''subdirs'', PyStr []), (''exclude_subdirs'', PyStr []), (''extensions'', PyStr ''x,y''),
      (''exclude_extensions'', PyStr ''z''), (''output_formats'', PyStr ''json'')]"

definition sample_merged :: opt_values where
  "sample_merged d = (case map_of sample_table d of None \<Rightarrow> PyNone | Some v \<Rightarrow> v)"

lemma sample_checks:
  "case check_options sample_startup sample_merged of
     Inr vs \<Rightarrow> vs ''include_status_codes'' = PySet (map PyInt [1, 2, 3, 9]) \<and> vs ''exclude_subdirs'' = py_strings [[]]
   | Inl _ \<Rightarrow> False"
  by code_simp

section \<open>Checked options fit into a session\<close>

definition jsons :: "opt_values \<Rightarrow> bool" where
  "jsons vs \<longleftrightarrow> (\<forall>k. k \<notin> set session_option_set_keys \<and> k \<noteq> ''data'' \<longrightarrow> json_ok (vs k))"

definition keeps_json :: "(startup \<Rightarrow> opt_values \<Rightarrow> opt_values result) \<Rightarrow> bool" where
  "keeps_json step \<longleftrightarrow> (\<forall>env vs vs'. step env vs = Inr vs' \<longrightarrow> jsons vs \<longrightarrow> jsons vs')"

lemma jsons_update: "jsons vs \<Longrightarrow> json_ok v \<or> k \<in> set session_option_set_keys \<or> k = ''data'' \<Longrightarrow> jsons (vs(k := v))"
  by (auto simp: jsons_def)

lemma jsons_add: "jsons vs \<Longrightarrow> json_ok v \<Longrightarrow> jsons (vs(k := v))"
  "jsons vs \<Longrightarrow> k \<in> set session_option_set_keys \<Longrightarrow> jsons (vs(k := v))" "jsons vs \<Longrightarrow> jsons (vs(''data'' := v))"
  by (auto simp: jsons_def)

lemma json_texts [simp]: "json_ok (py_strings ws)" "list_all id (map (json_ok \<circ> PyStr) ws)"
  by (auto simp: py_strings_def list_all_iff)

lemma set_keys: "set session_option_set_keys = set (''exclude_sizes'' # status_options)"
  by (auto simp: session_option_set_keys_def status_options_def)

lemma fold_jsons: "(\<And>x vs vs'. x \<in> set xs \<Longrightarrow> f x vs = Inr vs' \<Longrightarrow> jsons vs \<Longrightarrow> jsons vs') \<Longrightarrow> rfold f xs vs = Inr vs' \<Longrightarrow> jsons vs \<Longrightarrow> jsons vs'"
proof (induction xs arbitrary: vs)
  case (Cons x xs)
  from Cons.prems(2) obtain w where w: "f x vs = Inr w" "rfold f xs w = Inr vs'" by (auto simp: rbind_eq_Inr)
  have "jsons w" using Cons.prems(1) [OF _ w(1) Cons.prems(3)] by simp
  then show ?case by (rule Cons.IH [OF _ w(2), rotated]) (use Cons.prems(1) in auto)
qed simp

lemma convert_jsons:
  "rfold (convert_option f) keys vs = Inr vs' \<Longrightarrow> jsons vs \<Longrightarrow>
     (\<forall>v w. f v = Inr w \<longrightarrow> json_ok w) \<or> set keys \<subseteq> set session_option_set_keys \<Longrightarrow> jsons vs'"
  by (erule fold_jsons [rotated]) (auto simp: converted intro!: jsons_update)

lemma tuples_json: "range_tuple v \<Longrightarrow> json_ok v" "time_tuple v \<Longrightarrow> json_ok v"
  by (auto simp: range_tuple_def time_tuple_def list_all_iff)

lemma filters_json: "keeps_json set_filters"
  unfolding keeps_json_def
proof (intro allI impI)
  fix env vs vs' assume s: "set_filters env vs = Inr vs'" and j: "jsons vs"
  obtain v1 v2 where v: "rfold (convert_option convert_status) status_options vs = Inr v1"
    "rfold (convert_option convert_ranges) range_options v1 = Inr v2" "rfold (convert_option convert_times) time_options v2 = Inr vs'"
    using s by (auto simp: set_filters_def rbind_eq_Inr)
  have "jsons v1" by (rule convert_jsons [OF v(1) j]) (simp add: set_keys subset_insertI)
  then have "jsons v2" by (rule convert_jsons [OF v(2)]) (auto dest: converts tuples_json)
  then show "jsons vs'" by (rule convert_jsons [OF v(3)]) (auto dest: converts tuples_json)
qed

lemmas json_step_defs = keeps_json_def rbind_eq_Inr Let_def

lemma set_method_json: "keeps_json set_method"
  by (auto simp: json_step_defs jsons_add set_method_def)

lemma find_targets_json: "keeps_json find_targets"
  by (auto simp: json_step_defs jsons_add find_targets_def split: if_split_asm sum.split_asm)

lemma clean_targets_json: "keeps_json clean_targets"
  by (auto simp: json_step_defs jsons_add clean_targets_def split: if_splits)

lemma set_wordlists_json: "keeps_json set_wordlists"
  by (auto simp: json_step_defs jsons_add set_wordlists_def)

lemma check_numbers_json: "keeps_json check_numbers"
  by (auto simp: json_step_defs jsons_add check_numbers_def)

lemma check_backends_json: "keeps_json check_backends"
  by (auto simp: json_step_defs jsons_add check_backends_def)

lemma set_proxies_json: "keeps_json set_proxies"
  by (auto simp: json_step_defs jsons_add set_proxies_def split: if_splits)

lemma set_data_json: "keeps_json set_data"
  by (auto simp: json_step_defs jsons_add set_data_def split: if_splits)

lemma check_certificates_json: "keeps_json check_certificates"
  by (auto simp: json_step_defs jsons_add check_certificates_def)

lemma json_headers: "json_ok (PyDict (map (\<lambda>(k, v). (k, PyStr v)) hs))"
  by (induction hs) auto

lemma set_headers_json: "keeps_json set_headers"
  unfolding keeps_json_def
proof (intro allI impI)
  fix env vs vs' assume s: "set_headers env vs = Inr vs'" and j: "jsons vs"
  have "\<exists>hs. vs' = vs(''headers'' := PyDict (map (\<lambda>(k, v). (k, PyStr v)) hs))"
    using s unfolding set_headers_def Let_def by (auto simp: rbind_eq_Inr)
  with jsons_add(1) [OF j json_headers] show "jsons vs'" by auto
qed

lemma set_affixes_json: "keeps_json set_affixes"
  by (auto simp: json_step_defs jsons_add set_affixes_def)

lemma set_sizes_json: "keeps_json set_sizes"
  by (auto simp: json_step_defs jsons_add set_sizes_def session_option_set_keys_def)

lemma set_extensions_json: "keeps_json set_extensions"
  by (auto simp: json_step_defs jsons_add set_extensions_def)

lemma check_authentication_json: "keeps_json check_authentication"
  by (auto simp: json_step_defs jsons_add check_authentication_def)

lemma check_extensions_json: "keeps_json check_extensions"
  by (auto simp: json_step_defs jsons_add check_extensions_def)

lemma set_output_json: "keeps_json set_output"
  by (auto simp: json_step_defs jsons_add set_output_def)

lemma set_paths_json: "keeps_json set_paths"
  unfolding keeps_json_def set_paths_def
    by (intro allI impI, erule fold_jsons [rotated]) (auto simp: rbind_eq_Inr jsons_add split: if_splits)

lemma check_runtime_json: "keeps_json check_runtime"
  by (auto simp: json_step_defs jsons_add check_runtime_def)

lemma steps_json: "list_all keeps_json option_steps"
  by (simp add: option_steps_def filters_json set_method_json find_targets_json clean_targets_json set_wordlists_json check_numbers_json check_backends_json set_proxies_json set_data_json check_certificates_json set_headers_json set_affixes_json set_sizes_json set_extensions_json check_authentication_json check_extensions_json set_output_json set_paths_json check_runtime_json)

text \<open>The body is a text or bytes; it has no entry in the configuration file.\<close>

definition body_ok :: "pyval \<Rightarrow> bool" where
  "body_ok v \<longleftrightarrow> (case v of PyNone \<Rightarrow> True | PyStr _ \<Rightarrow> True | PyBytes _ \<Rightarrow> True | _ \<Rightarrow> False)"

lemma data_steps: "rfold (\<lambda>step. step env) option_steps vs = Inr vs' \<Longrightarrow> body_ok (vs ''data'') \<Longrightarrow> body_ok (vs' ''data'')"
proof -
  assume run: "rfold (\<lambda>step. step env) option_steps vs = Inr vs'" and b: "body_ok (vs ''data'')"
  let ?pre = "take 7 option_steps" and ?post = "drop 8 option_steps"
  have e: "option_steps = ?pre @ set_data # ?post" by (simp add: option_steps_def)
  then have "rfold (\<lambda>step. step env) (?pre @ set_data # ?post) vs = Inr vs'" using run by simp
  then obtain v1 v2 where r: "rfold (\<lambda>step. step env) ?pre vs = Inr v1" "set_data env v1 = Inr v2" "rfold (\<lambda>step. step env) ?post v2 = Inr vs'"
    by (rule run_step)
  have "list_all (leaves ''data'') ?pre" "list_all (leaves ''data'') ?post"
    by (simp_all add: option_steps_def leave_rules step_sets)
  with r(1,3) have "v1 ''data'' = vs ''data''" "vs' ''data'' = v2 ''data''" by (auto dest: run_leaves)
  with r(2) b show ?thesis by (auto simp: set_data_def rbind_eq_Inr body_ok_def split: if_splits)
qed

lemma status_option_ok: "status_set v \<Longrightarrow> k \<in> set session_option_set_keys \<Longrightarrow> option_ok k v"
  by (auto simp: status_set_def option_ok_def distinct_map inj_on_def list_all_iff)

lemma sizes_set: "set_sizes env vs = Inr vs' \<Longrightarrow> status_set (vs' ''exclude_sizes'')"
  by (auto simp: set_sizes_def rbind_eq_Inr status_set_def)

lemma tuple_option_ok: "k \<in> set session_option_tuple_keys \<Longrightarrow> option_ok k (text_tuple ws)"
  by (auto simp: option_ok_def session_option_set_keys_def session_option_tuple_keys_def text_tuple_def list_all_iff)

lemma affixes_set: "set_affixes env vs = Inr vs' \<Longrightarrow> \<exists>ps ss. vs' ''prefixes'' = text_tuple ps \<and> vs' ''suffixes'' = text_tuple ss"
  by (auto simp: set_affixes_def rbind_eq_Inr text_tuple_def)

lemma steps_savable:
  assumes run: "rfold (\<lambda>step. step env) option_steps vs = Inr vs'" and "jsons vs" "body_ok (vs ''data'')"
  shows "option_ok k (vs' k)"
proof -
  note result = step_result [OF run] and steps = option_steps_def
  obtain a1 a2 where a: "(option_steps ! 12) env a1 = Inr a2" "\<And>k. list_all (leaves k) (drop 13 option_steps) \<Longrightarrow> vs' k = a2 k"
    by (rule result [of 12]) (simp_all add: steps)
  obtain b1 b2 where b: "(option_steps ! 11) env b1 = Inr b2" "\<And>k. list_all (leaves k) (drop 12 option_steps) \<Longrightarrow> vs' k = b2 k"
    by (rule result [of 11]) (simp_all add: steps)
  have sizes: "vs' ''exclude_sizes'' = a2 ''exclude_sizes''" by (rule a(2)) (simp add: leave_rules steps step_sets)
  have affixes: "vs' ''prefixes'' = b2 ''prefixes''" "vs' ''suffixes'' = b2 ''suffixes''"
    by (rule b(2); simp add: leave_rules steps step_sets)+
  have checked: "checked_options env vs'" by (rule steps_check [OF run])
  have "jsons vs'"
    using run assms(2) steps_json by (intro fold_jsons [OF _ run assms(2)]) (auto simp: list_all_iff keeps_json_def)
  moreover have "body_ok (vs' ''data'')" by (rule data_steps [OF run assms(3)])
  moreover have "status_set (vs' k)" if "k \<in> set session_option_set_keys"
    using that checked sizes sizes_set [of env a1 a2] a(1) by (auto simp: set_keys checked_options_def list_all_iff steps)
  moreover have "\<exists>ws. vs' k = text_tuple ws" if "k \<in> set session_option_tuple_keys"
    using that checked affixes affixes_set [of env b1 b2] b(1)
    by (auto simp: session_option_tuple_keys_def checked_options_def steps)
  moreover have "option_ok k (vs' k)"
    if "k \<notin> set session_option_set_keys" "k \<notin> set session_option_tuple_keys" "jsons vs'" "body_ok (vs' ''data'')"
    using that by (auto simp: option_ok_def jsons_def body_ok_def split: pyval.splits)
  ultimately show ?thesis
    using status_option_ok [of "vs' k" k] tuple_option_ok [of k] by metis
qed

section \<open>Status codes\<close>

definition show_status_range :: "int \<times> int \<Rightarrow> string" where
  "show_status_range r = (case r of (a, b) \<Rightarrow> if a = b then show_int a else show_int a @ ''-'' @ show_int b)"

lemma status_token_show: "0 \<le> a \<Longrightarrow> a \<le> b \<Longrightarrow> status_token (show_status_range (a, b)) = Inr [a..b]"
proof -
  assume ab: "0 \<le> a" "a \<le> b"
  have plain: "\<forall>c \<in> set (show_int a). c \<noteq> CHR ''-''" "\<forall>c \<in> set (show_int b). c \<noteq> CHR ''-''"
    using show_int_chars [of a] show_int_chars [of b] ab by auto
  show ?thesis
  proof (cases "a = b")
    case True
    with plain py_int_show [of b] show ?thesis by (auto simp: status_token_def show_status_range_def)
  next
    case False
    have "split_char (CHR ''-'') (show_int a @ CHR ''-'' # show_int b) = [show_int a, show_int b]"
      using plain by (subst split_at_append) (auto intro!: split_at_id)
    moreover have "strip (show_int a @ CHR ''-'' # show_int b) = show_int a @ CHR ''-'' # show_int b"
    proof -
      have "\<not> is_space (hd (show_int a))" "\<not> is_space (last (show_int b))"
        using show_int_chars [of a] show_int_chars [of b] ab by auto
      then show ?thesis by (intro strip_p_id) simp
    qed
    ultimately show ?thesis using False py_int_show [of a] py_int_show [of b]
      by (simp add: status_token_def show_status_range_def)
  qed
qed

lemma show_status_no_comma: "0 \<le> a \<Longrightarrow> a \<le> b \<Longrightarrow> CHR '','' \<notin> set (show_status_range (a, b)) \<and> show_status_range (a, b) \<noteq> []"
  using show_int_chars [of a] show_int_chars [of b] by (auto simp: show_status_range_def)

lemma parse_status_show:
  assumes "\<forall>(a, b) \<in> set rs. 0 \<le> a \<and> a \<le> b" "rs \<noteq> []"
  shows "parse_status_codes (join '','' (map show_status_range rs)) = Inr (remdups (concat (map (\<lambda>(a, b). [a..b]) rs)))"
proof -
  have ok: "CHR '','' \<notin> set (show_status_range r) \<and> show_status_range r \<noteq> [] \<and> status_token (show_status_range r) = Inr [fst r..snd r]"
    if "r \<in> set rs" for r
    using that assms(1) show_status_no_comma [of "fst r" "snd r"] status_token_show [of "fst r" "snd r"] by (cases r) auto
  have ne: "join '','' (map show_status_range rs) \<noteq> []" using ok assms(2) by (intro join_not_Nil) auto
  have "split_char (CHR '','') (join '','' (map show_status_range rs)) = map show_status_range rs"
    using ok assms(2) by (intro split_join) auto
  moreover have "rmap status_token (map show_status_range rs) = Inr (map (\<lambda>(a, b). [a..b]) rs)"
    using ok by (induction rs) auto
  ultimately show ?thesis using ne by (simp add: parse_status_codes_def)
qed

section \<open>From the command line to the session\<close>

lemma dest_json: "dest_fits cf d v \<Longrightarrow> json_ok v"
proof -
  have "json_ok (cli_defaults cf d)"
    unfolding cli_defaults_def table_defs by simp
  moreover have "fits a x \<Longrightarrow> json_ok x" for a x
  proof -
    have "(case y of PyStr _ \<Rightarrow> True | _ \<Rightarrow> False) \<Longrightarrow> json_ok y" for y by (cases y) simp_all
    then show "fits a x \<Longrightarrow> json_ok x" unfolding fits_def by (cases x) (auto simp: list_all_iff)
  qed
  ultimately show "dest_fits cf d v \<Longrightarrow> json_ok v" by (auto simp: dest_fits_def list_ex_iff)
qed

lemma rules_json: "list_all (\<lambda>r. case cr_getter r of GetText x _ \<Rightarrow> json_ok x | _ \<Rightarrow> True) merge_rules"
  unfolding rule_table_defs by simp

lemma configured_json:
  assumes "\<And>s x. js s = Some x \<Longrightarrow> json_ok x" "configured js config r = Inr v" "r \<in> set merge_rules"
  shows "json_ok v"
proof -
  have d: "case cr_getter r of GetText x _ \<Rightarrow> json_ok x | _ \<Rightarrow> True" using rules_json assms(3) by (auto simp: list_all_iff)
  show ?thesis
  proof (cases "cr_getter r")
    case (GetText x al)
    with assms(2) d show ?thesis
      by (auto simp: configured_def Let_def safe_get_def entry_of_def allowed_or_def rbind_eq_Inr split: option.splits if_splits)
  next
    case GetList
    with assms(1,2) show ?thesis
      by (auto simp: configured_def Let_def safe_getlist_def entry_of_def rbind_eq_Inr split: option.splits)
  qed (use assms(2) in \<open>auto simp: configured_def Let_def rbind_eq_Inr\<close>)
qed

lemma merge_json:
  assumes "\<And>s x. js s = Some x \<Longrightarrow> json_ok x" "merge_config js config vs = Inr vs'" "\<And>d. json_ok (vs d)"
  shows "json_ok (vs' d)"
proof -
  note p = merge_rules_pointwise [OF assms(2) [unfolded merge_config_def] distinct_dests]
  show ?thesis
  proof (cases "d \<in> set (map cr_dest merge_rules)")
    case True
    then obtain r where r: "r \<in> set merge_rules" "cr_dest r = d" by auto
    with p have "merged js config r (vs d) = Inr (vs' d)" by blast
    then show ?thesis using assms(3) [of d] configured_json [of js config r "vs' d", OF assms(1)] r(1)
      by (cases "keeps (cr_kind r) (vs d)") (simp_all add: merged_def)
  next
    case False
    with p assms(3) show ?thesis by simp
  qed
qed

lemma parsed_body:
  assumes "dest_fits cf ''data'' (vs ''data'')" "merge_config js config vs = Inr vs'"
  shows "body_ok (vs' ''data'')"
proof -
  have "''data'' \<notin> set (map cr_dest merge_rules)" unfolding rule_table_defs by simp
  then have "vs' ''data'' = vs ''data''"
    using merge_rules_pointwise [OF assms(2) [unfolded merge_config_def] distinct_dests] by blast
  moreover have "list_all (\<lambda>q. co_dest q = ''data'' \<longrightarrow> co_action q = StoreText) (iter_options cf)" "cli_defaults cf ''data'' = PyNone"
    unfolding cli_defaults_def table_defs by simp_all
  ultimately show ?thesis using assms(1)
    by (auto simp: dest_fits_def list_ex_iff list_all_iff fits_def body_ok_def split: pyval.splits if_splits)
qed

text \<open>What \<open>parse_options\<close> returns without resuming a session can be saved in one.\<close>

theorem parsed_options_fit_session:
  assumes "parse_options env = Inr vs" "\<not> py_truth (vs ''session_file'')" "\<And>s x. s_json env s = Some x \<Longrightarrow> json_ok x"
  shows "option_ok k (vs k)"
proof -
  from assms(1) obtain v1 v2 v3 path where v: "parse_arguments (s_config_file env) (s_args env) = Inr v1"
    "merge_config (s_json env) (s_config env path) v1 = Inr v2" "resolve_session env v2 = Inr v3"
    "if py_truth (v3 ''session_file'') then vs = v3 else rfold (\<lambda>step. step env) option_steps v3 = Inr vs"
    by (auto simp: parse_options_def check_options_def rbind_eq_Inr split: if_splits)
  with assms(2) have run: "rfold (\<lambda>step. step env) option_steps v3 = Inr vs" by (auto split: if_splits)
  have fits: "dest_fits (s_config_file env) d (v1 d)" for d
    using v(1) args_fit [of "s_config_file env" "s_args env" "[]" "cli_defaults (s_config_file env)"]
    by (auto simp: parse_arguments_def rbind_eq_Inr dest_fits_def split: if_splits)
  have j: "json_ok (v2 d)" for d
    by (rule merge_json [OF assms(3) v(2) dest_json [OF fits]])
  have v3: "v3 d = v2 d \<or> (\<exists>s. v3 d = PyStr s)" for d
    using v(3) by (auto simp: resolve_session_def rbind_eq_Inr Let_def split: if_splits option.splits)
  have "jsons v3" using j v3 by (auto simp: jsons_def) (metis json_ok.simps(5))
  moreover have "body_ok (v3 ''data'')" using v3 [of "''data''"] parsed_body [OF fits v(2)] by (auto simp: body_ok_def)
  ultimately show ?thesis by (rule steps_savable [OF run])
qed

section \<open>Properties\<close>

text \<open>C27: the checks are complete: options that pass them have a positive number of threads, a positive
  finite timeout, limits that are not negative, sets of status codes, ranges in order, readable
  wordlists without duplicates, disjoint sets of wanted and excluded extensions, and known output
  formats.\<close>
theorem check_options_checks:
  assumes "check_options env vs = Inr vs'"
  shows "checked_options env vs'"
  using assms unfolding check_options_def by (rule steps_check)

theorem check_options_checks_witness:
  "\<exists>vs. check_options sample_startup sample_merged = Inr vs \<and> checked_options sample_startup vs \<and>
     vs ''include_status_codes'' = PySet (map PyInt [1, 2, 3, 9])"
proof -
  obtain vs where "check_options sample_startup sample_merged = Inr vs" "vs ''include_status_codes'' = PySet (map PyInt [1, 2, 3, 9])"
    using sample_checks by (auto split: sum.splits)
  with check_options_checks show ?thesis by blast
qed

text \<open>Options that pass the checks are of the types a session keeps, each of them, provided what
  was given could be written as JSON and the body is a text: no option is lost or refused when the
  session is saved.\<close>
theorem checked_options_fit_session:
  assumes "check_options env vs = Inr vs'" "jsons vs" "body_ok (vs ''data'')"
  shows "option_ok k (vs' k)"
  using steps_savable [OF assms(1) [unfolded check_options_def] assms(2,3)] .

theorem checked_options_fit_session_witness:
  "\<exists>vs. check_options sample_startup sample_merged = Inr vs \<and> option_ok ''extensions'' (vs ''extensions'')"
proof -
  obtain vs where vs: "check_options sample_startup sample_merged = Inr vs" using sample_checks by (auto split: sum.splits)
  have "list_all (\<lambda>(k, v). json_ok v) sample_table" by (simp add: sample_table_def)
  then have "json_ok (sample_merged k)" for k
    by (auto simp: sample_merged_def list_all_iff split: option.splits dest: map_of_SomeD)
  then have "jsons sample_merged" by (simp add: jsons_def)
  moreover have "body_ok (sample_merged ''data'')" by (simp add: sample_merged_def sample_table_def body_ok_def)
  ultimately show ?thesis using checked_options_fit_session [OF vs] vs by blast
qed

text \<open>Status codes written as single codes and ranges are read as exactly the codes they name.\<close>
theorem status_codes_read_back:
  assumes "\<forall>(a, b) \<in> set rs. 0 \<le> a \<and> a \<le> b" "rs \<noteq> []"
  shows "\<exists>codes. parse_status_codes (join '','' (map show_status_range rs)) = Inr codes \<and> distinct codes \<and>
    set codes = (\<Union>(a, b) \<in> set rs. {a..b})"
  using parse_status_show [OF assms] by (auto split: prod.splits)

theorem status_codes_read_back_witness:
  "\<exists>codes. parse_status_codes (join '','' (map show_status_range [(200, 202), (404, 404)])) = Inr codes \<and> set codes = {200..202} \<union> {404}"
  using status_codes_read_back [of "[(200, 202), (404, 404)]"] by auto

text \<open>A range that runs backwards is accepted and names no code, so the filter it was meant to set is
  not there.\<close>
theorem backward_range_is_empty: "parse_status_codes ''404-400'' = Inr []"
  by code_simp

end
