(* ===== verification/Journal.thy ===== *)
theory Journal
  imports Session SafeXml Response
begin

text \<open>
  Structured reports, \<open>StructuredFileReportMixin\<close> of \<open>lib/report/factory.py\<close> and the formats that
  use it (\<open>json_report.py\<close>, \<open>html_report.py\<close>, \<open>xml_report.py\<close>): results go into a journal beside
  the report and are compacted into the report now and then.  Every write to the disk either happens
  as a whole or raises and changes nothing, as \<open>atomic_write_private_text\<close> and
  \<open>append_private_text\<close> of \<open>lib/utils/file.py\<close> arrange; which writes fail is given by a list.  The
  digest of a document is a parameter.
\<close>

section \<open>Files\<close>

datatype 'd content = Blank | Doc 'd | Garbage

text \<open>One report file, its journal line by line (\<open>None\<close> is a line that is not JSON), and what the
  program knows of them.\<close>

record report_state =
  rs_base :: string
  rs_entries :: nat
  rs_applied :: nat

record 'd report_world =
  w_report :: "'d content"
  w_journal :: "pyval option list option"
  w_state :: "report_state option"
  w_fails :: "bool list"

definition write_op :: "('d report_world \<Rightarrow> 'd report_world) \<Rightarrow> ('d report_world, unit) io" where
  "write_op f w =
     (case w_fails w of
        [] \<Rightarrow> (Inr (), f w)
      | failed # fails \<Rightarrow>
          if failed then (Inl (OSError ''write''), w\<lparr>w_fails := fails\<rparr>) else (Inr (), f (w\<lparr>w_fails := fails\<rparr>)))"

section \<open>Formats\<close>

text \<open>A format: its name, the document of a new report, how an entry is applied, the digest of a
  document, and the document that is read back after one was written.\<close>

record 'd report_format =
  rf_name :: string
  rf_new :: 'd
  rf_apply :: "'d \<Rightarrow> pyval \<Rightarrow> 'd result"
  rf_digest :: "'d \<Rightarrow> string"
  rf_stored :: "'d \<Rightarrow> 'd"

definition report_parse_error :: "exc \<Rightarrow> bool" where
  "report_parse_error e \<longleftrightarrow>
     (case e of OSError _ \<Rightarrow> True | ValueError _ \<Rightarrow> True | KeyError \<Rightarrow> True | IndexError \<Rightarrow> True | TypeError _ \<Rightarrow> True
      | ParseError _ \<Rightarrow> True | UnsafeXML _ \<Rightarrow> True | _ \<Rightarrow> False)"

definition parse_report :: "'d content \<Rightarrow> 'd result" where
  "parse_report c = (case c of Doc d \<Rightarrow> Inr d | _ \<Rightarrow> Inl (ValueError ''not a report''))"

definition journal_version :: int where "journal_version = 1"

definition journal_header :: "'d report_format \<Rightarrow> string \<Rightarrow> pyval" where
  "journal_header fmt base =
     PyDict [(''base'', PyStr base), (''format'', PyStr (rf_name fmt)), (''kind'', PyStr ''header''),
             (''version'', PyInt journal_version)]"

definition result_record :: "pyval \<Rightarrow> pyval" where
  "result_record e = PyDict [(''entry'', e), (''kind'', PyStr ''result'')]"

definition commit_record :: "nat \<Rightarrow> string \<Rightarrow> pyval" where
  "commit_record n digest = PyDict [(''entries'', PyInt (int n)), (''kind'', PyStr ''commit''), (''report'', PyStr digest)]"

section \<open>Writing the journal\<close>

definition write_journal_header :: "'d report_format \<Rightarrow> report_state \<Rightarrow> ('d report_world, unit) io" where
  "write_journal_header fmt st =
     write_op (\<lambda>w. w\<lparr>w_journal := Some [Some (journal_header fmt (rs_base st))]\<rparr>)"

definition append_journal_record :: "'d report_format \<Rightarrow> report_state \<Rightarrow> pyval \<Rightarrow> ('d report_world, unit) io" where
  "append_journal_record fmt st r w =
     io_bind (if w_journal w \<noteq> None then ret ()
              else if rs_entries st \<noteq> 0 \<or> rs_applied st \<noteq> 0 then raise (OSError ''Structured report journal disappeared'')
              else write_journal_header fmt st)
       (\<lambda>_. write_op (\<lambda>w. w\<lparr>w_journal := map_option (\<lambda>ls. ls @ [Some r]) (w_journal w)\<rparr>)) w"

section \<open>Reading the journal\<close>

definition journal_invalid :: exc where
  "journal_invalid = ValueError ''Invalid structured report journal''"

text \<open>Blank lines are left out before; every other line has to be JSON.\<close>

definition journal_records :: "pyval option list \<Rightarrow> pyval list result" where
  "journal_records ls = rmap (\<lambda>l. case l of None \<Rightarrow> Inl (ValueError ''JSON'') | Some r \<Rightarrow> Inr r) ls"

definition keys_are :: "string list \<Rightarrow> (string \<times> pyval) list \<Rightarrow> bool" where
  "keys_are ks kvs \<longleftrightarrow> set (map fst kvs) = set ks"

text \<open>\<open>1\<close>, \<open>1.0\<close> and \<open>True\<close> are equal in Python.\<close>

definition is_version :: "pyval option \<Rightarrow> bool" where
  "is_version v \<longleftrightarrow>
     (case v of Some (PyInt n) \<Rightarrow> n = journal_version | Some (PyBool b) \<Rightarrow> b | Some (PyFloat (Fin q)) \<Rightarrow> q = 1 | _ \<Rightarrow> False)"

definition header_base :: "'d report_format \<Rightarrow> pyval list \<Rightarrow> string result" where
  "header_base fmt records =
     (case records of
        PyDict kvs # _ \<Rightarrow>
          if keys_are [''base'', ''format'', ''kind'', ''version''] kvs \<and> map_of kvs ''format'' = Some (PyStr (rf_name fmt)) \<and>
             map_of kvs ''kind'' = Some (PyStr ''header'') \<and> is_version (map_of kvs ''version'')
          then (case map_of kvs ''base'' of Some (PyStr b) \<Rightarrow> Inr b | _ \<Rightarrow> Inl journal_invalid)
          else Inl journal_invalid
      | _ \<Rightarrow> Inl journal_invalid)"

text \<open>The entries and commits of the records after the header.\<close>

type_synonym journal_log = "pyval list \<times> (nat \<times> string) list"

definition read_record :: "pyval \<Rightarrow> journal_log \<Rightarrow> journal_log result" where
  "read_record r lg =
     (case (r, lg) of
        (PyDict kvs, (entries, commits)) \<Rightarrow>
          if map_of kvs ''kind'' = Some (PyStr ''result'') \<and> keys_are [''entry'', ''kind''] kvs
          then (case map_of kvs ''entry'' of Some e \<Rightarrow> Inr (entries @ [e], commits) | None \<Rightarrow> Inl KeyError)
          else if map_of kvs ''kind'' = Some (PyStr ''commit'') \<and> keys_are [''entries'', ''kind'', ''report''] kvs
          then (case (map_of kvs ''entries'', map_of kvs ''report'') of
                  (Some (PyInt n), Some (PyStr h)) \<Rightarrow>
                    if 0 \<le> n \<and> n \<le> int (length entries) then Inr (entries, commits @ [(nat n, h)]) else Inl journal_invalid
                | _ \<Rightarrow> Inl journal_invalid)
          else Inl journal_invalid
      | _ \<Rightarrow> Inl journal_invalid)"

definition applied_entries :: "string \<Rightarrow> string \<Rightarrow> (nat \<times> string) list \<Rightarrow> nat result" where
  "applied_entries current base commits =
     (if current = base then Inr 0
      else (case map fst (filter (\<lambda>(_, h). h = current) commits) of
              [] \<Rightarrow> Inl (ValueError ''Structured report and journal are inconsistent'')
            | n # ns \<Rightarrow> Inr (foldl max n ns)))"

definition apply_all :: "'d report_format \<Rightarrow> pyval list \<Rightarrow> 'd \<Rightarrow> 'd result" where
  "apply_all fmt es d = rfold (\<lambda>e d. rf_apply fmt d e) es d"

definition read_journal :: "'d report_format \<Rightarrow> pyval option list \<Rightarrow> 'd \<Rightarrow> (report_state \<times> 'd) result" where
  "read_journal fmt ls data =
     rbind (journal_records ls) (\<lambda>records.
     rbind (header_base fmt records) (\<lambda>base.
     rbind (rfold read_record (tl records) ([], [])) (\<lambda>(entries, commits).
     rbind (applied_entries (rf_digest fmt data) base commits) (\<lambda>applied.
     rbind (apply_all fmt (drop applied entries) data) (\<lambda>data.
       Inr (\<lparr>rs_base = base, rs_entries = length entries, rs_applied = applied\<rparr>, data))))))"

section \<open>The operations\<close>

definition fresh_state :: "'d report_format \<Rightarrow> 'd \<Rightarrow> report_state" where
  "fresh_state fmt d = \<lparr>rs_base = rf_digest fmt d, rs_entries = 0, rs_applied = 0\<rparr>"

definition write_report :: "'d report_format \<Rightarrow> 'd \<Rightarrow> ('d report_world, unit) io" where
  "write_report fmt d = write_op (\<lambda>w. w\<lparr>w_report := Doc (rf_stored fmt d)\<rparr>)"

definition remove_journal :: "('d report_world, unit) io" where
  "remove_journal = write_op (\<lambda>w. w\<lparr>w_journal := None\<rparr>)"

definition set_state :: "report_state \<Rightarrow> ('d report_world, unit) io" where
  "set_state st w = (Inr (), w\<lparr>w_state := Some st\<rparr>)"

text \<open>\<open>try: remove(journal) except OSError: ...\<close>: whether it was removed.\<close>

definition try_remove_journal :: "('d report_world, bool) io" where
  "try_remove_journal w =
     (case remove_journal w of (Inr _, w) \<Rightarrow> (Inr True, w) | (Inl (OSError _), w) \<Rightarrow> (Inr False, w) | (Inl e, w) \<Rightarrow> (Inl e, w))"

definition open_report :: "'d report_format \<Rightarrow> ('d report_world, report_state) io" where
  "open_report fmt w =
     io_bind (if w_report w \<noteq> Blank then (\<lambda>w. (parse_report (w_report w), w))
              else io_bind (write_report fmt (rf_new fmt)) (\<lambda>_. ret (rf_new fmt))) (\<lambda>data.
     \<lambda>w. case w_journal w of
           None \<Rightarrow> ret (fresh_state fmt data) w
         | Some ls \<Rightarrow>
             (case read_journal fmt ls data of
                Inl e \<Rightarrow> raise e w
              | Inr (st, data) \<Rightarrow>
                  if rs_applied st = rs_entries st
                  then io_bind try_remove_journal (\<lambda>removed. ret (if removed then fresh_state fmt data else st)) w
                  else ret st w)) w"

definition initiate :: "'d report_format \<Rightarrow> ('d report_world, unit) io" where
  "initiate fmt w =
     (if w_state w \<noteq> None then ret () w
      else (case open_report fmt w of
              (Inr st, w) \<Rightarrow> set_state st w
            | (Inl e, w) \<Rightarrow> (Inl (if report_parse_error e then FileExistsException ''Output file already exists'' else e), w)))"

definition save_entry :: "'d report_format \<Rightarrow> pyval \<Rightarrow> ('d report_world, unit) io" where
  "save_entry fmt e w =
     (case w_state w of
        None \<Rightarrow> raise (RuntimeError ''Report was not initiated'') w
      | Some st \<Rightarrow>
          io_bind (append_journal_record fmt st (result_record e))
            (\<lambda>_. set_state (st\<lparr>rs_entries := rs_entries st + 1\<rparr>)) w)"

text \<open>\<open>_compact\<close> after the journal was read: the state is the one that was read.\<close>

definition commit_report :: "'d report_format \<Rightarrow> report_state \<Rightarrow> 'd \<Rightarrow> ('d report_world, unit) io" where
  "commit_report fmt st data =
     (let digest = rf_digest fmt data; done = st\<lparr>rs_applied := rs_entries st\<rparr> in
      io_bind (append_journal_record fmt st (commit_record (rs_entries st) digest)) (\<lambda>_.
      io_bind (write_report fmt data) (\<lambda>_.
      io_bind (set_state done) (\<lambda>_.
      io_bind try_remove_journal (\<lambda>removed.
        if removed then set_state \<lparr>rs_base = digest, rs_entries = 0, rs_applied = 0\<rparr> else ret ())))))"

definition compact :: "'d report_format \<Rightarrow> ('d report_world, unit) io" where
  "compact fmt w =
     (case w_state w of
        None \<Rightarrow> ret () w
      | Some st \<Rightarrow>
          (case w_journal w of
             None \<Rightarrow>
               if rs_entries st \<noteq> 0 \<or> rs_applied st \<noteq> 0 then raise (OSError ''Structured report journal disappeared'') w
               else ret () w
           | Some ls \<Rightarrow>
               (case rbind (parse_report (w_report w)) (read_journal fmt ls) of
                  Inl e \<Rightarrow> raise e w
                | Inr (st, data) \<Rightarrow>
                    io_bind (set_state st) (\<lambda>_.
                      if rs_entries st = rs_applied st
                      then io_bind try_remove_journal (\<lambda>removed. if removed then set_state (fresh_state fmt data) else ret ())
                      else commit_report fmt st data) w)))"

text \<open>All reports of one reporter: each is compacted, the first exception is raised at the end.\<close>

definition flush_reports :: "'d report_format \<Rightarrow> 'd report_world list \<Rightarrow> unit result \<times> 'd report_world list" where
  "flush_reports fmt ws =
     (let rs = map (compact fmt) ws in
      (case filter (\<lambda>(r, _). r \<noteq> Inr ()) rs of [] \<Rightarrow> Inr () | (r, _) # _ \<Rightarrow> r, map snd rs))"

section \<open>Entries\<close>

text \<open>\<open>round(q, 3)\<close>, to the nearest thousandth, halves to the even one.\<close>

definition round3 :: "rat \<Rightarrow> rat" where
  "round3 q = (let (n, d) = quotient_of (1000 * q) in Fract (round_div n d) 1000)"

text \<open>The entry of a response, its keys in order; \<open>elapsed\<close> only when it was measured.\<close>

definition report_entry :: "response \<Rightarrow> pyval" where
  "report_entry r = PyDict (
     [(''contentLength'', PyInt (r_length r)), (''contentType'', PyStr (r_type r))]
     @ (if r_elapsed r \<noteq> 0 then [(''elapsed'', PyFloat (Fin (round3 (r_elapsed r))))] else [])
     @ [(''redirect'', PyStr (r_redirect r)), (''status'', PyInt (r_status r)), (''url'', PyStr (r_url r))])"

section \<open>The JSON report\<close>

text \<open>Dictionaries are listed in key order, the order they are written in.\<close>

definition json_document :: "string \<Rightarrow> string \<Rightarrow> pyval list \<Rightarrow> pyval" where
  "json_document command time results =
     PyDict [(''info'', PyDict [(''args'', PyStr command), (''time'', PyStr time)]), (''results'', PyList results)]"

definition json_apply :: "pyval \<Rightarrow> pyval \<Rightarrow> pyval result" where
  "json_apply data e =
     (case data of
        PyDict kvs \<Rightarrow>
          (case map_of kvs ''results'' of
             None \<Rightarrow> Inl KeyError
           | Some (PyList rs) \<Rightarrow> Inr (PyDict (map (\<lambda>(k, v). if k = ''results'' then (k, PyList (rs @ [e])) else (k, v)) kvs))
           | Some _ \<Rightarrow> Inl (AttributeError ''append''))
      | _ \<Rightarrow> Inl (TypeError ''indices''))"

definition json_format :: "(pyval \<Rightarrow> string) \<Rightarrow> string \<Rightarrow> string \<Rightarrow> pyval report_format" where
  "json_format H command time =
     \<lparr>rf_name = ''json'', rf_new = json_document command time [], rf_apply = json_apply, rf_digest = H, rf_stored = (\<lambda>d. d)\<rparr>"

section \<open>The HTML report\<close>

text \<open>What is kept of the page is the list of its resources.\<close>

definition html_apply :: "pyval \<Rightarrow> pyval \<Rightarrow> pyval result" where
  "html_apply data e = (case data of PyList rs \<Rightarrow> Inr (PyList (rs @ [e])) | _ \<Rightarrow> Inl (AttributeError ''append''))"

definition html_format :: "(pyval \<Rightarrow> string) \<Rightarrow> pyval report_format" where
  "html_format H = \<lparr>rf_name = ''html'', rf_new = PyList [], rf_apply = html_apply, rf_digest = H, rf_stored = (\<lambda>d. d)\<rparr>"

section \<open>The XML report\<close>

definition blank_text :: "string option \<Rightarrow> string option" where
  "blank_text t = (case t of Some s \<Rightarrow> if strip s = [] then None else Some s | None \<Rightarrow> None)"

fun serialize_element :: "element \<Rightarrow> element" where
  "serialize_element (Element tag attrs text children) =
     Element tag attrs (blank_text text) (map serialize_element children)"

definition dict_item :: "(string \<times> pyval) list \<Rightarrow> string \<Rightarrow> pyval result" where
  "dict_item kvs k = (case map_of kvs k of Some v \<Rightarrow> Inr v | None \<Rightarrow> Inl KeyError)"

text \<open>Only texts can be serialised: a value of another type raises when the digest is taken.\<close>

definition xml_text :: "pyval \<Rightarrow> string option result" where
  "xml_text v = (case v of PyStr s \<Rightarrow> Inr (Some s) | PyNone \<Rightarrow> Inr None | _ \<Rightarrow> Inl (AttributeError ''strip''))"

definition leaf :: "string \<Rightarrow> string option \<Rightarrow> element" where
  "leaf tag t = Element tag [] t []"

text \<open>\<open>show\<close> is Python's \<open>str\<close>.\<close>

definition xml_result_element :: "(pyval \<Rightarrow> string) \<Rightarrow> pyval \<Rightarrow> element result" where
  "xml_result_element show e =
     (case e of
        PyDict kvs \<Rightarrow>
          rbind (dict_item kvs ''url'') (\<lambda>url.
          rbind (case url of PyStr u \<Rightarrow> Inr u | _ \<Rightarrow> Inl (TypeError ''url'')) (\<lambda>url.
          rbind (dict_item kvs ''status'') (\<lambda>status.
          rbind (dict_item kvs ''contentLength'') (\<lambda>len.
          rbind (rbind (dict_item kvs ''contentType'') xml_text) (\<lambda>ctype.
          rbind (rbind (dict_item kvs ''redirect'') xml_text) (\<lambda>redirect.
            Inr (Element ''result'' [(''url'', url)] None (
              [leaf ''status'' (Some (show status)), leaf ''contentLength'' (Some (show len)),
               leaf ''contentType'' ctype, leaf ''redirect'' redirect]
              @ (case map_of kvs ''elapsed'' of Some t \<Rightarrow> [leaf ''elapsed'' (Some (show t))] | None \<Rightarrow> [])))))))))
      | _ \<Rightarrow> Inl (TypeError ''indices''))"

definition xml_apply :: "(pyval \<Rightarrow> string) \<Rightarrow> element \<Rightarrow> pyval \<Rightarrow> element result" where
  "xml_apply show el e =
     rbind (xml_result_element show e) (\<lambda>r.
       Inr (Element (el_tag el) (el_attrs el) (el_text el) (el_children el @ [r])))"

definition xml_new :: "string \<Rightarrow> string \<Rightarrow> element" where
  "xml_new command time = Element ''dirsearchscan'' [(''args'', command), (''time'', time)] None []"

text \<open>The parameter \<open>reread\<close> is indenting, writing and parsing an element again.\<close>

definition xml_format ::
  "(pyval \<Rightarrow> string) \<Rightarrow> (element \<Rightarrow> element) \<Rightarrow> (element \<Rightarrow> string) \<Rightarrow> string \<Rightarrow> string \<Rightarrow> element report_format" where
  "xml_format show reread H command time =
     \<lparr>rf_name = ''xml'', rf_new = xml_new command time, rf_apply = xml_apply show,
      rf_digest = (\<lambda>d. H (serialize_element d)), rf_stored = reread\<rparr>"

text \<open>The \<open>save\<close> of each format.\<close>

definition json_save :: "(pyval \<Rightarrow> string) \<Rightarrow> string \<Rightarrow> string \<Rightarrow> response \<Rightarrow> (pyval report_world, unit) io" where
  "json_save H command time r = save_entry (json_format H command time) (report_entry r)"

definition html_save :: "(pyval \<Rightarrow> string) \<Rightarrow> response \<Rightarrow> (pyval report_world, unit) io" where
  "html_save H r = save_entry (html_format H) (report_entry r)"

definition xml_save ::
  "(pyval \<Rightarrow> string) \<Rightarrow> (element \<Rightarrow> element) \<Rightarrow> (element \<Rightarrow> string) \<Rightarrow> string \<Rightarrow> string \<Rightarrow> response \<Rightarrow>
   (element report_world, unit) io" where
  "xml_save show reread H command time r = save_entry (xml_format show reread H command time) (report_entry r)"

section \<open>The life of a report\<close>

text \<open>What the next start or the next flush reads: the report with the journal on top.\<close>

definition recovered :: "'d report_format \<Rightarrow> 'd report_world \<Rightarrow> 'd result" where
  "recovered fmt w =
     rbind (parse_report (w_report w)) (\<lambda>d.
       case w_journal w of None \<Rightarrow> Inr d | Some ls \<Rightarrow> rbind (read_journal fmt ls d) (\<lambda>(_, d). Inr d))"

text \<open>A result, a flush, or the program started again with the report it left; the entries whose
  \<open>save\<close> returned.\<close>

datatype report_step = Save pyval | Flush | Restart

fun run_steps :: "'d report_format \<Rightarrow> report_step list \<Rightarrow> 'd report_world \<Rightarrow> pyval list \<times> 'd report_world" where
  "run_steps fmt [] w = ([], w)"
| "run_steps fmt (Save e # ss) w =
     (let (r, w) = save_entry fmt e w; (saved, w) = run_steps fmt ss w in (if r = Inr () then e # saved else saved, w))"
| "run_steps fmt (Flush # ss) w = run_steps fmt ss (snd (compact fmt w))"
| "run_steps fmt (Restart # ss) w = run_steps fmt ss (snd (initiate fmt (w\<lparr>w_state := None\<rparr>)))"

fun step_entries :: "report_step list \<Rightarrow> pyval list" where
  "step_entries [] = []"
| "step_entries (Save e # ss) = e # step_entries ss"
| "step_entries (_ # ss) = step_entries ss"

definition no_report :: "bool list \<Rightarrow> 'd report_world" where
  "no_report fails = \<lparr>w_report = Blank, w_journal = None, w_state = None, w_fails = fails\<rparr>"

section \<open>What a format promises\<close>

text \<open>The digest depends on what \<open>view\<close> shows of a document; applying an entry changes the view by
  \<open>ext\<close> and never raises on the documents and entries that occur; writing and reading keep the view.\<close>

locale report_laws =
  fixes fmt :: "'d report_format" and view :: "'d \<Rightarrow> 'v" and H :: "'v \<Rightarrow> string" and start :: 'v
    and ext :: "pyval \<Rightarrow> 'v \<Rightarrow> 'v" and doc_ok :: "'d \<Rightarrow> bool" and entry_ok :: "pyval \<Rightarrow> bool"
  assumes digest: "rf_digest fmt d = H (view d)"
    and new: "doc_ok (rf_new fmt)" "view (rf_new fmt) = start"
    and apply_entry: "doc_ok d \<Longrightarrow> entry_ok e \<Longrightarrow> \<exists>d'. rf_apply fmt d e = Inr d' \<and> doc_ok d' \<and> view d' = ext e (view d)"
    and stored: "doc_ok d \<Longrightarrow> doc_ok (rf_stored fmt d)" "doc_ok d \<Longrightarrow> view (rf_stored fmt d) = view d"
begin

text \<open>The view after the entries \<open>rs\<close>, and its digest after the first \<open>n\<close> of them.\<close>

definition after :: "pyval list \<Rightarrow> 'v" where
  "after rs = fold ext rs start"

definition mark :: "pyval list \<Rightarrow> nat \<Rightarrow> string" where
  "mark rs n = H (after (take n rs))"

lemma apply_all_view:
  "doc_ok d \<Longrightarrow> list_all entry_ok es \<Longrightarrow>
   \<exists>d'. apply_all fmt es d = Inr d' \<and> doc_ok d' \<and> view d' = fold ext es (view d)"
proof (induction es arbitrary: d)
  case Nil then show ?case by (simp add: apply_all_def)
next
  case (Cons e es)
  then obtain d1 where d1: "rf_apply fmt d e = Inr d1" "doc_ok d1" "view d1 = ext e (view d)"
    using apply_entry [OF Cons.prems(1), of e] Cons.prems(2) by auto
  from Cons.prems(2) Cons.IH [OF d1(2)] obtain d' where
    "apply_all fmt es d1 = Inr d'" "doc_ok d'" "view d' = fold ext es (view d1)" by auto
  with d1 show ?case by (simp add: apply_all_def)
qed

text \<open>A journal on base \<open>b\<close> of the saved entries \<open>rs\<close>: it holds the entries since, and its commits carry
  the digests of their prefixes.\<close>

definition journal_ok :: "pyval list \<Rightarrow> nat \<Rightarrow> (nat \<times> string) list \<Rightarrow> pyval option list \<Rightarrow> bool" where
  "journal_ok rs b cs ls \<longleftrightarrow>
     b \<le> length rs \<and>
     (\<exists>recs. ls = map Some (journal_header fmt (mark rs b) # recs) \<and> rfold read_record recs ([], []) = Inr (drop b rs, cs)) \<and>
     (\<forall>(n, h) \<in> set cs. b + n \<le> length rs \<and> h = mark rs (b + n))"

definition state_at :: "pyval list \<Rightarrow> nat \<Rightarrow> nat \<Rightarrow> report_state" where
  "state_at rs b a = \<lparr>rs_base = mark rs b, rs_entries = length rs - b, rs_applied = a - b\<rparr>"

text \<open>The disk and the program after the entries \<open>rs\<close> were saved: the report is at \<open>a\<close>, the journal, if
  there is one, starts at \<open>b\<close>.\<close>

definition report_at :: "pyval list \<Rightarrow> nat \<Rightarrow> 'd report_world \<Rightarrow> bool" where
  "report_at rs a w \<longleftrightarrow> (\<exists>d. w_report w = Doc d \<and> doc_ok d \<and> view d = after (take a rs))"

definition with_journal :: "pyval list \<Rightarrow> nat \<Rightarrow> nat \<Rightarrow> (nat \<times> string) list \<Rightarrow> 'd report_world \<Rightarrow> bool" where
  "with_journal rs b a cs w \<longleftrightarrow>
     report_at rs a w \<and> b \<le> a \<and> a \<le> length rs \<and> (\<exists>ls. w_journal w = Some ls \<and> journal_ok rs b cs ls) \<and>
     (a = b \<or> (a - b, mark rs a) \<in> set cs) \<and> (w_state w = None \<or> w_state w = Some (state_at rs b a))"

definition compacted :: "pyval list \<Rightarrow> 'd report_world \<Rightarrow> bool" where
  "compacted rs w \<longleftrightarrow>
     report_at rs (length rs) w \<and> w_journal w = None \<and>
     (w_state w = None \<or> w_state w = Some (state_at rs (length rs) (length rs)))"

definition unborn :: "'d report_world \<Rightarrow> bool" where
  "unborn w \<longleftrightarrow> w_report w = Blank \<and> w_journal w = None \<and> w_state w = None"

definition report_inv :: "pyval list \<Rightarrow> 'd report_world \<Rightarrow> bool" where
  "report_inv rs w \<longleftrightarrow>
     list_all entry_ok rs \<and> (rs = [] \<and> unborn w \<or> compacted rs w \<or> (\<exists>b a cs. with_journal rs b a cs w))"

definition told_apart :: "pyval list \<Rightarrow> bool" where
  "told_apart rs \<longleftrightarrow> inj_on (mark rs) {..length rs}"

lemma mark_take [simp]: "n \<le> m \<Longrightarrow> mark (take m rs) n = mark rs n"
  by (simp add: mark_def min_def)

lemma mark_append [simp]: "n \<le> length rs \<Longrightarrow> mark (rs @ es) n = mark rs n"
  by (simp add: mark_def)

lemma journal_records_Some [simp]: "journal_records (map Some rs) = Inr rs"
  by (induction rs) (auto simp: journal_records_def)

lemma header_base_header [simp]: "header_base f (journal_header f base # recs) = Inr base"
  by (auto simp: header_base_def journal_header_def keys_are_def is_version_def journal_version_def)

lemma foldl_max_const: "set ns \<subseteq> {n} \<Longrightarrow> foldl max n ns = (n::nat)"
  by (induction ns) auto

lemma applied_at:
  assumes "told_apart rs" "b \<le> a" "a \<le> length rs" "a = b \<or> (a - b, mark rs a) \<in> set cs"
    and "\<forall>(n, h) \<in> set cs. b + n \<le> length rs \<and> h = mark rs (b + n)"
  shows "applied_entries (mark rs a) (mark rs b) cs = Inr (a - b)"
proof (cases "a = b")
  case True then show ?thesis by (simp add: applied_entries_def)
next
  case False
  let ?ns = "map fst (filter (\<lambda>(_, h). h = mark rs a) cs)"
  have ne: "mark rs a \<noteq> mark rs b" using assms(1-3) False by (auto simp: told_apart_def inj_on_def)
  have all: "set ?ns \<subseteq> {a - b}"
    using assms(1,3,5) by (fastforce simp: told_apart_def inj_on_def)
  have "a - b \<in> set ?ns" using False assms(4) by force
  then obtain n ns where ns: "?ns = n # ns" by (cases ?ns) auto
  with all have "n = a - b" "foldl max (a - b) ns = a - b" using foldl_max_const by auto
  with ns ne show ?thesis by (simp add: applied_entries_def)
qed

lemma read_journal_at:
  assumes "told_apart rs" "list_all entry_ok rs" "with_journal rs b a cs w" "w_report w = Doc d" "w_journal w = Some ls"
  obtains d' where "read_journal fmt ls d = Inr (state_at rs b a, d')" "doc_ok d'" "view d' = after rs"
proof -
  from assms(3-5) obtain recs where ls: "ls = map Some (journal_header fmt (mark rs b) # recs)"
    "rfold read_record recs ([], []) = Inr (drop b rs, cs)" "b \<le> a" "a \<le> length rs"
    "\<forall>(n, h) \<in> set cs. b + n \<le> length rs \<and> h = mark rs (b + n)" "a = b \<or> (a - b, mark rs a) \<in> set cs"
    "doc_ok d" "view d = after (take a rs)"
    by (auto simp: with_journal_def journal_ok_def report_at_def)
  have d: "rf_digest fmt d = mark rs a" by (simp add: digest ls(8) mark_def)
  have "list_all entry_ok (drop a rs)" using assms(2) by (metis append_take_drop_id list_all_append)
  from apply_all_view [OF ls(7) this] obtain d' where d': "apply_all fmt (drop a rs) d = Inr d'" "doc_ok d'"
    "view d' = fold ext (drop a rs) (after (take a rs))" using ls(8) by auto
  have "fold ext (drop a rs) (after (take a rs)) = after rs"
    unfolding after_def by (metis append_take_drop_id fold_append comp_apply)
  moreover have "read_journal fmt ls d = Inr (state_at rs b a, d')"
    using applied_at [OF assms(1) ls(3,4,6,5)] d' ls
    by (simp add: read_journal_def d state_at_def del: list.map)
  ultimately show thesis using that d' by simp
qed

end

subsection \<open>Every step keeps what was saved\<close>

lemma write_op_cases:
  assumes "write_op f w = (r, w')"
  obtains fails where "r = Inl (OSError ''write'')" "w' = w\<lparr>w_fails := fails\<rparr>"
  | fails where "r = Inr ()" "w' = f (w\<lparr>w_fails := fails\<rparr>)"
proof (cases "w_fails w")
  case Nil
  have same: "w\<lparr>w_fails := w_fails w\<rparr> = w" by simp
  from Nil assms have "r = Inr ()" "w' = f w" by (simp_all add: write_op_def)
  then show ?thesis by (intro that(2) [of "w_fails w"]) (simp_all only: same)
next
  case (Cons failed fails) with assms that show ?thesis by (auto simp: write_op_def split: if_splits)
qed

lemma try_remove_journal_cases:
  assumes "try_remove_journal w = (r, w')"
  obtains fails where "r = Inr False" "w' = w\<lparr>w_fails := fails\<rparr>"
  | fails where "r = Inr True" "w' = w\<lparr>w_fails := fails, w_journal := None\<rparr>"
proof -
  obtain r1 w1 where "remove_journal w = (r1, w1)" by fastforce
  then show ?thesis using assms that unfolding remove_journal_def
    by (auto simp: try_remove_journal_def remove_journal_def elim!: write_op_cases)
qed

lemma read_record_result [simp]: "read_record (result_record e) (es, cs) = Inr (es @ [e], cs)"
  by (simp add: read_record_def result_record_def keys_are_def)

lemma read_record_commit [simp]:
  "n \<le> length es \<Longrightarrow> read_record (commit_record n h) (es, cs) = Inr (es, cs @ [(n, h)])"
  by (auto simp: read_record_def commit_record_def keys_are_def)

context report_laws begin

lemma told_apart_prefix: "told_apart (rs @ es) \<Longrightarrow> told_apart rs"
  by (auto simp: told_apart_def inj_on_def)

lemma after_take [simp]: "report_at (rs @ es) a w \<longleftrightarrow> report_at rs a w" if "a \<le> length rs"
  using that by (simp add: report_at_def)

lemma inv_fails [simp]:
  "report_at rs a (w\<lparr>w_fails := f\<rparr>) = report_at rs a w" "with_journal rs b a cs (w\<lparr>w_fails := f\<rparr>) = with_journal rs b a cs w"
  "compacted rs (w\<lparr>w_fails := f\<rparr>) = compacted rs w" "unborn (w\<lparr>w_fails := f\<rparr>) = unborn w"
  "report_inv rs (w\<lparr>w_fails := f\<rparr>) = report_inv rs w"
  by (simp_all add: report_at_def with_journal_def compacted_def unborn_def report_inv_def)

lemma report_at_other [simp]:
  "report_at rs a (w\<lparr>w_journal := j\<rparr>) = report_at rs a w" "report_at rs a (w\<lparr>w_state := s\<rparr>) = report_at rs a w"
  by (simp_all add: report_at_def)

lemma journal_appended:
  assumes "journal_ok rs b cs ls" "read_record r (drop b rs, cs) = Inr (drop b rs', cs')" "mark rs' b = mark rs b"
    "b \<le> length rs'" "\<forall>(n, h) \<in> set cs'. b + n \<le> length rs' \<and> h = mark rs' (b + n)"
  shows "journal_ok rs' b cs' (ls @ [Some r])"
proof -
  from assms(1) obtain recs where "ls = map Some (journal_header fmt (mark rs b) # recs)"
    "rfold read_record recs ([], []) = Inr (drop b rs, cs)" by (auto simp: journal_ok_def)
  with assms(2,3) have "ls @ [Some r] = map Some (journal_header fmt (mark rs' b) # (recs @ [r]))"
    "rfold read_record (recs @ [r]) ([], []) = Inr (drop b rs', cs')" by (simp_all add: rfold_append)
  with assms(4,5) show ?thesis unfolding journal_ok_def by blast
qed

lemma result_appended:
  assumes "with_journal rs b a cs w" "w_journal w = Some ls"
  shows "with_journal (rs @ [e]) b a cs
    (w\<lparr>w_journal := Some (ls @ [Some (result_record e)]), w_state := Some (state_at (rs @ [e]) b a)\<rparr>)"
proof -
  from assms have ok: "journal_ok rs b cs ls" "b \<le> length rs" by (auto simp: with_journal_def)
  then have "\<forall>(n, h) \<in> set cs. b + n \<le> length (rs @ [e]) \<and> h = mark (rs @ [e]) (b + n)"
    by (auto simp: journal_ok_def)
  with ok have "journal_ok (rs @ [e]) b cs (ls @ [Some (result_record e)])"
    by (intro journal_appended [OF ok(1)]) simp_all
  with assms show ?thesis by (simp add: with_journal_def)
qed

lemma commit_appended:
  assumes "with_journal rs b a cs w" "w_journal w = Some ls"
  shows "with_journal rs b a (cs @ [(length rs - b, mark rs (length rs))])
    (w\<lparr>w_journal := Some (ls @ [Some (commit_record (length rs - b) (mark rs (length rs)))])\<rparr>)"
proof -
  from assms have ok: "journal_ok rs b cs ls" "b \<le> length rs" by (auto simp: with_journal_def)
  then have "\<forall>(n, h) \<in> set (cs @ [(length rs - b, mark rs (length rs))]). b + n \<le> length rs \<and> h = mark rs (b + n)"
    by (auto simp: journal_ok_def)
  with ok have "journal_ok rs b (cs @ [(length rs - b, mark rs (length rs))])
    (ls @ [Some (commit_record (length rs - b) (mark rs (length rs)))])"
    by (intro journal_appended [OF ok(1)]) simp_all
  with assms show ?thesis by (auto simp: with_journal_def)
qed

lemma header_written:
  assumes "compacted rs w"
  shows "with_journal rs (length rs) (length rs) [] (w\<lparr>w_journal := Some [Some (journal_header fmt (mark rs (length rs)))]\<rparr>)"
proof -
  have "journal_ok rs (length rs) [] [Some (journal_header fmt (mark rs (length rs)))]" by (simp add: journal_ok_def)
  with assms show ?thesis by (auto simp: compacted_def with_journal_def)
qed

lemma journal_removed:
  "report_at rs (length rs) w \<Longrightarrow>
   compacted rs (w\<lparr>w_journal := None, w_state := Some (state_at rs (length rs) (length rs))\<rparr>)"
  by (simp add: compacted_def)

lemma fresh_state_at: "view d = after rs \<Longrightarrow> fresh_state fmt d = state_at rs (length rs) (length rs)"
  by (simp add: fresh_state_def state_at_def digest mark_def)

lemma append_with_journal:
  assumes "with_journal rs b a cs w" "append_journal_record fmt st r w = (x, w')"
  obtains fails where "x = Inl (OSError ''write'')" "w' = w\<lparr>w_fails := fails\<rparr>"
  | fails ls where "w_journal w = Some ls" "x = Inr ()" "w' = w\<lparr>w_fails := fails, w_journal := Some (ls @ [Some r])\<rparr>"
proof -
  obtain ls where ls: "w_journal w = Some ls" using assms(1) by (auto simp: with_journal_def)
  with assms(2) have "write_op (\<lambda>w. w\<lparr>w_journal := map_option (\<lambda>ls. ls @ [Some r]) (w_journal w)\<rparr>) w = (x, w')"
    by (simp add: append_journal_record_def)
  then show thesis using that ls by (elim write_op_cases) auto
qed

lemma save_with_journal:
  assumes "with_journal rs b a cs w" "list_all entry_ok (rs @ [e])"
    "io_bind (append_journal_record fmt (state_at rs b a) (result_record e))
       (\<lambda>_. set_state ((state_at rs b a)\<lparr>rs_entries := rs_entries (state_at rs b a) + 1\<rparr>)) w = (r, w')"
  shows "report_inv (if r = Inr () then rs @ [e] else rs) w'"
proof -
  obtain x w1 where x: "append_journal_record fmt (state_at rs b a) (result_record e) w = (x, w1)" by fastforce
  have st: "(state_at rs b a)\<lparr>rs_entries := rs_entries (state_at rs b a) + 1\<rparr> = state_at (rs @ [e]) b a"
    using assms(1) by (auto simp: with_journal_def state_at_def Suc_diff_le)
  from assms(1) x show ?thesis
  proof (cases rule: append_with_journal)
    case (1 fails) with assms x show ?thesis by (auto simp: io_bind_def report_inv_def)
  next
    case (2 fails ls)
    with assms(3) x st have "r = Inr ()"
      "w' = w\<lparr>w_fails := fails, w_journal := Some (ls @ [Some (result_record e)]), w_state := Some (state_at (rs @ [e]) b a)\<rparr>"
      by (auto simp: io_bind_def set_state_def)
    moreover have "with_journal rs b a cs (w\<lparr>w_fails := fails\<rparr>)" using assms(1) by simp
    ultimately show ?thesis using assms(2) 2(1) result_appended [of rs b a cs "w\<lparr>w_fails := fails\<rparr>" ls e]
      by (auto simp: report_inv_def)
  qed
qed

end

context report_laws begin

lemma save_keeps:
  assumes "report_inv rs w" "entry_ok e" "save_entry fmt e w = (r, w')"
  shows "report_inv (if r = Inr () then rs @ [e] else rs) w'"
proof (cases "w_state w")
  case None with assms show ?thesis by (auto simp: save_entry_def raise_def)
next
  case (Some st)
  with assms consider (new) "compacted rs w" "st = state_at rs (length rs) (length rs)"
    | (old) b a cs where "with_journal rs b a cs w" "st = state_at rs b a"
    by (auto simp: report_inv_def unborn_def compacted_def with_journal_def)
  then show ?thesis
  proof cases
    case old
    show ?thesis using assms Some old(2)
      by (intro save_with_journal [OF old(1)]) (simp_all add: save_entry_def report_inv_def)
  next
    case new
    let ?f = "\<lambda>w. w\<lparr>w_journal := Some [Some (journal_header fmt (rs_base st))]\<rparr>"
    let ?save = "io_bind (append_journal_record fmt st (result_record e)) (\<lambda>_. set_state (st\<lparr>rs_entries := rs_entries st + 1\<rparr>))"
    have j: "w_journal w = None" using new(1) by (simp add: compacted_def)
    obtain x w1 where x: "write_op ?f w = (x, w1)" by fastforce
    from x show ?thesis
    proof (cases rule: write_op_cases)
      case (1 fails)
      with assms Some new x j show ?thesis
        by (auto simp: save_entry_def append_journal_record_def write_journal_header_def state_at_def io_bind_def)
    next
      case (2 fails)
      have w1: "with_journal rs (length rs) (length rs) [] w1"
        using header_written [of rs "w\<lparr>w_fails := fails\<rparr>"] new 2 by (simp add: state_at_def)
      have j1: "w_journal w1 \<noteq> None" using w1 by (auto simp: with_journal_def)
      have st: "rs_entries st = 0" "rs_applied st = 0" using new(2) by (simp_all add: state_at_def)
      from assms(3) Some j j1 x 2(1) st have "?save w1 = (r, w')"
        by (simp add: save_entry_def append_journal_record_def write_journal_header_def io_bind_def ret_def)
      with assms show ?thesis using new(2)
        by (intro save_with_journal [OF w1]) (simp_all add: report_inv_def)
    qed
  qed
qed

lemma commit_keeps:
  assumes "with_journal rs b a cs w" "list_all entry_ok rs" "doc_ok d" "view d = after rs"
    "commit_report fmt (state_at rs b a) d w = (r, w')"
  shows "report_inv rs w'"
proof -
  let ?n = "length rs" and ?st = "state_at rs b a"
  have st: "rs_entries ?st = ?n - b" "rf_digest fmt d = mark rs ?n" "?st\<lparr>rs_applied := rs_entries ?st\<rparr> = state_at rs b ?n"
    "\<lparr>rs_base = mark rs ?n, rs_entries = 0, rs_applied = 0\<rparr> = state_at rs ?n ?n"
    using assms(4) by (simp_all add: state_at_def digest mark_def)
  obtain x w1 where x: "append_journal_record fmt ?st (commit_record (?n - b) (mark rs ?n)) w = (x, w1)" by fastforce
  from assms(1) x show ?thesis
  proof (cases rule: append_with_journal)
    case (1 fails) with assms x st show ?thesis by (auto simp: commit_report_def Let_def io_bind_def report_inv_def)
  next
    case (2 fails ls)
    let ?cs = "cs @ [(?n - b, mark rs ?n)]"
    have w1: "with_journal rs b a ?cs w1"
      using commit_appended [of rs b a cs "w\<lparr>w_fails := fails\<rparr>" ls] assms(1) 2 by simp
    obtain y w2 where y: "write_report fmt d w1 = (y, w2)" by fastforce
    from y [unfolded write_report_def] show ?thesis
    proof (cases rule: write_op_cases)
      case (1 fails) with assms x y st w1 2(2) show ?thesis by (auto simp: commit_report_def Let_def io_bind_def report_inv_def)
    next
      case (2 fails2)
      define w3 where "w3 = w2\<lparr>w_state := Some (state_at rs b ?n)\<rparr>"
      have rep: "report_at rs ?n w3"
        using 2 stored [OF assms(3)] assms(4) by (simp add: w3_def report_at_def)
      have w3: "with_journal rs b ?n ?cs w3"
        using w1 rep 2 by (auto simp: with_journal_def w3_def)
      have run: "io_bind try_remove_journal (\<lambda>removed. if removed then set_state (state_at rs ?n ?n) else ret ()) w3 = (r, w')"
        using assms(5) x y st \<open>x = Inr ()\<close> \<open>y = Inr ()\<close>
        by (simp add: commit_report_def Let_def io_bind_def set_state_def w3_def cong: if_cong)
      obtain z w4 where z: "try_remove_journal w3 = (z, w4)" by fastforce
      from z show ?thesis
      proof (cases rule: try_remove_journal_cases)
        case (1 fails)
        with run z have "w' = w3\<lparr>w_fails := fails\<rparr>" by (simp add: io_bind_def)
        with w3 assms(2) show ?thesis by (auto simp: report_inv_def)
      next
        case (2 fails)
        with run z have w': "w' = w3\<lparr>w_fails := fails, w_journal := None, w_state := Some (state_at rs ?n ?n)\<rparr>"
          by (simp add: io_bind_def set_state_def)
        have "compacted rs w'" unfolding w' using rep by (intro journal_removed) simp
        with assms(2) show ?thesis by (simp add: report_inv_def)
      qed
    qed
  qed
qed

lemma compact_keeps:
  assumes "report_inv rs w" "told_apart rs" "compact fmt w = (r, w')"
  shows "report_inv rs w'"
proof (cases "w_state w")
  case None with assms show ?thesis by (simp add: compact_def)
next
  case (Some st)
  with assms consider (new) "compacted rs w" "st = state_at rs (length rs) (length rs)"
    | (old) b a cs where "with_journal rs b a cs w" "st = state_at rs b a"
    by (auto simp: report_inv_def unborn_def compacted_def with_journal_def)
  then show ?thesis
  proof cases
    case new
    with Some assms show ?thesis by (auto simp: compact_def compacted_def state_at_def)
  next
    case old
    have ok: "list_all entry_ok rs" using assms(1) by (simp add: report_inv_def)
    from old(1) obtain d ls where d: "w_report w = Doc d" "w_journal w = Some ls" by (auto simp: with_journal_def report_at_def)
    from read_journal_at [OF assms(2) ok old(1) d] obtain d' where
      d': "read_journal fmt ls d = Inr (state_at rs b a, d')" "doc_ok d'" "view d' = after rs" .
    have same: "w\<lparr>w_state := Some (state_at rs b a)\<rparr> = w" using Some old(2) by simp
    have parts: "rs_entries (state_at rs b a) = rs_applied (state_at rs b a) \<longleftrightarrow> a = length rs"
      using old(1) by (auto simp: state_at_def with_journal_def)
    have run: "(if a = length rs
        then io_bind try_remove_journal (\<lambda>removed. if removed then set_state (fresh_state fmt d') else ret ())
        else commit_report fmt (state_at rs b a) d') w = (r, w')"
      using assms(3) Some old(2) d d'(1) same parts by (simp add: compact_def parse_report_def io_bind_def set_state_def)
    show ?thesis
    proof (cases "a = length rs")
      case False with run show ?thesis by (simp add: commit_keeps [OF old(1) ok d'(2,3)])
    next
      case True
      obtain z w1 where z: "try_remove_journal w = (z, w1)" by fastforce
      from z show ?thesis
      proof (cases rule: try_remove_journal_cases)
        case (1 fails) with run True z old(1) ok show ?thesis by (auto simp: io_bind_def report_inv_def)
      next
        case (2 fails)
        with run True z have w': "w' = w\<lparr>w_fails := fails, w_journal := None, w_state := Some (state_at rs (length rs) (length rs))\<rparr>"
          by (auto simp: io_bind_def set_state_def fresh_state_at [OF d'(3)])
        have "compacted rs w'" unfolding w' using old(1) True by (intro journal_removed) (simp add: with_journal_def)
        with ok show ?thesis by (simp add: report_inv_def)
      qed
    qed
  qed
qed

end

context report_laws begin

lemma restart_parts:
  "unborn w \<Longrightarrow> unborn (w\<lparr>w_state := None\<rparr>)" "compacted rs w \<Longrightarrow> compacted rs (w\<lparr>w_state := None\<rparr>)"
  "with_journal rs b a cs w \<Longrightarrow> with_journal rs b a cs (w\<lparr>w_state := None\<rparr>)"
  by (simp_all add: unborn_def compacted_def with_journal_def)

lemma restart_state: "report_inv rs w \<Longrightarrow> report_inv rs (w\<lparr>w_state := None\<rparr>)"
  unfolding report_inv_def using restart_parts by metis

lemma initiate_with_journal:
  assumes "with_journal rs b a cs w" "w_state w = None" "list_all entry_ok rs" "told_apart rs" "initiate fmt w = (r, w')"
  shows "report_inv rs w'"
proof -
  from assms(1) obtain d ls where d: "w_report w = Doc d" "w_journal w = Some ls" by (auto simp: with_journal_def report_at_def)
  from read_journal_at [OF assms(4,3,1) d] obtain d' where
    d': "read_journal fmt ls d = Inr (state_at rs b a, d')" "doc_ok d'" "view d' = after rs" .
  have parts: "rs_entries (state_at rs b a) = rs_applied (state_at rs b a) \<longleftrightarrow> a = length rs"
    using assms(1) by (auto simp: state_at_def with_journal_def)
  have set: "with_journal rs b a cs (v\<lparr>w_state := Some (state_at rs b a)\<rparr>)" if "with_journal rs b a cs v" for v
    using that by (simp add: with_journal_def)
  show ?thesis
  proof (cases "a = length rs")
    case False
    with assms(2,5) d d'(1) parts have "w' = w\<lparr>w_state := Some (state_at rs b a)\<rparr>"
      by (auto simp: initiate_def open_report_def parse_report_def io_bind_def set_state_def ret_def)
    with assms(1,3) set show ?thesis by (auto simp: report_inv_def)
  next
    case True
    obtain z w1 where z: "try_remove_journal w = (z, w1)" by fastforce
    from z show ?thesis
    proof (cases rule: try_remove_journal_cases)
      case (1 fails)
      with True assms(2,5) d d'(1) parts z have "w' = (w\<lparr>w_fails := fails\<rparr>)\<lparr>w_state := Some (state_at rs b a)\<rparr>"
        by (auto simp: initiate_def open_report_def parse_report_def io_bind_def set_state_def ret_def)
      moreover have "with_journal rs b a cs (w\<lparr>w_fails := fails\<rparr>)" using assms(1) by simp
      then have "with_journal rs b a cs ((w\<lparr>w_fails := fails\<rparr>)\<lparr>w_state := Some (state_at rs b a)\<rparr>)" by (rule set)
      ultimately show ?thesis using assms(3) unfolding report_inv_def by metis
    next
      case (2 fails)
      with True assms(2,5) d d' parts z
      have w': "w' = w\<lparr>w_fails := fails, w_journal := None, w_state := Some (fresh_state fmt d')\<rparr>"
        by (auto simp: initiate_def open_report_def parse_report_def io_bind_def set_state_def ret_def)
      have "compacted rs w'" unfolding w' fresh_state_at [OF d'(3)] using assms(1) True
        by (intro journal_removed) (simp add: with_journal_def)
      with assms(3) show ?thesis by (simp add: report_inv_def)
    qed
  qed
qed

lemma initiate_keeps:
  assumes "report_inv rs w" "told_apart rs" "initiate fmt w = (r, w')"
  shows "report_inv rs w'"
proof (cases "w_state w")
  case (Some st) with assms show ?thesis by (simp add: initiate_def)
next
  case None
  have ok: "list_all entry_ok rs" using assms(1) by (simp add: report_inv_def)
  from assms(1) consider (unborn) "rs = []" "unborn w" | (new) "compacted rs w" | (old) b a cs where "with_journal rs b a cs w"
    by (auto simp: report_inv_def)
  then show ?thesis
  proof cases
    case old with None ok assms(2,3) show ?thesis by (intro initiate_with_journal)
  next
    case new
    then obtain d where d: "w_report w = Doc d" "doc_ok d" "view d = after rs" "w_journal w = None"
      by (auto simp: compacted_def report_at_def)
    with None assms(3) have "w' = w\<lparr>w_state := Some (fresh_state fmt d)\<rparr>"
      by (auto simp: initiate_def open_report_def parse_report_def io_bind_def set_state_def ret_def)
    with new ok show ?thesis by (simp add: report_inv_def compacted_def fresh_state_at [OF d(3)])
  next
    case unborn
    obtain y w1 where y: "write_report fmt (rf_new fmt) w = (y, w1)" by fastforce
    from y [unfolded write_report_def] show ?thesis
    proof (cases rule: write_op_cases)
      case (1 fails)
      with unborn y None assms(3) have "w' = w\<lparr>w_fails := fails\<rparr>"
        by (auto simp: initiate_def open_report_def io_bind_def unborn_def)
      with assms(1) show ?thesis by simp
    next
      case (2 fails)
      with unborn y None assms(3) have
        "w' = w\<lparr>w_fails := fails, w_report := Doc (rf_stored fmt (rf_new fmt)), w_state := Some (fresh_state fmt (rf_new fmt))\<rparr>"
        by (auto simp: initiate_def open_report_def io_bind_def unborn_def ret_def set_state_def)
      with unborn have "compacted [] w'"
        using stored [OF new(1)] new(2) fresh_state_at [of "rf_new fmt" "[]"]
        by (auto simp: compacted_def report_at_def unborn_def after_def)
      with unborn show ?thesis by (simp add: report_inv_def)
    qed
  qed
qed

lemma run_keeps:
  "report_inv rs w \<Longrightarrow> list_all entry_ok (step_entries ss) \<Longrightarrow> run_steps fmt ss w = (saved, w') \<Longrightarrow>
   told_apart (rs @ saved) \<Longrightarrow> report_inv (rs @ saved) w'"
proof (induction ss arbitrary: rs w saved w')
  case Nil then show ?case by simp
next
  case (Cons s ss)
  have rs: "told_apart rs" using Cons.prems(4) by (rule told_apart_prefix)
  show ?case
  proof (cases s)
    case (Save e)
    obtain r w1 where s: "save_entry fmt e w = (r, w1)" by fastforce
    obtain sv w2 where t: "run_steps fmt ss w1 = (sv, w2)" by fastforce
    have "report_inv (if r = Inr () then rs @ [e] else rs) w1"
      using Cons.prems(2) Save by (intro save_keeps [OF Cons.prems(1) _ s]) simp
    from Cons.IH [OF this _ t] Cons.prems(2-4) Save s t show ?thesis by (auto split: if_splits)
  next
    case Flush
    obtain r w1 where s: "compact fmt w = (r, w1)" by fastforce
    from Cons.IH [OF compact_keeps [OF Cons.prems(1) rs s]] Cons.prems(2-4) Flush s show ?thesis by simp
  next
    case Restart
    obtain r w1 where s: "initiate fmt (w\<lparr>w_state := None\<rparr>) = (r, w1)" by fastforce
    from Cons.IH [OF initiate_keeps [OF restart_state [OF Cons.prems(1)] rs s]] Cons.prems(2-4) Restart s
    show ?thesis by simp
  qed
qed

text \<open>The disk never loses a saved entry and never holds one twice.\<close>

lemma recovers:
  assumes "run_steps fmt ss (no_report fails) = (saved, w)" "list_all entry_ok (step_entries ss)" "told_apart saved"
  shows "saved = [] \<and> w_report w = Blank \<or> (\<exists>d. recovered fmt w = Inr d \<and> doc_ok d \<and> view d = after saved)"
proof -
  have "report_inv [] (no_report fails)" by (simp add: report_inv_def unborn_def no_report_def)
  from run_keeps [OF this assms(2,1)] assms(3) have inv: "report_inv saved w" by simp
  then consider "saved = []" "unborn w" | "compacted saved w" | b a cs where "with_journal saved b a cs w"
    by (auto simp: report_inv_def)
  then show ?thesis
  proof cases
    case 1 then show ?thesis by (simp add: unborn_def)
  next
    case 2 then show ?thesis by (auto simp: compacted_def report_at_def recovered_def parse_report_def)
  next
    case 3
    then obtain d ls where d: "w_report w = Doc d" "w_journal w = Some ls" by (auto simp: with_journal_def report_at_def)
    have "list_all entry_ok saved" using inv by (simp add: report_inv_def)
    from read_journal_at [OF assms(3) this 3 d] obtain d' where
      "read_journal fmt ls d = Inr (state_at saved b a, d')" "doc_ok d'" "view d' = after saved" .
    with d show ?thesis by (simp add: recovered_def parse_report_def)
  qed
qed

end

text \<open>Once the disk works, a flush leaves the complete report and no journal.\<close>

lemma write_op_works [simp]: "w_fails w = [] \<Longrightarrow> write_op f w = (Inr (), f w)"
  by (simp add: write_op_def)

lemma try_remove_journal_works [simp]: "w_fails w = [] \<Longrightarrow> try_remove_journal w = (Inr True, w\<lparr>w_journal := None\<rparr>)"
  by (simp add: try_remove_journal_def remove_journal_def)

lemma commit_works:
  assumes "w_fails w = []" "w_journal w = Some ls" "commit_report fmt st d w = (r, w')"
  shows "r = Inr ()" "w_report w' = Doc (rf_stored fmt d)" "w_journal w' = None"
  using assms
  by (auto simp: commit_report_def Let_def io_bind_def append_journal_record_def write_report_def set_state_def ret_def)

context report_laws begin

lemma flush_completes:
  assumes "run_steps fmt ss (no_report fails) = (saved, w)" "list_all entry_ok (step_entries ss)" "told_apart saved"
    and "w_state w \<noteq> None" "compact fmt (w\<lparr>w_fails := []\<rparr>) = (r, w')"
  shows "r = Inr () \<and> w_journal w' = None \<and> (\<exists>d. w_report w' = Doc d \<and> view d = after saved)"
proof -
  have "report_inv [] (no_report fails)" by (simp add: report_inv_def unborn_def no_report_def)
  from run_keeps [OF this assms(2,1)] assms(3) have inv: "report_inv saved w" by simp
  let ?v = "w\<lparr>w_fails := []\<rparr>"
  from inv assms(4) consider "compacted saved w" | b a cs where "with_journal saved b a cs w"
    by (auto simp: report_inv_def unborn_def)
  then show ?thesis
  proof cases
    case 1
    then obtain st where "w_state w = Some st" "st = state_at saved (length saved) (length saved)"
      using assms(4) by (auto simp: compacted_def)
    with 1 assms(5) show ?thesis by (auto simp: compact_def compacted_def report_at_def state_at_def)
  next
    case 2
    then obtain d ls where d: "w_report ?v = Doc d" "w_journal ?v = Some ls" by (auto simp: with_journal_def report_at_def)
    from 2 assms(4) have st: "w_state ?v = Some (state_at saved b a)" by (auto simp: with_journal_def)
    have ok: "list_all entry_ok saved" using inv by (simp add: report_inv_def)
    have v: "with_journal saved b a cs ?v" using 2 by simp
    from read_journal_at [OF assms(3) ok v d] obtain d' where
      d': "read_journal fmt ls d = Inr (state_at saved b a, d')" "doc_ok d'" "view d' = after saved" .
    have same: "?v\<lparr>w_state := Some (state_at saved b a)\<rparr> = ?v" using st by simp
    have parts: "rs_entries (state_at saved b a) = rs_applied (state_at saved b a) \<longleftrightarrow> a = length saved"
      using 2 by (auto simp: state_at_def with_journal_def)
    have run: "(if a = length saved
        then io_bind try_remove_journal (\<lambda>removed. if removed then set_state (fresh_state fmt d') else ret ())
        else commit_report fmt (state_at saved b a) d') ?v = (r, w')"
      using assms(5) st d d'(1) same parts by (simp add: compact_def parse_report_def io_bind_def set_state_def)
    show ?thesis
    proof (cases "a = length saved")
      case True with run d 2 show ?thesis by (auto simp: io_bind_def set_state_def with_journal_def report_at_def)
    next
      case False
      with run have "commit_report fmt (state_at saved b a) d' ?v = (r, w')" by simp
      from commit_works [OF _ d(2) this] stored [OF d'(2)] d'(3) show ?thesis by simp
    qed
  qed
qed

end

section \<open>The formats keep the promise\<close>

definition json_extend :: "pyval \<Rightarrow> pyval \<Rightarrow> pyval" where
  "json_extend e d = (case json_apply d e of Inr d \<Rightarrow> d | Inl _ \<Rightarrow> d)"

lemma json_apply_document [simp]:
  "json_apply (json_document command time rs) e = Inr (json_document command time (rs @ [e]))"
  by (simp add: json_apply_def json_document_def)

interpretation json: report_laws "json_format H command time" "\<lambda>d. d" H "json_document command time []" json_extend
  "\<lambda>d. d \<in> range (json_document command time)" "\<lambda>_. True" for H command time
  by unfold_locales (auto simp: json_format_def json_extend_def)

lemma json_after [simp]: "json.after command time rs = json_document command time rs"
proof -
  have "fold json_extend rs (json_document command time rs0) = json_document command time (rs0 @ rs)" for rs0
    by (induction rs arbitrary: rs0) (simp_all add: json_extend_def)
  from this [of "[]"] show ?thesis by (simp add: json.after_def)
qed

definition html_extend :: "pyval \<Rightarrow> pyval \<Rightarrow> pyval" where
  "html_extend e d = (case html_apply d e of Inr d \<Rightarrow> d | Inl _ \<Rightarrow> d)"

interpretation html: report_laws "html_format H" "\<lambda>d. d" H "PyList []" html_extend "\<lambda>d. d \<in> range PyList" "\<lambda>_. True" for H
  by unfold_locales (auto simp: html_format_def html_extend_def html_apply_def)

lemma html_after [simp]: "html.after rs = PyList rs"
proof -
  have "fold html_extend rs (PyList rs0) = PyList (rs0 @ rs)" for rs0
    by (induction rs arbitrary: rs0) (simp_all add: html_extend_def html_apply_def)
  from this [of "[]"] show ?thesis by (simp add: html.after_def)
qed

text \<open>Text that XML can carry: no control characters but tabulators and line feeds.\<close>

definition clean_text :: "string \<Rightarrow> bool" where
  "clean_text s \<longleftrightarrow> list_all (\<lambda>c. 32 \<le> code c \<or> code c = 9 \<or> code c = 10) s"

fun clean_element :: "element \<Rightarrow> bool" where
  "clean_element (Element tag attrs text children) \<longleftrightarrow>
     list_all (\<lambda>(_, v). clean_text v) attrs \<and> (case text of Some t \<Rightarrow> clean_text t | None \<Rightarrow> True) \<and>
     list_all clean_element children"

definition xml_entry_ok :: "(pyval \<Rightarrow> string) \<Rightarrow> pyval \<Rightarrow> bool" where
  "xml_entry_ok show e \<longleftrightarrow> (case xml_result_element show e of Inr r \<Rightarrow> clean_element r | Inl _ \<Rightarrow> False)"

definition xml_document :: "(pyval \<Rightarrow> string) \<Rightarrow> string \<Rightarrow> string \<Rightarrow> pyval list \<Rightarrow> element" where
  "xml_document show command time rs =
     Element ''dirsearchscan'' [(''args'', command), (''time'', time)] None
       (concat (map (\<lambda>e. case xml_result_element show e of Inr r \<Rightarrow> [r] | Inl _ \<Rightarrow> []) rs))"

definition xml_extend :: "(pyval \<Rightarrow> string) \<Rightarrow> pyval \<Rightarrow> element \<Rightarrow> element" where
  "xml_extend show e d =
     Element (el_tag d) (el_attrs d) (el_text d)
       (el_children d @ (case xml_result_element show e of Inr r \<Rightarrow> [serialize_element r] | Inl _ \<Rightarrow> []))"

text \<open>What \<open>xml.etree\<close> documents: a clean element comes back with the same texts, up to the blank ones.\<close>

definition rereads :: "(element \<Rightarrow> element) \<Rightarrow> bool" where
  "rereads reread \<longleftrightarrow>
     (\<forall>d. clean_element d \<longrightarrow> clean_element (reread d) \<and> serialize_element (reread d) = serialize_element d)"

lemma xml_laws:
  assumes "rereads reread" "clean_text command" "clean_text time"
  shows "report_laws (xml_format show reread H command time) serialize_element H (xml_new command time) (xml_extend show)
    clean_element (xml_entry_ok show)"
proof unfold_locales
  fix d e assume d: "clean_element d" and e: "xml_entry_ok show e"
  then obtain r where r: "xml_result_element show e = Inr r" "clean_element r"
    by (auto simp: xml_entry_ok_def split: sum.splits)
  obtain tag attrs t children where "d = Element tag attrs t children" by (cases d)
  with d r show "\<exists>d'. rf_apply (xml_format show reread H command time) d e = Inr d' \<and> clean_element d' \<and>
      serialize_element d' = xml_extend show e (serialize_element d)"
    by (simp add: xml_format_def xml_apply_def xml_extend_def)
qed (use assms in \<open>auto simp: xml_format_def xml_new_def blank_text_def rereads_def\<close>)

lemma xml_after:
  assumes "report_laws fmt view H (xml_new command time) (xml_extend show) doc_ok entry_ok"
  shows "report_laws.after (xml_new command time) (xml_extend show) rs = serialize_element (xml_document show command time rs)"
proof -
  have "fold (xml_extend show) rs (serialize_element (xml_document show command time rs0)) =
      serialize_element (xml_document show command time (rs0 @ rs))" for rs0
  proof (induction rs arbitrary: rs0)
    case (Cons e rs)
    have "xml_extend show e (serialize_element (xml_document show command time rs0)) =
      serialize_element (xml_document show command time (rs0 @ [e]))"
      by (simp add: xml_extend_def xml_document_def blank_text_def split: sum.split)
    with Cons.IH [of "rs0 @ [e]"] show ?case by simp
  qed simp
  from this [of "[]"] show ?thesis
    unfolding report_laws.after_def [OF assms] by (simp add: xml_new_def xml_document_def blank_text_def)
qed

section \<open>Properties\<close>

text \<open>C29: a JSON report loses nothing and repeats nothing: after any sequence of results, flushes and
  restarts, whichever of the writes fail, what the next start or flush reads from the report and its
  journal are exactly the entries whose \<open>save\<close> returned, in order, provided that no two of the states
  the report went through have the same digest.\<close>
theorem json_report_loses_nothing:
  assumes "run_steps (json_format H command time) steps (no_report fails) = (saved, w)"
    and "inj_on (\<lambda>n. H (json_document command time (take n saved))) {..length saved}"
  shows "saved = [] \<and> w_report w = Blank \<or>
    recovered (json_format H command time) w = Inr (json_document command time saved)"
proof -
  have "json.told_apart H command time saved" using assms(2) by (simp add: json.told_apart_def json.mark_def [abs_def])
  from json.recovers [OF assms(1) _ this] show ?thesis by (auto simp: list_all_iff)
qed

definition sample_entry :: "string \<Rightarrow> pyval" where
  "sample_entry url = PyDict [(''contentLength'', PyInt 5), (''contentType'', PyStr ''text/html''), (''redirect'', PyStr []),
     (''status'', PyInt 200), (''url'', PyStr url)]"

definition length_digest :: "pyval \<Rightarrow> string" where
  "length_digest d =
     (case d of PyDict [_, (_, PyList rs)] \<Rightarrow> replicate (length rs) CHR ''x'' | PyList rs \<Rightarrow> replicate (length rs) CHR ''x'' | _ \<Rightarrow> ''-'')"

text \<open>The first flush cannot write the report, the program starts again and compacts it.\<close>

definition sample_steps :: "report_step list" where
  "sample_steps = [Restart, Save (sample_entry ''a''), Flush, Save (sample_entry ''b''), Restart, Flush, Save (sample_entry ''c'')]"

definition sample_fails :: "bool list" where
  "sample_fails = [False, False, False, False, True]"

lemma length_digest_json: "inj_on (\<lambda>n. length_digest (json_document c t (take n rs))) {..length rs}"
  by (rule inj_onI) (auto simp: length_digest_def json_document_def dest: arg_cong [where f = length])

theorem json_report_loses_nothing_witness:
  "fst (run_steps (json_format length_digest ''-u x'' ''now'') sample_steps (no_report sample_fails)) =
     [sample_entry ''a'', sample_entry ''b'', sample_entry ''c''] \<and>
   recovered (json_format length_digest ''-u x'' ''now'')
     (snd (run_steps (json_format length_digest ''-u x'' ''now'') sample_steps (no_report sample_fails))) =
     Inr (json_document ''-u x'' ''now'' [sample_entry ''a'', sample_entry ''b'', sample_entry ''c''])"
proof -
  let ?r = "run_steps (json_format length_digest ''-u x'' ''now'') sample_steps (no_report sample_fails)"
  have s: "fst ?r = [sample_entry ''a'', sample_entry ''b'', sample_entry ''c'']" by code_simp
  from json_report_loses_nothing [OF prod.collapse [symmetric] length_digest_json, of "''-u x''" "''now''" sample_steps sample_fails] s
  show ?thesis by simp
qed

text \<open>C30: an HTML report becomes complete: whatever failed before, once the writes succeed again a flush
  of an initiated report returns, leaves a page with exactly the saved entries, and no journal.\<close>
theorem html_flush_completes:
  assumes "run_steps (html_format H) steps (no_report fails) = (saved, w)" "w_state w \<noteq> None"
    and "inj_on (\<lambda>n. H (PyList (take n saved))) {..length saved}"
    and "compact (html_format H) (w\<lparr>w_fails := []\<rparr>) = (r, w')"
  shows "r = Inr () \<and> w_report w' = Doc (PyList saved) \<and> w_journal w' = None"
proof -
  have "html.told_apart H saved" using assms(3) by (simp add: html.told_apart_def html.mark_def [abs_def])
  from html.flush_completes [OF assms(1) _ this assms(2,4)] show ?thesis by (simp add: list_all_iff)
qed

lemma length_digest_html: "inj_on (\<lambda>n. length_digest (PyList (take n rs))) {..length rs}"
  by (rule inj_onI) (auto simp: length_digest_def dest: arg_cong [where f = length])

theorem html_flush_completes_witness:
  "w_report (snd (compact (html_format length_digest)
     ((snd (run_steps (html_format length_digest) sample_steps (no_report sample_fails)))\<lparr>w_fails := []\<rparr>))) =
   Doc (PyList [sample_entry ''a'', sample_entry ''b'', sample_entry ''c''])"
proof -
  let ?r = "run_steps (html_format length_digest) sample_steps (no_report sample_fails)"
  have s: "fst ?r = [sample_entry ''a'', sample_entry ''b'', sample_entry ''c'']" "w_state (snd ?r) \<noteq> None" by code_simp+
  from html_flush_completes [OF prod.collapse [symmetric] s(2) length_digest_html prod.collapse [symmetric]] s(1)
  show ?thesis by simp
qed

lemma serialize_idem: "serialize_element (serialize_element d) = serialize_element d"
proof (induction d rule: serialize_element.induct)
  case (1 tag attrs t children)
  then show ?case by (simp add: blank_text_def split: option.splits)
qed

lemma serialize_clean: "clean_element d \<Longrightarrow> clean_element (serialize_element d)"
proof (induction d rule: serialize_element.induct)
  case (1 tag attrs t children)
  then show ?case by (auto simp: blank_text_def list_all_iff split: option.splits)
qed

lemma serialize_rereads: "rereads serialize_element"
  by (simp add: rereads_def serialize_idem serialize_clean)

text \<open>An XML report loses nothing either: with the parser and writer of \<open>xml.etree\<close> keeping clean
  text, the element read back carries exactly the saved results, up to blank texts.\<close>
theorem xml_report_loses_nothing:
  assumes "rereads reread" "clean_text command" "clean_text time" "list_all (xml_entry_ok show) (step_entries steps)"
    and "run_steps (xml_format show reread H command time) steps (no_report fails) = (saved, w)"
    and "inj_on (\<lambda>n. H (serialize_element (xml_document show command time (take n saved)))) {..length saved}"
  shows "saved = [] \<and> w_report w = Blank \<or>
    (\<exists>d. recovered (xml_format show reread H command time) w = Inr d \<and>
         serialize_element d = serialize_element (xml_document show command time saved))"
proof -
  note laws = xml_laws [OF assms(1-3), of "show" H]
  have "report_laws.told_apart H (xml_new command time) (xml_extend show) saved"
    using assms(6) by (simp add: report_laws.told_apart_def [OF laws] report_laws.mark_def [OF laws, abs_def] xml_after [OF laws])
  from report_laws.recovers [OF laws assms(5,4) this] show ?thesis by (auto simp: xml_after [OF laws])
qed

definition show_value :: "pyval \<Rightarrow> string" where
  "show_value v = (case v of PyInt n \<Rightarrow> show_int n | _ \<Rightarrow> ''0.5'')"

definition children_digest :: "element \<Rightarrow> string" where
  "children_digest d = replicate (length (el_children d)) CHR ''x''"

lemma children_digest_xml:
  assumes "list_all (xml_entry_ok show) rs"
  shows "inj_on (\<lambda>n. children_digest (serialize_element (xml_document show c t (take n rs)))) {..length rs}"
proof -
  have count: "length (concat (map (\<lambda>e. case xml_result_element show e of Inr r \<Rightarrow> [r] | Inl _ \<Rightarrow> []) es)) = length es"
    if "list_all (xml_entry_ok show) es" for es
    using that by (induction es) (auto simp: xml_entry_ok_def split: sum.splits)
  have "list_all (xml_entry_ok show) (take n rs)" for n using assms by (metis append_take_drop_id list_all_append)
  then have "length (children_digest (serialize_element (xml_document show c t (take n rs)))) = min (length rs) n" for n
    by (simp add: children_digest_def xml_document_def count)
  then show ?thesis by (intro inj_onI) (metis atMost_iff min.absorb2)
qed

theorem xml_report_loses_nothing_witness:
  "\<exists>d. recovered (xml_format show_value serialize_element children_digest ''-u x'' ''now'')
       (snd (run_steps (xml_format show_value serialize_element children_digest ''-u x'' ''now'') sample_steps (no_report sample_fails))) = Inr d \<and>
     serialize_element d = serialize_element (xml_document show_value ''-u x'' ''now'' [sample_entry ''a'', sample_entry ''b'', sample_entry ''c''])"
proof -
  let ?r = "run_steps (xml_format show_value serialize_element children_digest ''-u x'' ''now'') sample_steps (no_report sample_fails)"
  have s: "fst ?r = [sample_entry ''a'', sample_entry ''b'', sample_entry ''c'']" by code_simp
  have ok: "clean_text ''-u x''" "clean_text ''now''" "list_all (xml_entry_ok show_value) (step_entries sample_steps)" by code_simp+
  have "list_all (xml_entry_ok show_value) (fst ?r)" unfolding s by code_simp
  from xml_report_loses_nothing [OF serialize_rereads ok prod.collapse [symmetric] children_digest_xml [OF this]] s
  show ?thesis by simp
qed

text \<open>A journal line that is not JSON, the rest of a write whose rollback failed as well, makes the
  program refuse the report: the scan with that output file ends at its start, and nothing changes.\<close>
theorem torn_line_refuses_report:
  assumes "w_report w = Doc d" "w_journal w = Some ls" "None \<in> set ls" "w_state w = None"
  shows "initiate fmt w = (Inl (FileExistsException ''Output file already exists''), w)"
proof -
  have "journal_records ls = Inl (ValueError ''JSON'')"
    using assms(3) by (induction ls) (auto simp: journal_records_def split: option.splits)
  with assms show ?thesis
    by (simp add: initiate_def open_report_def parse_report_def io_bind_def read_journal_def raise_def report_parse_error_def)
qed

theorem torn_line_refuses_report_witness:
  "initiate (html_format length_digest)
     \<lparr>w_report = Doc (PyList []), w_journal = Some [Some (journal_header (html_format length_digest) []), None], w_state = None, w_fails = []\<rparr> =
   (Inl (FileExistsException ''Output file already exists''),
     \<lparr>w_report = Doc (PyList []), w_journal = Some [Some (journal_header (html_format length_digest) []), None], w_state = None, w_fails = []\<rparr>)"
  by (rule torn_line_refuses_report [of _ "PyList []" "[Some (journal_header (html_format length_digest) []), None]"]) simp_all

end
