(* ===== verification/Reports.thy ===== *)
theory Reports
  imports Journal
begin

text \<open>
  The other reports of \<open>lib/report\<close>: the text reports, to which every result is appended
  (\<open>FileReportMixin\<close>: plain, simple, markdown, CSV), the databases (\<open>SQLReportMixin\<close>: SQLite, MySQL,
  PostgreSQL), and the manager that sends results to all of them (\<open>manager.py\<close>).
\<close>

section \<open>Text reports\<close>

text \<open>An empty file counts as none.  The worlds are those of the structured reports, without journal.\<close>

definition text_content :: "string \<Rightarrow> string content" where
  "text_content t = (if t = [] then Blank else Doc t)"

definition file_initiate :: "string \<Rightarrow> (string \<Rightarrow> unit result) \<Rightarrow> (string report_world, unit) io" where
  "file_initiate new_text validate w =
     (case w_report w of
        Blank \<Rightarrow> write_op (\<lambda>w. w\<lparr>w_report := text_content new_text\<rparr>) w
      | c \<Rightarrow>
          (case rbind (parse_report c) validate of
             Inl e \<Rightarrow> raise (if report_parse_error e then FileExistsException ''Output file already exists'' else e) w
           | Inr _ \<Rightarrow> ret () w))"

definition append_text :: "string \<Rightarrow> (string report_world, unit) io" where
  "append_text t =
     write_op (\<lambda>w. w\<lparr>w_report := (case w_report w of Blank \<Rightarrow> text_content t | Doc old \<Rightarrow> Doc (old @ t) | Garbage \<Rightarrow> Garbage)\<rparr>)"

definition any_text :: "string \<Rightarrow> unit result" where
  "any_text t = Inr ()"

text \<open>\<open>int(q)\<close> cuts the fraction off; milliseconds of a measured time.\<close>

definition trunc_rat :: "rat \<Rightarrow> int" where
  "trunc_rat q = (let (n, d) = quotient_of q in if n < 0 then - (- n div d) else n div d)"

definition elapsed_ms :: "response \<Rightarrow> int" where
  "elapsed_ms r = trunc_rat (r_elapsed r * 1000)"

definition rjust :: "nat \<Rightarrow> string \<Rightarrow> string" where
  "rjust n s = replicate (n - length s) CHR '' '' @ s"

definition new_line :: string where "new_line = [CHR 0x0A]"

definition plain_new :: "string \<Rightarrow> string \<Rightarrow> string" where
  "plain_new command time = ''# Dirsearch started at '' @ time @ '' as: '' @ command @ new_line"

definition plain_line :: "response \<Rightarrow> string" where
  "plain_line r =
     show_int (r_status r) @ '' '' @ rjust 6 (get_readable_size (r_length r)) @ '' '' @ r_url r
     @ (if r_elapsed r \<noteq> 0 then ''  ('' @ show_int (elapsed_ms r) @ ''ms)'' else [])
     @ (if r_redirect r \<noteq> [] then ''  ->  '' @ r_redirect r else []) @ new_line"

definition simple_line :: "response \<Rightarrow> string" where
  "simple_line r = r_url r @ new_line"

definition markdown_new :: "string \<Rightarrow> string \<Rightarrow> string" where
  "markdown_new command time =
     ''### Information'' @ new_line @ ''Command: '' @ command @ new_line @ ''Time: '' @ time @ new_line @ new_line
     @ ''URL | Status | Size | Content Type | Redirection | Elapsed (ms)'' @ new_line
     @ ''----|--------|------|--------------|-------------|-------------'' @ new_line"

definition markdown_row :: "response \<Rightarrow> string" where
  "markdown_row r =
     r_url r @ '' | '' @ show_int (r_status r) @ '' | '' @ show_int (r_length r) @ '' | '' @ r_type r @ '' | ''
     @ r_redirect r @ '' | '' @ (if r_elapsed r \<noteq> 0 then show_int (elapsed_ms r) else ''-'') @ new_line"

definition plain_save :: "response \<Rightarrow> (string report_world, unit) io" where
  "plain_save r = append_text (plain_line r)"

definition simple_save :: "response \<Rightarrow> (string report_world, unit) io" where
  "simple_save r = append_text (simple_line r)"

definition markdown_save :: "response \<Rightarrow> (string report_world, unit) io" where
  "markdown_save r = append_text (markdown_row r)"

section \<open>CSV\<close>

text \<open>The writer of Python's \<open>csv\<close> with its default dialect.\<close>

definition dquote :: char where "dquote = CHR 0x22"

definition csv_special :: "char \<Rightarrow> bool" where
  "csv_special c \<longleftrightarrow> c = CHR '','' \<or> c = dquote \<or> code c = 10 \<or> code c = 13"

definition double_quotes :: "string \<Rightarrow> string" where
  "double_quotes s = concat (map (\<lambda>c. if c = dquote then [dquote, dquote] else [c]) s)"

definition csv_field :: "string \<Rightarrow> string" where
  "csv_field s = (if list_ex csv_special s then dquote # double_quotes s @ [dquote] else s)"

definition crlf :: string where "crlf = [CHR 0x0D, CHR 0x0A]"

definition csv_line :: "string list \<Rightarrow> string" where
  "csv_line cells = (if cells = [[]] then [dquote, dquote] else join '','' (map csv_field cells)) @ crlf"

text \<open>Its reader, which is fed the lines with their ends.\<close>

datatype csv_state = StartRecord | AfterCr | StartField | InField | InQuoted | QuoteInQuoted

fun csv_feed :: "csv_state \<Rightarrow> string \<Rightarrow> string list \<Rightarrow> string list list \<Rightarrow> string \<Rightarrow> string list list" where
  "csv_feed st f fs rows [] = (if st = StartRecord \<or> st = AfterCr then rows else rows @ [fs @ [f]])"
| "csv_feed st f fs rows (c # s) =
     (if st = InQuoted then
        (if c = dquote then csv_feed QuoteInQuoted f fs rows s else csv_feed InQuoted (f @ [c]) fs rows s)
      else if st = AfterCr \<and> code c = 10 then csv_feed StartRecord [] [] rows s
      else if code c = 10 \<or> code c = 13 then
        csv_feed (if code c = 13 then AfterCr else StartRecord) [] []
          (rows @ [if st = StartRecord \<or> st = AfterCr then [] else fs @ [f]]) s
      else if c = CHR '','' then csv_feed StartField [] (fs @ [f]) rows s
      else if c = dquote \<and> st \<noteq> InField then csv_feed InQuoted (if st = QuoteInQuoted then f @ [c] else f) fs rows s
      else csv_feed InField (f @ [c]) fs rows s)"

definition csv_read :: "string \<Rightarrow> string list list" where
  "csv_read s = csv_feed StartRecord [] [] [] s"

definition csv_header :: "string list" where
  "csv_header = [''URL'', ''Status'', ''Size'', ''Content Type'', ''Redirection'', ''Elapsed (s)'']"

definition csv_parse :: "string \<Rightarrow> string list list result" where
  "csv_parse t =
     (case csv_read t of
        [] \<Rightarrow> Inl IndexError
      | row # rows \<Rightarrow> if row \<noteq> csv_header then Inl (ValueError ''CSV header mismatch'') else Inr (row # rows))"

definition csv_row :: "(rat \<Rightarrow> string) \<Rightarrow> response \<Rightarrow> string list" where
  "csv_row show_float r =
     [r_url r, show_int (r_status r), show_int (r_length r), r_type r, r_redirect r,
      if r_elapsed r \<noteq> 0 then show_float (round3 (r_elapsed r)) else []]"

text \<open>The writer is that of \<open>defusedcsv\<close>, which first disarms every cell; how is the parameter \<open>defuse\<close>.\<close>

definition csv_save :: "(string \<Rightarrow> string) \<Rightarrow> (rat \<Rightarrow> string) \<Rightarrow> response \<Rightarrow> (string report_world, unit) io" where
  "csv_save defuse show_float r = append_text (csv_line (map defuse (csv_row show_float r)))"

definition csv_initiate :: "(string \<Rightarrow> string) \<Rightarrow> (string report_world, unit) io" where
  "csv_initiate defuse = file_initiate (csv_line (map defuse csv_header)) (\<lambda>t. rbind (csv_parse t) (\<lambda>_. Inr ()))"

text \<open>The results whose \<open>save\<close> returned.\<close>

fun save_all :: "(response \<Rightarrow> ('w, unit) io) \<Rightarrow> response list \<Rightarrow> 'w \<Rightarrow> response list \<times> 'w" where
  "save_all save [] w = ([], w)"
| "save_all save (r # rs) w =
     (let (x, w) = save r w; (saved, w) = save_all save rs w in (if x = Inr () then r # saved else saved, w))"

lemma dquote_facts [simp]: "code dquote = 34" "dquote \<noteq> CHR '',''" "csv_special dquote"
  by (simp_all add: dquote_def csv_special_def)

lemma double_quotes_simps [simp]:
  "double_quotes [] = []" "double_quotes (c # s) = (if c = dquote then dquote # dquote # double_quotes s else c # double_quotes s)"
  by (simp_all add: double_quotes_def)

lemma feed_quoted:
  "csv_feed InQuoted f fs rows (double_quotes s @ dquote # t) = csv_feed QuoteInQuoted (f @ s) fs rows t"
  by (induction s arbitrary: f) simp_all

lemma feed_plain:
  "\<not> list_ex csv_special s \<Longrightarrow> csv_feed InField f fs rows (s @ t) = csv_feed InField (f @ s) fs rows t"
  by (induction s arbitrary: f) (auto simp: csv_special_def)

definition ready :: "csv_state \<Rightarrow> bool" where
  "ready st \<longleftrightarrow> st = StartRecord \<or> st = StartField"

lemma feed_field:
  assumes "ready st"
  obtains st' where "st' \<noteq> InQuoted" "st' \<noteq> AfterCr" "s \<noteq> [] \<or> st = StartField \<Longrightarrow> st' \<noteq> StartRecord"
    "\<And>t. csv_feed st [] fs rows (csv_field s @ t) = csv_feed st' s fs rows t"
proof (cases "list_ex csv_special s")
  case True
  show thesis
    by (rule that [of QuoteInQuoted]) (use True assms in \<open>auto simp: csv_field_def ready_def feed_quoted\<close>)
next
  case False
  show thesis
  proof (cases s)
    case Nil show thesis by (rule that [of st]) (use Nil assms in \<open>auto simp: csv_field_def ready_def\<close>)
  next
    case (Cons c s')
    have "csv_feed st [] fs rows (csv_field s @ t) = csv_feed InField s fs rows t" for t
      using False Cons assms feed_plain [of s' "[c]"] by (auto simp: csv_field_def ready_def csv_special_def)
    then show thesis by (intro that [of InField]) auto
  qed
qed
lemma feed_end:
  "st \<noteq> InQuoted \<Longrightarrow> st \<noteq> AfterCr \<Longrightarrow> st \<noteq> StartRecord \<Longrightarrow>
   csv_feed st f fs rows (crlf @ t) = csv_feed StartRecord [] [] (rows @ [fs @ [f]]) t"
  by (simp add: crlf_def)

lemma feed_comma:
  "st \<noteq> InQuoted \<Longrightarrow> csv_feed st f fs rows (CHR '','' # t) = csv_feed StartField [] (fs @ [f]) rows t"
  by simp

lemma feed_cells:
  assumes "ready st" "cells \<noteq> []" "st = StartField \<or> cells \<noteq> [[]]"
  shows "csv_feed st [] fs rows (join '','' (map csv_field cells) @ crlf @ t) =
    csv_feed StartRecord [] [] (rows @ [fs @ cells]) t"
  using assms
proof (induction cells arbitrary: st fs)
  case Nil then show ?case by simp
next
  case (Cons s cells)
  obtain st' where st': "st' \<noteq> InQuoted" "st' \<noteq> AfterCr" "s \<noteq> [] \<or> st = StartField \<Longrightarrow> st' \<noteq> StartRecord"
    "\<And>t. csv_feed st [] fs rows (csv_field s @ t) = csv_feed st' s fs rows t"
    using feed_field [OF Cons.prems(1)] by blast
  show ?case
  proof (cases cells)
    case Nil
    with Cons.prems have "st' \<noteq> StartRecord" using st'(3) by blast
    with Nil st' show ?thesis by (simp add: feed_end del: csv_feed.simps)
  next
    case (Cons s2 cells2)
    have "csv_feed st [] fs rows (join '','' (map csv_field (s # cells)) @ crlf @ t) =
      csv_feed st' s fs rows (CHR '','' # join '','' (map csv_field cells) @ crlf @ t)"
      using Cons st'(4) by (simp del: csv_feed.simps)
    also have "\<dots> = csv_feed StartField [] (fs @ [s]) rows (join '','' (map csv_field cells) @ crlf @ t)"
      by (rule feed_comma [OF st'(1)])
    also have "\<dots> = csv_feed StartRecord [] [] (rows @ [(fs @ [s]) @ cells]) t"
      using Cons by (intro Cons.IH) (simp_all add: ready_def)
    finally show ?thesis by simp
  qed
qed

lemma feed_line:
  assumes "cells \<noteq> []"
  shows "csv_feed StartRecord [] [] rows (csv_line cells @ t) = csv_feed StartRecord [] [] (rows @ [cells]) t"
proof (cases "cells = [[]]")
  case True then show ?thesis by (simp add: csv_line_def crlf_def)
next
  case False
  with feed_cells [of StartRecord cells "[]" rows t] assms show ?thesis
    by (simp add: csv_line_def ready_def del: csv_feed.simps)
qed

lemma feed_lines:
  "\<forall>cells \<in> set rows. cells \<noteq> [] \<Longrightarrow>
   csv_feed StartRecord [] [] acc (concat (map csv_line rows)) = acc @ rows"
proof (induction rows arbitrary: acc)
  case (Cons cells rows)
  then show ?case by (simp add: feed_line del: csv_feed.simps(2))
qed simp

lemma csv_read_lines: "\<forall>cells \<in> set rows. cells \<noteq> [] \<Longrightarrow> csv_read (concat (map csv_line rows)) = rows"
  by (simp add: csv_read_def feed_lines)

lemma csv_line_nonempty [simp]: "csv_line cells \<noteq> []"
  by (simp add: csv_line_def crlf_def)

lemma csv_saved_text:
  assumes "save_all (csv_save defuse show_float) rs w = (saved, w')" "w_report w = Doc t"
  shows "w_report w' = Doc (t @ concat (map (\<lambda>r. csv_line (map defuse (csv_row show_float r))) saved))"
  using assms
proof (induction rs arbitrary: w t saved w')
  case (Cons r rs)
  obtain x w1 where x: "csv_save defuse show_float r w = (x, w1)" by fastforce
  obtain sv w2 where sv: "save_all (csv_save defuse show_float) rs w1 = (sv, w2)" by fastforce
  let ?l = "csv_line (map defuse (csv_row show_float r))"
  from x [unfolded csv_save_def append_text_def] have "w_report w1 = Doc (if x = Inr () then t @ ?l else t)"
    using Cons.prems(2) by (cases rule: write_op_cases) auto
  from Cons.IH [OF sv this] Cons.prems(1) x sv show ?case by (auto split: if_splits)
qed auto

text \<open>C31: a CSV report is read back as what was saved: whatever the texts of the results hold (commas,
  quotes, line breaks) and whichever appends fail, the file is a report again to a later start, and its
  rows are the disarmed cells of exactly the results whose \<open>save\<close> returned.\<close>
theorem csv_report_read_back:
  assumes "map defuse csv_header = csv_header"
    and "csv_initiate defuse (no_report fails) = (Inr (), w)"
    and "save_all (csv_save defuse show_float) rs w = (saved, w')"
  shows "\<exists>t. w_report w' = Doc t \<and> csv_parse t = Inr (csv_header # map (\<lambda>r. map defuse (csv_row show_float r)) saved) \<and>
    csv_initiate defuse w' = (Inr (), w')"
proof -
  from assms(2) have "write_op (\<lambda>w. w\<lparr>w_report := text_content (csv_line csv_header)\<rparr>) (no_report fails) = (Inr (), w)"
    by (simp add: csv_initiate_def file_initiate_def no_report_def assms(1))
  then have "w_report w = Doc (csv_line csv_header)" by (cases rule: write_op_cases) (auto simp: text_content_def)
  from csv_saved_text [OF assms(3) this] obtain t where t: "w_report w' = Doc t"
    "t = concat (map csv_line (csv_header # map (\<lambda>r. map defuse (csv_row show_float r)) saved))" by (simp add: o_def)
  have "csv_read t = csv_header # map (\<lambda>r. map defuse (csv_row show_float r)) saved"
    unfolding t(2) by (rule csv_read_lines) (auto simp: csv_header_def csv_row_def)
  then have p: "csv_parse t = Inr (csv_header # map (\<lambda>r. map defuse (csv_row show_float r)) saved)" by (simp add: csv_parse_def)
  then have "csv_initiate defuse w' = (Inr (), w')"
    by (simp add: csv_initiate_def file_initiate_def t(1) parse_report_def ret_def)
  with t(1) p show ?thesis by blast
qed

definition sample_result :: "string \<Rightarrow> string \<Rightarrow> response" where
  "sample_result url redirect = base_response 1 url 200 [(''location'', redirect)] 0 [] None"

theorem csv_report_read_back_witness:
  "\<exists>t. w_report (snd (save_all (csv_save (\<lambda>s. s) (\<lambda>_. ''0.5'')) [sample_result ''http://h/a'' ''x,y'', sample_result ''http://h/b'' [dquote]]
        (snd (csv_initiate (\<lambda>s. s) (no_report [False, True]))))) = Doc t \<and>
     csv_parse t = Inr [csv_header, [''http://h/b'', ''200'', ''0'', ''unknown'', [dquote], []]]"
proof -
  let ?i = "csv_initiate (\<lambda>s. s) (no_report [False, True])"
  let ?s = "save_all (csv_save (\<lambda>s. s) (\<lambda>_. ''0.5'')) [sample_result ''http://h/a'' ''x,y'', sample_result ''http://h/b'' [dquote]] (snd ?i)"
  have i: "?i = (Inr (), snd ?i)" by (simp add: csv_initiate_def file_initiate_def no_report_def write_op_def)
  have "fst ?s = [sample_result ''http://h/b'' [dquote]]" by code_simp
  moreover have "csv_row (\<lambda>_. ''0.5'') (sample_result ''http://h/b'' [dquote]) = [''http://h/b'', ''200'', ''0'', ''unknown'', [dquote], []]"
    by code_simp
  ultimately show ?thesis using csv_report_read_back [OF _ i prod.collapse [symmetric], of "\<lambda>_. ''0.5''"] by fastforce
qed

section \<open>Databases\<close>

text \<open>A row: time, URL, status, length, type, redirect.  A database keeps statements; those since the last
  commit belong to the open connection and are lost when it closes.\<close>

type_synonym sql_row = "string \<times> string \<times> int \<times> int \<times> string \<times> string"

datatype sql_statement = CreateTable string | Insert string sql_row

record sql_world =
  q_stored :: "(string \<times> sql_statement) list"
  q_conn :: "string option"
  q_pending :: "sql_statement list"
  q_writes :: nat
  q_fails :: "bool list"

text \<open>A database: the address is checked first, then the driver connects; every operation of the driver
  may fail.\<close>

record sql_kind =
  k_address :: "string \<Rightarrow> unit result"
  k_failure :: exc
  k_batch :: nat

definition sql_op :: "exc \<Rightarrow> (sql_world \<Rightarrow> sql_world) \<Rightarrow> (sql_world, unit) io" where
  "sql_op e f w =
     (case q_fails w of
        [] \<Rightarrow> (Inr (), f w)
      | failed # fails \<Rightarrow> if failed then (Inl e, w\<lparr>q_fails := fails\<rparr>) else (Inr (), f (w\<lparr>q_fails := fails\<rparr>)))"

definition database_error :: exc where "database_error = DatabaseError ''database''"

definition sqlite_kind :: "int \<Rightarrow> sql_kind result" where
  "sqlite_kind batch =
     (if batch < 1 then Inl (ValueError ''SQLite commit batch size must be a positive integer'')
      else Inr \<lparr>k_address = (\<lambda>_. Inr ()), k_failure = ValueError ''not a valid SQLite database'', k_batch = nat batch\<rparr>)"

definition mysql_is_valid :: "string \<Rightarrow> bool" where
  "mysql_is_valid url \<longleftrightarrow> starts_with url ''mysql://''"

definition mysql_kind :: sql_kind where
  "mysql_kind =
     \<lparr>k_address = (\<lambda>url. if mysql_is_valid url then Inr ()
                         else Inl (InvalidURLException ''Provided MySQL URL does not start with mysql://'')),
      k_failure = OSError ''mysql'', k_batch = 1\<rparr>"

definition postgresql_is_valid :: "string \<Rightarrow> bool" where
  "postgresql_is_valid url \<longleftrightarrow> starts_with_any url [''postgres://'', ''postgresql://'']"

definition postgresql_kind :: sql_kind where
  "postgresql_kind =
     \<lparr>k_address = (\<lambda>url. if postgresql_is_valid url then Inr ()
                         else Inl (InvalidURLException ''Provided PostgreSQL URL does not start with postgresql://'')),
      k_failure = OSError ''postgresql'', k_batch = 1\<rparr>"

definition sql_connect :: "sql_kind \<Rightarrow> string \<Rightarrow> (sql_world, unit) io" where
  "sql_connect k db w =
     (case k_address k db of
        Inl e \<Rightarrow> raise e w
      | Inr _ \<Rightarrow> sql_op (k_failure k) (\<lambda>w. w\<lparr>q_conn := Some db, q_pending := []\<rparr>) w)"

definition sql_commit :: "(sql_world, unit) io" where
  "sql_commit = sql_op database_error
     (\<lambda>w. w\<lparr>q_stored := q_stored w @ map (Pair (the (q_conn w))) (q_pending w), q_pending := [], q_writes := 0\<rparr>)"

text \<open>\<open>try: commit finally: try: close finally: forget\<close>; an exception of \<open>close\<close> replaces that of \<open>commit\<close>.\<close>

definition sql_close_connection :: "(sql_world, unit) io" where
  "sql_close_connection w =
     (if q_conn w = None then ret () w
      else (let (r, w) = sql_commit w; (r2, w) = sql_op database_error (\<lambda>w. w) w in
            (if r2 = Inr () then r else r2, w\<lparr>q_conn := None, q_pending := []\<rparr>)))"

definition get_connection :: "sql_kind \<Rightarrow> string \<Rightarrow> (sql_world, unit) io" where
  "get_connection k db w =
     io_bind (if q_conn w \<noteq> None \<and> q_conn w \<noteq> Some db then sql_close_connection else ret ()) (\<lambda>_ w.
       if q_conn w = None then sql_connect k db w else ret () w) w"

definition sql_execute :: "sql_statement \<Rightarrow> (sql_world, unit) io" where
  "sql_execute s = sql_op database_error (\<lambda>w. w\<lparr>q_pending := q_pending w @ [s]\<rparr>)"

definition sql_connection_error :: "exc \<Rightarrow> bool" where
  "sql_connection_error e \<longleftrightarrow>
     (case e of OSError _ \<Rightarrow> True | ValueError _ \<Rightarrow> True | ImportError _ \<Rightarrow> True | DatabaseError _ \<Rightarrow> True
      | InvalidURLException _ \<Rightarrow> True | _ \<Rightarrow> False)"

definition sql_initiate :: "sql_kind \<Rightarrow> string \<Rightarrow> string \<Rightarrow> (sql_world, unit) io" where
  "sql_initiate k db table w =
     (case get_connection k db w of
        (Inl e, w) \<Rightarrow> raise (if sql_connection_error e then CannotConnectException ''SQL database'' else e) w
      | (Inr _, w) \<Rightarrow> io_bind (sql_execute (CreateTable table)) (\<lambda>_. sql_commit) w)"

text \<open>\<open>_after_save\<close>: the count goes up, and the batch is committed when it is full.\<close>

definition after_save :: "sql_kind \<Rightarrow> (sql_world, unit) io" where
  "after_save k w =
     (let w = w\<lparr>q_writes := q_writes w + 1\<rparr> in if k_batch k \<le> q_writes w then sql_commit w else ret () w)"

definition sql_row_of :: "(response \<Rightarrow> string) \<Rightarrow> response \<Rightarrow> sql_row" where
  "sql_row_of when r = (when r, r_url r, r_status r, r_length r, r_type r, r_redirect r)"

definition sql_save :: "sql_kind \<Rightarrow> (response \<Rightarrow> string) \<Rightarrow> string \<Rightarrow> string \<Rightarrow> response \<Rightarrow> (sql_world, unit) io" where
  "sql_save k when db table r =
     io_bind (get_connection k db) (\<lambda>_. io_bind (sql_execute (Insert table (sql_row_of when r))) (\<lambda>_. after_save k))"

definition sql_flush :: "(sql_world, unit) io" where
  "sql_flush w = (if q_conn w \<noteq> None then sql_commit w else ret () w)"

definition sql_finish :: "(sql_world, unit) io" where
  "sql_finish = sql_close_connection"

subsection \<open>How much a crash can lose\<close>

definition all_rows :: "string \<Rightarrow> sql_world \<Rightarrow> (string \<times> sql_statement) list" where
  "all_rows db w = q_stored w @ map (Pair db) (q_pending w)"

text \<open>On one connection: at least as many writes are counted as are pending.\<close>

definition sql_inv :: "string \<Rightarrow> sql_world \<Rightarrow> bool" where
  "sql_inv db w \<longleftrightarrow> q_conn w = Some db \<and> length (q_pending w) \<le> q_writes w"

lemma sql_op_cases:
  assumes "sql_op e f w = (r, w')"
  obtains fails where "r = Inl e" "w' = w\<lparr>q_fails := fails\<rparr>"
  | fails where "r = Inr ()" "w' = f (w\<lparr>q_fails := fails\<rparr>)"
proof (cases "q_fails w")
  case Nil
  have same: "w\<lparr>q_fails := q_fails w\<rparr> = w" by simp
  from Nil assms have "r = Inr ()" "w' = f w" by (simp_all add: sql_op_def)
  then show ?thesis by (intro that(2) [of "q_fails w"]) (simp_all only: same)
next
  case (Cons failed fails) with assms that show ?thesis by (auto simp: sql_op_def split: if_splits)
qed

definition row_statement :: "(response \<Rightarrow> string) \<Rightarrow> string \<Rightarrow> string \<Rightarrow> response \<Rightarrow> string \<times> sql_statement" where
  "row_statement when db table r = (db, Insert table (sql_row_of when r))"

lemma sql_save_step:
  assumes "sql_inv db w" "sql_save k when db table r w = (x, w')"
  shows "sql_inv db w'" "x = Inr () \<Longrightarrow> length (q_pending w') < k_batch k \<or> q_pending w' = []"
    "\<exists>new. all_rows db w' = all_rows db w @ new \<and> (x = Inr () \<longrightarrow> new = [row_statement when db table r])"
proof -
  let ?s = "Insert table (sql_row_of when r)"
  have conn: "q_conn w = Some db" "length (q_pending w) \<le> q_writes w" using assms(1) by (simp_all add: sql_inv_def)
  have run: "io_bind (sql_execute ?s) (\<lambda>_. after_save k) w = (x, w')"
    using assms(2) conn(1) by (simp add: sql_save_def get_connection_def io_bind_def ret_def)
  obtain y w1 where y: "sql_execute ?s w = (y, w1)" by fastforce
  have "sql_inv db w' \<and> (x = Inr () \<longrightarrow> length (q_pending w') < k_batch k \<or> q_pending w' = []) \<and>
    (\<exists>new. all_rows db w' = all_rows db w @ new \<and> (x = Inr () \<longrightarrow> new = [row_statement when db table r]))"
    using y [unfolded sql_execute_def]
  proof (cases rule: sql_op_cases)
    case (1 fails)
    with run y have "w' = w\<lparr>q_fails := fails\<rparr>" "x \<noteq> Inr ()" by (auto simp: io_bind_def)
    with conn show ?thesis by (simp add: sql_inv_def all_rows_def)
  next
    case (2 fails)
    define w2 where "w2 = w1\<lparr>q_writes := q_writes w1 + 1\<rparr>"
    have w2: "sql_inv db w2" "all_rows db w2 = all_rows db w @ [row_statement when db table r]"
      using 2 conn by (simp_all add: w2_def sql_inv_def all_rows_def row_statement_def)
    from run y 2(1) have after: "(if k_batch k \<le> q_writes w2 then sql_commit w2 else ret () w2) = (x, w')"
      by (auto simp: io_bind_def after_save_def w2_def Let_def split: if_splits)
    show ?thesis
    proof (cases "k_batch k \<le> q_writes w2")
      case False
      with after w2 show ?thesis by (auto simp: sql_inv_def)
    next
      case True
      with after have "sql_commit w2 = (x, w')" by simp
      from this [unfolded sql_commit_def] show ?thesis
      proof (cases rule: sql_op_cases)
        case (1 fails) with w2 show ?thesis by (auto simp: sql_inv_def all_rows_def database_error_def)
      next
        case (2 fails) with w2 show ?thesis by (auto simp: sql_inv_def all_rows_def)
      qed
    qed
  qed
  then show "sql_inv db w'" "x = Inr () \<Longrightarrow> length (q_pending w') < k_batch k \<or> q_pending w' = []"
    "\<exists>new. all_rows db w' = all_rows db w @ new \<and> (x = Inr () \<longrightarrow> new = [row_statement when db table r])" by blast+
qed

lemma sql_saves:
  assumes "sql_inv db w" "save_all (sql_save k when db table) rs w = (saved, w')"
  shows "sql_inv db w' \<and> (\<exists>new. all_rows db w' = all_rows db w @ new \<and> subseq (map (row_statement when db table) saved) new)"
  using assms
proof (induction rs arbitrary: w saved w')
  case Nil then show ?case by auto
next
  case (Cons r rs)
  obtain x w1 where x: "sql_save k when db table r w = (x, w1)" by fastforce
  obtain sv w2 where sv: "save_all (sql_save k when db table) rs w1 = (sv, w2)" by fastforce
  note step = sql_save_step [OF Cons.prems(1) x]
  from step(3) obtain new1 where n1: "all_rows db w1 = all_rows db w @ new1" "x = Inr () \<longrightarrow> new1 = [row_statement when db table r]"
    by blast
  from Cons.IH [OF step(1) sv] obtain new2 where n2: "sql_inv db w2" "all_rows db w2 = all_rows db w1 @ new2"
    "subseq (map (row_statement when db table) sv) new2" by blast
  have "subseq (map (row_statement when db table) (if x = Inr () then r # sv else sv)) (new1 @ new2)"
    using n1(2) n2(3) by (auto simp: subseq_append_le_same_iff intro: list_emb_append2)
  with n1 n2 x sv Cons.prems(2) show ?case by auto
qed

lemma close_connection_conn: "sql_close_connection w = (r, w') \<Longrightarrow> q_conn w' = None"
  by (auto simp: sql_close_connection_def Let_def split: if_splits prod.splits)

lemma sql_connect_conn: "sql_connect k db w = (Inr (), w') \<Longrightarrow> q_conn w' = Some db"
  by (auto simp: sql_connect_def raise_def split: sum.splits elim: sql_op_cases)

lemma get_connection_conn:
  assumes "get_connection k db w = (Inr (), w')"
  shows "q_conn w' = Some db"
proof (cases "q_conn w \<noteq> None \<and> q_conn w \<noteq> Some db")
  case True
  with assms obtain w1 where "sql_close_connection w = (Inr (), w1)"
    "(if q_conn w1 = None then sql_connect k db w1 else ret () w1) = (Inr (), w')"
    by (auto simp: get_connection_def io_bind_eq_Inr)
  with close_connection_conn [OF this(1)] show ?thesis by (simp add: sql_connect_conn)
next
  case False
  with assms have "(if q_conn w = None then sql_connect k db w else ret () w) = (Inr (), w')"
    by (auto simp: get_connection_def io_bind_def ret_def)
  with False show ?thesis by (auto split: if_splits intro: sql_connect_conn)
qed

lemma sql_initiated:
  assumes "sql_initiate k db table w0 = (Inr (), w)"
  shows "sql_inv db w"
proof -
  from assms obtain w1 where c: "get_connection k db w0 = (Inr (), w1)"
    "io_bind (sql_execute (CreateTable table)) (\<lambda>_. sql_commit) w1 = (Inr (), w)"
    by (auto simp: sql_initiate_def raise_def split: prod.splits sum.splits)
  from c(2) obtain w2 where "sql_execute (CreateTable table) w1 = (Inr (), w2)" and commit: "sql_commit w2 = (Inr (), w)"
    by (auto simp: io_bind_eq_Inr)
  then have "q_conn w2 = Some db"
    using get_connection_conn [OF c(1)] by (auto simp: sql_execute_def elim: sql_op_cases)
  from commit [unfolded sql_commit_def] this show ?thesis
    by (cases rule: sql_op_cases) (auto simp: sql_inv_def database_error_def)
qed


definition no_database :: "bool list \<Rightarrow> sql_world" where
  "no_database fails = \<lparr>q_stored = [], q_conn = None, q_pending = [], q_writes = 0, q_fails = fails\<rparr>"


section \<open>The manager\<close>

text \<open>\<open>str.format\<close> with named fields: doubled braces stand for themselves.  Fields with attributes, indices,
  conversions or formats are the parameter \<open>special\<close>.\<close>

definition format_field :: "(string \<Rightarrow> string result) \<Rightarrow> (string \<times> string) list \<Rightarrow> string \<Rightarrow> string result" where
  "format_field special named name =
     (if list_ex (\<lambda>c. c \<in> set ''.[!:'') name then special name
      else if list_all is_digit name then Inl IndexError
      else (case map_of named name of Some v \<Rightarrow> Inr v | None \<Rightarrow> Inl KeyError))"

definition prepend :: "string \<Rightarrow> string result \<Rightarrow> string result" where
  "prepend s r = rbind r (\<lambda>t. Inr (s @ t))"

function (sequential) str_format :: "(string \<Rightarrow> string result) \<Rightarrow> (string \<times> string) list \<Rightarrow> string \<Rightarrow> string result" where
  "str_format special named [] = Inr []"
| "str_format special named (c # s) =
     (if c \<noteq> CHR ''{'' \<and> c \<noteq> CHR ''}'' then prepend [c] (str_format special named s)
      else if s \<noteq> [] \<and> hd s = c then prepend [c] (str_format special named (tl s))
      else if c = CHR ''}'' then Inl (ValueError ''Single } encountered in format string'')
      else (let name = takeWhile (\<lambda>c. c \<noteq> CHR ''}'') s; rest = dropWhile (\<lambda>c. c \<noteq> CHR ''}'') s in
            if rest = [] then Inl (ValueError ''expected } before end of string'')
            else if CHR ''{'' \<in> set name then Inl (ValueError ''unexpected { in field name'')
            else rbind (format_field special named name) (\<lambda>v. prepend v (str_format special named (tl rest)))))"
  by pat_completeness auto
termination
proof (relation "measure (\<lambda>(_, _, s). length s)", goal_cases)
  case (4 special named c s name rest v)
  then show ?case using length_dropWhile_le [of "\<lambda>c. c \<noteq> CHR ''}''" s] by (auto simp: less_Suc_eq_le)
qed (auto simp: less_Suc_eq_le)

text \<open>A report format: its name, and the extension of its files.\<close>

definition format_names :: "(string \<times> (string \<times> string)) list" where
  "format_names =
     [(''simple'', (''simple'', ''txt'')), (''plain'', (''plain'', ''txt'')), (''json'', (''json'', ''json'')),
      (''xml'', (''xml'', ''xml'')), (''md'', (''markdown'', ''md'')), (''csv'', (''csv'', ''csv'')),
      (''html'', (''html'', ''html'')), (''sqlite'', (''sql'', ''sqlite'')), (''mysql'', (''sql'', ''None'')),
      (''postgresql'', (''sql'', ''None''))]"

definition output_handlers :: "(string \<times> string list) list" where
  "output_handlers =
     [(''simple'', [''output_file'']), (''plain'', [''output_file'']), (''json'', [''output_file'']),
      (''xml'', [''output_file'']), (''md'', [''output_file'']), (''csv'', [''output_file'']),
      (''html'', [''output_file'']), (''sqlite'', [''output_file'', ''output_table'']),
      (''mysql'', [''mysql_url'', ''output_table'']), (''postgresql'', [''postgres_url'', ''output_table''])]"

text \<open>A reporter: its format and the texts its destinations come from.  The options hold texts, an absent
  one is empty.\<close>

definition manager_reports :: "(string \<Rightarrow> string) \<Rightarrow> string list \<Rightarrow> (string \<times> string list) list result" where
  "manager_reports opts formats =
     rbind (rmap (\<lambda>f. case map_of output_handlers f of
                        None \<Rightarrow> Inl KeyError
                      | Some keys \<Rightarrow> Inr (f, map opts keys)) formats)
       (\<lambda>rs. Inr (filter (\<lambda>(_, sources). list_all (\<lambda>s. s \<noteq> []) sources) rs))"

definition path_time :: "string \<Rightarrow> string" where
  "path_time t = replace_all (replace_all t '' '' ''_'') '':'' ''-''"

definition target_fields :: "string \<Rightarrow> string \<Rightarrow> string \<Rightarrow> (string \<times> string) list result" where
  "target_fields start_time target handler =
     rbind (urlsplit target) (\<lambda>p.
     rbind (url_port p) (\<lambda>port.
     rbind (case port of
              Some n \<Rightarrow> if n \<noteq> 0 then Inr n else (case standard_port (url_scheme p) of Some n \<Rightarrow> Inr n | None \<Rightarrow> Inl KeyError)
            | None \<Rightarrow> (case standard_port (url_scheme p) of Some n \<Rightarrow> Inr n | None \<Rightarrow> Inl KeyError)) (\<lambda>port.
       Inr [(''datetime'', path_time start_time), (''date'', hd (words_of start_time)),
            (''host'', case url_hostname p of Some h \<Rightarrow> h | None \<Rightarrow> ''None''), (''scheme'', url_scheme p),
            (''port'', show_nat port), (''format'', fst (the (map_of format_names handler))),
            (''extension'', snd (the (map_of format_names handler)))])))"

definition format_destination ::
  "(string \<Rightarrow> string result) \<Rightarrow> string \<Rightarrow> string \<Rightarrow> string \<Rightarrow> string \<Rightarrow> string result" where
  "format_destination special start_time s target handler =
     rbind (target_fields start_time target handler) (\<lambda>named. str_format special named s)"

text \<open>The reporters of a manager on one world: they are given their destinations.\<close>

record 'w reporter =
  rp_name :: string
  rp_sources :: "string list"
  rp_initiate :: "string list \<Rightarrow> ('w, unit) io"
  rp_save :: "string list \<Rightarrow> response \<Rightarrow> ('w, unit) io"
  rp_flush :: "('w, unit) io"
  rp_finish :: "('w, unit) io"

fun each :: "('r \<Rightarrow> ('w, unit) io) \<Rightarrow> 'r list \<Rightarrow> ('w, unit) io" where
  "each f [] = ret ()"
| "each f (r # rs) = io_bind (f r) (\<lambda>_. each f rs)"

definition with_destinations ::
  "(string \<Rightarrow> string \<Rightarrow> string \<Rightarrow> string result) \<Rightarrow> 'w reporter \<Rightarrow> string \<Rightarrow> (string list \<Rightarrow> ('w, unit) io) \<Rightarrow> ('w, unit) io" where
  "with_destinations fmt rp target act w =
     (case rmap (\<lambda>s. fmt s target (rp_name rp)) (rp_sources rp) of Inl e \<Rightarrow> raise e w | Inr ds \<Rightarrow> act ds w)"

definition manager_prepare ::
  "(string \<Rightarrow> string \<Rightarrow> string \<Rightarrow> string result) \<Rightarrow> 'w reporter list \<Rightarrow> string \<Rightarrow> ('w, unit) io" where
  "manager_prepare fmt rps target = each (\<lambda>rp. with_destinations fmt rp target (rp_initiate rp)) rps"

definition manager_save ::
  "(string \<Rightarrow> string \<Rightarrow> string \<Rightarrow> string result) \<Rightarrow> 'w reporter list \<Rightarrow> response \<Rightarrow> ('w, unit) io" where
  "manager_save fmt rps r = each (\<lambda>rp. with_destinations fmt rp (r_url r) (\<lambda>ds. rp_save rp ds r)) rps"

text \<open>The asynchronous save runs to its end whether or not it is cancelled meanwhile, and raises then.\<close>

definition manager_save_async ::
  "(string \<Rightarrow> string \<Rightarrow> string \<Rightarrow> string result) \<Rightarrow> 'w reporter list \<Rightarrow> response \<Rightarrow> bool \<Rightarrow> ('w, unit) io" where
  "manager_save_async fmt rps r cancelled =
     (if rps = [] then ret ()
      else io_bind (manager_save fmt rps r) (\<lambda>_. if cancelled then raise CancelledError else ret ()))"

definition manager_flush :: "'w reporter list \<Rightarrow> ('w, unit) io" where
  "manager_flush rps = each rp_flush rps"

fun finish_all :: "'w reporter list \<Rightarrow> exc option \<Rightarrow> ('w, unit) io" where
  "finish_all [] first w = (case first of None \<Rightarrow> ret () w | Some e \<Rightarrow> raise e w)"
| "finish_all (rp # rps) first w =
     (case rp_finish rp w of
        (Inr _, w) \<Rightarrow> finish_all rps first w
      | (Inl e, w) \<Rightarrow> finish_all rps (if first = None then Some e else first) w)"

definition manager_finish :: "'w reporter list \<Rightarrow> ('w, unit) io" where
  "manager_finish rps = finish_all rps None"

lemma finish_all_world: "snd (finish_all rps first w) = fold (\<lambda>rp w. snd (rp_finish rp w)) rps w"
  by (induction rps first w rule: finish_all.induct) (auto simp: raise_def ret_def split: prod.splits sum.splits option.splits)

lemma finish_all_result:
  "fst (finish_all rps first w) = Inr () \<longleftrightarrow>
   first = None \<and> (\<forall>n < length rps. fst (rp_finish (rps ! n) (fold (\<lambda>rp w. snd (rp_finish rp w)) (take n rps) w)) = Inr ())"
proof (induction rps first w rule: finish_all.induct)
  case (1 first w) then show ?case by (simp add: raise_def ret_def split: option.splits)
next
  case (2 rp rps first w)
  obtain x w1 where x: "rp_finish rp w = (x, w1)" by fastforce
  show ?case
  proof (cases x)
    case (Inl e) with 2 x show ?thesis by (auto intro!: exI [of _ 0])
  next
    case (Inr u) with 2 x show ?thesis by (simp add: All_less_Suc2)
  qed
qed

text \<open>The end of a run reaches every reporter: each of them is finished once, in order, whatever the
  ones before it raise, and the end succeeds exactly when all of them do.\<close>
theorem finish_reaches_every_reporter:
  "snd (manager_finish rps w) = fold (\<lambda>rp w. snd (rp_finish rp w)) rps w \<and>
   (fst (manager_finish rps w) = Inr () \<longleftrightarrow>
      list_all (\<lambda>n. fst (rp_finish (rps ! n) (fold (\<lambda>rp w. snd (rp_finish rp w)) (take n rps) w)) = Inr ()) [0..<length rps])"
  by (auto simp: manager_finish_def finish_all_world finish_all_result list_all_iff)

text \<open>A result of the prepared target goes where the report of the target was opened.\<close>

lemma destination_of_result:
  assumes "urlsplit target = Inr p" "urlsplit url = Inr q" "url_scheme p = url_scheme q" "url_netloc p = url_netloc q"
  shows "format_destination special t s url handler = format_destination special t s target handler"
proof -
  have "url_port p = url_port q" "url_hostname p = url_hostname q"
    using assms(4) by (simp_all add: url_port_def url_hostname_def)
  then show ?thesis unfolding format_destination_def target_fields_def assms(1-3) rbind_simps by simp
qed

text \<open>A destination without braces is used as it is; a brace in the password of a database raises.\<close>

lemma plain_destination:
  "CHR ''{'' \<notin> set s \<Longrightarrow> CHR ''}'' \<notin> set s \<Longrightarrow> str_format special named s = Inr s"
  by (induction s) (auto simp: prepend_def)

lemma brace_in_password_raises:
  "str_format special named ''mysql://u:p{w@h/db'' = Inl (ValueError ''expected } before end of string'')"
  by (simp add: prepend_def)

end
