(* ===== verification/Stores.thy ===== *)
theory Stores
  imports Journal
begin

text \<open>
  Response stores, \<open>response_store.py\<close>, \<open>directory_response_store.py\<close> and
  \<open>jsonl_response_store.py\<close> of \<open>lib/report\<close>: the bodies of responses in files of their own, or with
  their metadata as the lines of one file.
\<close>

section \<open>What is stored of a response\<close>

record response_artifact =
  ra_timestamp :: string
  ra_url :: string
  ra_status :: int
  ra_headers :: "(string \<times> string) list"
  ra_content_length :: int
  ra_content_type :: string
  ra_redirect :: string
  ra_elapsed :: rat
  ra_body :: string
  ra_body_complete :: bool
  ra_body_truncated :: bool

definition artifact_of :: "(response \<Rightarrow> string) \<Rightarrow> response \<Rightarrow> response_artifact" where
  "artifact_of when r =
     \<lparr>ra_timestamp = when r, ra_url = r_url r, ra_status = r_status r, ra_headers = rh_items (r_headers r),
      ra_content_length = r_length r, ra_content_type = r_type r, ra_redirect = r_redirect r,
      ra_elapsed = r_elapsed r, ra_body = r_body r, ra_body_complete = r_body_complete r,
      ra_body_truncated = (\<not> r_body_complete r)\<rparr>"

section \<open>File names\<close>

text \<open>The first characters whose encoding fits; characters up to 255, those from 128 on take two bytes.\<close>

definition char_bytes :: "char \<Rightarrow> nat" where
  "char_bytes c = (if code c < 128 then 1 else 2)"

definition byte_length :: "string \<Rightarrow> nat" where
  "byte_length s = sum_list (map char_bytes s)"

fun utf8_take :: "nat \<Rightarrow> string \<Rightarrow> string" where
  "utf8_take n [] = []"
| "utf8_take n (c # s) = (if char_bytes c \<le> n then c # utf8_take (n - char_bytes c) s else [])"

definition truncate_filename :: "string \<Rightarrow> int \<Rightarrow> string" where
  "truncate_filename s max_bytes = (if max_bytes \<le> 0 then [] else utf8_take (nat max_bytes) s)"

definition or_response :: "string \<Rightarrow> string" where
  "or_response s = (if s = [] then ''response'' else s)"

text \<open>\<open>digest\<close> is the hexadecimal sha256 of a text.\<close>

definition response_filename :: "(string \<Rightarrow> string) \<Rightarrow> string \<Rightarrow> int \<Rightarrow> int \<Rightarrow> string result" where
  "response_filename digest url status max_length =
     rbind (urlsplit url) (\<lambda>p.
     rbind (url_port p) (\<lambda>port.
       let host = (case url_hostname p of Some h \<Rightarrow> h | None \<Rightarrow> ''response'');
           host = (case port of Some n \<Rightarrow> host @ ''_'' @ show_nat n | None \<Rightarrow> host);
           name = get_valid_filename (host @ fst (split_params (url_scheme p) (url_path p)));
           name = (if url_query p \<noteq> [] then name @ ''_query-'' @ take 12 (digest (url_query p)) else name);
           name = or_response (strip_p (\<lambda>c. c \<in> set '' ._'') name);
           suffix = ''_'' @ show_int status
       in Inr (truncate_filename name (max_length - int (length suffix)) @ suffix)))"

definition collision_suffix :: "nat \<Rightarrow> string" where
  "collision_suffix n = (if n = 0 then [] else ''_'' @ show_nat n)"

definition candidate_name :: "string \<Rightarrow> nat \<Rightarrow> string" where
  "candidate_name base n =
     truncate_filename base (int max_response_filename_length - int (length (collision_suffix n))) @ collision_suffix n"

lemma show_nat_no_underscore: "CHR ''_'' \<notin> set (show_nat n)"
proof
  assume "CHR ''_'' \<in> set (show_nat n)"
  with show_nat_chars have "is_digit CHR ''_''" by blast
  then show False by (simp add: is_digit_def)
qed

lemma collision_suffix_inj:
  assumes "xs @ collision_suffix (Suc n) = ys @ collision_suffix (Suc m)"
  shows "n = m"
proof -
  have tail: "takeWhile (\<lambda>c. c \<noteq> CHR ''_'') (rev (zs @ collision_suffix (Suc k))) = rev (show_nat (Suc k))" for zs k
  proof -
    have rev: "rev (zs @ collision_suffix (Suc k)) = rev (show_nat (Suc k)) @ CHR ''_'' # rev zs"
      by (simp add: collision_suffix_def)
    have "\<forall>c \<in> set (rev (show_nat (Suc k))). c \<noteq> CHR ''_''" using show_nat_no_underscore [of "Suc k"] by auto
    then show ?thesis unfolding rev by (subst takeWhile_append2) auto
  qed
  from assms have "rev (show_nat (Suc n)) = rev (show_nat (Suc m))"
    using tail [of xs n] tail [of ys m] by (simp only:)
  then have "read_digits 0 False (show_nat (Suc n)) = read_digits 0 False (show_nat (Suc m))" by simp
  then show ?thesis by (simp only: read_show_nat) simp
qed

lemma candidate_inj: "candidate_name base (Suc n) = candidate_name base (Suc m) \<longleftrightarrow> n = m"
  unfolding candidate_name_def using collision_suffix_inj by blast

text \<open>The names of files that a search may still meet.\<close>

definition names_ahead :: "string \<Rightarrow> (string \<times> string option) list \<Rightarrow> nat \<Rightarrow> string set" where
  "names_ahead base files counter = {f \<in> fst ` set files. \<exists>m > counter. f = candidate_name base m}"

definition names_left :: "string \<Rightarrow> (string \<times> string option) list \<Rightarrow> nat \<Rightarrow> nat" where
  "names_left base files counter =
     card (names_ahead base files counter) + (if map_of files (candidate_name base counter) \<noteq> None then 1 else 0)"

lemma names_left_step:
  assumes "map_of files (candidate_name base counter) \<noteq> None"
  shows "names_left base files (Suc counter) < names_left base files counter"
proof -
  let ?next = "candidate_name base (Suc counter)"
  have fin: "finite (names_ahead base files n)" for n by (simp add: names_ahead_def)
  have new: "?next \<notin> names_ahead base files (Suc counter)"
    using candidate_inj by (auto simp: names_ahead_def) (metis Suc_lessE less_not_refl candidate_inj)
  have sub: "names_ahead base files (Suc counter) \<subseteq> names_ahead base files counter"
    by (auto simp: names_ahead_def dest: Suc_lessD)
  show ?thesis
  proof (cases "map_of files ?next = None")
    case True
    with assms card_mono [OF fin sub] show ?thesis by (simp add: names_left_def)
  next
    case False
    then have "?next \<in> names_ahead base files counter" by (auto simp: names_ahead_def map_of_eq_None_iff)
    with sub have "insert ?next (names_ahead base files (Suc counter)) \<subseteq> names_ahead base files counter" by simp
    from card_mono [OF fin this] new fin assms False show ?thesis by (simp add: names_left_def)
  qed
qed

text \<open>\<open>_claim_file\<close> looks for a name that is free; the search ends because the names differ.\<close>

function claim_name :: "string \<Rightarrow> (string \<times> string option) list \<Rightarrow> nat \<Rightarrow> string" where
  "claim_name base files counter =
     (if map_of files (candidate_name base counter) \<noteq> None then claim_name base files (Suc counter)
      else candidate_name base counter)"
  by pat_completeness auto
termination
  by (relation "measure (\<lambda>(base, files, counter). names_left base files counter)") (simp_all add: names_left_step)

declare claim_name.simps [simp del]

section \<open>A file of its own\<close>

text \<open>The files of the directory; \<open>None\<close> for something else that is in the way.  Which operations fail is
  given by a list.\<close>

record store_world =
  s_files :: "(string \<times> string option) list"
  s_fails :: "bool list"

definition store_op :: "(store_world \<Rightarrow> store_world) \<Rightarrow> (store_world, unit) io" where
  "store_op f w =
     (case s_fails w of
        [] \<Rightarrow> (Inr (), f w)
      | failed # fails \<Rightarrow>
          if failed then (Inl (OSError ''store''), w\<lparr>s_fails := fails\<rparr>) else (Inr (), f (w\<lparr>s_fails := fails\<rparr>)))"

definition store_closed :: exc where "store_closed = OSError ''Response store is closed''"

text \<open>The file is created, the body written; when that fails (a failed write writes nothing here) the file is removed, which may fail too.\<close>

definition directory_save ::
  "(string \<Rightarrow> string) \<Rightarrow> bool \<Rightarrow> response_artifact \<Rightarrow> (store_world, string) io" where
  "directory_save digest is_closed a w =
     (if is_closed then raise store_closed w
      else (case response_filename digest (ra_url a) (ra_status a) (int max_response_filename_length) of
              Inl e \<Rightarrow> raise e w
            | Inr base \<Rightarrow>
                let name = claim_name base (s_files w) 0 in
                io_bind (store_op (\<lambda>w. w\<lparr>s_files := (name, Some []) # s_files w\<rparr>)) (\<lambda>_ w.
                  case store_op (\<lambda>w. w\<lparr>s_files := (name, Some (ra_body a)) # tl (s_files w)\<rparr>) w of
                    (Inr _, w) \<Rightarrow> ret name w
                  | (Inl e, w) \<Rightarrow> raise e (snd (store_op (\<lambda>w. w\<lparr>s_files := tl (s_files w)\<rparr>) w))) w))"


lemma store_op_cases:
  assumes "store_op f w = (r, w')"
  obtains fails where "r = Inl (OSError ''store'')" "w' = w\<lparr>s_fails := fails\<rparr>"
  | fails where "r = Inr ()" "w' = f (w\<lparr>s_fails := fails\<rparr>)"
proof (cases "s_fails w")
  case Nil
  have same: "w\<lparr>s_fails := s_fails w\<rparr> = w" by simp
  from Nil assms have "r = Inr ()" "w' = f w" by (simp_all add: store_op_def)
  then show ?thesis by (intro that(2) [of "s_fails w"]) (simp_all only: same)
next
  case (Cons failed fails) with assms that show ?thesis by (auto simp: store_op_def split: if_splits)
qed

lemma claim_name_free: "map_of files (claim_name base files n) = None \<and> (\<exists>m \<ge> n. claim_name base files n = candidate_name base m)"
proof (induction base files n rule: claim_name.induct)
  case (1 base files n)
  show ?case
  proof (cases "map_of files (candidate_name base n) = None")
    case True then show ?thesis by (subst (1 2) claim_name.simps) auto
  next
    case False
    with 1 obtain m where "map_of files (claim_name base files (Suc n)) = None" "m \<ge> Suc n"
      "claim_name base files (Suc n) = candidate_name base m" by auto
    with False show ?thesis by (subst (1 2) claim_name.simps) (auto intro: exI [of _ m])
  qed
qed

lemma byte_length_take: "byte_length (utf8_take n s) \<le> n"
proof (induction n s rule: utf8_take.induct)
  case (2 n c s) then show ?case by (auto simp: byte_length_def)
qed (simp add: byte_length_def)

lemma byte_length_append [simp]: "byte_length (s @ t) = byte_length s + byte_length t"
  by (simp add: byte_length_def)

lemma byte_length_Nil [simp]: "byte_length [] = 0"
  by (simp add: byte_length_def)

lemma byte_length_ascii: "\<forall>c \<in> set s. code c < 128 \<Longrightarrow> byte_length s = length s"
  by (induction s) (auto simp: byte_length_def char_bytes_def)

lemma collision_suffix_bytes: "byte_length (collision_suffix n) = length (collision_suffix n)"
proof (rule byte_length_ascii)
  have "code c < 128" if "c \<in> set (show_nat n)" for c
  proof -
    from that show_nat_chars have "is_digit c" by blast
    then show ?thesis by (simp add: is_digit_def)
  qed
  then show "\<forall>c \<in> set (collision_suffix n). code c < 128" by (simp add: collision_suffix_def)
qed

lemma candidate_bytes:
  "length (collision_suffix n) \<le> max_response_filename_length \<Longrightarrow> byte_length (candidate_name base n) \<le> max_response_filename_length"
  using byte_length_take [of "max_response_filename_length - length (collision_suffix n)" base]
  by (auto simp: candidate_name_def truncate_filename_def collision_suffix_bytes nat_diff_distrib)

lemma names_left_bound: "names_left base files 0 \<le> Suc (length files)"
proof -
  have "names_ahead base files 0 \<subseteq> set (map fst files)" by (auto simp: names_ahead_def)
  then have "card (names_ahead base files 0) \<le> card (set (map fst files))" by (intro card_mono) simp_all
  also have "\<dots> \<le> length files" using card_length [of "map fst files"] by simp
  finally show ?thesis by (simp add: names_left_def)
qed

lemma claim_name_counter: "\<exists>m. claim_name base files n = candidate_name base m \<and> m \<le> n + names_left base files n"
proof (induction base files n rule: claim_name.induct)
  case (1 base files n)
  show ?case
  proof (cases "map_of files (candidate_name base n) = None")
    case True then show ?thesis by (subst claim_name.simps) auto
  next
    case False
    with 1 obtain m where "claim_name base files (Suc n) = candidate_name base m" "m \<le> Suc n + names_left base files (Suc n)"
      by auto
    with False names_left_step [OF False] show ?thesis
      by (intro exI [of _ m]) (subst claim_name.simps, auto)
  qed
qed

lemma show_nat_length: "n < 10 ^ k \<Longrightarrow> 0 < k \<Longrightarrow> length (show_nat n) \<le> k"
proof (induction n arbitrary: k rule: show_nat.induct)
  case (1 n)
  show ?case
  proof (cases "n < 10")
    case True with 1 show ?thesis by (subst show_nat.simps) simp
  next
    case False
    with 1(2) obtain j where k: "k = Suc j" "0 < j" by (cases k; cases "k = 1") auto
    with 1(2) have "n div 10 < 10 ^ j" by (simp add: div_less_iff_less_mult mult.commute)
    with 1(1) False k have "length (show_nat (n div 10)) \<le> j" by simp
    with False k show ?thesis by (subst show_nat.simps) simp
  qed
qed

text \<open>A stored body never replaces anything: the file it gets has a name nothing in the directory had,
  however many responses share the name (the search for it ends), of at most 200 bytes; it holds exactly
  the body, and every other file stays as it is; they also stay when saving fails.\<close>
theorem stored_body_is_a_new_file:
  assumes "directory_save digest False a w = (r, w')" "length (s_files w) < 10 ^ 100"
  shows "case r of
      Inr name \<Rightarrow> map_of (s_files w) name = None \<and> byte_length name \<le> max_response_filename_length \<and>
        map_of (s_files w') = (map_of (s_files w))(name \<mapsto> Some (ra_body a))
    | Inl e \<Rightarrow> map_of (s_files w) \<subseteq>\<^sub>m map_of (s_files w')"
proof (cases "response_filename digest (ra_url a) (ra_status a) (int max_response_filename_length)")
  case (Inl e)
  with assms(1) have "r = Inl e" "w' = w" by (auto simp: directory_save_def raise_def)
  then show ?thesis by simp
next
  case (Inr base)
  define name where "name = claim_name base (s_files w) 0"
  have free: "map_of (s_files w) name = None" using claim_name_free [of "s_files w" base 0] by (simp add: name_def)
  obtain m where m: "name = candidate_name base m" "m \<le> names_left base (s_files w) 0"
    using claim_name_counter [of base "s_files w" 0] name_def by auto
  then have "m < 10 ^ 101" using names_left_bound [of base "s_files w"] assms(2) by simp
  then have "length (collision_suffix m) \<le> max_response_filename_length"
    using show_nat_length [of m 101] by (simp add: collision_suffix_def max_response_filename_length_def)
  with m have short: "byte_length name \<le> max_response_filename_length" using candidate_bytes by simp
  let ?create = "\<lambda>w. w\<lparr>s_files := (name, Some []) # s_files w\<rparr>"
  let ?fill = "\<lambda>w. w\<lparr>s_files := (name, Some (ra_body a)) # tl (s_files w)\<rparr>"
  let ?drop = "\<lambda>w. w\<lparr>s_files := tl (s_files w)\<rparr>"
  obtain x w1 where x: "store_op ?create w = (x, w1)" by fastforce
  obtain y w2 where y: "store_op ?fill w1 = (y, w2)" by fastforce
  obtain z w3 where z: "store_op ?drop w2 = (z, w3)" by fastforce
  have run: "(case x of Inl e \<Rightarrow> (Inl e, w1) | Inr _ \<Rightarrow> case y of Inr _ \<Rightarrow> (Inr name, w2) | Inl e \<Rightarrow> (Inl e, w3)) = (r, w')"
    using assms(1) Inr x y z
    by (simp add: directory_save_def name_def [symmetric] io_bind_def raise_def ret_def split: sum.splits)
  have new: "map_of (s_files w) \<subseteq>\<^sub>m map_of ((name, v) # s_files w)" for v
    using free by (auto simp: map_le_def dom_def)
  from x show ?thesis
  proof (cases rule: store_op_cases)
    case (1 fails) with run show ?thesis by auto
  next
    case created: (2 fails)
    from y show ?thesis
    proof (cases rule: store_op_cases)
      case (2 fails2) with run created free short show ?thesis by auto
    next
      case (1 fails2)
      from z show ?thesis
        by (cases rule: store_op_cases) (use run 1 created new in auto)
    qed
  qed
qed

lemma sample_filename: "response_filename d ''http://h/admin'' 200 200 = Inr ''h_admin_200''"
proof -
  have u: "urlsplit ''http://h/admin'' = Inr \<lparr>url_scheme = ''http'', url_netloc = ''h'', url_path = ''/admin'', url_query = [], url_fragment = []\<rparr>"
    (is "_ = Inr ?p") by code_simp
  have p: "url_port ?p = Inr None" "url_hostname ?p = Some ''h''" "split_params ''http'' ''/admin'' = (''/admin'', [])"
    "get_valid_filename ''h/admin'' = ''h_admin''" "strip_p (\<lambda>c. c \<in> set '' ._'') ''h_admin'' = ''h_admin''"
    "show_int 200 = ''200''" "truncate_filename ''h_admin'' 196 = ''h_admin''" by code_simp+
  show ?thesis unfolding response_filename_def u rbind_simps p Let_def by (simp add: p[simplified] or_response_def)
qed

theorem stored_body_is_a_new_file_witness:
  "map_of (s_files (snd (directory_save (\<lambda>_. ''ab'') False (artifact_of (\<lambda>_. ''now'') (base_response 7 ''http://h/admin'' 200 [] 0 [] None))
     \<lparr>s_files = [(''h_admin_200'', Some ''old'')], s_fails = []\<rparr>))) =
   [''h_admin_200'' \<mapsto> Some ''old'', ''h_admin_200_1'' \<mapsto> Some []]"
proof -
  let ?a = "artifact_of (\<lambda>_. ''now'') (base_response 7 ''http://h/admin'' 200 [] 0 [] None)"
  let ?w = "\<lparr>s_files = [(''h_admin_200'', Some ''old'')], s_fails = []\<rparr>"
  let ?d = "directory_save (\<lambda>_. ''ab'') False ?a ?w"
  have a: "ra_url ?a = ''http://h/admin''" "ra_status ?a = 200" "ra_body ?a = []"
    by (simp_all add: artifact_of_def base_response_def Let_def)
  have c: "claim_name ''h_admin_200'' [(''h_admin_200'', Some ''old'')] 0 = ''h_admin_200_1''" by code_simp
  have r: "fst ?d = Inr ''h_admin_200_1''"
    by (simp add: directory_save_def a sample_filename max_response_filename_length_def c io_bind_def store_op_def ret_def Let_def)
  have "length (s_files ?w) < 10 ^ 100" by simp
  from stored_body_is_a_new_file [OF prod.collapse [symmetric] this, of "\<lambda>_. ''ab''" ?a] r a(3) show ?thesis
    by (simp add: fun_upd_twist)
qed

section \<open>Lines of one file\<close>

text \<open>The file; how many bytes each of the coming writes takes (\<open>None\<close> raises, later ones take all), and
  which of the truncations fail.\<close>

record jsonl_world =
  l_text :: string
  l_separator :: bool
  l_closed :: bool
  l_writes :: "nat option list"
  l_truncs :: "bool list"

definition jsonl_schema :: string where "jsonl_schema = ''dirsearch.response.v1''"

definition jsonl_chunk_size :: nat where "jsonl_chunk_size = 57 * 1024"

text \<open>\<open>_write_all\<close>: a write may take a part only; one that takes nothing is an error.\<close>

function write_all :: "string \<Rightarrow> (jsonl_world, unit) io" where
  "write_all s w =
     (if s = [] then ret () w
      else (case l_writes w of
              [] \<Rightarrow> ret () (w\<lparr>l_text := l_text w @ s\<rparr>)
            | None # ws \<Rightarrow> raise (OSError ''write'') (w\<lparr>l_writes := ws\<rparr>)
            | Some n # ws \<Rightarrow>
                if n = 0 then raise (OSError ''Short write'') (w\<lparr>l_writes := ws\<rparr>)
                else write_all (drop n s) (w\<lparr>l_text := l_text w @ take n s, l_writes := ws\<rparr>)))"
  by pat_completeness auto
termination by (relation "measure (\<lambda>(s, w). length (l_writes w))") auto

declare write_all.simps [simp del]

definition headers_dict :: "(string \<times> string) list \<Rightarrow> (string \<times> pyval) list" where
  "headers_dict hs = foldl (\<lambda>d (k, v). if map_of d k = None then d @ [(k, PyStr v)]
                                     else map (\<lambda>(j, u). if j = k then (j, PyStr v) else (j, u)) d) [] hs"

definition artifact_metadata :: "response_artifact \<Rightarrow> pyval" where
  "artifact_metadata a = PyDict [
     (''schema'', PyStr jsonl_schema), (''timestamp'', PyStr (ra_timestamp a)), (''url'', PyStr (ra_url a)),
     (''status'', PyInt (ra_status a)), (''headers'', PyDict (headers_dict (ra_headers a))),
     (''contentLength'', PyInt (ra_content_length a)), (''capturedBodyLength'', PyInt (int (length (ra_body a)))),
     (''bodyComplete'', PyBool (ra_body_complete a)), (''bodyTruncated'', PyBool (ra_body_truncated a)),
     (''contentType'', PyStr (ra_content_type a)), (''redirect'', PyStr (ra_redirect a)),
     (''elapsed'', PyFloat (Fin (round3 (ra_elapsed a)))), (''bodyEncoding'', PyStr ''base64'')]"

text \<open>\<open>dumps\<close> writes and encodes the metadata; the last brace makes room for the body.\<close>

definition line_prefix :: "(pyval \<Rightarrow> string) \<Rightarrow> response_artifact \<Rightarrow> string" where
  "line_prefix dumps a = butlast (dumps (artifact_metadata a)) @ '',\"body\":\"''"

definition line_suffix :: string where "line_suffix = ''\"}'' @ [CHR 0x0A]"

fun chunks_of :: "nat \<Rightarrow> string \<Rightarrow> string list" where
  "chunks_of n s = (if s = [] \<or> n = 0 then [] else take n s # chunks_of n (drop n s))"

declare chunks_of.simps [simp del]

fun write_each :: "string list \<Rightarrow> (jsonl_world, unit) io" where
  "write_each [] = ret ()"
| "write_each (s # ss) = io_bind (write_all s) (\<lambda>_. write_each ss)"

definition record_pieces :: "(pyval \<Rightarrow> string) \<Rightarrow> bool \<Rightarrow> response_artifact \<Rightarrow> string list" where
  "record_pieces dumps separator a =
     (if separator then [[CHR 0x0A]] else []) @ [line_prefix dumps a]
     @ map b64_encode (chunks_of jsonl_chunk_size (ra_body a)) @ [line_suffix]"

definition truncate_to :: "nat \<Rightarrow> jsonl_world \<Rightarrow> jsonl_world" where
  "truncate_to n w =
     (case l_truncs w of
        True # ts \<Rightarrow> w\<lparr>l_truncs := ts\<rparr>
      | ts \<Rightarrow> w\<lparr>l_text := take n (l_text w), l_truncs := tl ts\<rparr>)"

definition jsonl_save :: "(pyval \<Rightarrow> string) \<Rightarrow> response_artifact \<Rightarrow> (jsonl_world, unit) io" where
  "jsonl_save dumps a w =
     (if l_closed w then raise store_closed w
      else (case write_each (record_pieces dumps (l_separator w) a) w of
              (Inr _, w') \<Rightarrow> ret () (w'\<lparr>l_separator := False\<rparr>)
            | (Inl e, w') \<Rightarrow> raise e (truncate_to (length (l_text w)) w')))"

text \<open>Opening a file that is there: every line has to be a record of this schema.\<close>

definition valid_record :: "(string \<Rightarrow> pyval option) \<Rightarrow> string \<Rightarrow> unit result" where
  "valid_record loads line =
     (if strip line = [] then Inl (ValueError ''Invalid blank JSONL record'')
      else (case loads line of
              None \<Rightarrow> Inl (ValueError ''Invalid JSONL record'')
            | Some (PyDict kvs) \<Rightarrow>
                if map_of kvs ''schema'' = Some (PyStr jsonl_schema) then Inr ()
                else Inl (ValueError ''Unsupported JSONL record'')
            | Some _ \<Rightarrow> Inl (ValueError ''Unsupported JSONL record'')))"

text \<open>A binary file is read by line feeds, which end the lines but for the last one.\<close>

fun line_feed_lines :: "string \<Rightarrow> string \<Rightarrow> string list" where
  "line_feed_lines acc [] = (if acc = [] then [] else [acc])"
| "line_feed_lines acc (c # s) = (if code c = 10 then (acc @ [c]) # line_feed_lines [] s else line_feed_lines (acc @ [c]) s)"

definition jsonl_open :: "(string \<Rightarrow> pyval option) \<Rightarrow> string \<Rightarrow> nat option list \<Rightarrow> bool list \<Rightarrow> jsonl_world result" where
  "jsonl_open loads t writes truncs =
     rbind (rmap (valid_record loads) (line_feed_lines [] t)) (\<lambda>_.
       Inr \<lparr>l_text = t, l_separator = (t \<noteq> [] \<and> code (last t) \<noteq> 10), l_closed = False, l_writes = writes, l_truncs = truncs\<rparr>)"

definition jsonl_close :: "jsonl_world \<Rightarrow> jsonl_world" where
  "jsonl_close w = w\<lparr>l_closed := True\<rparr>"

section \<open>All stores of a scan\<close>

text \<open>\<open>create_response_stores\<close>: what opens the one or the other store; a store that was opened is closed
  again when the next one cannot be.\<close>

datatype ('a, 'b) store = Directory 'a | Jsonl 'b

definition create_response_stores ::
  "string \<Rightarrow> string \<Rightarrow> (string \<Rightarrow> 'a result) \<Rightarrow> (string \<Rightarrow> 'b result) \<Rightarrow> ('a, 'b) store list result \<times> 'a list" where
  "create_response_stores directory jsonl_file open_directory open_jsonl =
     (case (if directory = [] then Inr [] else rbind (open_directory directory) (\<lambda>d. Inr [d])) of
        Inl e \<Rightarrow> (Inl e, [])
      | Inr ds \<Rightarrow>
          (case (if jsonl_file = [] then Inr [] else rbind (open_jsonl jsonl_file) (\<lambda>j. Inr [j])) of
             Inl e \<Rightarrow> (Inl e, ds)
           | Inr js \<Rightarrow> (Inr (map Directory ds @ map Jsonl js), [])))"

section \<open>Records stay whole\<close>

lemma b64_encode_append: "length s mod 3 = 0 \<Longrightarrow> b64_encode (s @ t) = b64_encode s @ b64_encode t"
  by (induction s rule: b64_encode.induct) (auto simp: Let_def)

lemma chunks_encode: "n mod 3 = 0 \<Longrightarrow> 0 < n \<Longrightarrow> concat (map b64_encode (chunks_of n s)) = b64_encode s"
proof (induction n s rule: chunks_of.induct)
  case (1 n s)
  show ?case
  proof (cases "s = [] \<or> n = 0")
    case True with 1(3) show ?thesis by (subst chunks_of.simps) auto
  next
    case False
    have "b64_encode s = b64_encode (take n s) @ b64_encode (drop n s)"
    proof (cases "n \<le> length s")
      case True
      then have "length (take n s) mod 3 = 0" using 1(2) by simp
      from b64_encode_append [OF this, of "drop n s"] show ?thesis by simp
    qed simp
    with False 1 show ?thesis by (subst chunks_of.simps) simp
  qed
qed

definition record_line :: "(pyval \<Rightarrow> string) \<Rightarrow> response_artifact \<Rightarrow> string" where
  "record_line dumps a = line_prefix dumps a @ b64_encode (ra_body a) @ line_suffix"

lemma concat_pieces:
  "concat (record_pieces dumps separator a) = (if separator then [CHR 0x0A] else []) @ record_line dumps a"
  by (simp add: record_pieces_def record_line_def chunks_encode jsonl_chunk_size_def)

lemma write_all_appends:
  "write_all s w = (r, w') \<Longrightarrow>
   \<exists>t ws. w' = w\<lparr>l_text := l_text w @ t, l_writes := ws\<rparr> \<and> (r = Inr () \<longrightarrow> t = s)"
proof (induction s w arbitrary: r w' rule: write_all.induct)
  case (1 s w)
  have same: "w = w\<lparr>l_text := l_text w @ [], l_writes := l_writes w\<rparr>" by simp
  have tx: "w\<lparr>l_text := t\<rparr> = w\<lparr>l_text := t, l_writes := l_writes w\<rparr>" for t by simp
  have writes: "w\<lparr>l_writes := ws\<rparr> = w\<lparr>l_text := l_text w @ [], l_writes := ws\<rparr>" for ws by simp
  show ?case
  proof (cases "s = []")
    case True
    with 1(2) have "r = Inr ()" "w' = w" by (simp_all add: write_all.simps)
    with True same show ?thesis by blast
  next
    case False
    show ?thesis
    proof (cases "l_writes w")
      case Nil
      with False 1(2) have "r = Inr ()" "w' = w\<lparr>l_text := l_text w @ s\<rparr>" by (simp_all add: write_all.simps)
      with tx show ?thesis by blast
    next
      case (Cons x ws)
      show ?thesis
      proof (cases "x = None \<or> x = Some 0")
        case True
        with False Cons 1(2) have "r \<noteq> Inr ()" "w' = w\<lparr>l_writes := ws\<rparr>" by (auto simp: write_all.simps raise_def)
        with writes show ?thesis by blast
      next
        case go: False
        then obtain n where x: "x = Some n" "n \<noteq> 0" by (cases x) auto
        let ?v = "w\<lparr>l_text := l_text w @ take n s, l_writes := ws\<rparr>"
        have "write_all (drop n s) ?v = (r, w')" using 1(2) False Cons x by (simp add: write_all.simps [of s w])
        from 1(1) [OF False Cons x(1,2) this] obtain t us where
          "w' = ?v\<lparr>l_text := l_text ?v @ t, l_writes := us\<rparr>" "r = Inr () \<longrightarrow> t = drop n s" by blast
        then have "w' = w\<lparr>l_text := l_text w @ (take n s @ t), l_writes := us\<rparr>" "r = Inr () \<longrightarrow> take n s @ t = s" by simp_all
        then show ?thesis by blast
      qed
    qed
  qed
qed

lemma write_each_appends:
  "write_each ss w = (r, w') \<Longrightarrow>
   \<exists>t ws. w' = w\<lparr>l_text := l_text w @ t, l_writes := ws\<rparr> \<and> (r = Inr () \<longrightarrow> t = concat ss)"
proof (induction ss arbitrary: w)
  case Nil
  have "w = w\<lparr>l_text := l_text w @ [], l_writes := l_writes w\<rparr>" by simp
  with Nil show ?case by (metis write_each.simps(1) ret_eq concat.simps(1))
next
  case (Cons s ss)
  obtain x w1 where x: "write_all s w = (x, w1)" by fastforce
  from write_all_appends [OF x] obtain t ws where t: "w1 = w\<lparr>l_text := l_text w @ t, l_writes := ws\<rparr>" "x = Inr () \<longrightarrow> t = s"
    by blast
  show ?case
  proof (cases x)
    case (Inl e)
    with Cons.prems x have "r = Inl e" "w' = w1" by (simp_all add: io_bind_def)
    with t(1) show ?thesis by blast
  next
    case (Inr u)
    with Cons.prems x have "write_each ss w1 = (r, w')" by (simp add: io_bind_def)
    from Cons.IH [OF this] obtain t2 ws2 where
      t2: "w' = w1\<lparr>l_text := l_text w1 @ t2, l_writes := ws2\<rparr>" "r = Inr () \<longrightarrow> t2 = concat ss" by blast
    with t Inr have "w' = w\<lparr>l_text := l_text w @ (t @ t2), l_writes := ws2\<rparr>" "r = Inr () \<longrightarrow> t @ t2 = concat (s # ss)"
      by simp_all
    then show ?thesis by blast
  qed
qed

lemma truncate_back:
  "list_all Not (l_truncs w) \<Longrightarrow> \<exists>ts. truncate_to n w = w\<lparr>l_text := take n (l_text w), l_truncs := ts\<rparr> \<and> list_all Not ts"
  by (cases "l_truncs w") (auto simp: truncate_to_def)

lemma jsonl_save_step:
  assumes "jsonl_save dumps a w = (r, w')" "\<not> l_closed w" "list_all Not (l_truncs w)"
  shows "\<not> l_closed w' \<and> list_all Not (l_truncs w') \<and>
    (if r = Inr () then l_text w' = l_text w @ (if l_separator w then [CHR 0x0A] else []) @ record_line dumps a \<and> \<not> l_separator w'
     else l_text w' = l_text w \<and> l_separator w' = l_separator w)"
proof -
  obtain x w1 where x: "write_each (record_pieces dumps (l_separator w) a) w = (x, w1)" by fastforce
  from write_each_appends [OF x] obtain t ws where t: "w1 = w\<lparr>l_text := l_text w @ t, l_writes := ws\<rparr>"
    "x = Inr () \<longrightarrow> t = concat (record_pieces dumps (l_separator w) a)" by blast
  show ?thesis
  proof (cases x)
    case (Inr u)
    with assms(1,2) x have "r = Inr ()" "w' = w1\<lparr>l_separator := False\<rparr>" by (simp_all add: jsonl_save_def)
    with t Inr assms(2,3) show ?thesis by (simp add: concat_pieces)
  next
    case (Inl e)
    with assms(1,2) x have r: "r = Inl e" "w' = truncate_to (length (l_text w)) w1" by (simp_all add: jsonl_save_def)
    from truncate_back [of w1 "length (l_text w)"] t(1) assms(3) obtain ts where
      "w' = w1\<lparr>l_text := take (length (l_text w)) (l_text w1), l_truncs := ts\<rparr>" "list_all Not ts" using r(2) by auto
    with t(1) r(1) assms(2) show ?thesis by simp
  qed
qed

text \<open>The artifacts whose \<open>save\<close> returned.\<close>

fun store_all :: "(pyval \<Rightarrow> string) \<Rightarrow> response_artifact list \<Rightarrow> jsonl_world \<Rightarrow> response_artifact list \<times> jsonl_world" where
  "store_all dumps [] w = ([], w)"
| "store_all dumps (a # as) w =
     (let (r, w) = jsonl_save dumps a w; (saved, w) = store_all dumps as w in (if r = Inr () then a # saved else saved, w))"

text \<open>C33: the lines of a JSONL store are whole: whatever part of the data each write takes and whichever
  writes fail, as long as a file can be cut back the file is what it was followed by one line for each
  artifact whose \<open>save\<close> returned, in order, on a new line; and the text between the last quotes of the
  line, which is encoded in chunks, decodes to the whole body.\<close>
theorem jsonl_records_stay_whole:
  assumes "store_all dumps as w = (saved, w')" "\<not> l_closed w" "list_all Not (l_truncs w)"
  shows "l_text w' = l_text w @ (if l_separator w \<and> saved \<noteq> [] then [CHR 0x0A] else [])
      @ concat (map (\<lambda>a. line_prefix dumps a @ b64_encode (ra_body a) @ line_suffix) saved) \<and>
    list_all (\<lambda>a. b64_decode (b64_encode (ra_body a)) = Inr (ra_body a)) saved"
proof -
  have "l_text w' = l_text w @ (if l_separator w \<and> saved \<noteq> [] then [CHR 0x0A] else []) @ concat (map (record_line dumps) saved)"
    using assms
  proof (induction "as" arbitrary: w saved w')
    case (Cons a "as")
    obtain x w1 where x: "jsonl_save dumps a w = (x, w1)" by fastforce
    obtain sv w2 where sv: "store_all dumps as w1 = (sv, w2)" by fastforce
    note step = jsonl_save_step [OF x Cons.prems(2,3)]
    from Cons.IH [OF sv] step Cons.prems(1) x sv show ?case by (auto split: if_splits)
  qed auto
  then show ?thesis by (simp add: record_line_def [abs_def] b64_roundtrip list_all_iff)
qed

definition sample_artifact :: response_artifact where
  "sample_artifact = artifact_of (\<lambda>_. ''now'') (base_response 7 ''http://h/a'' 200 [] 0 [] None)"

text \<open>The first save fails in the middle of its line and is cut off again.\<close>

theorem jsonl_records_stay_whole_witness:
  "l_text (snd (store_all (\<lambda>_. ''{}'') [sample_artifact, sample_artifact, sample_artifact]
     \<lparr>l_text = ''{}'', l_separator = True, l_closed = False, l_writes = [Some 1, Some 4, Some 8, Some 2, None], l_truncs = []\<rparr>)) =
   ''{}'' @ [CHR 0x0A] @ concat (replicate 2 (''{,\"body\":\"\"}'' @ [CHR 0x0A]))"
proof -
  let ?w = "\<lparr>l_text = ''{}'', l_separator = True, l_closed = False,
    l_writes = [Some 1, Some 4, Some 8, Some 2, None], l_truncs = []\<rparr>"
  let ?s = "store_all (\<lambda>_. ''{}'') [sample_artifact, sample_artifact, sample_artifact] ?w"
  have body: "ra_body sample_artifact = []" by (simp add: sample_artifact_def artifact_of_def base_response_def Let_def)
  have "chunks_of n [] = []" for n by (simp add: chunks_of.simps)
  then have pieces: "record_pieces (\<lambda>_. ''{}'') b sample_artifact = (if b then [[CHR 0x0A]] else []) @ [''{,\"body\":\"'', line_suffix]" for b
    by (simp add: record_pieces_def body line_prefix_def)
  have f: "fst ?s = [sample_artifact, sample_artifact]"
    by (simp add: jsonl_save_def pieces write_all.simps io_bind_def raise_def ret_def line_suffix_def truncate_to_def)
  from f have n: "map ra_body (fst ?s) = [[], []]" by (simp add: body del: store_all.simps)
  have lines: "concat (map (\<lambda>a. line_prefix (\<lambda>_. ''{}'') a @ b64_encode (ra_body a) @ line_suffix) xs) =
      concat (map (\<lambda>b. ''{,\"body\":\"'' @ b64_encode b @ line_suffix) (map ra_body xs))" for xs
    by (simp add: line_prefix_def o_def)
  have "\<not> l_closed ?w" "list_all Not (l_truncs ?w)" by simp_all
  from jsonl_records_stay_whole [OF prod.collapse [symmetric] this, of "\<lambda>_. ''{}''" "[sample_artifact, sample_artifact, sample_artifact]"] f n
  have "l_text (snd ?s) = ''{}'' @ [CHR 0x0A] @ concat (map (\<lambda>b. ''{,\"body\":\"'' @ b64_encode b @ line_suffix) [[], []])"
    unfolding lines n by (auto simp del: store_all.simps)
  also have "concat (map (\<lambda>b. ''{,\"body\":\"'' @ b64_encode b @ line_suffix) [[], []]) =
      concat (replicate 2 (''{,\"body\":\"\"}'' @ [CHR 0x0A]))" by (simp add: line_suffix_def eval_nat_numeral)
  finally show ?thesis .
qed

section \<open>Stores and the scan\<close>

text \<open>\<open>save_response\<close> of the controller: every store gets the artifact; \<open>OSError\<close> and \<open>ValueError\<close> are
  reported, here listed, and do not stop the other stores.\<close>

definition store_error :: "exc \<Rightarrow> bool" where
  "store_error e \<longleftrightarrow> (case e of OSError _ \<Rightarrow> True | ValueError _ \<Rightarrow> True | _ \<Rightarrow> False)"

fun save_response :: "('w, 'a) io list \<Rightarrow> ('w, exc list) io" where
  "save_response [] = ret []"
| "save_response (save # saves) =
     (\<lambda>w. case save w of
        (Inr _, w) \<Rightarrow> save_response saves w
      | (Inl e, w) \<Rightarrow>
          if store_error e then io_bind (save_response saves) (\<lambda>es. ret (e # es)) w else raise e w)"

definition prepare_response_stores :: "('a list result \<times> 'b) \<Rightarrow> 'a list result" where
  "prepare_response_stores created =
     (case fst created of Inr stores \<Rightarrow> Inr stores | Inl e \<Rightarrow> Inl (if store_error e then SystemExit ''1'' else e))"

end
