(* ===== verification/Command.thy ===== *)
theory Command
  imports Cmdline
begin

text \<open>
  The command line that reports show, \<open>lib/utils/command.py\<close>: the values of options that carry
  credentials are left out.  It does not use the option parser, so that it has to read the command line
  the same way.
\<close>

section \<open>Redaction\<close>

definition redacted_value :: string where "redacted_value = ''<redacted>''"

definition sensitive_options :: "string list" where
  "sensitive_options =
     [''-d'', ''--data'', ''-H'', ''--header'', ''--auth'', ''--cookie'', ''-p'', ''--proxy'', ''--proxy-auth'',
      ''--replay-proxy'', ''--mysql-url'', ''--postgres-url'']"

definition sensitive_short_options :: "string list" where
  "sensitive_short_options = [''-d'', ''-H'', ''-p'']"

definition target_options :: "string list" where
  "target_options = [''-u'', ''--url'']"

definition short_flag_options :: "string list" where
  "short_flag_options = [''-a'', ''-C'', ''-f'', ''-F'', ''-h'', ''-L'', ''-q'', ''-r'', ''-U'', ''-v'']"

definition matches_option :: "string \<Rightarrow> string list \<Rightarrow> bool" where
  "matches_option option candidates \<longleftrightarrow>
     option \<in> set candidates \<or>
     starts_with option ''--'' \<and> list_ex (\<lambda>c. starts_with c option) (filter (\<lambda>c. starts_with c ''--'') candidates)"

definition redact_value :: "string \<Rightarrow> string \<Rightarrow> string" where
  "redact_value option v =
     (if matches_option option sensitive_options then redacted_value
      else if matches_option option target_options \<and> CHR ''@'' \<in> set v then redacted_value
      else v)"

text \<open>The option in a cluster of short options that takes the rest or the next argument, and where its
  value starts.\<close>

fun short_value_from :: "nat \<Rightarrow> string \<Rightarrow> (string \<times> nat) option" where
  "short_value_from i [] = None"
| "short_value_from i (c # cs) =
     (if [CHR ''-'', c] \<in> set (sensitive_short_options @ [''-u'']) then Some ([CHR ''-'', c], i + 1)
      else if [CHR ''-'', c] \<notin> set short_flag_options then None
      else short_value_from (i + 1) cs)"

definition find_short_value_option :: "string \<Rightarrow> (string \<times> nat) option" where
  "find_short_value_option argument =
     (if \<not> starts_with argument ''-'' \<or> starts_with argument ''--'' then None
      else short_value_from 1 (tl argument))"

fun redact_arguments :: "string list \<Rightarrow> string list" where
  "redact_arguments [] = []"
| "redact_arguments (argument # arguments) =
     (if argument = ''--'' then argument # arguments
      else case partition ''='' argument of (option, separator, v) \<Rightarrow>
        if separator \<noteq> [] \<and> starts_with option ''--''
        then (option @ ''='' @ redact_value option v) # redact_arguments arguments
        else if matches_option argument (sensitive_options @ target_options)
        then (case arguments of
                [] \<Rightarrow> [argument]
              | v # arguments \<Rightarrow> argument # redact_value argument v # redact_arguments arguments)
        else (case find_short_value_option argument of
                None \<Rightarrow> argument # redact_arguments arguments
              | Some (short, i) \<Rightarrow>
                  if drop i argument \<noteq> []
                  then (take i argument @ redact_value short (drop i argument)) # redact_arguments arguments
                  else (case arguments of
                          [] \<Rightarrow> [argument]
                        | v # arguments \<Rightarrow> argument # redact_value short v # redact_arguments arguments)))"

definition redact_command :: "string list \<Rightarrow> string" where
  "redact_command arguments = join '' '' (redact_arguments arguments)"

section \<open>What the parser reads\<close>

text \<open>An option hides its value when one of its flags is sensitive, the target when it has credentials.
  The command line as the parser reads it, with hidden values, and the values given as arguments of their
  own.\<close>

definition hides :: "cli_option \<Rightarrow> string \<Rightarrow> bool" where
  "hides q v \<longleftrightarrow> list_ex (\<lambda>f. f \<in> set sensitive_options) (co_flags q) \<or> co_dest q = ''urls'' \<and> CHR ''@'' \<in> set v"

definition shown :: "cli_option \<Rightarrow> string \<Rightarrow> string" where
  "shown q v = (if hides q v then redacted_value else v)"

text \<open>One option of the command line: the arguments shown, the values apart, the arguments left.\<close>

type_synonym reading = "string list \<times> string list \<times> string list"

definition read_long :: "string \<Rightarrow> string \<Rightarrow> string list \<Rightarrow> reading" where
  "read_long config_file arg rargs =
     (let (flag, eq, given) = partition ''='' arg in
      case find_long config_file flag of
        Inl _ \<Rightarrow> ([arg], [], rargs)
      | Inr q \<Rightarrow>
          if takes_value q
          then (if eq \<noteq> [] then ([flag @ ''='' @ shown q given], [], rargs)
                else case rargs of [] \<Rightarrow> ([arg], [], []) | v # rargs \<Rightarrow> ([arg, shown q v], [v], rargs))
          else ([arg], [], rargs))"

fun read_cluster :: "string \<Rightarrow> string \<Rightarrow> string \<Rightarrow> string list \<Rightarrow> reading" where
  "read_cluster config_file before [] rargs = ([before], [], rargs)"
| "read_cluster config_file before (ch # cs) rargs =
     (case find_option config_file [CHR ''-'', ch] of
        None \<Rightarrow> ([before @ ch # cs], [], rargs)
      | Some q \<Rightarrow>
          if takes_value q
          then (if cs \<noteq> [] then ([before @ ch # shown q cs], [], rargs)
                else case rargs of [] \<Rightarrow> ([before @ [ch]], [], []) | v # rargs \<Rightarrow> ([before @ [ch], shown q v], [v], rargs))
          else read_cluster config_file (before @ [ch]) cs rargs)"

lemma read_long_shorter: "read_long cf arg rargs = (s, vs, rargs2) \<Longrightarrow> length rargs2 \<le> length rargs"
  by (auto simp: read_long_def Let_def split: prod.splits sum.splits if_splits list.splits)

lemma read_cluster_shorter: "read_cluster cf b cs rargs = (s, vs, rargs2) \<Longrightarrow> length rargs2 \<le> length rargs"
  by (induction cf b cs rargs rule: read_cluster.induct) (auto split: option.splits if_splits list.splits)

function read_arguments :: "string \<Rightarrow> string list \<Rightarrow> string list \<times> string list" where
  "read_arguments config_file [] = ([], [])"
| "read_arguments config_file (arg # rargs) =
     (if arg = ''--'' then (arg # rargs, [])
      else case (if starts_with arg ''--'' then read_long config_file arg rargs
                 else if starts_with arg ''-'' \<and> 1 < length arg then read_cluster config_file ''-'' (tl arg) rargs
                 else ([arg], [], rargs)) of
        (s, vs, rargs2) \<Rightarrow> (case read_arguments config_file rargs2 of (ss, vss) \<Rightarrow> (s @ ss, vs @ vss)))"
  by pat_completeness auto
termination
  by (relation "measure (\<lambda>(_, args). length args)")
     (auto dest!: read_long_shorter [OF sym] read_cluster_shorter [OF sym] split: if_splits)

section \<open>The two readings agree\<close>

lemma tables_agree:
  "list_all (\<lambda>q. list_all (\<lambda>f. 
      (f \<in> set sensitive_options \<longleftrightarrow> list_ex (\<lambda>f. f \<in> set sensitive_options) (co_flags q)) \<and>
      (f \<in> set target_options \<longleftrightarrow> co_dest q = ''urls'') \<and>
      (matches_option f sensitive_options \<longleftrightarrow> f \<in> set sensitive_options) \<and>
      (matches_option f target_options \<longleftrightarrow> f \<in> set target_options) \<and>
      (takes_value q \<or> \<not> matches_option f (sensitive_options @ target_options)) \<and>
      (starts_with f ''--'' \<or> (takes_value q \<longleftrightarrow> f \<notin> set short_flag_options)))
    (co_flags q)) (iter_options cf)"
  by code_simp
lemma sensitive_flags_known:
  "list_all (\<lambda>c. starts_with c ''--'' \<longrightarrow> c \<in> set all_flags) (sensitive_options @ target_options)"
  by code_simp

definition secret :: "cli_option \<Rightarrow> bool" where
  "secret q \<longleftrightarrow> list_ex (\<lambda>f. f \<in> set sensitive_options) (co_flags q)"

lemma flag_facts:
  assumes "find_option cf f = Some q"
  shows "f \<in> set sensitive_options \<longleftrightarrow> secret q" "f \<in> set target_options \<longleftrightarrow> co_dest q = ''urls''"
    "matches_option f sensitive_options \<longleftrightarrow> f \<in> set sensitive_options"
    "matches_option f target_options \<longleftrightarrow> f \<in> set target_options"
    "takes_value q \<or> \<not> matches_option f (sensitive_options @ target_options)"
    "starts_with f ''--'' \<or> (takes_value q \<longleftrightarrow> f \<notin> set short_flag_options)"
  using tables_agree [of cf] found_option [OF assms] unfolding list_all_iff secret_def by blast+

lemma matches_append: "matches_option f (A @ B) \<longleftrightarrow> matches_option f A \<or> matches_option f B"
  by (auto simp: matches_option_def)

lemma abbreviation_matches:
  assumes "filter (\<lambda>w. starts_with w flag) (long_flags cf) = [w]" "flag \<notin> set (long_flags cf)" "starts_with flag ''--''"
    and C: "set C \<subseteq> set (sensitive_options @ target_options)"
  shows "matches_option flag C \<longleftrightarrow> w \<in> set C"
proof -
  have only: "{v \<in> set (long_flags cf). starts_with v flag} = {w}" using assms(1) by (metis set_filter list.set(1,2))
  then have w: "w \<in> set (long_flags cf)" "starts_with w flag" by blast+
  then have wl: "starts_with w ''--''" by (simp add: long_flags_def)
  have known: "c \<in> set (long_flags cf)" if "c \<in> set C" "starts_with c ''--''" for c
    using that C sensitive_flags_known by (auto simp: list_all_iff long_flags_def flags_cf)
  have "c = w" if "c \<in> set C" "starts_with c ''--''" "starts_with c flag" for c
    using known [OF that(1,2)] that(3) only by blast
  moreover have "flag \<notin> set C" using known assms(2,3) by blast
  moreover have "matches_option flag C \<longleftrightarrow> flag \<in> set C \<or> (\<exists>c \<in> set C. starts_with c ''--'' \<and> starts_with c flag)"
    using assms(3) by (auto simp: matches_option_def list_ex_iff)
  ultimately show ?thesis using w(2) wl by blast
qed

lemma long_facts:
  assumes "find_long cf flag = Inr q" "starts_with flag ''--''"
  shows "matches_option flag sensitive_options \<longleftrightarrow> secret q" "matches_option flag target_options \<longleftrightarrow> co_dest q = ''urls''"
    "takes_value q \<or> \<not> matches_option flag (sensitive_options @ target_options)"
proof -
  from assms(1) obtain w where w: "match_abbrev flag (long_flags cf) = Inr w" "find_option cf w = Some q"
    by (auto simp: find_long_def rbind_eq_Inr split: option.splits)
  have "matches_option flag C \<longleftrightarrow> w \<in> set C" if "C = sensitive_options \<or> C = target_options" for C
  proof (cases "flag \<in> set (long_flags cf)")
    case True
    with w have "w = flag" by (simp add: match_abbrev_def)
    with that flag_facts(3,4) [OF w(2)] show ?thesis by auto
  next
    case False
    with w(1) have "filter (\<lambda>w. starts_with w flag) (long_flags cf) = [w]"
      by (auto simp: match_abbrev_def split: list.splits)
    from abbreviation_matches [OF this False assms(2)] that show ?thesis by auto
  qed
  with flag_facts [OF w(2)] show "matches_option flag sensitive_options \<longleftrightarrow> secret q"
    "matches_option flag target_options \<longleftrightarrow> co_dest q = ''urls''"
    "takes_value q \<or> \<not> matches_option flag (sensitive_options @ target_options)"
    by (auto simp: matches_append)
qed

lemma redact_shown:
  assumes "matches_option flag sensitive_options \<longleftrightarrow> secret q" "matches_option flag target_options \<longleftrightarrow> co_dest q = ''urls''"
  shows "redact_value flag v = shown q v"
  using assms by (auto simp: redact_value_def shown_def hides_def secret_def)

lemma partition_eq_cases:
  assumes "partition ''='' arg = (flag, eq, given)"
  obtains "eq = []" "flag = arg" | "eq = ''=''" "arg = flag @ ''='' @ given"
proof (cases "CHR ''='' \<in> set arg")
  case False with assms that show thesis by (simp add: partition_no_eq)
next
  case True
  then obtain a b where "arg = a @ CHR ''='' # b" "CHR ''='' \<notin> set a" by (meson split_list_first)
  with assms that partition_at_eq [of a b] show thesis by auto
qed

lemma dashed_options: "list_all (\<lambda>c. starts_with c ''-'') (sensitive_options @ target_options)"
  by code_simp

lemma short_step:
  assumes "\<not> starts_with arg ''--''"
  shows "redact_arguments (arg # args) =
    (if matches_option arg (sensitive_options @ target_options)
     then (case args of [] \<Rightarrow> [arg] | v # args \<Rightarrow> arg # redact_value arg v # redact_arguments args)
     else (case find_short_value_option arg of
             None \<Rightarrow> arg # redact_arguments args
           | Some (short, i) \<Rightarrow>
               if drop i arg \<noteq> [] then (take i arg @ redact_value short (drop i arg)) # redact_arguments args
               else (case args of [] \<Rightarrow> [arg] | v # args \<Rightarrow> arg # redact_value short v # redact_arguments args)))"
proof -
  obtain flag eq given where p: "partition ''='' arg = (flag, eq, given)" by (cases "partition ''='' arg") auto
  then have "\<not> starts_with flag ''--'' \<or> eq = []"
    using assms by (cases rule: partition_eq_cases) (auto simp: starts_with_iff)
  moreover have "arg \<noteq> ''--''" using assms by (auto simp: starts_with_def)
  ultimately show ?thesis using p by auto
qed

lemma plain_argument:
  assumes "\<not> starts_with v ''-''"
  shows "redact_arguments (v # vs) = v # redact_arguments vs"
proof -
  have no_dashes: "\<not> starts_with v ''--''" using assms by (cases v) (auto simp: starts_with_def)
  moreover have "\<not> matches_option v (sensitive_options @ target_options)"
    using dashed_options assms no_dashes by (auto simp: matches_option_def list_all_iff)
  moreover have "find_short_value_option v = None" using assms by (simp add: find_short_value_option_def)
  ultimately show ?thesis by (simp add: short_step del: redact_arguments.simps)
qed

lemma long_argument:
  assumes "starts_with arg ''--''" "arg \<noteq> ''--''" "process_long_opt cf arg rargs vs = Inr (rargs', vs')"
    "read_long cf arg rargs = (s, apart, left)" "list_all (\<lambda>v. \<not> starts_with v ''-'') apart"
  shows "left = rargs'" "redact_arguments (arg # rargs) = s @ redact_arguments left"
proof -
  obtain flag eq given where p: "partition ''='' arg = (flag, eq, given)" by (cases "partition ''='' arg") auto
  from assms(3) p obtain q where q: "find_long cf flag = Inr q" by (auto simp: process_long_opt_def rbind_eq_Inr)
  obtain t where t: "arg = CHR ''-'' # CHR ''-'' # t" using assms(1) by (auto simp: starts_with_iff)
  have dashes: "starts_with flag ''--''" using p
  proof (cases rule: partition_eq_cases)
    case 2
    then obtain f where "flag = CHR ''-'' # CHR ''-'' # f" using t by (cases flag; cases "tl flag") auto
    then show ?thesis by (simp add: starts_with_iff)
  qed (use assms(1) in simp)
  note facts = long_facts [OF q dashes]
  note val = redact_shown [OF facts(1,2)]
  have none: "find_short_value_option arg = None" using assms(1) by (simp add: find_short_value_option_def)
  have "left = rargs' \<and> redact_arguments (arg # rargs) = s @ redact_arguments left"
    using p
  proof (cases rule: partition_eq_cases)
    case 1
    then have arg: "flag = arg" "eq = []" by simp_all
    show ?thesis
    proof (cases "takes_value q")
      case False
      then have "\<not> matches_option arg (sensitive_options @ target_options)" using facts(3) arg by simp
      with False assms(2-4) p q arg none show ?thesis by (auto simp: process_long_opt_def read_long_def rbind_eq_Inr)
    next
      case True
      then obtain v rargs2 where r: "rargs = v # rargs2" "rargs' = rargs2" "s = [arg, shown q v]" "apart = [v]" "left = rargs2"
        using assms(3,4) p q arg by (auto simp: process_long_opt_def read_long_def rbind_eq_Inr split: list.splits)
      show ?thesis
      proof (cases "matches_option arg (sensitive_options @ target_options)")
        case True
        with assms(2) p arg r val [of v] show ?thesis by simp
      next
        case False
        with facts(1,2) arg have "shown q v = v" by (auto simp: shown_def hides_def secret_def matches_append)
        with False assms(2,5) p arg r none plain_argument [of v rargs2] show ?thesis by simp
      qed
    qed
  next
    case 2
    with assms(3) p q have "takes_value q" by (auto simp: process_long_opt_def rbind_eq_Inr split: if_splits)
    with 2 assms(2-4) p q val dashes show ?thesis by (auto simp: process_long_opt_def read_long_def rbind_eq_Inr)
  qed
  then show "left = rargs'" "redact_arguments (arg # rargs) = s @ redact_arguments left" by simp_all
qed

lemma short_sensitive:
  "[CHR ''-'', c] \<in> set (sensitive_short_options @ [''-u'']) \<longleftrightarrow> [CHR ''-'', c] \<in> set (sensitive_options @ target_options)"
  by (auto simp: sensitive_short_options_def sensitive_options_def target_options_def)

lemma short_facts:
  assumes "find_option cf [CHR ''-'', c] = Some q" "c \<noteq> CHR ''-''"
  shows "[CHR ''-'', c] \<in> set (sensitive_short_options @ [''-u'']) \<longleftrightarrow> secret q \<or> co_dest q = ''urls''"
    "takes_value q \<longleftrightarrow> [CHR ''-'', c] \<notin> set short_flag_options" "redact_value [CHR ''-'', c] v = shown q v"
    "takes_value q \<or> \<not> (secret q \<or> co_dest q = ''urls'')"
proof -
  have "\<not> starts_with [CHR ''-'', c] ''--''" using assms(2) by (simp add: starts_with_def)
  note f = flag_facts [OF assms(1)] this
  show "[CHR ''-'', c] \<in> set (sensitive_short_options @ [''-u'']) \<longleftrightarrow> secret q \<or> co_dest q = ''urls''"
    unfolding short_sensitive using f(1,2) by auto
  show "takes_value q \<longleftrightarrow> [CHR ''-'', c] \<notin> set short_flag_options" using f(6,7) by blast
  show "redact_value [CHR ''-'', c] v = shown q v" using f(1-4) by (intro redact_shown) auto
  show "takes_value q \<or> \<not> (secret q \<or> co_dest q = ''urls'')" using f(1-5) by (auto simp: matches_append)
qed

lemma hidden_only: "\<not> (secret q \<or> co_dest q = ''urls'') \<Longrightarrow> shown q v = v"
  by (auto simp: shown_def hides_def secret_def)

lemma no_double_dash_flag: "find_option cf ''--'' = None"
proof -
  have "''--'' \<notin> set all_flags" by code_simp
  then show ?thesis using found_flag by (cases "find_option cf ''--''") auto
qed

lemma cluster_reading:
  assumes "process_cluster cf cs rargs vs = Inr (rargs', vs')" "read_cluster cf before cs rargs = (s, apart, left)"
  shows "left = rargs' \<and>
    (case short_value_from (length before) cs of
       None \<Rightarrow> s = [before @ cs] \<and> left = rargs \<or> (\<exists>v. s = [before @ cs, v] \<and> apart = [v] \<and> rargs = v # left)
     | Some (short, i) \<Rightarrow>
         if drop i (before @ cs) \<noteq> []
         then s = [take i (before @ cs) @ redact_value short (drop i (before @ cs))] \<and> left = rargs
         else \<exists>v. rargs = v # left \<and> s = [before @ cs, redact_value short v])"
  using assms
proof (induction cs arbitrary: before vs)
  case Nil then show ?case by simp
next
  case (Cons c cs)
  from Cons.prems(1) obtain q where q: "find_option cf [CHR ''-'', c] = Some q" by (auto split: option.splits)
  have "c \<noteq> CHR ''-''" using q no_double_dash_flag by auto
  note f = short_facts [OF q this]
  show ?case
  proof (cases "takes_value q")
    case False
    with Cons.prems(1) q obtain vs2 where "process_cluster cf cs rargs vs2 = Inr (rargs', vs')" by (auto simp: rbind_eq_Inr)
    moreover have "read_cluster cf (before @ [c]) cs rargs = (s, apart, left)" using Cons.prems(2) q False by simp
    moreover have "short_value_from (length before) (c # cs) = short_value_from (length (before @ [c])) cs"
      using f(1,2,4) False by simp
    moreover have "before @ c # cs = (before @ [c]) @ cs" by simp
    ultimately show ?thesis using Cons.IH by (simp only:)
  next
    case True
    show ?thesis
    proof (cases "secret q \<or> co_dest q = ''urls''")
      case hidden: True
      then have "short_value_from (length before) (c # cs) = Some ([CHR ''-'', c], length before + 1)" using f(1) by simp
      with True q f(3) Cons.prems show ?thesis by (auto simp: rbind_eq_Inr split: if_splits list.splits)
    next
      case plain: False
      then have "short_value_from (length before) (c # cs) = None" using f(1,2) True by simp
      with True q hidden_only [OF plain] Cons.prems show ?thesis by (auto simp: rbind_eq_Inr split: if_splits list.splits)
    qed
  qed
qed
lemma short_or_long: "list_all (\<lambda>c. starts_with c ''--'' \<or> length c = 2) (sensitive_options @ target_options)"
  by code_simp

lemma cluster_argument:
  assumes "arg = CHR ''-'' # cs" "cs \<noteq> []" "\<not> starts_with arg ''--''" "process_cluster cf cs rargs vs = Inr (rargs', vs')"
    "read_cluster cf ''-'' cs rargs = (s, apart, left)" "list_all (\<lambda>v. \<not> starts_with v ''-'') apart"
  shows "left = rargs' \<and> redact_arguments (arg # rargs) = s @ redact_arguments left"
proof -
  note short = assms(3)
  have find: "find_short_value_option arg = short_value_from (length ''-'') cs"
    using short assms(1,2) by (auto simp: find_short_value_option_def starts_with_Cons starts_with_single)
  note reading = cluster_reading [OF assms(4,5)]
  have left: "left = rargs'" using reading by blast
  show ?thesis
  proof (cases "matches_option arg (sensitive_options @ target_options)")
    case True
    then have m: "arg \<in> set (sensitive_options @ target_options)" using short by (simp add: matches_option_def)
    with short short_or_long have "length arg = 2" by (auto simp: list_all_iff)
    then obtain c where c: "cs = [c]" using assms(1) by (cases cs) auto
    with m assms(1) have "short_value_from (length ''-'') cs = Some ([CHR ''-'', c], 2)" using short_sensitive [of c] by simp
    with reading c assms(1) obtain v where "rargs = v # left" "s = [arg, redact_value arg v]" by auto
    with True left show ?thesis by (simp add: short_step [OF short] del: redact_arguments.simps)
  next
    case False
    show ?thesis
    proof (cases "short_value_from (length ''-'') cs")
      case None
      with reading assms(1) have "s = [arg] \<and> left = rargs \<or> (\<exists>v. s = [arg, v] \<and> apart = [v] \<and> rargs = v # left)" by auto
      with False None find left assms(6) plain_argument show ?thesis
        by (auto simp: short_step [OF short] simp del: redact_arguments.simps)
    next
      case (Some p)
      obtain o1 i where p: "p = (o1, i)" by (cases p)
      with reading Some assms(1) have "if drop i arg \<noteq> [] then s = [take i arg @ redact_value o1 (drop i arg)] \<and> left = rargs
          else \<exists>v. rargs = v # left \<and> s = [arg, redact_value o1 v]" by auto
      with False Some p find left show ?thesis
        by (auto simp: short_step [OF short] simp del: redact_arguments.simps split: if_splits)
    qed
  qed
qed

lemma help_all_exits: "process_long_opt cf ''--help-all'' rargs vs \<noteq> Inr x"
proof -
  have "''--help-all'' \<in> set all_flags" by code_simp
  then have "''--help-all'' \<in> set (long_flags cf)" by (simp add: long_flags_def flags_cf starts_with_def)
  moreover have "find_option cf ''--help-all'' = Some (opt [''--help-all''] ShowAll [])"
    by (simp add: find_option_def iter_options_def parser_options_def opt_def)
  ultimately have "find_long cf ''--help-all'' = Inr (opt [''--help-all''] ShowAll [])"
    by (simp add: find_long_def match_abbrev_def)
  moreover have "partition ''='' ''--help-all'' = (''--help-all'', [], [])" by code_simp
  ultimately show ?thesis by (simp add: process_long_opt_def opt_def takes_value_def process_option_def)
qed

lemma redaction_of_args:
  "process_args cf args largs vs = Inr r \<Longrightarrow> list_all (\<lambda>v. \<not> starts_with v ''-'') (snd (read_arguments cf args)) \<Longrightarrow>
   redact_arguments args = fst (read_arguments cf args)"
proof (induction cf args largs vs rule: process_args.induct)
  case (1 cf largs vs) then show ?case by simp
next
  case (2 cf arg rargs largs vs)
  show ?case
  proof (cases "arg = ''--''")
    case True then show ?thesis by simp
  next
    case other: False
    show ?thesis
    proof (cases "starts_with arg ''--''")
      case long: True
      with 2(4) other obtain rargs' vs' where p: "process_long_opt cf arg rargs vs = Inr (rargs', vs')"
        "process_args cf rargs' largs vs' = Inr r" by (auto simp: rbind_eq_Inr)
      obtain s apart left where s: "read_long cf arg rargs = (s, apart, left)" by (cases "read_long cf arg rargs") auto
      obtain ss vss where ss: "read_arguments cf left = (ss, vss)" by fastforce
      have read: "read_arguments cf (arg # rargs) = (s @ ss, apart @ vss)" using other long s ss by simp
      with 2(5) have "list_all (\<lambda>v. \<not> starts_with v ''-'') apart" "list_all (\<lambda>v. \<not> starts_with v ''-'') vss" by simp_all
      from long_argument [OF long other p(1) s this(1)] 2(1) [OF other long p(1) refl] p(2) this(2) ss read
      show ?thesis by (simp del: redact_arguments.simps read_arguments.simps)
    next
      case short: False
      show ?thesis
      proof (cases "starts_with arg ''-'' \<and> 1 < length arg")
        case True
        with 2(4) other short obtain rargs' vs' where p: "process_short_opts cf arg rargs vs = Inr (rargs', vs')"
          "process_args cf rargs' largs vs' = Inr r" by (auto simp: rbind_eq_Inr)
        have arg: "arg = CHR ''-'' # tl arg" "tl arg \<noteq> []" using True by (cases arg; auto simp: starts_with_single)+
        from p(1) help_all_exits have c: "process_cluster cf (tl arg) rargs vs = Inr (rargs', vs')"
          by (auto simp: process_short_opts_def split: if_splits)
        obtain s apart left where s: "read_cluster cf ''-'' (tl arg) rargs = (s, apart, left)"
          by (cases "read_cluster cf ''-'' (tl arg) rargs") auto
        obtain ss vss where ss: "read_arguments cf left = (ss, vss)" by fastforce
        have read: "read_arguments cf (arg # rargs) = (s @ ss, apart @ vss)" using other short True s ss by simp
        with 2(5) have "list_all (\<lambda>v. \<not> starts_with v ''-'') apart" "list_all (\<lambda>v. \<not> starts_with v ''-'') vss" by simp_all
        from cluster_argument [OF arg short c s this(1)] 2(2) [OF other short True p(1) refl] p(2) this(2) ss read
        show ?thesis by (simp del: redact_arguments.simps read_arguments.simps)
      next
        case False
        with 2(4) other short have p: "process_args cf rargs (largs @ [arg]) vs = Inr r" by (auto split: if_splits)
        obtain ss vss where ss: "read_arguments cf rargs = (ss, vss)" by fastforce
        have read: "read_arguments cf (arg # rargs) = (arg # ss, vss)" using other short False ss by auto
        have "redact_arguments (arg # rargs) = arg # redact_arguments rargs"
        proof (cases "starts_with arg ''-''")
          case False then show ?thesis by (rule plain_argument)
        next
          case True
          with False have "arg = ''-''" by (cases arg) (auto simp: starts_with_single)
          then show ?thesis
            by (simp add: short_step matches_option_def sensitive_options_def target_options_def
                find_short_value_option_def starts_with_def del: redact_arguments.simps)
        qed
        with 2(3) [OF other short False p] 2(5) ss read show ?thesis by (simp del: redact_arguments.simps read_arguments.simps)
      qed
    qed
  qed
qed

text \<open>C35: the command line that reports show hides what the parser reads as a secret: whenever the option
  parser accepts the arguments and no value given as an argument of its own starts with a dash, the
  redacted arguments are the arguments as the parser reads them, abbreviated long options and clusters of
  short ones included, with the value of every sensitive option, and of every target with credentials,
  replaced.\<close>
theorem redaction_follows_the_parser:
  assumes "parse_arguments config_file arguments = Inr vs"
    and "list_all (\<lambda>v. \<not> starts_with v ''-'') (snd (read_arguments config_file arguments))"
  shows "redact_arguments arguments = fst (read_arguments config_file arguments)"
  using assms redaction_of_args by (auto simp: parse_arguments_def rbind_eq_Inr)

theorem redaction_follows_the_parser_witness:
  "redact_arguments [''--proxy-au=a:b'', ''-qfd'', ''x=1'', ''-u'', ''http://u:p@h'', ''-t'', ''9''] =
   [''--proxy-au=<redacted>'', ''-qfd'', ''<redacted>'', ''-u'', ''<redacted>'', ''-t'', ''9'']"
proof -
  let ?args = "[''--proxy-au=a:b'', ''-qfd'', ''x=1'', ''-u'', ''http://u:p@h'', ''-t'', ''9'']"
  have r: "read_arguments [] ?args =
      ([''--proxy-au=<redacted>'', ''-qfd'', ''<redacted>'', ''-u'', ''<redacted>'', ''-t'', ''9''], [''x=1'', ''http://u:p@h'', ''9''])"
    by code_simp
  have "(case parse_arguments [] ?args of Inr _ \<Rightarrow> True | Inl _ \<Rightarrow> False)" by code_simp
  then obtain vs where "parse_arguments [] ?args = Inr vs" by (auto split: sum.splits)
  from redaction_follows_the_parser [OF this] r show ?thesis by (simp add: starts_with_def)
qed

text \<open>A value that starts with a dash breaks the redaction: \<open>-o -d -p secret\<close> is a report file called
  \<open>-d\<close> and a proxy to the parser, while the redaction hides the argument after \<open>-d\<close> and shows the proxy.\<close>
theorem dashed_value_reveals_secret:
  "redact_command [''-o'', ''-d'', ''-p'', ''secret''] = ''-o -d <redacted> secret'' \<and>
   read_arguments [] [''-o'', ''-d'', ''-p'', ''secret''] = ([''-o'', ''-d'', ''-p'', redacted_value], [''-d'', ''secret''])"
  by code_simp

end
