(* ===== verification/Api.thy ===== *)
theory Api
  imports Wordlist Headers
begin

text \<open>
  The library interface, \<open>lib/core/api.py\<close>: wordlists and templates without the command line, the
  configuration of a scan, and the fuzzer that requests every path of a wordlist in turn.  The HTTP
  session is a parameter.
\<close>

section \<open>Wordlists\<close>

text \<open>\<open>Wordlist._dedupe\<close>: trimmed, without leading slashes, comments and repetitions.\<close>

definition api_entry :: "string \<Rightarrow> string" where
  "api_entry item = lstrip_char (CHR ''/'') (strip item)"

fun dedupe_from :: "int option \<Rightarrow> string list \<Rightarrow> string list \<Rightarrow> string list result" where
  "dedupe_from max_entries seen [] = Inr seen"
| "dedupe_from max_entries seen (item # items) =
     (let path = api_entry item in
      if path = [] \<or> starts_with path ''#'' \<or> path \<in> set seen then dedupe_from max_entries seen items
      else if (case max_entries of None \<Rightarrow> False | Some n \<Rightarrow> int (length seen) + 1 > n)
      then Inl (WordlistLimitError ''Generated wordlist exceeded max_entries'')
      else dedupe_from max_entries (seen @ [path]) items)"

definition api_wordlist :: "int option \<Rightarrow> string list \<Rightarrow> string list result" where
  "api_wordlist max_entries items = dedupe_from max_entries [] items"

record wordlist_state =
  ws_items :: "string list"
  ws_index :: nat

definition api_state :: "string list \<Rightarrow> nat \<Rightarrow> wordlist_state" where
  "api_state items index = \<lparr>ws_items = items, ws_index = index\<rparr>"

definition wordlist_from_file :: "file_texts \<Rightarrow> string \<Rightarrow> string list result" where
  "wordlist_from_file fs path = rbind (get_lines fs path) (api_wordlist None)"

text \<open>A template: its lines and its placeholders, normalised.\<close>

record api_template =
  at_lines :: "string list"
  at_placeholders :: "(string \<times> string list) list"

definition api_template_of :: "string list \<Rightarrow> (string \<times> (string + string list)) list \<Rightarrow> api_template" where
  "api_template_of lines placeholders =
     \<lparr>at_lines = lines, at_placeholders = normalize_placeholders placeholders\<rparr>"

definition template_from_file ::
  "file_texts \<Rightarrow> (string \<times> (string + string list)) list \<Rightarrow> string \<Rightarrow> api_template result" where
  "template_from_file fs placeholders path =
     rbind (get_lines fs path) (\<lambda>lines. Inr (api_template_of lines placeholders))"

definition base_name :: "string \<Rightarrow> string" where
  "base_name path = snd (snd (rpartition (CHR ''/'') path))"

definition template_from_builtin ::
  "file_texts \<Rightarrow> string \<Rightarrow> (string \<times> (string + string list)) list \<Rightarrow> string \<Rightarrow> api_template result" where
  "template_from_builtin fs script_path placeholders name =
     (let filename = strip name;
          txt_name = (if ends_with filename ''.txt'' then filename else filename @ ''.txt'');
          path = build_path (build_path (build_path script_path ''db'') ''templates'') txt_name
      in if filename = [] then Inl (ValueError ''Built-in template name is required'')
         else if base_name txt_name \<noteq> txt_name then Inl (ValueError ''Invalid built-in template name'')
         else if \<not> can_read fs path then Inl (ValueError ''Unknown built-in template'')
         else template_from_file fs placeholders path)"

definition render ::
  "file_texts \<Rightarrow> string \<Rightarrow> date \<Rightarrow> api_template \<Rightarrow> string list \<Rightarrow> (string \<times> (string + string list)) list \<Rightarrow> string list" where
  "render fs category_dir today t extensions placeholders =
     (let values = dict_of (map (\<lambda>(k, vs). (''%'' @ k @ ''%'', Inr vs)) (at_placeholders t) @ placeholders)
      in concat (map (expand_template_line fs category_dir today extensions values) (at_lines t)))"

definition wordlist_from_template ::
  "file_texts \<Rightarrow> string \<Rightarrow> date \<Rightarrow> api_template \<Rightarrow> string list \<Rightarrow> (string \<times> (string + string list)) list \<Rightarrow> int option \<Rightarrow>
   string list result" where
  "wordlist_from_template fs category_dir today t extensions placeholders max_entries =
     api_wordlist max_entries (render fs category_dir today t extensions placeholders)"

section \<open>Configuration\<close>

datatype word_source = Words "string list" | Template api_template

record api_config =
  ac_url :: string
  ac_source :: word_source
  ac_extensions :: "string list"
  ac_headers :: "(string \<times> string) list"
  ac_method :: string
  ac_data :: "string option"
  ac_timeout :: rat
  ac_follow_redirects :: bool
  ac_include :: "int list"
  ac_exclude :: "int list"
  ac_verify_tls :: bool
  ac_user_agent :: string
  ac_raise_on_error :: bool

text \<open>A source of words that is no wordlist is made one.\<close>

definition api_config_of :: "string list + word_source \<Rightarrow> api_config \<Rightarrow> api_config result" where
  "api_config_of source c =
     (if ac_url c = [] then Inl (ValueError ''FuzzerConfig.url is required'')
      else (case source of
              Inr s \<Rightarrow> Inr (c\<lparr>ac_source := s\<rparr>)
            | Inl items \<Rightarrow> rbind (api_wordlist None items) (\<lambda>ws. Inr (c\<lparr>ac_source := Words ws\<rparr>))))"

text \<open>The fields that are not taken from the raw request are those of \<open>c\<close>.\<close>

definition config_from_raw_request ::
  "(string \<Rightarrow> string result) \<Rightarrow> string option \<Rightarrow> string option \<Rightarrow> string \<Rightarrow> string list + word_source \<Rightarrow> api_config \<Rightarrow>
   api_config result" where
  "config_from_raw_request read_bytes raw raw_file scheme source c =
     (if (raw = None) = (raw_file = None) then Inl (ValueError ''Provide exactly one of raw_request or raw_file'')
      else rbind (case raw_file of Some path \<Rightarrow> read_bytes path | None \<Rightarrow> Inr (the raw)) (\<lambda>content.
           rbind (parse_raw_content content scheme) (\<lambda>rq.
             api_config_of source
               (c\<lparr>ac_url := rr_url rq, ac_headers := rr_headers rq, ac_method := rr_method rq, ac_data := rr_body rq\<rparr>))))"
section \<open>The fuzzer\<close>

record api_call =
  call_method :: string
  call_url :: string
  call_headers :: "(string \<times> string) list"
  call_data :: "string option"
  call_timeout :: rat
  call_redirects :: bool

record api_answer =
  an_status :: int
  an_headers :: "(string \<times> string) list"
  an_content :: string
  an_elapsed :: rat

record api_result =
  ar_url :: string
  ar_path :: string
  ar_status :: int
  ar_length :: int
  ar_content_type :: string
  ar_redirect :: string
  ar_elapsed :: rat
  ar_headers :: "(string \<times> string) list"
  ar_body :: string

definition api_headers :: "api_config \<Rightarrow> (string \<times> string) list" where
  "api_headers c =
     (let headers = dict_of (default_headers @ ac_headers c) in
      if ac_user_agent c \<noteq> [] then AList.update ''user-agent'' (ac_user_agent c) headers else headers)"

text \<open>The headers of an answer are looked up without regard to case.\<close>

definition answer_header :: "api_answer \<Rightarrow> string \<Rightarrow> string option" where
  "answer_header a name = map_of (map (\<lambda>(k, v). (lower k, v)) (an_headers a)) (lower name)"

definition or_nothing :: "string option \<Rightarrow> string" where
  "or_nothing x = (case x of Some s \<Rightarrow> s | None \<Rightarrow> [])"

definition join_url :: "string \<Rightarrow> string \<Rightarrow> string result" where
  "join_url base_url path =
     rbind (ensure_trailing_path_slash base_url) (\<lambda>base.
     rbind (urlsplit base) (\<lambda>parsed.
     rbind (urljoin (urlunsplit (parsed\<lparr>url_query := [], url_fragment := []\<rparr>)) (safequote path)) (\<lambda>joined.
       Inr (append_query_string joined (url_query parsed)))))"

definition result_of :: "string \<Rightarrow> string \<Rightarrow> api_answer \<Rightarrow> api_result" where
  "result_of url path a =
     \<lparr>ar_url = url, ar_path = path, ar_status = an_status a,
      ar_length = get_response_length (answer_header a ''content-length'') (int (length (an_content a))),
      ar_content_type = hd (split_char (CHR '';'') (or_nothing (answer_header a ''content-type''))),
      ar_redirect = or_nothing (answer_header a ''location''), ar_elapsed = an_elapsed a,
      ar_headers = an_headers a, ar_body = an_content a\<rparr>"

definition call_of :: "api_config \<Rightarrow> string \<Rightarrow> api_call" where
  "call_of c url =
     \<lparr>call_method = ac_method c, call_url = url, call_headers = api_headers c, call_data = ac_data c,
      call_timeout = ac_timeout c, call_redirects = ac_follow_redirects c\<rparr>"

definition api_request ::
  "(api_call \<Rightarrow> ('w, api_answer) io) \<Rightarrow> api_config \<Rightarrow> string \<Rightarrow> ('w, api_result) io" where
  "api_request request c path w =
     (case join_url (ac_url c) path of
        Inl e \<Rightarrow> raise e w
      | Inr url \<Rightarrow> io_bind (request (call_of c url)) (\<lambda>a. ret (result_of url path a)) w)"

definition api_is_match :: "(api_result \<Rightarrow> bool) option \<Rightarrow> api_config \<Rightarrow> api_result \<Rightarrow> bool" where
  "api_is_match predicate c r \<longleftrightarrow>
     ar_status r \<notin> set (ac_exclude c) \<and> (ac_include c = [] \<or> ar_status r \<in> set (ac_include c)) \<and>
     (case predicate of None \<Rightarrow> True | Some p \<Rightarrow> p r)"

text \<open>What the callbacks are told, in order; the results are those found.\<close>

datatype api_event = Found api_result | NotFound api_result | Failed exc

definition request_exception :: "exc \<Rightarrow> bool" where
  "request_exception e \<longleftrightarrow> (case e of RequestException _ \<Rightarrow> True | _ \<Rightarrow> False)"

fun api_loop ::
  "(api_call \<Rightarrow> ('w, api_answer) io) \<Rightarrow> (api_result \<Rightarrow> bool) option \<Rightarrow> api_config \<Rightarrow> string list \<Rightarrow> 'w \<Rightarrow>
   api_event list \<times> unit result \<times> 'w" where
  "api_loop request predicate c [] w = ([], Inr (), w)"
| "api_loop request predicate c (path # paths) w =
     (case api_request request c path w of
        (Inl e, w) \<Rightarrow>
          if \<not> request_exception e then ([], Inl e, w)
          else if ac_raise_on_error c then ([Failed e], Inl e, w)
          else (let (evs, r, w) = api_loop request predicate c paths w in (Failed e # evs, r, w))
      | (Inr res, w) \<Rightarrow>
          (let (evs, r, w) = api_loop request predicate c paths w
           in ((if api_is_match predicate c res then Found res else NotFound res) # evs, r, w)))"

definition found_results :: "api_event list \<Rightarrow> api_result list" where
  "found_results evs = List.map_filter (\<lambda>e. case e of Found r \<Rightarrow> Some r | _ \<Rightarrow> None) evs"

definition source_words ::
  "file_texts \<Rightarrow> string \<Rightarrow> date \<Rightarrow> api_config \<Rightarrow> string list result" where
  "source_words fs category_dir today c =
     (case ac_source c of
        Words ws \<Rightarrow> Inr ws
      | Template t \<Rightarrow> wordlist_from_template fs category_dir today t (ac_extensions c) [] None)"

text \<open>\<open>run\<close>: whatever happens, the session is closed at the end.\<close>

definition api_run ::
  "(api_call \<Rightarrow> ('w, api_answer) io) \<Rightarrow> ('w \<Rightarrow> 'w) \<Rightarrow> (api_result \<Rightarrow> bool) option \<Rightarrow> string list result \<Rightarrow> api_config \<Rightarrow> 'w \<Rightarrow>
   api_event list \<times> api_result list result \<times> 'w" where
  "api_run request close_session predicate words c w =
     (case words of
        Inl e \<Rightarrow> ([], Inl e, close_session w)
      | Inr paths \<Rightarrow>
          (case api_loop request predicate c paths w of
             (evs, r, w) \<Rightarrow> (evs, rbind r (\<lambda>_. Inr (found_results evs)), close_session w)))"

section \<open>Properties\<close>

lemma dedupe_from_props:
  "dedupe_from m seen items = Inr ws \<Longrightarrow> distinct seen \<Longrightarrow>
   \<exists>new. ws = seen @ new \<and> distinct ws \<and> (\<forall>p \<in> set new. p \<noteq> [] \<and> \<not> starts_with p ''#'' \<and> p \<in> api_entry ` set items) \<and>
     (\<forall>p \<in> api_entry ` set items. p = [] \<or> starts_with p ''#'' \<or> p \<in> set ws) \<and>
     (case m of None \<Rightarrow> True | Some n \<Rightarrow> new = [] \<or> int (length ws) \<le> n)"
proof (induction items arbitrary: seen)
  case Nil then show ?case by (simp split: option.split)
next
  case (Cons item items)
  let ?p = "api_entry item"
  show ?case
  proof (cases "?p = [] \<or> starts_with ?p ''#'' \<or> ?p \<in> set seen")
    case True
    with Cons.prems have "dedupe_from m seen items = Inr ws" by (simp add: Let_def)
    from Cons.IH [OF this Cons.prems(2)] obtain new where n: "ws = seen @ new" "distinct ws"
      "\<forall>p \<in> set new. p \<noteq> [] \<and> \<not> starts_with p ''#'' \<and> p \<in> api_entry ` set items"
      "\<forall>p \<in> api_entry ` set items. p = [] \<or> starts_with p ''#'' \<or> p \<in> set ws"
      "case m of None \<Rightarrow> True | Some n \<Rightarrow> new = [] \<or> int (length ws) \<le> n" by blast
    with True show ?thesis by (intro exI [of _ new]) auto
  next
    case False
    with Cons.prems have d: "dedupe_from m (seen @ [?p]) items = Inr ws"
      and small: "case m of None \<Rightarrow> True | Some n \<Rightarrow> int (length seen) + 1 \<le> n"
      by (auto simp: Let_def split: if_splits option.splits)
    from Cons.IH [OF d] False Cons.prems(2) obtain new where n: "ws = (seen @ [?p]) @ new" "distinct ws"
      "\<forall>p \<in> set new. p \<noteq> [] \<and> \<not> starts_with p ''#'' \<and> p \<in> api_entry ` set items"
      "\<forall>p \<in> api_entry ` set items. p = [] \<or> starts_with p ''#'' \<or> p \<in> set ws"
      "case m of None \<Rightarrow> True | Some n \<Rightarrow> new = [] \<or> int (length ws) \<le> n" by auto
    have "case m of None \<Rightarrow> True | Some k \<Rightarrow> ?p # new = [] \<or> int (length ws) \<le> k"
      using n(1,5) small by (cases m) auto
    with n False show ?thesis by (intro exI [of _ "?p # new"]) auto
  qed
qed

text \<open>The wordlist holds every entry once: the trimmed lines that are neither empty nor comments.\<close>

lemma api_wordlist_exact:
  assumes "api_wordlist m items = Inr ws"
  shows "distinct ws" "set ws = {p \<in> api_entry ` set items. p \<noteq> [] \<and> \<not> starts_with p ''#''}"
    "m = Some n \<Longrightarrow> ws = [] \<or> int (length ws) \<le> n"
  using dedupe_from_props [of m "[]" items ws] assms unfolding api_wordlist_def by (auto split: option.splits)

definition event_fits :: "(api_result \<Rightarrow> bool) option \<Rightarrow> api_config \<Rightarrow> string \<Rightarrow> api_event \<Rightarrow> bool" where
  "event_fits predicate c path ev \<longleftrightarrow>
     (case ev of
        Found r \<Rightarrow> ar_path r = path \<and> Inr (ar_url r) = join_url (ac_url c) path \<and> api_is_match predicate c r
      | NotFound r \<Rightarrow> ar_path r = path \<and> Inr (ar_url r) = join_url (ac_url c) path \<and> \<not> api_is_match predicate c r
      | Failed e \<Rightarrow> request_exception e)"

lemma api_request_path:
  "api_request request c path w = (Inr r, w') \<Longrightarrow> ar_path r = path \<and> Inr (ar_url r) = join_url (ac_url c) path"
  by (auto simp: api_request_def io_bind_eq_Inr result_of_def raise_def ret_def split: sum.splits)

lemma api_loop_events:
  "api_loop request predicate c paths w = (evs, Inr u, w') \<Longrightarrow> list_all2 (event_fits predicate c) paths evs"
proof (induction paths arbitrary: w evs)
  case (Cons path paths)
  obtain x w1 where x: "api_request request c path w = (x, w1)" by fastforce
  obtain es r w2 where l: "api_loop request predicate c paths w1 = (es, r, w2)" by (cases "api_loop request predicate c paths w1") auto
  show ?case
  proof (cases x)
    case (Inl e)
    with Cons.prems x l have "request_exception e" "evs = Failed e # es" "r = Inr u" "w2 = w'" by (auto split: if_splits)
    with Cons.IH l show ?thesis by (simp add: event_fits_def)
  next
    case (Inr res)
    with Cons.prems x l have "evs = (if api_is_match predicate c res then Found res else NotFound res) # es" "r = Inr u" "w2 = w'"
      by auto
    with Cons.IH l api_request_path [of request c path w res w1] x Inr show ?thesis by (simp add: event_fits_def)
  qed
qed simp


definition sample_config :: api_config where
  "sample_config = \<lparr>ac_url = ''http://h/app'', ac_source = Words [], ac_extensions = [], ac_headers = [], ac_method = ''GET'',
     ac_data = None, ac_timeout = 10, ac_follow_redirects = False, ac_include = [], ac_exclude = [404], ac_verify_tls = False,
     ac_user_agent = [], ac_raise_on_error = False\<rparr>"

definition sample_server :: "api_call \<Rightarrow> (nat, api_answer) io" where
  "sample_server q n =
     (if n = 1 then (Inl (RequestException ''timeout''), Suc n)
      else (Inr \<lparr>an_status = (if n = 0 then 200 else 404), an_headers = [], an_content = [], an_elapsed = 0\<rparr>, Suc n))"


text \<open>An entry with a colon is joined to another URL: no request goes to the target.\<close>

lemma colon_leaves_target: "join_url ''http://h/'' ''admin:x'' = Inr ''admin:x''"
  by code_simp

end
