(* ===== verification/Crawl.thy ===== *)
theory Crawl
  imports Response
begin

text \<open>
  The crawler, \<open>lib/utils/crawl.py\<close>: what a response says of other paths of its origin.  A page is
  given as the elements that BeautifulSoup finds in it, in document order, with their attributes.
\<close>

section \<open>What is kept\<close>

definition is_media_path :: "string \<Rightarrow> bool" where
  "is_media_path resource \<longleftrightarrow> ends_with_any (lower resource) (map (\<lambda>e. CHR ''.'' # e) media_extensions)"

text \<open>\<open>_filter\<close> gives a set, here without repetitions in the order of discovery.\<close>

definition keep_path :: "string \<Rightarrow> string option" where
  "keep_path p =
     (let path = clean_path p True False; resource = hd (split_char (CHR ''?'') path) in
      if path = [] \<or> is_media_path resource then None else Some path)"

definition filter_paths :: "string list \<Rightarrow> string list" where
  "filter_paths paths = dedup_from [] (List.map_filter keep_path paths)"

section \<open>Text\<close>

text \<open>\<open>\\\\(?:/|u002f|x2f)\<close>, without regard to case, is a slash.\<close>

definition escaped_slash_re :: rx where
  "escaped_slash_re = Seq (Lit (CHR 0x5C)) (Alts [Lit (CHR ''/''), StrI ''u002f'', StrI ''x2f''])"

definition unescape_slashes :: "string \<Rightarrow> string" where
  "unescape_slashes s = re_sub escaped_slash_re (\<lambda>_. ''/'') s"

definition text_url_char :: "char \<Rightarrow> bool" where
  "text_url_char c \<longleftrightarrow> is_alnum c \<or> c \<in> set ''-._~%!$&()*+,;=:@/?#[]'' \<or> c = CHR 0x27"

definition text_url_quote :: "char \<Rightarrow> bool" where
  "text_url_quote c \<longleftrightarrow> c = CHR 0x22 \<or> c = CHR 0x27 \<or> c = CHR 0x60"

definition trim_closing :: "char \<Rightarrow> char \<Rightarrow> string \<Rightarrow> string" where
  "trim_closing opening closing path =
     (let excess = char_count path closing - char_count path opening;
          trailing = length path - length (rstrip_char closing path)
      in take (length path - min excess trailing) path)"

definition trim_unquoted_url :: "string \<Rightarrow> string" where
  "trim_unquoted_url path =
     trim_closing (CHR ''['') (CHR '']'') (trim_closing (CHR ''('') (CHR '')'') (rstrip_p (\<lambda>c. c \<in> set ''.,'') path))"

text \<open>The path after one occurrence of the scope; \<open>before\<close> is the character before the occurrence.\<close>

definition scoped_path :: "char option \<Rightarrow> string \<Rightarrow> string" where
  "scoped_path before s =
     (case before of
        Some q \<Rightarrow>
          if text_url_quote q then takeWhile (\<lambda>c. c \<noteq> q \<and> text_url_char c) s
          else trim_unquoted_url (takeWhile text_url_char s)
      | None \<Rightarrow> trim_unquoted_url (takeWhile text_url_char s))"

text \<open>The occurrences of the scope, which ends in a slash, from left to right without overlap.\<close>

function extract_scoped_paths :: "string \<Rightarrow> char option \<Rightarrow> string \<Rightarrow> string list" where
  "extract_scoped_paths scope before [] = []"
| "extract_scoped_paths scope before (c # s) =
     (if starts_with (lower (c # s)) (lower scope)
      then (let path = scoped_path before (drop (length scope) (c # s));
                found = take (length scope) (c # s); after = drop (length scope - 1) s
            in (if path \<noteq> [] then [path] else []) @ extract_scoped_paths scope (Some (last (c # found))) after)
      else extract_scoped_paths scope (Some c) s)"
  by pat_completeness auto
termination by (relation "measure (\<lambda>(_, _, s). length s)") auto

definition text_crawl :: "string \<Rightarrow> string \<Rightarrow> string list" where
  "text_crawl scope content = filter_paths (extract_scoped_paths scope None (unescape_slashes content))"

section \<open>Pages\<close>

text \<open>An attribute is a text, or the list of its words.\<close>

datatype attribute = AttrText string | AttrWords "string list"

type_synonym soup = "(string \<times> (string \<times> attribute) list) list"

definition ascii_space :: "char \<Rightarrow> bool" where
  "ascii_space c \<longleftrightarrow> code c \<in> {9, 10, 12, 13, 32}"

text \<open>The rest of a candidate of \<open>srcset\<close> after its URL.\<close>

fun skip_descriptors :: "nat \<Rightarrow> string \<Rightarrow> string" where
  "skip_descriptors n [] = []"
| "skip_descriptors n (c # s) =
     (if c = CHR ''('' then skip_descriptors (n + 1) s
      else if c = CHR '')'' \<and> n \<noteq> 0 then skip_descriptors (n - 1) s
      else if c = CHR '','' \<and> n = 0 then s
      else skip_descriptors n s)"

lemma skip_descriptors_shorter: "length (skip_descriptors n s) \<le> length s"
  by (induction n s rule: skip_descriptors.induct) auto

lemma after_url_shorter:
  assumes "dropWhile (\<lambda>c. ascii_space c \<or> c = CHR '','') s \<noteq> []"
  shows "length (dropWhile (\<lambda>c. \<not> ascii_space c) (dropWhile (\<lambda>c. ascii_space c \<or> c = CHR '','') s)) < length s"
proof -
  let ?t = "dropWhile (\<lambda>c. ascii_space c \<or> c = CHR '','') s"
  obtain c t where t: "?t = c # t" using assms by (cases ?t) auto
  have "\<not> ascii_space c" using hd_dropWhile [OF assms] t by simp
  then have "length (dropWhile (\<lambda>c. \<not> ascii_space c) ?t) \<le> length t" using t by (simp add: length_dropWhile_le)
  moreover have "length ?t \<le> length s" by (rule length_dropWhile_le)
  ultimately show ?thesis using t by simp
qed

function srcset_urls :: "string \<Rightarrow> string list" where
  "srcset_urls s =
     (let s = dropWhile (\<lambda>c. ascii_space c \<or> c = CHR '','') s in
      if s = [] then []
      else (let url = takeWhile (\<lambda>c. \<not> ascii_space c) s; more_text = dropWhile (\<lambda>c. \<not> ascii_space c) s in
            if ends_with url '',''
            then (if rstrip_char (CHR '','') url \<noteq> [] then [rstrip_char (CHR '','') url] else []) @ srcset_urls more_text
            else url # srcset_urls (skip_descriptors 0 more_text)))"
  by pat_completeness auto
termination
  by (relation "measure length")
     (auto simp: after_url_shorter le_less_trans [OF skip_descriptors_shorter after_url_shorter] simp del: dropWhile_eq_Nil_conv)

definition browser_url_value :: "string \<Rightarrow> string" where
  "browser_url_value v =
     (let path = takeWhile (\<lambda>c. c \<noteq> CHR ''?'' \<and> c \<noteq> CHR ''#'') v
      in map (\<lambda>c. if c = CHR 0x5C then CHR ''/'' else c) path @ drop (length path) v)"

text \<open>\<open>urljoin\<close>, and then the parts and the port, which may raise \<open>ValueError\<close>.\<close>

definition resolve_value :: "string \<Rightarrow> string \<Rightarrow> (string \<times> split_result) option" where
  "resolve_value base v =
     (case rbind (urljoin base (browser_url_value (strip v))) (\<lambda>resolved.
             rbind (urlsplit resolved) (\<lambda>parsed. rbind (url_port parsed) (\<lambda>_. Inr (resolved, parsed)))) of
        Inr x \<Rightarrow> Some x
      | Inl _ \<Rightarrow> None)"

definition document_base_url :: "string \<Rightarrow> soup \<Rightarrow> string" where
  "document_base_url url page =
     (case List.find (\<lambda>(tag, attrs). tag = ''base'' \<and> map_of attrs ''href'' \<noteq> None) page of
        Some (_, attrs) \<Rightarrow>
          (case map_of attrs ''href'' of
             Some (AttrText href) \<Rightarrow>
               (case resolve_value url href of
                  Some (resolved, parsed) \<Rightarrow>
                    if url_scheme parsed = [] \<or> lower (url_scheme parsed) \<in> {''data'', ''javascript''} then url else resolved
                | None \<Rightarrow> url)
           | _ \<Rightarrow> url)
      | None \<Rightarrow> url)"

definition same_origin_crawl_path :: "string \<Rightarrow> string \<Rightarrow> string \<Rightarrow> string option" where
  "same_origin_crawl_path scope base v =
     (case resolve_value base v of
        None \<Rightarrow> None
      | Some (resolved, parsed) \<Rightarrow>
          if url_scheme parsed = [] \<or> url_hostname parsed = None then None else same_origin_path scope resolved)"

definition element_values :: "(string \<times> attribute) list \<Rightarrow> string list" where
  "element_values attrs =
     concat (map (\<lambda>attr.
       case map_of attrs attr of
         Some (AttrText v) \<Rightarrow> if v = [] then [] else if attr = ''srcset'' then srcset_urls v else [v]
       | _ \<Rightarrow> []) crawl_attributes)"

definition page_values :: "soup \<Rightarrow> string list" where
  "page_values page =
     concat (map (\<lambda>tag. concat (map (\<lambda>(name, attrs). if name = ''base'' then [] else element_values attrs)
       (filter (\<lambda>(name, _). name = tag) page))) crawl_tags)"

definition html_crawl :: "string \<Rightarrow> string \<Rightarrow> soup \<Rightarrow> string list" where
  "html_crawl url scope page =
     filter_paths (List.map_filter (same_origin_crawl_path scope (document_base_url url page)) (page_values page))"

section \<open>robots.txt\<close>

text \<open>\<open>(?:Allow|Disallow): /(.*)\<close>, wherever it stands in a line.\<close>

definition robots_re :: rx where
  "robots_re = Seqs [Alts [Str ''Allow'', Str ''Disallow''], Str '': /'', Cap 1 (Star Dot)]"

definition robots_crawl :: "string \<Rightarrow> string list" where
  "robots_crawl content = filter_paths (re_findall1 robots_re content)"

section \<open>Crawling a response\<close>

definition crawl_scope :: "string \<Rightarrow> string" where
  "crawl_scope url = join ''/'' (take 3 (split_char (CHR ''/'') url)) @ ''/''"

definition crawl :: "(string \<Rightarrow> soup) \<Rightarrow> response \<Rightarrow> string list" where
  "crawl parse_html r =
     (let scope = crawl_scope (r_url r);
          ctype = (case get_header (r_headers r) ''content-type'' of Some t \<Rightarrow> t | None \<Rightarrow> [])
      in if contains ctype ''text/html'' then html_crawl (r_url r) scope (parse_html (r_content r))
         else if r_path r = ''robots.txt'' then robots_crawl (r_content r)
         else text_crawl scope (r_content r))"

declare srcset_urls.simps [simp del]

section \<open>Properties\<close>

lemma filter_paths_kept:
  assumes "p \<in> set (filter_paths ps)"
  obtains q where "q \<in> set ps" "keep_path q = Some p"
  using assms by (auto simp: filter_paths_def map_filter_def)

lemma kept_path:
  assumes "keep_path q = Some p"
  shows "p = takeWhile (\<lambda>c. c \<noteq> CHR ''#'') q" "p \<noteq> []" "\<not> is_media_path (hd (split_char (CHR ''?'') p))"
  using assms by (auto simp: keep_path_def clean_path_eq Let_def split: if_splits)


definition sample_page :: soup where
  "sample_page = [(''base'', [(''href'', AttrText ''/app/'')]),
     (''a'', [(''href'', AttrText ''list?x=1#top''), (''class'', AttrWords [''b''])]),
     (''img'', [(''src'', AttrText ''logo.png''), (''srcset'', AttrText ''https://cdn/x 1x, big/img 2x'')])]"


text \<open>Candidates of \<open>srcset\<close>, each a URL and its descriptor, are read as their URLs.\<close>

definition candidate_text :: "string \<times> string \<Rightarrow> string" where
  "candidate_text c = fst c @ (if snd c = [] then [] else '' '' @ snd c)"

definition candidate_ok :: "string \<times> string \<Rightarrow> bool" where
  "candidate_ok c \<longleftrightarrow>
     fst c \<noteq> [] \<and> list_all (\<lambda>x. \<not> ascii_space x) (fst c) \<and> hd (fst c) \<noteq> CHR '','' \<and> last (fst c) \<noteq> CHR '','' \<and>
     list_all (\<lambda>x. x \<noteq> CHR '','' \<and> x \<noteq> CHR ''('') (snd c)"

lemma skip_to_comma: "list_all (\<lambda>x. x \<noteq> CHR '','' \<and> x \<noteq> CHR ''('') d \<Longrightarrow> skip_descriptors 0 (d @ CHR '','' # s) = s"
  by (induction d) auto

lemma skip_all: "list_all (\<lambda>x. x \<noteq> CHR '','' \<and> x \<noteq> CHR ''('') d \<Longrightarrow> skip_descriptors 0 d = []"
  by (induction d) auto

lemma srcset_space: "srcset_urls (CHR '' '' # s) = srcset_urls s"
  by (subst (1 2) srcset_urls.simps) (simp add: ascii_space_def)

lemma srcset_token:
  assumes "candidate_ok (u, d)" "more_text = [] \<or> ascii_space (hd more_text)"
  shows "srcset_urls (u @ more_text) = u # srcset_urls (skip_descriptors 0 more_text)"
    "srcset_urls (u @ CHR '','' # more_text) = u # srcset_urls more_text"
proof -
  have u: "u \<noteq> []" "\<forall>x \<in> set u. \<not> ascii_space x" "hd u \<noteq> CHR '',''" "last u \<noteq> CHR '',''"
    using assms(1) by (auto simp: candidate_ok_def list_all_iff)
  have start: "dropWhile (\<lambda>c. ascii_space c \<or> c = CHR '','') (u @ t) = u @ t" for t
    using u by (cases u) auto
  have comma: "\<not> ascii_space (CHR '','')" by (simp add: ascii_space_def)
  have stop: "takeWhile (\<lambda>c. \<not> ascii_space c) more_text = []" "dropWhile (\<lambda>c. \<not> ascii_space c) more_text = more_text"
    using assms(2) by (cases more_text; simp)+
  have t1: "takeWhile (\<lambda>c. \<not> ascii_space c) (u @ more_text) = u" "dropWhile (\<lambda>c. \<not> ascii_space c) (u @ more_text) = more_text"
    using u(2) stop by (simp_all add: takeWhile_append2 dropWhile_append2)
  have t2: "takeWhile (\<lambda>c. \<not> ascii_space c) (u @ CHR '','' # more_text) = u @ '',''"
    "dropWhile (\<lambda>c. \<not> ascii_space c) (u @ CHR '','' # more_text) = more_text"
    using u(2) stop comma by (simp_all add: takeWhile_append2 dropWhile_append2)
  have no: "\<not> ends_with u '',''" using u(1,4) by (simp add: ends_with_single)
  show "srcset_urls (u @ more_text) = u # srcset_urls (skip_descriptors 0 more_text)"
    using u(1) no by (subst srcset_urls.simps) (simp add: start t1 Let_def)
  have strip: "rstrip_char (CHR '','') (u @ '','') = u"
    using u(1,4) by (cases u rule: rev_cases) (auto simp: rstrip_p_def)
  have yes: "ends_with (u @ '','') '',''" by simp
  show "srcset_urls (u @ CHR '','' # more_text) = u # srcset_urls more_text"
    using u(1) yes by (subst srcset_urls.simps) (simp add: start t2 strip Let_def)
qed

text \<open>The source sets of a page are read as written: any list of candidates, with or without
  descriptors, joined by commas and spaces gives back the URLs of the candidates, commas inside the URLs
  included.\<close>
theorem srcset_read_back:
  assumes "list_all candidate_ok cs"
  shows "srcset_urls (join '', '' (map candidate_text cs)) = map fst cs"
  using assms
proof (induction cs)
  case Nil then show ?case by (simp add: srcset_urls.simps)
next
  case (Cons c cs)
  obtain u d where c: "c = (u, d)" by (cases c)
  from Cons.prems c have good: "candidate_ok (u, d)" "list_all candidate_ok cs" by simp_all
  then have ok: "candidate_ok (u, d)" "list_all candidate_ok cs" "list_all (\<lambda>x. x \<noteq> CHR '','' \<and> x \<noteq> CHR ''('') d"
    by (simp_all add: candidate_ok_def)
  have space: "ascii_space (CHR '' '')" by (simp add: ascii_space_def)
  show ?case
  proof (cases cs)
    case Nil
    show ?thesis
    proof (cases "d = []")
      case True
      with c Nil srcset_token(1) [OF ok(1), of "[]"] show ?thesis by (simp add: candidate_text_def srcset_urls.simps [of "[]"])
    next
      case False
      with c Nil srcset_token(1) [OF ok(1), of "CHR '' '' # d"] space ok(3) show ?thesis
        by (simp add: candidate_text_def skip_all srcset_urls.simps [of "[]"])
    qed
  next
    case (Cons c2 cs2)
    let ?more = "join '', '' (map candidate_text cs)"
    have j: "join '', '' (map candidate_text (c # cs)) = candidate_text c @ '', '' @ ?more" using Cons by simp
    show ?thesis
    proof (cases "d = []")
      case True
      with c srcset_token(2) [OF ok(1), of "CHR '' '' # ?more"] space Cons.IH [OF ok(2)] show ?thesis
        unfolding j by (simp add: candidate_text_def srcset_space)
    next
      case False
      have "srcset_urls (u @ CHR '' '' # d @ CHR '','' # CHR '' '' # ?more) = u # srcset_urls (CHR '' '' # ?more)"
        using srcset_token(1) [OF ok(1), of "CHR '' '' # d @ CHR '','' # CHR '' '' # ?more"] space ok(3)
        by (simp add: skip_to_comma)
      with c False Cons.IH [OF ok(2)] show ?thesis unfolding j by (simp add: candidate_text_def [of "(u, d)"] srcset_space)
    qed
  qed
qed

theorem srcset_read_back_witness:
  "srcset_urls ''a,b.png, c.png 2x, d.png'' = [''a,b.png'', ''c.png'', ''d.png'']"
proof -
  have "list_all candidate_ok [(''a,b.png'', []), (''c.png'', ''2x''), (''d.png'', [])]" by code_simp
  from srcset_read_back [OF this] show ?thesis by (simp add: candidate_text_def)
qed

end
