(* ===== verification/Stealth.thy ===== *)
theory Stealth
  imports Complex_Main PyStr
begin

text \<open>
  The random words the wildcard scanners ask for (\<open>lib/utils/random.py\<close>): candidates drawn from a
  bank or made up of syllables, accepted only when they look like the name of a resource nobody has.
  The generator of random numbers is a parameter, a record of the methods of \<open>random.Random\<close> the
  code calls (a choice and a sample of \<open>n\<close> elements are given as positions below \<open>n\<close>).  The entropy bound 3.95 is decided by an exact
  comparison of integers, which is proved to be the comparison of the real entropy.
\<close>

record 'w rng_lib =
  rng_randint :: "int \<Rightarrow> int \<Rightarrow> 'w \<Rightarrow> int \<times> 'w"
  rng_choice :: "nat \<Rightarrow> 'w \<Rightarrow> nat \<times> 'w"
  rng_sample :: "nat \<Rightarrow> nat \<Rightarrow> 'w \<Rightarrow> nat list \<times> 'w"
  rng_random :: "'w \<Rightarrow> rat \<times> 'w"

section \<open>The word lists\<close>

definition stealth_separators :: "char list" where
  "stealth_separators = [CHR ''-'', CHR ''_'']"

definition common_directories :: "string list" where
  "common_directories = [''admin'', ''backup'', ''api'', ''test'']"

definition word_bank :: "string list" where
  "word_bank =
     [''cyberfluxion'', ''luminastra'', ''aerolithic'', ''peltorian'', ''chronometral'',
      ''syncorance'', ''neosphereic'', ''cryptogenoid'', ''polysystive'', ''megastatary'',
      ''hyperlogism'', ''omnitechant'', ''exovalable'', ''tectomatence'',
      ''quantgraphify'', ''dynasecize'', ''vibrmorphate'', ''plasmnetous'',
      ''xenotechity'', ''mechnomium'', ''cybermetrical'', ''lumiphonate'', ''aerologize'',
      ''peltogenable'', ''chronosystive'', ''syntechant'', ''neonomable'',
      ''cryptovalence'', ''polycorant'', ''megasphereic'', ''hypernetoid'',
      ''omnimatary'', ''exosecize'', ''tectgraphate'', ''quantmorphify'', ''dynastatous'',
      ''vibrmetrity'', ''plasmfluxium'', ''xenolithism'', ''mechnasian'',
      ''cybercorance'', ''luminetence'', ''aerosystant'', ''peltotechity'',
      ''chrononomium'', ''synvalism'', ''neocoroid'', ''cryptosphereary'',
      ''polymathate'', ''meganetize'', ''hypersecify'', ''omnigraphive'', ''exostatable'',
      ''tectmorphance'', ''quantfluxence'', ''dynalithant'', ''vibrmetrent'',
      ''plasmphonate'', ''xenologize'', ''mechnomify'', ''cybervalive'', ''lumicorable'',
      ''aerosystance'', ''peltotechent'', ''chrononomant'', ''synvality'', ''neocorium'',
      ''cryptosphereism'', ''polymathoid'', ''meganetary'', ''hypersecate'',
      ''omnigraphize'', ''exostatify'', ''tectmorphive'', ''quantfluxable'',
      ''dynalithance'', ''vibrmetrence'', ''plasmphonant'', ''xenologent'',
      ''mechnomtra'', ''cyberfluxian'', ''lumilithic'', ''aerometral'', ''peltophonous'',
      ''chronographity'', ''synstatium'', ''neologism'', ''polysphereary'',
      ''megatronate'', ''hypermatize'', ''omnisecify'', ''exocorive'', ''tectnetable'',
      ''quantvalance'', ''dynanomence'', ''vibrtechant'', ''plasmsysent'', ''xenonasal'',
      ''mechnomous'', ''cybermetrity'', ''lumiphonary'', ''aerographize'',
      ''peltostative'', ''chronologable'', ''synmorphance'', ''neogenent'',
      ''cryptosphereant'', ''polytronent'', ''megamatous'', ''hypersystic'',
      ''omnisecian'', ''exocoral'', ''tectnetous'', ''quantvality'', ''dynanomium'',
      ''vibrtechism'', ''plasmsysoid'', ''xenonastive'', ''mechnomable'',
      ''cyberfluxance'', ''lumilithical'', ''aerometrous'', ''peltophonium'',
      ''chronography'', ''synstatize'', ''neologify'', ''cryptogenive'',
      ''polyspherable'', ''megatronance'', ''hypermatence'', ''omnisecant'',
      ''exocorent'', ''tectnetant'', ''quantvalent'', ''dynanomity'', ''vibrtechium'',
      ''plasmsysism'', ''xenonasoid'', ''mechnomary'', ''cyberfluxate'', ''lumilithize'',
      ''aerometrify'', ''peltophonic'', ''chronographal'', ''synstatous'', ''neologity'',
      ''cryptogenium'', ''polysphereism'', ''megatronoid'', ''hypermatary'',
      ''omnisecate'', ''exocortra'', ''tectnetion'', ''quantvalian'', ''dynanomic'',
      ''vibrtechal'', ''plasmsysous'', ''xenonasity'', ''cyberfluxize'', ''lumilithify'',
      ''aerometrive'', ''peltophonable'', ''chronographance'', ''synstatence'',
      ''neologant'', ''cryptogenent'', ''polyspherentra'', ''megatronion'',
      ''hypermatian'', ''omnisecic'']"

definition onsets :: "string list" where
  "onsets =
     [''l'', ''m'', ''n'', ''p'', ''r'', ''s'', ''t'', ''v'', ''c'', ''cl'', ''cr'',
      ''pl'', ''pr'', ''st'', ''tr'', ''vr'']"

definition nuclei :: "string list" where
  "nuclei = [''a'', ''e'', ''i'', ''o'', ''u'', ''ae'', ''ai'', ''ia'', ''io'', ''ou'']"

definition codas :: "string list" where
  "codas = [''l'', ''m'', ''n'', ''r'', ''s'', ''t'', ''v'', ''c'', ''nt'', ''rn'', ''st'']"

definition word_suffixes :: "string list" where
  "word_suffixes =
     [''al'', ''an'', ''ar'', ''en'', ''ic'', ''in'', ''or'', ''um'', ''ian'', ''ion'',
      ''ium'', ''ora'', ''ory'']"

section \<open>The generator\<close>

record 'w stealth =
  sg_rng :: 'w
  sg_word_bank :: "string list"
  sg_short_word_bank :: "string list"
  sg_seen :: "string set"

definition new_stealth ::
  "('s option \<Rightarrow> 'w) \<Rightarrow> 's option \<Rightarrow> 'w option \<Rightarrow> string list \<Rightarrow> 'w stealth result" where
  "new_stealth random_of seed rng bank =
     (if seed \<noteq> None \<and> rng \<noteq> None then Inl (ValueError ''seed and rng are mutually exclusive'')
      else Inr \<lparr>sg_rng = (case rng of Some r \<Rightarrow> r | None \<Rightarrow> random_of seed), sg_word_bank = bank,
                sg_short_word_bank = filter (\<lambda>w. length w \<le> 10) bank, sg_seen = {}\<rparr>)"

definition draw :: "('w \<Rightarrow> 'a \<times> 'w) \<Rightarrow> ('w stealth, 'a) io" where
  "draw f g = (case f (sg_rng g) of (x, r) \<Rightarrow> (Inr x, g\<lparr>sg_rng := r\<rparr>))"

definition pick :: "'w rng_lib \<Rightarrow> 'a list \<Rightarrow> ('w stealth, 'a) io" where
  "pick lib xs = io_bind (draw (rng_choice lib (length xs))) (\<lambda>i. ret (xs ! i))"

text \<open>One attempt at a word of syllables.\<close>

definition pseudo_attempt :: "'w rng_lib \<Rightarrow> ('w stealth, string) io" where
  "pseudo_attempt lib =
     io_bind (pick lib onsets) (\<lambda>a. io_bind (pick lib nuclei) (\<lambda>b.
     io_bind (pick lib codas) (\<lambda>c. io_bind (draw (rng_random lib)) (\<lambda>p.
     io_bind (if p < 3 / 4
              then io_bind (pick lib onsets) (\<lambda>d. io_bind (pick lib nuclei) (\<lambda>e. ret (d @ e)))
              else ret []) (\<lambda>middle.
     io_bind (pick lib word_suffixes) (\<lambda>s. ret (a @ b @ c @ middle @ s)))))))"

fun pseudo_word_within :: "nat \<Rightarrow> 'w rng_lib \<Rightarrow> nat \<Rightarrow> nat \<Rightarrow> ('w stealth, string) io" where
  "pseudo_word_within 0 lib low high = ret ''loravian''"
| "pseudo_word_within (Suc n) lib low high =
     io_bind (pseudo_attempt lib) (\<lambda>w.
       if low \<le> length w \<and> length w \<le> high \<and> w \<notin> set common_directories then ret w
       else pseudo_word_within n lib low high)"

definition pseudo_word :: "'w rng_lib \<Rightarrow> nat \<Rightarrow> nat \<Rightarrow> ('w stealth, string) io" where
  "pseudo_word = pseudo_word_within 100"

fun pseudo_words :: "nat \<Rightarrow> 'w rng_lib \<Rightarrow> nat \<Rightarrow> nat \<Rightarrow> ('w stealth, string list) io" where
  "pseudo_words 0 lib low high = ret []"
| "pseudo_words (Suc n) lib low high =
     io_bind (pseudo_word lib low high) (\<lambda>w.
     io_bind (pseudo_words n lib low high) (\<lambda>ws. ret (w # ws)))"

text \<open>\<open>sample\<close> raises \<open>ValueError\<close> for a bank that is too small; then the words are made up.\<close>

definition candidate_from_bank :: "'w rng_lib \<Rightarrow> nat \<Rightarrow> char \<Rightarrow> ('w stealth, string) io" where
  "candidate_from_bank lib word_count separator g =
     (let bank = (if word_count = 3 then sg_short_word_bank g else sg_word_bank g) in
      io_bind
        (if word_count \<le> length bank
         then io_bind (draw (rng_sample lib (length bank) word_count)) (\<lambda>ks. ret (map (\<lambda>i. bank ! i) ks))
         else if word_count = 2 then pseudo_words word_count lib 7 13
         else pseudo_words word_count lib 5 9)
        (\<lambda>ws. ret (join [separator] ws)) g)"

section \<open>What is accepted\<close>

definition char_counts :: "string \<Rightarrow> nat list" where
  "char_counts s = map (count_list s) (remdups s)"

definition shannon_entropy :: "string \<Rightarrow> real" where
  "shannon_entropy s =
     - (\<Sum>n \<leftarrow> char_counts s. real n / real (length s) * log 2 (real n / real (length s)))"

text \<open>\<open>shannon_entropy s \<ge> 3.95\<close> without logarithms, see \<open>entropy_at_least_iff\<close>.\<close>

definition entropy_at_least_395 :: "string \<Rightarrow> bool" where
  "entropy_at_least_395 s \<longleftrightarrow>
     2 ^ (79 * length s) * (\<Prod>n \<leftarrow> char_counts s. int n ^ (20 * n)) \<le> int (length s) ^ (20 * length s)"

definition is_separator :: "char \<Rightarrow> bool" where
  "is_separator c \<longleftrightarrow> c \<in> set stealth_separators"

definition is_valid :: "string set \<Rightarrow> string \<Rightarrow> string set \<Rightarrow> bool" where
  "is_valid seen candidate omitted =
     (if candidate \<in> seen \<or> candidate \<in> omitted then False
      else if \<not> (15 \<le> length candidate \<and> length candidate \<le> 30) then False
      else if is_separator (hd candidate) \<or> is_separator (last candidate) then False
      else if contains candidate ''--'' \<or> contains candidate ''__'' \<or>
              contains candidate ''-_'' \<or> contains candidate ''_-'' then False
      else if list_ex (\<lambda>c. \<not> (is_lower c \<or> is_separator c)) candidate then False
      else if entropy_at_least_395 candidate then False
      else (let ws = split_at is_separator candidate in
            (length ws = 2 \<or> length ws = 3) \<and>
            list_all (\<lambda>w. w \<noteq> [] \<and> w \<notin> set common_directories) ws))"

fun generate_within :: "nat \<Rightarrow> 'w rng_lib \<Rightarrow> string set \<Rightarrow> ('w stealth, string) io" where
  "generate_within 0 lib omitted = raise (RuntimeError ''Unable to generate a stealth calibration word'')"
| "generate_within (Suc n) lib omitted =
     io_bind (draw (rng_randint lib 2 3)) (\<lambda>word_count.
     io_bind (pick lib stealth_separators) (\<lambda>separator.
     io_bind (candidate_from_bank lib (nat word_count) separator) (\<lambda>candidate g.
       if \<not> is_valid (sg_seen g) candidate omitted then generate_within n lib omitted g
       else (Inr candidate, g\<lparr>sg_seen := insert candidate (sg_seen g)\<rparr>))))"

text \<open>\<open>None\<close>, one word or an iterable of words.\<close>

definition normalize_omit :: "(string + string list) option \<Rightarrow> string set" where
  "normalize_omit omit = (case omit of None \<Rightarrow> {} | Some (Inl w) \<Rightarrow> {w} | Some (Inr ws) \<Rightarrow> set ws)"

definition stealth_word :: "'w rng_lib \<Rightarrow> (string + string list) option \<Rightarrow> ('w stealth, string) io" where
  "stealth_word lib omit = generate_within 1000 lib (normalize_omit omit)"

text \<open>The calls of a run, whatever each of them gives.\<close>

fun stealth_calls ::
  "'w rng_lib \<Rightarrow> (string + string list) option list \<Rightarrow> 'w stealth \<Rightarrow> string result list \<times> 'w stealth" where
  "stealth_calls lib [] g = ([], g)"
| "stealth_calls lib (omit # omits) g =
     (case stealth_word lib omit g of (r, g') \<Rightarrow>
        (case stealth_calls lib omits g' of (rs, g'') \<Rightarrow> (r # rs, g'')))"

text \<open>\<open>rand_string\<close>: the characters left for it are the letters and digits not omitted.  The order
  of a Python set is a parameter.\<close>

definition rand_alphabet :: "string" where
  "rand_alphabet = ''abcdefghijklmnopqrstuvwxyzABCDEFGHIJKLMNOPQRSTUVWXYZ0123456789''"

fun random_chars :: "nat \<Rightarrow> 'w rng_lib \<Rightarrow> string \<Rightarrow> 'w \<Rightarrow> string result \<times> 'w" where
  "random_chars 0 lib seq w = (Inr [], w)"
| "random_chars (Suc n) lib seq w =
     (if seq = [] then (Inl IndexError, w)
      else (case rng_choice lib (length seq) w of (i, w') \<Rightarrow>
        (case random_chars n lib seq w' of
           (Inl e, w'') \<Rightarrow> (Inl e, w'')
         | (Inr s, w'') \<Rightarrow> (Inr (seq ! i # s), w''))))"

definition rand_string ::
  "(char set \<Rightarrow> string) \<Rightarrow> 'w rng_lib \<Rightarrow> nat \<Rightarrow> string option \<Rightarrow> 'w \<Rightarrow> string result \<times> 'w" where
  "rand_string set_order lib n omit =
     (let seq = (case omit of
        Some (c # cs) \<Rightarrow> set_order (set rand_alphabet - set (c # cs))
      | _ \<Rightarrow> rand_alphabet)
      in random_chars n lib seq)"

section \<open>The entropy bound\<close>

lemma count_list_remdups_sum: "(\<Sum>c \<leftarrow> remdups s. count_list s c) = length s"
  using sum_count_set [of s "set s"] by (simp add: sum_list_distinct_conv_sum_set)

lemma sum_char_counts: "sum_list (char_counts s) = length s"
  by (simp add: char_counts_def count_list_remdups_sum)

lemma char_counts_pos: "n \<in> set (char_counts s) \<Longrightarrow> 0 < n"
  by (auto simp: char_counts_def count_list_0_iff intro!: Nat.gr0I)

lemma log_prod_powers:
  assumes "\<forall>n \<in> set ns. 0 < n"
  shows "log 2 (\<Prod>n \<leftarrow> ns. real n ^ (20 * n)) = 20 * (\<Sum>n \<leftarrow> ns. real n * log 2 (real n))"
    and "0 < (\<Prod>n \<leftarrow> ns. real n ^ (20 * n))"
  using assms by (induction ns) (auto simp: log_mult log_nat_power algebra_simps)

lemma shannon_entropy_alt:
  assumes "s \<noteq> []"
  shows "real (length s) * shannon_entropy s =
    real (length s) * log 2 (real (length s)) - (\<Sum>n \<leftarrow> char_counts s. real n * log 2 (real n))"
proof -
  let ?l = "real (length s)"
  have l: "0 < ?l" using assms by simp
  have step: "?l * (real n / ?l * log 2 (real n / ?l)) = real n * log 2 (real n) - real n * log 2 ?l"
    if "0 < n" for n using that l by (simp add: log_divide right_diff_distrib)
  have "?l * (\<Sum>n \<leftarrow> ns. real n / ?l * log 2 (real n / ?l)) =
      (\<Sum>n \<leftarrow> ns. real n * log 2 (real n)) - real (sum_list ns) * log 2 ?l"
    if "\<forall>n \<in> set ns. 0 < n" for ns
    using that
  proof (induction ns)
    case (Cons n ns)
    then show ?case by (simp add: step distrib_left distrib_right del: times_divide_eq_left times_divide_eq_right)
  qed simp
  from this [of "char_counts s"] show ?thesis
    by (simp add: shannon_entropy_def sum_char_counts char_counts_pos)
qed

lemma entropy_at_least_iff:
  assumes "s \<noteq> []"
  shows "entropy_at_least_395 s \<longleftrightarrow> 395 / 100 \<le> shannon_entropy s"
proof -
  let ?l = "length s" and ?P = "\<Prod>n \<leftarrow> char_counts s. real n ^ (20 * n)"
    and ?S = "\<Sum>n \<leftarrow> char_counts s. real n * log 2 (real n)"
  have l: "0 < real ?l" using assms by simp
  have P: "log 2 ?P = 20 * ?S" "0 < ?P"
    using log_prod_powers [of "char_counts s"] char_counts_pos by blast+
  have cast: "real_of_int (\<Prod>n \<leftarrow> ns. int n ^ (20 * n)) = (\<Prod>n \<leftarrow> ns. real n ^ (20 * n))" for ns
    by (induction ns) auto
  have "entropy_at_least_395 s \<longleftrightarrow> 2 ^ (79 * ?l) * ?P \<le> real ?l ^ (20 * ?l)"
    unfolding entropy_at_least_395_def
    by (subst of_int_le_iff [where 'a = real, symmetric]) (simp add: cast)
  also have "\<dots> \<longleftrightarrow> log 2 (2 ^ (79 * ?l) * ?P) \<le> log 2 (real ?l ^ (20 * ?l))"
    using l P(2) by (subst log_le_cancel_iff) auto
  also have "\<dots> \<longleftrightarrow> 79 * real ?l + 20 * ?S \<le> 20 * (real ?l * log 2 (real ?l))"
    using l P by (simp add: log_mult log_nat_power algebra_simps)
  also have "\<dots> \<longleftrightarrow> 79 * real ?l \<le> 20 * (real ?l * shannon_entropy s)"
    using shannon_entropy_alt [OF assms] by linarith
  also have "\<dots> \<longleftrightarrow> real ?l * (395 / 100) \<le> real ?l * shannon_entropy s"
    by linarith
  also have "\<dots> \<longleftrightarrow> 395 / 100 \<le> shannon_entropy s"
    using l by simp
  finally show ?thesis .
qed

section \<open>Every word is new and looks like nothing that exists\<close>

text \<open>Drawing never raises and leaves the words given out alone.\<close>

definition draws_only :: "('w stealth, 'a) io \<Rightarrow> bool" where
  "draws_only m \<longleftrightarrow> (\<forall>g. \<exists>x h. m g = (Inr x, h) \<and> sg_seen h = sg_seen g)"

lemma draws_onlyE:
  assumes "draws_only m"
  obtains x h where "m g = (Inr x, h)" "sg_seen h = sg_seen g"
  using assms unfolding draws_only_def by blast

lemma draws_only_basic [intro, simp]:
  "draws_only (ret x)"
  "draws_only (draw f)"
  "draws_only (pick lib xs)"
  by (auto simp: draws_only_def ret_def draw_def pick_def io_bind_def split: prod.splits)

lemma draws_only_bind [intro]:
  assumes "draws_only m" "\<And>x. draws_only (f x)"
  shows "draws_only (io_bind m f)"
  unfolding draws_only_def
proof
  fix g
  obtain x h where "m g = (Inr x, h)" "sg_seen h = sg_seen g" by (rule draws_onlyE [OF assms(1)])
  moreover obtain y k where "f x h = (Inr y, k)" "sg_seen k = sg_seen h" by (rule draws_onlyE [OF assms(2)])
  ultimately show "\<exists>x h. io_bind m f g = (Inr x, h) \<and> sg_seen h = sg_seen g" by (simp add: io_bind_def)
qed

lemma draws_only_pseudo_words: "draws_only (pseudo_words n lib low high)"
proof -
  have attempt: "draws_only (pseudo_attempt lib)"
    unfolding pseudo_attempt_def by (intro draws_only_bind draws_only_basic) (auto intro!: draws_only_bind)
  have "draws_only (pseudo_word_within k lib low high)" for k
    by (induction k) (auto intro!: draws_only_bind attempt)
  then have word: "draws_only (pseudo_word lib low high)" by (simp add: pseudo_word_def)
  show ?thesis by (induction n) (auto intro!: draws_only_bind word)
qed

lemma draws_only_candidate: "draws_only (candidate_from_bank lib k c)"
  unfolding draws_only_def
proof
  fix g
  have "draws_only (io_bind (if b then io_bind (draw f) (\<lambda>ks. ret (h ks))
      else if k = 2 then pseudo_words k lib 7 13 else pseudo_words k lib 5 9) (\<lambda>ws. ret (join [c] ws)))"
    for b f and h :: "nat list \<Rightarrow> string list" by (auto intro!: draws_only_bind draws_only_pseudo_words)
  then show "\<exists>x h. candidate_from_bank lib k c g = (Inr x, h) \<and> sg_seen h = sg_seen g"
    unfolding candidate_from_bank_def Let_def draws_only_def by blast
qed

abbreviation no_stealth_word :: exc where
  "no_stealth_word \<equiv> RuntimeError ''Unable to generate a stealth calibration word''"

lemma generate_within_cases:
  "\<exists>h. generate_within n lib omitted g = (Inl no_stealth_word, h) \<and> sg_seen h = sg_seen g \<or>
     (\<exists>w. generate_within n lib omitted g = (Inr w, h) \<and>
        is_valid (sg_seen g) w omitted \<and> sg_seen h = insert w (sg_seen g))"
proof (induction n arbitrary: g)
  case 0
  show ?case by (simp add: raise_def)
next
  case (Suc n)
  obtain k g1 where d: "draw (rng_randint lib 2 3) g = (Inr k, g1)" "sg_seen g1 = sg_seen g"
    by (rule draws_onlyE [OF draws_only_basic(2)])
  obtain c g2 where p: "pick lib stealth_separators g1 = (Inr c, g2)" "sg_seen g2 = sg_seen g1"
    by (rule draws_onlyE [OF draws_only_basic(3)])
  obtain w g3 where b: "candidate_from_bank lib (nat k) c g2 = (Inr w, g3)" "sg_seen g3 = sg_seen g2"
    by (rule draws_onlyE [OF draws_only_candidate])
  show ?case using Suc [of g3] d p b by (auto simp: io_bind_def)
qed

definition stealth_shape :: "string \<Rightarrow> bool" where
  "stealth_shape w \<longleftrightarrow>
     15 \<le> length w \<and> length w \<le> 30 \<and> shannon_entropy w < 395 / 100 \<and>
     length (split_at is_separator w) \<in> {2, 3} \<and>
     (\<forall>v \<in> set (split_at is_separator w).
        v \<noteq> [] \<and> v \<notin> set common_directories \<and> (\<forall>c \<in> set v. is_lower c))"

lemma is_validD:
  assumes "is_valid seen w omitted"
  shows "w \<notin> seen" "w \<notin> omitted" "stealth_shape w"
proof -
  show "w \<notin> seen" "w \<notin> omitted" using assms by (simp_all add: is_valid_def split: if_splits)
  have l: "15 \<le> length w" "length w \<le> 30" and e: "\<not> entropy_at_least_395 w"
    and c: "\<forall>c \<in> set w. is_lower c \<or> is_separator c"
    and s: "length (split_at is_separator w) \<in> {2, 3}"
      "\<forall>v \<in> set (split_at is_separator w). v \<noteq> [] \<and> v \<notin> set common_directories"
    using assms by (simp_all add: is_valid_def Let_def list_ex_iff list_all_iff split: if_splits)
  have "w \<noteq> []" using l by auto
  then have "shannon_entropy w < 395 / 100" using e entropy_at_least_iff by fastforce
  moreover have "\<forall>v \<in> set (split_at is_separator w). \<forall>x \<in> set v. is_lower x"
    using c split_at_fields by blast
  ultimately show "stealth_shape w" using l s unfolding stealth_shape_def by blast
qed

definition words_given :: "string result list \<Rightarrow> string list" where
  "words_given rs = concat (map (case_sum (\<lambda>_. []) (\<lambda>w. [w])) rs)"

text \<open>What one call gives is right for its own omissions.\<close>

definition call_right :: "(string + string list) option \<Rightarrow> string result \<Rightarrow> bool" where
  "call_right omit r =
     (case r of Inl e \<Rightarrow> e = no_stealth_word | Inr w \<Rightarrow> w \<notin> normalize_omit omit \<and> stealth_shape w)"

text \<open>C40: Whatever the source of random numbers does, the words handed out over all the calls of a
  run are pairwise different and none was handed out before; each call gives a word it was not told
  to omit, of 15 to 30 characters, two or three words of lower case letters with a separator between
  them, none the name of a common directory, of an entropy below 3.95, or raises after its
  attempts.\<close>

theorem stealth_words_are_fresh:
  "distinct (words_given (fst (stealth_calls lib omits g))) \<and>
   set (words_given (fst (stealth_calls lib omits g))) \<inter> sg_seen g = {} \<and>
   sg_seen (snd (stealth_calls lib omits g)) = sg_seen g \<union> set (words_given (fst (stealth_calls lib omits g))) \<and>
   list_all2 call_right omits (fst (stealth_calls lib omits g))"
proof (induction omits arbitrary: g)
  case Nil
  show ?case by (simp add: words_given_def)
next
  case (Cons omit omits)
  obtain r h where c: "stealth_word lib omit g = (r, h)" by (cases "stealth_word lib omit g")
  have r: "r = Inl no_stealth_word \<and> sg_seen h = sg_seen g \<or>
      (\<exists>w. r = Inr w \<and> is_valid (sg_seen g) w (normalize_omit omit) \<and> sg_seen h = insert w (sg_seen g))"
    using generate_within_cases [of 1000 lib "normalize_omit omit" g] c by (auto simp: stealth_word_def)
  obtain rs k where rs: "stealth_calls lib omits h = (rs, k)" by (cases "stealth_calls lib omits h")
  show ?case using Cons [of h] r rs c
    by (auto simp: words_given_def call_right_def dest: is_validD)
qed

text \<open>The shipped bank gives a word at the first attempt when the numbers are 2, 0 and the last two
  positions.\<close>

definition sample_rng :: "nat rng_lib" where
  "sample_rng = \<lparr>rng_randint = (\<lambda>a b w. (a, Suc w)), rng_choice = (\<lambda>n w. (0, Suc w)),
     rng_sample = (\<lambda>n k w. ([n - k..<n], Suc w)), rng_random = (\<lambda>w. (0, Suc w))\<rparr>"


lemma sample_valid: "is_valid {} ''hypermatian-omnisecic'' {}"
proof -
  have c: "char_counts ''hypermatian-omnisecic'' = [1, 1, 1, 1, 1, 2, 1, 1, 2, 2, 1, 2, 3, 2]" by code_simp
  have "\<not> entropy_at_least_395 ''hypermatian-omnisecic''"
    unfolding entropy_at_least_395_def c by simp
  moreover have "\<not> is_separator (hd ''hypermatian-omnisecic'')" "\<not> is_separator (last ''hypermatian-omnisecic'')"
    "\<not> contains ''hypermatian-omnisecic'' ''--''" "\<not> contains ''hypermatian-omnisecic'' ''__''"
    "\<not> contains ''hypermatian-omnisecic'' ''-_''" "\<not> contains ''hypermatian-omnisecic'' ''_-''"
    "\<not> list_ex (\<lambda>c. \<not> (is_lower c \<or> is_separator c)) ''hypermatian-omnisecic''"
    "split_at is_separator ''hypermatian-omnisecic'' = [''hypermatian'', ''omnisecic'']"
    by code_simp+
  ultimately show ?thesis
    by (simp add: is_valid_def common_directories_def)
qed
lemma sample_words: "length word_bank = 170" "word_bank ! 168 = ''hypermatian''" "word_bank ! 169 = ''omnisecic''"
  by code_simp+
lemma sample_run:
  "fst (stealth_calls sample_rng [None]
     \<lparr>sg_rng = 4, sg_word_bank = word_bank, sg_short_word_bank = [], sg_seen = {}\<rparr>) = [Inr ''hypermatian-omnisecic'']"
proof -
  let ?g = "\<lambda>n. \<lparr>sg_rng = n, sg_word_bank = word_bank, sg_short_word_bank = [], sg_seen = {}\<rparr> :: nat stealth"
  have d: "draw (rng_randint sample_rng 2 3) (?g 4) = (Inr 2, ?g 5)"
    by (simp add: draw_def sample_rng_def)
  have p: "pick sample_rng stealth_separators (?g 5) = (Inr (CHR ''-''), ?g 6)"
    by (simp add: pick_def draw_def sample_rng_def stealth_separators_def io_bind_def ret_def)
  have r: "[168..<170::nat] = [168, 169]" by (simp add: upt_rec)
  have b: "candidate_from_bank sample_rng 2 (CHR ''-'') (?g 6) = (Inr ''hypermatian-omnisecic'', ?g 7)"
    by (simp add: candidate_from_bank_def draw_def sample_rng_def io_bind_def ret_def sample_words r)
  have n: "(1000::nat) = Suc 999" by simp
  have "fst (stealth_word sample_rng None (?g 4)) = Inr ''hypermatian-omnisecic''"
    unfolding stealth_word_def normalize_omit_def n generate_within.simps(2)
    by (simp add: io_bind_def d p b sample_valid del: generate_within.simps split: option.splits)
  then show ?thesis by (cases "stealth_word sample_rng None (?g 4)") simp
qed

end
