(* ===== verification/Files.thy ===== *)
theory Files
  imports Wordlist
begin

text \<open>
  The file operations of \<open>lib/utils/file.py\<close> over a file system that is a map from paths to entries,
  with a table of open descriptors and a list that says which of the next system calls fail.  A write
  may stop after any number of characters.  Paths are POSIX paths; the text of a file is what its
  encoding and its line ends make of what is written, a parameter.
\<close>

section \<open>Paths\<close>

definition strip_slashes :: "string \<Rightarrow> string" where
  "strip_slashes head = (if list_all (\<lambda>c. c = CHR ''/'') head then head else rstrip_p (\<lambda>c. c = CHR ''/'') head)"

definition dirname :: "string \<Rightarrow> string" where
  "dirname p = strip_slashes (rev (dropWhile (\<lambda>c. c \<noteq> CHR ''/'') (rev p)))"

definition basename :: "string \<Rightarrow> string" where
  "basename p = rev (takeWhile (\<lambda>c. c \<noteq> CHR ''/'') (rev p))"

definition build_path_of :: "string list \<Rightarrow> string" where
  "build_path_of components = (case components of [] \<Rightarrow> [] | c # cs \<Rightarrow> foldl build_path c cs)"

fun parent :: "string \<Rightarrow> nat \<Rightarrow> string" where
  "parent path 0 = path"
| "parent path (Suc depth) = parent (dirname path) depth"

section \<open>The file system\<close>

datatype entry = Regular string | Folder | SymLink string

record fs =
  fs_entries :: "string \<Rightarrow> entry option"
  fs_open :: "(nat \<times> string) list"
  fs_next :: nat
  fs_fails :: "bool list"
  fs_writes :: "nat option list"

text \<open>A system call fails when the next mark says so.\<close>

definition syscall :: "string \<Rightarrow> (fs, 'a) io \<Rightarrow> (fs, 'a) io" where
  "syscall name act s =
     (case fs_fails s of
        [] \<Rightarrow> act s
      | failed # fails \<Rightarrow>
          if failed then raise (OSError name) (s\<lparr>fs_fails := fails\<rparr>) else act (s\<lparr>fs_fails := fails\<rparr>))"

text \<open>Links are followed as far as the system does.\<close>

fun follow :: "nat \<Rightarrow> (string \<Rightarrow> entry option) \<Rightarrow> string \<Rightarrow> string option" where
  "follow 0 m p = None"
| "follow (Suc n) m p =
     (case m p of None \<Rightarrow> None | Some (SymLink q) \<Rightarrow> follow n m q | Some _ \<Rightarrow> Some p)"

definition target_of :: "fs \<Rightarrow> string \<Rightarrow> string option" where
  "target_of s p = follow 40 (fs_entries s) p"

definition path_exists :: "fs \<Rightarrow> string \<Rightarrow> bool" where
  "path_exists s p \<longleftrightarrow> target_of s p \<noteq> None"

definition is_dir :: "fs \<Rightarrow> string \<Rightarrow> bool" where
  "is_dir s p \<longleftrightarrow> (case target_of s p of Some q \<Rightarrow> fs_entries s q = Some Folder | None \<Rightarrow> False)"

definition is_file :: "fs \<Rightarrow> string \<Rightarrow> bool" where
  "is_file s p \<longleftrightarrow> (case target_of s p of Some q \<Rightarrow> fs_entries s q \<noteq> Some Folder | None \<Rightarrow> False)"

definition is_link :: "fs \<Rightarrow> string \<Rightarrow> bool" where
  "is_link s p \<longleftrightarrow> (case fs_entries s p of Some (SymLink q) \<Rightarrow> True | _ \<Rightarrow> False)"

definition file_text :: "fs \<Rightarrow> string \<Rightarrow> string" where
  "file_text s p = (case fs_entries s p of Some (Regular t) \<Rightarrow> t | _ \<Rightarrow> [])"

definition set_entry :: "string \<Rightarrow> entry option \<Rightarrow> fs \<Rightarrow> fs" where
  "set_entry p e s = s\<lparr>fs_entries := (fs_entries s)(p := e)\<rparr>"

text \<open>Descriptors.\<close>

definition new_descriptor :: "string \<Rightarrow> (fs, nat) io" where
  "new_descriptor p s =
     (Inr (fs_next s), s\<lparr>fs_open := (fs_next s, p) # fs_open s, fs_next := Suc (fs_next s)\<rparr>)"

text \<open>A descriptor is gone after \<open>close\<close>, whether it raises or not.\<close>

definition close_descriptor :: "nat \<Rightarrow> (fs, unit) io" where
  "close_descriptor d s = syscall ''close'' (ret ()) (s\<lparr>fs_open := filter (\<lambda>x. fst x \<noteq> d) (fs_open s)\<rparr>)"

definition write_to :: "string \<Rightarrow> string \<Rightarrow> (fs, unit) io" where
  "write_to p t s =
     (case fs_writes s of
        Some n # ws \<Rightarrow>
          raise (OSError ''write'') (set_entry p (Some (Regular (file_text s p @ take n t))) (s\<lparr>fs_writes := ws\<rparr>))
      | ws \<Rightarrow> ret () (set_entry p (Some (Regular (file_text s p @ t))) (s\<lparr>fs_writes := tl ws\<rparr>)))"

definition truncate_file :: "string \<Rightarrow> nat \<Rightarrow> (fs, unit) io" where
  "truncate_file p n =
     syscall ''ftruncate'' (\<lambda>s. ret () (set_entry p (Some (Regular (take n (file_text s p)))) s))"

text \<open>\<open>try: ... finally: ...\<close>: what the second raises hides what the first raised.\<close>

definition ensure :: "('w, 'a) io \<Rightarrow> ('w, unit) io \<Rightarrow> ('w, 'a) io" where
  "ensure act end' w =
     (case act w of (r, w') \<Rightarrow> (case end' w' of (Inl e, w'') \<Rightarrow> (Inl e, w'') | (Inr _, w'') \<Rightarrow> (r, w'')))"

abbreviation file_not_found :: exc where
  "file_not_found \<equiv> OSError ''No such file or directory''"

section \<open>Simple operations\<close>

text \<open>\<open>can_write\<close>: the loop over the parents need not end, so not returning is \<open>None\<close>; \<open>writable\<close> is
  what \<open>os.access(path, os.W_OK)\<close> says.\<close>

partial_function (option) existing_parent :: "(string \<Rightarrow> bool) \<Rightarrow> string \<Rightarrow> string option" where
  "existing_parent present path = (if present path then Some path else existing_parent present (dirname path))"

definition can_write_file :: "(string \<Rightarrow> bool) \<Rightarrow> fs \<Rightarrow> string \<Rightarrow> bool option" where
  "can_write_file writable s path = map_option writable (existing_parent (path_exists s) path)"

definition is_empty_file :: "fs \<Rightarrow> string \<Rightarrow> bool result" where
  "is_empty_file s p =
     (case target_of s p of
        None \<Rightarrow> Inl file_not_found
      | Some q \<Rightarrow> Inr (file_text s q = []))"

definition read_bytes :: "string \<Rightarrow> (fs, string) io" where
  "read_bytes p =
     syscall ''open'' (\<lambda>s. case target_of s p of
         None \<Rightarrow> raise file_not_found s
       | Some q \<Rightarrow> (case fs_entries s q of
             Some (Regular t) \<Rightarrow> ret t s
           | _ \<Rightarrow> raise (OSError ''open'') s))"

definition read_text :: "(string \<Rightarrow> string result) \<Rightarrow> string \<Rightarrow> (fs, string) io" where
  "read_text decode p = io_bind (read_bytes p) (\<lambda>b s. (decode b, s))"

definition file_lines :: "(string \<Rightarrow> string) \<Rightarrow> string \<Rightarrow> (fs, string list) io" where
  "file_lines decode_replacing p = io_bind (read_bytes p) (\<lambda>b. ret (splitlines (decode_replacing b)))"

definition remove_file :: "string \<Rightarrow> (fs, unit) io" where
  "remove_file p =
     syscall ''unlink'' (\<lambda>s. case fs_entries s p of
         None \<Rightarrow> raise file_not_found s
       | Some Folder \<Rightarrow> raise (OSError ''unlink'') s
       | Some _ \<Rightarrow> ret () (set_entry p None s))"

definition write_lines :: "(string \<Rightarrow> string result) \<Rightarrow> string \<Rightarrow> string + string list \<Rightarrow> bool \<Rightarrow> string \<Rightarrow> (fs, unit) io" where
  "write_lines encode linesep lines overwrite p =
     (let txt = (case lines of Inl t \<Rightarrow> t | Inr ls \<Rightarrow> join linesep ls) in
      io_bind (syscall ''open'' (\<lambda>s. case target_of s p of
          Some q \<Rightarrow> (if fs_entries s q = Some Folder then raise (OSError ''open'') s
                     else ret q (if overwrite then set_entry q (Some (Regular [])) s else s))
        | None \<Rightarrow> ret p (set_entry p (Some (Regular [])) s)))
      (\<lambda>q. io_bind (\<lambda>s. (encode txt, s)) (write_to q)))"

section \<open>Directories\<close>

text \<open>\<open>os.mkdir\<close> and \<open>os.makedirs(exist_ok=True)\<close>, which makes the parents first.\<close>

definition mkdir :: "string \<Rightarrow> (fs, unit) io" where
  "mkdir p =
     syscall ''mkdir'' (\<lambda>s. if p = [] then raise file_not_found s
       else if fs_entries s p \<noteq> None then raise (OSError ''File exists'') s
       else ret () (set_entry p (Some Folder) s))"

lemma length_strip_slashes: "length (strip_slashes s) \<le> length s"
  by (simp add: strip_slashes_def rstrip_p_def length_dropWhile_le order_trans [OF length_dropWhile_le])

lemma length_dirname: "length (dirname p) + length (basename p) \<le> length p"
proof -
  have "length (takeWhile P q) + length (dropWhile P q) = length q" for P :: "char \<Rightarrow> bool" and q
    by (metis length_append takeWhile_dropWhile_id)
  from this [of "\<lambda>c. c \<noteq> CHR ''/''" "rev p"] show ?thesis
    using length_strip_slashes [of "rev (dropWhile (\<lambda>c. c \<noteq> CHR ''/'') (rev p))"]
    by (simp add: dirname_def basename_def)
qed

text \<open>The last name of a path and what stands before it, a slash at the end left out.\<close>

definition split_last :: "string \<Rightarrow> string \<times> string" where
  "split_last p = (let q = (if basename p = [] then dirname p else p) in (dirname q, basename q))"

lemma split_last_shorter: "split_last p = (head, tail) \<Longrightarrow> tail \<noteq> [] \<Longrightarrow> length head < length p"
  using length_dirname [of p] length_dirname [of "dirname p"]
  by (auto simp: split_last_def Let_def split: if_splits)
     (metis add_leD1 le_add_same_cancel1 length_0_conv not_le_imp_less le_antisym order_trans add_le_same_cancel1 le_zero_eq)+

definition file_exists_error :: exc where
  "file_exists_error = OSError ''File exists''"

function makedirs :: "string \<Rightarrow> (fs, unit) io" where
  "makedirs p s =
     (case split_last p of (head, tail) \<Rightarrow>
      io_bind (\<lambda>s. if head \<noteq> [] \<and> tail \<noteq> [] \<and> \<not> path_exists s head
                   then (case makedirs head s of (r, s') \<Rightarrow> (if r = Inl file_exists_error then Inr () else r, s'))
                   else (Inr (), s))
        (\<lambda>_ s. if tail = ''.'' \<and> path_exists s p then ret () s
          else (case mkdir p s of
            (Inl e, s') \<Rightarrow> if is_dir s' p then ret () s' else raise e s'
          | r \<Rightarrow> r)) s)"
  by pat_completeness auto
termination
  by (relation "measure (\<lambda>(p, s). length p)") (auto dest: split_last_shorter [OF sym])

declare makedirs.simps [simp del]

definition create_dir :: "string \<Rightarrow> (fs, unit) io" where
  "create_dir p s = (if path_exists s p then ret () s else makedirs p s)"

text \<open>What another process does between the calls is an argument.\<close>

definition create_private_dir_raced :: "(fs \<Rightarrow> fs) \<Rightarrow> string \<Rightarrow> (fs, unit) io" where
  "create_private_dir_raced other p s =
     (if is_link s p then raise (OSError (''Refusing symbolic link: '' @ p)) s
      else io_bind (makedirs p) (\<lambda>_ s'. let s' = other s' in
        if is_link s' p then raise (OSError (''Refusing symbolic link: '' @ p)) s' else ret () s') s)"

text \<open>\<open>tempfile.mkstemp\<close>: the first of the candidate names that is free becomes an empty file.\<close>

definition mkstemp :: "string list \<Rightarrow> (fs, nat \<times> string) io" where
  "mkstemp names =
     syscall ''mkstemp'' (\<lambda>s. case filter (\<lambda>n. fs_entries s n = None) names of
         [] \<Rightarrow> raise (OSError ''No usable temporary file name found'') s
       | n # _ \<Rightarrow> io_bind (new_descriptor n) (\<lambda>d. ret (d, n)) (set_entry n (Some (Regular [])) s))"

definition create_writable_dir :: "string list \<Rightarrow> string \<Rightarrow> (fs, unit) io" where
  "create_writable_dir names p =
     io_bind (create_dir p) (\<lambda>_ s.
       if \<not> is_dir s p then raise (OSError (''Not a directory: '' @ p)) s
       else io_bind (mkstemp names) (\<lambda>(d, probe). io_bind (close_descriptor d) (\<lambda>_. remove_file probe)) s)"

text \<open>\<open>get_files\<close> over \<open>os.listdir\<close> and \<open>os.path.isdir\<close>: a directory that holds a link to itself is
  walked for ever, as far as these calls go.\<close>

partial_function (option) files_below ::
  "(string \<Rightarrow> string list result) \<Rightarrow> (string \<Rightarrow> bool) \<Rightarrow> string list \<Rightarrow> string list result option" where
  "files_below listdir isdir paths =
     (case paths of
        [] \<Rightarrow> Some (Inr [])
      | p # ps \<Rightarrow>
          Option.bind
            (if isdir p
             then (case listdir p of
                     Inl e \<Rightarrow> Some (Inl e)
                   | Inr names \<Rightarrow> files_below listdir isdir (map (build_path p) names))
             else Some (Inr [p]))
            (\<lambda>r. case r of
                   Inl e \<Rightarrow> Some (Inl e)
                 | Inr fs \<Rightarrow> Option.bind (files_below listdir isdir ps)
                     (\<lambda>r'. Some (rbind r' (\<lambda>gs. Inr (fs @ gs))))))"

definition get_files ::
  "(string \<Rightarrow> string list result) \<Rightarrow> (string \<Rightarrow> bool) \<Rightarrow> string \<Rightarrow> string list result option" where
  "get_files listdir isdir directory =
     (case listdir directory of
        Inl e \<Rightarrow> Some (Inl e)
      | Inr names \<Rightarrow> files_below listdir isdir (map (build_path directory) names))"

section \<open>Private files\<close>

text \<open>\<open>os.open\<close> for append without following a link.\<close>

definition open_binary_append :: "string \<Rightarrow> (fs, nat) io" where
  "open_binary_append p s =
     (if is_link s p then raise (OSError (''Refusing symbolic link: '' @ p)) s
      else syscall ''open'' (\<lambda>s. case fs_entries s p of
          Some (Regular t) \<Rightarrow> new_descriptor p s
        | None \<Rightarrow> new_descriptor p (set_entry p (Some (Regular [])) s)
        | _ \<Rightarrow> raise (OSError ''open'') s) s)"

text \<open>\<open>with os.fdopen(...) as f: f.write(data)\<close> once \<open>fdopen\<close> has taken the descriptor over.\<close>

definition write_and_close :: "(string \<Rightarrow> string result) \<Rightarrow> nat \<Rightarrow> string \<Rightarrow> string list \<Rightarrow> (fs, unit) io" where
  "write_and_close encode d p texts =
     ensure (io_bind (\<lambda>s. (rmap encode texts, s)) (\<lambda>ts. write_to p (concat ts))) (close_descriptor d)"

text \<open>A failed write is cut off again; a failure of that is passed over.\<close>

definition undo :: "string \<Rightarrow> nat \<Rightarrow> exc \<Rightarrow> (fs, unit) io" where
  "undo p old_size e s = raise e (snd (truncate_file p old_size s))"

definition append_private_text :: "(string \<Rightarrow> string result) \<Rightarrow> string \<Rightarrow> string \<Rightarrow> (fs, unit) io" where
  "append_private_text encode p txt =
     io_bind (open_binary_append p) (\<lambda>d.
       (\<lambda>s. case syscall ''fstat'' (\<lambda>s. ret (length (file_text s p)) s) s of
          (Inl e, s) \<Rightarrow> ensure (raise e) (close_descriptor d) s
        | (Inr old_size, s) \<Rightarrow>
            (case syscall ''dup'' (new_descriptor p) s of
               (Inl e, s) \<Rightarrow> ensure (raise e) (close_descriptor d) s
             | (Inr r, s) \<Rightarrow>
                 (case syscall ''fdopen'' (ret ()) s of
                    (Inl e, s) \<Rightarrow>
                      ensure (undo p old_size e) (io_bind (close_descriptor d) (\<lambda>_. close_descriptor r)) s
                  | (Inr _, s) \<Rightarrow>
                      (case write_and_close encode d p [txt] s of
                         (Inr _, s) \<Rightarrow> ensure (ret ()) (close_descriptor r) s
                       | (Inl e, s) \<Rightarrow> ensure (undo p old_size e) (close_descriptor r) s)))))"

text \<open>\<open>atomic_write_private_text\<close>: the body of the \<open>with\<close> statement writes texts and may raise.\<close>

definition replace_file :: "string \<Rightarrow> string \<Rightarrow> (fs, unit) io" where
  "replace_file from to =
     syscall ''rename'' (\<lambda>s. if fs_entries s to = Some Folder then raise (OSError ''rename'') s
       else if fs_entries s from = None then raise file_not_found s
       else ret () (set_entry from None (set_entry to (fs_entries s from) s)))"

definition remove_if_there :: "string \<Rightarrow> (fs, unit) io" where
  "remove_if_there p s =
     (case remove_file p s of (r, s') \<Rightarrow> (if r = Inl file_not_found then Inr () else r, s'))"

text \<open>The body ends with an exception or not.\<close>

definition write_body ::
  "(string \<Rightarrow> string result) \<Rightarrow> nat \<Rightarrow> string \<Rightarrow> string list \<Rightarrow> exc option \<Rightarrow> (fs, unit) io" where
  "write_body encode d p texts failure =
     ensure
       (io_bind (\<lambda>s. (rmap encode texts, s)) (\<lambda>ts.
          io_bind (write_to p (concat ts)) (\<lambda>_. case failure of None \<Rightarrow> ret () | Some e \<Rightarrow> raise e)))
       (close_descriptor d)"

text \<open>The descriptor is closed at the end when no file object has taken it over; if that raises, the
  temporary file stays.\<close>

definition atomic_write_private_text ::
  "bool \<Rightarrow> (string \<Rightarrow> string result) \<Rightarrow> string list \<Rightarrow> string list \<Rightarrow> exc option \<Rightarrow> string \<Rightarrow> (fs, unit) io" where
  "atomic_write_private_text windows encode names texts failure p =
     io_bind (mkstemp names) (\<lambda>(d, temporary) s.
       (case io_bind (if windows then ret () else syscall ''fchmod'' (ret ())) (\<lambda>_. syscall ''fdopen'' (ret ())) s of
          (Inl e, s) \<Rightarrow> ensure (raise e) (io_bind (close_descriptor d) (\<lambda>_. remove_if_there temporary)) s
        | (Inr _, s) \<Rightarrow>
            ensure (io_bind (write_body encode d temporary texts failure) (\<lambda>_. replace_file temporary p))
              (remove_if_there temporary) s))"

text \<open>\<open>open_exclusive\<close> on POSIX and on Windows.\<close>

definition open_exclusive :: "string \<Rightarrow> (fs, nat) io" where
  "open_exclusive p =
     syscall ''open'' (\<lambda>s. if fs_entries s p \<noteq> None then raise file_exists_error s
       else new_descriptor p (set_entry p (Some (Regular [])) s))"

definition backslash :: char where "backslash = CHR 0x5C"

definition extended_path :: "string \<Rightarrow> string" where
  "extended_path p =
     (let prefix = [backslash, backslash, CHR ''?'', backslash] in
      if starts_with p prefix then p
      else if starts_with p [backslash, backslash] then prefix @ ''UNC'' @ [backslash] @ drop 2 p
      else prefix @ p)"

text \<open>\<open>CreateFileW\<close> and the C runtime are parameters: a handle or an error code, a descriptor or none.\<close>

definition open_exclusive_windows ::
  "(string \<Rightarrow> 'w \<Rightarrow> (int + 'h) \<times> 'w) \<Rightarrow> ('h \<Rightarrow> 'w \<Rightarrow> nat result \<times> 'w) \<Rightarrow> ('h \<Rightarrow> 'w \<Rightarrow> 'w) \<Rightarrow> (int \<Rightarrow> string)
     \<Rightarrow> string \<Rightarrow> ('w, nat) io" where
  "open_exclusive_windows create_file open_handle close_handle message abs_path w =
     (case create_file (extended_path abs_path) w of
        (Inl err, w) \<Rightarrow> raise (if err = 80 \<or> err = 183 then file_exists_error else OSError (message err)) w
      | (Inr h, w) \<Rightarrow>
          (case open_handle h w of
             (Inl e, w) \<Rightarrow> raise e (close_handle h w)
           | (Inr d, w) \<Rightarrow> ret d w))"

section \<open>Appending and replacing\<close>

definition same_fs :: "fs \<Rightarrow> fs \<Rightarrow> bool" where
  "same_fs s s' \<longleftrightarrow> fs_entries s' = fs_entries s \<and> fs_open s' = fs_open s \<and> fs_next s' = fs_next s \<and>
     (fs_fails s = [] \<longrightarrow> fs_fails s' = [])"

lemma syscallE:
  assumes "syscall name act s = (r, s')"
  obtains (ran) s1 where "same_fs s s1" "act s1 = (r, s')"
    | (failed) "same_fs s s'" "r = Inl (OSError name)" "fs_fails s \<noteq> []"
proof (cases "fs_fails s")
  case Nil
  with assms ran [of s] show thesis by (simp add: syscall_def same_fs_def)
next
  case (Cons failed fails)
  show thesis
  proof (cases failed)
    case True
    with Cons assms failed show thesis by (auto simp: syscall_def same_fs_def)
  next
    case False
    with Cons assms ran [of "s\<lparr>fs_fails := fails\<rparr>"] show thesis by (simp add: syscall_def same_fs_def)
  qed
qed

lemma set_entry_simps [simp]:
  "fs_entries (set_entry p e s) = (fs_entries s)(p := e)"
  "fs_open (set_entry p e s) = fs_open s"
  "fs_next (set_entry p e s) = fs_next s"
  "fs_fails (set_entry p e s) = fs_fails s"
  "fs_writes (set_entry p e s) = fs_writes s"
  by (simp_all add: set_entry_def)

lemma close_effect:
  assumes "close_descriptor d s = (r, s')"
  shows "fs_entries s' = fs_entries s" "fs_open s' = filter (\<lambda>x. fst x \<noteq> d) (fs_open s)"
    "fs_fails s = [] \<Longrightarrow> r = Inr () \<and> fs_fails s' = []"
  using assms unfolding close_descriptor_def
  by (auto elim!: syscallE simp: same_fs_def)

lemma truncate_effect:
  assumes "truncate_file p n s = (r, s')"
  shows "fs_open s' = fs_open s"
    "fs_entries s' = fs_entries s \<or> fs_entries s' = (fs_entries s)(p := Some (Regular (take n (file_text s p))))"
    "fs_fails s = [] \<Longrightarrow> fs_fails s' = [] \<and> fs_entries s' = (fs_entries s)(p := Some (Regular (take n (file_text s p))))"
  using assms unfolding truncate_file_def
  by (auto elim!: syscallE simp: same_fs_def file_text_def)

lemma write_effect:
  assumes "write_to p t s = (r, s')" "fs_entries s p = Some (Regular old)"
  obtains n where "fs_entries s' = (fs_entries s)(p := Some (Regular (old @ take n t)))"
    "r = Inr () \<Longrightarrow> take n t = t" "fs_open s' = fs_open s" "fs_fails s' = fs_fails s"
proof (cases "\<exists>n ws. fs_writes s = Some n # ws")
  case True
  with assms that show thesis by (auto simp: write_to_def file_text_def)
next
  case False
  with assms have "s' = set_entry p (Some (Regular (old @ t))) (s\<lparr>fs_writes := tl (fs_writes s)\<rparr>)"
    by (auto simp: write_to_def file_text_def split: list.splits option.splits)
  with that [of "length t"] show thesis by simp
qed

lemma write_and_close_effect:
  assumes "write_and_close encode d p [txt] s = (r, s')" "fs_entries s p = Some (Regular old)"
  obtains x where "fs_entries s' = (fs_entries s)(p := Some (Regular (old @ x)))"
    "r = Inr () \<Longrightarrow> encode txt = Inr x"
    "fs_open s' = filter (\<lambda>x. fst x \<noteq> d) (fs_open s)" "fs_fails s = [] \<Longrightarrow> fs_fails s' = []"
proof (cases "encode txt")
  case (Inl e)
  with assms have "ensure (raise e) (close_descriptor d) s = (r, s')"
    by (simp add: write_and_close_def ensure_def io_bind_def raise_def)
  then obtain r1 s1 where c: "close_descriptor d s = (r1, s1)" "s' = s1" "r \<noteq> Inr ()"
    by (auto simp: ensure_def raise_def split: prod.splits sum.splits)
  from that [of "[]"] close_effect [OF c(1)] c(2,3) assms(2) show thesis by (simp add: fun_upd_idem)
next
  case (Inr t)
  obtain rw sw where w: "write_to p t s = (rw, sw)" by (cases "write_to p t s")
  from write_effect [OF this assms(2)] obtain n where n: "fs_entries sw = (fs_entries s)(p := Some (Regular (old @ take n t)))"
    "rw = Inr () \<Longrightarrow> take n t = t" "fs_open sw = fs_open s" "fs_fails sw = fs_fails s" by blast
  obtain rc sc where c: "close_descriptor d sw = (rc, sc)" by (cases "close_descriptor d sw")
  have "ensure (write_to p t) (close_descriptor d) s = (r, s')"
    using assms(1) Inr by (simp add: write_and_close_def ensure_def io_bind_def)
  with w c have r: "s' = sc" "r = Inr () \<Longrightarrow> rw = Inr ()"
    by (auto simp: ensure_def split: sum.splits)
  show thesis by (rule that [of "take n t"]) (use r n close_effect [OF c] Inr in auto)
qed

text \<open>Descriptors are numbered upwards.\<close>

definition fs_ok :: "fs \<Rightarrow> bool" where
  "fs_ok s \<longleftrightarrow> (\<forall>x \<in> set (fs_open s). fst x < fs_next s)"

text \<open>An open file for append, with its descriptor the newest one.\<close>

lemma open_append_effect:
  assumes "open_binary_append p s = (r, s')" "fs_ok s"
  obtains (failed) e where "r = Inl e" "fs_entries s' = fs_entries s" "fs_open s' = fs_open s"
    | (opened) d where "r = Inr d" "fs_entries s' = (fs_entries s)(p := Some (Regular (file_text s p)))"
      "fs_open s' = (d, p) # fs_open s" "fs_ok s'" "\<forall>x \<in> set (fs_open s). fst x \<noteq> d" "fs_fails s = [] \<Longrightarrow> fs_fails s' = []"
proof (cases "is_link s p")
  case True
  with assms failed show thesis by (auto simp: open_binary_append_def)
next
  case False
  then have "syscall ''open'' (\<lambda>s. case fs_entries s p of
          Some (Regular t) \<Rightarrow> new_descriptor p s
        | None \<Rightarrow> new_descriptor p (set_entry p (Some (Regular [])) s)
        | _ \<Rightarrow> raise (OSError ''open'') s) s = (r, s')"
    using assms(1) by (simp add: open_binary_append_def)
  then show thesis
  proof (cases rule: syscallE)
    case (ran s1)
    show thesis
    proof (cases "fs_entries s p")
      case None
      with ran have s': "r = Inr (fs_next s)" "s' = s1\<lparr>fs_entries := (fs_entries s1)(p := Some (Regular [])),
          fs_open := (fs_next s, p) # fs_open s, fs_next := Suc (fs_next s)\<rparr>"
        by (auto simp: same_fs_def new_descriptor_def set_entry_def)
      have "\<forall>x \<in> set (fs_open s). fst x < fs_next s" using assms(2) by (simp add: fs_ok_def)
      with s' ran None show thesis
        by (intro opened [of "fs_next s"]) (force simp: same_fs_def fs_ok_def file_text_def)+
    next
      case (Some e)
      have fresh: "\<forall>x \<in> set (fs_open s). fst x < fs_next s" using assms(2) by (simp add: fs_ok_def)
      show thesis
      proof (cases e)
        case (Regular t)
        with Some have "(fs_entries s)(p := Some (Regular t)) = fs_entries s" by (auto intro: fun_upd_idem)
        with ran Some Regular fresh show thesis
          by (intro opened [of "fs_next s"]) (force simp: same_fs_def new_descriptor_def fs_ok_def file_text_def)+
      qed (use ran Some failed in \<open>auto simp: same_fs_def\<close>)
    qed
  next
    case failed
    with that(1) show thesis by (auto simp: same_fs_def)
  qed
qed

lemma dup_effect:
  assumes "syscall ''dup'' (new_descriptor p) s = (r, s')" "fs_ok s"
  obtains (failed) e where "r = Inl e" "fs_entries s' = fs_entries s" "fs_open s' = fs_open s" "fs_fails s \<noteq> []"
    | (opened) d where "r = Inr d" "fs_entries s' = fs_entries s" "fs_open s' = (d, p) # fs_open s"
      "\<forall>x \<in> set (fs_open s). fst x \<noteq> d" "fs_fails s = [] \<Longrightarrow> fs_fails s' = []"
  using assms(1)
proof (cases rule: syscallE)
  case (ran s1)
  with assms(2) show thesis
    by (intro opened [of "fs_next s"]) (auto simp: same_fs_def new_descriptor_def fs_ok_def less_Suc_eq split: prod.splits)
next
  case failed
  with that(1) show thesis by (auto simp: same_fs_def)
qed

text \<open>What an append leaves of the file and of the descriptors; what came of the data, by its result.\<close>

definition append_effect :: "(string \<Rightarrow> string result) \<Rightarrow> string \<Rightarrow> string \<Rightarrow> fs \<Rightarrow> unit result \<Rightarrow> fs \<Rightarrow> bool" where
  "append_effect encode p txt s r s' \<longleftrightarrow>
     (\<forall>q. q \<noteq> p \<longrightarrow> fs_entries s' q = fs_entries s q) \<and> (fs_open s' = fs_open s \<or> r \<noteq> Inr () \<and> fs_fails s \<noteq> []) \<and>
     (case r of
        Inr _ \<Rightarrow> \<exists>t. encode txt = Inr t \<and> fs_entries s' p = Some (Regular (file_text s p @ t))
      | Inl e \<Rightarrow> starts_with (file_text s' p) (file_text s p) \<and> (fs_fails s = [] \<longrightarrow> file_text s' p = file_text s p))"

lemma no_such_descriptor: "\<forall>x \<in> set xs. fst x \<noteq> d \<Longrightarrow> filter (\<lambda>x. fst x \<noteq> d) xs = xs"
  by (rule filter_True) auto

lemma ensureE:
  assumes "ensure act end' s = (r, s')"
  obtains r1 s1 r2 where "act s = (r1, s1)" "end' s1 = (r2, s')" "r = (case r2 of Inl e \<Rightarrow> Inl e | Inr _ \<Rightarrow> r1)"
  using assms by (auto simp: ensure_def split: prod.splits sum.splits)

lemma append_effect_Inl:
  assumes "fs_entries s' = (fs_entries s)(p := Some (Regular (file_text s p @ x)))" "fs_open s' = fs_open s"
    "fs_fails s = [] \<Longrightarrow> x = []"
  shows "append_effect encode p txt s (Inl e) s'"
  using assms by (auto simp: append_effect_def file_text_def starts_with_iff)

lemma undo_effect:
  assumes "ensure (undo p (length old) e) (close_descriptor d) s = (r, s')" "fs_entries s p = Some (Regular (old @ x))"
  obtains y e' where "r = Inl e'" "fs_entries s' = (fs_entries s)(p := Some (Regular (old @ y)))"
    "fs_open s' = filter (\<lambda>x. fst x \<noteq> d) (fs_open s)" "fs_fails s = [] \<Longrightarrow> y = []"
proof -
  obtain r1 s1 r2 where u: "undo p (length old) e s = (r1, s1)" "close_descriptor d s1 = (r2, s')"
    "r = (case r2 of Inl e \<Rightarrow> Inl e | Inr _ \<Rightarrow> r1)" by (rule ensureE [OF assms(1)])
  then have r1: "r1 = Inl e" "s1 = snd (truncate_file p (length old) s)" by (auto simp: undo_def raise_def)
  obtain rt where "truncate_file p (length old) s = (rt, s1)" using r1 by (cases "truncate_file p (length old) s") auto
  note tr = truncate_effect [OF this] and cl = close_effect [OF u(2)]
  have "take (length old) (file_text s p) = old" using assms(2) by (simp add: file_text_def)
  with tr(2) have cases: "fs_entries s1 = fs_entries s \<or> fs_entries s1 = (fs_entries s)(p := Some (Regular old))" by simp
  obtain e' where r: "r = Inl e'" using u(3) r1(1) by (cases r2) auto
  show thesis
  proof (cases "fs_entries s1 = (fs_entries s)(p := Some (Regular old))")
    case True
    with that [OF r, of "[]"] tr(1) cl show thesis by simp
  next
    case False
    with cases have "fs_entries s1 = fs_entries s" by simp
    with that [OF r, of x] assms(2) tr False cl \<open>take _ _ = old\<close> show thesis by (auto simp: fun_upd_idem)
  qed
qed

lemma append_private_rest:
  assumes "append_private_text encode p txt s = (r, s')" "open_binary_append p s = (r0, s0)" "r0 = Inr d"
    "syscall ''fstat'' (\<lambda>s. ret (length (file_text s p)) s) s0 = (r1, s1)" "r1 = Inr (length (file_text s p))"
    "syscall ''dup'' (new_descriptor p) s1 = (r2, s2)" "r2 = Inr k"
    and s2: "fs_entries s2 = (fs_entries s)(p := Some (Regular (file_text s p @ [])))"
      "fs_open s2 = (k, p) # (d, p) # fs_open s" "fs_fails s = [] \<Longrightarrow> fs_fails s2 = []"
    and ids: "d \<noteq> k" "filter (\<lambda>x. fst x \<noteq> k) (fs_open s) = fs_open s" "filter (\<lambda>x. fst x \<noteq> d) (fs_open s) = fs_open s"
  shows "append_effect encode p txt s r s'"
proof -
  let ?old = "file_text s p"
  obtain r3 s3 where fd: "syscall ''fdopen'' (ret ()) s2 = (r3, s3)" by (cases "syscall ''fdopen'' (ret ()) s2") auto
  then have s3: "fs_entries s3 = fs_entries s2" "fs_open s3 = fs_open s2" "fs_fails s = [] \<Longrightarrow> fs_fails s3 = []"
    using s2(3) by (cases rule: syscallE [OF fd]; auto simp: same_fs_def)+
  note unfolded = assms(1) [unfolded append_private_text_def io_bind_def assms(2,3), simplified, unfolded assms(4,5), simplified,
      unfolded assms(6,7), simplified, unfolded fd]
  show ?thesis
  proof (cases r3)
    case (Inl e)
    with unfolded have "ensure (undo p (length ?old) e) (io_bind (close_descriptor d) (\<lambda>_. close_descriptor k)) s3 = (r, s')"
      by (simp add: io_bind_def [abs_def])
    then obtain ru su rc where u: "undo p (length ?old) e s3 = (ru, su)"
      "io_bind (close_descriptor d) (\<lambda>_. close_descriptor k) su = (rc, s')"
      "r = (case rc of Inl e \<Rightarrow> Inl e | Inr _ \<Rightarrow> ru)" by (rule ensureE)
    have "fs_entries s' = fs_entries su" using u(2)
      by (auto simp: io_bind_def dest!: close_effect(1) split: prod.splits sum.splits)
    moreover have ru: "ru = Inl e" "su = snd (truncate_file p (length ?old) s3)" using u(1) by (auto simp: undo_def raise_def)
    moreover obtain rt where "truncate_file p (length ?old) s3 = (rt, su)" using ru(2) by (cases "truncate_file p (length ?old) s3") auto
    then have "fs_entries su = fs_entries s2" using truncate_effect(2) [of p "length ?old" s3 rt su] s3 s2
      by (auto simp: file_text_def)
    moreover have "fs_fails s \<noteq> []" using fd Inl s2(3) by (cases rule: syscallE [OF fd]) (auto simp: ret_def)
    ultimately show ?thesis using s2 u(3) by (cases rc) (auto simp: append_effect_def file_text_def starts_with_iff)
  next
    case (Inr u)
    obtain r4 s4 where wc: "write_and_close encode d p [txt] s3 = (r4, s4)" by (cases "write_and_close encode d p [txt] s3") auto
    have "fs_entries s3 p = Some (Regular ?old)" using s3 s2 by simp
    from write_and_close_effect [OF wc this] obtain x where x:
      "fs_entries s4 = (fs_entries s3)(p := Some (Regular (?old @ x)))" "r4 = Inr () \<Longrightarrow> encode txt = Inr x"
      "fs_open s4 = filter (\<lambda>x. fst x \<noteq> d) (fs_open s3)" "fs_fails s3 = [] \<Longrightarrow> fs_fails s4 = []" by blast
    show ?thesis
    proof (cases r4)
      case (Inl e)
      with unfolded Inr wc have "ensure (undo p (length ?old) e) (close_descriptor k) s4 = (r, s')" by simp
      then show ?thesis
      proof (rule undo_effect)
        show "fs_entries s4 p = Some (Regular (?old @ x))" using x by simp
        fix y e' assume u: "r = Inl e'" "fs_entries s' = (fs_entries s4)(p := Some (Regular (?old @ y)))"
          "fs_open s' = filter (\<lambda>x. fst x \<noteq> k) (fs_open s4)" "fs_fails s4 = [] \<Longrightarrow> y = []"
        show ?thesis unfolding u(1) by (rule append_effect_Inl [of _ _ _ y]) (use u x s3 s2 ids in auto)
      qed
    next
      case (Inr v)
      with unfolded \<open>r3 = Inr u\<close> wc have "ensure (ret ()) (close_descriptor k) s4 = (r, s')" by simp
      then obtain r5 where c: "close_descriptor k s4 = (r5, s')" "r = r5"
        by (rule ensureE) (auto simp: ret_def split: sum.splits)
      note c5 = close_effect [OF c(1)]
      show ?thesis
      proof (cases r)
        case (Inl e)
        with c c5(3) x(4) s3(3) have "fs_fails s \<noteq> []" by auto
        with Inl append_effect_Inl [of s' s p x] c5 x s3 s2 ids show ?thesis by auto
      next
        case (Inr w)
        with x \<open>r4 = Inr v\<close> c5 s3 s2 ids show ?thesis by (auto simp: append_effect_def)
      qed
    qed
  qed
qed

lemma append_private_text_effect:
  assumes "append_private_text encode p txt s = (r, s')" "fs_ok s"
  shows "append_effect encode p txt s r s'"
proof -
  obtain r0 s0 where o: "open_binary_append p s = (r0, s0)" by (cases "open_binary_append p s") auto
  show ?thesis
  proof (rule open_append_effect [OF o assms(2)])
    fix e assume "r0 = Inl e" "fs_entries s0 = fs_entries s" "fs_open s0 = fs_open s"
    moreover from this o assms(1) have "r = Inl e" "s' = s0" by (simp_all add: append_private_text_def io_bind_def)
    ultimately show ?thesis by (simp add: append_effect_def file_text_def starts_with_iff)
  next
    fix d
    let ?old = "file_text s p" and ?rest = "\<lambda>x. (fs_entries s)(p := Some (Regular (file_text s p @ x)))"
    assume d: "r0 = Inr d" "fs_entries s0 = (fs_entries s)(p := Some (Regular ?old))"
      "fs_open s0 = (d, p) # fs_open s" "fs_ok s0" "\<forall>x \<in> set (fs_open s). fst x \<noteq> d" "fs_fails s = [] \<Longrightarrow> fs_fails s0 = []"
    note cl = no_such_descriptor [OF d(5)]
    have dropped: "append_effect encode p txt s r s'"
      if act: "ensure (raise e) (close_descriptor d) s2 = (r, s')" and same: "fs_entries s2 = fs_entries s0" "fs_open s2 = fs_open s0" for e s2
    proof -
      obtain r2 where f: "close_descriptor d s2 = (r2, s')" "r = (case r2 of Inl e \<Rightarrow> Inl e | Inr _ \<Rightarrow> Inl e)"
        using act by (rule ensureE) (auto simp: raise_def)
      then obtain e' where "r = Inl e'" by (cases r2) auto
      with append_effect_Inl [of s' s p "[]"] close_effect [OF f(1)] same d cl show ?thesis by simp
    qed
    obtain r1 s1 where st: "syscall ''fstat'' (\<lambda>s. ret (length (file_text s p)) s) s0 = (r1, s1)"
      by (cases "syscall ''fstat'' (\<lambda>s. ret (length (file_text s p)) s) s0") auto
    have len: "length (file_text s2 p) = length ?old" if "same_fs s0 s2" for s2
      using that d(2) by (simp add: same_fs_def file_text_def)
    have "same_fs s0 s1 \<and> (r1 = Inr (length ?old) \<or> (\<exists>e. r1 = Inl e))"
      by (rule syscallE [OF st]) (auto dest: len)
    then have s1: "fs_entries s1 = fs_entries s0" "fs_open s1 = fs_open s0" "fs_ok s1" "fs_fails s = [] \<Longrightarrow> fs_fails s1 = []"
      and r1: "r1 = Inr (length ?old) \<or> (\<exists>e. r1 = Inl e)"
      using d(4,6) by (simp_all add: same_fs_def fs_ok_def)
    show ?thesis
    proof (cases r1)
      case (Inl e)
      with assms(1) o d(1) st have "ensure (raise e) (close_descriptor d) s1 = (r, s')"
        by (simp add: append_private_text_def io_bind_def)
      then show ?thesis using s1(1,2) by (rule dropped)
    next
      case (Inr n)
      with r1 have n: "r1 = Inr (length ?old)" by auto
      obtain r2 s2 where du: "syscall ''dup'' (new_descriptor p) s1 = (r2, s2)" by (cases "syscall ''dup'' (new_descriptor p) s1") auto
      show ?thesis
      proof (rule dup_effect [OF du s1(3)])
        fix e assume e: "r2 = Inl e" "fs_entries s2 = fs_entries s1" "fs_open s2 = fs_open s1"
        with assms(1) o d(1) st n du have "ensure (raise e) (close_descriptor d) s2 = (r, s')"
          by (simp add: append_private_text_def io_bind_def)
        then show ?thesis by (rule dropped) (use e s1 in simp_all)
      next
        fix k assume k: "r2 = Inr k" "fs_entries s2 = fs_entries s1" "fs_open s2 = (k, p) # fs_open s1"
          "\<forall>x \<in> set (fs_open s1). fst x \<noteq> k" "fs_fails s1 = [] \<Longrightarrow> fs_fails s2 = []"
        have dk: "d \<noteq> k" and ck: "filter (\<lambda>x. fst x \<noteq> k) (fs_open s) = fs_open s"
          using k(4) s1(2) d(3) no_such_descriptor [of "fs_open s" k] by auto
        have e2: "fs_entries s2 = ?rest []" "fs_open s2 = (k, p) # (d, p) # fs_open s" "fs_fails s = [] \<Longrightarrow> fs_fails s2 = []"
          using k s1 d by auto
        show ?thesis by (rule append_private_rest [OF assms(1) o d(1) st n du k(1) _ e2(2,3) dk ck cl]) (use e2(1) in simp)
      qed
    qed
  qed
qed

lemma mkstemp_effect:
  assumes "mkstemp names s = (r, s')" "fs_ok s"
  obtains (failed) e where "r = Inl e" "fs_entries s' = fs_entries s" "fs_open s' = fs_open s"
    | (made) d n where "r = Inr (d, n)" "n \<in> set names" "fs_entries s n = None"
      "fs_entries s' = (fs_entries s)(n := Some (Regular []))" "fs_open s' = (d, n) # fs_open s"
      "filter (\<lambda>x. fst x \<noteq> d) (fs_open s) = fs_open s" "fs_fails s = [] \<Longrightarrow> fs_fails s' = []"
  using assms(1) unfolding mkstemp_def
proof (cases rule: syscallE)
  case (ran s1)
  have fresh: "\<forall>x \<in> set (fs_open s). fst x < fs_next s" using assms(2) by (simp add: fs_ok_def)
  show thesis
  proof (cases "filter (\<lambda>n. fs_entries s1 n = None) names")
    case Nil
    with ran failed show thesis by (auto simp: same_fs_def)
  next
    case (Cons n ns)
    then have n: "n \<in> set names" "fs_entries s1 n = None" using filter_set [of "\<lambda>n. fs_entries s1 n = None" names] by auto
    have "filter (\<lambda>x. fst x \<noteq> fs_next s) (fs_open s) = fs_open s" using fresh by (intro no_such_descriptor) auto
    with ran Cons n made [of "fs_next s" n] show thesis
      by (auto simp: same_fs_def new_descriptor_def io_bind_def)
  qed
next
  case failed
  with that(1) show thesis by (auto simp: same_fs_def)
qed

lemma write_body_effect:
  assumes "write_body encode d n texts failure s = (r, s')" "fs_entries s n = Some (Regular [])"
  obtains x where "fs_entries s' = (fs_entries s)(n := Some (Regular x))"
    "fs_open s' = filter (\<lambda>x. fst x \<noteq> d) (fs_open s)" "fs_fails s = [] \<Longrightarrow> fs_fails s' = []"
    "r = Inr () \<Longrightarrow> failure = None \<and> (\<exists>ts. rmap encode texts = Inr ts \<and> x = concat ts)"
proof -
  let ?act = "io_bind (\<lambda>s. (rmap encode texts, s)) (\<lambda>ts.
      io_bind (write_to n (concat ts)) (\<lambda>_. case failure of None \<Rightarrow> ret () | Some e \<Rightarrow> raise e))"
  from assms(1) obtain r1 s1 r2 where b: "?act s = (r1, s1)" "close_descriptor d s1 = (r2, s')"
    "r = (case r2 of Inl e \<Rightarrow> Inl e | Inr _ \<Rightarrow> r1)" unfolding write_body_def by (rule ensureE)
  show thesis
  proof (cases "rmap encode texts")
    case (Inl e)
    with b(1) have "s1 = s" "r1 = Inl e" by (auto simp: io_bind_def)
    with that [of "[]"] close_effect [OF b(2)] b(3) assms(2) show thesis by (auto simp: fun_upd_idem split: sum.splits)
  next
    case (Inr ts)
    obtain rw sw where w: "write_to n (concat ts) s = (rw, sw)" by (cases "write_to n (concat ts) s")
    from write_effect [OF w assms(2)] obtain k where k: "fs_entries sw = (fs_entries s)(n := Some (Regular ([] @ take k (concat ts))))"
      "rw = Inr () \<Longrightarrow> take k (concat ts) = concat ts" "fs_open sw = fs_open s" "fs_fails sw = fs_fails s" by blast
    have s1: "s1 = sw" "r1 = Inr () \<Longrightarrow> rw = Inr () \<and> failure = None"
      using b(1) Inr w by (auto simp: io_bind_def raise_def ret_def split: sum.splits option.splits)
    show thesis
      by (rule that [of "take k (concat ts)"])
         (use k s1 close_effect [OF b(2)] b(3) Inr in \<open>auto split: sum.splits\<close>)
  qed
qed

lemma replace_effect:
  assumes "replace_file n p s = (r, s')" "n \<noteq> p"
  shows "fs_open s' = fs_open s" "fs_fails s = [] \<Longrightarrow> fs_fails s' = []"
    "fs_entries s' = fs_entries s \<and> r \<noteq> Inr () \<or> fs_entries s' = (fs_entries s)(n := None, p := fs_entries s n) \<and> r = Inr ()"
  using assms unfolding replace_file_def
  by (auto elim!: syscallE simp: same_fs_def fun_upd_twist split: if_splits)

lemma remove_effect:
  assumes "remove_if_there n s = (r, s')"
  shows "fs_open s' = fs_open s"
    "fs_entries s' = (fs_entries s)(n := None) \<or> fs_entries s' = fs_entries s \<and> r \<noteq> Inr () \<and> (fs_fails s = [] \<longrightarrow> fs_entries s n = Some Folder)"
proof -
  obtain r0 where "remove_file n s = (r0, s')" and r: "r = (if r0 = Inl file_not_found then Inr () else r0)"
    using assms by (auto simp: remove_if_there_def split: prod.splits)
  then show "fs_open s' = fs_open s"
    "fs_entries s' = (fs_entries s)(n := None) \<or> fs_entries s' = fs_entries s \<and> r \<noteq> Inr () \<and> (fs_fails s = [] \<longrightarrow> fs_entries s n = Some Folder)"
    unfolding remove_file_def
    by (auto elim!: syscallE simp: same_fs_def fun_upd_idem split: option.splits entry.splits)
qed

text \<open>What a replacement leaves: the target old or new, the other files alone, no descriptor, and no
  temporary file unless a system call failed.\<close>

definition replaced :: "(string \<Rightarrow> string result) \<Rightarrow> string list \<Rightarrow> exc option \<Rightarrow> string \<Rightarrow> fs \<Rightarrow> bool" where
  "replaced encode texts failure p s' \<longleftrightarrow>
     failure = None \<and> (\<exists>ts. rmap encode texts = Inr ts \<and> fs_entries s' p = Some (Regular (concat ts)))"

definition clean_but :: "string list \<Rightarrow> string \<Rightarrow> fs \<Rightarrow> fs \<Rightarrow> bool" where
  "clean_but names p s s' \<longleftrightarrow>
     fs_open s' = fs_open s \<and>
     (\<forall>q. q \<noteq> p \<longrightarrow> fs_entries s' q = fs_entries s q \<or> q \<in> set names \<and> fs_entries s q = None)"

text \<open>The steps after the file object was made.\<close>

lemma fill_and_replace_effect:
  assumes "io_bind (write_body encode d n texts failure) (\<lambda>_. replace_file n p) s = (r, s')"
    and s: "fs_entries s n = Some (Regular [])" "n \<noteq> p"
  obtains (kept) x e where "r = Inl e" "fs_entries s' = (fs_entries s)(n := Some (Regular x))"
      "fs_open s' = filter (\<lambda>x. fst x \<noteq> d) (fs_open s)" "fs_fails s = [] \<Longrightarrow> fs_fails s' = []"
    | (done') ts where "r = Inr ()" "failure = None" "rmap encode texts = Inr ts"
      "fs_entries s' = (fs_entries s)(n := None, p := Some (Regular (concat ts)))"
      "fs_open s' = filter (\<lambda>x. fst x \<noteq> d) (fs_open s)" "fs_fails s = [] \<Longrightarrow> fs_fails s' = []"
proof -
  obtain rb sb where b: "write_body encode d n texts failure s = (rb, sb)" by (cases "write_body encode d n texts failure s") auto
  from write_body_effect [OF b s(1)] obtain x where x: "fs_entries sb = (fs_entries s)(n := Some (Regular x))"
    "fs_open sb = filter (\<lambda>x. fst x \<noteq> d) (fs_open s)" "fs_fails s = [] \<Longrightarrow> fs_fails sb = []"
    "rb = Inr () \<Longrightarrow> failure = None \<and> (\<exists>ts. rmap encode texts = Inr ts \<and> x = concat ts)" by metis
  show thesis
  proof (cases rb)
    case (Inl e)
    with assms(1) b x show thesis by (intro kept [of e x]) (auto simp: io_bind_def)
  next
    case (Inr w)
    with assms(1) b have rp: "replace_file n p sb = (r, s')" by (simp add: io_bind_def)
    from Inr x(4) obtain ts where ts: "failure = None" "rmap encode texts = Inr ts" "x = concat ts" by auto
    note re = replace_effect [OF rp s(2)]
    show thesis
    proof (cases "r = Inr ()")
      case True
      with re x ts show thesis by (intro done' [of ts]) auto
    next
      case False
      then obtain e where "r = Inl e" by (cases r) auto
      with re x show thesis by (intro kept [of e x]) auto
    qed
  qed
qed

definition replacement_ok ::
  "(string \<Rightarrow> string result) \<Rightarrow> string list \<Rightarrow> string list \<Rightarrow> exc option \<Rightarrow> string \<Rightarrow> fs \<Rightarrow> unit result \<Rightarrow> fs \<Rightarrow> bool" where
  "replacement_ok encode names texts failure p s r s' \<longleftrightarrow>
    clean_but names p s s' \<and>
    (fs_entries s' p = fs_entries s p \<or> replaced encode texts failure p s') \<and>
    (r = Inr () \<longrightarrow> replaced encode texts failure p s') \<and>
    (r = Inr () \<or> fs_fails s = [] \<longrightarrow> (\<forall>q. q \<noteq> p \<longrightarrow> fs_entries s' q = fs_entries s q))"

text \<open>The state once the temporary file is made, and opened or not.\<close>

definition temporary_made :: "string list \<Rightarrow> string \<Rightarrow> fs \<Rightarrow> nat \<Rightarrow> string \<Rightarrow> fs \<Rightarrow> bool" where
  "temporary_made names p s d n s1 \<longleftrightarrow>
     n \<in> set names \<and> n \<noteq> p \<and> fs_entries s n = None \<and> filter (\<lambda>x. fst x \<noteq> d) (fs_open s) = fs_open s \<and>
     fs_entries s1 = (fs_entries s)(n := Some (Regular [])) \<and> fs_open s1 = (d, n) # fs_open s \<and>
     (fs_fails s = [] \<longrightarrow> fs_fails s1 = [])"

lemma abandoned_replacement:
  assumes "ensure (raise e) (io_bind (close_descriptor d) (\<lambda>_. remove_if_there n)) s1 = (r, s')"
    and n: "temporary_made names p s d n s1"
  shows "replacement_ok encode names texts failure p s r s'"
proof -
  from assms(1) obtain r2 where f: "io_bind (close_descriptor d) (\<lambda>_. remove_if_there n) s1 = (r2, s')" "\<exists>e. r = Inl e"
    by (rule ensureE) (auto simp: raise_def split: sum.splits)
  obtain rc sc where c: "close_descriptor d s1 = (rc, sc)" by (cases "close_descriptor d s1")
  from n have e1: "fs_entries s1 n = Some (Regular [])" by (simp add: temporary_made_def)
  have "fs_open s' = fs_open sc \<and> (fs_entries s' = fs_entries sc \<or> fs_entries s' = (fs_entries sc)(n := None)) \<and>
      (fs_fails s1 = [] \<longrightarrow> fs_entries s' = (fs_entries sc)(n := None))"
  proof (cases rc)
    case (Inr v)
    with f(1) c have rm: "remove_if_there n sc = (r2, s')" by (simp add: io_bind_def)
    from remove_effect [OF rm] close_effect [OF c] e1 show ?thesis by auto
  qed (use f(1) c e1 close_effect [OF c] in \<open>auto simp: io_bind_def\<close>)
  with close_effect [OF c] n f(2) show ?thesis
    by (auto simp: replacement_ok_def temporary_made_def clean_but_def fun_upd_idem split: if_splits)
qed

lemma written_replacement:
  assumes "ensure (io_bind (write_body encode d n texts failure) (\<lambda>_. replace_file n p)) (remove_if_there n) s1 = (r, s')"
    and n: "temporary_made names p s d n s1"
  shows "replacement_ok encode names texts failure p s r s'"
proof -
  from assms(1) obtain r2 s2 r3 where b: "io_bind (write_body encode d n texts failure) (\<lambda>_. replace_file n p) s1 = (r2, s2)"
    "remove_if_there n s2 = (r3, s')" "r = (case r3 of Inl e \<Rightarrow> Inl e | Inr _ \<Rightarrow> r2)" by (rule ensureE)
  from n have o1: "fs_open s1 = (d, n) # fs_open s" "fs_entries s1 = (fs_entries s)(n := Some (Regular []))"
    "fs_fails s = [] \<Longrightarrow> fs_fails s1 = []" "n \<in> set names" "n \<noteq> p" "fs_entries s n = None"
    "filter (\<lambda>x. fst x \<noteq> d) (fs_open s) = fs_open s" by (simp_all add: temporary_made_def)
  then have e1: "fs_entries s1 n = Some (Regular [])" by simp
  from b(1) e1 o1(5) show ?thesis
  proof (cases rule: fill_and_replace_effect)
    case (kept x e)
    with remove_effect [OF b(2)] b(3) o1 show ?thesis
      by (auto simp: replacement_ok_def clean_but_def fun_upd_idem split: sum.splits if_splits)
  next
    case (done' ts)
    with remove_effect [OF b(2)] b(3) o1 show ?thesis
      by (auto simp: replacement_ok_def clean_but_def replaced_def split: sum.splits if_splits)
  qed
qed

text \<open>C34: Replacing a file through a temporary one is atomic: whatever system calls fail, however much of
  the text is written and whether the body raises, the file holds afterwards what it held or exactly the
  whole new text, the latter when the call returns; no other file changes, no descriptor stays open, and
  when no system call but the writing fails no temporary file is left.\<close>
theorem replacement_is_atomic:
  assumes "atomic_write_private_text windows encode names texts failure p s = (r, s')"
    and "fs_ok s" and "p \<notin> set names"
  shows "clean_but names p s s' \<and>
    (fs_entries s' p = fs_entries s p \<or> replaced encode texts failure p s') \<and>
    (r = Inr () \<longrightarrow> replaced encode texts failure p s') \<and>
    (r = Inr () \<or> fs_fails s = [] \<longrightarrow> (\<forall>q. q \<noteq> p \<longrightarrow> fs_entries s' q = fs_entries s q))"
  unfolding replacement_ok_def [symmetric]
proof -
  obtain r0 s0 where t: "mkstemp names s = (r0, s0)" by (cases "mkstemp names s") auto
  show "replacement_ok encode names texts failure p s r s'"
  proof (rule mkstemp_effect [OF t assms(2)])
    fix e assume e: "r0 = Inl e" "fs_entries s0 = fs_entries s" "fs_open s0 = fs_open s"
    moreover from this t assms(1) have "r = Inl e" "s' = s0" by (simp_all add: atomic_write_private_text_def io_bind_def)
    ultimately show ?thesis by (simp add: replacement_ok_def clean_but_def)
  next
    fix d n assume n: "r0 = Inr (d, n)" "n \<in> set names" "fs_entries s n = None"
      "fs_entries s0 = (fs_entries s)(n := Some (Regular []))" "fs_open s0 = (d, n) # fs_open s"
      "filter (\<lambda>x. fst x \<noteq> d) (fs_open s) = fs_open s" "fs_fails s = [] \<Longrightarrow> fs_fails s0 = []"
    let ?open = "io_bind (if windows then ret () else syscall ''fchmod'' (ret ())) (\<lambda>_. syscall ''fdopen'' (ret ()))"
    obtain r1 s1 where op: "?open s0 = (r1, s1)" by (cases "?open s0")
    then have "same_fs s0 s1" by (auto simp: io_bind_def same_fs_def split: if_splits prod.splits sum.splits elim!: syscallE)
    with n assms(3) have made: "temporary_made names p s d n s1" by (auto simp: temporary_made_def same_fs_def)
    note run = assms(1) [unfolded atomic_write_private_text_def io_bind_def [of "mkstemp names"]]
    show ?thesis
    proof (cases r1)
      case (Inl e)
      with run t n(1) op abandoned_replacement [OF _ made, of e r s'] show ?thesis by simp
    next
      case (Inr u)
      with run t n(1) op written_replacement [OF _ made, of encode texts failure r s'] show ?thesis by simp
    qed
  qed
qed

theorem replacement_is_atomic_witness:
  "let s = \<lparr>fs_entries = [''d/f'' \<mapsto> Regular ''old''], fs_open = [], fs_next = 3, fs_fails = [False, False, False, False, True, False],
        fs_writes = []\<rparr>;
      s' = snd (atomic_write_private_text False Inr [''d/.f.x.tmp''] [''ne'', ''w''] None ''d/f'' s)
   in clean_but [''d/.f.x.tmp''] ''d/f'' s s' \<and> fs_entries s' ''d/f'' = Some (Regular ''old'')"
proof -
  let ?s = "\<lparr>fs_entries = [''d/f'' \<mapsto> Regular ''old''], fs_open = [], fs_next = 3, fs_fails = [False, False, False, False, True, False],
        fs_writes = []\<rparr>"
  let ?r = "atomic_write_private_text False Inr [''d/.f.x.tmp''] [''ne'', ''w''] None ''d/f'' ?s"
  have "fs_ok ?s" by (simp add: fs_ok_def)
  from replacement_is_atomic [of False Inr "[''d/.f.x.tmp'']" "[''ne'', ''w'']" None "''d/f''" ?s "fst ?r" "snd ?r", OF _ this]
  have "clean_but [''d/.f.x.tmp''] ''d/f'' ?s (snd ?r)" by simp
  moreover have "fs_entries (snd ?r) ''d/f'' = Some (Regular ''old'')" by code_simp
  ultimately show ?thesis by (simp add: Let_def)
qed

text \<open>An append raises or the text is there; when only the writing fails, the file is as it was.\<close>

theorem append_is_undone:
  assumes "append_private_text encode p txt s = (r, s')" "fs_ok s"
  shows "append_effect encode p txt s r s'"
  using assms by (rule append_private_text_effect)

section \<open>Loops over paths\<close>

text \<open>A path below an existing one is decided; \<open>can_write\<close> of a relative path whose first component does not
  exist climbs to the empty path, which never exists, and stays there.\<close>

inductive climbs :: "(string \<Rightarrow> bool) \<Rightarrow> string \<Rightarrow> string \<Rightarrow> bool" where
  here: "present p \<Longrightarrow> climbs present p p"
| up: "\<not> present p \<Longrightarrow> climbs present (dirname p) q \<Longrightarrow> climbs present p q"

lemma existing_parent_climbs: "climbs present p q \<Longrightarrow> existing_parent present p = Some q"
  by (induction rule: climbs.induct) (subst existing_parent.simps, simp)+

lemma existing_parent_Some:
  assumes "existing_parent present p = Some q"
  shows "climbs present p q"
  by (rule existing_parent.raw_induct [OF _ assms]) (auto split: if_splits intro: climbs.intros)

lemma climbs_iff: "existing_parent present p = Some q \<longleftrightarrow> climbs present p q"
  using existing_parent_climbs existing_parent_Some by blast

lemma climbs_from_nothing:
  assumes "climbs present p q" "p = []" "\<not> present []" shows False
  using assms by (induction rule: climbs.induct) (auto simp: dirname_def strip_slashes_def)

theorem can_write_hangs_on_new_relative_path:
  assumes "\<not> present []" "\<not> present p" "CHR ''/'' \<notin> set p"
  shows "existing_parent present p = None"
proof (rule ccontr)
  assume "existing_parent present p \<noteq> None"
  then obtain q where "climbs present p q" using climbs_iff by auto
  moreover have "dirname p = []"
  proof -
    have "dropWhile (\<lambda>c. c \<noteq> CHR ''/'') (rev p) = []" using assms(3) by (auto simp: dropWhile_eq_Nil_conv)
    then have "dirname p = strip_slashes []" unfolding dirname_def by (simp only: rev.simps)
    then show ?thesis by (simp add: strip_slashes_def)
  qed
  ultimately have "climbs present [] q" using assms(2) by (auto elim: climbs.cases)
  with assms(1) show False using climbs_from_nothing by blast
qed

abbreviation all_slashes :: "string \<Rightarrow> bool" where
  "all_slashes \<equiv> list_all (\<lambda>c. c = CHR ''/'')"

lemma strip_slashes_absolute: "strip_slashes (CHR ''/'' # h) \<noteq> [] \<and> hd (strip_slashes (CHR ''/'' # h)) = CHR ''/''"
proof (cases "all_slashes h")
  case False
  obtain R r where R: "rstrip_char CHR ''/'' (CHR ''/'' # h) = R" "CHR ''/'' # h = R @ r" "\<forall>c \<in> set r. c = CHR ''/''"
    using rstrip_p_prefix [of "CHR ''/'' # h" "\<lambda>c. c = CHR ''/''"] by blast
  have ne: "R \<noteq> []"
  proof
    assume "R = []"
    with R(2) have "r = CHR ''/'' # h" by simp
    with R(3) False show False by (simp add: list_all_iff)
  qed
  with R(2) have "hd R = CHR ''/''" by (cases R) auto
  with False ne R(1) show ?thesis by (simp add: strip_slashes_def)
qed (simp add: strip_slashes_def)

lemma strip_slashes_shorter:
  assumes "p \<noteq> []" "last p = CHR ''/''" "\<not> all_slashes p"
  shows "length (strip_slashes p) < length p"
proof -
  let ?R = "rstrip_char CHR ''/'' p"
  obtain r where r: "p = ?R @ r" using rstrip_p_prefix [of p "\<lambda>c. c = CHR ''/''"] by blast
  have "?R \<noteq> p" using rstrip_p_last [of "\<lambda>c. c = CHR ''/''" p] assms(1,2) by metis
  with r have "0 < length r" by (metis append_Nil2 length_greater_0_conv)
  moreover have "length p = length ?R + length r" using r by (metis length_append)
  ultimately show ?thesis using assms(3) by (simp add: strip_slashes_def)
qed

lemma head_absolute:
  assumes "p \<noteq> []" "hd p = CHR ''/''"
  shows "\<exists>h. rev (dropWhile (\<lambda>c. c \<noteq> CHR ''/'') (rev p)) = CHR ''/'' # h"
proof -
  obtain p' where p: "p = CHR ''/'' # p'" using assms by (cases p) auto
  show ?thesis
  proof (cases "\<forall>x \<in> set p'. x \<noteq> CHR ''/''")
    case False
    then have "dropWhile (\<lambda>c. c \<noteq> CHR ''/'') (rev p) = dropWhile (\<lambda>c. c \<noteq> CHR ''/'') (rev p') @ [CHR ''/'']"
      by (auto simp: p dropWhile_append)
    then show ?thesis by simp
  qed (simp add: p dropWhile_append)
qed

lemma dirname_absolute:
  assumes "p \<noteq> []" "hd p = CHR ''/''"
  shows "dirname p \<noteq> [] \<and> hd (dirname p) = CHR ''/''" and "\<not> all_slashes p \<Longrightarrow> length (dirname p) < length p"
proof -
  obtain h where "rev (dropWhile (\<lambda>c. c \<noteq> CHR ''/'') (rev p)) = CHR ''/'' # h" using head_absolute [OF assms] by blast
  then show "dirname p \<noteq> [] \<and> hd (dirname p) = CHR ''/''" unfolding dirname_def using strip_slashes_absolute [of h] by (simp only: simp_thms)
  show "length (dirname p) < length p" if n: "\<not> all_slashes p"
  proof (cases "last p = CHR ''/''")
    case True
    obtain q where q: "rev p = CHR ''/'' # q" using True assms(1) by (metis hd_rev list.collapse rev_is_Nil_conv)
    then have "dropWhile (\<lambda>c. c \<noteq> CHR ''/'') (rev p) = rev p" by simp
    then have "dirname p = strip_slashes p" unfolding dirname_def by (simp only: rev_rev_ident)
    with strip_slashes_shorter [OF assms(1) True n] show ?thesis by simp
  next
    case False
    then have "basename p \<noteq> []" using assms(1) by (cases "rev p") (auto simp: basename_def hd_rev [symmetric] simp del: hd_rev)
    with length_dirname [of p] show ?thesis by (cases "basename p") auto
  qed
qed

text \<open>An absolute path is always decided.\<close>

theorem can_write_decides:
  assumes "p \<noteq> []" "hd p = CHR ''/''" "\<And>q. q \<noteq> [] \<Longrightarrow> all_slashes q \<Longrightarrow> present q"
  shows "\<exists>q. existing_parent present p = Some q \<and> present q"
proof -
  have "\<exists>q. climbs present p q \<and> present q" using assms(1,2)
  proof (induction "length p" arbitrary: p rule: less_induct)
    case less
    show ?case
    proof (cases "present p")
      case False
      with assms(3) less.prems(1) have "\<not> all_slashes p" by blast
      with less dirname_absolute [OF less.prems] obtain q where "climbs present (dirname p) q" "present q" by blast
      with False show ?thesis by (blast intro: climbs.up)
    qed (blast intro: climbs.here)
  qed
  then show ?thesis using existing_parent_climbs by blast
qed

text \<open>A directory of finite depth.\<close>

datatype tree = Leaf | Dir "(string \<times> tree) list"

fun holds_tree :: "(string \<Rightarrow> string list result) \<Rightarrow> (string \<Rightarrow> bool) \<Rightarrow> string \<Rightarrow> tree \<Rightarrow> bool" where
  "holds_tree listdir isdir p Leaf \<longleftrightarrow> \<not> isdir p"
| "holds_tree listdir isdir p (Dir ts) \<longleftrightarrow>
     isdir p \<and> listdir p = Inr (map fst ts) \<and> (\<forall>(n, t) \<in> set ts. holds_tree listdir isdir (build_path p n) t)"

fun tree_files :: "string \<Rightarrow> tree \<Rightarrow> string list" where
  "tree_files p Leaf = [p]"
| "tree_files p (Dir ts) = concat (map (\<lambda>(n, t). tree_files (build_path p n) t) ts)"

lemma tree_files_below:
  "holds_tree listdir isdir p t \<Longrightarrow> files_below listdir isdir ps = Some (Inr fs) \<Longrightarrow>
     files_below listdir isdir (p # ps) = Some (Inr (tree_files p t @ fs))"
proof (induction listdir isdir p t arbitrary: ps fs rule: holds_tree.induct)
  case (1 listdir isdir p)
  then show ?case by (subst files_below.simps) simp
next
  case (2 listdir isdir p ts)
  have nil: "files_below listdir isdir [] = Some (Inr [])" by (subst files_below.simps) simp
  have "files_below listdir isdir (map (build_path p) (map fst us)) = Some (Inr (tree_files p (Dir us)))"
    if "set us \<subseteq> set ts" for us
    using that
  proof (induction us)
    case (Cons u us)
    obtain n t where u: "u = (n, t)" by (cases u)
    with Cons have "(n, t) \<in> set ts" "holds_tree listdir isdir (build_path p n) t" using "2.prems"(1) by auto
    with "2.IH" [OF this(1) refl] Cons u show ?case by simp
  qed (simp add: nil)
  from this [of ts] have "files_below listdir isdir (map (build_path p) (map fst ts)) = Some (Inr (tree_files p (Dir ts)))" by simp
  then show ?case using "2.prems" by (subst files_below.simps) simp
qed

lemma children_files_below:
  assumes "\<forall>(n, t) \<in> set us. holds_tree listdir isdir (build_path p n) t"
  shows "files_below listdir isdir (map (build_path p) (map fst us)) = Some (Inr (tree_files p (Dir us)))"
  using assms
proof (induction us)
  case Nil
  show ?case by (subst files_below.simps) simp
next
  case (Cons u us)
  obtain n t where u: "u = (n, t)" by (cases u)
  with Cons.prems have "holds_tree listdir isdir (build_path p n) t" by simp
  from tree_files_below [OF this Cons.IH] Cons.prems u show ?case by simp
qed

text \<open>The walk over a directory of finite depth ends and gives the files below it, depth first.\<close>

theorem get_files_lists_tree:
  assumes "holds_tree listdir isdir d (Dir ts)"
  shows "get_files listdir isdir d = Some (Inr (tree_files d (Dir ts)))"
proof -
  from assms have "listdir d = Inr (map fst ts)" and "\<forall>(n, t) \<in> set ts. holds_tree listdir isdir (build_path d n) t" by auto
  with children_files_below [OF this(2)] show ?thesis by (simp add: get_files_def)
qed

section \<open>Directories\<close>

text \<open>A private directory is one when the call returns, whatever another process did before the last look.\<close>

lemma private_dir_is_no_link:
  assumes "create_private_dir_raced other p s = (Inr (), s')"
  shows "\<not> is_link s' p \<and> \<not> is_link s p"
  using assms by (auto simp: create_private_dir_raced_def io_bind_def Let_def split: if_splits prod.splits sum.splits)

lemma exclusive_file_is_new:
  assumes "open_exclusive p s = (Inr d, s')"
  shows "fs_entries s p = None \<and> fs_entries s' = (fs_entries s)(p := Some (Regular []))"
  using assms unfolding open_exclusive_def
  by (auto elim!: syscallE simp: same_fs_def new_descriptor_def split: if_splits)

lemma extended_path_idem: "extended_path (extended_path p) = extended_path p"
  by (simp add: extended_path_def Let_def starts_with_iff)

end
