(* ===== verification/Transport.thy ===== *)
theory Transport
  imports Requester Files
begin

text \<open>
  What \<open>lib/connection/requester.py\<close> puts between the requesters and the HTTP libraries: connections of
  urllib3 that go to a forced address and send the raw request target, transports of httpx that do the
  same, the transport that changes between proxies, and the closing of sessions; with the cache of
  \<open>lib/core/decorators.py\<close>, through which the rate is read.  What the libraries do with a request is a
  function on a world, an argument.
\<close>

section \<open>Connections of the synchronous requester\<close>

text \<open>\<open>_new_conn\<close> of urllib3 connects to \<open>_dns_host\<close>, which is put back afterwards.\<close>

record 'w connection =
  cn_dns_host :: string
  cn_port :: nat
  cn_world :: 'w

definition new_conn ::
  "ip_overrides option \<Rightarrow> ('w connection, 'c) io \<Rightarrow> ('w connection, 'c) io" where
  "new_conn overrides super c =
     (case overrides of
        None \<Rightarrow> super c
      | Some ov \<Rightarrow>
          (case get_override (cn_dns_host c) (cn_port c) ov of
             None \<Rightarrow> super c
           | Some forced_ip \<Rightarrow>
               ensure super (\<lambda>c'. ret () (c'\<lparr>cn_dns_host := cn_dns_host c\<rparr>)) (c\<lparr>cn_dns_host := forced_ip\<rparr>)))"

text \<open>The state of a thread: the target of the request that is being sent, if any.\<close>

record 'w thread =
  th_target :: "string option"
  th_world :: 'w

definition connection_request :: "(string \<Rightarrow> ('w thread, 'a) io) \<Rightarrow> string \<Rightarrow> ('w thread, 'a) io" where
  "connection_request super url t =
     (case th_target t of
        Some (c # cs) \<Rightarrow> super (c # cs) t
      | _ \<Rightarrow> super url t)"

definition adapter_send ::
  "string option \<Rightarrow> string \<Rightarrow> ('w thread, 'a) io \<Rightarrow> ('w thread, 'a) io" where
  "adapter_send tgt default_url super t =
     (case tgt of
        Some (c # cs) \<Rightarrow>
          (case adapter_request_url tgt default_url of
             Inl e \<Rightarrow> raise e t
           | Inr url \<Rightarrow>
               ensure super
                 (\<lambda>t'. if th_target t' = None then raise (AttributeError ''target'') t' else ret () (t'\<lparr>th_target := None\<rparr>))
                 (t\<lparr>th_target := Some url\<rparr>))
      | _ \<Rightarrow> super t)"

datatype pool_class = HttpPool | HttpsPool | SocksHttpPool | SocksHttpsPool

definition direct_pool_classes :: "(string \<times> pool_class) list" where
  "direct_pool_classes = [(''http'', HttpPool), (''https'', HttpsPool)]"

definition proxy_pool_classes :: "string \<Rightarrow> (string \<times> pool_class) list" where
  "proxy_pool_classes proxy =
     (if starts_with (lower proxy) ''socks'' then [(''http'', SocksHttpPool), (''https'', SocksHttpsPool)]
      else [(''http'', HttpPool), (''https'', HttpsPool)])"

text \<open>A new pool hands the overrides to its connections.\<close>

record pool =
  pl_class :: pool_class
  pl_host :: string
  pl_port :: nat
  pl_ip_overrides :: "ip_overrides option"

definition new_pool :: "ip_overrides \<Rightarrow> (string \<times> pool_class) list \<Rightarrow> string \<Rightarrow> string \<Rightarrow> nat \<Rightarrow> pool result" where
  "new_pool ov classes scheme host port =
     (case map_of classes scheme of
        None \<Rightarrow> Inl KeyError
      | Some c \<Rightarrow> Inr \<lparr>pl_class = c, pl_host = host, pl_port = port, pl_ip_overrides = Some ov\<rparr>)"

text \<open>\<open>_is_requests_ssl_error\<close> follows the causes and then the contexts as long as there are some.\<close>

partial_function (option) chain_has ::
  "(error_node \<Rightarrow> nat option) \<Rightarrow> error_graph \<Rightarrow> nat option \<Rightarrow> bool option" where
  "chain_has next g i =
     (case Option.bind i (map_of g) of
        None \<Rightarrow> Some False
      | Some e \<Rightarrow> if instance_of [''ssl.SSLError''] e then Some True else chain_has next g (next e))"

definition is_requests_ssl_error :: "error_graph \<Rightarrow> nat \<Rightarrow> bool option" where
  "is_requests_ssl_error g i =
     (case map_of g i of
        None \<Rightarrow> Some False
      | Some e \<Rightarrow>
          if instance_of [''requests.SSLError''] e then Some True
          else Option.bind (chain_has en_cause g (en_cause e))
            (\<lambda>found. if found then Some True else chain_has en_context g (en_context e)))"

section \<open>Transports of the asynchronous requester\<close>

text \<open>A request of httpx.  Its URL has no port when the port is the one of its scheme.\<close>

record hx_request =
  hx_method :: string
  hx_scheme :: string
  hx_host :: string
  hx_port :: "nat option"
  hx_path :: string
  hx_headers :: "(string \<times> string) list"
  hx_target :: "string option"
  hx_sni :: "string option"

record hx_response =
  hr_status :: nat
  hr_location :: "string option"

definition has_redirect_location :: "hx_response \<Rightarrow> bool" where
  "has_redirect_location r \<longleftrightarrow> hr_status r \<in> {301, 302, 303, 307, 308} \<and> hr_location r \<noteq> None"

definition hx_default_port :: "string \<Rightarrow> nat option" where
  "hx_default_port scheme = map_of [(''http'', 80), (''https'', 443), (''ws'', 80), (''wss'', 443), (''ftp'', 21)] scheme"

definition normal_port :: "string \<Rightarrow> nat \<Rightarrow> nat option" where
  "normal_port scheme port = (if hx_default_port scheme = Some port then None else Some port)"

text \<open>A transport answers a request, and may change the request object it was given.\<close>

type_synonym 'w transport = "hx_request \<Rightarrow> 'w \<Rightarrow> (hx_response \<times> hx_request) result \<times> 'w"

definition pop_target :: "hx_response \<Rightarrow> hx_request \<Rightarrow> hx_request" where
  "pop_target r req = (if has_redirect_location r then req\<lparr>hx_target := None\<rparr> else req)"

definition override_of :: "ip_overrides \<Rightarrow> hx_request \<Rightarrow> string option" where
  "override_of ov req = (case hx_port req of None \<Rightarrow> None | Some port \<Rightarrow> get_override (hx_host req) port ov)"

definition ip_override_transport :: "(hx_request \<Rightarrow> ('w, hx_response) io) \<Rightarrow> ip_overrides \<Rightarrow> 'w transport" where
  "ip_override_transport base ov req =
     io_bind
       (case override_of ov req of
          None \<Rightarrow> base req
        | Some forced_ip \<Rightarrow>
            base (req\<lparr>hx_host := forced_ip,
                      hx_sni := (if hx_scheme req = ''https'' then Some (hx_host req) else hx_sni req)\<rparr>))
       (\<lambda>r. ret (r, pop_target r req))"

text \<open>The request to httpcore has the target in its URL and not in its extensions.\<close>

definition path_preserving_transport ::
  "(hx_request \<Rightarrow> ('w, hx_response) io) \<Rightarrow> (hx_request \<Rightarrow> ('w, hx_response) io) \<Rightarrow> 'w transport" where
  "path_preserving_transport base core req =
     (case hx_target req of
        None \<Rightarrow> io_bind (base req) (\<lambda>r. ret (r, req))
      | Some tgt \<Rightarrow> io_bind (core (req\<lparr>hx_path := tgt, hx_target := None\<rparr>)) (\<lambda>r. ret (r, pop_target r req)))"

definition rotating_transport :: "(nat \<Rightarrow> 'w \<Rightarrow> nat \<times> 'w) \<Rightarrow> 'w transport list \<Rightarrow> 'w transport" where
  "rotating_transport choice ts req w = (case choice (length ts) w of (i, w') \<Rightarrow> (ts ! i) req w')"

text \<open>\<open>aclose\<close> of the rotating transport: all are closed, the first failure is raised at the end.\<close>

fun close_each :: "('w, unit) io list \<Rightarrow> exc option \<Rightarrow> 'w \<Rightarrow> exc option \<times> 'w" where
  "close_each [] first w = (first, w)"
| "close_each (c # cs) first w =
     (case c w of
        (Inr _, w') \<Rightarrow> close_each cs first w'
      | (Inl e, w') \<Rightarrow> close_each cs (case first of None \<Rightarrow> Some e | Some e0 \<Rightarrow> Some e0) w')"

definition close_rotating :: "('w, unit) io list \<Rightarrow> ('w, unit) io" where
  "close_rotating cs w =
     (case close_each cs None w of (None, w') \<Rightarrow> ret () w' | (Some e, w') \<Rightarrow> raise e w')"

text \<open>What httpx does with redirects: the request of the next hop is made from the one before, its
  extensions included, and the number of redirects is bounded.\<close>

fun follow_redirects ::
  "nat \<Rightarrow> (hx_request \<Rightarrow> hx_response \<Rightarrow> hx_request) \<Rightarrow> 'w transport \<Rightarrow> hx_request \<Rightarrow> 'w \<Rightarrow> hx_response result \<times> 'w" where
  "follow_redirects 0 build send req w = (Inl (RequestException ''Too many redirects''), w)"
| "follow_redirects (Suc n) build send req w =
     (case send req w of
        (Inl e, w') \<Rightarrow> (Inl e, w')
      | (Inr (r, req'), w') \<Rightarrow>
          if has_redirect_location r then follow_redirects n build send (build req' r) w' else (Inr r, w'))"

section \<open>The sessions of the asynchronous requester\<close>

text \<open>The routes of the environment: a pattern and its proxy, or none where the default transport goes.\<close>

datatype route = Rotating "string option list" | Overriding | Inherited string

definition default_route :: "(string \<Rightarrow> string option result) \<Rightarrow> string list \<Rightarrow> route result" where
  "default_route parse proxies =
     (if proxies \<noteq> [] then rbind (rmap parse proxies) (\<lambda>ps. Inr (Rotating ps)) else Inr Overriding)"

definition environment_mounts :: "string list \<Rightarrow> (string \<times> string option) list \<Rightarrow> (string \<times> route option) list" where
  "environment_mounts proxies env =
     (if proxies \<noteq> [] then []
      else map (\<lambda>(pattern, proxy). (pattern, map_option Inherited proxy)) env)"

definition inherited_transports :: "(string \<times> route option) list \<Rightarrow> route list" where
  "inherited_transports mounts = List.map_filter snd mounts"

text \<open>The transport of a URL is the one of the first pattern that fits; \<open>fits\<close> is httpx.\<close>

definition transport_for :: "(string \<Rightarrow> string \<Rightarrow> bool) \<Rightarrow> route \<Rightarrow> (string \<times> route option) list \<Rightarrow> string \<Rightarrow> route" where
  "transport_for fits default' mounts url =
     (case find (\<lambda>(pattern, _). fits pattern url) mounts of
        Some (_, Some r) \<Rightarrow> r
      | _ \<Rightarrow> default')"

definition uses_inherited_proxy ::
  "(string \<Rightarrow> string \<Rightarrow> bool) \<Rightarrow> route \<Rightarrow> (string \<times> route option) list \<Rightarrow> bool \<Rightarrow> string \<Rightarrow> bool" where
  "uses_inherited_proxy fits default' mounts own_session url \<longleftrightarrow>
     own_session \<and> inherited_transports mounts \<noteq> [] \<and>
     transport_for fits default' mounts url \<in> set (inherited_transports mounts)"

record ('w, 'ck) sessions =
  ss_auth :: "origin_auth option"
  ss_cookies :: 'ck
  ss_replay :: "(string option \<times> origin_auth option \<times> 'ck) option"
  ss_made :: nat
  ss_world :: 'w

text \<open>\<open>replay_request\<close>: the session is made once, with the proxy of the first call, and takes the
  authentication and the cookies over each time.\<close>

definition replay_request ::
  "(string \<Rightarrow> string option result) \<Rightarrow> 'ck \<Rightarrow> (string \<Rightarrow> (('w, 'ck) sessions, 'a) io) \<Rightarrow> string \<Rightarrow> string
     \<Rightarrow> (('w, 'ck) sessions, 'a) io" where
  "replay_request parse no_cookies send path proxy s =
     (case (case ss_replay s of
              Some replay \<Rightarrow> Inr s
            | None \<Rightarrow> rbind (parse proxy) (\<lambda>p. Inr (s\<lparr>ss_replay := Some (p, None, no_cookies), ss_made := Suc (ss_made s)\<rparr>))) of
        Inl e \<Rightarrow> raise e s
      | Inr s' \<Rightarrow>
          send path (s'\<lparr>ss_replay := map_option (\<lambda>(p, _, _). (p, ss_auth s, ss_cookies s)) (ss_replay s')\<rparr>))"

definition close_sessions :: "('w, unit) io option \<Rightarrow> ('w, unit) io \<Rightarrow> ('w, unit) io" where
  "close_sessions replay main = ensure (case replay of None \<Rightarrow> ret () | Some c \<Rightarrow> c) main"

section \<open>Cached values\<close>

text \<open>\<open>cached(timeout)\<close>: the key is the sum of the identities of the function and its arguments.\<close>

type_synonym 'a cache = "(int \<times> (rat \<times> 'a)) list"

definition cache_key :: "int \<Rightarrow> int list \<Rightarrow> int" where
  "cache_key function arguments = foldl (+) function arguments"

definition cached_call ::
  "rat \<Rightarrow> rat \<Rightarrow> rat \<Rightarrow> int \<Rightarrow> 'a \<Rightarrow> 'a cache \<Rightarrow> 'a \<times> 'a cache" where
  "cached_call timeout asked computed key fresh cache =
     (case map_of cache key of
        Some (stored, v) \<Rightarrow> if asked - stored < timeout then (v, cache) else (fresh, (key, computed, fresh) # cache)
      | None \<Rightarrow> (fresh, (key, computed, fresh) # cache))"

section \<open>What they keep\<close>

text \<open>However a connection ends, it goes to the forced address and has its host name back afterwards.\<close>

lemma override_restores_host:
  assumes "new_conn (Some ov) super c = (r, c')" "get_override (cn_dns_host c) (cn_port c) ov = Some ip"
  shows "cn_dns_host c' = cn_dns_host c \<and> (\<exists>c1. super (c\<lparr>cn_dns_host := ip\<rparr>) = (r, c1))"
  using assms by (auto simp: new_conn_def elim!: ensureE)

text \<open>The target of a request does not outlive its sending, whether that raises or not.\<close>

lemma target_is_cleared:
  assumes "adapter_send (Some (c # cs)) url super t = (r, t')" "adapter_request_url (Some (c # cs)) url = Inr u"
  shows "th_target t' = None"
  using assms by (auto simp: adapter_send_def raise_def ret_def elim!: ensureE split: if_splits)

text \<open>A transport that keeps raw targets to the first request of a chain of redirects.\<close>

definition drops_target :: "'w transport \<Rightarrow> bool" where
  "drops_target send \<longleftrightarrow>
     (\<forall>req w r req' w'. send req w = (Inr (r, req'), w') \<and> has_redirect_location r \<longrightarrow> hx_target req' = None)"

lemma transports_drop_target:
  "drops_target (ip_override_transport base ov)"
  "drops_target (path_preserving_transport base core)"
  by (auto simp: drops_target_def ip_override_transport_def path_preserving_transport_def pop_target_def
      io_bind_def ret_def split: option.splits prod.splits sum.splits)

lemma rotating_drops_target:
  assumes "\<forall>t \<in> set ts. drops_target t" "\<And>n w. n \<noteq> 0 \<Longrightarrow> fst (choice n w) < n" "ts \<noteq> []"
  shows "drops_target (rotating_transport choice ts)"
  unfolding drops_target_def rotating_transport_def
proof (intro allI impI)
  fix req w r req' w'
  assume h: "(case choice (length ts) w of (i, w') \<Rightarrow> (ts ! i) req w') = (Inr (r, req'), w') \<and> has_redirect_location r"
  obtain i w1 where c: "choice (length ts) w = (i, w1)" by (cases "choice (length ts) w")
  have "i < length ts" using assms(2) [of "length ts" w] assms(3) c by simp
  then have "drops_target (ts ! i)" using assms(1) by auto
  moreover have "(ts ! i) req w1 = (Inr (r, req'), w')" "has_redirect_location r" using h c by auto
  ultimately show "hx_target req' = None" unfolding drops_target_def by blast
qed

text \<open>The requests of a chain, as the transport gets them.\<close>

fun hop_targets ::
  "nat \<Rightarrow> (hx_request \<Rightarrow> hx_response \<Rightarrow> hx_request) \<Rightarrow> 'w transport \<Rightarrow> hx_request \<Rightarrow> 'w \<Rightarrow> string option list" where
  "hop_targets 0 build send req w = []"
| "hop_targets (Suc n) build send req w =
     hx_target req #
     (case send req w of
        (Inl e, w') \<Rightarrow> []
      | (Inr (r, req'), w') \<Rightarrow>
          if has_redirect_location r then hop_targets n build send (build req' r) w' else [])"

lemma dropped_hops:
  assumes "drops_target send" "\<And>req r. hx_target (build req r) = hx_target req"
  shows "set (tl (hop_targets n build send req w)) \<subseteq> {None}"
    and "hx_target req = None \<Longrightarrow> set (hop_targets n build send req w) \<subseteq> {None}"
proof -
  have "set (tl (hop_targets n build send req w)) \<subseteq> {None} \<and>
      (hx_target req = None \<longrightarrow> set (hop_targets n build send req w) \<subseteq> {None})"
  proof (induction n arbitrary: req w)
    case (Suc n)
    obtain a w' where s: "send req w = (a, w')" by (cases "send req w")
    show ?case
    proof (cases "\<exists>r req'. a = Inr (r, req') \<and> has_redirect_location r")
      case True
      then obtain r req' where a: "a = Inr (r, req')" "has_redirect_location r" by blast
      with s assms(1) have "hx_target req' = None" unfolding drops_target_def by blast
      then have "hx_target (build req' r) = None" by (simp add: assms(2))
      with Suc.IH [of "build req' r" w'] s a show ?thesis by simp
    qed (auto simp: s split: sum.splits)
  qed simp
  then show "set (tl (hop_targets n build send req w)) \<subseteq> {None}"
    and "hx_target req = None \<Longrightarrow> set (hop_targets n build send req w) \<subseteq> {None}" by blast+
qed

text \<open>Closing reaches every transport, and raises the first failure.\<close>

fun run_each :: "('w, unit) io list \<Rightarrow> 'w \<Rightarrow> unit result list \<times> 'w" where
  "run_each [] w = ([], w)"
| "run_each (c # cs) w = (case c w of (r, w') \<Rightarrow> (case run_each cs w' of (rs, w'') \<Rightarrow> (r # rs, w'')))"

fun first_error :: "unit result list \<Rightarrow> exc option" where
  "first_error [] = None"
| "first_error (Inl e # rs) = Some e"
| "first_error (Inr _ # rs) = first_error rs"

lemma close_each_run:
  "close_each cs first w =
     (case first of Some e \<Rightarrow> Some e | None \<Rightarrow> first_error (fst (run_each cs w)), snd (run_each cs w))"
  by (induction cs arbitrary: first w) (auto split: option.splits prod.splits sum.splits)

lemma close_rotating_reaches_all:
  assumes "run_each cs w = (rs, w')"
  shows "close_rotating cs w = (case first_error rs of None \<Rightarrow> Inr () | Some e \<Rightarrow> Inl e, w')"
  using assms by (auto simp: close_rotating_def close_each_run raise_def split: option.splits)

lemma close_sessions_closes_main:
  "snd (close_sessions replay main w) = snd (main (case replay of None \<Rightarrow> w | Some c \<Rightarrow> snd (c w)))"
  by (auto simp: close_sessions_def ensure_def ret_def split: option.splits prod.splits sum.splits)

text \<open>A forced address of a target on the default port of its scheme: the key has the port, the request of
  httpx has none, so the address is not used.\<close>

lemma default_port_not_overridden:
  assumes "hx_default_port (hx_scheme req) = Some port" "hx_port req = normal_port (hx_scheme req) port"
  shows "override_of (set_override host port ip ov) req = None"
    and "ip_override_transport base ov' req w = io_bind (base req) (\<lambda>r. ret (r, pop_target r req)) w"
  using assms by (simp_all add: override_of_def normal_port_def ip_override_transport_def)

lemma other_port_overridden:
  assumes "hx_default_port (hx_scheme req) \<noteq> Some port" "hx_port req = normal_port (hx_scheme req) port"
    "override_key (hx_host req) port = override_key host port"
  shows "override_of (set_override host port ip ov) req = Some ip"
  using assms by (simp add: override_of_def normal_port_def set_override_def get_override_def update_conv')

text \<open>With forced addresses the asynchronous requester connects to the forced address exactly when the
  port of the target is not the one its scheme implies; on a default port, where httpx gives no port, the
  name is resolved as if \<open>--ip\<close> had not been given.\<close>
theorem forced_address_needs_explicit_port:
  assumes "hx_port req = normal_port (hx_scheme req) port" "override_key (hx_host req) port = override_key host port"
  shows "fst (ip_override_transport (\<lambda>q w. (Inr \<lparr>hr_status = 200, hr_location = None\<rparr>, hx_host q))
      (set_override host port ip ov) req w) = Inr (\<lparr>hr_status = 200, hr_location = None\<rparr>, req) \<and>
    snd (ip_override_transport (\<lambda>q w. (Inr \<lparr>hr_status = 200, hr_location = None\<rparr>, hx_host q))
      (set_override host port ip ov) req w) =
      (if hx_default_port (hx_scheme req) = Some port then hx_host req else ip)"
proof (cases "hx_default_port (hx_scheme req) = Some port")
  case True
  from default_port_not_overridden(1) [OF True assms(1)] True show ?thesis
    by (simp add: ip_override_transport_def io_bind_def ret_def pop_target_def has_redirect_location_def)
next
  case False
  from other_port_overridden [OF False assms] False show ?thesis
    by (simp add: ip_override_transport_def io_bind_def ret_def pop_target_def has_redirect_location_def)
qed

definition sample_hx :: hx_request where
  "sample_hx = \<lparr>hx_method = ''GET'', hx_scheme = ''https'', hx_host = ''h.example'', hx_port = None, hx_path = ''/'',
     hx_headers = [], hx_target = Some ''/a/../b'', hx_sni = None\<rparr>"

theorem forced_address_needs_explicit_port_witness:
  "snd (ip_override_transport (\<lambda>q w. (Inr \<lparr>hr_status = 200, hr_location = None\<rparr>, hx_host q))
      (set_override ''h.example'' 443 ''10.0.0.1'' []) sample_hx []) = ''h.example''"
proof -
  have "hx_port sample_hx = normal_port (hx_scheme sample_hx) 443"
    by (simp add: sample_hx_def normal_port_def hx_default_port_def)
  from forced_address_needs_explicit_port [OF this, of "''h.example''" "''10.0.0.1''" "[]" "[]"] show ?thesis
    by (simp add: sample_hx_def hx_default_port_def)
qed

text \<open>A cached value is younger than the timeout, or it is the fresh one and is kept.\<close>

lemma cached_value_is_recent:
  assumes "cached_call timeout asked computed key fresh cache = (v, cache')"
  shows "(v = fresh \<and> map_of cache' key = Some (computed, fresh)) \<or>
    (cache' = cache \<and> (\<exists>stored. map_of cache key = Some (stored, v) \<and> asked - stored < timeout))"
  using assms by (auto simp: cached_call_def split: option.splits if_splits)

lemma cache_key_ignores_order: "cache_key f [a, b] = cache_key f [b, a]"
  by (simp add: cache_key_def)

end
