(* ===== verification/Lifecycle.thy ===== *)
theory Lifecycle
  imports Controller Requester Files Stores
begin

text \<open>
  The life of the controller around its loops (\<open>lib/controller/controller.py\<close>): what the constructor sets
  up, which parts the run is wired to, how a directory is scanned in the native and the asynchronous
  mode, what a saved session waits for, and how everything is released, whatever raises.  A part is an
  entry of a record; what is done to the parts is a log of acts, each of which may raise.
\<close>

section \<open>Parts and acts\<close>

datatype act =
    FinishReporter | FlushReporter | CloseRequester | CloseRequesterInLoop | CloseLoop | CloseStore string
  | SaveSession string | DeleteSession string

record parts =
  pa_reporter :: bool
  pa_reporter_finished :: bool
  pa_requester :: bool
  pa_loop :: bool
  pa_stores :: "string list"
  pa_session_file :: "string option"
  pa_log :: "(act \<times> bool) list"

text \<open>An act is logged with whether it returned; \<open>fails\<close> says what it raises.\<close>

definition do_act :: "(act \<Rightarrow> exc option) \<Rightarrow> act \<Rightarrow> (parts, unit) io" where
  "do_act fails a p =
     (case fails a of
        None \<Rightarrow> ret () (p\<lparr>pa_log := pa_log p @ [(a, True)]\<rparr>)
      | Some e \<Rightarrow> raise e (p\<lparr>pa_log := pa_log p @ [(a, False)]\<rparr>))"

definition close_reporter :: "(act \<Rightarrow> exc option) \<Rightarrow> (parts, unit) io" where
  "close_reporter fails p =
     (if \<not> pa_reporter p \<or> pa_reporter_finished p then ret () p
      else ensure (do_act fails FinishReporter) (\<lambda>p. ret () (p\<lparr>pa_reporter_finished := True\<rparr>)) p)"

definition close_requester :: "(act \<Rightarrow> exc option) \<Rightarrow> (parts, unit) io" where
  "close_requester fails p =
     (if \<not> pa_requester p then (if pa_loop p then do_act fails CloseLoop p else ret () p)
      else if \<not> pa_loop p then do_act fails CloseRequester p
      else ensure (do_act fails CloseRequesterInLoop) (do_act fails CloseLoop) p)"

fun close_stores :: "(act \<Rightarrow> exc option) \<Rightarrow> string list \<Rightarrow> (parts, unit) io" where
  "close_stores fails [] = ret ()"
| "close_stores fails (name # names) =
     (\<lambda>p. case do_act fails (CloseStore name) p of
            (Inl (OSError e), p') \<Rightarrow> close_stores fails names p'
          | (Inl e, p') \<Rightarrow> raise e p'
          | (Inr _, p') \<Rightarrow> close_stores fails names p')"

definition close_response_stores :: "(act \<Rightarrow> exc option) \<Rightarrow> (parts, unit) io" where
  "close_response_stores fails p = close_stores fails (pa_stores p) p"

text \<open>The constructor: setting up or resuming, the run, and the chain of \<open>finally\<close> clauses.\<close>

definition construct :: "(act \<Rightarrow> exc option) \<Rightarrow> (parts, unit) io \<Rightarrow> (parts, unit) io \<Rightarrow> (parts, unit) io" where
  "construct fails prepare run =
     ensure (io_bind prepare (\<lambda>_. run))
       (ensure (close_reporter fails) (ensure (close_requester fails) (close_response_stores fails)))"

text \<open>The end of \<open>run\<close>, after its loop over the targets returned or raised.\<close>

definition finish_run :: "(act \<Rightarrow> exc option) \<Rightarrow> unit result \<Rightarrow> (parts, unit) io" where
  "finish_run fails outcome =
     (case outcome of
        Inr _ \<Rightarrow>
          io_bind (close_reporter fails) (\<lambda>_ p.
            case pa_session_file p of
              Some (c # cs) \<Rightarrow>
                (case do_act fails (DeleteSession (c # cs)) p of
                   (Inl (OSError e), p') \<Rightarrow> ret () p'
                 | r \<Rightarrow> r)
            | _ \<Rightarrow> ret () p)
      | Inl (QuitInterrupt m) \<Rightarrow> io_bind (close_reporter fails) (\<lambda>_. raise (SystemExit ''0''))
      | Inl e \<Rightarrow> raise e)"

text \<open>\<open>_export\<close>: the report is flushed before the session is written; \<open>made\<close> is what making the
  directory of the session gives.\<close>

definition export_session :: "(act \<Rightarrow> exc option) \<Rightarrow> unit result \<Rightarrow> string \<Rightarrow> (parts, unit) io" where
  "export_session fails made session_file =
     io_bind (\<lambda>p. (made, p)) (\<lambda>_.
     io_bind (do_act fails FlushReporter) (\<lambda>_. do_act fails (SaveSession session_file)))"

section \<open>Setting up\<close>

text \<open>What \<open>setup\<close> finds: the raw request and the checks of it, the dictionary, the log file, the
  response stores and the reports.\<close>

record setup_env =
  su_raw_file :: bool
  su_raw :: "(string list \<times> string \<times> (string \<times> string) list \<times> string) result"
  su_agent_check :: "unit result"
  su_native :: bool
  su_native_error :: "string option"
  su_headers :: "(string \<times> string) list"
  su_dictionary :: "dictionary result"
  su_log_file :: bool
  su_log_dir :: "unit result"
  su_log_writable :: bool
  su_logging :: "unit result"
  su_stores :: "string list result"
  su_reports :: "unit result"

text \<open>What comes of it: targets, method, headers, body where a raw request gave them, dictionary, stores.\<close>

record setup_state =
  st_request :: "(string list \<times> string \<times> string) option"
  st_headers :: "(string \<times> string) list"
  st_dictionary :: dictionary
  st_stores :: "string list"

definition exit_failure :: exc where
  "exit_failure = SystemExit ''1''"

definition setup_request :: "setup_env \<Rightarrow> ((string list \<times> string \<times> string) option \<times> (string \<times> string) list) result" where
  "setup_request env =
     (if su_raw_file env
      then rbind (case rbind (su_raw env) (\<lambda>raw. rbind (su_agent_check env) (\<lambda>_. Inr raw)) of
                    Inl (InvalidRawRequest e) \<Rightarrow> Inl exit_failure
                  | r \<Rightarrow> r)
             (\<lambda>(urls, meth, headers, body).
               if su_native env \<and> su_native_error env \<noteq> None then Inl exit_failure
               else Inr (Some (urls, meth, body), headers))
      else Inr (None, dict_of (default_headers @ su_headers env)))"

definition setup_dictionary :: "setup_env \<Rightarrow> dictionary result" where
  "setup_dictionary env =
     (case su_dictionary env of Inl (WordlistLimitError e) \<Rightarrow> Inl exit_failure | r \<Rightarrow> r)"

definition setup_log_file :: "setup_env \<Rightarrow> unit result" where
  "setup_log_file env =
     (if \<not> su_log_file env then Inr ()
      else (case rbind (su_log_dir env) (\<lambda>_.
              if \<not> su_log_writable env then Inl (OSError ''Cannot write log file'') else su_logging env) of
              Inl (OSError e) \<Rightarrow> Inl exit_failure
            | r \<Rightarrow> r))"

definition setup_controller :: "setup_env \<Rightarrow> setup_state result" where
  "setup_controller env =
     rbind (setup_request env) (\<lambda>(req, headers).
     rbind (setup_dictionary env) (\<lambda>d.
     rbind (setup_log_file env) (\<lambda>_.
     rbind (prepare_response_stores (su_stores env, ())) (\<lambda>stores.
     rbind (case su_reports env of Inl (InvalidURLException e) \<Rightarrow> Inl exit_failure | r \<Rightarrow> r) (\<lambda>_.
       Inr \<lparr>st_request = req, st_headers = headers, st_dictionary = d, st_stores = stores\<rparr>)))))"

section \<open>Wiring\<close>

datatype backend_kind = SyncBackend | AsyncBackend | NativeBackend

datatype callback =
    MatchCallback | ReportSave | ReportSaveAsync | StoreSave | StoreSaveAsync | ResetErrors | UpdateProgress
  | RaiseError | LogError | ProgressBatch | ResetErrorsBatch

definition backend_of :: "string \<Rightarrow> bool \<Rightarrow> backend_kind" where
  "backend_of request_backend async_mode =
     (if request_backend = ''native'' then NativeBackend else if async_mode then AsyncBackend else SyncBackend)"

definition report_match_callback :: "bool \<Rightarrow> string \<Rightarrow> bool \<Rightarrow> callback" where
  "report_match_callback reports request_backend async_mode =
     (if reports \<and> request_backend \<noteq> ''native'' \<and> async_mode then ReportSaveAsync else ReportSave)"

definition match_callbacks :: "bool \<Rightarrow> bool \<Rightarrow> string \<Rightarrow> bool \<Rightarrow> callback list" where
  "match_callbacks reports stores request_backend async_mode =
     [MatchCallback, report_match_callback reports request_backend async_mode] @
     (if stores then [if request_backend \<noteq> ''native'' \<and> async_mode then StoreSaveAsync else StoreSave] else []) @
     [ResetErrors]"

definition not_found_callbacks :: "callback list" where
  "not_found_callbacks = [UpdateProgress, ResetErrors]"

definition error_callbacks :: "callback list" where
  "error_callbacks = [RaiseError, LogError]"

definition filtered_chunk_callbacks :: "string \<Rightarrow> callback list" where
  "filtered_chunk_callbacks request_backend =
     (if request_backend = ''native'' then [ProgressBatch, ResetErrorsBatch] else [])"

text \<open>The effect of the callbacks on the count of errors in a row.\<close>

definition reset_consecutive_errors_batch :: "nat \<Rightarrow> controller \<Rightarrow> controller" where
  "reset_consecutive_errors_batch scanned_paths c = c\<lparr>c_consecutive_errors := 0\<rparr>"

section \<open>Scanning a directory\<close>

text \<open>What happened to a worker of the native fuzzer: what was raised while it was started or waited for,
  whether it lived then and after the last wait, what it raised, whether the timer went off.\<close>

record native_run =
  nr_pending :: "exc option"
  nr_alive :: bool
  nr_alive_after_join :: bool
  nr_worker_error :: "exc option"
  nr_deadline :: bool

text \<open>The result, whether the fuzzer was told to quit, and whether the worker is still the controller's.\<close>

definition start_native_fuzzer ::
  "ctl_options \<Rightarrow> rat \<Rightarrow> rat \<Rightarrow> rat \<Rightarrow> native_run \<Rightarrow> controller \<Rightarrow> unit result \<times> bool \<times> bool" where
  "start_native_fuzzer opts start_time now finished run c =
     (case get_time_limit opts now start_time c of
        Inl e \<Rightarrow> (Inl e, False, False)
      | Inr limit \<Rightarrow>
          (let told = (nr_pending run \<noteq> None \<and> nr_alive run) \<or> (limit \<noteq> None \<and> nr_deadline run) in
           if nr_alive run \<and> nr_alive_after_join run
           then (Inl (QuitInterrupt ''Native scan did not stop safely''), told, True)
           else (case nr_pending run of
             Some e \<Rightarrow> (Inl e, told, False)
           | None \<Rightarrow>
               (case nr_worker_error run of
                  Some e \<Rightarrow> (Inl e, told, False)
                | None \<Rightarrow>
                    (case limit of
                       None \<Rightarrow> (Inr (), told, False)
                     | Some (_, timeout_error) \<Rightarrow>
                         if nr_deadline run then (Inl timeout_error, told, False)
                         else (rbind (get_time_limit opts finished start_time c) (\<lambda>_. Inr ()), told, False))))))"

text \<open>One scan of the asynchronous fuzzer: whether waiting timed out, what the pause menu raised, and what
  the task gave.\<close>

definition start_coroutines ::
  "ctl_options \<Rightarrow> rat \<Rightarrow> rat \<Rightarrow> bool \<Rightarrow> exc option \<Rightarrow> unit result \<Rightarrow> controller \<Rightarrow> unit result" where
  "start_coroutines opts start_time now timed_out paused task c =
     (case get_time_limit opts now start_time c of
        Inl e \<Rightarrow> Inl e
      | Inr limit \<Rightarrow>
          if timed_out then (case limit of None \<Rightarrow> Inl (RuntimeError ''TimeoutError'') | Some (_, e) \<Rightarrow> Inl e)
          else (case paused of Some e \<Rightarrow> Inl e | None \<Rightarrow> task))"

text \<open>After a scan: the exceptions that end only the directory, and the workers that must have stopped.\<close>

definition end_directory :: "bool \<Rightarrow> bool \<Rightarrow> bool \<Rightarrow> unit result \<Rightarrow> unit result" where
  "end_directory threaded stopped native_alive outcome =
     (if threaded \<and> \<not> stopped then Inl (QuitInterrupt ''Threaded scan did not stop safely'')
      else if native_alive then Inl (QuitInterrupt ''Native scan did not stop safely'')
      else (case outcome of Inl KeyboardInterrupt \<Rightarrow> Inr () | Inl CancelledError \<Rightarrow> Inr () | r \<Rightarrow> r))"

section \<open>The output of earlier runs\<close>

definition rstrip_text :: "string \<Rightarrow> string" where
  "rstrip_text = rstrip_p is_space"

definition line_feed :: string where "line_feed = [CHR 0x0A]"

definition entry_heading :: "(pyval \<Rightarrow> string) \<Rightarrow> pyval \<Rightarrow> string" where
  "entry_heading local_time start_time =
     (case start_time of
        PyInt i \<Rightarrow> ''--- Previous run started: '' @ local_time start_time @ '' ---''
      | PyBool b \<Rightarrow> ''--- Previous run started: '' @ local_time start_time @ '' ---''
      | PyFloat x \<Rightarrow> ''--- Previous run started: '' @ local_time start_time @ '' ---''
      | _ \<Rightarrow> ''--- Previous run ---'')"

definition dict_get :: "(string \<times> pyval) list \<Rightarrow> string \<Rightarrow> pyval" where
  "dict_get kvs k = (case map_of kvs k of None \<Rightarrow> PyNone | Some v \<Rightarrow> v)"

definition format_entry :: "(pyval \<Rightarrow> string) \<Rightarrow> pyval \<Rightarrow> string list result" where
  "format_entry local_time record_value =
     (case record_value of
        PyDict kvs \<Rightarrow>
          (case dict_get kvs ''output'' of
             PyStr s \<Rightarrow> if s = [] then Inr [] else Inr [entry_heading local_time (dict_get kvs ''start_time''), rstrip_text s]
           | v \<Rightarrow> if py_truth v then Inl (AttributeError ''rstrip'') else Inr [])
      | _ \<Rightarrow> Inr [])"

definition format_output_history :: "(pyval \<Rightarrow> string) \<Rightarrow> pyval list \<Rightarrow> string result" where
  "format_output_history local_time history =
     rbind (rmap (format_entry local_time) history) (\<lambda>ls. Inr (rstrip_text (join line_feed (concat ls))))"

definition confirm_session_overwrite :: "string \<Rightarrow> string \<Rightarrow> string option" where
  "confirm_session_overwrite input session_file = (if lower (strip input) = ''n'' then None else Some session_file)"

section \<open>Force quitting\<close>

datatype quit_handler = StandardHandler | PyInstallerHandler

definition create_force_quit_handler :: "bool \<Rightarrow> string \<Rightarrow> quit_handler" where
  "create_force_quit_handler frozen platform =
     (if frozen \<and> starts_with platform ''linux'' then PyInstallerHandler else StandardHandler)"

text \<open>An interrupt while one is being handled; \<open>None\<close> is the end of the process.\<close>

definition interrupt_again :: "quit_handler \<Rightarrow> rat \<Rightarrow> force_quit \<Rightarrow> force_quit option" where
  "interrupt_again handler now f =
     (case handler of
        StandardHandler \<Rightarrow> None
      | PyInstallerHandler \<Rightarrow> (case check_force_quit now f of (forced, f') \<Rightarrow> if forced then None else Some f'))"

section \<open>Everything is released\<close>

lemma do_act_effect:
  "do_act fails a p = (case fails a of None \<Rightarrow> Inr () | Some e \<Rightarrow> Inl e, p\<lparr>pa_log := pa_log p @ [(a, fails a = None)]\<rparr>)"
  by (simp add: do_act_def raise_def split: option.splits)

text \<open>The acts of releasing, in order, up to the first store whose closing raises something unforeseen.\<close>

fun store_acts :: "(act \<Rightarrow> exc option) \<Rightarrow> string list \<Rightarrow> act list" where
  "store_acts fails [] = []"
| "store_acts fails (n # ns) =
     CloseStore n # (case fails (CloseStore n) of
        None \<Rightarrow> store_acts fails ns
      | Some (OSError e) \<Rightarrow> store_acts fails ns
      | Some e \<Rightarrow> [])"

definition release_acts :: "(act \<Rightarrow> exc option) \<Rightarrow> parts \<Rightarrow> act list" where
  "release_acts fails p =
     (if pa_reporter p \<and> \<not> pa_reporter_finished p then [FinishReporter] else []) @
     (if pa_requester p then [if pa_loop p then CloseRequesterInLoop else CloseRequester] else []) @
     (if pa_loop p then [CloseLoop] else []) @
     store_acts fails (pa_stores p)"

definition logged :: "(act \<Rightarrow> exc option) \<Rightarrow> act list \<Rightarrow> (act \<times> bool) list" where
  "logged fails as = map (\<lambda>a. (a, fails a = None)) as"

lemma logged_simps [simp]:
  "logged fails [] = []"
  "logged fails (a # as) = (a, fails a = None) # logged fails as"
  "logged fails (as @ bs) = logged fails as @ logged fails bs"
  by (simp_all add: logged_def)

lemma parts_log [simp]: "p\<lparr>pa_log := pa_log p\<rparr> = (p :: parts)"
  by simp

lemma ensure_snd: "snd (ensure act end' s) = snd (end' (snd (act s)))"
  by (auto simp: ensure_def split: prod.splits sum.splits)

lemma close_stores_log: "snd (close_stores fails ns p) = p\<lparr>pa_log := pa_log p @ logged fails (store_acts fails ns)\<rparr>"
proof (induction ns arbitrary: p)
  case (Cons n ns)
  then show ?case
    by (auto simp: do_act_effect raise_def split: option.splits exc.splits)
qed (simp add: ret_def)

lemma close_reporter_log:
  "snd (close_reporter fails p) =
     p\<lparr>pa_reporter_finished := pa_reporter_finished p \<or> pa_reporter p,
       pa_log := pa_log p @ (if pa_reporter p \<and> \<not> pa_reporter_finished p then logged fails [FinishReporter] else [])\<rparr>"
  by (auto simp: close_reporter_def ensure_snd do_act_effect ret_def)

lemma close_requester_log:
  "snd (close_requester fails p) =
     p\<lparr>pa_log := pa_log p @ logged fails
       ((if pa_requester p then [if pa_loop p then CloseRequesterInLoop else CloseRequester] else []) @
        (if pa_loop p then [CloseLoop] else []))\<rparr>"
  by (auto simp: close_requester_def ensure_snd do_act_effect ret_def)


text \<open>The reporter is finished once at most, by the run and the constructor together.\<close>

definition times_finished :: "parts \<Rightarrow> nat" where
  "times_finished p = length (filter (\<lambda>(a, _). a = FinishReporter) (pa_log p))"

definition account_ok :: "parts \<Rightarrow> bool" where
  "account_ok p \<longleftrightarrow> times_finished p = (if pa_reporter_finished p then 1 else 0)"

lemma close_reporter_account: "account_ok p \<Longrightarrow> account_ok (snd (close_reporter fails p))"
  by (auto simp: account_ok_def times_finished_def close_reporter_log)

lemma close_reporter_returns:
  "fst (close_reporter fails p) = Inr () \<longleftrightarrow> (pa_reporter p \<and> \<not> pa_reporter_finished p \<longrightarrow> fails FinishReporter = None)"
  by (auto simp: close_reporter_def ensure_def do_act_effect ret_def split: option.splits)

lemma io_bind_raise: "snd (io_bind m (\<lambda>_. raise e) p) = snd (m p)"
  by (auto simp: io_bind_def raise_def split: prod.splits sum.splits)

text \<open>The acts an operation adds to the log.\<close>

definition new_acts :: "(parts, unit) io \<Rightarrow> parts \<Rightarrow> act set" where
  "new_acts m p = fst ` set (drop (length (pa_log p)) (pa_log (snd (m p))))"

lemma new_acts_close_reporter: "new_acts (close_reporter fails) p \<subseteq> {FinishReporter}"
  by (auto simp: new_acts_def close_reporter_log)

lemma finish_run_failed: "new_acts (finish_run fails (Inl e)) p \<subseteq> {FinishReporter}"
proof (cases "\<exists>m. e = QuitInterrupt m")
  case True
  then obtain m where "e = QuitInterrupt m" by blast
  with new_acts_close_reporter [of fails p] show ?thesis
    by (simp add: finish_run_def new_acts_def io_bind_raise)
next
  case False
  then have "finish_run fails (Inl e) = raise e" by (cases e) (simp_all add: finish_run_def)
  then show ?thesis by (simp add: new_acts_def raise_def)
qed

lemma finish_run_returned:
  assumes "DeleteSession f \<in> new_acts (finish_run fails (Inr u)) p"
  shows "fst (close_reporter fails p) = Inr ()"
proof (rule ccontr)
  obtain r q where c: "close_reporter fails p = (r, q)" by (cases "close_reporter fails p")
  assume "fst (close_reporter fails p) \<noteq> Inr ()"
  with c obtain e where "r = Inl e" by (cases r) auto
  with c have "snd (finish_run fails (Inr u) p) = snd (close_reporter fails p)" by (simp add: finish_run_def io_bind_def)
  with assms new_acts_close_reporter [of fails p] show False by (auto simp: new_acts_def)
qed

lemma export_acts:
  assumes "SaveSession f \<in> new_acts (export_session fails made file) p"
  shows "made = Inr () \<and> fails FlushReporter = None \<and> f = file"
  using assms by (auto simp: export_session_def new_acts_def io_bind_def do_act_effect split: sum.splits option.splits)

text \<open>C22: A session is written only after its directory was made and the report was flushed, and the
  session file is deleted only when the run over the targets returned and the report is finished.\<close>
theorem session_waits_for_report:
  shows "(SaveSession f \<in> new_acts (export_session fails made file) p \<longrightarrow>
      made = Inr () \<and> fails FlushReporter = None \<and> f = file) \<and>
    (DeleteSession f \<in> new_acts (finish_run fails outcome) p \<longrightarrow>
      outcome = Inr () \<and> (pa_reporter p \<and> \<not> pa_reporter_finished p \<longrightarrow> fails FinishReporter = None))"
proof -
  have "outcome = Inr () \<and> fst (close_reporter fails p) = Inr ()" if "DeleteSession f \<in> new_acts (finish_run fails outcome) p"
    using that finish_run_failed [of fails _ p] finish_run_returned [of f fails "()" p] by (cases outcome) auto
  then show ?thesis using export_acts close_reporter_returns by blast
qed

definition sample_parts :: parts where
  "sample_parts = \<lparr>pa_reporter = True, pa_reporter_finished = False, pa_requester = True, pa_loop = True,
     pa_stores = [''directory'', ''jsonl''], pa_session_file = Some ''s.json'', pa_log = []\<rparr>"

theorem session_waits_for_report_witness:
  "DeleteSession ''s.json'' \<in> new_acts (finish_run (\<lambda>a. None) (Inr ())) sample_parts \<and>
   DeleteSession ''s.json'' \<notin> new_acts (finish_run (\<lambda>a. if a = FinishReporter then Some (OSError ''full'') else None) (Inr ())) sample_parts"
proof -
  have "DeleteSession ''s.json'' \<in> new_acts (finish_run (\<lambda>a. None) (Inr ())) sample_parts"
    by (simp add: new_acts_def finish_run_def sample_parts_def io_bind_def close_reporter_def ensure_def do_act_def ret_def)
  moreover have "DeleteSession ''s.json'' \<notin>
      new_acts (finish_run (\<lambda>a. if a = FinishReporter then Some (OSError ''full'') else None) (Inr ())) sample_parts"
    using session_waits_for_report [of "''s.json''" "\<lambda>a. if a = FinishReporter then Some (OSError ''full'') else None"
        "Inr ()" "''s.json''" sample_parts "Inr ()"] by (auto simp: sample_parts_def)
  ultimately show ?thesis by blast
qed


text \<open>A native scan returns only when its worker has ended by itself, without an error, before the deadline.\<close>

lemma native_scan_returns_iff:
  "fst (start_native_fuzzer opts start_time now finished run c) = Inr () \<longleftrightarrow>
     (\<exists>limit. get_time_limit opts now start_time c = Inr limit \<and>
        (nr_alive run \<longrightarrow> \<not> nr_alive_after_join run) \<and> nr_pending run = None \<and> nr_worker_error run = None \<and>
        (limit \<noteq> None \<longrightarrow> \<not> nr_deadline run \<and> (\<exists>l. get_time_limit opts finished start_time c = Inr l)))"
  by (auto simp: start_native_fuzzer_def Let_def rbind_eq_Inr split: sum.splits option.splits prod.splits if_splits)

lemma native_worker_kept_iff:
  assumes "start_native_fuzzer opts start_time now finished run c = (r, told, still)"
  shows "still \<longleftrightarrow> r = Inl (QuitInterrupt ''Native scan did not stop safely'') \<and> nr_alive run \<and> nr_alive_after_join run \<and>
    (\<exists>limit. get_time_limit opts now start_time c = Inr limit)"
  using assms by (auto simp: start_native_fuzzer_def Let_def split: sum.splits option.splits prod.splits if_splits)

lemma wiring_fits_backend:
  "StoreSaveAsync \<in> set (match_callbacks reports stores rb async_mode) \<Longrightarrow> backend_of rb async_mode = AsyncBackend"
  "ReportSaveAsync \<in> set (match_callbacks reports stores rb async_mode) \<Longrightarrow> backend_of rb async_mode = AsyncBackend"
  by (auto simp: match_callbacks_def report_match_callback_def backend_of_def split: if_splits)

lemma setup_needs_every_part:
  "setup_controller env = Inr st \<Longrightarrow>
     su_dictionary env = Inr (st_dictionary st) \<and> su_stores env = Inr (st_stores st) \<and> su_reports env = Inr () \<and>
     (su_log_file env \<longrightarrow> su_log_writable env)"
  by (auto simp: setup_controller_def rbind_eq_Inr setup_dictionary_def setup_log_file_def prepare_response_stores_def
      split: prod.splits sum.splits exc.splits if_splits)

end
