(* ===== verification/Logger.thy ===== *)
theory Logger
  imports Command
begin

text \<open>
  The log file (\<open>lib/core/logger.py\<close>): the redaction of every rendered line and the handlers of the
  logger.  Each of the patterns is scanned from left to right as \<open>re.sub\<close> does; their character classes
  leave one way to match at a position, so a scanner says directly what is matched.
\<close>

section \<open>The patterns\<close>

definition url_breaker :: "char \<Rightarrow> bool" where
  "url_breaker c \<longleftrightarrow> is_space c \<or> c = CHR 0x22 \<or> c = CHR 0x27 \<or> c = CHR ''<'' \<or> c = CHR ''>''"

definition is_letter :: "char \<Rightarrow> bool" where
  "is_letter c \<longleftrightarrow> is_lower c \<or> is_upper c"

definition scheme_char :: "char \<Rightarrow> bool" where
  "scheme_char c \<longleftrightarrow> is_letter c \<or> is_digit c \<or> c = CHR ''+'' \<or> c = CHR ''.'' \<or> c = CHR ''-''"

text \<open>\<open>\b[a-zA-Z][a-zA-Z0-9+.-]*://\<close> at a position, \<open>before\<close> the character to the left of it.\<close>

definition word_before :: "char option \<Rightarrow> bool" where
  "word_before before = (case before of None \<Rightarrow> False | Some c \<Rightarrow> is_word c)"

definition match_scheme :: "char option \<Rightarrow> string \<Rightarrow> (string \<times> string) option" where
  "match_scheme before s =
     (case s of
        [] \<Rightarrow> None
      | c # _ \<Rightarrow>
          if is_letter c \<and> \<not> word_before before \<and> starts_with (dropWhile scheme_char s) ''://''
          then Some (takeWhile scheme_char s @ ''://'', drop 3 (dropWhile scheme_char s)) else None)"

definition userinfo_char :: "char \<Rightarrow> bool" where
  "userinfo_char c \<longleftrightarrow> \<not> url_breaker c \<and> c \<noteq> CHR ''/'' \<and> c \<noteq> CHR ''?'' \<and> c \<noteq> CHR ''#''"

text \<open>\<open>[^/\s?#"'<>]+@\<close>: up to the last at sign of the run, with something before it.\<close>

definition match_userinfo :: "string \<Rightarrow> string option" where
  "match_userinfo s =
     (case rpartition (CHR ''@'') (takeWhile userinfo_char s) of
        (user, _, host) \<Rightarrow> if user = [] then None else Some (host @ dropWhile userinfo_char s))"

lemma match_scheme_shorter: "match_scheme before s = Some (scheme, s') \<Longrightarrow> length s' < length s"
  using length_dropWhile_le [of scheme_char s]
  by (auto simp: match_scheme_def starts_with_iff split: list.splits if_splits)

lemma match_userinfo_shorter: "match_userinfo s = Some s' \<Longrightarrow> length s' \<le> length s"
proof -
  assume m: "match_userinfo s = Some s'"
  let ?run = "takeWhile userinfo_char s"
  have "length (rev (takeWhile P (rev ?run))) \<le> length ?run" for P by (metis length_rev length_takeWhile_le)
  with m have "length s' \<le> length ?run + length (dropWhile userinfo_char s)"
    by (auto simp: match_userinfo_def rpartition_def split: if_splits)
  then show ?thesis by (metis length_append takeWhile_dropWhile_id)
qed

text \<open>The scheme and what follows the user information, where the pattern matches.\<close>

definition match_url_userinfo :: "char option \<Rightarrow> string \<Rightarrow> (string \<times> string) option" where
  "match_url_userinfo before s =
     (case match_scheme before s of
        None \<Rightarrow> None
      | Some (scheme, s') \<Rightarrow> map_option (\<lambda>s''. (scheme, s'')) (match_userinfo s'))"

lemma match_url_shorter: "match_url_userinfo before s = Some (scheme, s') \<Longrightarrow> length s' < length s"
  by (auto simp: match_url_userinfo_def split: option.splits dest!: match_scheme_shorter match_userinfo_shorter)

function redact_userinfo :: "char option \<Rightarrow> string \<Rightarrow> string" where
  "redact_userinfo before [] = []"
| "redact_userinfo before (c # s) =
     (case match_url_userinfo before (c # s) of
        Some (scheme, s') \<Rightarrow> scheme @ redacted_value @ ''@'' @ redact_userinfo (Some (CHR ''@'')) s'
      | None \<Rightarrow> c # redact_userinfo (Some c) s)"
  by pat_completeness auto
termination
  by (relation "measure (\<lambda>(before, s). length s)") (auto dest!: match_url_shorter)

definition query_char :: "char \<Rightarrow> bool" where
  "query_char c \<longleftrightarrow> \<not> url_breaker c \<and> c \<noteq> CHR ''&'' \<and> c \<noteq> CHR '';'' \<and> c \<noteq> CHR ''#''"

definition query_mark :: "char \<Rightarrow> bool" where
  "query_mark c \<longleftrightarrow> c = CHR ''?'' \<or> c = CHR ''&'' \<or> c = CHR '';''"

definition key_char :: "char \<Rightarrow> bool" where
  "key_char c \<longleftrightarrow> query_char c \<and> c \<noteq> CHR ''=''"

lemma redact_values_shorter: "length (dropWhile P (tl (dropWhile Q s))) < Suc (length s)"
  using length_dropWhile_le [of P "tl (dropWhile Q s)"] length_dropWhile_le [of Q s] by simp

function redact_values :: "string \<Rightarrow> string" where
  "redact_values [] = []"
| "redact_values (c # s) =
     (if query_mark c \<and> starts_with (dropWhile key_char s) ''=''
      then c # takeWhile key_char s @ ''='' @ redacted_value @ redact_values (dropWhile query_char (tl (dropWhile key_char s)))
      else c # redact_values s)"
  by pat_completeness auto
termination
  by (relation "measure length") (auto simp: redact_values_shorter)

text \<open>\<open>[?&;]component\<close> before the end, another mark or a breaker.\<close>

function redact_components :: "string \<Rightarrow> string" where
  "redact_components [] = []"
| "redact_components (c # s) =
     (if query_mark c \<and> takeWhile key_char s \<noteq> [] \<and> \<not> starts_with (dropWhile key_char s) ''=''
      then c # redacted_value @ redact_components (dropWhile key_char s)
      else c # redact_components s)"
  by pat_completeness auto
termination
  by (relation "measure length") (auto simp: le_imp_less_Suc length_dropWhile_le)

text \<open>The credentials of \<open>--proxy-auth\<close> before an at sign, with a scheme or without.\<close>

definition match_auth :: "string \<Rightarrow> string \<Rightarrow> string option" where
  "match_auth auth s =
     (if starts_with s auth \<and> starts_with (drop (length auth) s) ''@'' then Some (drop (length auth) s) else None)"

definition match_url_auth :: "string \<Rightarrow> char option \<Rightarrow> string \<Rightarrow> (string \<times> string) option" where
  "match_url_auth auth before s =
     (case Option.bind (match_scheme before s) (\<lambda>(scheme, s'). map_option (\<lambda>s''. (scheme, s'')) (match_auth auth s')) of
        Some m \<Rightarrow> Some m
      | None \<Rightarrow> map_option (\<lambda>s'. ([], s')) (match_auth auth s))"

lemma match_auth_shorter: "match_auth auth s = Some s' \<Longrightarrow> auth \<noteq> [] \<Longrightarrow> length s' < length s"
  by (auto simp: match_auth_def starts_with_iff split: if_splits)

lemma match_url_auth_shorter: "match_url_auth auth before s = Some (scheme, s') \<Longrightarrow> auth \<noteq> [] \<Longrightarrow> length s' < length s"
  by (auto simp: match_url_auth_def bind_eq_Some_conv split: option.splits
      dest!: match_scheme_shorter dest: match_auth_shorter)

function redact_auth :: "string \<Rightarrow> char option \<Rightarrow> string \<Rightarrow> string" where
  "redact_auth auth before [] = []"
| "redact_auth auth before (c # s) =
     (case (if auth = [] then None else match_url_auth auth before (c # s)) of
        Some (scheme, s') \<Rightarrow> scheme @ redacted_value @ redact_auth auth (Some (last (scheme @ auth))) s'
      | None \<Rightarrow> c # redact_auth auth (Some c) s)"
  by pat_completeness auto
termination
  by (relation "measure (\<lambda>(auth, before, s). length s)")
     (auto dest!: match_url_auth_shorter split: if_splits)

definition redact_log_text :: "string \<Rightarrow> string \<Rightarrow> string" where
  "redact_log_text proxy_auth text_line =
     (let line = (if proxy_auth \<noteq> [] then redact_auth proxy_auth None text_line else text_line) in
      redact_components (redact_values (redact_userinfo None line)))"

section \<open>The logger\<close>

record log_handler =
  lh_name :: string
  lh_file :: string
  lh_max_bytes :: int
  lh_closed :: bool

definition log_handler_name :: string where
  "log_handler_name = ''dirsearch-log-file''"

record logger =
  lg_handlers :: "log_handler list"
  lg_disabled :: bool

definition new_logger :: logger where
  "new_logger = \<lparr>lg_handlers = [], lg_disabled = True\<rparr>"

text \<open>The handlers taken out are closed; opening the new one may raise before anything changes.\<close>

definition enable_logging :: "(string \<Rightarrow> unit result) \<Rightarrow> string \<Rightarrow> int \<Rightarrow> logger \<Rightarrow> (log_handler list \<times> logger) result" where
  "enable_logging open_log log_file log_file_size l =
     rbind (open_log log_file) (\<lambda>_.
       Inr (map (\<lambda>h. h\<lparr>lh_closed := True\<rparr>) (filter (\<lambda>h. lh_name h = log_handler_name) (lg_handlers l)),
            \<lparr>lg_handlers = filter (\<lambda>h. lh_name h \<noteq> log_handler_name) (lg_handlers l) @
               [\<lparr>lh_name = log_handler_name, lh_file = log_file, lh_max_bytes = log_file_size, lh_closed = False\<rparr>],
             lg_disabled = False\<rparr>))"

lemma enable_logging_single:
  assumes "enable_logging open_log f n l = Inr (closed', l')"
  shows "length (filter (\<lambda>h. lh_name h = log_handler_name) (lg_handlers l')) = 1"
  using assms by (auto simp: enable_logging_def rbind_eq_Inr)

section \<open>What the patterns leave\<close>

text \<open>No match runs over a breaker, so a line is redacted piece by piece.\<close>

lemma breaker_chars:
  assumes "url_breaker b"
  shows "\<not> is_letter b" "\<not> scheme_char b" "\<not> userinfo_char b" "\<not> query_char b" "\<not> key_char b" "\<not> query_mark b"
    "b \<noteq> CHR '':''" "b \<noteq> CHR ''/''" "b \<noteq> CHR ''=''" "b \<noteq> CHR ''@''" "\<not> is_word b"
  using assms
  by (auto simp: url_breaker_def is_letter_def scheme_char_def userinfo_char_def query_char_def key_char_def
      query_mark_def char_simps)

lemma starts_with_before: "b \<notin> set p \<Longrightarrow> starts_with (s @ b # r) p \<longleftrightarrow> starts_with s p"
proof (induction p arbitrary: s)
  case (Cons c p)
  then show ?case by (cases s) (auto simp: starts_with_def)
qed simp

lemma takeWhile_before [simp]: "\<not> P b \<Longrightarrow> takeWhile P (s @ b # r) = takeWhile P s"
  by (induction s) auto

lemma dropWhile_before [simp]: "\<not> P b \<Longrightarrow> dropWhile P (s @ b # r) = dropWhile P s @ b # r"
  by (induction s) auto

lemma match_scheme_before:
  assumes "url_breaker b"
  shows "match_scheme before (s @ b # r) = map_option (\<lambda>(scheme, s'). (scheme, s' @ b # r)) (match_scheme before s)"
proof (cases "starts_with (dropWhile scheme_char s) ''://''")
  case True
  then obtain t where t: "dropWhile scheme_char s = ''://'' @ t" by (auto simp: starts_with_iff)
  then have "s \<noteq> []" by auto
  then obtain a u where s: "s = a # u" by (cases s) auto
  have "dropWhile scheme_char (s @ b # r) = ''://'' @ t @ b # r"
    using assms t by (simp add: breaker_chars)
  moreover have "takeWhile scheme_char (s @ b # r) = takeWhile scheme_char s"
    using assms by (simp add: breaker_chars)
  ultimately have "match_scheme before (a # u @ b # r) =
      (if is_letter a \<and> \<not> word_before before then Some (takeWhile scheme_char s @ ''://'', t @ b # r) else None)"
    by (simp only: match_scheme_def list.case s append_Cons) (simp add: starts_with_def)
  moreover have "match_scheme before (a # u) =
      (if is_letter a \<and> \<not> word_before before then Some (takeWhile scheme_char s @ ''://'', t) else None)"
    using t by (simp only: match_scheme_def list.case s) (simp add: starts_with_def)
  ultimately show ?thesis by (simp add: s)
next
  case False
  with assms have "\<not> starts_with (dropWhile scheme_char (s @ b # r)) ''://''"
    by (simp add: breaker_chars starts_with_before)
  with False show ?thesis by (auto simp: match_scheme_def split: list.splits)
qed

lemma match_userinfo_before:
  assumes "url_breaker b"
  shows "match_userinfo (s @ b # r) = map_option (\<lambda>s'. s' @ b # r) (match_userinfo s)"
  using breaker_chars(3) [OF assms] by (auto simp: match_userinfo_def split: prod.splits)

lemma match_url_userinfo_before:
  assumes "url_breaker b"
  shows "match_url_userinfo before (s @ b # r) =
    map_option (\<lambda>(scheme, s'). (scheme, s' @ b # r)) (match_url_userinfo before s)"
  using assms
  by (auto simp: match_url_userinfo_def match_scheme_before match_userinfo_before option.map_comp comp_def
      split: option.splits)

declare redact_userinfo.simps(2) [simp del] redact_values.simps(2) [simp del] redact_components.simps(2) [simp del]

lemma redact_userinfo_breaker:
  assumes "url_breaker b"
  shows "redact_userinfo before (s @ b # r) = redact_userinfo before s @ b # redact_userinfo (Some b) r"
proof (induction before s rule: redact_userinfo.induct)
  case (1 before)
  from assms have "match_url_userinfo before (b # r) = None"
    by (simp add: match_url_userinfo_def match_scheme_def breaker_chars)
  then show ?case by (simp add: redact_userinfo.simps(2))
next
  case (2 before c s)
  show ?case
  proof (cases "match_url_userinfo before (c # s)")
    case None
    with 2(1) [OF None] assms show ?thesis
      using match_url_userinfo_before [OF assms, of before "c # s" r] by (simp add: redact_userinfo.simps(2))
  next
    case (Some m)
    obtain scheme s' where m: "m = (scheme, s')" by (cases m)
    from 2(2) [OF Some m [symmetric]] Some m show ?thesis
      using match_url_userinfo_before [OF assms, of before "c # s" r] by (simp add: redact_userinfo.simps(2))
  qed
qed

lemma redact_values_breaker:
  assumes "url_breaker b"
  shows "redact_values (s @ b # r) = redact_values s @ b # redact_values r"
proof (induction s rule: redact_values.induct)
  case 1
  with assms show ?case by (simp add: redact_values.simps(2) breaker_chars)
next
  case (2 c s)
  show ?case
  proof (cases "query_mark c \<and> starts_with (dropWhile key_char s) ''=''")
    case True
    then obtain t where t: "dropWhile key_char s = CHR ''='' # t" by (auto simp: starts_with_iff)
    with True assms 2(1) [OF True] show ?thesis
      by (simp add: redact_values.simps(2) breaker_chars starts_with_def del: dropWhile_eq_Cons_conv)
  next
    case False
    with assms 2(2) [OF False] show ?thesis
      by (auto simp: redact_values.simps(2) breaker_chars starts_with_before)
  qed
qed

lemma redact_components_breaker:
  assumes "url_breaker b"
  shows "redact_components (s @ b # r) = redact_components s @ b # redact_components r"
proof (induction s rule: redact_components.induct)
  case 1
  with assms show ?case by (simp add: redact_components.simps(2) breaker_chars)
next
  case (2 c s)
  with assms show ?case by (auto simp: redact_components.simps(2) breaker_chars starts_with_before)
qed

text \<open>A URL with user information and a query, and the way the log shows it.\<close>

type_synonym parameter_text = "char \<times> string \<times> string"

definition query_text :: "parameter_text list \<Rightarrow> string" where
  "query_text ps = concat (map (\<lambda>(mark, key, val). mark # key @ ''='' @ val) ps)"

definition hide_value :: "parameter_text \<Rightarrow> parameter_text" where
  "hide_value = (\<lambda>(mark, key, val). (mark, key, redacted_value))"

definition parameter_ok :: "parameter_text \<Rightarrow> bool" where
  "parameter_ok = (\<lambda>(mark, key, val).
     query_mark mark \<and> list_all key_char key \<and> \<not> list_ex query_mark key \<and> list_all query_char val)"

definition query_ok :: "parameter_text list \<Rightarrow> bool" where
  "query_ok ps \<longleftrightarrow> list_all parameter_ok ps \<and> list_all (\<lambda>(mark, _, _). mark \<noteq> CHR ''?'') (tl ps)"

lemma no_scheme_no_userinfo:
  assumes "\<not> sublist ''://'' s"
  shows "redact_userinfo before s = s"
  using assms
proof (induction s arbitrary: before)
  case (Cons c s)
  have "match_scheme before (c # s) = None"
  proof (rule ccontr)
    assume "match_scheme before (c # s) \<noteq> None"
    then obtain t where "dropWhile scheme_char (c # s) = ''://'' @ t"
      by (auto simp: match_scheme_def starts_with_iff split: if_splits)
    then have "c # s = takeWhile scheme_char (c # s) @ ''://'' @ t" by (metis takeWhile_dropWhile_id)
    with Cons.prems show False unfolding sublist_def by metis
  qed
  moreover from Cons.prems have "\<not> sublist ''://'' s" by (meson sublist_Cons_right)
  ultimately show ?case using Cons.IH by (simp add: redact_userinfo.simps(2) match_url_userinfo_def)
qed simp

lemma redact_values_plain: "\<not> list_ex query_mark s \<Longrightarrow> redact_values (s @ r) = s @ redact_values r"
  by (induction s) (auto simp: redact_values.simps(2))

lemma redact_components_plain: "\<not> list_ex query_mark s \<Longrightarrow> redact_components (s @ r) = s @ redact_components r"
  by (induction s) (auto simp: redact_components.simps(2))

lemma takeWhile_all_key: "list_all key_char key \<Longrightarrow> takeWhile key_char (key @ CHR ''='' # r) = key \<and>
    dropWhile key_char (key @ CHR ''='' # r) = CHR ''='' # r"
  by (induction key) (auto simp: key_char_def)

lemma dropWhile_all_query:
  "list_all query_char val \<Longrightarrow> dropWhile query_char (val @ r) = dropWhile query_char r"
  by (induction val) auto

lemma dropWhile_query_text:
  assumes "list_all parameter_ok ps" "list_all (\<lambda>(mark, _, _). mark \<noteq> CHR ''?'') ps"
  shows "dropWhile query_char (query_text ps) = query_text ps"
  using assms by (cases ps) (auto simp: query_text_def parameter_ok_def query_mark_def query_char_def)

lemma redact_values_query:
  assumes "query_ok ps"
  shows "redact_values (query_text ps) = query_text (map hide_value ps)"
  using assms
proof (induction ps)
  case (Cons p ps)
  obtain mark key val where p: "p = (mark, key, val)" by (cases p)
  from Cons.prems have ok: "query_mark mark" "list_all key_char key" "list_all query_char val"
    and rest: "list_all parameter_ok ps" "list_all (\<lambda>(mark, _, _). mark \<noteq> CHR ''?'') ps"
    by (auto simp: query_ok_def parameter_ok_def p)
  from rest have "query_ok ps" by (cases ps) (auto simp: query_ok_def)
  with Cons.IH have IH: "redact_values (query_text ps) = query_text (map hide_value ps)" .
  have "query_text (p # ps) = mark # key @ CHR ''='' # val @ query_text ps" by (simp add: query_text_def p)
  moreover have "query_text (map hide_value (p # ps)) =
      mark # key @ CHR ''='' # redacted_value @ query_text (map hide_value ps)"
    by (simp add: query_text_def hide_value_def p)
  ultimately show ?case
    using ok IH takeWhile_all_key [OF ok(2), of "val @ query_text ps"]
    by (simp add: redact_values.simps(2) dropWhile_all_query dropWhile_query_text [OF rest] starts_with_def)
qed (simp add: query_text_def)

lemma redacted_value_plain: "\<not> list_ex query_mark redacted_value"
  by (simp add: redacted_value_def query_mark_def)

lemma redact_components_query:
  assumes "list_all parameter_ok ps"
  shows "redact_components (query_text (map hide_value ps)) = query_text (map hide_value ps)"
  using assms
proof (induction ps)
  case (Cons p ps)
  obtain mark key val where p: "p = (mark, key, val)" by (cases p)
  let ?rest = "query_text (map hide_value ps)"
  from Cons.prems have ok: "list_all key_char key" "\<not> list_ex query_mark (key @ ''='' @ redacted_value)"
    using redacted_value_plain by (auto simp: parameter_ok_def p query_mark_def)
  have shown: "query_text (map hide_value (p # ps)) = mark # (key @ ''='' @ redacted_value) @ ?rest"
    by (simp add: query_text_def hide_value_def p)
  have "redact_components ((key @ ''='' @ redacted_value) @ ?rest) = (key @ ''='' @ redacted_value) @ ?rest"
    using redact_components_plain [OF ok(2)] Cons by simp
  with shown takeWhile_all_key [OF ok(1), of "redacted_value @ ?rest"] show ?case
    by (simp add: redact_components.simps(2) starts_with_def)
qed (simp add: query_text_def)

lemma rpartition_last: "c \<notin> set t \<Longrightarrow> rpartition c (s @ c # t) = (s, [c], t)"
proof -
  assume "c \<notin> set t"
  then have t: "\<forall>x \<in> set (rev t). x \<noteq> c" by auto
  then have d: "dropWhile (\<lambda>x. x \<noteq> c) (rev t) = []" and w: "takeWhile (\<lambda>x. x \<noteq> c) (rev t) = rev t"
    unfolding dropWhile_eq_Nil_conv takeWhile_eq_all_conv by simp_all
  show ?thesis using t by (simp add: rpartition_def d w)
qed

lemma match_url_userinfo_url:
  assumes "is_letter a" "list_all scheme_char scheme" "\<not> word_before before"
    and "user \<noteq> []" "list_all userinfo_char (user @ host)" "CHR ''@'' \<notin> set host"
  shows "match_url_userinfo before (a # scheme @ ''://'' @ user @ ''@'' @ host @ ''/'' @ r) =
    Some (a # scheme @ ''://'', host @ ''/'' @ r)"
proof -
  have run: "takeWhile scheme_char (a # scheme @ CHR '':'' # r') = a # scheme"
    "dropWhile scheme_char (a # scheme @ CHR '':'' # r') = CHR '':'' # r'" for r'
    using assms(1,2) by (auto simp: list_all_iff takeWhile_append2 dropWhile_append2)
      (auto simp: scheme_char_def is_letter_def char_simps)
  have "match_scheme before (a # scheme @ CHR '':'' # ''//'' @ x) = Some (a # scheme @ ''://'', x)" for x
    using assms(1,3) run by (simp add: match_scheme_def starts_with_def del: takeWhile.simps dropWhile.simps)
  moreover have "takeWhile userinfo_char (user @ ''@'' @ host @ ''/'' @ r) = user @ ''@'' @ host"
    "dropWhile userinfo_char (user @ ''@'' @ host @ ''/'' @ r) = ''/'' @ r"
    using assms(5) by (auto simp: list_all_iff takeWhile_append2 dropWhile_append2)
      (auto simp: userinfo_char_def url_breaker_def char_simps)
  then have "match_userinfo (user @ ''@'' @ host @ ''/'' @ r) = Some (host @ ''/'' @ r)"
    using assms(4,6) by (simp add: match_userinfo_def rpartition_last)
  ultimately show ?thesis by (simp add: match_url_userinfo_def)
qed

lemma redact_url:
  assumes "is_letter a" "list_all scheme_char scheme" "\<not> word_before before"
    and "user \<noteq> []" "list_all userinfo_char (user @ host)" "CHR ''@'' \<notin> set host"
    and "\<not> list_ex query_mark (host @ path)" "query_ok ps" "\<not> sublist ''://'' (host @ ''/'' @ path @ query_text ps)"
  shows "redact_components (redact_values (redact_userinfo before
      (a # scheme @ ''://'' @ user @ ''@'' @ host @ ''/'' @ path @ query_text ps))) =
    a # scheme @ ''://'' @ redacted_value @ ''@'' @ host @ ''/'' @ path @ query_text (map hide_value ps)"
proof -
  let ?head = "a # scheme @ ''://'' @ redacted_value @ ''@'' @ host @ ''/'' @ path"
  let ?tail = "host @ ''/'' @ path @ query_text ps"
  have "redact_userinfo before (a # scheme @ ''://'' @ user @ ''@'' @ ?tail) =
      (a # scheme @ ''://'') @ redacted_value @ ''@'' @ redact_userinfo (Some (CHR ''@'')) ?tail"
    using match_url_userinfo_url [OF assms(1-6), of "path @ query_text ps"]
    by (simp only: redact_userinfo.simps(2) option.case prod.case)
  then have first: "redact_userinfo before (a # scheme @ ''://'' @ user @ ''@'' @ ?tail) = ?head @ query_text ps"
    unfolding no_scheme_no_userinfo [OF assms(9)] by simp
  have plain: "\<not> list_ex query_mark ?head"
  proof -
    have "\<not> query_mark a" "\<not> list_ex query_mark scheme"
      using assms(1,2) by (auto simp: list_ex_iff list_all_iff query_mark_def is_letter_def scheme_char_def char_simps)
    moreover have "\<not> list_ex query_mark ''://''" "\<not> list_ex query_mark ''@''" "\<not> list_ex query_mark ''/''"
      by (simp_all add: query_mark_def)
    ultimately show ?thesis using assms(7) redacted_value_plain by simp
  qed
  have "list_all parameter_ok ps" using assms(8) by (simp add: query_ok_def)
  then show ?thesis
    unfolding first redact_values_plain [OF plain] redact_values_query [OF assms(8)] redact_components_plain [OF plain]
    by (simp add: redact_components_query)
qed

lemma redact_userinfo_start:
  assumes "\<not> word_before before" "\<not> word_before before'"
  shows "redact_userinfo before s = redact_userinfo before' s"
proof (cases s)
  case (Cons c u)
  from assms have "match_url_userinfo before s = match_url_userinfo before' s"
    by (auto simp: match_url_userinfo_def match_scheme_def split: list.splits)
  with Cons show ?thesis by (simp add: redact_userinfo.simps(2))
qed simp



end
