(* ===== verification/Terminal.thy ===== *)
theory Terminal
  imports Response "HOL-Library.Log_Nat"
begin

text \<open>
  What the user sees: the colors (\<open>lib/view/colors.py\<close>) and the command line interface with its status
  lines, progress bar, headers and the history that a saved session keeps (\<open>lib/view/terminal.py\<close>).
  The escape sequences come from the color library: a \<open>palette\<close>, of which is only used that its entries
  are escape sequences.  What the interface writes is a string of its state; the width of the terminal,
  and on Windows the column of the cursor, belong to the environment of each call.
\<close>

section \<open>Colors\<close>

datatype color = Red | Green | Yellow | Blue | Magenta | Cyan | White | NoColor

datatype text_style = Bright | Dim | Normal

record palette =
  pa_styles :: "text_style \<Rightarrow> string"
  pa_fore :: "color \<Rightarrow> string"
  pa_back :: "color \<Rightarrow> string"
  pa_reset :: string

definition disable_color :: "palette \<Rightarrow> palette" where
  "disable_color p =
     p\<lparr>pa_styles := (\<lambda>_. pa_styles p Normal), pa_fore := (\<lambda>_. pa_fore p NoColor), pa_back := (\<lambda>_. pa_back p NoColor)\<rparr>"

definition set_color :: "palette \<Rightarrow> string \<Rightarrow> color \<Rightarrow> color \<Rightarrow> text_style \<Rightarrow> string" where
  "set_color p msg fore back style = pa_styles p style @ pa_fore p fore @ pa_back p back @ msg @ pa_reset p"

definition esc :: char where "esc = CHR 0x1B"

text \<open>\<open>\x1B(?:[@-Z\\-_]|\[[0-?]*[ -/]*[@-~])\<close> at a position: what follows the sequence.\<close>

definition escape_parameter :: "char \<Rightarrow> bool" where
  "escape_parameter c \<longleftrightarrow> 0x30 \<le> code c \<and> code c \<le> 0x3F"

definition escape_intermediate :: "char \<Rightarrow> bool" where
  "escape_intermediate c \<longleftrightarrow> 0x20 \<le> code c \<and> code c \<le> 0x2F"

definition escape_final :: "char \<Rightarrow> bool" where
  "escape_final c \<longleftrightarrow> 0x40 \<le> code c \<and> code c \<le> 0x7E"

definition escape_single :: "char \<Rightarrow> bool" where
  "escape_single c \<longleftrightarrow> 0x40 \<le> code c \<and> code c \<le> 0x5A \<or> 0x5C \<le> code c \<and> code c \<le> 0x5F"

definition match_escape :: "string \<Rightarrow> string option" where
  "match_escape s =
     (case s of
        c # d # t \<Rightarrow>
          if c \<noteq> esc then None
          else if escape_single d then Some t
          else if d \<noteq> CHR ''['' then None
          else (case dropWhile escape_intermediate (dropWhile escape_parameter t) of
                  f # r \<Rightarrow> if escape_final f then Some r else None
                | [] \<Rightarrow> None)
      | _ \<Rightarrow> None)"

lemma match_escape_shorter: "match_escape s = Some r \<Longrightarrow> length r < length s"
proof -
  assume m: "match_escape s = Some r"
  then obtain c d t where s: "s = c # d # t" by (auto simp: match_escape_def split: list.splits)
  let ?u = "dropWhile escape_intermediate (dropWhile escape_parameter t)"
  have "length ?u \<le> length t" by (meson length_dropWhile_le order_trans)
  with m show ?thesis by (auto simp: match_escape_def s split: if_splits list.splits)
qed

lemma match_escape_other: "c \<noteq> esc \<Longrightarrow> match_escape (c # s) = None"
  by (simp add: match_escape_def split: list.split)

function clean_color :: "string \<Rightarrow> string" where
  "clean_color [] = []"
| "clean_color (c # s) =
     (case match_escape (c # s) of Some r \<Rightarrow> clean_color r | None \<Rightarrow> c # clean_color s)"
  by pat_completeness auto
termination
  by (relation "measure length") (auto dest!: match_escape_shorter)

declare clean_color.simps(2) [simp del]

section \<open>Text that is safe to show\<close>

text \<open>The characters of the categories \<open>Cc\<close> and \<open>Cf\<close> below 256.\<close>

definition is_control :: "char \<Rightarrow> bool" where
  "is_control c \<longleftrightarrow> code c < 32 \<or> 127 \<le> code c \<and> code c < 160 \<or> code c = 173"

definition max_display_text_length :: nat where "max_display_text_length = 240"

definition safe_display_text_max :: "nat \<Rightarrow> string \<Rightarrow> string" where
  "safe_display_text_max max_length v =
     (let text = filter (\<lambda>c. \<not> is_control c) v in
      if max_length < length text then take (max_length - 3) text @ ''...'' else text)"

definition safe_display_text :: "string \<Rightarrow> string" where
  "safe_display_text = safe_display_text_max max_display_text_length"

section \<open>The interface\<close>

record terminal_env =
  te_windows :: bool
  te_columns :: nat
  te_cursor :: nat

record cli =
  cl_last_in_line :: bool
  cl_stdout :: string
  cl_history :: string
  cl_closed :: bool

datatype cli_kind = PlainCLI | QuietCLI | EmptyCLI

type_synonym 'a terminal = "(cli, 'a) io"

definition new_cli :: cli where
  "new_cli = \<lparr>cl_last_in_line = False, cl_stdout = [], cl_history = [], cl_closed = False\<rparr>"

definition cli_palette :: "bool \<Rightarrow> palette \<Rightarrow> palette" where
  "cli_palette color p = (if color then p else disable_color p)"

definition interface_kind :: "bool \<Rightarrow> bool \<Rightarrow> cli_kind" where
  "interface_kind disable_cli quiet = (if disable_cli then EmptyCLI else if quiet then QuietCLI else PlainCLI)"

definition write_out :: "string \<Rightarrow> unit terminal" where
  "write_out s c = (Inr (), c\<lparr>cl_stdout := cl_stdout c @ s\<rparr>)"

text \<open>On Windows the cells between the two lines of backspaces are blanked by the console.\<close>

definition erase_text :: "terminal_env \<Rightarrow> string" where
  "erase_text env =
     (if te_windows env then replicate (te_cursor env) (CHR 0x08) @ replicate (te_cursor env) (CHR 0x08)
      else esc # ''[1K'' @ esc # ''[0G'')"

definition erase :: "terminal_env \<Rightarrow> unit terminal" where
  "erase env = write_out (erase_text env)"

definition in_line :: "terminal_env \<Rightarrow> string \<Rightarrow> unit terminal" where
  "in_line env s =
     io_bind (erase env) (\<lambda>_. io_bind (write_out s) (\<lambda>_ c. (Inr (), c\<lparr>cl_last_in_line := True\<rparr>)))"

definition closed_file :: exc where "closed_file = ValueError ''I/O operation on closed file.''"

definition save_line :: "string \<Rightarrow> unit terminal" where
  "save_line s c =
     (if cl_closed c then (Inl closed_file, c) else (Inr (), c\<lparr>cl_history := cl_history c @ s @ [CHR 0x0A]\<rparr>))"

definition new_line :: "terminal_env \<Rightarrow> string \<Rightarrow> bool \<Rightarrow> unit terminal" where
  "new_line env s do_save c =
     io_bind (if cl_last_in_line c then erase env else ret ()) (\<lambda>_.
       io_bind (write_out (s @ [CHR 0x0A])) (\<lambda>_ c.
         (if do_save then save_line s else ret ()) (c\<lparr>cl_last_in_line := False\<rparr>))) c"

definition cli_buffer :: "string terminal" where
  "cli_buffer c = (if cl_closed c then Inl closed_file else Inr (cl_history c), c)"

definition cli_close :: "unit terminal" where
  "cli_close c = (Inr (), c\<lparr>cl_closed := True\<rparr>)"

definition rjust :: "nat \<Rightarrow> string \<Rightarrow> string" where
  "rjust n s = replicate (n - length s) (CHR '' '') @ s"

definition ljust :: "nat \<Rightarrow> string \<Rightarrow> string" where
  "ljust n s = s @ replicate (n - length s) (CHR '' '')"

text \<open>The second word of the date and time of the response.\<close>

definition time_of :: "string \<Rightarrow> string result" where
  "time_of datetime = (case words_of datetime of _ # time # _ \<Rightarrow> Inr time | _ \<Rightarrow> Inl IndexError)"

definition status_color :: "int \<Rightarrow> color" where
  "status_color status =
     (if status \<in> {200, 201, 204} then Green
      else if status = 401 then Yellow
      else if status = 403 then Blue
      else if 500 \<le> status \<and> status < 600 then Red
      else if 300 \<le> status \<and> status < 400 then Cyan
      else Magenta)"

text \<open>\<open>int(x)\<close> of a float drops the fraction.\<close>

definition py_trunc :: "rat \<Rightarrow> int" where
  "py_trunc x = (if 0 \<le> x then \<lfloor>x\<rfloor> else \<lceil>x\<rceil>)"

definition status_text :: "bool \<Rightarrow> string \<Rightarrow> response \<Rightarrow> bool \<Rightarrow> string" where
  "status_text verbose time r full_url =
     ''['' @ time @ ''] '' @ show_int (r_status r) @ '' - '' @ rjust 6 (r_size r) @ '' - '' @
     safe_display_text (if full_url then r_url r else CHR ''/'' # r_full_path r) @
     (if verbose then ''  ('' @ show_int (py_trunc (r_elapsed r * 1000)) @ ''ms, '' @ r_type r @ '')'' else [])"

definition status_message :: "palette \<Rightarrow> bool \<Rightarrow> string \<Rightarrow> response \<Rightarrow> bool \<Rightarrow> string" where
  "status_message p verbose time r full_url =
     set_color p (status_text verbose time r full_url) (status_color (r_status r)) NoColor Normal @
     (if r_redirect r \<noteq> [] then ''  ->  '' @ safe_display_text (r_redirect r) else []) @
     concat (map (\<lambda>redirect. CHR 0x0A # ''-->  '' @ safe_display_text redirect) (r_history r))"

definition status_report ::
  "palette \<Rightarrow> bool \<Rightarrow> terminal_env \<Rightarrow> cli_kind \<Rightarrow> string \<Rightarrow> response \<Rightarrow> bool \<Rightarrow> unit terminal" where
  "status_report p verbose env kind datetime r full_url c =
     (if kind = EmptyCLI then (Inr (), c)
      else case time_of datetime of
        Inl e \<Rightarrow> (Inl e, c)
      | Inr time \<Rightarrow> new_line env (status_message p verbose time r (kind = QuietCLI \<or> full_url)) True c)"

section \<open>Double precision\<close>

text \<open>
  The progress bar computes with floats.  A positive number is rounded to 53 significant bits, halves to
  the even neighbour; the numbers here are far from the ends of the exponent range.
\<close>

definition pow2 :: "int \<Rightarrow> rat" where
  "pow2 e = (if 0 \<le> e then 2 ^ nat e else 1 / 2 ^ nat (- e))"

definition round_half_even :: "rat \<Rightarrow> int" where
  "round_half_even x =
     (let n = \<lfloor>x\<rfloor>; d = x - of_int n in
      if d < 1 / 2 then n else if 1 / 2 < d then n + 1 else if even n then n else n + 1)"

definition exponent_of :: "rat \<Rightarrow> int" where
  "exponent_of x =
     (case quotient_of x of
        (p, q) \<Rightarrow> let k = int (floorlog 2 (nat p)) - int (floorlog 2 (nat q)) in if pow2 k \<le> x then k else k - 1)"

definition to_double :: "rat \<Rightarrow> rat" where
  "to_double x =
     (if x \<le> 0 then 0 else let ulp = pow2 (exponent_of x - 52) in of_int (round_half_even (x / ulp)) * ulp)"

section \<open>The progress bar\<close>

text \<open>\<open>int(index / length * 100)\<close> and \<open>int(percentage / 5)\<close>, for numbers that are not negative.\<close>

definition progress_percentage :: "nat \<Rightarrow> nat \<Rightarrow> int result" where
  "progress_percentage index len =
     (if len = 0 then Inl ZeroDivisionError
      else Inr \<lfloor>to_double (to_double (of_nat index / of_nat len) * 100)\<rfloor>)"

definition progress_cells :: "int \<Rightarrow> nat" where
  "progress_cells percentage = nat \<lfloor>to_double (of_int percentage / 5)\<rfloor>"

definition progress_bar :: "palette \<Rightarrow> int \<Rightarrow> nat \<Rightarrow> nat \<Rightarrow> nat \<Rightarrow> nat \<Rightarrow> int \<Rightarrow> nat \<Rightarrow> string" where
  "progress_bar p percentage index len current_job all_jobs rate errors =
     (let cells = progress_cells percentage;
          task = concat (replicate cells (set_color p ''#'' Cyan NoColor Bright)) @ replicate (20 - cells) (CHR '' '');
          progress = show_nat index @ ''/'' @ show_nat len;
          jobs = set_color p ''job'' Green NoColor Bright @ '':'' @ show_nat current_job @ ''/'' @ show_nat all_jobs;
          error_text = set_color p ''errors'' Red NoColor Bright @ '':'' @ show_nat errors in
      ''['' @ task @ ''] '' @ rjust 2 (show_int percentage) @ ''% '' @ rjust 12 progress @ '' '' @
      rjust 9 (show_int rate) @ ''/s       '' @ ljust 21 jobs @ '' '' @ error_text)"

definition last_path ::
  "palette \<Rightarrow> terminal_env \<Rightarrow> cli_kind \<Rightarrow> nat \<Rightarrow> nat \<Rightarrow> nat \<Rightarrow> nat \<Rightarrow> int \<Rightarrow> nat \<Rightarrow> unit terminal" where
  "last_path p env kind index len current_job all_jobs rate errors c =
     (if kind \<noteq> PlainCLI then (Inr (), c)
      else case progress_percentage index len of
        Inl e \<Rightarrow> (Inl e, c)
      | Inr percentage \<Rightarrow>
          (let bar = progress_bar p percentage index len current_job all_jobs rate errors in
           if te_columns env \<le> length (clean_color bar) then (Inr (), c) else in_line env bar c))"

section \<open>Messages\<close>

definition new_directories :: "palette \<Rightarrow> terminal_env \<Rightarrow> cli_kind \<Rightarrow> string list \<Rightarrow> unit terminal" where
  "new_directories p env kind directories =
     (if kind \<noteq> PlainCLI then ret ()
      else new_line env
        (set_color p (''Added to the queue: '' @ safe_display_text (join '', '' directories)) Yellow NoColor Dim) True)"

definition error_message :: "palette \<Rightarrow> terminal_env \<Rightarrow> cli_kind \<Rightarrow> string \<Rightarrow> unit terminal" where
  "error_message p env kind reason =
     (if kind = EmptyCLI then ret () else new_line env (CHR 0x0A # set_color p reason White Red Bright) True)"

definition warning :: "palette \<Rightarrow> terminal_env \<Rightarrow> cli_kind \<Rightarrow> string \<Rightarrow> bool \<Rightarrow> unit terminal" where
  "warning p env kind message do_save =
     (if kind \<noteq> PlainCLI then ret () else new_line env (set_color p message Yellow NoColor Bright) do_save)"

definition header_message :: "palette \<Rightarrow> terminal_env \<Rightarrow> cli_kind \<Rightarrow> string \<Rightarrow> unit terminal" where
  "header_message p env kind message =
     (if kind \<noteq> PlainCLI then ret () else new_line env (set_color p message Magenta NoColor Bright) True)"

definition header_entry :: "palette \<Rightarrow> string \<times> string \<Rightarrow> string" where
  "header_entry p = (\<lambda>(key, val).
     set_color p (key @ '': '') Yellow NoColor Bright @ set_color p val Cyan NoColor Bright)"

definition header_step :: "palette \<Rightarrow> nat \<Rightarrow> string \<times> string \<Rightarrow> string list \<Rightarrow> string list" where
  "header_step p columns kv msg =
     (let new = header_entry p kv in
      if msg = [] \<or> columns \<le> length (clean_color (last msg) @ clean_color new) + 3 then msg @ [new]
      else butlast msg @ [last msg @ set_color p '' | '' Magenta NoColor Bright @ new])"

definition header_lines :: "palette \<Rightarrow> nat \<Rightarrow> (string \<times> string) list \<Rightarrow> string list" where
  "header_lines p columns headers = fold (header_step p columns) headers []"

definition print_header :: "palette \<Rightarrow> terminal_env \<Rightarrow> (string \<times> string) list \<Rightarrow> unit terminal" where
  "print_header p env headers = new_line env (join [CHR 0x0A] (header_lines p (te_columns env) headers)) True"

record view_options =
  vo_extensions :: "string list"
  vo_prefixes :: "string list"
  vo_suffixes :: "string list"
  vo_http_method :: string
  vo_thread_count :: int

definition config_headers :: "view_options \<Rightarrow> nat \<Rightarrow> (string \<times> string) list" where
  "config_headers vo wordlist_size =
     [(''Extensions'', join '', '' (vo_extensions vo))] @
     (if vo_prefixes vo \<noteq> [] then [(''Prefixes'', join '', '' (vo_prefixes vo))] else []) @
     (if vo_suffixes vo \<noteq> [] then [(''Suffixes'', join '', '' (vo_suffixes vo))] else []) @
     [(''HTTP method'', vo_http_method vo), (''Threads'', show_int (vo_thread_count vo)),
      (''Wordlist size'', show_nat wordlist_size)]"

definition config_message :: "palette \<Rightarrow> terminal_env \<Rightarrow> cli_kind \<Rightarrow> view_options \<Rightarrow> nat \<Rightarrow> unit terminal" where
  "config_message p env kind vo wordlist_size =
     (if kind \<noteq> PlainCLI then ret () else print_header p env (config_headers vo wordlist_size))"

definition target_message :: "palette \<Rightarrow> terminal_env \<Rightarrow> cli_kind \<Rightarrow> string \<Rightarrow> unit terminal" where
  "target_message p env kind target =
     (if kind \<noteq> PlainCLI then ret ()
      else io_bind (new_line env [] True) (\<lambda>_. print_header p env [(''Target'', target)]))"

definition log_file_message :: "terminal_env \<Rightarrow> cli_kind \<Rightarrow> string \<Rightarrow> unit terminal" where
  "log_file_message env kind file =
     (if kind \<noteq> PlainCLI then ret () else new_line env (CHR 0x0A # ''Log File: '' @ file) True)"

section \<open>Visible text\<close>

definition is_escape :: "string \<Rightarrow> bool" where
  "is_escape e \<longleftrightarrow> e = [] \<or> match_escape e = Some []"

definition palette_ok :: "palette \<Rightarrow> bool" where
  "palette_ok p \<longleftrightarrow>
     list_all is_escape (map (pa_styles p) [Bright, Dim, Normal]) \<and>
     list_all is_escape (map (pa_fore p) [Red, Green, Yellow, Blue, Magenta, Cyan, White, NoColor]) \<and>
     list_all is_escape (map (pa_back p) [Red, Green, Yellow, Blue, Magenta, Cyan, White, NoColor]) \<and>
     is_escape (pa_reset p)"

lemma palette_escapes:
  assumes "palette_ok p"
  shows "is_escape (pa_styles p style)" "is_escape (pa_fore p color)" "is_escape (pa_back p color)" "is_escape (pa_reset p)"
  using assms by (cases style; cases color; simp add: palette_ok_def)+

lemma palette_ok_disable: "palette_ok p \<Longrightarrow> palette_ok (disable_color p)"
  by (simp add: palette_ok_def disable_color_def)

lemma match_escape_append: "match_escape e = Some r \<Longrightarrow> match_escape (e @ s) = Some (r @ s)"
proof -
  assume m: "match_escape e = Some r"
  then obtain c d t where e: "e = c # d # t" by (auto simp: match_escape_def split: list.splits)
  have dw: "dropWhile P v = f # u \<Longrightarrow> dropWhile P (v @ s) = f # u @ s" for P f u and v :: string
    by (induction v) (auto split: if_splits)
  have "dropWhile Q (dropWhile P t) = f # u \<Longrightarrow> dropWhile Q (dropWhile P (t @ s)) = f # u @ s" for P Q f u
  proof -
    assume u: "dropWhile Q (dropWhile P t) = f # u"
    then obtain g v where v: "dropWhile P t = g # v" by (cases "dropWhile P t") auto
    with u show ?thesis using dw [of P t g v] dw [of Q "g # v" f u] by simp
  qed
  with m show ?thesis
    by (cases "escape_single d") (simp_all add: match_escape_def e split: if_split_asm list.split_asm)
qed

lemma clean_escape: "is_escape e \<Longrightarrow> clean_color (e @ s) = clean_color s"
proof -
  assume e: "is_escape e"
  show ?thesis
  proof (cases e)
    case (Cons c u)
    with e match_escape_append [of e "[]" s] show ?thesis by (simp add: is_escape_def clean_color.simps(2))
  qed simp
qed

lemma clean_plain: "esc \<notin> set m \<Longrightarrow> clean_color (m @ s) = m @ clean_color s"
proof (induction m)
  case (Cons c m)
  then have "c \<noteq> esc" by auto
  with Cons show ?case by (simp add: clean_color.simps(2) match_escape_other)
qed simp

lemma clean_plain': "esc \<notin> set m \<Longrightarrow> clean_color m = m"
  using clean_plain [of m "[]"] by simp

lemma clean_plain_Cons: "c \<noteq> esc \<Longrightarrow> clean_color (c # s) = c # clean_color s"
  using clean_plain [of "[c]" s] by simp

lemma clean_set_color:
  "palette_ok p \<Longrightarrow> esc \<notin> set msg \<Longrightarrow> clean_color (set_color p msg fg bg style @ s) = msg @ clean_color s"
  by (simp add: set_color_def clean_escape palette_escapes clean_plain)

lemma clean_set_color' [simp]:
  "palette_ok p \<Longrightarrow> esc \<notin> set msg \<Longrightarrow> clean_color (set_color p msg fg bg style) = msg"
  using clean_set_color [of p msg fg bg style "[]"] by simp

lemma control_esc: "is_control esc"
  by (simp add: is_control_def esc_def)

lemma not_control_no_esc: "\<forall>c \<in> set s. \<not> is_control c \<Longrightarrow> esc \<notin> set s"
  using control_esc by blast

lemma safe_display_text_max_chars: "c \<in> set (safe_display_text_max n v) \<Longrightarrow> \<not> is_control c"
  by (auto simp: safe_display_text_max_def Let_def is_control_def dest: in_set_takeD split: if_splits)

lemma safe_display_text_chars: "c \<in> set (safe_display_text v) \<Longrightarrow> \<not> is_control c"
  unfolding safe_display_text_def by (rule safe_display_text_max_chars)

lemma safe_display_text_short: "length (safe_display_text v) \<le> max_display_text_length"
  by (simp add: safe_display_text_def safe_display_text_max_def max_display_text_length_def Let_def)

lemma safe_display_text_keeps:
  "\<forall>c \<in> set v. \<not> is_control c \<Longrightarrow> length v \<le> max_display_text_length \<Longrightarrow> safe_display_text v = v"
  by (simp add: safe_display_text_def safe_display_text_max_def filter_id_conv)

lemma digit_no_control: "is_digit c \<Longrightarrow> \<not> is_control c"
  by (auto simp: is_digit_def is_control_def)

lemma show_nat_no_control: "c \<in> set (show_nat n) \<Longrightarrow> \<not> is_control c"
  using show_nat_chars digit_no_control by blast

lemma show_int_no_control: "c \<in> set (show_int n) \<Longrightarrow> \<not> is_control c"
  using show_nat_no_control by (auto simp: show_int_def is_control_def split: if_splits)

lemma readable_size_no_control:
  "\<forall>u \<in> set units. \<forall>c \<in> set u. \<not> is_control c \<Longrightarrow> c \<in> set (readable_size_loop units n) \<Longrightarrow> \<not> is_control c"
proof (induction units n rule: readable_size_loop.induct)
  case (1 n)
  then show ?case using show_int_no_control by (auto simp: is_control_def)
next
  case (2 u units n)
  show ?case
  proof (cases "- 1024 < n \<and> n < 1024")
    case True
    with 2(2,3) show ?thesis using show_int_no_control by auto
  next
    case False
    then show ?thesis using 2(1) [OF False] 2(2,3) by auto
  qed
qed

lemma r_size_no_control: "c \<in> set (r_size r) \<Longrightarrow> \<not> is_control c"
proof -
  assume c: "c \<in> set (r_size r)"
  have "\<forall>u \<in> set size_units. \<forall>d \<in> set u. \<not> is_control d" by (simp add: size_units_def is_control_def)
  from readable_size_no_control [OF this] c show ?thesis by (simp add: r_size_def get_readable_size_def)
qed

lemma status_text_no_control:
  assumes "\<forall>c \<in> set time. \<not> is_control c" "verbose \<longrightarrow> (\<forall>c \<in> set (r_type r). \<not> is_control c)"
    and "c \<in> set (status_text verbose time r full_url)"
  shows "\<not> is_control c"
proof -
  have lits: "\<forall>c \<in> set ''[] - (ms,)''. \<not> is_control c" by (simp add: is_control_def)
  from assms(3) have "c \<in> set ''[] - (ms,)'' \<or> c \<in> set time \<or> (\<exists>n. c \<in> set (show_int n)) \<or> c \<in> set (r_size r) \<or>
      (\<exists>v. c \<in> set (safe_display_text v)) \<or> verbose \<and> c \<in> set (r_type r)"
    by (fastforce simp: status_text_def rjust_def split: if_splits)
  then show ?thesis
    using assms(1,2) lits show_int_no_control r_size_no_control safe_display_text_chars by blast
qed


definition ansi_palette :: palette where
  "ansi_palette = \<lparr>pa_styles = (\<lambda>s. case s of Bright \<Rightarrow> esc # ''[1m'' | Dim \<Rightarrow> esc # ''[2m'' | Normal \<Rightarrow> []),
     pa_fore = (\<lambda>c. case c of Green \<Rightarrow> esc # ''[32m'' | Cyan \<Rightarrow> esc # ''[36m'' | NoColor \<Rightarrow> [] | _ \<Rightarrow> esc # ''[31m''),
     pa_back = (\<lambda>c. if c = NoColor then [] else esc # ''[41m''), pa_reset = esc # ''[0m''\<rparr>"

definition moved_response :: response where
  "moved_response = \<lparr>r_id = 1, r_url = ''http://h/'', r_final_url = ''http://h/'', r_full_path = ''a'' @ [esc] @ ''[2J'',
     r_path = ''a'', r_status = 302, r_headers = new_headers [], r_redirect = esc # ''[1Ahttp://x/'', r_history = [''/b''],
     r_elapsed = 1 / 2, r_content = [], r_body = [], r_body_complete = True, r_body_digest = None,
     r_length_override = None, r_filtered = False, r_filter_reason = None\<rparr>"


section \<open>The progress bar fits\<close>

lemma pow2_nonneg [simp]: "0 < pow2 e"
  by (simp add: pow2_def)

lemma pow2_mono: "a \<le> b \<Longrightarrow> pow2 a \<le> pow2 b"
proof -
  assume "a \<le> b"
  consider "0 \<le> a" | "a < 0" "0 \<le> b" | "b < 0" by linarith
  then show ?thesis
  proof cases
    case 1
    with \<open>a \<le> b\<close> show ?thesis by (simp add: pow2_def power_increasing)
  next
    case 2
    have "1 / 2 ^ nat (- a) \<le> (1 :: rat)" "(1 :: rat) \<le> 2 ^ nat b" by simp_all
    then have "1 / 2 ^ nat (- a) \<le> (2 :: rat) ^ nat b" by (rule order_trans)
    with 2 show ?thesis by (simp add: pow2_def)
  next
    case 3
    with \<open>a \<le> b\<close> have "(2 :: rat) ^ nat (- b) \<le> 2 ^ nat (- a)" by (simp add: power_increasing)
    with 3 \<open>a \<le> b\<close> show ?thesis by (simp add: pow2_def frac_le)
  qed
qed

lemma pow2_diff: "pow2 (int m - int n) = 2 ^ m / 2 ^ n"
proof (cases "n \<le> m")
  case True
  then have "nat (int m - int n) = m - n" by simp
  with True show ?thesis by (simp add: pow2_def power_diff)
next
  case False
  then have "nat (int n - int m) = n - m" by simp
  with False show ?thesis by (simp add: pow2_def power_diff)
qed

lemma floorlog_bounds: "0 < n \<Longrightarrow> 2 ^ (floorlog 2 n - 1) \<le> n \<and> n < 2 ^ floorlog 2 n \<and> 0 < floorlog 2 n"
  using floorlog_bounds [of n 2] by (auto simp: floorlog_def)

lemma exponent_of_le:
  assumes "0 < x"
  shows "pow2 (exponent_of x) \<le> x"
proof -
  obtain p q where pq: "quotient_of x = (p, q)" by (cases "quotient_of x")
  then have x: "x = of_int p / of_int q" and q: "0 < q" by (simp_all add: quotient_of_div quotient_of_denom_pos)
  with assms have p: "0 < p" by (simp add: zero_less_divide_iff)
  let ?m = "floorlog 2 (nat p)" and ?n = "floorlog 2 (nat q)"
  from p have m: "2 ^ (?m - 1) \<le> nat p" "0 < ?m" using floorlog_bounds [of "nat p"] by auto
  from q have n: "nat q < 2 ^ ?n" using floorlog_bounds [of "nat q"] by auto
  have "(2 :: rat) ^ (?m - 1) \<le> of_nat (nat p)" using m(1) by (metis of_nat_le_iff of_nat_numeral of_nat_power)
  moreover have "of_nat (nat q) \<le> (2 :: rat) ^ ?n" using n by (metis less_imp_le of_nat_le_iff of_nat_numeral of_nat_power)
  moreover have "(0 :: rat) < of_nat (nat q)" using q by simp
  ultimately have "(2 :: rat) ^ (?m - 1) / 2 ^ ?n \<le> of_nat (nat p) / of_nat (nat q)" by (intro frac_le) auto
  moreover have "of_nat (nat p) / of_nat (nat q) = x" using p q by (simp add: x)
  moreover have "int ?m - int ?n - 1 = int (?m - 1) - int ?n" using m(2) by linarith
  ultimately have "pow2 (int ?m - int ?n - 1) \<le> x" by (metis pow2_diff)
  then show ?thesis by (simp add: exponent_of_def pq Let_def)
qed

lemma round_half_even_bounds:
  "0 \<le> x \<Longrightarrow> 0 \<le> round_half_even x"
  "x \<le> of_int m \<Longrightarrow> round_half_even x \<le> m"
proof -
  show "0 \<le> x \<Longrightarrow> 0 \<le> round_half_even x"
    by (auto simp: round_half_even_def Let_def)
  assume m: "x \<le> of_int m"
  then have "\<lfloor>x\<rfloor> \<le> m" by (metis floor_mono floor_of_int)
  show "round_half_even x \<le> m"
  proof (cases "\<lfloor>x\<rfloor> = m")
    case True
    with m have "x = of_int m" by (metis le_floor_iff order_antisym order_refl)
    then show ?thesis by (simp add: round_half_even_def)
  next
    case False
    with \<open>\<lfloor>x\<rfloor> \<le> m\<close> show ?thesis by (auto simp: round_half_even_def Let_def)
  qed
qed

lemma to_double_nonneg: "0 \<le> to_double x"
proof (cases "x \<le> 0")
  case False
  then have "0 \<le> x / pow2 (exponent_of x - 52)" using pow2_nonneg by (simp add: zero_le_divide_iff less_imp_le)
  then have "0 \<le> round_half_even (x / pow2 (exponent_of x - 52))" by (rule round_half_even_bounds(1))
  with False show ?thesis by (simp add: to_double_def Let_def less_imp_le)
qed (simp add: to_double_def)

lemma to_double_le:
  assumes "x \<le> of_int m" "m < 2 ^ 52"
  shows "to_double x \<le> of_int (max 0 m)"
proof (cases "x \<le> 0")
  case False
  let ?e = "exponent_of x" and ?ulp = "pow2 (exponent_of x - 52)"
  have "pow2 ?e \<le> x" using False by (intro exponent_of_le) simp
  moreover have "(of_int m :: rat) < 2 ^ 52" using assms(2) by (metis of_int_less_iff of_int_numeral of_int_power)
  ultimately have "pow2 ?e < pow2 52" using assms(1) by (simp add: pow2_def)
  then have e: "?e < 52" by (meson linorder_not_le pow2_mono)
  let ?n = "nat (52 - ?e)"
  from e have ulp: "?ulp = 1 / 2 ^ ?n" by (simp add: pow2_def)
  have "x / ?ulp = x * 2 ^ ?n" by (simp add: ulp)
  also have "\<dots> \<le> of_int m * 2 ^ ?n" using assms(1) by (simp add: mult_right_mono)
  finally have "x / ?ulp \<le> of_int (m * 2 ^ ?n)" by simp
  then have "round_half_even (x / ?ulp) \<le> m * 2 ^ ?n" by (rule round_half_even_bounds(2))
  then have "of_int (round_half_even (x / ?ulp)) \<le> (of_int m * 2 ^ ?n :: rat)"
    by (metis of_int_le_iff of_int_mult of_int_numeral of_int_power)
  then have "of_int (round_half_even (x / ?ulp)) * ?ulp \<le> of_int m" by (simp add: ulp field_simps)
  moreover have "(of_int m :: rat) \<le> of_int (max 0 m)" by simp
  ultimately show ?thesis using False by (simp add: to_double_def Let_def)
qed (simp add: to_double_def)

lemma progress_percentage_bounds:
  assumes "index \<le> len" "0 < len"
  obtains percentage where "progress_percentage index len = Inr percentage" "0 \<le> percentage" "percentage \<le> 100"
proof -
  let ?q = "to_double (of_nat index / of_nat len)"
  have "of_nat index / of_nat len \<le> (of_int 1 :: rat)" using assms by (simp add: divide_le_eq)
  from to_double_le [OF this] have "?q \<le> 1" by simp
  then have "?q * 100 \<le> of_int 100" by simp
  from to_double_le [OF this] have "to_double (?q * 100) \<le> 100" by simp
  then have "\<lfloor>to_double (?q * 100)\<rfloor> \<le> 100" by linarith
  moreover have "0 \<le> \<lfloor>to_double (?q * 100)\<rfloor>" using to_double_nonneg by simp
  ultimately show ?thesis using that assms(2) by (simp add: progress_percentage_def)
qed

lemma progress_cells_le: "percentage \<le> 100 \<Longrightarrow> progress_cells percentage \<le> 20"
proof -
  assume "percentage \<le> 100"
  then have "of_int percentage / 5 \<le> (of_int 20 :: rat)" by simp
  from to_double_le [OF this] have "to_double (of_int percentage / 5) \<le> 20" by simp
  then show ?thesis by (simp add: progress_cells_def nat_le_iff floor_le_iff)
qed

lemma clean_concat_replicate:
  "palette_ok p \<Longrightarrow> esc \<notin> set msg \<Longrightarrow>
     clean_color (concat (replicate n (set_color p msg fg bg style)) @ s) = concat (replicate n msg) @ clean_color s"
  by (induction n) (simp_all add: clean_set_color)

lemma show_no_esc [simp]: "esc \<notin> set (show_nat n)" "esc \<notin> set (show_int i)"
  using show_nat_no_control show_int_no_control control_esc by blast+

lemma esc_other [simp]:
  "esc \<noteq> CHR '' ''" "esc \<noteq> CHR '':''" "esc \<noteq> CHR ''|''" "esc \<noteq> CHR ''/''" "esc \<noteq> CHR ''%''"
  "esc \<noteq> CHR '']''" "esc \<noteq> CHR ''s''" "esc \<noteq> CHR ''#''"
  by (simp_all add: esc_def)

lemma just_no_esc [simp]: "esc \<notin> set s \<Longrightarrow> esc \<notin> set (rjust n s)"
  by (auto simp: rjust_def esc_def)

lemma clean_ljust: "clean_color (s @ replicate n (CHR '' '') @ t) = clean_color s @ replicate n (CHR '' '') @ clean_color t"
  if "\<And>u. clean_color (s @ u) = clean_color s @ clean_color u"
  using that clean_plain [of "replicate n (CHR '' '')" t] by (simp add: esc_def)

lemma visible_progress_bar:
  assumes "palette_ok p"
  obtains tail where
    "clean_color (progress_bar p percentage index len current_job all_jobs rate errors) =
       ''['' @ replicate (progress_cells percentage) (CHR ''#'') @ replicate (20 - progress_cells percentage) (CHR '' '') @
       ''] '' @ rjust 2 (show_int percentage) @ ''% '' @ rjust 12 (show_nat index @ ''/'' @ show_nat len) @ '' '' @
       rjust 9 (show_int rate) @ ''/s       '' @ tail"
proof -
  let ?k = "progress_cells percentage"
  let ?tail = "ljust 21 (set_color p ''job'' Green NoColor Bright @ '':'' @ show_nat current_job @ ''/'' @ show_nat all_jobs) @
    '' '' @ set_color p ''errors'' Red NoColor Bright @ '':'' @ show_nat errors"
  let ?mid = "replicate (20 - ?k) (CHR '' '') @ ''] '' @ rjust 2 (show_int percentage) @ ''% '' @
    rjust 12 (show_nat index @ ''/'' @ show_nat len) @ '' '' @ rjust 9 (show_int rate) @ ''/s       ''"
  have "esc \<notin> set ?mid" by simp
  then have mid: "clean_color (?mid @ ?tail) = ?mid @ clean_color ?tail" by (rule clean_plain)
  have "progress_bar p percentage index len current_job all_jobs rate errors =
      ''['' @ concat (replicate ?k (set_color p ''#'' Cyan NoColor Bright)) @ ?mid @ ?tail"
    by (simp add: progress_bar_def Let_def)
  moreover have "concat (replicate ?k ''#'') = replicate ?k (CHR ''#'')" by (induction "?k") simp_all
  ultimately have "clean_color (progress_bar p percentage index len current_job all_jobs rate errors) =
      ''['' @ replicate ?k (CHR ''#'') @ ?mid @ clean_color ?tail"
    using clean_concat_replicate [OF assms, of "''#''" ?k Cyan NoColor Bright "?mid @ ?tail"] mid
    by (simp add: clean_plain_Cons esc_def)
  then show ?thesis using that by simp
qed

text \<open>The progress bar is only written when its visible text is narrower than the terminal, it then
  shows the percentage between 0 and 100 with one of 20 cells for every five percent, and it never becomes
  part of the history.
\<close>

theorem progress_line_fits:
  assumes "palette_ok p" "index \<le> len" "0 < len"
  shows "\<exists>percentage c'. progress_percentage index len = Inr percentage \<and> 0 \<le> percentage \<and> percentage \<le> 100 \<and>
    last_path p env PlainCLI index len current_job all_jobs rate errors c = (Inr (), c') \<and>
    cl_history c' = cl_history c \<and>
    (c' = c \<or> (\<exists>line k tail. cl_stdout c' = cl_stdout c @ erase_text env @ line \<and> k \<le> 20 \<and>
       length (clean_color line) < te_columns env \<and>
       clean_color line = ''['' @ replicate k (CHR ''#'') @ replicate (20 - k) (CHR '' '') @ ''] '' @
         rjust 2 (show_int percentage) @ ''% '' @ tail))"
proof -
  obtain percentage where pc: "progress_percentage index len = Inr percentage" "0 \<le> percentage" "percentage \<le> 100"
    using progress_percentage_bounds [OF assms(2,3)] by metis
  let ?bar = "progress_bar p percentage index len current_job all_jobs rate errors"
  let ?k = "progress_cells percentage"
  have k: "?k \<le> 20" by (rule progress_cells_le [OF pc(3)])
  show ?thesis
  proof (cases "te_columns env \<le> length (clean_color ?bar)")
    case True
    then have "last_path p env PlainCLI index len current_job all_jobs rate errors c = (Inr (), c)"
      by (simp add: last_path_def pc(1))
    with pc show ?thesis by blast
  next
    case False
    obtain tail where tail: "clean_color ?bar = ''['' @ replicate ?k (CHR ''#'') @ replicate (20 - ?k) (CHR '' '') @
        ''] '' @ rjust 2 (show_int percentage) @ ''% '' @ tail"
      by (rule visible_progress_bar [OF assms(1), of percentage index len current_job all_jobs rate errors]) blast
    let ?c = "c\<lparr>cl_stdout := cl_stdout c @ erase_text env @ ?bar, cl_last_in_line := True\<rparr>"
    have "last_path p env PlainCLI index len current_job all_jobs rate errors c = (Inr (), ?c)"
      using False by (simp add: last_path_def pc(1) in_line_def erase_def write_out_def io_bind_def)
    moreover have "length (clean_color ?bar) < te_columns env" using False by simp
    ultimately show ?thesis using pc tail k by (intro exI [of _ percentage] exI [of _ ?c]) auto
  qed
qed

lemma progress_line_fits_witness:
  "\<exists>c'. last_path ansi_palette \<lparr>te_windows = False, te_columns = 120, te_cursor = 0\<rparr> PlainCLI 29 100 1 1 50 0 new_cli =
       (Inr (), c') \<and> cl_history c' = []"
  using progress_line_fits [of ansi_palette 29 100 "\<lparr>te_windows = False, te_columns = 120, te_cursor = 0\<rparr>" 1 1 50 0 new_cli]
proof -
  have "palette_ok ansi_palette" by code_simp
  from progress_line_fits [OF this, of 29 100 "\<lparr>te_windows = False, te_columns = 120, te_cursor = 0\<rparr>" 1 1 50 0 new_cli]
  show ?thesis by (auto simp: new_cli_def)
qed

section \<open>Headers\<close>

text \<open>What is shown of a line is what is shown of its parts.\<close>

definition separable :: "string \<Rightarrow> bool" where
  "separable l \<longleftrightarrow> (\<forall>s. clean_color (l @ s) = clean_color l @ clean_color s)"

lemma separable_set_color: "palette_ok p \<Longrightarrow> esc \<notin> set msg \<Longrightarrow> separable (set_color p msg fg bg style)"
  by (simp add: separable_def clean_set_color)

lemma separable_append: "separable a \<Longrightarrow> separable b \<Longrightarrow> separable (a @ b) \<and> clean_color (a @ b) = clean_color a @ clean_color b"
  by (simp add: separable_def)

definition header_text :: "string \<times> string \<Rightarrow> string" where
  "header_text = (\<lambda>(key, val). key @ '': '' @ val)"

definition header_group_ok :: "palette \<Rightarrow> nat \<Rightarrow> (string \<times> string) list \<Rightarrow> string \<Rightarrow> bool" where
  "header_group_ok p columns g l \<longleftrightarrow>
     g \<noteq> [] \<and> separable l \<and> clean_color l = join '' | '' (map header_text g) \<and>
     (length g = 1 \<or> length (clean_color l) < columns)"

lemma header_entry_separable:
  assumes "palette_ok p" "esc \<notin> set (header_text kv)"
  shows "separable (header_entry p kv)" "clean_color (header_entry p kv) = header_text kv"
proof -
  obtain k v where kv: "kv = (k, v)" by (cases kv)
  from assms(2) have "esc \<notin> set (k @ '': '')" "esc \<notin> set v" by (auto simp: header_text_def kv)
  then show "separable (header_entry p kv)" "clean_color (header_entry p kv) = header_text kv"
    using assms(1) separable_append separable_set_color
    by (simp_all add: header_entry_def header_text_def kv clean_set_color separable_def)
qed

lemma join_snoc: "ws \<noteq> [] \<Longrightarrow> join sep (ws @ [w]) = join sep ws @ sep @ w"
  by (induction sep ws rule: join.induct) auto

lemma header_group_new:
  assumes "palette_ok p" "esc \<notin> set (header_text kv)"
  shows "header_group_ok p columns [kv] (header_entry p kv)"
  using header_entry_separable [OF assms] by (simp add: header_group_ok_def)

lemma header_group_grow:
  assumes "palette_ok p" "esc \<notin> set (header_text kv)" "header_group_ok p columns g l"
    and "length (clean_color l @ clean_color (header_entry p kv)) + 3 < columns"
  shows "header_group_ok p columns (g @ [kv]) (l @ set_color p '' | '' Magenta NoColor Bright @ header_entry p kv)"
proof -
  let ?sep = "set_color p '' | '' Magenta NoColor Bright"
  note e = header_entry_separable [OF assms(1,2)]
  have s: "separable ?sep" "clean_color ?sep = '' | ''" using assms(1) by (simp_all add: separable_set_color)
  from assms(3) have g: "separable l" "clean_color l = join '' | '' (map header_text g)" "g \<noteq> []"
    by (simp_all add: header_group_ok_def)
  from separable_append [OF s(1) e(1)] separable_append [OF g(1)]
  have "separable (l @ ?sep @ header_entry p kv)"
    "clean_color (l @ ?sep @ header_entry p kv) = clean_color l @ '' | '' @ header_text kv"
    by (simp_all add: s(2) e(2))
  with g assms(4) e(2) show ?thesis by (simp add: header_group_ok_def join_snoc)
qed

lemma header_step_groups:
  assumes "palette_ok p" "esc \<notin> set (header_text kv)" "list_all2 (header_group_ok p columns) gss msg"
  shows "\<exists>gss'. concat gss' = concat gss @ [kv] \<and> list_all2 (header_group_ok p columns) gss' (header_step p columns kv msg)"
proof (cases "msg = [] \<or> columns \<le> length (clean_color (last msg) @ clean_color (header_entry p kv)) + 3")
  case True
  then have "header_step p columns kv msg = msg @ [header_entry p kv]" unfolding header_step_def Let_def by (rule if_P)
  moreover have "list_all2 (header_group_ok p columns) (gss @ [[kv]]) (msg @ [header_entry p kv])"
    using assms(3) header_group_new [OF assms(1,2)] by (intro list_all2_appendI) auto
  ultimately show ?thesis by (intro exI [of _ "gss @ [[kv]]"]) simp
next
  case False
  then obtain ls l where msg: "msg = ls @ [l]" by (metis rev_exhaust)
  from assms(3) obtain gs g where gss: "gss = gs @ [g]" and gs: "list_all2 (header_group_ok p columns) gs ls"
    and g: "header_group_ok p columns g l"
    unfolding msg by (auto simp: list_all2_append2 list_all2_Cons2)
  let ?l = "l @ set_color p '' | '' Magenta NoColor Bright @ header_entry p kv"
  have step: "header_step p columns kv msg = ls @ [?l]"
    using False unfolding header_step_def Let_def by (subst if_not_P) (simp_all only: msg last_snoc butlast_snoc not_False_eq_True)
  have "header_group_ok p columns (g @ [kv]) ?l"
    using False by (intro header_group_grow assms g) (simp only: msg last_snoc de_Morgan_disj not_le)
  then have "list_all2 (header_group_ok p columns) (gs @ [g @ [kv]]) (ls @ [?l])"
    using gs by (intro list_all2_appendI) auto
  then show ?thesis unfolding step gss by (intro exI [of _ "gs @ [g @ [kv]]"]) simp
qed

lemma header_lines_groups:
  assumes "palette_ok p" "\<forall>kv \<in> set headers. esc \<notin> set (header_text kv)"
  shows "\<exists>gss. concat gss = headers \<and> list_all2 (header_group_ok p columns) gss (header_lines p columns headers)"
  using assms(2)
proof (induction headers rule: rev_induct)
  case Nil
  show ?case by (intro exI [of _ "[]"]) (simp add: header_lines_def)
next
  case (snoc kv headers)
  then obtain gss where "concat gss = headers" "list_all2 (header_group_ok p columns) gss (header_lines p columns headers)"
    by auto
  with header_step_groups [OF assms(1), of kv columns gss] snoc.prems show ?case
    by (auto simp: header_lines_def)
qed

text \<open>The header is laid out as its entries in order, cut into lines; every line with more than one entry is
  narrower than the terminal, so only a single entry can be too long for it.
\<close>

theorem header_lines_wrap:
  assumes "palette_ok p" "list_all (\<lambda>kv. esc \<notin> set (header_text kv)) headers"
  shows "\<exists>gss. concat gss = headers \<and> [] \<notin> set gss \<and>
    map clean_color (header_lines p columns headers) = map (\<lambda>g. join '' | '' (map header_text g)) gss \<and>
    list_all (\<lambda>g. length g = 1 \<or> length (join '' | '' (map header_text g)) < columns) gss"
proof -
  obtain gss where c: "concat gss = headers"
    and g: "list_all2 (header_group_ok p columns) gss (header_lines p columns headers)"
    using header_lines_groups [OF assms(1), of headers columns] assms(2) by (auto simp: list_all_iff)
  from g have "[] \<notin> set gss \<and> map clean_color (header_lines p columns headers) = map (\<lambda>g. join '' | '' (map header_text g)) gss \<and>
      list_all (\<lambda>g. length g = 1 \<or> length (join '' | '' (map header_text g)) < columns) gss"
    by (induction rule: list_all2_induct) (auto simp: header_group_ok_def)
  with c show ?thesis by blast
qed

lemma header_lines_wrap_witness:
  "\<exists>gss. concat gss = [(''Threads'', ''25''), (''Target'', ''http://h/'')] \<and>
     list_all (\<lambda>g. length g = 1 \<or> length (join '' | '' (map header_text g)) < 20) gss"
proof -
  have "palette_ok ansi_palette" by code_simp
  moreover have "list_all (\<lambda>kv. esc \<notin> set (header_text kv)) [(''Threads'', ''25''), (''Target'', ''http://h/'')]"
    by code_simp
  ultimately show ?thesis
    using header_lines_wrap [of ansi_palette "[(''Threads'', ''25''), (''Target'', ''http://h/'')]" 20] by blast
qed

section \<open>The history\<close>

lemma new_line_effect:
  "cl_closed c = False \<Longrightarrow> new_line env s do_save c =
     (Inr (), c\<lparr>cl_stdout := cl_stdout c @ (if cl_last_in_line c then erase_text env else []) @ s @ [CHR 0x0A],
        cl_last_in_line := False,
        cl_history := cl_history c @ (if do_save then s @ [CHR 0x0A] else [])\<rparr>)"
  by (simp add: new_line_def erase_def write_out_def save_line_def io_bind_def ret_def)

lemma quiet_interfaces_are_quiet:
  assumes "kind \<noteq> PlainCLI"
  shows "last_path p env kind index len current_job all_jobs rate errors c = (Inr (), c)"
    "new_directories p env kind directories c = (Inr (), c)" "warning p env kind message do_save c = (Inr (), c)"
    "header_message p env kind message c = (Inr (), c)" "config_message p env kind vo n c = (Inr (), c)"
    "target_message p env kind target c = (Inr (), c)" "log_file_message env kind file c = (Inr (), c)"
    "kind = EmptyCLI \<Longrightarrow> status_report p verbose env kind datetime r full_url c = (Inr (), c)"
    "kind = EmptyCLI \<Longrightarrow> error_message p env kind reason c = (Inr (), c)"
  using assms
  by (auto simp: last_path_def new_directories_def warning_def header_message_def config_message_def target_message_def
      log_file_message_def status_report_def error_message_def ret_def)

text \<open>Without colors every text still ends with the reset sequence.\<close>

lemma disabled_color_resets:
  assumes "pa_styles p Normal = []" "pa_fore p NoColor = []" "pa_back p NoColor = []"
  shows "set_color (disable_color p) msg fg bg style = msg @ pa_reset p"
  using assms by (simp add: set_color_def disable_color_def)

end
