(* ===== verification/Tools.thy ===== *)
theory Tools
  imports Files Proxy "HOL-Library.Multiset"
begin

text \<open>
  The tools beside the scanner: \<open>scripts/split_wordlists.py\<close>, which sorts the lines of the dictionary into
  the files of the categories, and \<open>lib/core/native_builder.py\<close>, which checks the prerequisites of the Rust
  engine and has pip build it.  What the programs started by the builder do is the \<open>outcome\<close> of the
  world, the decoder of the wordlist a parameter.
\<close>

section \<open>Categories of a line\<close>

definition category_order :: "string list" where
  "category_order = [''extensions'', ''conf'', ''vcs'', ''backups'', ''db'', ''logs'', ''keys'', ''web'', ''common'']"

definition conf_extensions :: "string list" where
  "conf_extensions =
     [''.ini'', ''.cfg'', ''.conf'', ''.config'', ''.cnf'', ''.toml'', ''.properties'', ''.prop'', ''.xml'', ''.yml'',
      ''.yaml'', ''.json'']"

definition backup_suffixes :: "string list" where
  "backup_suffixes = [''.bak'', ''.old'', ''.swp'', ''.swo'', ''.swpx'', ''.backup'', ''.orig'', ''.original'', ''~'']"

definition db_extensions :: "string list" where
  "db_extensions = [''.sql'', ''.db'', ''.sqlite'', ''.sqlite3'', ''.mdb'', ''.accdb'']"

definition key_extensions :: "string list" where "key_extensions = [''.pem'', ''.key'']"

definition key_filenames :: "string list" where
  "key_filenames = [''id_rsa'', ''id_rsa.pub'', ''id_dsa'', ''id_dsa.pub'']"

definition web_extensions :: "string list" where
  "web_extensions = [''.php'', ''.html'', ''.htm'', ''.asp'', ''.aspx'', ''.jsp'', ''.jspx'']"

definition is_extension_tag :: "string \<Rightarrow> bool" where
  "is_extension_tag line \<longleftrightarrow> contains (lower line) ''%ext%''"

definition is_conf :: "string \<Rightarrow> bool" where
  "is_conf line \<longleftrightarrow>
     (let low = lower line; base = basename low in
      starts_with base ''.env'' \<or>
      starts_with base ''config'' \<or> starts_with base ''configuration'' \<or>
      ends_with_any low conf_extensions \<or>
      contains low ''/config'' \<or> contains low ''/configuration'')"

text \<open>\<open>(^|/)\.(git|svn|hg)\<close>, case ignored.\<close>

definition is_vcs :: "string \<Rightarrow> bool" where
  "is_vcs line \<longleftrightarrow>
     (let cleaned = lower (lstrip_char (CHR ''!'') line) in
      list_ex (\<lambda>name. starts_with cleaned (CHR ''.'' # name) \<or> contains cleaned (''/.'' @ name)) [''git'', ''svn'', ''hg''])"

definition is_backup :: "string \<Rightarrow> bool" where
  "is_backup line \<longleftrightarrow> ends_with_any (lower line) backup_suffixes"

definition is_db :: "string \<Rightarrow> bool" where
  "is_db line \<longleftrightarrow> ends_with_any (lower line) db_extensions"

definition is_log :: "string \<Rightarrow> bool" where
  "is_log line \<longleftrightarrow> ends_with (lower line) ''.log''"

definition is_key :: "string \<Rightarrow> bool" where
  "is_key line \<longleftrightarrow>
     (let low = lower line in basename low \<in> set key_filenames \<or> ends_with_any low key_extensions)"

definition is_web :: "string \<Rightarrow> bool" where
  "is_web line \<longleftrightarrow> ends_with_any (lower line) web_extensions"

definition category_rules :: "(string \<times> (string \<Rightarrow> bool)) list" where
  "category_rules =
     [(''extensions'', is_extension_tag), (''conf'', is_conf), (''vcs'', is_vcs), (''backups'', is_backup),
      (''db'', is_db), (''logs'', is_log), (''keys'', is_key), (''web'', is_web)]"

text \<open>The first rule that holds, or \<open>common\<close>.\<close>

definition category_of :: "string \<Rightarrow> string" where
  "category_of line = (case List.find (\<lambda>(_, predicate). predicate line) category_rules of Some (c, _) \<Rightarrow> c | None \<Rightarrow> ''common'')"

section \<open>Splitting the wordlist\<close>

text \<open>A file opened as text turns every line end into a newline.\<close>

fun universal_newlines :: "string \<Rightarrow> string" where
  "universal_newlines [] = []"
| "universal_newlines [c] = [if c = CHR 0x0D then CHR 0x0A else c]"
| "universal_newlines (c # d # s) =
     (if c = CHR 0x0D
      then CHR 0x0A # (if d = CHR 0x0A then universal_newlines s else universal_newlines (d # s))
      else c # universal_newlines (d # s))"

definition nonempty_lines :: "string \<Rightarrow> string list" where
  "nonempty_lines text_read = filter (\<lambda>l. l \<noteq> []) (split_char (CHR 0x0A) (universal_newlines text_read))"

type_synonym buckets = "(string \<times> string list) list"

definition put_line :: "string \<Rightarrow> buckets \<Rightarrow> buckets" where
  "put_line line bs = map (\<lambda>(name, ls). (name, if name = category_of line then ls @ [line] else ls)) bs"

definition fill_buckets :: "string \<Rightarrow> buckets" where
  "fill_buckets text_read = fold put_line (nonempty_lines text_read) (map (\<lambda>name. (name, [])) category_order)"

record split_world =
  sw_files :: "string \<Rightarrow> string option"
  sw_fails :: "string \<Rightarrow> bool"

definition category_file :: "string \<Rightarrow> string \<Rightarrow> string" where
  "category_file dest_dir name = build_path dest_dir (name @ ''.txt'')"

definition bucket_text :: "string list \<Rightarrow> string" where
  "bucket_text ls = join [CHR 0x0A] ls @ [CHR 0x0A]"

fun write_buckets :: "string \<Rightarrow> buckets \<Rightarrow> (split_world, unit) io" where
  "write_buckets dest_dir [] = ret ()"
| "write_buckets dest_dir ((name, ls) # bs) = (\<lambda>w.
     let out_path = category_file dest_dir name in
     if sw_fails w out_path then (Inl (OSError out_path), w)
     else write_buckets dest_dir bs (w\<lparr>sw_files := (sw_files w)(out_path \<mapsto> bucket_text ls)\<rparr>))"

definition split_wordlists :: "(string \<Rightarrow> string) \<Rightarrow> string \<Rightarrow> string \<Rightarrow> (split_world, buckets) io" where
  "split_wordlists decode source_path dest_dir w =
     (case sw_files w source_path of
        None \<Rightarrow> (Inl (OSError source_path), w)
      | Some bytes \<Rightarrow>
          (let bs = fill_buckets (decode bytes) in
           if sw_fails w dest_dir then (Inl (OSError dest_dir), w)
           else io_bind (write_buckets dest_dir bs) (\<lambda>_. ret bs) w))"

section \<open>Every line goes to one category\<close>

lemma fold_put_line:
  "fold put_line ls (map (\<lambda>name. (name, f name)) names) =
     map (\<lambda>name. (name, f name @ filter (\<lambda>l. category_of l = name) ls)) names"
proof (induction ls arbitrary: f)
  case (Cons l ls)
  let ?f = "\<lambda>name. if name = category_of l then f name @ [l] else f name"
  have "put_line l (map (\<lambda>name. (name, f name)) names) = map (\<lambda>name. (name, ?f name)) names"
    by (simp add: put_line_def)
  then have "fold put_line (l # ls) (map (\<lambda>name. (name, f name)) names) =
      map (\<lambda>name. (name, ?f name @ filter (\<lambda>x. category_of x = name) ls)) names"
    using Cons [of ?f] by (simp only: fold_simps)
  then show ?case by (simp add: if_distrib)
qed simp

lemma fill_buckets_eq:
  "fill_buckets text_read = map (\<lambda>name. (name, filter (\<lambda>l. category_of l = name) (nonempty_lines text_read))) category_order"
  by (simp add: fill_buckets_def fold_put_line)

lemma category_of_known: "category_of line \<in> set category_order"
proof (cases "List.find (\<lambda>(_, predicate). predicate line) category_rules")
  case (Some rule)
  then have "rule \<in> set category_rules" by (auto simp: find_Some_iff in_set_conv_nth)
  then have "fst rule \<in> set (map fst category_rules)" by simp
  moreover have "set (map fst category_rules) \<subseteq> set category_order"
    by (simp add: category_rules_def category_order_def)
  ultimately show ?thesis using Some by (auto simp: category_of_def split: prod.splits)
qed (simp add: category_of_def category_order_def)

lemma distinct_categories: "distinct category_order"
  by (simp add: category_order_def)

lemma mset_by_category:
  "distinct names \<Longrightarrow> \<forall>l \<in> set ls. g l \<in> set names \<Longrightarrow>
     mset (concat (map (\<lambda>name. filter (\<lambda>l. g l = name) ls) names)) = mset ls"
proof (induction names arbitrary: ls)
  case (Cons name names)
  let ?rest = "filter (\<lambda>l. g l \<noteq> name) ls"
  from Cons.prems have "filter (\<lambda>l. g l = n) ?rest = filter (\<lambda>l. g l = n) ls" if "n \<in> set names" for n
    using that by (auto intro!: filter_cong)
  then have "map (\<lambda>n. filter (\<lambda>l. g l = n) ?rest) names = map (\<lambda>n. filter (\<lambda>l. g l = n) ls) names" by simp
  moreover have "mset (concat (map (\<lambda>n. filter (\<lambda>l. g l = n) ?rest) names)) = mset ?rest"
    using Cons.prems by (intro Cons.IH) auto
  ultimately show ?case
    by (simp only: list.map concat.simps mset_append) (metis mset_filter multiset_partition)
qed simp

lemma universal_newlines_no_return: "CHR 0x0D \<notin> set (universal_newlines s)"
  by (induction s rule: universal_newlines.induct) auto

lemma universal_newlines_id: "CHR 0x0D \<notin> set s \<Longrightarrow> universal_newlines s = s"
  by (induction s rule: universal_newlines.induct) auto

lemma nonempty_lines_plain:
  "l \<in> set (nonempty_lines s) \<Longrightarrow> l \<noteq> [] \<and> CHR 0x0D \<notin> set l \<and> CHR 0x0A \<notin> set l"
  using split_at_fields [of l "\<lambda>x. x = CHR 0x0A" "universal_newlines s"] universal_newlines_no_return [of s]
  by (auto simp: nonempty_lines_def)

lemma split_at_snoc: "P c \<Longrightarrow> split_at P (s @ [c]) = split_at P s @ [[]]"
  by (induction s) (auto split: list.splits)

lemma nonempty_lines_bucket_text:
  assumes "\<forall>l \<in> set ls. l \<noteq> [] \<and> CHR 0x0D \<notin> set l \<and> CHR 0x0A \<notin> set l"
  shows "nonempty_lines (bucket_text ls) = ls"
proof (cases "ls = []")
  case False
  have "CHR 0x0D \<notin> set (join [CHR 0x0A] ls)" using assms by (induction "[CHR 0x0A]" ls rule: join.induct) auto
  then have "universal_newlines (bucket_text ls) = join [CHR 0x0A] ls @ [CHR 0x0A]"
    by (intro universal_newlines_id [THEN trans]) (simp_all add: bucket_text_def)
  with split_join [OF False, of "CHR 0x0A"] assms show ?thesis
    by (simp add: nonempty_lines_def split_at_snoc filter_id_conv)
qed (simp add: nonempty_lines_def bucket_text_def)

lemma category_file_inj:
  assumes "a \<in> set category_order" "b \<in> set category_order" "category_file dest_dir a = category_file dest_dir b"
  shows "a = b"
proof -
  have "\<forall>n \<in> set category_order. \<not> starts_with (n @ ''.txt'') ''/''"
    by (simp add: category_order_def starts_with_def)
  with assms show ?thesis by (auto simp: category_file_def build_path_def split: if_splits)
qed

lemma write_buckets_effect:
  assumes "sw_fails w = (\<lambda>_. False)" "distinct (map fst bs)" "set (map fst bs) \<subseteq> set category_order"
  obtains w' where "write_buckets dest_dir bs w = (Inr (), w')"
    "\<And>name ls. (name, ls) \<in> set bs \<Longrightarrow> sw_files w' (category_file dest_dir name) = Some (bucket_text ls)"
    "\<And>p. p \<notin> category_file dest_dir ` fst ` set bs \<Longrightarrow> sw_files w' p = sw_files w p"
  using assms
proof (induction bs arbitrary: w thesis)
  case Nil
  then show ?case by simp
next
  case (Cons b bs)
  obtain name ls where b: "b = (name, ls)" by (cases b)
  let ?w = "w\<lparr>sw_files := (sw_files w)(category_file dest_dir name \<mapsto> bucket_text ls)\<rparr>"
  have "sw_fails ?w = (\<lambda>_. False)" "distinct (map fst bs)" "set (map fst bs) \<subseteq> set category_order"
    using Cons.prems by (auto simp: b)
  from Cons.IH [OF _ this] obtain w' where w': "write_buckets dest_dir bs ?w = (Inr (), w')"
    "\<And>n l. (n, l) \<in> set bs \<Longrightarrow> sw_files w' (category_file dest_dir n) = Some (bucket_text l)"
    "\<And>p. p \<notin> category_file dest_dir ` fst ` set bs \<Longrightarrow> sw_files w' p = sw_files ?w p"
    by blast
  have run: "write_buckets dest_dir (b # bs) w = (Inr (), w')"
    using w'(1) Cons.prems(2) by (simp add: b Let_def)
  have "category_file dest_dir name \<notin> category_file dest_dir ` fst ` set bs"
  proof
    assume "category_file dest_dir name \<in> category_file dest_dir ` fst ` set bs"
    then obtain m where m: "m \<in> fst ` set bs" "category_file dest_dir name = category_file dest_dir m" by blast
    moreover have "m \<in> set category_order" "name \<in> set category_order" using Cons.prems(4) m(1) by (auto simp: b)
    ultimately have "name = m" using category_file_inj by blast
    with m(1) Cons.prems(3) show False by (simp add: b)
  qed
  then have own: "sw_files w' (category_file dest_dir name) = Some (bucket_text ls)" by (simp add: w'(3))
  show ?case
  proof (rule Cons.prems(1) [OF run])
    fix n l
    assume "(n, l) \<in> set (b # bs)"
    then show "sw_files w' (category_file dest_dir n) = Some (bucket_text l)" using own w'(2) by (auto simp: b)
  next
    fix p
    assume "p \<notin> category_file dest_dir ` fst ` set (b # bs)"
    then show "sw_files w' p = sw_files w p" by (simp add: b w'(3))
  qed
qed

text \<open>Splitting the dictionary loses nothing and repeats nothing: every file reads back as the lines of
  its category in their order, and together they are the lines of the dictionary that are not empty.
\<close>

theorem split_files_partition:
  assumes "sw_files w source_path = Some bytes" "sw_fails w = (\<lambda>_. False)"
  shows "\<exists>bs w'. split_wordlists decode source_path dest_dir w = (Inr bs, w') \<and>
    map fst bs = category_order \<and>
    list_all (\<lambda>(name, ls). ls = filter (\<lambda>l. category_of l = name) (nonempty_lines (decode bytes)) \<and>
      (case sw_files w' (category_file dest_dir name) of Some t \<Rightarrow> nonempty_lines t = ls | None \<Rightarrow> False)) bs \<and>
    mset (concat (map snd bs)) = mset (nonempty_lines (decode bytes))"
proof -
  let ?lines = "nonempty_lines (decode bytes)"
  let ?bs = "fill_buckets (decode bytes)"
  have names: "map fst ?bs = category_order" by (simp add: fill_buckets_eq comp_def)
  obtain w' where w': "write_buckets dest_dir ?bs w = (Inr (), w')"
    "\<And>name ls. (name, ls) \<in> set ?bs \<Longrightarrow> sw_files w' (category_file dest_dir name) = Some (bucket_text ls)"
    using write_buckets_effect [OF assms(2), of ?bs dest_dir] names distinct_categories by (metis order_refl)
  have "split_wordlists decode source_path dest_dir w = (Inr ?bs, w')"
    using assms w'(1) by (simp add: split_wordlists_def Let_def io_bind_def ret_def)
  moreover have "list_all (\<lambda>(name, ls). ls = filter (\<lambda>l. category_of l = name) ?lines \<and>
      (case sw_files w' (category_file dest_dir name) of Some t \<Rightarrow> nonempty_lines t = ls | None \<Rightarrow> False)) ?bs"
  proof -
    have "nonempty_lines (bucket_text (filter (\<lambda>l. category_of l = name) ?lines)) = filter (\<lambda>l. category_of l = name) ?lines" for name
      by (rule nonempty_lines_bucket_text) (use nonempty_lines_plain in auto)
    moreover have "sw_files w' (category_file dest_dir name) = Some (bucket_text (filter (\<lambda>l. category_of l = name) ?lines))"
      if "name \<in> set category_order" for name
      using that by (intro w'(2)) (simp add: fill_buckets_eq)
    ultimately show ?thesis by (simp add: list_all_iff fill_buckets_eq)
  qed
  moreover have "mset (concat (map snd ?bs)) = mset ?lines"
    using mset_by_category [OF distinct_categories, of ?lines category_of] category_of_known
    by (simp add: fill_buckets_eq comp_def)
  ultimately show ?thesis using names by blast
qed

lemma split_files_partition_witness:
  "\<exists>bs w'. split_wordlists id ''dicc.txt'' ''cat''
       \<lparr>sw_files = [''dicc.txt'' \<mapsto> ''.git/config'' @ [CHR 0x0D, CHR 0x0A] @ ''a.bak''], sw_fails = (\<lambda>_. False)\<rparr> = (Inr bs, w') \<and>
     mset (concat (map snd bs)) = {#''.git/config'', ''a.bak''#}"
proof -
  have "nonempty_lines (''.git/config'' @ [CHR 0x0D, CHR 0x0A] @ ''a.bak'') = [''.git/config'', ''a.bak'']" by code_simp
  with split_files_partition [of "\<lparr>sw_files = [''dicc.txt'' \<mapsto> ''.git/config'' @ [CHR 0x0D, CHR 0x0A] @ ''a.bak''], sw_fails = (\<lambda>_. False)\<rparr>"
      "''dicc.txt''" "''.git/config'' @ [CHR 0x0D, CHR 0x0A] @ ''a.bak''" id "''cat''"]
  show ?thesis by auto
qed

section \<open>Building the Rust engine\<close>

definition native_source_files :: "string list" where
  "native_source_files = [''pyproject.toml'', ''Cargo.toml'', ''Cargo.lock'', ''src/lib.rs'']"

definition native_source_dir :: "string \<Rightarrow> string" where
  "native_source_dir root_dir = build_path root_dir ''native''"

text \<open>\<open>/etc/os-release\<close>: the last value of a key counts.\<close>

definition read_os_release :: "string option \<Rightarrow> string \<Rightarrow> string option" where
  "read_os_release content =
     (case content of
        None \<Rightarrow> Map.empty
      | Some t \<Rightarrow>
          fold (\<lambda>line values.
              if CHR ''='' \<notin> set line then values
              else (case partition ''='' line of (key, _, val) \<Rightarrow> values(key \<mapsto> strip_char (CHR 0x22) (strip val))))
            (splitlines t) Map.empty)"

definition install_hint :: "(string \<Rightarrow> string option) \<Rightarrow> string" where
  "install_hint release =
     (let get = (\<lambda>k. case release k of Some v \<Rightarrow> v | None \<Rightarrow> []);
          distro_ids = lower (get ''ID'') # words_of (lower (get ''ID_LIKE'')) in
      if ''ubuntu'' \<in> set distro_ids \<or> ''debian'' \<in> set distro_ids
      then ''Ubuntu/Debian prerequisites: sudo apt-get install -y '' @ ''build-essential python3.14-dev cargo rustc''
      else if ''fedora'' \<in> set distro_ids \<or> ''rhel'' \<in> set distro_ids \<or> ''centos'' \<in> set distro_ids
      then ''Fedora/Red Hat prerequisites: sudo dnf install -y '' @ ''gcc gcc-c++ make python3.14-devel cargo rust''
      else ''Install Python 3.14 development headers, Rust 1.88 or newer, and a C compiler '' @
           ''with your system package manager.'')"

record build_host =
  bh_version :: "nat list"
  bh_is_file :: "string \<Rightarrow> bool"
  bh_exists :: "string \<Rightarrow> bool"
  bh_which :: "string \<Rightarrow> bool"
  bh_pip :: bool
  bh_include_dir :: "string option"
  bh_executable :: string

definition python_headers_available :: "build_host \<Rightarrow> bool" where
  "python_headers_available h =
     (case bh_include_dir h of
        None \<Rightarrow> False
      | Some d \<Rightarrow> d \<noteq> [] \<and> bh_exists h (build_path d ''Python.h''))"

definition native_sources_available :: "build_host \<Rightarrow> string \<Rightarrow> bool" where
  "native_sources_available h source_dir =
     list_all (\<lambda>file_name. bh_is_file h (build_path source_dir file_name)) native_source_files"

definition error_unless :: "bool \<Rightarrow> string \<Rightarrow> string list" where
  "error_unless ok e = (if ok then [] else [e])"

definition get_prerequisite_errors :: "build_host \<Rightarrow> string \<Rightarrow> string list" where
  "get_prerequisite_errors h source_dir =
     (case get_native_python_version_error (bh_version h) of Some e \<Rightarrow> [e] | None \<Rightarrow> []) @
     error_unless (native_sources_available h source_dir)
       (''Native Rust sources are missing from this installation. '' @
        ''Reinstall dirsearch from the latest package or GitHub source.'') @
     error_unless (bh_pip h) (''pip is not available for Python '' @ format_python_version (bh_version h) @ ''.'') @
     concat (map (\<lambda>command. error_unless (bh_which h command) (''Required command not found: '' @ command)) [''cargo'', ''rustc'']) @
     error_unless (list_ex (bh_which h) [''cc'', ''gcc'', ''clang'']) ''Required C compiler not found: cc, gcc, or clang'' @
     error_unless (python_headers_available h)
       (''Python development headers not found for Python '' @ join ''.'' (map show_nat min_native_python) @ ''.'')"

lemma no_prerequisite_errors:
  "get_prerequisite_errors h source_dir = [] \<longleftrightarrow>
     min_native_python \<le> take 2 (bh_version h) \<and> native_sources_available h source_dir \<and> bh_pip h \<and>
     bh_which h ''cargo'' \<and> bh_which h ''rustc'' \<and> (bh_which h ''cc'' \<or> bh_which h ''gcc'' \<or> bh_which h ''clang'') \<and>
     python_headers_available h"
  by (auto simp: get_prerequisite_errors_def error_unless_def get_native_python_version_error_def)

text \<open>How a started program ends (the echo of the command is left out), and the two exceptions \<open>main\<close> catches.\<close>

datatype command_outcome = Exited int | NotStarted string

datatype build_error = CalledProcessError int | BuildOSError string

record build_world =
  bw_dirs :: "string set"
  bw_commands :: "string list list"
  bw_outcome :: "string list \<Rightarrow> command_outcome"
  bw_copies :: bool
  bw_out :: "string list"
  bw_err :: "string list"

definition run_command :: "string list \<Rightarrow> build_world \<Rightarrow> (build_error + unit) \<times> build_world" where
  "run_command command w =
     (let w' = w\<lparr>bw_commands := bw_commands w @ [command]\<rparr> in
      case bw_outcome w command of
        Exited n \<Rightarrow> (if n = 0 then Inr () else Inl (CalledProcessError n), w')
      | NotStarted e \<Rightarrow> (Inl (BuildOSError e), w'))"

definition install_command :: "build_host \<Rightarrow> bool \<Rightarrow> string \<Rightarrow> string list" where
  "install_command h force_reinstall build_source =
     [bh_executable h, ''-m'', ''pip'', ''install''] @ (if force_reinstall then [''--force-reinstall''] else []) @ [build_source]"

definition import_command :: "build_host \<Rightarrow> string list" where
  "import_command h = [bh_executable h, ''-c'', ''import dirsearch_native'']"

text \<open>The temporary directory is removed whatever happens inside of its block.\<close>

definition build_native_engine ::
  "build_host \<Rightarrow> string \<Rightarrow> bool \<Rightarrow> build_world \<Rightarrow> (build_error + unit) \<times> build_world" where
  "build_native_engine h temp_dir force_reinstall w =
     (let w1 = w\<lparr>bw_dirs := insert temp_dir (bw_dirs w)\<rparr>;
          (r, w2) = (if bw_copies w1 then run_command (install_command h force_reinstall (build_path temp_dir ''native'')) w1
                     else (Inl (BuildOSError ''copytree''), w1));
          w3 = w2\<lparr>bw_dirs := bw_dirs w2 - {temp_dir}\<rparr> in
      case r of Inl e \<Rightarrow> (Inl e, w3) | Inr _ \<Rightarrow> run_command (import_command h) w3)"

definition native_builder_main ::
  "build_host \<Rightarrow> string \<Rightarrow> string option \<Rightarrow> string \<Rightarrow> bool \<Rightarrow> build_world \<Rightarrow> int \<times> build_world" where
  "native_builder_main h root_dir os_release temp_dir no_force_reinstall w =
     (let errors = get_prerequisite_errors h (native_source_dir root_dir) in
      if errors \<noteq> []
      then (1, w\<lparr>bw_err := bw_err w @ [''Cannot build dirsearch native Rust engine:''] @ map ((@) ''- '') errors @
                  [install_hint (read_os_release os_release)]\<rparr>)
      else case build_native_engine h temp_dir (\<not> no_force_reinstall) w of
        (Inl (CalledProcessError n), w') \<Rightarrow> (n, w')
      | (Inl (BuildOSError e), w') \<Rightarrow> (1, w'\<lparr>bw_err := bw_err w' @ [''Native Rust engine build failed: '' @ e]\<rparr>)
      | (Inr _, w') \<Rightarrow> (0, w'\<lparr>bw_out := bw_out w' @ [''Native Rust engine installed: dirsearch_native'']\<rparr>))"

lemma build_removes_directory:
  assumes "temp_dir \<notin> bw_dirs w"
  shows "bw_dirs (snd (native_builder_main h root_dir os_release temp_dir no_force w)) = bw_dirs w"
  using assms
  by (auto simp: native_builder_main_def build_native_engine_def run_command_def Let_def
      split: command_outcome.splits build_error.splits sum.splits prod.splits if_splits)

lemma run_command_ok [simp]: "fst (run_command c w) = Inr () \<longleftrightarrow> bw_outcome w c = Exited 0"
  by (simp add: run_command_def Let_def split: command_outcome.split)

text \<open>The exit status is 0 exactly when the engine was installed and can be imported.\<close>

lemma builder_reports_success:
  "fst (native_builder_main h root_dir os_release temp_dir no_force w) = 0 \<longleftrightarrow>
     get_prerequisite_errors h (native_source_dir root_dir) = [] \<and> bw_copies w \<and>
     bw_outcome w (install_command h (\<not> no_force) (build_path temp_dir ''native'')) = Exited 0 \<and>
     bw_outcome w (import_command h) = Exited 0"
  by (auto simp: native_builder_main_def build_native_engine_def run_command_def Let_def
      split: command_outcome.splits build_error.splits sum.splits prod.splits if_splits)

end
