(* ===== verification/AsyncPool.thy ===== *)
theory AsyncPool
  imports Workers
begin

text \<open>
  The tasks of \<open>AsyncFuzzer\<close> (\<open>lib/core/fuzzer.py\<close>): \<open>start\<close> makes them and gathers their results,
  \<open>task_proc\<close> is what each does, \<open>play\<close>, \<open>pause\<close> and \<open>quit\<close> are called between their steps.  The event
  loop switches tasks only where they wait; a step goes from one of these points to the next or to a
  point before it, so every order the loop may choose is among the interleavings.  A cancelled task does
  nothing more but its \<open>finally\<close> parts, at whatever point it waits.
\<close>

section \<open>Tasks\<close>

text \<open>A task waits for the play event, for the semaphore with its claim, for the response, between two
  callbacks or for the delay; or it is over.\<close>

datatype 'w task =
    AtPlay
  | AtSemaphore string
  | AtRequest string
  | AtCallbacks string "('w fuzzer, unit) io list"
  | AtDelay
  | Finished "unit result"

datatype gather_stage = Gathering | Draining exc | Ended "unit result"

record 'w pool =
  po_tasks :: "('w task \<times> bool) list"
  po_fuzzer :: "'w fuzzer"
  po_slots :: nat
  po_stage :: gather_stage

fun task_held :: "'w task \<Rightarrow> string list" where
  "task_held (AtSemaphore path) = [path]"
| "task_held (AtRequest path) = [path]"
| "task_held (AtCallbacks path cbs) = [path]"
| "task_held tk = []"

text \<open>The slots of the semaphore a task has taken.\<close>

fun task_slots :: "'w task \<Rightarrow> nat" where
  "task_slots (AtRequest path) = 1"
| "task_slots (AtCallbacks path cbs) = 1"
| "task_slots tk = 0"

fun task_over :: "'w task \<Rightarrow> bool" where
  "task_over (Finished r) = True"
| "task_over tk = False"

fun task_returned :: "'w task \<Rightarrow> bool" where
  "task_returned (Finished r) = (r = Inr ())"
| "task_returned tk = False"

text \<open>Leaving the scan: the slot is given back, the claim released.\<close>

definition task_leave :: "string \<Rightarrow> unit result \<Rightarrow> nat \<Rightarrow> 'w fuzzer \<Rightarrow> 'w task \<times> 'w fuzzer \<times> nat" where
  "task_leave path r slots fz =
     (case io_finally (\<lambda>fz. (r, fz)) (on_queue (release_claim path)) fz of
        (Inl e, fz) \<Rightarrow> (Finished (Inl e), fz, slots)
      | (Inr _, fz) \<Rightarrow> (AtDelay, fz, slots))"

definition task_answer :: "'w fuzz_env \<Rightarrow> string \<Rightarrow> response result \<Rightarrow> nat \<Rightarrow> 'w fuzzer \<Rightarrow> 'w task \<times> 'w fuzzer \<times> nat" where
  "task_answer env path r slots fz =
     (case r of
        Inr resp \<Rightarrow>
          (case response_callbacks env (fz_base_path fz @ path) resp fz of
             (cbs, fz) \<Rightarrow> (AtCallbacks path (calls cbs resp), fz, slots))
      | Inl (RequestException m) \<Rightarrow>
          (AtCallbacks path (map (\<lambda>cb. cb (RequestException m)) (fe_error_callbacks env)), fz, slots)
      | Inl e \<Rightarrow> task_leave path (Inl e) (slots + 1) fz)"

text \<open>A step of a task that nobody cancelled.\<close>

fun task_step :: "'w fuzz_env \<Rightarrow> 'w task \<Rightarrow> nat \<Rightarrow> 'w fuzzer \<Rightarrow> 'w task \<times> 'w fuzzer \<times> nat" where
  "task_step env AtPlay slots fz =
     (if \<not> fz_play fz then (AtPlay, fz, slots)
      else (case on_queue claim_next fz of
              (Inr path, fz) \<Rightarrow> (AtSemaphore path, fz, slots)
            | (Inl e, fz) \<Rightarrow> (Finished (if e = StopIteration then Inr () else Inl e), fz, slots)))"
| "task_step env (AtSemaphore path) slots fz =
     (if slots = 0 then (AtSemaphore path, fz, slots) else (AtRequest path, fz, slots - 1))"
| "task_step env (AtRequest path) slots fz =
     (case on_world (e_request (fe_scan env) (fz_base_path fz @ path)) fz of
        (r, fz) \<Rightarrow> task_answer env path r slots fz)"
| "task_step env (AtCallbacks path []) slots fz = task_leave path (Inr ()) (slots + 1) fz"
| "task_step env (AtCallbacks path (cb # cbs)) slots fz =
     (case cb fz of
        (Inl e, fz) \<Rightarrow> task_leave path (Inl e) (slots + 1) fz
      | (Inr _, fz) \<Rightarrow> (AtCallbacks path cbs, fz, slots))"
| "task_step env AtDelay slots fz = (AtPlay, fz, slots)"
| "task_step env (Finished r) slots fz = (Finished r, fz, slots)"

text \<open>A cancelled task is resumed with the exception.\<close>

fun cancel_step :: "'w task \<Rightarrow> nat \<Rightarrow> 'w fuzzer \<Rightarrow> 'w task \<times> 'w fuzzer \<times> nat" where
  "cancel_step (AtSemaphore path) slots fz = task_leave path (Inl CancelledError) slots fz"
| "cancel_step (AtRequest path) slots fz = task_leave path (Inl CancelledError) (slots + 1) fz"
| "cancel_step (AtCallbacks path cbs) slots fz = task_leave path (Inl CancelledError) (slots + 1) fz"
| "cancel_step (Finished r) slots fz = (Finished r, fz, slots)"
| "cancel_step tk slots fz = (Finished (Inl CancelledError), fz, slots)"

section \<open>The pool\<close>

definition cancel_all :: "'w pool \<Rightarrow> 'w pool" where
  "cancel_all p = p\<lparr>po_tasks := map (\<lambda>(tk, c). (tk, c \<or> \<not> task_over tk)) (po_tasks p)\<rparr>"

definition async_play :: "'w pool \<Rightarrow> 'w pool" where
  "async_play p = p\<lparr>po_fuzzer := (po_fuzzer p)\<lparr>fz_play := True\<rparr>\<rparr>"

definition async_pause :: "'w pool \<Rightarrow> bool \<times> 'w pool" where
  "async_pause p = (True, p\<lparr>po_fuzzer := (po_fuzzer p)\<lparr>fz_play := False\<rparr>\<rparr>)"

definition async_quit :: "'w pool \<Rightarrow> 'w pool" where
  "async_quit p = cancel_all p"

definition start_pool :: "nat \<Rightarrow> 'w fuzzer \<Rightarrow> 'w pool" where
  "start_pool thread_count fz =
     \<lparr>po_tasks = replicate (min thread_count (dict_len (fz_dictionary fz))) (AtPlay, False),
      po_fuzzer = fz\<lparr>fz_play := True\<rparr>, po_slots = thread_count, po_stage = Gathering\<rparr>"

definition async_start :: "'w fuzz_env \<Rightarrow> nat \<Rightarrow> 'w fuzzer \<Rightarrow> 'w pool result \<times> 'w fuzzer" where
  "async_start env thread_count fz =
     (case async_setup_scanners env fz of
        (Inl e, fz) \<Rightarrow> (Inl e, fz)
      | (Inr _, fz) \<Rightarrow> (Inr (start_pool thread_count fz), fz))"

definition set_task :: "nat \<Rightarrow> 'w task \<times> bool \<Rightarrow> 'w fuzzer \<Rightarrow> nat \<Rightarrow> 'w pool \<Rightarrow> 'w pool" where
  "set_task i tk fz slots p = p\<lparr>po_tasks := (po_tasks p)[i := tk], po_fuzzer := fz, po_slots := slots\<rparr>"

text \<open>
  \<open>gather\<close> ends with all its tasks, or raises with the first of them that fails; then the tasks that are
  left are cancelled and awaited, and the exception goes on.
\<close>

inductive pool_step :: "'w fuzz_env \<Rightarrow> 'w pool \<Rightarrow> 'w pool \<Rightarrow> bool" for env where
  run: "i < length (po_tasks p) \<Longrightarrow> po_tasks p ! i = (tk, False) \<Longrightarrow>
      task_step env tk (po_slots p) (po_fuzzer p) = (tk', fz, slots) \<Longrightarrow>
      pool_step env p (set_task i (tk', False) fz slots p)"
| cancelled: "i < length (po_tasks p) \<Longrightarrow> po_tasks p ! i = (tk, True) \<Longrightarrow>
      cancel_step tk (po_slots p) (po_fuzzer p) = (tk', fz, slots) \<Longrightarrow>
      pool_step env p (set_task i (tk', True) fz slots p)"
| fail: "po_stage p = Gathering \<Longrightarrow> (Finished (Inl e), c) \<in> set (po_tasks p) \<Longrightarrow>
      pool_step env p (cancel_all (p\<lparr>po_stage := Draining e\<rparr>))"
| outer_cancel: "po_stage p = Gathering \<Longrightarrow> pool_step env p (cancel_all (p\<lparr>po_stage := Draining CancelledError\<rparr>))"
| finish: "po_stage p = Gathering \<Longrightarrow> list_all (\<lambda>(tk, _). task_returned tk) (po_tasks p) \<Longrightarrow>
      pool_step env p (p\<lparr>po_stage := Ended (Inr ())\<rparr>)"
| drained: "po_stage p = Draining e \<Longrightarrow> list_all (\<lambda>(tk, _). task_over tk) (po_tasks p) \<Longrightarrow>
      pool_step env p (p\<lparr>po_stage := Ended (Inl e)\<rparr>)"
| play: "pool_step env p (async_play p)"
| pause: "pool_step env p (snd (async_pause p))"
| quit: "pool_step env p (async_quit p)"

inductive_cases pool_stepE: "pool_step env p p'"

section \<open>What a step of a task keeps\<close>

fun task_ok :: "(string \<Rightarrow> bool) \<Rightarrow> 'w task \<Rightarrow> bool" where
  "task_ok valid (AtCallbacks path cbs) = (\<forall>cb \<in> set cbs. queue_safe valid cb)"
| "task_ok valid tk = True"

definition task_keeps ::
  "(string \<Rightarrow> bool) \<Rightarrow> 'w task \<Rightarrow> nat \<Rightarrow> 'w fuzzer \<Rightarrow> 'w task \<times> 'w fuzzer \<times> nat \<Rightarrow> bool" where
  "task_keeps valid tk slots fz res =
     (case res of (tk', fz', slots') \<Rightarrow>
        task_ok valid tk' \<and>
        mset (d_claimed (fz_dictionary fz')) + mset (task_held tk) = mset (d_claimed (fz_dictionary fz)) + mset (task_held tk') \<and>
        slots' + task_slots tk' = slots + task_slots tk \<and>
        (task_over tk \<longrightarrow> tk' = tk) \<and>
        (task_returned tk' \<longrightarrow> dict_pending (fz_dictionary fz') = [] \<or> task_returned tk \<and> fz' = fz))"

lemma task_leave_keeps:
  assumes "path \<in> set (d_claimed (fz_dictionary f))" "d_claimed (fz_dictionary f) = d_claimed (fz_dictionary fz)"
    and "task_held tk = [path]" "slots' = slots + task_slots tk" "\<not> task_over tk"
  shows "task_keeps valid tk slots fz (task_leave path r slots' f)"
proof -
  have "task_leave path r slots' f =
      (case r of Inl e \<Rightarrow> Finished (Inl e) | Inr _ \<Rightarrow> AtDelay,
       f\<lparr>fz_dictionary := (fz_dictionary f)\<lparr>d_claimed := remove1 path (d_claimed (fz_dictionary f))\<rparr>\<rparr>, slots')"
    using assms(1) by (cases r) (simp_all add: task_leave_def io_finally_def on_queue_def release_claim_held)
  with assms show ?thesis by (cases r) (simp_all add: task_keeps_def)
qed

lemma cancel_step_keeps:
  assumes "set (task_held tk) \<subseteq> set (d_claimed (fz_dictionary fz))"
  shows "task_keeps valid tk slots fz (cancel_step tk slots fz)"
  using assms by (cases tk) (auto intro!: task_leave_keeps, auto simp: task_keeps_def)

lemma response_callbacks_frame:
  assumes "response_callbacks env path resp fz = (cbs, fz')"
  shows "fz_dictionary fz' = fz_dictionary fz" "cbs = fe_match_callbacks env \<or> cbs = fe_not_found_callbacks env"
  using assms is_match_frame(1) [of env path resp fz]
  by (auto simp: response_callbacks_def split: prod.splits if_splits)

lemma task_answer_keeps:
  assumes "callbacks_safe valid env" "path \<in> set (d_claimed (fz_dictionary fz))"
    and "fz_dictionary f = fz_dictionary fz"
  shows "task_keeps valid (AtRequest path) slots fz (task_answer env path r slots f)"
proof (cases r)
  case (Inl e)
  have safe: "task_ok valid (AtCallbacks path (map (\<lambda>cb. cb x) (fe_error_callbacks env)))" for x
    using assms(1) by (auto simp: callbacks_safe_def)
  show ?thesis
  proof (cases "\<exists>m. e = RequestException m")
    case True
    then obtain m where "e = RequestException m" by blast
    with Inl safe assms(3) show ?thesis by (simp add: task_answer_def task_keeps_def)
  next
    case False
    with Inl have "task_answer env path r slots f = task_leave path (Inl e) (slots + 1) f"
      by (cases e) (simp_all add: task_answer_def)
    with assms(2,3) show ?thesis by (auto intro!: task_leave_keeps)
  qed
next
  case (Inr resp)
  obtain cbs f1 where c: "response_callbacks env (fz_base_path f @ path) resp f = (cbs, f1)" by fastforce
  have "\<forall>cb \<in> set (calls cbs resp). queue_safe valid cb"
    using response_callbacks_frame(2) [OF c] assms(1) by (auto simp: callbacks_safe_def calls_def)
  with Inr c response_callbacks_frame(1) [OF c] assms(3) show ?thesis
    by (simp add: task_answer_def task_keeps_def)
qed

lemma task_step_keeps:
  assumes "callbacks_safe valid env" "task_ok valid tk"
    and "set (task_held tk) \<subseteq> set (d_claimed (fz_dictionary fz))"
  shows "task_keeps valid tk slots fz (task_step env tk slots fz)"
proof (cases tk)
  case AtPlay
  show ?thesis
  proof (cases "claim_next (fz_dictionary fz)")
    case (Pair r d)
    with AtPlay show ?thesis
      using dict_pending_empty [of "fz_dictionary fz"] claim_next_claims [of "fz_dictionary fz"]
      by (cases r) (auto simp: on_queue_def task_keeps_def)
  qed
next
  case (AtRequest path)
  obtain r f where r: "on_world (e_request (fe_scan env) (fz_base_path fz @ path)) fz = (r, f)" by fastforce
  with on_world_frame [OF r] task_answer_keeps [OF assms(1), of path fz f] assms(3) AtRequest show ?thesis by simp
next
  case (AtCallbacks path cbs)
  have path: "path \<in> set (d_claimed (fz_dictionary fz))" using assms(3) AtCallbacks by simp
  show ?thesis
  proof (cases cbs)
    case Nil
    with AtCallbacks path show ?thesis by (auto intro!: task_leave_keeps)
  next
    case (Cons cb cbs')
    obtain r f where r: "cb fz = (r, f)" by fastforce
    have safe: "queue_safe valid cb" and ok: "task_ok valid (AtCallbacks path cbs')"
      using assms(2) AtCallbacks Cons by auto
    note eff = safe_effect(2) [OF safe r]
    show ?thesis
    proof (cases r)
      case (Inl e)
      with AtCallbacks Cons r path eff show ?thesis by (auto intro!: task_leave_keeps)
    next
      case (Inr u)
      with AtCallbacks Cons r eff ok show ?thesis by (auto simp: task_keeps_def)
    qed
  qed
qed (use assms in \<open>auto simp: task_keeps_def\<close>)

section \<open>Invariants of the pool\<close>

definition pool_held :: "('w task \<times> bool) list \<Rightarrow> string multiset" where
  "pool_held ts = sum_list (map (\<lambda>t. mset (task_held (fst t))) ts)"

definition pool_inv :: "(string \<Rightarrow> bool) \<Rightarrow> nat \<Rightarrow> 'w pool \<Rightarrow> bool" where
  "pool_inv valid n p \<longleftrightarrow>
     mset (d_claimed (fz_dictionary (po_fuzzer p))) = pool_held (po_tasks p) \<and>
     po_slots p + sum_list (map (\<lambda>t. task_slots (fst t)) (po_tasks p)) = n \<and>
     (\<forall>t \<in> set (po_tasks p). task_ok valid (fst t)) \<and>
     (\<forall>r. po_stage p = Ended r \<longrightarrow> (\<forall>t \<in> set (po_tasks p). task_over (fst t) \<and> (r = Inr () \<longrightarrow> task_returned (fst t)))) \<and>
     (dict_pending (fz_dictionary (po_fuzzer p)) = [] \<or> (\<exists>t \<in> set (po_tasks p). \<not> task_returned (fst t)))"

lemma sum_list_replace:
  fixes f :: "'a \<Rightarrow> 'b :: comm_monoid_add"
  shows "i < length xs \<Longrightarrow> sum_list (map f (xs[i := x])) + f (xs ! i) = sum_list (map f xs) + f x"
  by (induction xs arbitrary: i) (auto split: nat.split simp: ac_simps)

lemma sum_list_member:
  fixes f :: "'a \<Rightarrow> 'b multiset"
  shows "x \<in> set xs \<Longrightarrow> f x \<subseteq># sum_list (map f xs)"
  by (induction xs) (auto intro: subset_mset.add_increasing)

lemma pool_held_member:
  assumes "pool_inv valid n p" "t \<in> set (po_tasks p)"
  shows "set (task_held (fst t)) \<subseteq> set (d_claimed (fz_dictionary (po_fuzzer p)))"
proof -
  have "mset (task_held (fst t)) \<subseteq># mset (d_claimed (fz_dictionary (po_fuzzer p)))"
    using assms sum_list_member [OF assms(2), of "\<lambda>t. mset (task_held (fst t))"]
    by (simp add: pool_inv_def pool_held_def)
  then show ?thesis by (metis set_mset_mono set_mset_mset)
qed

lemma set_task_inv:
  assumes inv: "pool_inv valid n p" and i: "i < length (po_tasks p)" "po_tasks p ! i = (tk, c)"
    and k: "task_keeps valid tk (po_slots p) (po_fuzzer p) (tk', fz, slots)"
  shows "pool_inv valid n (set_task i (tk', c) fz slots p)"
proof -
  let ?ts = "(po_tasks p)[i := (tk', c)]"
  have sub: "set ?ts \<subseteq> insert (tk', c) (set (po_tasks p))" by (rule set_update_subset_insert)
  have tk: "(tk, c) \<in> set (po_tasks p)" using i by (metis nth_mem)
  have "mset (d_claimed (fz_dictionary fz)) + mset (task_held tk) = pool_held ?ts + mset (task_held tk)"
    using inv k i sum_list_replace [OF i(1), of "\<lambda>t. mset (task_held (fst t))" "(tk', c)"]
    by (simp add: pool_inv_def task_keeps_def pool_held_def)
  then have 1: "mset (d_claimed (fz_dictionary fz)) = pool_held ?ts" by simp
  have 2: "slots + sum_list (map (\<lambda>t. task_slots (fst t)) ?ts) = n"
    using inv k i sum_list_replace [OF i(1), of "\<lambda>t. task_slots (fst t)" "(tk', c)"]
    by (simp add: pool_inv_def task_keeps_def)
  have 3: "\<forall>t \<in> set ?ts. task_ok valid (fst t)"
    using inv k sub by (auto simp: pool_inv_def task_keeps_def)
  have 4: "task_over (fst t) \<and> (r = Inr () \<longrightarrow> task_returned (fst t))" if r: "po_stage p = Ended r" and t: "t \<in> set ?ts" for r t
  proof -
    have all: "\<forall>t \<in> set (po_tasks p). task_over (fst t) \<and> (r = Inr () \<longrightarrow> task_returned (fst t))"
      using inv r unfolding pool_inv_def by blast
    with tk have "task_over tk" by (metis fst_conv)
    with k have "tk' = tk" by (simp add: task_keeps_def)
    with sub t tk have "t \<in> set (po_tasks p)" by auto
    with all show ?thesis by blast
  qed
  have 5: "dict_pending (fz_dictionary fz) = [] \<or> (\<exists>t \<in> set ?ts. \<not> task_returned (fst t))"
  proof (cases "task_returned tk'")
    case False
    with i(1) show ?thesis by (auto intro!: bexI [of _ "(tk', c)"] set_update_memI)
  next
    case True
    with k consider "dict_pending (fz_dictionary fz) = []" | "task_returned tk" "fz = po_fuzzer p"
      by (auto simp: task_keeps_def)
    then show ?thesis
    proof cases
      case 2
      then have "tk' = tk" using k by (cases tk) (simp_all add: task_keeps_def)
      then have "?ts = po_tasks p" using i by (metis list_update_id)
      with inv 2(2) show ?thesis by (simp add: pool_inv_def)
    qed simp
  qed
  show ?thesis using 1 2 3 4 5 by (simp add: pool_inv_def set_task_def)
qed

lemma pool_inv_tasks:
  assumes "pool_inv valid n p" "map fst (po_tasks q) = map fst (po_tasks p)"
    and "fz_dictionary (po_fuzzer q) = fz_dictionary (po_fuzzer p)" "po_slots q = po_slots p"
    and "\<And>r. po_stage q = Ended r \<Longrightarrow> \<forall>t \<in> set (po_tasks p). task_over (fst t) \<and> (r = Inr () \<longrightarrow> task_returned (fst t))"
  shows "pool_inv valid n q"
proof -
  have sums: "sum_list (map (\<lambda>t. f (fst t)) ts) = sum_list (map f (map fst ts))"
    for f :: "'a task \<Rightarrow> 'b :: comm_monoid_add" and ts :: "('a task \<times> bool) list"
    by (simp add: comp_def)
  have sum: "sum_list (map (\<lambda>t. f (fst t)) (po_tasks q)) = sum_list (map (\<lambda>t. f (fst t)) (po_tasks p))"
    for f :: "'a task \<Rightarrow> 'b :: comm_monoid_add"
    unfolding sums assms(2) ..
  have tasks: "fst ` set (po_tasks q) = fst ` set (po_tasks p)" using assms(2) by (metis set_map)
  have all: "(\<forall>t \<in> set (po_tasks q). P (fst t)) \<longleftrightarrow> (\<forall>t \<in> set (po_tasks p). P (fst t))" for P
  proof -
    have "(\<forall>t \<in> set (po_tasks q). P (fst t)) \<longleftrightarrow> (\<forall>x \<in> fst ` set (po_tasks q). P x)" by simp
    also have "\<dots> \<longleftrightarrow> (\<forall>t \<in> set (po_tasks p). P (fst t))" unfolding tasks by simp
    finally show ?thesis .
  qed
  have ex: "(\<exists>t \<in> set (po_tasks q). \<not> task_returned (fst t)) \<longleftrightarrow> (\<exists>t \<in> set (po_tasks p). \<not> task_returned (fst t))"
    using all [of task_returned] by blast
  have ended: "\<forall>t \<in> set (po_tasks q). task_over (fst t) \<and> (r = Inr () \<longrightarrow> task_returned (fst t))"
    if "po_stage q = Ended r" for r
    using assms(5) [OF that] all [of "\<lambda>x. task_over x \<and> (r = Inr () \<longrightarrow> task_returned x)"] by blast
  show ?thesis
    using assms(1) ended
    unfolding pool_inv_def pool_held_def sum [of "\<lambda>x. mset (task_held x)"] sum [of task_slots] assms(3,4) ex all [of "task_ok valid"]
    by blast
qed

lemma cancel_all_tasks: "map fst (po_tasks (cancel_all p)) = map fst (po_tasks p)"
  by (simp add: cancel_all_def case_prod_unfold comp_def)

lemma pool_step_inv:
  assumes "pool_step env p p'" "callbacks_safe valid env" "pool_inv valid n p"
  shows "pool_inv valid n p'"
  using assms(1)
proof cases
  case (run i tk tk' fz slots)
  have t: "(tk, False) \<in> set (po_tasks p)" using run by (metis nth_mem)
  then have "task_ok valid tk" using assms(3) by (auto simp: pool_inv_def)
  from task_step_keeps [OF assms(2) this] pool_held_member [OF assms(3) t]
  have "task_keeps valid tk (po_slots p) (po_fuzzer p) (tk', fz, slots)" using run(4) by (metis fst_conv)
  with run show ?thesis using set_task_inv [OF assms(3)] by blast
next
  case (cancelled i tk tk' fz slots)
  have t: "(tk, True) \<in> set (po_tasks p)" using cancelled by (metis nth_mem)
  from cancel_step_keeps pool_held_member [OF assms(3) t]
  have "task_keeps valid tk (po_slots p) (po_fuzzer p) (tk', fz, slots)" using cancelled(4) by (metis fst_conv)
  with cancelled show ?thesis using set_task_inv [OF assms(3)] by blast
next
  case (fail e c)
  show ?thesis unfolding fail(1)
    by (rule pool_inv_tasks [OF assms(3)], unfold cancel_all_tasks) (simp_all add: cancel_all_def)
next
  case outer_cancel
  show ?thesis unfolding outer_cancel(1)
    by (rule pool_inv_tasks [OF assms(3)], unfold cancel_all_tasks) (simp_all add: cancel_all_def)
next
  case finish
  have "task_returned tk \<Longrightarrow> task_over tk" for tk :: "'a task" by (cases tk) simp_all
  then show ?thesis using finish(3) unfolding finish(1)
    by (intro pool_inv_tasks [OF assms(3)]) (auto simp: list_all_iff)
next
  case (drained e)
  then show ?thesis unfolding drained(1)
    by (intro pool_inv_tasks [OF assms(3)]) (auto simp: list_all_iff)
next
  case play
  show ?thesis unfolding play
    by (rule pool_inv_tasks [OF assms(3)]) (use assms(3) in \<open>auto simp: async_play_def pool_inv_def\<close>)
next
  case pause
  show ?thesis unfolding pause
    by (rule pool_inv_tasks [OF assms(3)]) (use assms(3) in \<open>auto simp: async_pause_def pool_inv_def\<close>)
next
  case quit
  show ?thesis unfolding quit async_quit_def
    by (rule pool_inv_tasks [OF assms(3)], rule cancel_all_tasks)
      (use assms(3) in \<open>auto simp: cancel_all_def pool_inv_def\<close>)
qed

lemma start_pool_inv:
  assumes "d_claimed (fz_dictionary fz) = []" "0 < n" "0 < dict_len (fz_dictionary fz)"
  shows "pool_inv valid n (start_pool n fz)"
proof -
  have "sum_list (replicate k ({#} :: string multiset)) = {#}" for k by (induction k) simp_all
  then show ?thesis using assms by (auto simp: pool_inv_def start_pool_def pool_held_def sum_list_replicate)
qed

lemma pool_reachable_inv:
  assumes "(pool_step env)\<^sup>*\<^sup>* p p'" "callbacks_safe valid env" "pool_inv valid n p"
  shows "pool_inv valid n p'"
  using assms by (induction rule: rtranclp_induct) (auto dest: pool_step_inv)

lemma sum_list_nil: "\<forall>x \<in> set xs. f x = (0 :: 'b :: comm_monoid_add) \<Longrightarrow> sum_list (map f xs) = 0"
  by (induction xs) simp_all

text \<open>C9: However the event loop switches between the tasks, and whenever the scan is paused, resumed, quit,
  cancelled from outside or stopped by an exception of a task: never more than the given number of
  requests is under way, and once \<open>start\<close> ends nothing is claimed and all slots are free; if it ends
  without an exception, the queue is empty as well.
\<close>

theorem async_start_leaves_nothing:
  assumes "callbacks_safe valid env" "d_claimed (fz_dictionary fz) = []" "0 < n" "0 < dict_len (fz_dictionary fz)"
    and "(pool_step env)\<^sup>*\<^sup>* (start_pool n fz) p"
  shows "length (filter (\<lambda>t. 0 < task_slots (fst t)) (po_tasks p)) \<le> n \<and>
    (\<forall>r. po_stage p = Ended r \<longrightarrow>
       d_claimed (fz_dictionary (po_fuzzer p)) = [] \<and> po_slots p = n \<and>
       (r = Inr () \<longrightarrow> dict_pending (fz_dictionary (po_fuzzer p)) = []))"
proof -
  have inv: "pool_inv valid n p"
    using pool_reachable_inv [OF assms(5,1)] start_pool_inv [OF assms(2-4)] by blast
  have "length (filter (\<lambda>t. 0 < task_slots (fst t)) ts) \<le> sum_list (map (\<lambda>t. task_slots (fst t)) ts)"
    for ts :: "('a task \<times> bool) list" by (induction ts) auto
  then have slots: "length (filter (\<lambda>t. 0 < task_slots (fst t)) (po_tasks p)) \<le> n"
    using inv unfolding pool_inv_def by (metis add_leE le_add2 order_trans)
  have none: "task_over tk \<Longrightarrow> task_held tk = [] \<and> task_slots tk = 0" for tk :: "'a task" by (cases tk) simp_all
  have "d_claimed (fz_dictionary (po_fuzzer p)) = [] \<and> po_slots p = n \<and>
      (r = Inr () \<longrightarrow> dict_pending (fz_dictionary (po_fuzzer p)) = [])" if e: "po_stage p = Ended r" for r
  proof -
    have over: "\<forall>t \<in> set (po_tasks p). task_over (fst t) \<and> (r = Inr () \<longrightarrow> task_returned (fst t))"
      using inv e unfolding pool_inv_def by blast
    with none have "pool_held (po_tasks p) = {#}" "sum_list (map (\<lambda>t. task_slots (fst t)) (po_tasks p)) = 0"
      unfolding pool_held_def by (auto intro!: sum_list_nil)
    with inv over show ?thesis by (auto simp: pool_inv_def)
  qed
  with slots show ?thesis by blast
qed

abbreviation single :: "'w task \<Rightarrow> 'w fuzzer \<Rightarrow> nat \<Rightarrow> 'w pool" where
  "single tk fz n \<equiv> \<lparr>po_tasks = [(tk, False)], po_fuzzer = fz, po_slots = n, po_stage = Gathering\<rparr>"

lemma single_run:
  "task_step env tk n fz = (tk', fz', n') \<Longrightarrow> pool_step env (single tk fz n) (single tk' fz' n')"
  using pool_step.run [of 0 "single tk fz n" tk env tk' fz' n'] by (simp add: set_task_def)

lemma single_scan:
  "(pool_step refusing)\<^sup>*\<^sup>* (start_pool 1 (handed [''a''] 0 [] True))
     ((single (Finished (Inr ())) (handed [''a''] 1 [] True) 1)\<lparr>po_stage := Ended (Inr ())\<rparr>)"
proof -
  let ?h = "\<lambda>i c. handed [''a''] i c True"
  have 0: "start_pool 1 (?h 0 []) = single AtPlay (?h 0 []) 1"
    by (simp add: start_pool_def handed_def new_fuzzer_def dict_len_def dict_init_def)
  note h = handed_def new_fuzzer_def on_queue_def claim_next_def dict_init_def Let_def
  have "pool_step refusing (single AtPlay (?h 0 []) 1) (single (AtSemaphore ''a'') (?h 1 [''a'']) 1)"
    by (rule single_run) (simp add: h)
  moreover have "pool_step refusing (single (AtSemaphore ''a'') (?h 1 [''a'']) 1) (single (AtRequest ''a'') (?h 1 [''a'']) 0)"
    by (rule single_run) simp
  moreover have "pool_step refusing (single (AtRequest ''a'') (?h 1 [''a'']) 0) (single (AtCallbacks ''a'' []) (?h 1 [''a'']) 0)"
    by (rule single_run) (simp add: h on_world_def refusing_def demo_fuzz_def task_answer_def)
  moreover have "pool_step refusing (single (AtCallbacks ''a'' []) (?h 1 [''a'']) 0) (single AtDelay (?h 1 []) 1)"
    by (rule single_run) (simp add: h task_leave_def io_finally_def release_claim_def list_remove_def)
  moreover have "pool_step refusing (single AtDelay (?h 1 []) 1) (single AtPlay (?h 1 []) 1)"
    by (rule single_run) simp
  moreover have "pool_step refusing (single AtPlay (?h 1 []) 1) (single (Finished (Inr ())) (?h 1 []) 1)"
    by (rule single_run) (simp add: h)
  moreover have "pool_step refusing (single (Finished (Inr ())) (?h 1 []) 1)
      ((single (Finished (Inr ())) (?h 1 []) 1)\<lparr>po_stage := Ended (Inr ())\<rparr>)"
    by (rule pool_step.finish) simp_all
  ultimately show ?thesis unfolding 0 by (meson converse_rtranclp_into_rtranclp rtranclp.rtrancl_refl)
qed

theorem async_start_leaves_nothing_witness:
  "\<exists>p. (pool_step refusing)\<^sup>*\<^sup>* (start_pool 1 (handed [''a''] 0 [] True)) p \<and> po_stage p = Ended (Inr ()) \<and>
     d_claimed (fz_dictionary (po_fuzzer p)) = [] \<and> dict_pending (fz_dictionary (po_fuzzer p)) = []"
proof -
  have "d_claimed (fz_dictionary (handed [''a''] 0 [] True)) = []" "0 < dict_len (fz_dictionary (handed [''a''] 0 [] True))"
    by (simp_all add: handed_def new_fuzzer_def dict_len_def dict_init_def)
  from async_start_leaves_nothing [OF refusing_safe this(1) zero_less_one this(2) single_scan] single_scan
  show ?thesis by (intro exI [of _ "(single (Finished (Inr ())) (handed [''a''] 1 [] True) 1)\<lparr>po_stage := Ended (Inr ())\<rparr>"]) auto
qed

text \<open>An answered pause says nothing: a request that is under way may still be answered and reported.\<close>

lemma async_pause_does_not_wait:
  "fst (async_pause p) = True" "po_tasks (snd (async_pause p)) = po_tasks p"
  by (simp_all add: async_pause_def)

text \<open>A cancelled task never claims again.\<close>

lemma cancelled_task_ends:
  "cancel_step tk slots fz = (tk', fz', slots') \<Longrightarrow> \<forall>path \<in> set (task_held tk). path \<in> set (d_claimed (fz_dictionary fz)) \<Longrightarrow>
     task_over tk' \<and> dict_pending (fz_dictionary fz') = dict_pending (fz_dictionary fz)"
  by (cases tk) (auto simp: task_leave_def io_finally_def on_queue_def release_claim_held dict_pending_def)

section \<open>Stopping the threads\<close>

text \<open>
  \<open>Fuzzer.stop\<close> gives the workers that are alive a common deadline.  A worker is here the moment it ends
  at, if it does; \<open>join\<close> waits for that moment or until its timeout has passed.  The result is the answer
  and the moment of it.
\<close>

definition alive_at :: "rat \<Rightarrow> rat option \<Rightarrow> bool" where
  "alive_at now ending = (case ending of None \<Rightarrow> True | Some t \<Rightarrow> now < t)"

definition join_until :: "rat \<Rightarrow> rat option \<Rightarrow> rat \<Rightarrow> rat" where
  "join_until deadline ending now =
     (case ending of None \<Rightarrow> deadline | Some t \<Rightarrow> if t \<le> now then now else min t deadline)"

fun join_all :: "rat \<Rightarrow> rat option list \<Rightarrow> rat \<Rightarrow> rat" where
  "join_all deadline [] now = now"
| "join_all deadline (worker # workers) now =
     (if deadline - now \<le> 0 then now else join_all deadline workers (join_until deadline worker now))"

definition stop_threads :: "rat \<Rightarrow> rat \<Rightarrow> rat option list \<Rightarrow> bool \<times> rat" where
  "stop_threads timeout now threads =
     (let workers = filter (alive_at now) threads in
      if workers = [] then (True, now)
      else (let ended = join_all (now + max 0 timeout) workers now in
            (\<not> list_ex (alive_at ended) workers, ended)))"

lemma join_all_bounds: "now \<le> deadline \<Longrightarrow> now \<le> join_all deadline ws now \<and> join_all deadline ws now \<le> deadline"
proof (induction ws arbitrary: now)
  case (Cons w ws)
  show ?case
  proof (cases "deadline - now \<le> 0")
    case False
    have "now \<le> join_until deadline w now" "join_until deadline w now \<le> deadline"
      using Cons.prems by (auto simp: join_until_def split: option.split)
    with False Cons.IH [of "join_until deadline w now"] show ?thesis by auto
  qed (use Cons.prems in simp)
qed simp

lemma join_all_waits:
  assumes "now \<le> deadline" "Some t \<in> set ws" "t \<le> deadline"
  shows "t \<le> join_all deadline ws now"
  using assms
proof (induction ws arbitrary: now)
  case (Cons w ws)
  show ?case
  proof (cases "deadline - now \<le> 0")
    case True
    with Cons.prems show ?thesis by auto
  next
    case False
    let ?n = "join_until deadline w now"
    have n: "?n \<le> deadline" using Cons.prems by (auto simp: join_until_def split: option.split)
    show ?thesis
    proof (cases "w = Some t")
      case True
      then have "t \<le> ?n" using Cons.prems(3) by (auto simp: join_until_def)
      with False join_all_bounds [OF n, of ws] show ?thesis by simp
    next
      case w: False
      with Cons.prems have "Some t \<in> set ws" by auto
      with False Cons.IH [OF n _ Cons.prems(3)] show ?thesis by simp
    qed
  qed
qed simp

text \<open>Stopping answers within the timeout, and it answers yes exactly when every thread has ended by the
  deadline, however the waiting was spread over the threads.
\<close>

theorem stop_is_exact:
  "snd (stop_threads timeout now threads) \<le> now + max 0 timeout \<and>
   (fst (stop_threads timeout now threads) \<longleftrightarrow> list_all (\<lambda>w. \<not> alive_at (now + max 0 timeout) w) threads)"
proof -
  let ?d = "now + max 0 timeout" and ?ws = "filter (alive_at now) threads"
  have d: "now \<le> ?d" by simp
  let ?e = "join_all ?d ?ws now"
  have e: "now \<le> ?e" "?e \<le> ?d" using join_all_bounds [OF d] by blast+
  have mono: "a \<le> b \<Longrightarrow> alive_at b w \<Longrightarrow> alive_at a w" for a b w
    by (auto simp: alive_at_def split: option.splits)
  have all: "list_all (\<lambda>w. \<not> alive_at ?d w) threads \<longleftrightarrow> list_all (\<lambda>w. \<not> alive_at ?d w) ?ws"
    using mono [OF d] by (auto simp: list_all_iff)
  have "alive_at ?e w \<longleftrightarrow> alive_at ?d w" if "w \<in> set ?ws" for w
  proof
    assume "alive_at ?d w" with mono [OF e(2)] show "alive_at ?e w" by blast
  next
    assume a: "alive_at ?e w"
    show "alive_at ?d w"
    proof (cases w)
      case (Some t)
      with a that join_all_waits [OF d, of t ?ws] show ?thesis by (force simp: alive_at_def)
    qed (simp add: alive_at_def)
  qed
  then have "\<not> list_ex (alive_at ?e) ?ws \<longleftrightarrow> list_all (\<lambda>w. \<not> alive_at ?d w) ?ws"
    by (auto simp: list_ex_iff list_all_iff)
  with all e d show ?thesis by (auto simp: stop_threads_def Let_def)
qed

end
