(* ===== verification/Startup.thy ===== *)
theory Startup
  imports Options
begin

text \<open>
  What is there before the controller: the default options every module shares (\<open>lib/core/data.py\<close>), and
  \<open>main\<close> of \<open>dirsearch.py\<close>, which puts the parsed options over them and decides whether a status of the
  wordlist is printed, a session needs consent, or the controller starts.
\<close>

section \<open>Default options\<close>

definition default_options :: "(string \<times> pyval) list" where
  "default_options =
     [(''urls'', PyList []), (''urls_file'', PyNone), (''stdin_urls'', PyNone), (''cidr'', PyNone),
      (''raw_file'', PyNone), (''session_file'', PyNone), (''session_id'', PyNone),
      (''list_sessions'', PyBool False), (''sessions_dir'', PyNone), (''config'', PyNone),
      (''wordlists'', PyList []), (''wordlist_backend'', PyStr ''auto''), (''wordlist_status'', PyBool False),
      (''wordlist_max_size'', PyInt 500000), (''extensions'', PyTuple []),
      (''force_extensions'', PyBool False), (''overwrite_extensions'', PyBool False),
      (''exclude_extensions'', PyTuple []), (''prefixes'', PyTuple []), (''suffixes'', PyTuple []),
      (''uppercase'', PyBool False), (''lowercase'', PyBool False), (''capitalization'', PyBool False),
      (''thread_count'', PyInt 25), (''recursive'', PyBool False), (''deep_recursive'', PyBool False),
      (''force_recursive'', PyBool False), (''recursion_depth'', PyInt 0),
      (''recursion_status_codes'', PySet []), (''filter_threshold'', PyInt 0), (''subdirs'', PyList []),
      (''exclude_subdirs'', PyList []), (''include_status_codes'', PySet []),
      (''exclude_status_codes'', PySet []), (''exclude_sizes'', PySet []), (''exclude_texts'', PyNone),
      (''exclude_regex'', PyNone), (''exclude_redirect'', PyNone), (''exclude_response'', PyNone),
      (''skip_on_status'', PySet []), (''auto_calibration'', PyBool False), (''matcher_mode'', PyStr ''or''),
      (''filter_mode'', PyStr ''or''), (''match_status_codes'', PySet []), (''filter_status_codes'', PySet []),
      (''match_sizes'', PyTuple []), (''filter_sizes'', PyTuple []), (''match_words'', PyTuple []),
      (''filter_words'', PyTuple []), (''match_lines'', PyTuple []), (''filter_lines'', PyTuple []),
      (''match_regex'', PyNone), (''filter_regex'', PyNone), (''match_headers'', PyList []),
      (''filter_headers'', PyList []), (''match_header_regex'', PyNone), (''filter_header_regex'', PyNone),
      (''match_time'', PyTuple []), (''filter_time'', PyTuple []), (''minimum_response_size'', PyInt 0),
      (''maximum_response_size'', PyInt 0), (''max_time'', PyInt 0), (''target_max_time'', PyInt 0),
      (''http_method'', PyStr ''GET''), (''request_backend'', PyStr ''python''), (''data'', PyNone),
      (''data_file'', PyNone), (''nmap_report'', PyNone), (''headers'', PyDict []), (''headers_file'', PyNone),
      (''follow_redirects'', PyBool False), (''random_agents'', PyBool False), (''auth'', PyNone),
      (''auth_type'', PyNone), (''cert_file'', PyNone), (''key_file'', PyNone), (''user_agent'', PyNone),
      (''cookie'', PyNone), (''timeout'', PyInt 10), (''delay'', PyFloat (Fin 0)), (''proxies'', PyList []),
      (''proxies_file'', PyNone), (''proxy_auth'', PyNone), (''replay_proxy'', PyNone), (''tor'', PyNone),
      (''scheme'', PyNone), (''max_rate'', PyInt 0), (''max_retries'', PyInt 1),
      (''network_interface'', PyNone), (''ip'', PyNone), (''exit_on_error'', PyBool False),
      (''crawl'', PyBool False), (''find_backup'', PyBool False), (''async_mode'', PyBool True),
      (''full_url'', PyBool False), (''redirects_history'', PyBool False), (''color'', PyBool True),
      (''quiet'', PyBool False), (''disable_cli'', PyBool False), (''verbose'', PyBool False),
      (''output_file'', PyNone), (''output_table'', PyNone), (''output_formats'', PyNone),
      (''sqlite_commit_batch_size'', PyInt 1), (''mysql_url'', PyNone), (''postgres_url'', PyNone),
      (''save_response'', PyNone), (''save_response_jsonl'', PyNone), (''log_file'', PyNone),
      (''log_file_size'', PyInt 0)]"

definition shared_options :: opt_values where
  "shared_options k = (case map_of default_options k of Some v \<Rightarrow> v | None \<Rightarrow> PyNone)"

section \<open>The main function\<close>

text \<open>The value of an option as what \<open>vars(opt)\<close> holds: every option of the command line.\<close>

definition update_options :: "(string \<times> pyval) list \<Rightarrow> opt_values \<Rightarrow> opt_values" where
  "update_options parsed vs = fold (\<lambda>(k, v) vs. vs(k := v)) parsed vs"

definition minimum_python :: "nat list" where "minimum_python = [3, 11]"

definition python_supported :: "nat list \<Rightarrow> bool" where
  "python_supported version \<longleftrightarrow> minimum_python \<le> version"

datatype main_outcome = StatusPrinted "string list" | NotConfirmed | ControllerStarts opt_values

definition text_list :: "pyval \<Rightarrow> string list" where
  "text_list v = (case v of PyList vs \<Rightarrow> map (\<lambda>x. case x of PyStr s \<Rightarrow> s | _ \<Rightarrow> []) vs | _ \<Rightarrow> [])"

definition status_lines :: "string list \<Rightarrow> nat \<Rightarrow> int \<Rightarrow> string list" where
  "status_lines wordlists entries limit =
     [''Wordlist status'', ''Files: '' @ show_nat (length wordlists)] @ map ((@) ''- '') wordlists @
     [''Generated entries: '' @ show_nat entries, ''Generation limit: '' @ show_int limit]"

text \<open>
  \<open>count_entries\<close> gives the number of entries of the dictionary of some files or the error of the limit,
  \<open>answer\<close> is what the user types.
\<close>

definition main ::
  "(string \<times> pyval) list result \<Rightarrow> (string list \<Rightarrow> nat result) \<Rightarrow> string \<Rightarrow> opt_values \<Rightarrow> main_outcome result" where
  "main parsed count_entries answer vs =
     rbind parsed (\<lambda>p.
       let vs = update_options p vs in
       if py_truth (vs ''wordlist_status'')
       then (case count_entries (text_list (vs ''wordlists'')) of
               Inl (WordlistLimitError m) \<Rightarrow> fail m
             | Inl e \<Rightarrow> Inl e
             | Inr entries \<Rightarrow>
                 Inr (StatusPrinted (status_lines (text_list (vs ''wordlists'')) entries
                        (case vs ''wordlist_max_size'' of PyInt n \<Rightarrow> n | _ \<Rightarrow> 0))))
       else if py_truth (vs ''session_file'') \<and> answer \<noteq> ''c'' then Inr NotConfirmed
       else Inr (ControllerStarts vs))"

section \<open>How the defaults fit the rest\<close>

text \<open>The backend reads \<open>capitalization\<close>, which no option of the command line sets; the option is
  stored as \<open>capital\<close>, which has no default.\<close>

lemma capitalization_unset:
  "list_all (\<lambda>q. co_dest q \<noteq> ''capitalization'') (iter_options [])"
  "list_ex (\<lambda>q. co_dest q = ''capital'') (iter_options [])"
  "map_of default_options ''capital'' = None" "map_of default_options ''capitalization'' = Some (PyBool False)"
  by code_simp+

text \<open>Sets are restored from a saved session as sets; of the tuples only the first four are.\<close>

definition is_set :: "pyval \<Rightarrow> bool" where
  "is_set v = (case v of PySet _ \<Rightarrow> True | _ \<Rightarrow> False)"

definition is_tuple :: "pyval \<Rightarrow> bool" where
  "is_tuple v = (case v of PyTuple _ \<Rightarrow> True | _ \<Rightarrow> False)"

lemma sets_survive_sessions:
  "list_all (\<lambda>(k, v). is_set v \<longrightarrow> k \<in> set session_option_set_keys) default_options"
  by code_simp

lemma tuples_lost_in_sessions:
  "map fst (filter (\<lambda>(k, v). is_tuple v \<and> k \<notin> set session_option_tuple_keys) default_options) =
     [''match_sizes'', ''filter_sizes'', ''match_words'', ''filter_words'', ''match_lines'', ''filter_lines'',
      ''match_time'', ''filter_time'']"
  by code_simp

lemma update_options_other: "k \<notin> fst ` set parsed \<Longrightarrow> update_options parsed vs k = vs k"
  by (induction parsed arbitrary: vs) (auto simp: update_options_def)

text \<open>The controller never starts on options the parser refused, nor on a session without consent.\<close>

lemma controller_needs_consent:
  assumes "main parsed count_entries answer shared_options = Inr (ControllerStarts vs)"
  shows "\<exists>p. parsed = Inr p \<and> vs = update_options p shared_options \<and> \<not> py_truth (vs ''wordlist_status'') \<and>
    (py_truth (vs ''session_file'') \<longrightarrow> answer = ''c'')"
  using assms by (auto simp: main_def rbind_eq_Inr Let_def fail_def split: if_splits sum.splits exc.splits)

end
