(* ===== verification/Corpus.thy ===== *)
theory Corpus
  imports Dictionary
begin

text \<open>
  \<open>NativeWordlistCorpus\<close> of \<open>lib/core/wordlist_backend.py\<close>, the list of paths that stays in Rust: subscripts
  are turned into calls of the Rust object, whose \<open>get\<close> and \<open>slice\<close> (\<open>native/src/wordlist.rs\<close>) are
  modelled over the list of its items.  It is compared with a list of Python.
\<close>

section \<open>Subscripts of Python\<close>

datatype subscript = Index int | Slice "int option" "int option" "int option"

text \<open>\<open>slice.indices(n)\<close>.\<close>

definition clip_index :: "int \<Rightarrow> int \<Rightarrow> int \<Rightarrow> int \<Rightarrow> int" where
  "clip_index n lo up i = (if i < 0 then max (i + n) lo else min i up)"

definition slice_indices :: "int option \<Rightarrow> int option \<Rightarrow> int option \<Rightarrow> int \<Rightarrow> (int \<times> int \<times> int) result" where
  "slice_indices start stop step n =
     (let step = (case step of None \<Rightarrow> 1 | Some s \<Rightarrow> s) in
      if step = 0 then Inl (ValueError ''slice step cannot be zero'')
      else
        (let lo = (if step < 0 then - 1 else 0); up = (if step < 0 then n - 1 else n) in
         Inr (case start of None \<Rightarrow> if step < 0 then up else lo | Some i \<Rightarrow> clip_index n lo up i,
              case stop of None \<Rightarrow> if step < 0 then lo else up | Some i \<Rightarrow> clip_index n lo up i,
              step)))"

text \<open>\<open>range(start, stop, step)\<close>.\<close>

definition range_length :: "int \<Rightarrow> int \<Rightarrow> int \<Rightarrow> nat" where
  "range_length start stop step =
     (if 0 < step then nat ((stop - start + step - 1) div step)
      else nat ((start - stop - step - 1) div (- step)))"

definition py_range :: "int \<Rightarrow> int \<Rightarrow> int \<Rightarrow> int list" where
  "py_range start stop step = map (\<lambda>k. start + int k * step) [0..<range_length start stop step]"

text \<open>A subscript of a list: one item, or the items of the range.\<close>

definition list_getitem :: "'a list \<Rightarrow> subscript \<Rightarrow> 'a list result" where
  "list_getitem xs sub =
     (case sub of
        Index i \<Rightarrow>
          (let j = (if i < 0 then i + int (length xs) else i) in
           if j < 0 \<or> int (length xs) \<le> j then Inl IndexError else Inr [xs ! nat j])
      | Slice start stop step \<Rightarrow>
          rbind (slice_indices start stop step (int (length xs))) (\<lambda>(start, stop, step).
            Inr (map (\<lambda>i. xs ! nat i) (py_range start stop step))))"

section \<open>The corpus\<close>

text \<open>\<open>get\<close> and \<open>slice\<close> of the Rust object; an index that is no \<open>usize\<close> is refused before.\<close>

definition rust_get :: "string list \<Rightarrow> int \<Rightarrow> string result" where
  "rust_get items index =
     (if index < 0 then Inl (ValueError ''OverflowError'')
      else if nat index < length items then Inr (items ! nat index) else Inl IndexError)"

definition rust_slice :: "string list \<Rightarrow> int \<Rightarrow> int \<Rightarrow> string list result" where
  "rust_slice items start end_index =
     (if start < 0 \<or> end_index < 0 then Inl (ValueError ''OverflowError'')
      else if start \<le> end_index \<and> nat end_index \<le> length items
      then Inr (take (nat end_index - nat start) (drop (nat start) items)) else Inl IndexError)"

definition corpus_getitem :: "string list \<Rightarrow> subscript \<Rightarrow> string list result" where
  "corpus_getitem items sub =
     (case sub of
        Slice start stop step \<Rightarrow>
          rbind (slice_indices start stop step (int (length items))) (\<lambda>(start, stop, step).
            if step = 1 then rust_slice items start stop else rmap (rust_get items) (py_range start stop step))
      | Index index \<Rightarrow>
          (let index = (if index < 0 then index + int (length items) else index) in
           if index < 0 \<or> int (length items) \<le> index then Inl IndexError
           else rbind (rust_get items index) (\<lambda>x. Inr [x])))"

definition corpus_iter :: "string list \<Rightarrow> string list result" where
  "corpus_iter items = rmap (rust_get items) (py_range 0 (int (length items)) 1)"

section \<open>The corpus behaves like a list\<close>

lemma slice_indices_bounds:
  assumes "slice_indices start stop step n = Inr (a, b, s)" "0 \<le> n"
  shows "s \<noteq> 0" "0 < s \<Longrightarrow> 0 \<le> a \<and> a \<le> n \<and> 0 \<le> b \<and> b \<le> n" "s < 0 \<Longrightarrow> - 1 \<le> a \<and> a < n \<and> - 1 \<le> b \<and> b < n"
  using assms by (auto simp: slice_indices_def clip_index_def Let_def split: if_splits option.splits)

lemma div_times_le: "0 < s \<Longrightarrow> x div s * s \<le> (x :: int)"
  using minus_mod_eq_div_mult [of x s] pos_mod_sign [of s x] by linarith

lemma py_range_bounds:
  assumes "i \<in> set (py_range a b s)" "s \<noteq> 0"
  shows "0 < s \<Longrightarrow> a \<le> i \<and> i < b" "s < 0 \<Longrightarrow> b < i \<and> i \<le> a"
proof -
  from assms obtain k where k: "i = a + int k * s" "k < range_length a b s" by (auto simp: py_range_def)
  show "a \<le> i \<and> i < b" if "0 < s"
  proof -
    have "int k < (b - a + s - 1) div s" using k(2) that by (simp add: range_length_def)
    then have "int k + 1 \<le> (b - a + s - 1) div s" by simp
    then have "(int k + 1) * s \<le> (b - a + s - 1) div s * s" using that by (simp add: mult_right_mono)
    also have "\<dots> \<le> b - a + s - 1" using that by (rule div_times_le)
    finally have "int k * s < b - a" by (simp add: algebra_simps)
    with that k(1) show ?thesis by simp
  qed
  show "b < i \<and> i \<le> a" if "s < 0"
  proof -
    have "int k < (a - b - s - 1) div (- s)" using k(2) that by (simp add: range_length_def)
    then have "int k + 1 \<le> (a - b - s - 1) div (- s)" by simp
    then have "(int k + 1) * (- s) \<le> (a - b - s - 1) div (- s) * (- s)" using that by (simp add: mult_right_mono)
    also have "\<dots> \<le> a - b - s - 1" using that by (intro div_times_le) simp
    finally have "- (int k * s) < a - b" by (simp add: algebra_simps)
    moreover have "int k * s \<le> 0" using that by (simp add: mult_nonneg_nonpos)
    ultimately show ?thesis using k(1) by simp
  qed
qed

lemma rmap_rust_get:
  "\<forall>i \<in> set is. 0 \<le> i \<and> i < int (length items) \<Longrightarrow> rmap (rust_get items) is = Inr (map (\<lambda>i. items ! nat i) is)"
  by (induction "is") (auto simp: rust_get_def)

lemma py_range_unit: "a \<le> b \<Longrightarrow> py_range a b 1 = map (\<lambda>k. a + int k) [0..<nat (b - a)]"
  by (simp add: py_range_def range_length_def)

text \<open>Every subscript of the corpus gives what it gives of the list, but a slice whose end lies before
  its start: the list gives nothing, the corpus raises \<open>IndexError\<close>.\<close>

theorem corpus_is_list:
  "corpus_getitem items sub =
     (case sub of
        Slice start stop step \<Rightarrow>
          (case slice_indices start stop step (int (length items)) of
             Inr (a, b, s) \<Rightarrow> if s = 1 \<and> b < a then Inl IndexError else list_getitem items sub
           | Inl e \<Rightarrow> list_getitem items sub)
      | _ \<Rightarrow> list_getitem items sub)"
proof (cases sub)
  case (Index i)
  then show ?thesis by (auto simp: corpus_getitem_def list_getitem_def rust_get_def Let_def nat_less_iff)
next
  case (Slice start stop step)
  show ?thesis
  proof (cases "slice_indices start stop step (int (length items))")
    case (Inl e)
    with Slice show ?thesis by (simp add: corpus_getitem_def list_getitem_def)
  next
    case (Inr abs)
    then obtain a b s where abs: "slice_indices start stop step (int (length items)) = Inr (a, b, s)" by (cases abs) auto
    note bounds = slice_indices_bounds [OF abs]
    show ?thesis
    proof (cases "s = 1")
      case True
      with bounds(2) have ab: "0 \<le> a" "a \<le> int (length items)" "0 \<le> b" "b \<le> int (length items)" by simp_all
      have "take (nat b - nat a) (drop (nat a) items) = map (\<lambda>i. items ! nat i) (py_range a b 1)" if "a \<le> b"
        using ab that by (intro nth_equalityI) (auto simp: py_range_unit nat_add_distrib nat_diff_distrib)
      with True ab Slice abs show ?thesis
        by (auto simp: corpus_getitem_def list_getitem_def rust_slice_def)
    next
      case False
      have "\<forall>i \<in> set (py_range a b s). 0 \<le> i \<and> i < int (length items)"
        using bounds py_range_bounds [of _ a b s] by (cases "0 < s") fastforce+
      with False Slice abs show ?thesis
        by (simp add: corpus_getitem_def list_getitem_def rmap_rust_get)
    qed
  qed
qed

lemma corpus_iter_list: "corpus_iter items = Inr items"
proof -
  have "\<forall>i \<in> set (py_range 0 (int (length items)) 1). 0 \<le> i \<and> i < int (length items)"
    by (auto simp: py_range_unit)
  then have "corpus_iter items = Inr (map (\<lambda>i. items ! nat i) (py_range 0 (int (length items)) 1))"
    unfolding corpus_iter_def by (rule rmap_rust_get)
  also have "map (\<lambda>i. items ! nat i) (py_range 0 (int (length items)) 1) = items"
    by (simp add: py_range_unit comp_def map_nth)
  finally show ?thesis .
qed

lemma backward_slice_raises:
  "corpus_getitem [''a'', ''b'', ''c''] (Slice (Some 2) (Some 1) None) = Inl IndexError"
  "list_getitem [''a'', ''b'', ''c''] (Slice (Some 2) (Some 1) None) = Inr []"
  by code_simp+

text \<open>The slices the work queue takes never run backwards.\<close>

lemma queue_slice:
  assumes "a \<le> b" "b \<le> length items"
  shows "corpus_getitem items (Slice (Some (int a)) (Some (int b)) None) = Inr (slice a b items)"
  using assms
  by (simp add: corpus_getitem_def slice_indices_def clip_index_def rust_slice_def slice_def drop_take)

end
