(* ===== verification/Spec2Isabelle.thy ===== *)
theory Spec2Isabelle
  imports NativeControl Controller Requester Options Reports Stores Command Api Crawl Stealth Transport Lifecycle Logger Terminal Tools AsyncPool Startup Corpus
begin

text \<open>
  A verification library of dirsearch, the web path scanner.  It models the Python side of the program,
  file by file, as executable definitions, and proves what makes each part and their composition correct.
  The theorems that state a property of the program carry a claim number (\<open>C1\<close>, \<open>C2\<close>, \dots) in the
  text before them and have a witness, a concrete run on which their hypotheses hold.

  \<^bold>\<open>How the program works.\<close>  \<open>dirsearch.py\<close> parses the command line, merges it with the configuration file,
  checks the options and starts the controller.  The controller takes one target after the other, and for
  each a queue of directories.  For every directory a fuzzer takes paths from the work queue
  (\<open>Dictionary\<close>), asks the requester for them and classifies each response by filters, wildcard scanners
  and repetition; callbacks print and report the hits, store bodies, and add discovered paths and
  directories.  There are three fuzzers: threads, \<open>asyncio\<close> tasks, and the native one whose requests a
  Rust engine makes.  A scan can be paused, saved as a session and resumed.

  \<^bold>\<open>Theories and files\<close> (under \<open>lib/\<close> where nothing else is said).

  \<^item> Shared ground: \<open>Prelude\<close> (exceptions of \<open>core/exceptions.py\<close> and of Python, results, operations with
    effects, lists), \<open>PyStr\<close>, \<open>PyRe\<close>, \<open>PyUrl\<close>, \<open>PyDifflib\<close> (what is used of \<open>str\<close>, \<open>re\<close>, \<open>urllib.parse\<close>,
    \<open>difflib\<close>), \<open>Structures\<close> (\<open>core/structures.py\<close>), \<open>Settings\<close> (\<open>core/settings.py\<close>), \<open>Common\<close> and \<open>Url\<close>
    (\<open>utils/common.py\<close>, \<open>parse/url.py\<close>), \<open>Files\<close> (\<open>utils/file.py\<close>, over a file system with failing calls).
  \<^item> Start: \<open>Cmdline\<close> (\<open>parse/cmdline.py\<close>), \<open>Config\<close> (\<open>parse/config.py\<close>), \<open>Options\<close> (\<open>core/options.py\<close>),
    \<open>Headers\<close> (\<open>parse/headers.py\<close>, \<open>parse/rawrequest.py\<close>), \<open>SafeXml\<close> (\<open>utils/safe_xml.py\<close>, \<open>parse/nmap.py\<close>),
    \<open>Startup\<close> (\<open>core/data.py\<close>, \<open>dirsearch.py\<close>), \<open>Command\<close> (\<open>utils/command.py\<close>).
  \<^item> The list of paths: \<open>Wordlist\<close> (\<open>core/wordlist_backend.py\<close>, \<open>core/wordlist_template.py\<close>) and \<open>Dictionary\<close>
    (\<open>core/dictionary.py\<close>), \<open>Corpus\<close> (the list kept in Rust); \<open>Stealth\<close> (\<open>utils/random.py\<close>) makes the words of calibration requests.
  \<^item> Requests: \<open>Proxy\<close> (\<open>connection/proxy.py\<close>, \<open>ip_overrides.py\<close>, the backend checks), \<open>Requester\<close> and
    \<open>Transport\<close> (\<open>connection/requester.py\<close>, \<open>rate_limiter.py\<close>, \<open>core/decorators.py\<close>), \<open>NativeBackend\<close>
    (\<open>connection/native.py\<close>, \<open>utils/mimetype.py\<close>), \<open>Response\<close> (\<open>connection/response.py\<close>).
  \<^item> Classification: \<open>Filters\<close> (\<open>core/filters.py\<close>), \<open>Diff\<close> (\<open>utils/diff.py\<close>), \<open>Scanner\<close> (\<open>core/scanner.py\<close>),
    \<open>Fuzzer\<close> (the classes' common part of \<open>core/fuzzer.py\<close>).
  \<^item> Scans: \<open>Workers\<close> (threads), \<open>AsyncPool\<close> (tasks), \<open>NativeFuzzer\<close> and \<open>NativeControl\<close> (the engine's chunks,
    the life cycle of the scanning thread), all of \<open>core/fuzzer.py\<close>; \<open>Crawl\<close> (\<open>utils/crawl.py\<close>).
  \<^item> Control: \<open>Controller\<close> and \<open>Lifecycle\<close> (\<open>controller/controller.py\<close>, \<open>utils/schemedet.py\<close>), \<open>Session\<close>
    (\<open>controller/session.py\<close>), \<open>Api\<close> (\<open>core/api.py\<close>, the library interface).
  \<^item> Output: \<open>Journal\<close> (JSON, XML and HTML reports of \<open>report/\<close>), \<open>Reports\<close> (text and database reports, the
    manager), \<open>Stores\<close> (response stores), \<open>Logger\<close> (\<open>core/logger.py\<close>), \<open>Terminal\<close> (\<open>view/\<close>).
  \<^item> \<open>Tools\<close>: \<open>scripts/split_wordlists.py\<close> and \<open>core/native_builder.py\<close>.

  \<^bold>\<open>State and operations.\<close>  An object is a record of its fields; a method takes the record and gives its
  result and the new record, under the source's name where that is free.  \<open>exc + 'a\<close> is a computation
  that may raise, \<open>('w, 'a) io\<close> one that acts on a state too; an exception leaves the state as the code
  leaves it.  A method under a lock is one step.  Interleavings are step relations: \<open>dict_step\<close>,
  \<open>thread_step\<close>, \<open>pool_step\<close> and the turns of \<open>NativeControl\<close>; their invariants are proved by rule
  induction and hold for every schedule.  An option is given by the record of the component that reads
  it or, in \<open>Cmdline\<close>, \<open>Config\<close>, \<open>Options\<close> and \<open>Startup\<close>, by the map from names to Python values.

  \<^bold>\<open>Interfaces.\<close>  \<open>work_queue\<close> (interpreted by \<open>Dictionary\<close>) is what a fuzzer relies on: claims take from the
  front of what is pending and finishing or requeueing them loses nothing.  \<open>report_laws\<close> (interpreted for
  the JSON and the HTML reports) is what the journal needs of a format, \<open>keyed_store\<close> (address overrides)
  and \<open>insertion_set\<close> (ordered sets) the laws of the two containers.

  \<^bold>\<open>What the groups of theorems show.\<close>  The queue loses and repeats nothing in any history (C1 to C4), and
  this is carried through threads, tasks and the engine's chunks: a scan that ended normally has left no
  path and no claim behind, and pausing means what it says or fails in the one way C8 shows (C5 to C9,
  C12, C15, C16).  Classification bounds floods of similar responses and the body it keeps (C10, C11).
  Requests respect the rate and turn every failure into the exception the fuzzers handle (C13, C14, C23,
  C24).  Sessions, directories and targets: resuming loses nothing, every loop ends, everything is
  released (C17 to C22).  The start reads what was written and checks what the rest relies on (C25 to
  C28).  Reports, stores, files, the log and the terminal keep whole records under failing writes and
  show no secrets and no control characters (C29 to C37).  The library interface, the crawler and the
  generator of words do what their callers need (C38 to C40).

  \<^bold>\<open>Bounds and fuel.\<close>  Loops are structural or have a measure.  A loop whose end depends on others takes a
  number of rounds, and a theorem gives a sufficient number: pending and discoverable paths for a worker
  (C6) and for the native loop (C15), queued and yet unknown directories for the loop of the controller
  (C19), the targets for the run (C20); a wait for the rate limit is bounded by its polls, and C23 holds
  for any number of them.  Searches that may not end (\<open>existing_parent\<close>, \<open>files_below\<close>, \<open>chain_has\<close>) are
  partial functions whose result says so.  The constants are the code's: 1000 attempts for a word, at most
  40 links followed, the thresholds and sizes of \<open>Settings\<close>.  Sizes are unbounded integers as in Python;
  times and floats are exact rationals, but for the progress bar, which is computed in doubles.

  \<^bold>\<open>Parameters.\<close>  What is not under \<open>src/\<close> is an argument: requests, httpx and urllib3, the Rust engine, the
  database drivers, BeautifulSoup, the XML parser, \<open>colorama\<close>, user-given regular expressions, codecs, SHA-256,
  \<open>hash\<close>, the clock and the sources of randomness.  Failing operations are given by lists or functions of
  the world.  Strings are lists of characters below 256, their case mappings those of ASCII.

  \<^bold>\<open>Not modelled.\<close>  Packaging and build scripts (\<open>setup.py\<close>, \<open>scripts/build_*.py\<close>, \<open>scripts/configure_stack.py\<close>),
  the generators of \<open>db/\<close>, \<open>testing.py\<close> and the Rust sources; reading the environment and standard input
  (\<open>get_config_file\<close>, \<open>read_stdin\<close>); help texts beyond the options they list; the delivery of signals, of
  which the handlers are modelled; log messages; the Windows console.  These only pass values on or call
  other programs, and no modelled decision depends on them but through the arguments above.
\<close>

section \<open>Options and directories\<close>

text \<open>C28: without an entry for the excluded subdirectories, on the command line or in the configuration
  file, the checked options exclude the empty name, which every path starts with: no directory is ever
  queued, so nothing is scanned.\<close>
theorem no_exclusion_excludes_all:
  assumes "check_options env vs = Inr vs'" "vs ''exclude_subdirs'' = PyStr []"
    and "texts_of (vs' ''exclude_subdirs'') = Inr (co_exclude_subdirs opts)"
  shows "add_directory opts path c = c"
proof -
  have run: "rfold (\<lambda>step. step env) option_steps vs = Inr vs'" using assms(1) by (simp add: check_options_def)
  let ?pre = "take 11 option_steps" and ?post = "drop 12 option_steps"
  have "option_steps = ?pre @ set_affixes # ?post" by (simp add: option_steps_def)
  with run have "rfold (\<lambda>step. step env) (?pre @ set_affixes # ?post) vs = Inr vs'" by simp
  then obtain v1 v2 where r: "rfold (\<lambda>step. step env) ?pre vs = Inr v1" "set_affixes env v1 = Inr v2"
    "rfold (\<lambda>step. step env) ?post v2 = Inr vs'" by (rule run_step)
  have "list_all (leaves ''exclude_subdirs'') ?pre" "list_all (leaves ''exclude_subdirs'') ?post"
    by (simp_all add: option_steps_def leave_rules step_sets)
  with r(1,3) have "v1 ''exclude_subdirs'' = vs ''exclude_subdirs''" "vs' ''exclude_subdirs'' = v2 ''exclude_subdirs''"
    by (auto dest: run_leaves)
  with r(2) assms(2) have "vs' ''exclude_subdirs'' = py_strings (subdir_list [])"
    by (auto simp: set_affixes_def rbind_eq_Inr the_text_def)
  moreover have "subdir_list [] = [[]]" by code_simp
  ultimately have "co_exclude_subdirs opts = [[]]" using assms(3) by (simp add: texts_of_def py_strings_def py_iter_def py_text_def)
  then show ?thesis by (simp add: add_directory_def is_excluded_subdir_def Let_def)
qed

theorem no_exclusion_excludes_all_witness:
  "add_directory (quiet_options\<lparr>co_exclude_subdirs := [[]]\<rparr>) ''admin/'' sample_controller = sample_controller"
proof -
  obtain vs where vs: "check_options sample_startup sample_merged = Inr vs" "vs ''exclude_subdirs'' = py_strings [[]]"
    using sample_checks by (auto split: sum.splits)
  have "sample_merged ''exclude_subdirs'' = PyStr []" by (simp add: sample_merged_def sample_table_def)
  from no_exclusion_excludes_all [OF vs(1) this] vs(2) show ?thesis
    by (simp add: texts_of_def py_strings_def py_iter_def py_text_def)
qed

end
